(* ===== verification/Prelude.thy ===== *)
theory Prelude
  imports Main "HOL-Library.Word" "HOL-Library.Code_Target_Nat"
begin

text \<open>
  Shared vocabulary of the OwlMux development. A Rust \<open>Result<T, E>\<close> is the sum \<open>'e + 'a\<close> with
  \<open>Err\<close> on the left and \<open>Ok\<close> on the right; the \<open>?\<close> operator is \<open>r_bind\<close>. A method that takes
  \<open>&mut self\<close> and returns a \<open>Result\<close> is a state-and-result computation \<open>sr\<close>, whose sequencing
  \<open>sr_bind\<close> keeps the state reached when a step fails, exactly as early returns do in Rust.
  The collection \<open>sr_rules\<close> holds the structural rules from which a proof that an operation
  keeps a state predicate is assembled; \<open>res_simps\<close> holds the inversion facts for results; \<open>wp_simps\<close>
  and \<open>wp_rules\<close> compute weakest preconditions of composed and of primitive computations.
\<close>

named_theorems res_simps
named_theorems sr_rules
named_theorems wp_simps
named_theorems wp_rules

section \<open>Types\<close>

text \<open>A byte of a Rust slice is a \<open>char\<close> (eight bits); \<open>str\<close> and \<open>Vec<u8>\<close> are byte lists.\<close>

type_synonym bytes = string
type_synonym uuid = "128 word"

section \<open>Results\<close>

abbreviation Ok :: "'a \<Rightarrow> 'e + 'a" where "Ok \<equiv> Inr"
abbreviation Err :: "'e \<Rightarrow> 'e + 'a" where "Err \<equiv> Inl"

definition r_bind :: "'e + 'a \<Rightarrow> ('a \<Rightarrow> 'e + 'b) \<Rightarrow> 'e + 'b" where
  "r_bind m f = (case m of Inl e \<Rightarrow> Inl e | Inr a \<Rightarrow> f a)"

definition ok_or :: "'a option \<Rightarrow> 'e \<Rightarrow> 'e + 'a" where
  "ok_or x e = (case x of None \<Rightarrow> Err e | Some a \<Rightarrow> Ok a)"

definition map_err :: "('e \<Rightarrow> 'f) \<Rightarrow> 'e + 'a \<Rightarrow> 'f + 'a" where
  "map_err f m = (case m of Inl e \<Rightarrow> Err (f e) | Inr a \<Rightarrow> Ok a)"

definition is_ok :: "'e + 'a \<Rightarrow> bool" where
  "is_ok m = (case m of Inl _ \<Rightarrow> False | Inr _ \<Rightarrow> True)"

lemma r_bind_Err [simp]: "r_bind (Err e) f = Err e"
  and r_bind_Ok [simp]: "r_bind (Ok a) f = f a"
  by (simp_all add: r_bind_def)

lemma r_bind_eq_Ok [res_simps]: "r_bind m f = Ok b \<longleftrightarrow> (\<exists>a. m = Ok a \<and> f a = Ok b)"
  by (cases m) auto

lemma r_bind_eq_Err [res_simps]:
  "r_bind m f = Err e \<longleftrightarrow> m = Err e \<or> (\<exists>a. m = Ok a \<and> f a = Err e)"
  by (cases m) auto

lemma ok_or_simps [simp]: "ok_or None e = Err e" "ok_or (Some a) e = Ok a"
  by (simp_all add: ok_or_def)

lemma ok_or_eq_Ok [res_simps]: "ok_or x e = Ok a \<longleftrightarrow> x = Some a"
  by (cases x) auto

lemma map_err_simps [simp]: "map_err f (Err e) = Err (f e)" "map_err f (Ok a) = Ok a"
  by (simp_all add: map_err_def)

lemma map_err_eq_Ok [res_simps]: "map_err f m = Ok a \<longleftrightarrow> m = Ok a"
  by (cases m) auto

lemma is_ok_simps [simp]: "is_ok (Err e) = False" "is_ok (Ok a) = True"
  by (simp_all add: is_ok_def)

lemma is_ok_iff: "is_ok m \<longleftrightarrow> (\<exists>a. m = Ok a)"
  by (cases m) auto

text \<open>A Rust loop body that may return early, run over a slice.\<close>

fun r_map :: "('a \<Rightarrow> 'e + 'b) \<Rightarrow> 'a list \<Rightarrow> 'e + 'b list" where
  "r_map f [] = Ok []"
| "r_map f (x # xs) = r_bind (f x) (\<lambda>y. r_bind (r_map f xs) (\<lambda>ys. Ok (y # ys)))"

lemma r_map_Ok_iff: "r_map f xs = Ok ys \<longleftrightarrow> list_all2 (\<lambda>x y. f x = Ok y) xs ys"
  by (induction xs arbitrary: ys) (auto simp: res_simps list_all2_Cons1)

section \<open>Slices\<close>

lemma find_SomeD: "List.find p xs = Some x \<Longrightarrow> x \<in> set xs \<and> p x"
  by (auto simp: find_Some_iff)

definition starts_with :: "'a list \<Rightarrow> 'a list \<Rightarrow> bool" where
  "starts_with p xs = (take (length p) xs = p)"

definition strip_prefix :: "'a list \<Rightarrow> 'a list \<Rightarrow> 'a list option" where
  "strip_prefix p xs = (if starts_with p xs then Some (drop (length p) xs) else None)"

definition strip_suffix :: "'a list \<Rightarrow> 'a list \<Rightarrow> 'a list option" where
  "strip_suffix q xs = map_option rev (strip_prefix (rev q) (rev xs))"

fun position :: "('a \<Rightarrow> bool) \<Rightarrow> 'a list \<Rightarrow> nat option" where
  "position p [] = None"
| "position p (x # xs) = (if p x then Some 0 else map_option Suc (position p xs))"

lemma list_all_True [simp]: "list_all (\<lambda>_. True) xs"
  by (simp add: list_all_iff)

lemma starts_with_iff: "starts_with p xs \<longleftrightarrow> (\<exists>r. xs = p @ r)"
  by (metis append_eq_conv_conj starts_with_def append_take_drop_id)

lemma starts_with_append [simp]: "starts_with p (p @ r)"
  by (auto simp: starts_with_iff)

lemma strip_prefix_Some_iff: "strip_prefix p xs = Some r \<longleftrightarrow> xs = p @ r"
  by (auto simp: strip_prefix_def starts_with_iff)

lemma strip_prefix_append [simp]: "strip_prefix p (p @ r) = Some r"
  by (simp add: strip_prefix_Some_iff)

lemma strip_prefix_None_iff: "strip_prefix p xs = None \<longleftrightarrow> \<not> starts_with p xs"
  by (simp add: strip_prefix_def)

lemma strip_suffix_Some_iff: "strip_suffix q xs = Some r \<longleftrightarrow> xs = r @ q"
  unfolding strip_suffix_def map_option_eq_Some strip_prefix_Some_iff
  by (metis rev_append rev_rev_ident)

lemma strip_suffix_length: "strip_suffix q xs = Some r \<Longrightarrow> length r \<le> length xs"
  by (simp add: strip_suffix_Some_iff)

lemma position_Some_iff:
  "position p xs = Some i \<longleftrightarrow> i < length xs \<and> p (xs ! i) \<and> (\<forall>j < i. \<not> p (xs ! j))"
proof (induction xs arbitrary: i)
  case (Cons x xs)
  then show ?case by (cases i) (auto simp: less_Suc_eq_0_disj)
qed simp

text \<open>\<open>slice.chunks(n)\<close>: consecutive pieces of \<open>n\<close> elements, the last one possibly shorter.\<close>

function chunks :: "nat \<Rightarrow> 'a list \<Rightarrow> 'a list list" where
  "chunks n xs = (if xs = [] \<or> n = 0 then [] else take n xs # chunks n (drop n xs))"
  by pat_completeness auto
termination
  by (relation "measure (\<lambda>(n, xs). length xs)") auto

declare chunks.simps [simp del]

lemma chunks_Nil [simp]: "chunks n [] = []"
  by (simp add: chunks.simps)

lemma concat_chunks: "0 < n \<Longrightarrow> concat (chunks n xs) = xs"
proof (induction n xs rule: chunks.induct)
  case (1 n xs)
  then show ?case by (cases "xs = []") (simp_all add: chunks.simps [of n xs])
qed

lemma chunks_bound: "c \<in> set (chunks n xs) \<Longrightarrow> c \<noteq> [] \<and> length c \<le> n"
proof (induction n xs rule: chunks.induct)
  case (1 n xs)
  then show ?case
    by (cases "xs = [] \<or> n = 0") (auto simp: chunks.simps [of n xs])
qed

lemma sum_length_chunks: "0 < n \<Longrightarrow> sum_list (map length (chunks n xs)) = length xs"
  by (metis concat_chunks length_concat)

section \<open>State-and-result computations\<close>

type_synonym ('s, 'e, 'a) sr = "'s \<Rightarrow> ('e + 'a) \<times> 's"

definition sr_return :: "'a \<Rightarrow> ('s, 'e, 'a) sr" where
  "sr_return a s = (Ok a, s)"

definition sr_throw :: "'e \<Rightarrow> ('s, 'e, 'a) sr" where
  "sr_throw e s = (Err e, s)"

definition sr_bind :: "('s, 'e, 'a) sr \<Rightarrow> ('a \<Rightarrow> ('s, 'e, 'b) sr) \<Rightarrow> ('s, 'e, 'b) sr" where
  "sr_bind m f s = (case m s of (r, s') \<Rightarrow> (case r of Inl e \<Rightarrow> (Inl e, s') | Inr a \<Rightarrow> f a s'))"

definition sr_lift :: "'e + 'a \<Rightarrow> ('s, 'e, 'a) sr" where
  "sr_lift r s = (r, s)"

definition sr_gets :: "('s \<Rightarrow> 'a) \<Rightarrow> ('s, 'e, 'a) sr" where
  "sr_gets f s = (Ok (f s), s)"

definition sr_modify :: "('s \<Rightarrow> 's) \<Rightarrow> ('s, 'e, unit) sr" where
  "sr_modify f s = (Ok (), f s)"

text \<open>Run a computation and hand its result on as a value (a Rust \<open>match\<close> on the \<open>Result\<close>).\<close>

definition sr_try :: "('s, 'e, 'a) sr \<Rightarrow> ('s, 'f, 'e + 'a) sr" where
  "sr_try m s = (case m s of (r, s') \<Rightarrow> (Ok r, s'))"

definition sr_map_err :: "('e \<Rightarrow> 'f) \<Rightarrow> ('s, 'e, 'a) sr \<Rightarrow> ('s, 'f, 'a) sr" where
  "sr_map_err g m s = (case m s of (r, s') \<Rightarrow> (map_err g r, s'))"

fun sr_map :: "('a \<Rightarrow> ('s, 'e, 'b) sr) \<Rightarrow> 'a list \<Rightarrow> ('s, 'e, 'b list) sr" where
  "sr_map f [] = sr_return []"
| "sr_map f (x # xs) = sr_bind (f x) (\<lambda>y. sr_bind (sr_map f xs) (\<lambda>ys. sr_return (y # ys)))"

lemmas sr_defs = sr_return_def sr_throw_def sr_bind_def sr_lift_def sr_gets_def
  sr_modify_def sr_try_def sr_map_err_def

lemmas sr_leaf = sr_return_def sr_throw_def sr_lift_def sr_gets_def sr_modify_def

lemma sr_bind_eq_Ok [res_simps]:
  "sr_bind m f s = (Ok b, t) \<longleftrightarrow> (\<exists>a u. m s = (Ok a, u) \<and> f a u = (Ok b, t))"
  by (auto simp: sr_bind_def split: prod.splits sum.splits)

lemma sr_try_Ok: "sr_try m s = (Ok r, s') \<longleftrightarrow> m s = (r, s')"
  by (auto simp: sr_try_def split: prod.splits)

lemma sr_bind_Ok_step: "m s = (Ok a, u) \<Longrightarrow> sr_bind m f s = f a u"
  by (simp add: sr_bind_def)

lemma sr_bind_Err_step: "m s = (Err e, u) \<Longrightarrow> sr_bind m f s = (Err e, u)"
  by (simp add: sr_bind_def)

lemma sr_bind_assoc: "sr_bind (sr_bind m f) g = sr_bind m (\<lambda>a. sr_bind (f a) g)"
  by (rule ext) (simp add: sr_bind_def split: prod.splits sum.splits)

subsection \<open>Predicates kept by a computation, whatever its result\<close>

definition sr_keeps :: "('s \<Rightarrow> bool) \<Rightarrow> ('s, 'e, 'a) sr \<Rightarrow> bool" where
  "sr_keeps P m \<longleftrightarrow> (\<forall>s. P s \<longrightarrow> P (snd (m s)))"

lemma sr_keepsD: "sr_keeps P m \<Longrightarrow> P s \<Longrightarrow> m s = (r, t) \<Longrightarrow> P t"
  by (auto simp: sr_keeps_def dest!: spec [where x = s])

lemma sr_keepsI: "(\<And>s. P s \<Longrightarrow> P (snd (m s))) \<Longrightarrow> sr_keeps P m"
  by (simp add: sr_keeps_def)

lemma sr_keeps_conj: "sr_keeps P m \<Longrightarrow> sr_keeps Q m \<Longrightarrow> sr_keeps (\<lambda>s. P s \<and> Q s) m"
  by (simp add: sr_keeps_def)

lemma sr_keeps_return [sr_rules]: "sr_keeps P (sr_return a)"
  and sr_keeps_throw [sr_rules]: "sr_keeps P (sr_throw e)"
  and sr_keeps_lift [sr_rules]: "sr_keeps P (sr_lift r)"
  and sr_keeps_gets [sr_rules]: "sr_keeps P (sr_gets f)"
  by (simp_all add: sr_keeps_def sr_defs)

lemma sr_keeps_modify: "(\<And>s. P s \<Longrightarrow> P (f s)) \<Longrightarrow> sr_keeps P (sr_modify f)"
  by (simp add: sr_keeps_def sr_defs)

lemma sr_keeps_bind [sr_rules]:
  assumes "sr_keeps P m" and "\<And>a. sr_keeps P (f a)"
  shows "sr_keeps P (sr_bind m f)"
proof (rule sr_keepsI)
  fix s assume "P s"
  obtain r u where m: "m s = (r, u)" by fastforce
  with assms(1) \<open>P s\<close> have "P u" by (rule sr_keepsD)
  with m assms(2) show "P (snd (sr_bind m f s))"
    by (cases r) (auto simp: sr_bind_def sr_keeps_def)
qed

lemma sr_keeps_try [sr_rules]: "sr_keeps P m \<Longrightarrow> sr_keeps P (sr_try m)"
  and sr_keeps_map_err [sr_rules]: "sr_keeps P m \<Longrightarrow> sr_keeps P (sr_map_err g m)"
  by (auto simp: sr_keeps_def sr_defs split: prod.splits)

lemma sr_keeps_if [sr_rules]:
  "(b \<Longrightarrow> sr_keeps P m) \<Longrightarrow> (\<not> b \<Longrightarrow> sr_keeps P n) \<Longrightarrow> sr_keeps P (if b then m else n)"
  by simp

lemma sr_keeps_option [sr_rules]:
  "sr_keeps P m \<Longrightarrow> (\<And>a. sr_keeps P (f a)) \<Longrightarrow> sr_keeps P (case x of None \<Rightarrow> m | Some a \<Rightarrow> f a)"
  by (cases x) auto

lemma sr_keeps_sum [sr_rules]:
  "(\<And>a. sr_keeps P (f a)) \<Longrightarrow> (\<And>a. sr_keeps P (g a)) \<Longrightarrow>
     sr_keeps P (case x of Inl a \<Rightarrow> f a | Inr a \<Rightarrow> g a)"
  by (cases x) auto

lemma sr_keeps_prod [sr_rules]:
  "(\<And>a b. x = (a, b) \<Longrightarrow> sr_keeps P (f a b)) \<Longrightarrow> sr_keeps P (case x of (a, b) \<Rightarrow> f a b)"
  by (cases x) auto

lemma sr_keeps_let [sr_rules]: "(\<And>a. sr_keeps P (f a)) \<Longrightarrow> sr_keeps P (Let x f)"
  by simp

lemma sr_keeps_map [sr_rules]: "(\<And>x. sr_keeps P (f x)) \<Longrightarrow> sr_keeps P (sr_map f xs)"
  by (induction xs) (auto intro!: sr_rules)

subsection \<open>Facts about every successful result\<close>

definition sr_yields :: "('a \<Rightarrow> bool) \<Rightarrow> ('s, 'e, 'a) sr \<Rightarrow> bool" where
  "sr_yields Q m \<longleftrightarrow> (\<forall>s a t. m s = (Ok a, t) \<longrightarrow> Q a)"

lemma sr_yieldsD: "sr_yields Q m \<Longrightarrow> m s = (Ok a, t) \<Longrightarrow> Q a"
  by (auto simp: sr_yields_def)

lemma sr_yieldsI: "(\<And>s a t. m s = (Ok a, t) \<Longrightarrow> Q a) \<Longrightarrow> sr_yields Q m"
  by (auto simp: sr_yields_def)

lemma sr_yields_return [sr_rules]: "Q a \<Longrightarrow> sr_yields Q (sr_return a)"
  and sr_yields_throw [sr_rules]: "sr_yields Q (sr_throw e)"
  and sr_yields_lift: "(\<And>a. r = Ok a \<Longrightarrow> Q a) \<Longrightarrow> sr_yields Q (sr_lift r)"
  by (auto simp: sr_yields_def sr_leaf)

lemma sr_yields_bind_lift [sr_rules]:
  "(\<And>a. r = Ok a \<Longrightarrow> sr_yields Q (f a)) \<Longrightarrow> sr_yields Q (sr_bind (sr_lift r) f)"
  by (auto simp: sr_yields_def res_simps sr_leaf)

lemma sr_yields_bind [sr_rules]: "(\<And>a. sr_yields Q (f a)) \<Longrightarrow> sr_yields Q (sr_bind m f)"
  by (fastforce simp: sr_yields_def res_simps)

lemma sr_yields_bind_strong: "sr_yields R m \<Longrightarrow> (\<And>a. R a \<Longrightarrow> sr_yields Q (f a)) \<Longrightarrow> sr_yields Q (sr_bind m f)"
  by (fastforce simp: sr_yields_def res_simps)

lemma sr_keeps_bind_yields:
  assumes "sr_keeps P m" and "sr_yields R m" and "\<And>a. R a \<Longrightarrow> sr_keeps P (f a)"
  shows "sr_keeps P (sr_bind m f)"
proof (rule sr_keepsI)
  fix s assume "P s"
  obtain r u where m: "m s = (r, u)" by fastforce
  with assms(1) \<open>P s\<close> have "P u" by (rule sr_keepsD)
  with m assms(2,3) show "P (snd (sr_bind m f s))"
    by (cases r) (auto simp: sr_bind_def sr_keeps_def sr_yields_def)
qed

lemma sr_keeps_bind_lift: "(\<And>a. r = Ok a \<Longrightarrow> sr_keeps P (f a)) \<Longrightarrow> sr_keeps P (sr_bind (sr_lift r) f)"
  by (cases r) (simp_all add: sr_keeps_def sr_bind_def sr_lift_def)

lemma sr_keeps_map_all: "(\<And>x. x \<in> set xs \<Longrightarrow> sr_keeps P (f x)) \<Longrightarrow> sr_keeps P (sr_map f xs)"
  by (induction xs) (auto intro!: sr_rules)

lemma sr_yields_if [sr_rules]:
  "(b \<Longrightarrow> sr_yields Q m) \<Longrightarrow> (\<not> b \<Longrightarrow> sr_yields Q n) \<Longrightarrow> sr_yields Q (if b then m else n)"
  by simp

lemma sr_yields_option [sr_rules]:
  "(x = None \<Longrightarrow> sr_yields Q m) \<Longrightarrow> (\<And>a. x = Some a \<Longrightarrow> sr_yields Q (f a)) \<Longrightarrow>
     sr_yields Q (case x of None \<Rightarrow> m | Some a \<Rightarrow> f a)"
  by (cases x) auto

lemma sr_yields_prod [sr_rules]:
  "(\<And>a b. x = (a, b) \<Longrightarrow> sr_yields Q (f a b)) \<Longrightarrow> sr_yields Q (case x of (a, b) \<Rightarrow> f a b)"
  by (cases x) auto

lemma sr_yields_let [sr_rules]: "(\<And>a. a = x \<Longrightarrow> sr_yields Q (f a)) \<Longrightarrow> sr_yields Q (Let x f)"
  by simp

lemma sr_yields_map: "(\<And>x. sr_yields Q (f x)) \<Longrightarrow> sr_yields (list_all Q) (sr_map f xs)"
  by (induction xs) (fastforce simp: sr_yields_def res_simps sr_leaf)+

subsection \<open>Facts about every error\<close>

definition sr_fails :: "('e \<Rightarrow> bool) \<Rightarrow> ('s, 'e, 'a) sr \<Rightarrow> bool" where
  "sr_fails R m \<longleftrightarrow> (\<forall>s e t. m s = (Err e, t) \<longrightarrow> R e)"

lemma sr_failsD: "sr_fails R m \<Longrightarrow> m s = (Err e, t) \<Longrightarrow> R e"
  by (auto simp: sr_fails_def)

lemma sr_failsI: "(\<And>s e t. m s = (Err e, t) \<Longrightarrow> R e) \<Longrightarrow> sr_fails R m"
  by (auto simp: sr_fails_def)

lemma sr_fails_return [sr_rules]: "sr_fails R (sr_return a)"
  and sr_fails_throw [sr_rules]: "R e \<Longrightarrow> sr_fails R (sr_throw e)"
  and sr_fails_lift: "(\<And>e. r = Err e \<Longrightarrow> R e) \<Longrightarrow> sr_fails R (sr_lift r)"
  by (auto simp: sr_fails_def sr_leaf)

lemma sr_fails_bind [sr_rules]: "sr_fails R m \<Longrightarrow> (\<And>a. sr_fails R (f a)) \<Longrightarrow> sr_fails R (sr_bind m f)"
  by (fastforce simp: sr_fails_def sr_bind_def split: prod.splits sum.splits)

lemma sr_fails_if [sr_rules]:
  "(b \<Longrightarrow> sr_fails R m) \<Longrightarrow> (\<not> b \<Longrightarrow> sr_fails R n) \<Longrightarrow> sr_fails R (if b then m else n)"
  by simp

lemma sr_fails_option [sr_rules]:
  "sr_fails R m \<Longrightarrow> (\<And>a. sr_fails R (f a)) \<Longrightarrow> sr_fails R (case x of None \<Rightarrow> m | Some a \<Rightarrow> f a)"
  by (cases x) auto

lemma sr_fails_prod [sr_rules]:
  "(\<And>a b. x = (a, b) \<Longrightarrow> sr_fails R (f a b)) \<Longrightarrow> sr_fails R (case x of (a, b) \<Rightarrow> f a b)"
  by (cases x) auto

lemma sr_fails_let [sr_rules]: "(\<And>a. sr_fails R (f a)) \<Longrightarrow> sr_fails R (Let x f)"
  by simp

subsection \<open>Weakest preconditions\<close>

text \<open>What has to hold of the start state for the two result postconditions to hold; the equations turn
  a composed computation into nested conditions on its primitive steps.\<close>

definition sr_wp :: "('s, 'e, 'a) sr \<Rightarrow> ('a \<Rightarrow> 's \<Rightarrow> bool) \<Rightarrow> ('e \<Rightarrow> 's \<Rightarrow> bool) \<Rightarrow> 's \<Rightarrow> bool" where
  "sr_wp m Q R s \<longleftrightarrow> (case m s of (Inl e, t) \<Rightarrow> R e t | (Inr a, t) \<Rightarrow> Q a t)"

lemma sr_wpI: "(\<And>a t. m s = (Ok a, t) \<Longrightarrow> Q a t) \<Longrightarrow> (\<And>e t. m s = (Err e, t) \<Longrightarrow> R e t) \<Longrightarrow> sr_wp m Q R s"
  by (auto simp: sr_wp_def split: prod.splits sum.splits)

lemma sr_wp_Ok: "sr_wp m Q R s \<Longrightarrow> m s = (Ok a, t) \<Longrightarrow> Q a t"
  and sr_wp_Err: "sr_wp m Q R s \<Longrightarrow> m s = (Err e, t) \<Longrightarrow> R e t"
  by (simp_all add: sr_wp_def)

lemma sr_wp_state: "sr_wp m (\<lambda>_. P) (\<lambda>_. P) s \<Longrightarrow> P (snd (m s))"
  by (auto simp: sr_wp_def split: prod.splits sum.splits)

lemma sr_wp_mono:
  "sr_wp m Q R s \<Longrightarrow> (\<And>a t. Q a t \<Longrightarrow> Q' a t) \<Longrightarrow> (\<And>e t. R e t \<Longrightarrow> R' e t) \<Longrightarrow> sr_wp m Q' R' s"
  by (auto simp: sr_wp_def split: prod.splits sum.splits)

lemma wp_return [wp_simps]: "sr_wp (sr_return a) Q R s = Q a s"
  by (simp add: sr_wp_def sr_defs)

lemma wp_throw [wp_simps]: "sr_wp (sr_throw e) Q R s = R e s"
  by (simp add: sr_wp_def sr_defs)

lemma wp_gets [wp_simps]: "sr_wp (sr_gets f) Q R s = Q (f s) s"
  by (simp add: sr_wp_def sr_defs)

lemma wp_modify [wp_simps]: "sr_wp (sr_modify g) Q R s = Q () (g s)"
  by (simp add: sr_wp_def sr_defs)

lemma wp_bind [wp_simps]: "sr_wp (sr_bind m k) Q R s = sr_wp m (\<lambda>a. sr_wp (k a) Q R) R s"
  by (simp add: sr_wp_def sr_defs split: prod.splits sum.splits)

lemma wp_if [wp_simps]: "sr_wp (if b then m else n) Q R s = (if b then sr_wp m Q R s else sr_wp n Q R s)"
  by simp

lemma wp_let [wp_simps]: "sr_wp (Let x k) Q R s = sr_wp (k x) Q R s"
  by simp

lemma wp_lift: "(\<And>a. r = Ok a \<Longrightarrow> Q a s) \<Longrightarrow> (\<And>e. r = Err e \<Longrightarrow> R e s) \<Longrightarrow> sr_wp (sr_lift r) Q R s"
  by (cases r) (simp_all add: sr_lift_def sr_wp_def)

lemma wp_sum: "sr_wp (case x of Inl e \<Rightarrow> m e | Inr a \<Rightarrow> f a) Q R s
    = (case x of Inl e \<Rightarrow> sr_wp (m e) Q R s | Inr a \<Rightarrow> sr_wp (f a) Q R s)"
  by (cases x) auto

lemma wp_option: "sr_wp (case x of None \<Rightarrow> m | Some a \<Rightarrow> f a) Q R s
    = (case x of None \<Rightarrow> sr_wp m Q R s | Some a \<Rightarrow> sr_wp (f a) Q R s)"
  by (cases x) auto

lemma wp_try [wp_simps]: "sr_wp (sr_try m) Q R s = sr_wp m (\<lambda>a. Q (Ok a)) (\<lambda>e. Q (Err e)) s"
  by (simp add: sr_wp_def sr_defs split: prod.splits sum.splits)

text \<open>The same as introduction rules, for goals that are taken apart one step at a time.\<close>

lemma vc_if: "(b \<Longrightarrow> sr_wp m Q R s) \<Longrightarrow> (\<not> b \<Longrightarrow> sr_wp n Q R s) \<Longrightarrow> sr_wp (if b then m else n) Q R s"
  by simp

lemma vc_option: "(x = None \<Longrightarrow> sr_wp m Q R s) \<Longrightarrow> (\<And>a. x = Some a \<Longrightarrow> sr_wp (f a) Q R s) \<Longrightarrow>
    sr_wp (case x of None \<Rightarrow> m | Some a \<Rightarrow> f a) Q R s"
  by (cases x) auto

lemma vc_return: "Q a s \<Longrightarrow> sr_wp (sr_return a) Q R s"
  by (simp add: wp_return)

lemma vc_throw: "R e s \<Longrightarrow> sr_wp (sr_throw e) Q R s"
  by (simp add: wp_throw)

lemmas vcs = vc_if vc_option vc_return vc_throw

lemma wp_keeps: "sr_keeps P m \<Longrightarrow> P s \<Longrightarrow> sr_wp m (\<lambda>_. P) (\<lambda>_. P) s"
  by (auto intro: sr_wpI dest: sr_keepsD)

section \<open>Checked machine arithmetic\<close>

text \<open>\<open>usize\<close> and \<open>u64\<close> counters are naturals; \<open>checked_add\<close> fails when the sum leaves 64 bits.\<close>

definition checked_add_usize :: "nat \<Rightarrow> nat \<Rightarrow> nat option" where
  "checked_add_usize a b = (if a + b < 2 ^ 64 then Some (a + b) else None)"

definition saturating_add_u32 :: "nat \<Rightarrow> nat \<Rightarrow> nat" where
  "saturating_add_u32 a b = min (a + b) (2 ^ 32 - 1)"

text \<open>Plain \<open>u32\<close> arithmetic of a release build wraps around.\<close>

definition wrapping_add_u32 :: "nat \<Rightarrow> nat \<Rightarrow> nat" where
  "wrapping_add_u32 a b = (a + b) mod 2 ^ 32"

definition wrapping_sub_u32 :: "nat \<Rightarrow> nat \<Rightarrow> nat" where
  "wrapping_sub_u32 a b = (a + 2 ^ 32 - b) mod 2 ^ 32"

lemma wrapping_add_u32_small: "a + b < 2 ^ 32 \<Longrightarrow> wrapping_add_u32 a b = a + b"
  by (simp add: wrapping_add_u32_def)

lemma wrapping_sub_u32_small: "b \<le> a \<Longrightarrow> a < 2 ^ 32 \<Longrightarrow> wrapping_sub_u32 a b = a - b"
proof -
  assume a: "b \<le> a" "a < 2 ^ 32"
  then have "a + 2 ^ 32 - b = (a - b) + 2 ^ 32" by simp
  with a show ?thesis by (simp only: wrapping_sub_u32_def mod_add_self2) simp
qed

lemma checked_add_usize_small: "a + b < 2 ^ 64 \<Longrightarrow> checked_add_usize a b = Some (a + b)"
  by (simp add: checked_add_usize_def)

section \<open>Invariants of operation sequences\<close>

text \<open>The contract between a component and whoever drives it: every permitted operation keeps the
  predicate, so every sequence of permitted operations does.\<close>

locale step_invariant =
  fixes step :: "'o \<Rightarrow> 's \<Rightarrow> 's" and permitted :: "'o \<Rightarrow> bool" and inv :: "'s \<Rightarrow> bool"
  assumes keep: "permitted x \<Longrightarrow> inv s \<Longrightarrow> inv (step x s)"
begin

lemma run: "list_all permitted xs \<Longrightarrow> inv s \<Longrightarrow> inv (fold step xs s)"
  by (induction xs arbitrary: s) (auto intro: keep)

end

end
