(* ===== verification/Rust_Std.thy ===== *)
theory Rust_Std
  imports Prelude
begin

text \<open>
  The parts of the Rust standard library the server's parsers rely on: ASCII classes, UTF-8
  validation and iteration over \<open>char\<close>s, \<open>split\<close>, \<open>splitn\<close>, \<open>split_whitespace\<close>, \<open>lines\<close>,
  \<open>trim\<close>, integer \<open>FromStr\<close> and decimal formatting. A \<open>&str\<close> is the byte list of its UTF-8
  form, so \<open>len()\<close> is \<open>length\<close>; questions about characters go through \<open>utf8_chars\<close>.
\<close>

section \<open>ASCII\<close>

abbreviation ord :: "char \<Rightarrow> nat" where "ord c \<equiv> of_char c"

definition is_ascii_digit :: "char \<Rightarrow> bool" where
  "is_ascii_digit c \<longleftrightarrow> 48 \<le> ord c \<and> ord c \<le> 57"

definition is_ascii_graphic :: "char \<Rightarrow> bool" where
  "is_ascii_graphic c \<longleftrightarrow> 33 \<le> ord c \<and> ord c \<le> 126"

definition is_ascii_alphabetic :: "char \<Rightarrow> bool" where
  "is_ascii_alphabetic c \<longleftrightarrow> 65 \<le> ord c \<and> ord c \<le> 90 \<or> 97 \<le> ord c \<and> ord c \<le> 122"

definition is_octal_digit :: "char \<Rightarrow> bool" where
  "is_octal_digit c \<longleftrightarrow> 48 \<le> ord c \<and> ord c \<le> 55"

lemma ord_char_of: "n < 256 \<Longrightarrow> ord (char_of n) = n"
  by (simp add: of_char_of)

section \<open>UTF-8\<close>

text \<open>
  \<open>std::str::from_utf8\<close> accepts exactly the well-formed sequences of the Unicode standard:
  no overlong forms, no surrogates, nothing above U+10FFFF. \<open>utf8_chars\<close> returns the scalar
  values together with their encodings, in order; \<open>None\<close> is the \<open>Utf8Error\<close>.
\<close>

definition cont_byte :: "char \<Rightarrow> bool" where
  "cont_byte c \<longleftrightarrow> 128 \<le> ord c \<and> ord c \<le> 191"

definition cont_bits :: "char \<Rightarrow> nat" where
  "cont_bits c = ord c - 128"

definition second3_ok :: "char \<Rightarrow> char \<Rightarrow> bool" where
  "second3_ok c0 c1 \<longleftrightarrow> cont_byte c1 \<and> (ord c0 = 224 \<longrightarrow> 160 \<le> ord c1) \<and> (ord c0 = 237 \<longrightarrow> ord c1 \<le> 159)"

definition second4_ok :: "char \<Rightarrow> char \<Rightarrow> bool" where
  "second4_ok c0 c1 \<longleftrightarrow> cont_byte c1 \<and> (ord c0 = 240 \<longrightarrow> 144 \<le> ord c1) \<and> (ord c0 = 244 \<longrightarrow> ord c1 \<le> 143)"

text \<open>The first character of a byte list, and what follows it.\<close>

definition utf8_first :: "bytes \<Rightarrow> ((nat \<times> bytes) \<times> bytes) option" where
  "utf8_first bs = (case bs of
     [] \<Rightarrow> None
   | c0 # r0 \<Rightarrow>
       if ord c0 < 128 then Some ((ord c0, [c0]), r0)
       else (case r0 of
         [] \<Rightarrow> None
       | c1 # r1 \<Rightarrow>
           if 194 \<le> ord c0 \<and> ord c0 \<le> 223 then
             (if cont_byte c1 then Some (((ord c0 - 192) * 64 + cont_bits c1, [c0, c1]), r1) else None)
           else (case r1 of
             [] \<Rightarrow> None
           | c2 # r2 \<Rightarrow>
               if 224 \<le> ord c0 \<and> ord c0 \<le> 239 then
                 (if second3_ok c0 c1 \<and> cont_byte c2
                  then Some (((ord c0 - 224) * 4096 + cont_bits c1 * 64 + cont_bits c2, [c0, c1, c2]), r2)
                  else None)
               else (case r2 of
                 [] \<Rightarrow> None
               | c3 # r3 \<Rightarrow>
                   if 240 \<le> ord c0 \<and> ord c0 \<le> 244 \<and> second4_ok c0 c1 \<and> cont_byte c2 \<and> cont_byte c3
                   then Some (((ord c0 - 240) * 262144 + cont_bits c1 * 4096 + cont_bits c2 * 64
                               + cont_bits c3, [c0, c1, c2, c3]), r3)
                   else None))))"

lemma utf8_first_split: "utf8_first bs = Some ((cp, enc), rest) \<Longrightarrow> bs = enc @ rest \<and> enc \<noteq> []"
  by (auto simp: utf8_first_def split: list.splits if_splits)

function utf8_chars :: "bytes \<Rightarrow> (nat \<times> bytes) list option" where
  "utf8_chars bs = (if bs = [] then Some [] else
     (case utf8_first bs of
        None \<Rightarrow> None
      | Some (c, rest) \<Rightarrow> map_option (Cons c) (utf8_chars rest)))"
  by pat_completeness auto
termination
  by (relation "measure length") (auto dest!: utf8_first_split)

declare utf8_chars.simps [simp del]

lemma utf8_chars_Nil [simp]: "utf8_chars [] = Some []"
  by (simp add: utf8_chars.simps)

lemma utf8_chars_ascii: "ord c < 128 \<Longrightarrow> utf8_chars (c # bs) = map_option (Cons (ord c, [c])) (utf8_chars bs)"
  by (simp add: utf8_chars.simps [of "c # bs"] utf8_first_def)

lemma utf8_chars_concat: "utf8_chars bs = Some cs \<Longrightarrow> concat (map snd cs) = bs"
proof (induction bs arbitrary: cs rule: utf8_chars.induct)
  case (1 bs)
  show ?case
  proof (cases "bs = []")
    case False
    with "1.prems" obtain c rest cs' where first: "utf8_first bs = Some (c, rest)"
      and rest: "utf8_chars rest = Some cs'" and cs: "cs = c # cs'"
      by (auto simp: utf8_chars.simps [of bs] split: option.splits)
    from False first rest have "concat (map snd cs') = rest" by (rule "1.IH" [OF _ _ refl])
    with first cs show ?thesis by (cases c) (auto dest: utf8_first_split)
  qed (use "1.prems" in simp)
qed

definition from_utf8_ok :: "bytes \<Rightarrow> bool" where
  "from_utf8_ok bs \<longleftrightarrow> utf8_chars bs \<noteq> None"

lemma from_utf8_ok_ascii: "(\<forall>c \<in> set bs. ord c < 128) \<Longrightarrow> from_utf8_ok bs"
  by (induction bs) (auto simp: from_utf8_ok_def utf8_chars_ascii)

definition char_is_control :: "nat \<Rightarrow> bool" where
  "char_is_control cp \<longleftrightarrow> cp < 32 \<or> 127 \<le> cp \<and> cp < 160"

definition char_is_whitespace :: "nat \<Rightarrow> bool" where
  "char_is_whitespace cp \<longleftrightarrow> 9 \<le> cp \<and> cp \<le> 13 \<or> cp = 32 \<or> cp = 133 \<or> cp = 160 \<or> cp = 5760
     \<or> 8192 \<le> cp \<and> cp \<le> 8202 \<or> cp = 8232 \<or> cp = 8233 \<or> cp = 8239 \<or> cp = 8287 \<or> cp = 12288"

text \<open>\<open>s.chars().any(p)\<close> and \<open>s.trim()\<close>, for a \<open>&str\<close> (hence well-formed) \<open>s\<close>.\<close>

definition chars_any :: "(nat \<Rightarrow> bool) \<Rightarrow> bytes \<Rightarrow> bool" where
  "chars_any p s = (case utf8_chars s of None \<Rightarrow> False | Some cs \<Rightarrow> list_ex (\<lambda>c. p (fst c)) cs)"

definition str_trim :: "bytes \<Rightarrow> bytes" where
  "str_trim s = (case utf8_chars s of None \<Rightarrow> s | Some cs \<Rightarrow>
     (let ws = (\<lambda>c. char_is_whitespace (fst c))
      in concat (map snd (rev (dropWhile ws (rev (dropWhile ws cs)))))))"

lemma chars_any_control_ascii:
  "(\<forall>c \<in> set s. 32 \<le> ord c \<and> ord c < 127) \<Longrightarrow> \<not> chars_any char_is_control s"
proof (induction s)
  case (Cons c s)
  then show ?case
    by (auto simp: chars_any_def utf8_chars_ascii char_is_control_def split: option.splits)
qed (simp add: chars_any_def)

text \<open>A \<open>&str\<close> without control characters has no line break, tab or NUL byte.\<close>

lemma utf8_chars_ascii_mem:
  "utf8_chars s = Some cs \<Longrightarrow> c \<in> set s \<Longrightarrow> ord c < 128 \<Longrightarrow> (ord c, [c]) \<in> set cs"
proof (induction s arbitrary: cs rule: utf8_chars.induct)
  case (1 s)
  from "1.prems" have "s \<noteq> []" by auto
  with "1.prems" obtain cp enc rest cs' where first: "utf8_first s = Some ((cp, enc), rest)"
    and rest: "utf8_chars rest = Some cs'" and cs: "cs = (cp, enc) # cs'"
    by (auto simp: utf8_chars.simps [of s] split: option.splits)
  from first have s: "s = enc @ rest" by (auto dest: utf8_first_split)
  show ?case
  proof (cases "c \<in> set rest")
    case True
    with "1.IH" [OF \<open>s \<noteq> []\<close> first refl rest] "1.prems"(3) cs show ?thesis by simp
  next
    case False
    with "1.prems"(2) s have "c \<in> set enc" by simp
    with first \<open>ord c < 128\<close> have "(cp, enc) = (ord c, [c])"
      by (auto simp: utf8_first_def cont_byte_def second3_ok_def second4_ok_def
          split: list.splits if_splits)
    with cs show ?thesis by simp
  qed
qed

lemma no_control_bytes:
  assumes "from_utf8_ok s" and "\<not> chars_any char_is_control s" and "c \<in> set s"
  shows "32 \<le> ord c \<and> ord c \<noteq> 127"
proof -
  from assms(1) obtain cs where cs: "utf8_chars s = Some cs" by (auto simp: from_utf8_ok_def)
  with assms(2) have none: "\<And>cp enc. (cp, enc) \<in> set cs \<Longrightarrow> \<not> char_is_control cp"
    by (auto simp: chars_any_def list_ex_iff)
  show ?thesis
  proof (cases "ord c < 128")
    case True
    with cs assms(3) have "(ord c, [c]) \<in> set cs" by (intro utf8_chars_ascii_mem)
    from none [OF this] show ?thesis by (auto simp: char_is_control_def)
  qed simp
qed

section \<open>Splitting\<close>

fun str_split :: "char \<Rightarrow> bytes \<Rightarrow> bytes list" where
  "str_split d [] = [[]]"
| "str_split d (c # cs) = (if c = d then [] # str_split d cs
     else (case str_split d cs of [] \<Rightarrow> [[c]] | f # fs \<Rightarrow> (c # f) # fs))"

text \<open>\<open>split_once\<close>: the parts before and after the first delimiter.\<close>

fun split_once :: "char \<Rightarrow> bytes \<Rightarrow> (bytes \<times> bytes) option" where
  "split_once d [] = None"
| "split_once d (c # cs) = (if c = d then Some ([], cs)
     else map_option (\<lambda>(a, b). (c # a, b)) (split_once d cs))"

text \<open>\<open>splitn(n, d)\<close>: at most \<open>n\<close> fields, the last of which keeps its delimiters.\<close>

fun str_splitn :: "nat \<Rightarrow> char \<Rightarrow> bytes \<Rightarrow> bytes list" where
  "str_splitn 0 d s = []"
| "str_splitn (Suc 0) d s = [s]"
| "str_splitn (Suc (Suc n)) d s = (case split_once d s of
     None \<Rightarrow> [s] | Some (a, b) \<Rightarrow> a # str_splitn (Suc n) d b)"

lemma split_once_Some_iff: "split_once d s = Some (a, b) \<longleftrightarrow> s = a @ d # b \<and> d \<notin> set a"
proof (induction s arbitrary: a b)
  case (Cons c s)
  show ?case
  proof (cases "c = d")
    case False
    with Cons show ?thesis by (cases a) auto
  qed (auto simp: Cons_eq_append_conv)
qed simp

lemma split_once_append: "d \<notin> set a \<Longrightarrow> split_once d (a @ d # b) = Some (a, b)"
  by (simp add: split_once_Some_iff)

lemma split_once_None_iff: "split_once d s = None \<longleftrightarrow> d \<notin> set s"
  by (induction s) auto

lemma str_split_nonempty [simp]: "str_split d s \<noteq> []"
  by (induction s) (auto split: list.splits)

lemma str_split_no_delim: "f \<in> set (str_split d s) \<Longrightarrow> d \<notin> set f"
proof (induction s arbitrary: f)
  case (Cons c s)
  then show ?case by (fastforce split: list.splits if_splits)
qed simp

lemma str_split_no_sep: "d \<notin> set a \<Longrightarrow> str_split d a = [a]"
  by (induction a) auto

lemma str_split_append: "d \<notin> set a \<Longrightarrow> str_split d (a @ d # b) = a # str_split d b"
  by (induction a) auto

lemma str_split_subset: "f \<in> set (str_split d s) \<Longrightarrow> set f \<subseteq> set s"
proof (induction s arbitrary: f)
  case (Cons c s)
  then show ?case by (fastforce split: list.splits if_splits)
qed simp

text \<open>\<open>split_whitespace\<close>: the non-empty runs of non-whitespace characters.\<close>

fun ws_fields :: "(nat \<times> bytes) list \<Rightarrow> bytes \<Rightarrow> bytes list" where
  "ws_fields [] cur = (if cur = [] then [] else [cur])"
| "ws_fields (c # cs) cur = (if char_is_whitespace (fst c)
     then (if cur = [] then ws_fields cs [] else cur # ws_fields cs [])
     else ws_fields cs (cur @ snd c))"

definition split_whitespace :: "bytes \<Rightarrow> bytes list" where
  "split_whitespace s = (case utf8_chars s of None \<Rightarrow> [] | Some cs \<Rightarrow> ws_fields cs [])"

text \<open>\<open>str::lines\<close>: pieces ended by a line feed, each without it and without one carriage
  return before it; no piece for the empty text after the last line feed.\<close>

text \<open>\<open>split_ascii_whitespace\<close>; the second argument is the field read so far.\<close>

definition is_ascii_whitespace :: "char \<Rightarrow> bool" where
  "is_ascii_whitespace c \<longleftrightarrow> ord c \<in> {9, 10, 12, 13, 32}"

fun ascii_fields :: "bytes \<Rightarrow> bytes \<Rightarrow> bytes list" where
  "ascii_fields [] cur = (if cur = [] then [] else [cur])"
| "ascii_fields (c # cs) cur = (if is_ascii_whitespace c then (if cur = [] then ascii_fields cs [] else cur # ascii_fields cs [])
     else ascii_fields cs (cur @ [c]))"

definition strip_cr :: "bytes \<Rightarrow> bytes" where
  "strip_cr l = (case strip_suffix [char_of (13::nat)] l of None \<Rightarrow> l | Some r \<Rightarrow> r)"

fun str_lines_acc :: "bytes \<Rightarrow> bytes \<Rightarrow> bytes list" where
  "str_lines_acc [] cur = (if cur = [] then [] else [cur])"
| "str_lines_acc (c # cs) cur = (if c = char_of (10::nat)
     then strip_cr cur # str_lines_acc cs [] else str_lines_acc cs (cur @ [c]))"

definition str_lines :: "bytes \<Rightarrow> bytes list" where
  "str_lines s = str_lines_acc s []"

section \<open>Decimal integers\<close>

definition digit_value :: "char \<Rightarrow> nat" where
  "digit_value c = ord c - 48"

definition digits_value :: "bytes \<Rightarrow> nat" where
  "digits_value = foldl (\<lambda>n c. 10 * n + digit_value c) 0"

definition parse_digits :: "bytes \<Rightarrow> nat option" where
  "parse_digits s = (if s \<noteq> [] \<and> list_all is_ascii_digit s then Some (digits_value s) else None)"

text \<open>Rust integers parse an optional \<open>+\<close> sign and any number of leading zeros.\<close>

definition parse_unsigned :: "nat \<Rightarrow> bytes \<Rightarrow> nat option" where
  "parse_unsigned bits s =
     (case parse_digits (case s of c # r \<Rightarrow> if c = CHR ''+'' then r else s | [] \<Rightarrow> s) of
        None \<Rightarrow> None
      | Some n \<Rightarrow> if n < 2 ^ bits then Some n else None)"

abbreviation parse_u32 :: "bytes \<Rightarrow> nat option" where "parse_u32 \<equiv> parse_unsigned 32"
abbreviation parse_u64 :: "bytes \<Rightarrow> nat option" where "parse_u64 \<equiv> parse_unsigned 64"

definition parse_i64 :: "bytes \<Rightarrow> int option" where
  "parse_i64 s = (case s of
     c # r \<Rightarrow>
       if c = CHR ''-'' then
         (case parse_digits r of None \<Rightarrow> None
          | Some n \<Rightarrow> if n \<le> 2 ^ 63 then Some (- int n) else None)
       else map_option int (parse_unsigned 63 s)
   | [] \<Rightarrow> None)"

definition digit_char :: "nat \<Rightarrow> char" where
  "digit_char d = char_of (48 + d)"

fun show_nat :: "nat \<Rightarrow> bytes" where
  "show_nat n = (if n < 10 then [digit_char n] else show_nat (n div 10) @ [digit_char (n mod 10)])"

declare show_nat.simps [simp del]

definition show_int :: "int \<Rightarrow> bytes" where
  "show_int i = (if i < 0 then CHR ''-'' # show_nat (nat (- i)) else show_nat (nat i))"

lemma digit_char_props: "d < 10 \<Longrightarrow> is_ascii_digit (digit_char d) \<and> digit_value (digit_char d) = d"
  by (simp add: is_ascii_digit_def digit_char_def digit_value_def ord_char_of)

lemma digits_value_snoc: "digits_value (s @ [c]) = 10 * digits_value s + digit_value c"
  by (simp add: digits_value_def)

lemma parse_digits_show_nat: "parse_digits (show_nat n) = Some n"
proof (induction n rule: show_nat.induct)
  case (1 n)
  show ?case
  proof (cases "n < 10")
    case True
    then show ?thesis
      by (simp add: show_nat.simps [of n] parse_digits_def digits_value_def digit_char_props)
  next
    case False
    with "1.IH" show ?thesis
      by (auto simp: show_nat.simps [of n] parse_digits_def digits_value_snoc digit_char_props
          split: if_splits)
  qed
qed

lemma show_nat_digits: "c \<in> set (show_nat n) \<Longrightarrow> is_ascii_digit c"
  using parse_digits_show_nat [of n] by (auto simp: parse_digits_def list_all_iff split: if_splits)

lemma show_nat_nonempty [simp]: "show_nat n \<noteq> []"
  using parse_digits_show_nat [of n] by (auto simp: parse_digits_def split: if_splits)

lemma not_digit_sign: "\<not> is_ascii_digit (CHR ''+'')" "\<not> is_ascii_digit (CHR ''-'')"
  by (simp_all add: is_ascii_digit_def)

lemma show_nat_no_sign: "show_nat n = c # r \<Longrightarrow> c \<noteq> CHR ''+'' \<and> c \<noteq> CHR ''-''"
  using show_nat_digits [of c n] not_digit_sign by force

lemma parse_unsigned_show_nat: "n < 2 ^ bits \<Longrightarrow> parse_unsigned bits (show_nat n) = Some n"
  using parse_digits_show_nat [of n] show_nat_no_sign [of n]
  by (cases "show_nat n") (auto simp: parse_unsigned_def)

lemma parse_unsigned_bound: "parse_unsigned bits s = Some n \<Longrightarrow> n < 2 ^ bits"
  by (auto simp: parse_unsigned_def split: option.splits if_splits)

lemma parse_i64_show_int: "0 \<le> i \<Longrightarrow> i < 2 ^ 63 \<Longrightarrow> parse_i64 (show_int i) = Some i"
proof -
  assume i: "0 \<le> i" "i < 2 ^ 63"
  then have "parse_unsigned 63 (show_nat (nat i)) = Some (nat i)"
    by (intro parse_unsigned_show_nat) (simp add: nat_less_iff)
  with i show ?thesis
    using show_nat_no_sign [of "nat i"]
    by (cases "show_nat (nat i)") (auto simp: parse_i64_def show_int_def)
qed

lemma parse_i64_bound: "parse_i64 s = Some i \<Longrightarrow> - (2 ^ 63) \<le> i \<and> i < 2 ^ 63"
  by (auto simp: parse_i64_def split: list.splits if_splits option.splits
      dest!: parse_unsigned_bound)

lemma show_nat_inject: "show_nat m = show_nat n \<longleftrightarrow> m = n"
  by (metis parse_digits_show_nat option.inject)

lemma show_nat_length: "n < 10 ^ k \<Longrightarrow> 0 < k \<Longrightarrow> length (show_nat n) \<le> k"
proof (induction n arbitrary: k rule: show_nat.induct)
  case (1 n)
  show ?case
  proof (cases "n < 10")
    case True
    with "1.prems" show ?thesis by (simp add: show_nat.simps [of n])
  next
    case False
    have "k \<noteq> 1" using "1.prems"(1) False by auto
    with "1.prems"(2) obtain j where k: "k = Suc j" "0 < j" by (cases k) auto
    with "1.prems" have "n div 10 < 10 ^ j" by (simp add: less_mult_imp_div_less mult.commute)
    with "1.IH" False k have "length (show_nat (n div 10)) \<le> j" by simp
    with False k show ?thesis by (simp add: show_nat.simps [of n])
  qed
qed

end
