(* ===== verification/Contracts.thy ===== *)
theory Contracts
  imports Rust_Std
begin

text \<open>
  The bounds of the versioned wire contracts (\<open>generated/contracts.rs\<close>) and the module
  constants of \<open>tmux.rs\<close> and \<open>ssh.rs\<close>. They are abbreviations, so that arithmetic on them
  needs no unfolding.
\<close>

abbreviation (input) ATTACHMENT_MAX_FRAME_BYTES :: nat where "ATTACHMENT_MAX_FRAME_BYTES \<equiv> 32768"
abbreviation (input) ATTACHMENT_MAX_TERMINAL_CHUNK_BYTES :: nat where
  "ATTACHMENT_MAX_TERMINAL_CHUNK_BYTES \<equiv> 16384"
abbreviation (input) ATTACHMENT_MAX_INPUT_BYTES :: nat where "ATTACHMENT_MAX_INPUT_BYTES \<equiv> 1024"
abbreviation (input) ATTACHMENT_MAX_DIMENSION :: nat where "ATTACHMENT_MAX_DIMENSION \<equiv> 10000"
abbreviation (input) ATTACHMENT_MAX_GRID_CELLS :: nat where "ATTACHMENT_MAX_GRID_CELLS \<equiv> 2000000"
abbreviation (input) ATTACHMENT_MAX_PANES :: nat where "ATTACHMENT_MAX_PANES \<equiv> 32"
abbreviation (input) ATTACHMENT_MAX_PANE_SNAPSHOT_BYTES :: nat where
  "ATTACHMENT_MAX_PANE_SNAPSHOT_BYTES \<equiv> 262144"
abbreviation (input) ATTACHMENT_MAX_PROJECTION_BYTES :: nat where "ATTACHMENT_MAX_PROJECTION_BYTES \<equiv> 1048576"

abbreviation (input) ATTACHMENT_CLOSE_NORMAL :: nat where "ATTACHMENT_CLOSE_NORMAL \<equiv> 1000"
abbreviation (input) ATTACHMENT_CLOSE_PROTOCOL_ERROR :: nat where "ATTACHMENT_CLOSE_PROTOCOL_ERROR \<equiv> 1002"
abbreviation (input) ATTACHMENT_CLOSE_POLICY_VIOLATION :: nat where "ATTACHMENT_CLOSE_POLICY_VIOLATION \<equiv> 1008"
abbreviation (input) ATTACHMENT_CLOSE_TEMPORARILY_UNAVAILABLE :: nat where
  "ATTACHMENT_CLOSE_TEMPORARILY_UNAVAILABLE \<equiv> 1013"

abbreviation (input) MAX_SESSIONS :: nat where "MAX_SESSIONS \<equiv> 128"
abbreviation (input) MAX_WINDOWS :: nat where "MAX_WINDOWS \<equiv> 128"
abbreviation (input) MAX_RESPONSE_BYTES :: nat where "MAX_RESPONSE_BYTES \<equiv> ATTACHMENT_MAX_PROJECTION_BYTES"
abbreviation (input) MAX_PANE_METADATA_BYTES :: nat where "MAX_PANE_METADATA_BYTES \<equiv> 1024"
abbreviation (input) MAX_QUEUED_EVENTS :: nat where "MAX_QUEUED_EVENTS \<equiv> 256"
abbreviation (input) MAX_QUEUED_OUTPUT_BYTES :: nat where "MAX_QUEUED_OUTPUT_BYTES \<equiv> 524288"
abbreviation (input) MAX_TEXT_BYTES :: nat where "MAX_TEXT_BYTES \<equiv> 256"
abbreviation (input) MAX_LAYOUT_BYTES :: nat where "MAX_LAYOUT_BYTES \<equiv> 4096"
abbreviation (input) MAX_HYDRATION_ATTEMPTS :: nat where "MAX_HYDRATION_ATTEMPTS \<equiv> 3"
abbreviation (input) MAX_RESPONSE_RECORDS :: nat where "MAX_RESPONSE_RECORDS \<equiv> 16384"
abbreviation (input) MAX_RESPONSE_WIRE_BYTES :: nat where "MAX_RESPONSE_WIRE_BYTES \<equiv> 8388608"
abbreviation (input) MAX_CONTROL_LINE_BYTES :: nat where "MAX_CONTROL_LINE_BYTES \<equiv> 262144"
abbreviation (input) MAX_CONTROL_COMMAND_BYTES :: nat where "MAX_CONTROL_COMMAND_BYTES \<equiv> 4096"

definition PANE_FORMAT :: bytes where
  "PANE_FORMAT = ''#{pane_id}:#{window_id}:#{pane_active}:#{pane_width}:#{pane_height}:#{pane_left}:#{pane_top}:#{cursor_x}:#{cursor_y}:#{alternate_on}:#{cursor_flag}:#{insert_flag}:#{keypad_cursor_flag}:#{keypad_flag}:#{origin_flag}:#{wrap_flag}:#{scroll_region_upper}:#{scroll_region_lower}''"

text \<open>\<open>SshError\<close> (\<open>ssh.rs\<close>) and \<open>TmuxError\<close> (\<open>tmux.rs\<close>).\<close>

datatype ssh_error = Ssh_Custody | Ssh_Unavailable | Ssh_InvalidState | Ssh_ProofFailed | Ssh_Fenced

datatype tmux_error =
    Tmux_Ssh ssh_error
  | Tmux_Incompatible
  | Tmux_TooManySessions
  | Tmux_TooManyPanes
  | Tmux_ProjectionTooLarge
  | Tmux_Protocol
  | Tmux_Target
  | Tmux_Changed
  | Tmux_Deadline

end
