(* ===== verification/Tmux_Parse.thy ===== *)
theory Tmux_Parse
  imports Contracts
begin

unbundle bit_operations_syntax

text \<open>
  The pure half of \<open>crates/owlmux-server/src/tmux.rs\<close>: identifier grammars, bounded numbers,
  control-mode markers and escapes, the tmux version gate, pane rows, the session probe and the
  rendering of captured panes. The stateful control adapter is in \<open>Tmux_Control\<close>.
\<close>

section \<open>Data\<close>

record session_summary =
  ss_session_id :: bytes
  ss_session_created :: int
  ss_name :: bytes
  ss_attached_client_count :: nat
  ss_window_count :: nat

record probe_result =
  pr_tmux_client_version :: bytes
  pr_tmux_server_version :: "bytes option"
  pr_selection_epoch :: uuid
  pr_sessions :: "session_summary list"

record window_summary =
  wsm_window_id :: bytes
  wsm_name :: bytes
  wsm_active :: bool

record window_projection =
  wp_window_id :: bytes
  wp_name :: bytes
  wp_width :: nat
  wp_height :: nat
  wp_layout :: bytes

record pane_terminal_state =
  ts_cursor_x :: nat
  ts_cursor_y :: nat
  ts_modes :: "8 word"
  ts_scroll_upper :: nat
  ts_scroll_lower :: nat

record pane_projection =
  pp_pane_id :: bytes
  pp_active :: bool
  pp_width :: nat
  pp_height :: nat
  pp_left :: nat
  pp_top :: nat
  pp_title :: bytes
  pp_current_command :: bytes
  pp_terminal :: pane_terminal_state

record pane_snapshot =
  sn_pane_id :: bytes
  sn_content :: bytes

record workspace_projection =
  wk_windows :: "window_summary list"
  wk_window :: window_projection
  wk_panes :: "pane_projection list"
  wk_snapshots :: "pane_snapshot list"

abbreviation (input) MODE_ALTERNATE :: "8 word" where "MODE_ALTERNATE \<equiv> 1"
abbreviation (input) MODE_CURSOR_VISIBLE :: "8 word" where "MODE_CURSOR_VISIBLE \<equiv> 2"
abbreviation (input) MODE_INSERT :: "8 word" where "MODE_INSERT \<equiv> 4"
abbreviation (input) MODE_APPLICATION_CURSOR :: "8 word" where "MODE_APPLICATION_CURSOR \<equiv> 8"
abbreviation (input) MODE_APPLICATION_KEYPAD :: "8 word" where "MODE_APPLICATION_KEYPAD \<equiv> 16"
abbreviation (input) MODE_ORIGIN :: "8 word" where "MODE_ORIGIN \<equiv> 32"
abbreviation (input) MODE_WRAP :: "8 word" where "MODE_WRAP \<equiv> 64"

definition has_mode :: "pane_terminal_state \<Rightarrow> 8 word \<Rightarrow> bool" where
  "has_mode t mode \<longleftrightarrow> ts_modes t AND mode \<noteq> 0"

section \<open>Identifiers and bounded numbers\<close>

definition is_numeric_id :: "bytes \<Rightarrow> char \<Rightarrow> bool" where
  "is_numeric_id value prefix = (case strip_prefix [prefix] value of
     None \<Rightarrow> False
   | Some digits \<Rightarrow> digits \<noteq> [] \<and> length digits \<le> 30 \<and> list_all is_ascii_digit digits)"

definition is_session_id :: "bytes \<Rightarrow> bool" where
  "is_session_id value = is_numeric_id value (CHR ''$'')"

definition is_window_id :: "bytes \<Rightarrow> bool" where
  "is_window_id value = is_numeric_id value (CHR ''@'')"

definition is_pane_id :: "bytes \<Rightarrow> bool" where
  "is_pane_id value = is_numeric_id value (CHR ''%'')"

definition parse_positive_i64 :: "bytes \<Rightarrow> tmux_error + int" where
  "parse_positive_i64 value = r_bind (ok_or (parse_i64 value) Tmux_Protocol) (\<lambda>v.
     if v \<le> 0 then Err Tmux_Protocol else Ok v)"

definition parse_count :: "bytes \<Rightarrow> tmux_error + nat" where
  "parse_count value = r_bind (ok_or (parse_u32 value) Tmux_Protocol) (\<lambda>v.
     if 10000 < v then Err Tmux_Protocol else Ok v)"

definition parse_dimension :: "bytes \<Rightarrow> tmux_error + nat" where
  "parse_dimension value = r_bind (ok_or (parse_u32 value) Tmux_Protocol) (\<lambda>v.
     if v = 0 \<or> ATTACHMENT_MAX_DIMENSION < v then Err Tmux_Protocol else Ok v)"

definition parse_coordinate :: "bytes \<Rightarrow> tmux_error + nat" where
  "parse_coordinate value = r_bind (ok_or (parse_u32 value) Tmux_Protocol) (\<lambda>v.
     if ATTACHMENT_MAX_DIMENSION \<le> v then Err Tmux_Protocol else Ok v)"

definition valid_grid :: "nat \<Rightarrow> nat \<Rightarrow> bool" where
  "valid_grid width height \<longleftrightarrow> 0 < width \<and> width \<le> ATTACHMENT_MAX_DIMENSION
     \<and> 0 < height \<and> height \<le> ATTACHMENT_MAX_DIMENSION \<and> width * height \<le> ATTACHMENT_MAX_GRID_CELLS"

definition parse_coordinate_with_bound :: "bytes \<Rightarrow> nat \<Rightarrow> tmux_error + nat" where
  "parse_coordinate_with_bound value exclusive_bound = r_bind (parse_coordinate value) (\<lambda>v.
     if exclusive_bound \<le> v then Err Tmux_Protocol else Ok v)"

fun parse_modes_from :: "nat \<Rightarrow> bytes list \<Rightarrow> 8 word \<Rightarrow> tmux_error + 8 word" where
  "parse_modes_from index [] modes = Ok modes"
| "parse_modes_from index (v # vs) modes =
     (if v = ''0'' then parse_modes_from (Suc index) vs modes
      else if v = ''1'' then parse_modes_from (Suc index) vs (modes OR push_bit index 1)
      else Err Tmux_Protocol)"

definition parse_modes :: "bytes list \<Rightarrow> tmux_error + 8 word" where
  "parse_modes values = (if length values \<noteq> 7 then Err Tmux_Protocol else parse_modes_from 0 values 0)"

section \<open>Control-mode records\<close>

definition parse_marker :: "bytes \<Rightarrow> bytes \<Rightarrow> tmux_error + (nat \<times> nat \<times> nat) option" where
  "parse_marker line prefix = (case strip_prefix prefix line of
     None \<Rightarrow> Ok None
   | Some value0 \<Rightarrow>
       (let value = (case strip_suffix [CHR 0x0A] value0 of None \<Rightarrow> value0 | Some v \<Rightarrow> v);
            cols = split_whitespace value
        in if \<not> from_utf8_ok value then Err Tmux_Protocol
           else if length cols \<noteq> 3 then Err Tmux_Protocol
           else r_bind (ok_or (parse_u64 (cols ! 0)) Tmux_Protocol) (\<lambda>a.
                r_bind (ok_or (parse_u64 (cols ! 1)) Tmux_Protocol) (\<lambda>b.
                r_bind (ok_or (parse_u64 (cols ! 2)) Tmux_Protocol) (\<lambda>c.
                  Ok (Some (a, b, c)))))))"

definition split_once_space :: "bytes \<Rightarrow> tmux_error + bytes \<times> bytes" where
  "split_once_space value = (case position (\<lambda>b. b = CHR '' '') value of
     None \<Rightarrow> Err Tmux_Protocol
   | Some separator \<Rightarrow> Ok (take separator value, drop (separator + 1) value))"

definition is_refresh_notification :: "bytes \<Rightarrow> bool" where
  "is_refresh_notification line \<longleftrightarrow>
     line = ''%sessions-changed''
   \<or> starts_with ''%layout-change '' line
   \<or> starts_with ''%pane-mode-changed '' line
   \<or> starts_with ''%session-changed '' line
   \<or> starts_with ''%session-renamed '' line
   \<or> starts_with ''%session-window-changed '' line
   \<or> starts_with ''%subscription-changed '' line
   \<or> starts_with ''%window-add '' line
   \<or> starts_with ''%window-close '' line
   \<or> starts_with ''%window-pane-changed '' line
   \<or> starts_with ''%window-renamed '' line"

definition is_ignorable_notification :: "bytes \<Rightarrow> bool" where
  "is_ignorable_notification line \<longleftrightarrow>
     starts_with ''%client-active '' line
   \<or> starts_with ''%client-detached '' line
   \<or> starts_with ''%client-session-changed '' line
   \<or> starts_with ''%client-window-changed '' line
   \<or> starts_with ''%message '' line
   \<or> starts_with ''%paste-buffer-changed '' line
   \<or> starts_with ''%paste-buffer-deleted '' line
   \<or> starts_with ''%unlinked-window-add '' line
   \<or> starts_with ''%unlinked-window-close '' line
   \<or> starts_with ''%unlinked-window-renamed '' line"

definition command_payload :: "bytes \<Rightarrow> bytes" where
  "command_payload line = (case strip_suffix [CHR 0x0A] line of None \<Rightarrow> line | Some v \<Rightarrow> v)"

definition single_line :: "bytes list \<Rightarrow> tmux_error + bytes" where
  "single_line ls = (case ls of
     [l] \<Rightarrow> if from_utf8_ok l then Ok l else Err Tmux_Protocol
   | _ \<Rightarrow> Err Tmux_Protocol)"

definition safe_text :: "bytes list \<Rightarrow> nat \<Rightarrow> tmux_error + bytes" where
  "safe_text ls max_bytes = r_bind (single_line ls) (\<lambda>value.
     if max_bytes < length value \<or> chars_any char_is_control value then Err Tmux_Protocol
     else Ok value)"

text \<open>
  \<open>decode_escaped\<close>: the octal digits are combined in \<open>u8\<close> arithmetic, which wraps in a release
  build (the workspace sets no \<open>overflow-checks\<close>).
\<close>

definition octal_byte :: "char \<Rightarrow> char \<Rightarrow> char \<Rightarrow> char" where
  "octal_byte a b c = (let d = (\<lambda>x. of_nat (ord x) - 48 :: 8 word)
     in char_of (unat (d a * 64 + d b * 8 + d c)))"

fun decode_escaped :: "bytes \<Rightarrow> tmux_error + bytes" where
  "decode_escaped [] = Ok []"
| "decode_escaped (c0 # rest) =
     (if c0 \<noteq> CHR 0x5C then r_bind (decode_escaped rest) (\<lambda>d. Ok (c0 # d))
      else (case rest of
        [] \<Rightarrow> Err Tmux_Protocol
      | c1 # rest1 \<Rightarrow>
          if c1 = CHR 0x5C then r_bind (decode_escaped rest1) (\<lambda>d. Ok (CHR 0x5C # d))
          else (case rest1 of
            c2 # c3 # rest3 \<Rightarrow>
              if is_octal_digit c1 \<and> is_octal_digit c2 \<and> is_octal_digit c3
              then r_bind (decode_escaped rest3) (\<lambda>d. Ok (octal_byte c1 c2 c3 # d))
              else Err Tmux_Protocol
          | _ \<Rightarrow> Err Tmux_Protocol)))"

section \<open>Versions\<close>

definition KNOWN_BAD_VERSIONS :: "bytes list" where
  "KNOWN_BAD_VERSIONS = []"

definition is_lower_ascii :: "char \<Rightarrow> bool" where
  "is_lower_ascii c \<longleftrightarrow> 97 \<le> ord c \<and> ord c \<le> 122"

definition parse_version_release :: "bytes \<Rightarrow> tmux_error + nat \<times> nat \<times> char option" where
  "parse_version_release release = (case split_once (CHR ''.'') release of
     None \<Rightarrow> Err Tmux_Incompatible
   | Some (major, minor_and_patch) \<Rightarrow>
       if major = [] \<or> \<not> list_all is_ascii_digit major then Err Tmux_Incompatible
       else (let minor_length = length (takeWhile is_ascii_digit minor_and_patch);
                 minor = take minor_length minor_and_patch;
                 patch = drop minor_length minor_and_patch
             in if minor_length = 0 then Err Tmux_Incompatible
                else r_bind (case patch of
                    [] \<Rightarrow> Ok None
                  | [v] \<Rightarrow> if is_lower_ascii v then Ok (Some v) else Err Tmux_Incompatible
                  | _ \<Rightarrow> Err Tmux_Incompatible) (\<lambda>p.
                r_bind (ok_or (parse_u32 major) Tmux_Incompatible) (\<lambda>ma.
                r_bind (ok_or (parse_u32 minor) Tmux_Incompatible) (\<lambda>mi.
                  Ok (ma, mi, p))))))"

definition validate_version :: "bytes \<Rightarrow> tmux_error + unit" where
  "validate_version value = (case strip_prefix ''tmux '' value of
     None \<Rightarrow> Err Tmux_Incompatible
   | Some release \<Rightarrow>
       if release \<in> set KNOWN_BAD_VERSIONS then Err Tmux_Incompatible
       else r_bind (parse_version_release release) (\<lambda>(major, minor, patch).
         if (major < 3 \<or> major = 3 \<and> minor < 2) \<or> (major = 3 \<and> minor = 2 \<and> patch = None)
         then Err Tmux_Incompatible else Ok ()))"

section \<open>Pane rows\<close>

definition parse_flag :: "bytes \<Rightarrow> tmux_error + bool" where
  "parse_flag value = (if value = ''0'' then Ok False
     else if value = ''1'' then Ok True else Err Tmux_Protocol)"

definition parse_terminal :: "bytes list \<Rightarrow> nat \<Rightarrow> nat \<Rightarrow> tmux_error + pane_terminal_state" where
  "parse_terminal cols width height =
     r_bind (parse_coordinate_with_bound (cols ! 7) width) (\<lambda>cx.
     r_bind (parse_coordinate_with_bound (cols ! 8) height) (\<lambda>cy.
     r_bind (parse_modes (take 7 (drop 9 cols))) (\<lambda>modes.
     r_bind (parse_coordinate_with_bound (cols ! 16) height) (\<lambda>su.
     r_bind (parse_coordinate_with_bound (cols ! 17) height) (\<lambda>sl.
     (let t = \<lparr>ts_cursor_x = cx, ts_cursor_y = cy, ts_modes = modes,
               ts_scroll_upper = su, ts_scroll_lower = sl\<rparr>
      in if sl < su \<or> (cy < su \<and> has_mode t MODE_ORIGIN) then Err Tmux_Protocol else Ok t))))))"

definition parse_pane_row :: "bytes \<Rightarrow> window_projection \<Rightarrow> tmux_error + pane_projection" where
  "parse_pane_row row window =
     (if \<not> from_utf8_ok row then Err Tmux_Protocol else
      (let cols = str_split (CHR '':'') row; pane_id = cols ! 0
       in if length cols \<noteq> 18 then Err Tmux_Protocol
          else if \<not> is_pane_id pane_id then Err Tmux_Protocol
          else if cols ! 1 \<noteq> wp_window_id window then Err Tmux_Changed
          else
            r_bind (parse_flag (cols ! 2)) (\<lambda>active.
            r_bind (parse_dimension (cols ! 3)) (\<lambda>width.
            r_bind (parse_dimension (cols ! 4)) (\<lambda>height.
            r_bind (parse_coordinate (cols ! 5)) (\<lambda>left.
            r_bind (parse_coordinate (cols ! 6)) (\<lambda>top.
            if wp_width window \<le> left \<or> wp_height window \<le> top
               \<or> wp_width window < saturating_add_u32 left width
               \<or> wp_height window < saturating_add_u32 top height
            then Err Tmux_Changed
            else r_bind (parse_terminal cols width height) (\<lambda>terminal.
              Ok \<lparr>pp_pane_id = pane_id, pp_active = active, pp_width = width, pp_height = height,
                  pp_left = left, pp_top = top, pp_title = [], pp_current_command = [],
                  pp_terminal = terminal\<rparr>))))))))"

text \<open>The loop of \<open>parse_pane_rows\<close>, with the set of identifiers seen so far.\<close>

fun parse_pane_rows_from ::
  "bytes list \<Rightarrow> window_projection \<Rightarrow> bytes list \<Rightarrow> tmux_error + pane_projection list" where
  "parse_pane_rows_from [] window seen = Ok []"
| "parse_pane_rows_from (row # rows) window seen =
     r_bind (parse_pane_row row window) (\<lambda>pane.
     if pp_pane_id pane \<in> set seen then Err Tmux_Protocol
     else r_bind (parse_pane_rows_from rows window (pp_pane_id pane # seen)) (\<lambda>panes.
       Ok (pane # panes)))"

fun total_cells :: "pane_projection list \<Rightarrow> nat \<Rightarrow> nat option" where
  "total_cells [] cells = Some cells"
| "total_cells (p # ps) cells = (case checked_add_usize cells (pp_width p * pp_height p) of
     None \<Rightarrow> None | Some t \<Rightarrow> total_cells ps t)"

definition parse_pane_rows :: "bytes list \<Rightarrow> window_projection \<Rightarrow> tmux_error + pane_projection list" where
  "parse_pane_rows rows window =
     (if rows = [] \<or> ATTACHMENT_MAX_PANES < length rows then Err Tmux_TooManyPanes
      else r_bind (parse_pane_rows_from rows window []) (\<lambda>panes.
        if length (filter pp_active panes) \<noteq> 1 then Err Tmux_Protocol
        else (case total_cells panes 0 of
            None \<Rightarrow> Err Tmux_ProjectionTooLarge
          | Some cells \<Rightarrow> if ATTACHMENT_MAX_GRID_CELLS < cells then Err Tmux_ProjectionTooLarge
                           else Ok panes)))"

definition same_pane_structure :: "pane_projection \<Rightarrow> pane_projection \<Rightarrow> bool" where
  "same_pane_structure l r \<longleftrightarrow> pp_pane_id l = pp_pane_id r \<and> pp_active l = pp_active r
     \<and> pp_width l = pp_width r \<and> pp_height l = pp_height r
     \<and> pp_left l = pp_left r \<and> pp_top l = pp_top r"

section \<open>Captured panes\<close>

abbreviation ESC :: char where "ESC \<equiv> CHR 0x1B"
abbreviation CRLF :: bytes where "CRLF \<equiv> [CHR 0x0D, CHR 0x0A]"

definition append_mode :: "bytes \<Rightarrow> bool \<Rightarrow> bytes \<Rightarrow> bytes \<Rightarrow> bytes" where
  "append_mode output enabled s r = output @ (if enabled then s else r)"

fun capture_rows :: "nat \<Rightarrow> bytes list \<Rightarrow> bytes \<Rightarrow> tmux_error + bytes" where
  "capture_rows index [] content = Ok content"
| "capture_rows index (line # lines) content =
     (let content' = content @ (if index \<noteq> 0 then CRLF else []) @ line
      in if ATTACHMENT_MAX_PANE_SNAPSHOT_BYTES < length content' then Err Tmux_ProjectionTooLarge
         else capture_rows (Suc index) lines content')"

definition capture_prologue :: "pane_terminal_state \<Rightarrow> bytes" where
  "capture_prologue t = [ESC, CHR ''c''] @ (if has_mode t MODE_ALTERNATE then ESC # ''[?1049h'' else [])
     @ (ESC # ''[?25l'') @ (ESC # ''[?6l'') @ (ESC # ''[H'') @ (ESC # ''[2J'')"

definition capture_epilogue :: "pane_terminal_state \<Rightarrow> bytes \<Rightarrow> bytes" where
  "capture_epilogue t content0 =
     (let scroll_upper = wrapping_add_u32 (ts_scroll_upper t) 1;
          scroll_lower = wrapping_add_u32 (ts_scroll_lower t) 1;
          content1 = content0 @ ESC # ''['' @ show_nat scroll_upper @ '';'' @ show_nat scroll_lower @ ''r'';
          content2 = content1 @ (if has_mode t MODE_ORIGIN then ESC # ''[?6h'' else ESC # ''[?6l'');
          cursor_row = (if has_mode t MODE_ORIGIN
            then wrapping_add_u32 (wrapping_sub_u32 (ts_cursor_y t) (ts_scroll_upper t)) 1
            else wrapping_add_u32 (ts_cursor_y t) 1);
          cursor_column = wrapping_add_u32 (ts_cursor_x t) 1;
          content3 = content2 @ ESC # ''['' @ show_nat cursor_row @ '';'' @ show_nat cursor_column @ ''H'';
          content4 = append_mode content3 (has_mode t MODE_INSERT) (ESC # ''[4h'') (ESC # ''[4l'');
          content5 = append_mode content4 (has_mode t MODE_WRAP) (ESC # ''[?7h'') (ESC # ''[?7l'');
          content6 = append_mode content5 (has_mode t MODE_APPLICATION_CURSOR)
            (ESC # ''[?1h'') (ESC # ''[?1l'');
          content7 = append_mode content6 (has_mode t MODE_APPLICATION_KEYPAD) (ESC # ''='') (ESC # ''>'')
      in append_mode content7 (has_mode t MODE_CURSOR_VISIBLE) (ESC # ''[?25h'') (ESC # ''[?25l''))"

definition capture_lines :: "bytes list \<Rightarrow> pane_projection \<Rightarrow> tmux_error + bytes" where
  "capture_lines lines pane =
     r_bind (capture_rows 0 lines (capture_prologue (pp_terminal pane))) (\<lambda>content0.
     (let content = capture_epilogue (pp_terminal pane) content0
      in if ATTACHMENT_MAX_PANE_SNAPSHOT_BYTES < length content then Err Tmux_ProjectionTooLarge
         else Ok content))"

section \<open>The session probe\<close>

definition PROBE_CLIENT_PREFIX :: bytes where
  "PROBE_CLIENT_PREFIX = ''__OWLMUX_TMUX_CLIENT_V1__'' @ [CHR 0x09]"

definition PROBE_SERVER_PREFIX :: bytes where
  "PROBE_SERVER_PREFIX = ''__OWLMUX_TMUX_SERVER_V1__'' @ [CHR 0x09]"

definition parse_session :: "bytes \<Rightarrow> tmux_error + session_summary" where
  "parse_session line = (case str_splitn 5 (CHR '':'') line of
     [session_id, created, attached, windows, name] \<Rightarrow>
       if \<not> is_session_id session_id \<or> 128 < length name \<or> chars_any char_is_control name
       then Err Tmux_Protocol
       else r_bind (parse_positive_i64 created) (\<lambda>session_created.
            r_bind (parse_count attached) (\<lambda>attached_client_count.
            r_bind (parse_count windows) (\<lambda>window_count.
            if window_count = 0 then Err Tmux_Protocol
            else Ok \<lparr>ss_session_id = session_id, ss_session_created = session_created, ss_name = name,
                     ss_attached_client_count = attached_client_count,
                     ss_window_count = window_count\<rparr>)))
   | _ \<Rightarrow> Err Tmux_Protocol)"

fun parse_sessions ::
  "bytes list \<Rightarrow> session_summary list \<Rightarrow> tmux_error + session_summary list" where
  "parse_sessions [] sessions = Ok sessions"
| "parse_sessions (line # lines) sessions =
     (if line = [] then parse_sessions lines sessions
      else if MAX_SESSIONS \<le> length sessions then Err Tmux_TooManySessions
      else r_bind (parse_session line) (\<lambda>s.
        if (ss_session_id s, ss_session_created s)
             \<in> set (map (\<lambda>x. (ss_session_id x, ss_session_created x)) sessions)
        then Err Tmux_Protocol
        else parse_sessions lines (sessions @ [s])))"

definition parse_probe :: "uuid \<Rightarrow> bytes \<Rightarrow> tmux_error + probe_result" where
  "parse_probe selection_epoch stdout = (case str_lines stdout of
     first # second # lines \<Rightarrow>
       r_bind (ok_or (strip_prefix PROBE_CLIENT_PREFIX first) Tmux_Protocol) (\<lambda>client_version.
       r_bind (validate_version client_version) (\<lambda>_.
       r_bind (ok_or (strip_prefix PROBE_SERVER_PREFIX second) Tmux_Protocol) (\<lambda>server_value.
       r_bind (if server_value = ''none'' then Ok None
               else r_bind (validate_version server_value) (\<lambda>_. Ok (Some server_value))) (\<lambda>server_version.
       r_bind (parse_sessions lines []) (\<lambda>sessions.
       if sessions \<noteq> [] \<and> server_version = None then Err Tmux_Protocol
       else Ok \<lparr>pr_tmux_client_version = client_version, pr_tmux_server_version = server_version,
                pr_selection_epoch = selection_epoch, pr_sessions = sessions\<rparr>)))))
   | [first] \<Rightarrow>
       r_bind (ok_or (strip_prefix PROBE_CLIENT_PREFIX first) Tmux_Protocol) (\<lambda>client_version.
       r_bind (validate_version client_version) (\<lambda>_. Err Tmux_Protocol))
   | [] \<Rightarrow> Err Tmux_Protocol)"

section \<open>Literal input\<close>

definition hex_digit :: "nat \<Rightarrow> char" where
  "hex_digit n = (if n < 10 then char_of (48 + n) else char_of (87 + n))"

definition hex_byte :: "char \<Rightarrow> bytes" where
  "hex_byte c = [CHR '' '', hex_digit (ord c div 16), hex_digit (ord c mod 16)]"

definition render_literal_input :: "bytes \<Rightarrow> bytes \<Rightarrow> tmux_error + bytes" where
  "render_literal_input pane_id data =
     (if \<not> is_pane_id pane_id \<or> data = [] \<or> ATTACHMENT_MAX_INPUT_BYTES < length data
      then Err Tmux_Protocol
      else Ok (''send-keys -t '' @ pane_id @ '' -H'' @ concat (map hex_byte data)))"

section \<open>Well-formed panes\<close>

text \<open>What a projection promises of a pane: it lies inside its window, its cursor and its
  scroll region lie inside the pane, and in origin mode the cursor is not above the region.\<close>

definition terminal_ok :: "nat \<Rightarrow> nat \<Rightarrow> pane_terminal_state \<Rightarrow> bool" where
  "terminal_ok width height t \<longleftrightarrow> ts_cursor_x t < width \<and> ts_cursor_y t < height
     \<and> ts_scroll_upper t \<le> ts_scroll_lower t \<and> ts_scroll_lower t < height
     \<and> (has_mode t MODE_ORIGIN \<longrightarrow> ts_scroll_upper t \<le> ts_cursor_y t)"

definition pane_ok :: "window_projection \<Rightarrow> pane_projection \<Rightarrow> bool" where
  "pane_ok w p \<longleftrightarrow> is_pane_id (pp_pane_id p)
     \<and> 0 < pp_width p \<and> pp_width p \<le> ATTACHMENT_MAX_DIMENSION
     \<and> 0 < pp_height p \<and> pp_height p \<le> ATTACHMENT_MAX_DIMENSION
     \<and> pp_left p < ATTACHMENT_MAX_DIMENSION \<and> pp_top p < ATTACHMENT_MAX_DIMENSION
     \<and> pp_left p + pp_width p \<le> wp_width w \<and> pp_top p + pp_height p \<le> wp_height w
     \<and> terminal_ok (pp_width p) (pp_height p) (pp_terminal p)"

lemma parse_dimension_Ok [res_simps]:
  "parse_dimension v = Ok n \<longleftrightarrow> parse_u32 v = Some n \<and> 0 < n \<and> n \<le> ATTACHMENT_MAX_DIMENSION"
  by (auto simp: parse_dimension_def res_simps)

lemma parse_coordinate_Ok [res_simps]:
  "parse_coordinate v = Ok n \<longleftrightarrow> parse_u32 v = Some n \<and> n < ATTACHMENT_MAX_DIMENSION"
  by (auto simp: parse_coordinate_def res_simps intro!: exI [of _ n])

lemma parse_coordinate_with_bound_Ok [res_simps]:
  "parse_coordinate_with_bound v b = Ok n \<longleftrightarrow>
     parse_u32 v = Some n \<and> n < ATTACHMENT_MAX_DIMENSION \<and> n < b"
  by (auto simp: parse_coordinate_with_bound_def res_simps intro!: exI [of _ n])

lemma parse_flag_Ok [res_simps]: "parse_flag v = Ok b \<longleftrightarrow> v = (if b then ''1'' else ''0'')"
  by (auto simp: parse_flag_def)

lemma parse_terminal_sound: "parse_terminal cols w h = Ok t \<Longrightarrow> terminal_ok w h t"
  by (auto simp: parse_terminal_def Let_def res_simps terminal_ok_def split: if_splits)

lemma parse_pane_row_sound:
  assumes "parse_pane_row row w = Ok p"
  shows "pane_ok w p" and "pp_title p = []" and "pp_current_command p = []"
proof -
  from assms obtain cols width height left top active t where
    p: "p = \<lparr>pp_pane_id = cols ! 0, pp_active = active, pp_width = width, pp_height = height,
             pp_left = left, pp_top = top, pp_title = [], pp_current_command = [], pp_terminal = t\<rparr>"
    and dims: "0 < width" "width \<le> ATTACHMENT_MAX_DIMENSION" "0 < height"
      "height \<le> ATTACHMENT_MAX_DIMENSION" "left < ATTACHMENT_MAX_DIMENSION" "top < ATTACHMENT_MAX_DIMENSION"
    and inside: "saturating_add_u32 left width \<le> wp_width w" "saturating_add_u32 top height \<le> wp_height w"
    and id: "is_pane_id (cols ! 0)"
    and t: "parse_terminal cols width height = Ok t"
    by (auto simp: parse_pane_row_def Let_def res_simps split: if_splits)
  from t have "terminal_ok width height t" by (rule parse_terminal_sound)
  with p dims inside id show "pane_ok w p" by (auto simp: pane_ok_def saturating_add_u32_def)
  from p show "pp_title p = []" and "pp_current_command p = []" by simp_all
qed

lemma parse_pane_rows_from_sound:
  "parse_pane_rows_from rows w seen = Ok panes \<Longrightarrow>
     length panes = length rows \<and> (\<forall>p \<in> set panes. pane_ok w p \<and> pp_pane_id p \<notin> set seen)
     \<and> distinct (map pp_pane_id panes)"
proof (induction rows arbitrary: seen panes)
  case (Cons row rows)
  then obtain p ps where row: "parse_pane_row row w = Ok p" and new: "pp_pane_id p \<notin> set seen"
    and rest: "parse_pane_rows_from rows w (pp_pane_id p # seen) = Ok ps" and panes: "panes = p # ps"
    by (auto simp: res_simps split: if_splits)
  from Cons.IH [OF rest] new panes parse_pane_row_sound(1) [OF row] show ?case by auto
qed simp

lemma total_cells_Some:
  "total_cells ps n = Some m \<Longrightarrow> m = n + (\<Sum>p \<leftarrow> ps. pp_width p * pp_height p)"
proof (induction ps arbitrary: n)
  case (Cons p ps)
  then have "total_cells ps (n + pp_width p * pp_height p) = Some m"
    by (auto simp: checked_add_usize_def split: option.splits if_splits)
  from Cons.IH [OF this] show ?case by simp
qed simp

definition panes_ok :: "window_projection \<Rightarrow> pane_projection list \<Rightarrow> bool" where
  "panes_ok w ps \<longleftrightarrow> ps \<noteq> [] \<and> length ps \<le> ATTACHMENT_MAX_PANES \<and> list_all (pane_ok w) ps
     \<and> distinct (map pp_pane_id ps) \<and> length (filter pp_active ps) = 1
     \<and> (\<Sum>p \<leftarrow> ps. pp_width p * pp_height p) \<le> ATTACHMENT_MAX_GRID_CELLS"

lemma parse_pane_rows_ok: "parse_pane_rows rows w = Ok ps \<Longrightarrow> panes_ok w ps \<and> length ps = length rows"
  by (auto simp: parse_pane_rows_def panes_ok_def res_simps list_all_iff
      split: if_splits option.splits dest!: parse_pane_rows_from_sound total_cells_Some)

section \<open>Pane rows as tmux prints them\<close>

text \<open>The expansion of \<open>PANE_FORMAT\<close> for one pane: eighteen colon-separated fields.\<close>

fun join_fields :: "char \<Rightarrow> bytes list \<Rightarrow> bytes" where
  "join_fields d [] = []"
| "join_fields d [f] = f"
| "join_fields d (f # g # fs) = f @ d # join_fields d (g # fs)"

definition flag :: "bool \<Rightarrow> bytes" where
  "flag b = (if b then ''1'' else ''0'')"

definition pane_fields :: "bytes \<Rightarrow> pane_projection \<Rightarrow> bytes list" where
  "pane_fields window_id p = (let t = pp_terminal p in
     [pp_pane_id p, window_id, flag (pp_active p), show_nat (pp_width p), show_nat (pp_height p),
      show_nat (pp_left p), show_nat (pp_top p), show_nat (ts_cursor_x t), show_nat (ts_cursor_y t)]
     @ map (\<lambda>i. flag (bit (ts_modes t) i)) [0..<7]
     @ [show_nat (ts_scroll_upper t), show_nat (ts_scroll_lower t)])"

definition pane_row :: "bytes \<Rightarrow> pane_projection \<Rightarrow> bytes" where
  "pane_row window_id p = join_fields (CHR '':'') (pane_fields window_id p)"

lemma str_split_join:
  "fs \<noteq> [] \<Longrightarrow> (\<forall>f \<in> set fs. d \<notin> set f) \<Longrightarrow> str_split d (join_fields d fs) = fs"
  by (induction d fs rule: join_fields.induct) (auto simp: str_split_append str_split_no_sep)

lemma set_join_fields: "set (join_fields d fs) \<subseteq> insert d (\<Union>f \<in> set fs. set f)"
  by (induction d fs rule: join_fields.induct) auto

text \<open>Every byte of a printed field other than the separator is a digit or an id sigil.\<close>

definition field_byte :: "char \<Rightarrow> bool" where
  "field_byte c \<longleftrightarrow> is_ascii_digit c \<or> c = CHR ''%'' \<or> c = CHR ''@''"

lemma field_byte_ascii: "field_byte c \<Longrightarrow> ord c < 128 \<and> c \<noteq> CHR '':''"
  by (auto simp: field_byte_def is_ascii_digit_def)

lemma numeric_id_bytes: "is_numeric_id v s \<Longrightarrow> c \<in> set v \<Longrightarrow> is_ascii_digit c \<or> c = s"
  by (auto simp: is_numeric_id_def strip_prefix_Some_iff list_all_iff split: option.splits)

lemma flag_bytes: "c \<in> set (flag b) \<Longrightarrow> is_ascii_digit c"
  by (auto simp: flag_def is_ascii_digit_def split: if_splits)

lemma pane_fields_bytes:
  assumes "is_pane_id (pp_pane_id p)" and "is_window_id wid" and "f \<in> set (pane_fields wid p)" and "c \<in> set f"
  shows "field_byte c"
  using assms
  by (auto simp: pane_fields_def Let_def is_pane_id_def is_window_id_def field_byte_def
      dest: numeric_id_bytes flag_bytes show_nat_digits)

lemma parse_modes_from_flags:
  "\<exists>r. parse_modes_from i (map flag bs) m = Ok r
     \<and> (\<forall>n < 8. bit r n \<longleftrightarrow> bit m n \<or> i \<le> n \<and> n < i + length bs \<and> bs ! (n - i))"
proof (induction bs arbitrary: i m)
  case (Cons b bs)
  let ?m = "if b then m OR push_bit i 1 else m"
  from Cons.IH [of "Suc i" ?m] obtain r where r: "parse_modes_from (Suc i) (map flag bs) ?m = Ok r"
    and bits: "\<And>n. n < 8 \<Longrightarrow> bit r n \<longleftrightarrow> bit ?m n \<or> Suc i \<le> n \<and> n < Suc i + length bs \<and> bs ! (n - Suc i)"
    by blast
  have "bit r n \<longleftrightarrow> bit m n \<or> i \<le> n \<and> n < i + length (b # bs) \<and> (b # bs) ! (n - i)" if "n < 8" for n
    using bits [OF that] that
    by (cases "n = i") (auto simp: bit_or_iff bit_exp_iff nth_Cons' Suc_le_eq)
  moreover have "parse_modes_from i (map flag (b # bs)) m = Ok r"
    using r by (cases b) (simp_all add: flag_def)
  ultimately show ?case by blast
qed auto

lemma parse_modes_flags:
  assumes "\<not> bit (m :: 8 word) 7"
  shows "parse_modes (map (\<lambda>i. flag (bit m i)) [0..<7]) = Ok m"
proof -
  obtain r where r: "parse_modes_from 0 (map flag (map (bit m) [0..<7])) 0 = Ok r"
    and bits: "\<And>n. n < 8 \<Longrightarrow> bit r n \<longleftrightarrow> n < 7 \<and> bit m n"
    using parse_modes_from_flags [of 0 "map (bit m) [0..<7]" 0] by (auto cong: conj_cong)
  have "r = m"
  proof (rule bit_word_eqI)
    fix n assume "n < LENGTH(8)"
    then have "n < 8" by simp
    with bits [of n] assms show "bit r n \<longleftrightarrow> bit m n" by (cases "n = 7") auto
  qed
  with r show ?thesis by (simp add: parse_modes_def comp_def)
qed

lemma pane_fields_nth:
  "length (pane_fields wid p) = 18"
  "pane_fields wid p ! 0 = pp_pane_id p" "pane_fields wid p ! Suc 0 = wid"
  "pane_fields wid p ! 2 = flag (pp_active p)"
  "pane_fields wid p ! 3 = show_nat (pp_width p)" "pane_fields wid p ! 4 = show_nat (pp_height p)"
  "pane_fields wid p ! 5 = show_nat (pp_left p)" "pane_fields wid p ! 6 = show_nat (pp_top p)"
  "pane_fields wid p ! 7 = show_nat (ts_cursor_x (pp_terminal p))"
  "pane_fields wid p ! 8 = show_nat (ts_cursor_y (pp_terminal p))"
  "take 7 (drop 9 (pane_fields wid p)) = map (\<lambda>i. flag (bit (ts_modes (pp_terminal p)) i)) [0..<7]"
  "pane_fields wid p ! 16 = show_nat (ts_scroll_upper (pp_terminal p))"
  "pane_fields wid p ! 17 = show_nat (ts_scroll_lower (pp_terminal p))"
  by (simp_all add: pane_fields_def Let_def upt_rec_numeral nth_append)

lemma show_nat_coordinate:
  "n < ATTACHMENT_MAX_DIMENSION \<Longrightarrow> n < b \<Longrightarrow> parse_coordinate_with_bound (show_nat n) b = Ok n"
  "n < ATTACHMENT_MAX_DIMENSION \<Longrightarrow> parse_coordinate (show_nat n) = Ok n"
  "0 < n \<Longrightarrow> n \<le> ATTACHMENT_MAX_DIMENSION \<Longrightarrow> parse_dimension (show_nat n) = Ok n"
  by (simp_all add: res_simps parse_unsigned_show_nat)

lemma parse_terminal_fields:
  assumes "terminal_ok w h (pp_terminal p)" and "\<not> bit (ts_modes (pp_terminal p)) 7"
    and "w \<le> ATTACHMENT_MAX_DIMENSION" and "h \<le> ATTACHMENT_MAX_DIMENSION"
  shows "parse_terminal (pane_fields wid p) w h = Ok (pp_terminal p)"
  using assms
  by (auto simp: parse_terminal_def pane_fields_nth show_nat_coordinate parse_modes_flags terminal_ok_def
      Let_def has_mode_def)

lemma parse_pane_row_fields:
  assumes ok: "pane_ok w p" and wid: "is_window_id (wp_window_id w)"
    and labels: "pp_title p = []" "pp_current_command p = []"
    and modes: "\<not> bit (ts_modes (pp_terminal p)) 7"
  shows "parse_pane_row (pane_row (wp_window_id w) p) w = Ok p"
proof -
  let ?fs = "pane_fields (wp_window_id w) p"
  from ok have id: "is_pane_id (pp_pane_id p)" by (simp add: pane_ok_def)
  have bytes: "field_byte c" if "f \<in> set ?fs" "c \<in> set f" for f c
    using pane_fields_bytes [OF id wid that] .
  have "ord c < 128" if "c \<in> set (pane_row (wp_window_id w) p)" for c
    using that set_join_fields [of "CHR '':''" ?fs] bytes
    by (force simp: pane_row_def dest: field_byte_ascii)
  then have utf8: "from_utf8_ok (pane_row (wp_window_id w) p)" by (simp add: from_utf8_ok_ascii)
  have split: "str_split (CHR '':'') (pane_row (wp_window_id w) p) = ?fs"
    unfolding pane_row_def
    by (rule str_split_join) (use bytes field_byte_ascii pane_fields_nth(1) [of "wp_window_id w" p] in fastforce)+
  from ok modes have t: "parse_terminal ?fs (pp_width p) (pp_height p) = Ok (pp_terminal p)"
    by (intro parse_terminal_fields) (auto simp: pane_ok_def)
  from ok have "saturating_add_u32 (pp_left p) (pp_width p) \<le> wp_width w"
      "saturating_add_u32 (pp_top p) (pp_height p) \<le> wp_height w" "pp_left p < wp_width w" "pp_top p < wp_height w"
    by (auto simp: pane_ok_def saturating_add_u32_def)
  with ok labels id utf8 split t show ?thesis
    by (auto simp: parse_pane_row_def Let_def pane_fields_nth flag_def parse_flag_def show_nat_coordinate pane_ok_def
        intro!: pane_projection.equality)
qed

section \<open>The escaped output format\<close>

text \<open>Control-mode output is a sequence of plain bytes, doubled backslashes and octal triples.\<close>

inductive escaped :: "bytes \<Rightarrow> bytes \<Rightarrow> bool" where
  escaped_Nil: "escaped [] []"
| escaped_plain: "c \<noteq> CHR 0x5C \<Longrightarrow> escaped v d \<Longrightarrow> escaped (c # v) (c # d)"
| escaped_backslash: "escaped v d \<Longrightarrow> escaped (CHR 0x5C # CHR 0x5C # v) (CHR 0x5C # d)"
| escaped_octal: "is_octal_digit a \<Longrightarrow> is_octal_digit b \<Longrightarrow> is_octal_digit c \<Longrightarrow> escaped v d \<Longrightarrow>
     escaped (CHR 0x5C # a # b # c # v) (octal_byte a b c # d)"

lemma backslash_not_octal: "\<not> is_octal_digit (CHR 0x5C)"
  by (simp add: is_octal_digit_def)

lemma decode_escaped_sound: "decode_escaped v = Ok d \<Longrightarrow> escaped v d"
proof (induction v arbitrary: d rule: decode_escaped.induct)
  case (2 c0 rest)
  then show ?case
    by (auto simp: res_simps intro: escaped.intros split: if_splits list.splits)
qed (simp add: escaped.intros)

lemma decode_escaped_complete: "escaped v d \<Longrightarrow> decode_escaped v = Ok d"
  by (induction rule: escaped.induct) (auto simp: backslash_not_octal)

text \<open>With a first digit up to 3 the octal value fits a byte and is exact.\<close>

lemma octal_byte_exact:
  assumes "is_octal_digit a" "is_octal_digit b" "is_octal_digit c" and "ord a \<le> 51"
  shows "ord (octal_byte a b c) = (ord a - 48) * 64 + (ord b - 48) * 8 + (ord c - 48)"
proof -
  let ?v = "(ord a - 48) * 64 + (ord b - 48) * 8 + (ord c - 48)"
  have ge: "48 \<le> ord a" "48 \<le> ord b" "48 \<le> ord c" and "?v < 256"
    using assms by (auto simp: is_octal_digit_def)
  have "(of_nat (ord a) - 48 :: 8 word) * 64 + (of_nat (ord b) - 48) * 8 + (of_nat (ord c) - 48) = of_nat ?v"
    using ge by (simp add: of_nat_diff)
  with \<open>?v < 256\<close> show ?thesis
    by (simp only: octal_byte_def Let_def unat_of_nat) simp
qed

section \<open>The version gate\<close>

definition release_string :: "bytes \<Rightarrow> bytes \<Rightarrow> char option \<Rightarrow> bytes" where
  "release_string major minor patch = major @ CHR ''.'' # minor @ (case patch of None \<Rightarrow> [] | Some c \<Rightarrow> [c])"

lemma parse_unsigned_digits:
  "list_all is_ascii_digit s \<Longrightarrow> parse_unsigned k s = (case parse_digits s of None \<Rightarrow> None
     | Some n \<Rightarrow> if n < 2 ^ k then Some n else None)"
  using not_digit_sign by (cases s) (auto simp: parse_unsigned_def)

lemma parse_u32_digits:
  "list_all is_ascii_digit s \<Longrightarrow> s \<noteq> [] \<Longrightarrow>
     parse_unsigned k s = (if digits_value s < 2 ^ k then Some (digits_value s) else None)"
  by (simp add: parse_unsigned_digits parse_digits_def)

lemma lower_not_digit: "is_lower_ascii c \<Longrightarrow> \<not> is_ascii_digit c"
  by (simp add: is_lower_ascii_def is_ascii_digit_def)

lemma dot_not_digit: "list_all is_ascii_digit s \<Longrightarrow> CHR ''.'' \<notin> set s"
  by (auto simp: list_all_iff is_ascii_digit_def)

lemma parse_version_release_Ok_iff:
  "parse_version_release r = Ok (ma, mi, p) \<longleftrightarrow>
     (\<exists>major minor. r = release_string major minor p
        \<and> major \<noteq> [] \<and> list_all is_ascii_digit major \<and> minor \<noteq> [] \<and> list_all is_ascii_digit minor
        \<and> (\<forall>c. p = Some c \<longrightarrow> is_lower_ascii c)
        \<and> digits_value major = ma \<and> ma < 2 ^ 32 \<and> digits_value minor = mi \<and> mi < 2 ^ 32)"
  (is "?L \<longleftrightarrow> ?R")
proof
  assume ?L
  then obtain major mp where r: "r = major @ CHR ''.'' # mp" and major: "major \<noteq> []" "list_all is_ascii_digit major"
    and parts: "takeWhile is_ascii_digit mp \<noteq> []"
    and p: "drop (length (takeWhile is_ascii_digit mp)) mp = (case p of None \<Rightarrow> [] | Some c \<Rightarrow> [c])"
      "\<forall>c. p = Some c \<longrightarrow> is_lower_ascii c"
    and ma: "parse_u32 major = Some ma" and mi: "parse_u32 (take (length (takeWhile is_ascii_digit mp)) mp) = Some mi"
    by (auto simp: parse_version_release_def Let_def res_simps split_once_Some_iff
        split: option.splits if_splits list.splits)
  let ?minor = "takeWhile is_ascii_digit mp"
  have minor: "take (length ?minor) mp = ?minor" by (rule takeWhile_eq_take [symmetric])
  have "mp = ?minor @ (case p of None \<Rightarrow> [] | Some c \<Rightarrow> [c])"
    using append_take_drop_id [of "length ?minor" mp] p minor by simp
  moreover have "list_all is_ascii_digit ?minor" by (auto simp: list_all_iff dest: set_takeWhileD)
  ultimately show ?R
    using r major parts p ma mi minor
    by (intro exI [of _ major] exI [of _ ?minor])
       (auto simp: release_string_def parse_u32_digits split: if_splits)
next
  assume ?R
  then obtain major minor where r: "r = release_string major minor p"
    and d: "major \<noteq> []" "list_all is_ascii_digit major" "minor \<noteq> []" "list_all is_ascii_digit minor"
    and p: "\<forall>c. p = Some c \<longrightarrow> is_lower_ascii c"
    and v: "digits_value major = ma" "ma < 2 ^ 32" "digits_value minor = mi" "mi < 2 ^ 32"
    by blast
  let ?mp = "minor @ (case p of None \<Rightarrow> [] | Some c \<Rightarrow> [c])"
  have once: "split_once (CHR ''.'') r = Some (major, ?mp)"
    unfolding r release_string_def by (rule split_once_append) (rule dot_not_digit [OF d(2)])
  have tw: "takeWhile is_ascii_digit ?mp = minor"
    using d(4) p lower_not_digit by (cases p) (auto simp: list_all_iff)
  have cut: "take (length minor) ?mp = minor" "drop (length minor) ?mp = (case p of None \<Rightarrow> [] | Some c \<Rightarrow> [c])"
    by simp_all
  show ?L
    unfolding parse_version_release_def once option.case prod.case tw Let_def cut
    using d p v by (cases p) (simp_all add: parse_u32_digits)
qed

lemma version_gate_arith:
  "\<not> ((a < 3 \<or> a = 3 \<and> b < 2) \<or> (a = 3 \<and> b = 2 \<and> p = None)) \<longleftrightarrow>
     3 < a \<or> a = 3 \<and> 2 < b \<or> a = 3 \<and> b = 2 \<and> p \<noteq> None" for a b :: nat
  by arith

lemma validate_version_Ok_iff:
  "validate_version v = Ok () \<longleftrightarrow>
     (\<exists>major minor patch. v = ''tmux '' @ release_string major minor patch
        \<and> major \<noteq> [] \<and> list_all is_ascii_digit major \<and> minor \<noteq> [] \<and> list_all is_ascii_digit minor
        \<and> (\<forall>c. patch = Some c \<longrightarrow> is_lower_ascii c)
        \<and> digits_value major < 2 ^ 32 \<and> digits_value minor < 2 ^ 32
        \<and> (3 < digits_value major \<or> digits_value major = 3 \<and> 2 < digits_value minor
           \<or> digits_value major = 3 \<and> digits_value minor = 2 \<and> patch \<noteq> None))"
  (is "_ \<longleftrightarrow> ?rhs")
proof -
  have "validate_version v = Ok () \<longleftrightarrow> (\<exists>ma mi p. (\<exists>r. v = ''tmux '' @ r \<and> parse_version_release r = Ok (ma, mi, p))
      \<and> \<not> ((ma < 3 \<or> ma = 3 \<and> mi < 2) \<or> (ma = 3 \<and> mi = 2 \<and> p = None)))"
    by (auto simp: validate_version_def KNOWN_BAD_VERSIONS_def strip_prefix_Some_iff strip_prefix_None_iff
        starts_with_iff res_simps split: option.splits if_splits)
  also have "\<dots> \<longleftrightarrow> (\<exists>major minor patch. v = ''tmux '' @ release_string major minor patch
        \<and> major \<noteq> [] \<and> list_all is_ascii_digit major \<and> minor \<noteq> [] \<and> list_all is_ascii_digit minor
        \<and> (\<forall>c. patch = Some c \<longrightarrow> is_lower_ascii c)
        \<and> digits_value major < 2 ^ 32 \<and> digits_value minor < 2 ^ 32
        \<and> \<not> ((digits_value major < 3 \<or> digits_value major = 3 \<and> digits_value minor < 2)
             \<or> (digits_value major = 3 \<and> digits_value minor = 2 \<and> patch = None)))"
    unfolding parse_version_release_Ok_iff by blast
  also have "\<dots> \<longleftrightarrow> ?rhs"
    by (intro ex_cong1 conj_cong refl version_gate_arith)
  finally show ?thesis .
qed

section \<open>Literal input on the command line\<close>

text \<open>Reading the \<open>-H\<close> operands back: pairs of hexadecimal digits after single spaces.\<close>

definition hex_value :: "char \<Rightarrow> nat option" where
  "hex_value c = (if is_ascii_digit c then Some (ord c - 48)
     else if 97 \<le> ord c \<and> ord c \<le> 102 then Some (ord c - 87) else None)"

fun unhex_operands :: "bytes \<Rightarrow> bytes option" where
  "unhex_operands [] = Some []"
| "unhex_operands (s # a # b # rest) = (case (hex_value a, hex_value b, unhex_operands rest) of
     (Some x, Some y, Some d) \<Rightarrow> if s = CHR '' '' then Some (char_of (16 * x + y) # d) else None
   | _ \<Rightarrow> None)"
| "unhex_operands _ = None"

lemma ord_char_of_small: "n < 256 \<Longrightarrow> ord (char_of n) = n"
  by simp

lemma hex_value_digit: "n < 16 \<Longrightarrow> hex_value (hex_digit n) = Some n"
  by (auto simp: hex_value_def hex_digit_def is_ascii_digit_def)

lemma hex_digit_printable: "n < 16 \<Longrightarrow> 48 \<le> ord (hex_digit n) \<and> ord (hex_digit n) < 128"
  by (auto simp: hex_digit_def)

lemma ord_nibbles: "ord c div 16 < 16" "ord c mod 16 < 16"
  by (rule less_mult_imp_div_less) simp_all

lemma unhex_hex_bytes: "unhex_operands (concat (map hex_byte d)) = Some d"
  by (induction d) (simp_all add: hex_byte_def hex_value_digit ord_nibbles del: div_less)

lemma length_hex_bytes: "length (concat (map hex_byte d)) = 3 * length d"
  by (induction d) (simp_all add: hex_byte_def)

lemma hex_bytes_printable: "c \<in> set (concat (map hex_byte d)) \<Longrightarrow> 32 \<le> ord c \<and> ord c < 128"
proof (induction d)
  case (Cons b d)
  then show ?case
    using hex_digit_printable [OF ord_nibbles(1) [of b]] hex_digit_printable [OF ord_nibbles(2) [of b]]
    by (auto simp: hex_byte_def)
qed simp

lemma numeric_id_length: "is_numeric_id v s \<Longrightarrow> length v \<le> 31"
  by (auto simp: is_numeric_id_def strip_prefix_Some_iff split: option.splits)

lemma numeric_id_printable: "is_numeric_id v s \<Longrightarrow> 32 \<le> ord s \<and> ord s < 128 \<Longrightarrow> c \<in> set v \<Longrightarrow> 32 \<le> ord c \<and> ord c < 128"
  by (auto simp: is_ascii_digit_def dest: numeric_id_bytes)

lemma render_literal_input_Ok [res_simps]:
  "render_literal_input pane_id d = Ok cmd \<longleftrightarrow> is_pane_id pane_id \<and> d \<noteq> [] \<and> length d \<le> ATTACHMENT_MAX_INPUT_BYTES
     \<and> cmd = ''send-keys -t '' @ pane_id @ '' -H'' @ concat (map hex_byte d)"
  by (auto simp: render_literal_input_def)

lemma render_literal_input_safe:
  assumes "render_literal_input pane_id d = Ok cmd"
  shows "length cmd \<le> MAX_CONTROL_COMMAND_BYTES" and "\<forall>c \<in> set cmd. 32 \<le> ord c \<and> ord c < 128"
proof -
  from assms have id: "is_numeric_id pane_id (CHR ''%'')" and len: "length d \<le> 1024"
    and cmd: "cmd = ''send-keys -t '' @ pane_id @ '' -H'' @ concat (map hex_byte d)"
    by (simp_all add: res_simps is_pane_id_def)
  from numeric_id_length [OF id] len show "length cmd \<le> MAX_CONTROL_COMMAND_BYTES"
    by (simp only: cmd length_append length_hex_bytes) simp
  have "32 \<le> ord c \<and> ord c < 128" if "c \<in> set pane_id" for c
    using numeric_id_printable [OF id _ that] by simp
  then show "\<forall>c \<in> set cmd. 32 \<le> ord c \<and> ord c < 128"
    using hex_bytes_printable [of _ d] by (auto simp: cmd)
qed

section \<open>Captured panes: structure and bound\<close>

fun join_rows :: "bytes list \<Rightarrow> bytes" where
  "join_rows [] = []"
| "join_rows (l # ls) = l @ concat (map (\<lambda>r. CRLF @ r) ls)"

lemma capture_rows_Ok:
  "capture_rows i ls acc = Ok c \<Longrightarrow>
     c = acc @ (if i = 0 then join_rows ls else concat (map (\<lambda>r. CRLF @ r) ls))"
proof (induction ls arbitrary: i acc)
  case (Cons l ls)
  then have "capture_rows (Suc i) ls (acc @ (if i \<noteq> 0 then CRLF else []) @ l) = Ok c"
    by (simp add: Let_def split: if_splits)
  from Cons.IH [OF this] show ?case by (cases i) simp_all
qed simp

text \<open>The cursor address written after the rows, one-based and relative to the scroll region in
  origin mode, as the terminal will interpret it.\<close>

definition cursor_report :: "pane_terminal_state \<Rightarrow> nat \<times> nat" where
  "cursor_report t = (if has_mode t MODE_ORIGIN then ts_cursor_y t - ts_scroll_upper t + 1 else ts_cursor_y t + 1,
     ts_cursor_x t + 1)"

definition mode_suffix :: "pane_terminal_state \<Rightarrow> bytes" where
  "mode_suffix t = (if has_mode t MODE_INSERT then ESC # ''[4h'' else ESC # ''[4l'')
     @ (if has_mode t MODE_WRAP then ESC # ''[?7h'' else ESC # ''[?7l'')
     @ (if has_mode t MODE_APPLICATION_CURSOR then ESC # ''[?1h'' else ESC # ''[?1l'')
     @ (if has_mode t MODE_APPLICATION_KEYPAD then ESC # ''='' else ESC # ''>'')
     @ (if has_mode t MODE_CURSOR_VISIBLE then ESC # ''[?25h'' else ESC # ''[?25l'')"

definition restore_sequence :: "pane_terminal_state \<Rightarrow> bytes" where
  "restore_sequence t =
     (ESC # ''['' @ show_nat (ts_scroll_upper t + 1) @ '';'' @ show_nat (ts_scroll_lower t + 1) @ ''r'')
   @ (if has_mode t MODE_ORIGIN then ESC # ''[?6h'' else ESC # ''[?6l'')
   @ (ESC # ''['' @ show_nat (fst (cursor_report t)) @ '';'' @ show_nat (snd (cursor_report t)) @ ''H'')
   @ mode_suffix t"

lemma capture_epilogue_restores:
  assumes "terminal_ok w h t" and "w \<le> ATTACHMENT_MAX_DIMENSION" and "h \<le> ATTACHMENT_MAX_DIMENSION"
  shows "capture_epilogue t c = c @ restore_sequence t"
proof -
  from assms have small: "wrapping_add_u32 (ts_scroll_upper t) 1 = ts_scroll_upper t + 1"
      "wrapping_add_u32 (ts_scroll_lower t) 1 = ts_scroll_lower t + 1"
      "wrapping_add_u32 (ts_cursor_x t) 1 = ts_cursor_x t + 1"
      "wrapping_add_u32 (ts_cursor_y t) 1 = ts_cursor_y t + 1"
    by (auto simp: terminal_ok_def wrapping_add_u32_def)
  have org: "wrapping_add_u32 (wrapping_sub_u32 (ts_cursor_y t) (ts_scroll_upper t)) 1
      = ts_cursor_y t - ts_scroll_upper t + 1" if "has_mode t MODE_ORIGIN"
    using assms that by (subst wrapping_sub_u32_small, auto simp: terminal_ok_def wrapping_add_u32_def)
  show ?thesis
    unfolding capture_epilogue_def Let_def small
    by (simp add: org [simplified] restore_sequence_def cursor_report_def mode_suffix_def
        append_mode_def)
qed

lemma capture_lines_content:
  assumes "capture_lines rows p = Ok content" and "pane_ok window p"
  shows "content = capture_prologue (pp_terminal p) @ join_rows rows @ restore_sequence (pp_terminal p)
    \<and> length content \<le> ATTACHMENT_MAX_PANE_SNAPSHOT_BYTES"
proof -
  from assms(1) obtain c0 where rows: "capture_rows 0 rows (capture_prologue (pp_terminal p)) = Ok c0"
    and content: "content = capture_epilogue (pp_terminal p) c0" "length content \<le> ATTACHMENT_MAX_PANE_SNAPSHOT_BYTES"
    by (auto simp: capture_lines_def Let_def res_simps split: if_splits)
  from assms(2) have "capture_epilogue (pp_terminal p) c0 = c0 @ restore_sequence (pp_terminal p)"
    by (auto simp: pane_ok_def intro!: capture_epilogue_restores)
  with content capture_rows_Ok [OF rows] show ?thesis by simp
qed

section \<open>The session probe: what an accepted probe promises\<close>

definition session_ok :: "session_summary \<Rightarrow> bool" where
  "session_ok s \<longleftrightarrow> is_session_id (ss_session_id s) \<and> 0 < ss_session_created s
     \<and> length (ss_name s) \<le> 128 \<and> \<not> chars_any char_is_control (ss_name s)
     \<and> ss_attached_client_count s \<le> 10000 \<and> 0 < ss_window_count s \<and> ss_window_count s \<le> 10000"

abbreviation session_key :: "session_summary \<Rightarrow> bytes \<times> int" where
  "session_key s \<equiv> (ss_session_id s, ss_session_created s)"

definition sessions_ok :: "session_summary list \<Rightarrow> bool" where
  "sessions_ok ss \<longleftrightarrow> length ss \<le> MAX_SESSIONS \<and> list_all session_ok ss \<and> distinct (map session_key ss)"

lemma parse_session_ok: "parse_session l = Ok s \<Longrightarrow> session_ok s"
  by (auto simp: parse_session_def session_ok_def res_simps parse_positive_i64_def parse_count_def
      split: if_splits list.splits)

lemma parse_sessions_ok:
  "parse_sessions ls ss = Ok rs \<Longrightarrow> sessions_ok ss \<Longrightarrow> sessions_ok rs"
proof (induction ls arbitrary: ss)
  case (Cons l ls)
  show ?case
  proof (cases "l = []")
    case True
    with Cons show ?thesis by simp
  next
    case False
    with Cons.prems(1) obtain s where s: "parse_session l = Ok s" and len: "length ss < MAX_SESSIONS"
      and new: "session_key s \<notin> set (map session_key ss)" and rest: "parse_sessions ls (ss @ [s]) = Ok rs"
      by (auto simp: res_simps split: if_splits)
    from s have "session_ok s" by (rule parse_session_ok)
    with Cons.prems(2) len new have "sessions_ok (ss @ [s])" by (auto simp: sessions_ok_def)
    with rest show ?thesis by (rule Cons.IH)
  qed
qed simp

lemma parse_probe_parts:
  assumes "parse_probe e out = Ok r"
  shows "validate_version (pr_tmux_client_version r) = Ok ()" and "pr_selection_epoch r = e"
    and "sessions_ok (pr_sessions r)"
    and "(case pr_tmux_server_version r of None \<Rightarrow> pr_sessions r = [] | Some v \<Rightarrow> validate_version v = Ok ())"
proof -
  from assms obtain ls where "validate_version (pr_tmux_client_version r) = Ok ()" "pr_selection_epoch r = e"
    and ss: "parse_sessions ls [] = Ok (pr_sessions r)"
    and sv: "(case pr_tmux_server_version r of None \<Rightarrow> pr_sessions r = [] | Some v \<Rightarrow> validate_version v = Ok ())"
    by (auto simp: parse_probe_def res_simps split: list.splits if_splits)
  moreover from ss have "sessions_ok (pr_sessions r)"
    by (rule parse_sessions_ok) (simp add: sessions_ok_def)
  ultimately show "validate_version (pr_tmux_client_version r) = Ok ()" and "pr_selection_epoch r = e"
    and "sessions_ok (pr_sessions r)"
    and "(case pr_tmux_server_version r of None \<Rightarrow> pr_sessions r = [] | Some v \<Rightarrow> validate_version v = Ok ())"
    by simp_all
qed

section \<open>Output as tmux escapes it\<close>

text \<open>tmux prints a byte either as itself or as a backslash and three octal digits; which printable
  bytes it escapes is its own choice (\<open>esc\<close>), but it always escapes the backslash.\<close>

definition octal_digits :: "char \<Rightarrow> bytes" where
  "octal_digits c = [char_of (48 + ord c div 64), char_of (48 + ord c div 8 mod 8), char_of (48 + ord c mod 8)]"

definition tmux_escape :: "(char \<Rightarrow> bool) \<Rightarrow> bytes \<Rightarrow> bytes" where
  "tmux_escape esc d = concat (map (\<lambda>c. if esc c \<or> c = CHR 0x5C then CHR 0x5C # octal_digits c else [c]) d)"

lemma octal_digits_ok:
  assumes "octal_digits ch = [a, b, c]"
  shows "is_octal_digit a" "is_octal_digit b" "is_octal_digit c" "octal_byte a b c = ch"
proof -
  have small: "ord ch div 64 < 4" by (rule less_mult_imp_div_less) simp
  from assms have abc: "ord a = 48 + ord ch div 64" "ord b = 48 + ord ch div 8 mod 8" "ord c = 48 + ord ch mod 8"
    using small by (auto simp: octal_digits_def)
  with small have oct: "is_octal_digit a" "is_octal_digit b" "is_octal_digit c" and le: "ord a \<le> 51"
    by (auto simp: is_octal_digit_def)
  have d: "ord ch div 64 = ord ch div 8 div 8" by (simp add: div_mult2_eq [symmetric])
  have split: "ord ch = (ord ch div 64) * 64 + (ord ch div 8 mod 8) * 8 + ord ch mod 8"
    unfolding d using div_mult_mod_eq [of "ord ch" 8] div_mult_mod_eq [of "ord ch div 8" 8] by linarith
  have "ord (octal_byte a b c) = ord ch"
    using octal_byte_exact [OF oct le] split by (simp add: abc)
  then show "octal_byte a b c = ch" by simp
  show "is_octal_digit a" "is_octal_digit b" "is_octal_digit c" by (fact oct)+
qed

lemma escaped_tmux_escape: "escaped (tmux_escape esc d) d"
proof (induction d)
  case (Cons ch d)
  obtain a b c where digits: "octal_digits ch = [a, b, c]" by (simp add: octal_digits_def)
  note ok = octal_digits_ok [OF digits]
  from escaped_octal [OF ok(1,2,3) Cons.IH] escaped_plain [OF _ Cons.IH, of ch] ok(4) digits
  show ?case by (auto simp: tmux_escape_def)
qed (simp add: tmux_escape_def escaped_Nil)

lemma octal_byte_wraps:
  assumes "is_octal_digit a" "is_octal_digit b" "is_octal_digit c"
  shows "octal_byte a b c = char_of (((ord a - 48) * 64 + (ord b - 48) * 8 + (ord c - 48)) mod 256)"
proof -
  let ?v = "(ord a - 48) * 64 + (ord b - 48) * 8 + (ord c - 48)"
  have ge: "48 \<le> ord a" "48 \<le> ord b" "48 \<le> ord c"
    using assms by (auto simp: is_octal_digit_def)
  have "(of_nat (ord a) - 48 :: 8 word) * 64 + (of_nat (ord b) - 48) * 8 + (of_nat (ord c) - 48) = of_nat ?v"
    using ge by (simp add: of_nat_diff)
  then show ?thesis
    by (simp only: octal_byte_def Let_def unat_of_nat) simp
qed

lemma parse_marker_Err: "parse_marker l p = Err e \<Longrightarrow> e = Tmux_Protocol"
  by (auto simp: parse_marker_def Let_def r_bind_def ok_or_def split: option.splits if_splits sum.splits)

lemma decode_escaped_Err: "e \<noteq> Tmux_Protocol \<Longrightarrow> decode_escaped v \<noteq> Err e"
proof (induction v rule: decode_escaped.induct)
  case (2 c0 rest)
  then show ?case by (auto simp: res_simps split: if_splits list.splits)
qed simp

lemma pred_option_all: "(\<forall>c. p = Some c \<longrightarrow> Q c) \<longleftrightarrow> pred_option Q p"
  by (cases p) simp_all

section \<open>Properties\<close>

text \<open>Every list of pane rows that \<open>parse_pane_rows\<close> accepts yields panes that lie inside their
  window, have their cursor and scroll region inside the pane, carry distinct identifiers, have
  exactly one active pane, and together stay within the pane and cell limits of the contract.\<close>

lemma accepted_panes_well_formed:
  assumes "parse_pane_rows rows window = Ok panes"
  shows "panes_ok window panes \<and> length panes = length rows"
  using assms by (rule parse_pane_rows_ok)

definition sample_window :: window_projection where
  "sample_window = \<lparr>wp_window_id = ''@1'', wp_name = ''main'', wp_width = 80, wp_height = 24, wp_layout = ''x''\<rparr>"

definition sample_row :: bytes where
  "sample_row = ''%3:@1:1:80:24:0:0:5:7:0:1:0:0:0:1:1:2:20''"

definition sample_pane :: pane_projection where
  "sample_pane = \<lparr>pp_pane_id = ''%3'', pp_active = True, pp_width = 80, pp_height = 24, pp_left = 0, pp_top = 0,
     pp_title = [], pp_current_command = [],
     pp_terminal = \<lparr>ts_cursor_x = 5, ts_cursor_y = 7, ts_modes = 98, ts_scroll_upper = 2, ts_scroll_lower = 20\<rparr>\<rparr>"

lemma sample_parses: "parse_pane_rows [sample_row] sample_window = Ok [sample_pane]"
  by code_simp

theorem accepted_panes_well_formed_witness:
  "panes_ok sample_window [sample_pane] \<and> length [sample_pane] = length [sample_row]"
  by (rule accepted_panes_well_formed [OF sample_parses])

text \<open>A well-formed pane printed in \<open>PANE_FORMAT\<close> is parsed back to the same pane (its title and
  command are filled in later by \<open>observe_pane_labels\<close>, so they are empty at this stage).\<close>

lemma pane_row_round_trip:
  assumes "pane_ok window p" and "is_window_id (wp_window_id window)"
    and "pp_title p = []" and "pp_current_command p = []" and "\<not> bit (ts_modes (pp_terminal p)) 7"
  shows "parse_pane_row (pane_row (wp_window_id window) p) window = Ok p"
  using assms by (rule parse_pane_row_fields)

theorem pane_row_round_trip_witness:
  "parse_pane_row (pane_row (wp_window_id sample_window) sample_pane) sample_window = Ok sample_pane"
  by (rule pane_row_round_trip) (simp add: bit_iff_odd sample_pane_def | code_simp)+

text \<open>Whatever set of bytes tmux chooses to escape, \<open>decode_escaped\<close> recovers exactly the bytes
  the pane wrote, so no terminal output is altered on its way to the browser.\<close>

lemma decode_escaped_round_trip: "decode_escaped (tmux_escape esc d) = Ok d"
  by (rule decode_escaped_complete) (rule escaped_tmux_escape)

text \<open>C40. An octal triple above \<open>\377\<close> is not a byte, yet \<open>decode_escaped\<close> does not reject it: with any
  three octal digits of value 256 to 511, in front of any rest, the \<open>u8\<close> product wraps and the escape
  is decoded as the byte 256 below its value.\<close>

theorem decode_escaped_octal_overflow:
  assumes "is_octal_digit a" and "is_octal_digit b" and "is_octal_digit c"
    and "v = (ord a - 48) * 64 + (ord b - 48) * 8 + (ord c - 48)" and "255 < v"
  shows "v - 256 < 256 \<and> decode_escaped (CHR 0x5C # a # b # c # rest)
    = r_bind (decode_escaped rest) (\<lambda>d. Ok (char_of (v - 256) # d))"
proof -
  from assms(1-4) have small: "v < 512" by (auto simp: is_octal_digit_def)
  with assms(5) have "v mod 256 = v - 256" by (simp add: le_mod_geq)
  with octal_byte_wraps [OF assms(1-3)] have "octal_byte a b c = char_of (v - 256)" by (simp only: assms(4))
  moreover from assms(1) have "a \<noteq> CHR 0x5C" by (auto simp: is_octal_digit_def)
  ultimately show ?thesis using assms(1-3) small by simp
qed

theorem decode_escaped_octal_overflow_witness:
  "decode_escaped (CHR 0x5C # CHR ''5'' # CHR ''0'' # CHR ''1'' # ''x'') = Ok [CHR ''A'', CHR ''x'']"
  using decode_escaped_octal_overflow [of "CHR ''5''" "CHR ''0''" "CHR ''1''" 321 "''x''"]
  by (simp add: is_octal_digit_def char_of_def bit_0)

text \<open>\<open>validate_version\<close> accepts exactly \<open>tmux X.Y\<close> or \<open>tmux X.Yp\<close> with decimal components that
  fit \<open>u32\<close> and one lower-case patch letter, from 3.2a on: 3.2 itself and everything older,
  development builds and suffixed releases are refused.\<close>

lemma version_gate_exact:
  "validate_version v = Ok () \<longleftrightarrow>
     (\<exists>major minor patch. v = ''tmux '' @ release_string major minor patch
        \<and> major \<noteq> [] \<and> list_all is_ascii_digit major \<and> minor \<noteq> [] \<and> list_all is_ascii_digit minor
        \<and> pred_option is_lower_ascii patch
        \<and> digits_value major < 2 ^ 32 \<and> digits_value minor < 2 ^ 32
        \<and> (3 < digits_value major \<or> digits_value major = 3 \<and> 2 < digits_value minor
           \<or> digits_value major = 3 \<and> digits_value minor = 2 \<and> patch \<noteq> None))"
  unfolding validate_version_Ok_iff by (simp only: pred_option_all)

text \<open>A literal-input command fits the control channel's command bound, contains only printable
  ASCII (so neither a line break nor a NUL can smuggle a second command), and its operands encode
  exactly the bytes the client sent.\<close>

lemma literal_input_is_one_safe_command:
  assumes "render_literal_input pane_id d = Ok cmd"
  shows "length cmd \<le> MAX_CONTROL_COMMAND_BYTES \<and> list_all (\<lambda>c. 32 \<le> ord c \<and> ord c < 128) cmd
    \<and> (\<exists>operands. cmd = ''send-keys -t '' @ pane_id @ '' -H'' @ operands \<and> unhex_operands operands = Some d)"
  using render_literal_input_safe [OF assms] assms by (auto simp: res_simps unhex_hex_bytes list_all_iff)

theorem literal_input_is_one_safe_command_witness:
  "render_literal_input ''%7'' [CHR 0x0A, CHR ''z''] = Ok ''send-keys -t %7 -H 0a 7a''
   \<and> length ''send-keys -t %7 -H 0a 7a'' \<le> MAX_CONTROL_COMMAND_BYTES"
proof -
  have "render_literal_input ''%7'' [CHR 0x0A, CHR ''z''] = Ok ''send-keys -t %7 -H 0a 7a''" by code_simp
  with literal_input_is_one_safe_command [OF this] show ?thesis by blast
qed

text \<open>A captured pane that is accepted is the reset prologue, the captured rows joined by CRLF and a
  suffix that restores scroll region, origin mode, cursor and modes with the one-based positions
  the terminal expects; it never exceeds the snapshot bound.\<close>

lemma captured_pane_restores_terminal:
  assumes "capture_lines rows p = Ok content" and "pane_ok window p"
  shows "content = capture_prologue (pp_terminal p) @ join_rows rows @ restore_sequence (pp_terminal p)
    \<and> length content \<le> ATTACHMENT_MAX_PANE_SNAPSHOT_BYTES"
  using assms by (rule capture_lines_content)

theorem captured_pane_restores_terminal_witness:
  "(case capture_lines [''ab'', ''cd''] sample_pane of Inl e \<Rightarrow> False | Inr content \<Rightarrow>
      content = capture_prologue (pp_terminal sample_pane) @ ''ab'' @ CRLF @ ''cd'' @ restore_sequence (pp_terminal sample_pane))"
proof -
  have "is_ok (capture_lines [''ab'', ''cd''] sample_pane)" by code_simp
  then obtain content where c: "capture_lines [''ab'', ''cd''] sample_pane = Ok content" by (auto simp: is_ok_iff)
  have "pane_ok sample_window sample_pane" by code_simp
  from captured_pane_restores_terminal [OF c this] c show ?thesis by simp
qed

text \<open>An accepted session probe has passed the version gate for the client and, when sessions are
  listed, for the server; it lists at most 128 sessions, each with a valid identifier, a positive
  creation time, a bounded control-free name and at least one window, and no two with the same
  identifier and creation time.\<close>

lemma accepted_probe_well_formed:
  assumes "parse_probe epoch out = Ok r"
  shows "validate_version (pr_tmux_client_version r) = Ok () \<and> pr_selection_epoch r = epoch
    \<and> sessions_ok (pr_sessions r)
    \<and> (case pr_tmux_server_version r of None \<Rightarrow> pr_sessions r = [] | Some v \<Rightarrow> validate_version v = Ok ())"
  using parse_probe_parts [OF assms] by blast

definition sample_probe :: bytes where
  "sample_probe = PROBE_CLIENT_PREFIX @ ''tmux 3.4'' @ [CHR 0x0A] @ PROBE_SERVER_PREFIX @ ''tmux 3.3a''
     @ [CHR 0x0A] @ ''$0:1700000000:1:2:work:shop'' @ [CHR 0x0A]"

theorem accepted_probe_well_formed_witness:
  "(case parse_probe 7 sample_probe of Inl e \<Rightarrow> False
    | Inr r \<Rightarrow> sessions_ok (pr_sessions r) \<and> map ss_name (pr_sessions r) = [''work:shop''])"
proof -
  have "is_ok (parse_probe 7 sample_probe)" by code_simp
  then obtain r where r: "parse_probe 7 sample_probe = Ok r" by (auto simp: is_ok_iff)
  have "r_bind (parse_probe 7 sample_probe) (\<lambda>r. Ok (map ss_name (pr_sessions r))) = Ok [''work:shop'']" by code_simp
  with accepted_probe_well_formed [OF r] r show ?thesis by simp
qed

end
