(* ===== verification/Control_Child.thy ===== *)
theory Control_Child
  imports Contracts
begin

text \<open>
  The control-mode child process of \<open>crates/owlmux-server/src/ssh.rs\<close> (\<open>ControlChild\<close>) as the
  control adapter sees it: bounded line reads that survive cancellation, bounded one-line commands,
  and the lease check in front of both. What the operating system does is a script inside the
  state: \<open>cc_stdout\<close> lists the buffers \<open>fill_buf\<close> will return (with moments at which nothing
  arrives before the caller gives up), \<open>cc_lease_ok\<close> and \<open>cc_write_ok\<close> answer the \<open>n\<close>-th lease
  check and the \<open>n\<close>-th write. An \<open>await\<close> that does not complete is the value \<open>Pending\<close>; the
  state reached so far stays, as it does for a cancelled Rust future.
\<close>

datatype 'e await = Failed 'e | Pending

datatype read_event = Buf bytes | IoError | Stall

record control_child =
  cc_ticks :: nat
  cc_lease_ok :: "nat \<Rightarrow> bool"
  cc_write_ok :: "nat \<Rightarrow> bool"
  cc_unlink_ok :: bool
  cc_stdout :: "read_event list"
  cc_pending_line :: bytes
  cc_identity_path :: "bytes option"
  cc_stdin :: "bytes list"

abbreviation LF :: char where "LF \<equiv> CHR 0x0A"

section \<open>Bounded lines\<close>

fun read_bounded_line_into ::
  "read_event list \<Rightarrow> bytes \<Rightarrow> nat \<Rightarrow> (ssh_error await + bytes) \<times> read_event list \<times> bytes" where
  "read_bounded_line_into [] pending max_bytes = (Err (Failed Ssh_Unavailable), [], pending)"
| "read_bounded_line_into (Stall # evs) pending max_bytes = (Err Pending, evs, pending)"
| "read_bounded_line_into (IoError # evs) pending max_bytes = (Err (Failed Ssh_Unavailable), evs, pending)"
| "read_bounded_line_into (Buf buffer # evs) pending max_bytes =
     (if buffer = [] then (Err (Failed Ssh_Unavailable), evs, pending)
      else (let taken = (case position (\<lambda>byte. byte = LF) buffer of None \<Rightarrow> length buffer | Some p \<Rightarrow> p + 1)
            in if (case checked_add_usize (length pending) taken of None \<Rightarrow> True | Some sz \<Rightarrow> max_bytes < sz)
               then (Err (Failed Ssh_ProofFailed), Buf buffer # evs, pending)
               else (let complete = (buffer ! (taken - 1) = LF);
                         pending' = pending @ take taken buffer;
                         rest = drop taken buffer
                     in if complete then (Ok pending', if rest = [] then evs else Buf rest # evs, [])
                        else read_bounded_line_into evs pending' max_bytes)))"

definition child_lease_check :: "(control_child, ssh_error await, unit) sr" where
  "child_lease_check c = (let c' = c\<lparr>cc_ticks := Suc (cc_ticks c)\<rparr>
     in if cc_lease_ok c (cc_ticks c) then (Ok (), c') else (Err (Failed Ssh_Fenced), c'))"

definition read_line :: "(control_child, ssh_error await, bytes) sr" where
  "read_line c = (case read_bounded_line_into (cc_stdout c) (cc_pending_line c) MAX_CONTROL_LINE_BYTES of
     (r, evs, pending) \<Rightarrow> (r, c\<lparr>cc_stdout := evs, cc_pending_line := pending\<rparr>))"

definition unlink_identity :: "bytes \<Rightarrow> (control_child, ssh_error await, unit) sr" where
  "unlink_identity line c =
     (if starts_with ''%begin '' line \<and> cc_identity_path c \<noteq> None
      then (let c' = c\<lparr>cc_identity_path := None\<rparr>
            in if cc_unlink_ok c then (Ok (), c') else (Err (Failed Ssh_Custody), c'))
      else (Ok (), c))"

definition next_line :: "(control_child, ssh_error await, bytes) sr" where
  "next_line = sr_bind child_lease_check (\<lambda>_.
     sr_bind read_line (\<lambda>line.
     sr_bind (unlink_identity line) (\<lambda>_. sr_return line)))"

section \<open>Commands\<close>

text \<open>The three writes (command, line feed, flush) fail alike, so one answer stands for them; a
  command is logged once any of its bytes may have reached the child.\<close>

definition send_command :: "bytes \<Rightarrow> (control_child, ssh_error, unit) sr" where
  "send_command command c =
     (let c1 = c\<lparr>cc_ticks := Suc (cc_ticks c)\<rparr>
      in if \<not> cc_lease_ok c (cc_ticks c) then (Err Ssh_Fenced, c1)
         else if MAX_CONTROL_COMMAND_BYTES < length command
              \<or> CHR 0x0D \<in> set command \<or> LF \<in> set command \<or> CHR 0x00 \<in> set command
         then (Err Ssh_InvalidState, c1)
         else (let c2 = c1\<lparr>cc_stdin := cc_stdin c1 @ [command]\<rparr>
               in if cc_write_ok c (cc_ticks c) then (Ok (), c2) else (Err Ssh_Unavailable, c2)))"

section \<open>Facts about lines\<close>

text \<open>A complete line ends with its only line feed and respects the bound.\<close>

definition control_line :: "nat \<Rightarrow> bytes \<Rightarrow> bool" where
  "control_line n l \<longleftrightarrow> (\<exists>body. l = body @ [LF] \<and> LF \<notin> set body) \<and> length l \<le> n"

definition event_size :: "read_event list \<Rightarrow> nat" where
  "event_size evs = (\<Sum>e \<leftarrow> evs. case e of Buf b \<Rightarrow> Suc (length b) | _ \<Rightarrow> 1)"

lemma position_LF_None: "position (\<lambda>b. b = LF) xs = None \<longleftrightarrow> LF \<notin> set xs"
  by (induction xs) auto

lemma position_LF_Some: "position (\<lambda>b. b = LF) xs = Some p \<Longrightarrow>
    p < length xs \<and> xs ! p = LF \<and> take (Suc p) xs = take p xs @ [LF] \<and> LF \<notin> set (take p xs)"
  by (auto simp: position_Some_iff take_Suc_conv_app_nth in_set_conv_nth)

lemma read_bounded_line_Ok:
  assumes "read_bounded_line_into evs pending n = (Ok line, evs', pending')" and "LF \<notin> set pending"
  shows "control_line n line \<and> pending' = [] \<and> event_size evs' < event_size evs"
  using assms
proof (induction evs pending n rule: read_bounded_line_into.induct)
  case (4 buffer evs pending n)
  let ?p = "position (\<lambda>byte. byte = LF) buffer"
  show ?case
  proof (cases ?p)
    case None
    then have "LF \<notin> set buffer" by (simp add: position_LF_None)
    moreover from "4.prems"(1) have ne: "buffer \<noteq> []" by auto
    moreover from calculation have "buffer ! (length buffer - 1) \<noteq> LF"
      by (metis last_conv_nth last_in_set)
    ultimately have "control_line n line \<and> pending' = [] \<and> event_size evs' < event_size evs"
      using "4.prems" None by (intro "4.IH" [OF _ refl _ refl refl refl]) (auto simp: Let_def split: if_splits)
    then show ?thesis by (simp add: event_size_def)
  next
    case (Some p)
    note f = position_LF_Some [OF Some]
    from f have "buffer \<noteq> []" by auto
    moreover from f have "length (drop (Suc p) buffer) < length buffer" by auto
    ultimately have "line = pending @ take (Suc p) buffer" "length pending + Suc p \<le> n" "pending' = []"
      "event_size evs' < event_size (Buf buffer # evs)"
      using "4.prems" Some f
      by (auto simp: Let_def checked_add_usize_def event_size_def split: if_splits)
    moreover from f "4.prems"(2) have "LF \<notin> set (pending @ take p buffer)" by simp
    ultimately show ?thesis
      using f by (auto simp: control_line_def intro!: exI [of _ "pending @ take p buffer"])
  qed
qed auto

text \<open>The bytes of the target the child has not handed on yet: the pending fragment and what is to arrive.\<close>

primrec arriving :: "read_event list \<Rightarrow> bytes" where
  "arriving [] = []"
| "arriving (e # evs) = (case e of Buf b \<Rightarrow> b | _ \<Rightarrow> []) @ arriving evs"

definition received :: "control_child \<Rightarrow> bytes" where
  "received c = cc_pending_line c @ arriving (cc_stdout c)"

lemma read_bounded_line_bytes:
  "read_bounded_line_into evs pending n = (Ok line, evs', pending') \<Longrightarrow>
     pending @ arriving evs = line @ pending' @ arriving evs'"
proof (induction evs pending n rule: read_bounded_line_into.induct)
  case (4 buffer evs pending n)
  let ?k = "case position (\<lambda>byte. byte = LF) buffer of None \<Rightarrow> length buffer | Some p \<Rightarrow> p + 1"
  show ?case
  proof (cases "buffer ! (?k - 1) = LF")
    case True
    with "4.prems" have "line = pending @ take ?k buffer" "pending' = []"
      "arriving evs' = drop ?k buffer @ arriving evs"
      by (auto simp: Let_def split: if_splits)
    then show ?thesis by simp
  next
    case False
    with "4.prems" have "read_bounded_line_into evs (pending @ take ?k buffer) n = (Ok line, evs', pending')"
      by (auto simp: Let_def split: if_splits)
    moreover have "drop ?k buffer = []"
      using False position_LF_Some [of buffer] by (auto split: option.splits)
    ultimately show ?thesis
      using "4.IH" [OF _ refl _ refl refl refl] "4.prems" False
      by (auto simp: Let_def split: if_splits)
  qed
qed auto

lemma read_bounded_line_size:
  "read_bounded_line_into evs pending n = (Ok line, evs', pending') \<Longrightarrow> event_size evs' < event_size evs"
proof (induction evs pending n rule: read_bounded_line_into.induct)
  case (4 buffer evs pending n)
  show ?case
  proof (cases "position (\<lambda>byte. byte = LF) buffer")
    case None
    then have no: "LF \<notin> set buffer" by (simp add: position_LF_None)
    from 4 have ne: "buffer \<noteq> []" by auto
    from no ne have "buffer ! (length buffer - 1) \<noteq> LF" by (metis last_conv_nth last_in_set)
    with 4 None ne have "event_size evs' < event_size evs" by (auto simp: Let_def split: if_splits)
    then show ?thesis by (simp add: event_size_def)
  next
    case (Some p)
    with 4 position_LF_Some [OF Some] show ?thesis
      by (auto simp: Let_def event_size_def split: if_splits)
  qed
qed auto

lemma read_bounded_line_pending:
  "LF \<notin> set pending \<Longrightarrow> length pending \<le> n \<Longrightarrow> read_bounded_line_into evs pending n = (r, evs', pending') \<Longrightarrow>
     LF \<notin> set pending' \<and> length pending' \<le> n"
proof (induction evs pending n rule: read_bounded_line_into.induct)
  case (4 buffer evs pending n)
  show ?case
  proof (cases "position (\<lambda>byte. byte = LF) buffer")
    case None
    then have "LF \<notin> set buffer" by (simp add: position_LF_None)
    with 4 None show ?thesis
      by (auto simp: Let_def checked_add_usize_def split: if_splits)
  next
    case (Some p)
    with 4 position_LF_Some [OF Some] show ?thesis
      by (auto simp: Let_def split: if_splits option.splits)
  qed
qed auto

text \<open>The child's own invariant: the pending fragment holds no line feed and fits the line bound, and
  every command written so far is one bounded line.\<close>

definition safe_command :: "bytes \<Rightarrow> bool" where
  "safe_command cmd \<longleftrightarrow> length cmd \<le> MAX_CONTROL_COMMAND_BYTES \<and> CHR 0x0D \<notin> set cmd \<and> LF \<notin> set cmd \<and> CHR 0x00 \<notin> set cmd"

definition child_ok :: "control_child \<Rightarrow> bool" where
  "child_ok c \<longleftrightarrow> LF \<notin> set (cc_pending_line c) \<and> length (cc_pending_line c) \<le> MAX_CONTROL_LINE_BYTES
     \<and> list_all safe_command (cc_stdin c)"

lemma child_ok_lease [sr_rules]: "sr_keeps child_ok child_lease_check"
  by (rule sr_keepsI) (simp add: child_lease_check_def child_ok_def Let_def)

lemma child_ok_read [sr_rules]: "sr_keeps child_ok read_line"
  by (rule sr_keepsI)
     (auto simp: read_line_def child_ok_def split: prod.splits dest: read_bounded_line_pending)

lemma child_ok_unlink [sr_rules]: "sr_keeps child_ok (unlink_identity line)"
  by (rule sr_keepsI) (simp add: unlink_identity_def child_ok_def Let_def)

lemma child_ok_next_line [sr_rules]: "sr_keeps child_ok next_line"
  unfolding next_line_def by (intro sr_rules)

lemma child_ok_send [sr_rules]: "sr_keeps child_ok (send_command command)"
  by (rule sr_keepsI) (simp add: send_command_def child_ok_def safe_command_def Let_def)

lemma next_line_parts:
  assumes "next_line c = (Ok line, c')"
  obtains evs pending where
    "read_bounded_line_into (cc_stdout c) (cc_pending_line c) MAX_CONTROL_LINE_BYTES = (Ok line, evs, pending)"
    and "unlink_identity line (c\<lparr>cc_ticks := Suc (cc_ticks c), cc_stdout := evs, cc_pending_line := pending\<rparr>) = (Ok (), c')"
  using assms
  by (auto simp: next_line_def res_simps child_lease_check_def read_line_def sr_return_def Let_def unlink_identity_def
      split: if_splits prod.splits)

lemma next_line_received: "next_line c = (Ok line, c') \<Longrightarrow> received c = line @ received c'"
  by (erule next_line_parts)
     (auto simp: received_def unlink_identity_def Let_def split: if_splits dest: read_bounded_line_bytes)

lemma next_line_size: "next_line c = (Ok line, c') \<Longrightarrow> event_size (cc_stdout c') < event_size (cc_stdout c)"
  by (erule next_line_parts)
     (auto simp: unlink_identity_def Let_def split: if_splits dest: read_bounded_line_size)

lemma next_line_bounded: "next_line c = (Ok line, c') \<Longrightarrow> child_ok c \<Longrightarrow> control_line MAX_CONTROL_LINE_BYTES line"
  by (erule next_line_parts) (auto dest: read_bounded_line_Ok simp: child_ok_def)

lemma next_line_unlinks:
  "next_line c = (Ok line, c') \<Longrightarrow> starts_with ''%begin '' line \<Longrightarrow> cc_identity_path c' = None"
  by (erule next_line_parts) (auto simp: unlink_identity_def Let_def split: if_splits)

lemma next_line_frame:
  "next_line c = (r, c') \<Longrightarrow> cc_stdin c' = cc_stdin c \<and> cc_lease_ok c' = cc_lease_ok c \<and> cc_write_ok c' = cc_write_ok c"
  by (auto simp: next_line_def sr_defs child_lease_check_def read_line_def unlink_identity_def Let_def
      split: if_splits prod.splits sum.splits)

text \<open>What reaches the child's input: bounded commands without a line break, written under a lease
  that checked out at that moment.\<close>

lemma send_command_log:
  "send_command cmd c = (r, c') \<Longrightarrow>
     cc_stdin c' = (if cc_lease_ok c (cc_ticks c) \<and> safe_command cmd then cc_stdin c @ [cmd] else cc_stdin c)"
  by (auto simp: send_command_def safe_command_def Let_def split: if_splits)

lemma send_command_Ok:
  "send_command cmd c = (Ok (), c') \<Longrightarrow> safe_command cmd \<and> cc_lease_ok c (cc_ticks c) \<and> cc_stdin c' = cc_stdin c @ [cmd]"
  by (auto simp: send_command_def safe_command_def Let_def split: if_splits)

end
