(* ===== verification/Tmux_Control.thy ===== *)
theory Tmux_Control
  imports Tmux_Parse Control_Child
begin

text \<open>
  The stateful half of \<open>crates/owlmux-server/src/tmux.rs\<close>: the \<open>ControlAdapter\<close> that frames command
  responses, keeps the bounded event queue and builds one consistent projection of a session. A
  method is a state-and-result computation over the adapter; one that may be left waiting returns
  \<open>Pending\<close>, which \<open>response_deadline\<close> turns into \<open>Deadline\<close>.
\<close>

section \<open>State\<close>

datatype control_event = Output bytes bytes | Refresh | Exit

datatype mutation_outcome = Succeeded | MFailed | Ambiguous

record control_adapter =
  ca_control :: control_child
  ca_events :: "control_event list"
  ca_queued_output_bytes :: nat

record response_budget =
  rb_records :: nat
  rb_wire_bytes :: nat

type_synonym 'a ca = "(control_adapter, tmux_error, 'a) sr"
type_synonym 'a ca_await = "(control_adapter, tmux_error await, 'a) sr"

fun ssh_await :: "ssh_error await \<Rightarrow> tmux_error await" where
  "ssh_await (Failed e) = Failed (Tmux_Ssh e)"
| "ssh_await Pending = Pending"

definition on_control :: "('e \<Rightarrow> 'f) \<Rightarrow> (control_child, 'e, 'a) sr \<Rightarrow> (control_adapter, 'f, 'a) sr" where
  "on_control g m s = (case m (ca_control s) of (r, c) \<Rightarrow> (map_err g r, s\<lparr>ca_control := c\<rparr>))"

definition control_line_next :: "bytes ca_await" where
  "control_line_next = on_control ssh_await next_line"

definition control_send :: "bytes \<Rightarrow> unit ca" where
  "control_send cmd = on_control Tmux_Ssh (send_command cmd)"

section \<open>The event queue\<close>

definition queue_event :: "control_event \<Rightarrow> unit ca" where
  "queue_event event s =
     (if MAX_QUEUED_EVENTS \<le> length (ca_events s) then (Err Tmux_Protocol, s)
      else (Ok (), s\<lparr>ca_events := ca_events s @ [event]\<rparr>))"

definition pop_event :: "control_adapter \<Rightarrow> control_event option \<times> control_adapter" where
  "pop_event s = (case ca_events s of
     [] \<Rightarrow> (None, s)
   | event # rest \<Rightarrow>
       (Some event,
        (case event of
           Output _ d \<Rightarrow> s\<lparr>ca_events := rest, ca_queued_output_bytes := ca_queued_output_bytes s - length d\<rparr>
         | _ \<Rightarrow> s\<lparr>ca_events := rest\<rparr>)))"

definition clear_events :: "control_adapter \<Rightarrow> control_adapter" where
  "clear_events s = s\<lparr>ca_events := [], ca_queued_output_bytes := 0\<rparr>"

definition count_output :: "bytes \<Rightarrow> unit ca" where
  "count_output chunk s = (case checked_add_usize (ca_queued_output_bytes s) (length chunk) of
     None \<Rightarrow> (Err Tmux_Protocol, s)
   | Some n \<Rightarrow> (let s' = s\<lparr>ca_queued_output_bytes := n\<rparr>
       in if MAX_QUEUED_OUTPUT_BYTES < n then (Err Tmux_Protocol, s') else (Ok (), s')))"

fun queue_chunks :: "bytes \<Rightarrow> bytes list \<Rightarrow> unit ca" where
  "queue_chunks pane_id [] = sr_return ()"
| "queue_chunks pane_id (chunk # rest) =
     sr_bind (count_output chunk) (\<lambda>_.
     sr_bind (queue_event (Output pane_id chunk)) (\<lambda>_.
     queue_chunks pane_id rest))"

definition queue_output :: "bytes \<Rightarrow> bytes \<Rightarrow> unit ca" where
  "queue_output pane_id encoded =
     (if \<not> from_utf8_ok pane_id \<or> \<not> is_pane_id pane_id then sr_throw Tmux_Protocol
      else sr_bind (sr_lift (decode_escaped encoded)) (\<lambda>decoded.
        if decoded = [] then sr_return ()
        else queue_chunks pane_id (chunks ATTACHMENT_MAX_TERMINAL_CHUNK_BYTES decoded)))"

text \<open>\<open>remaining.windows(3).position(...)\<close>: the first index at which \<open>pat\<close> starts.\<close>

fun find_sub :: "bytes \<Rightarrow> bytes \<Rightarrow> nat option" where
  "find_sub pat [] = (if pat = [] then Some 0 else None)"
| "find_sub pat (x # xs) = (if starts_with pat (x # xs) then Some 0 else map_option Suc (find_sub pat xs))"

definition ingest_notification :: "bytes \<Rightarrow> unit ca" where
  "ingest_notification line0 =
     (let line = (case strip_suffix [LF] line0 of None \<Rightarrow> line0 | Some l \<Rightarrow> l)
      in case strip_prefix ''%output '' line of
        Some rest \<Rightarrow> sr_bind (sr_lift (split_once_space rest)) (\<lambda>(pane_id, d). queue_output pane_id d)
      | None \<Rightarrow>
        (case strip_prefix ''%extended-output '' line of
          Some rest \<Rightarrow>
            (case position (\<lambda>byte. byte = CHR '' '') rest of
               None \<Rightarrow> sr_throw Tmux_Protocol
             | Some first \<Rightarrow>
                 (let pane_id = take first rest; remaining = drop (first + 1) rest
                  in case find_sub '' : '' remaining of
                    None \<Rightarrow> sr_throw Tmux_Protocol
                  | Some separator \<Rightarrow>
                      (let age = take separator remaining
                       in if age = [] \<or> \<not> list_all is_ascii_digit age then sr_throw Tmux_Protocol
                          else queue_output pane_id (drop (separator + 3) remaining))))
        | None \<Rightarrow>
            if line = ''%exit'' \<or> starts_with ''%exit '' line then queue_event Exit
            else (case strip_prefix ''%pause '' line of
                Some pane \<Rightarrow> if \<not> from_utf8_ok pane \<or> \<not> is_pane_id pane then sr_throw Tmux_Protocol
                             else queue_event Refresh
              | None \<Rightarrow>
                (case strip_prefix ''%continue '' line of
                  Some pane \<Rightarrow> if from_utf8_ok pane \<and> is_pane_id pane then sr_return ()
                               else sr_throw Tmux_Protocol
                | None \<Rightarrow>
                    if is_refresh_notification line then queue_event Refresh
                    else if is_ignorable_notification line then sr_return ()
                    else sr_throw Tmux_Protocol))))"

definition is_output_of :: "bytes \<Rightarrow> control_event \<Rightarrow> bool" where
  "is_output_of pane_id event = (case event of Output p _ \<Rightarrow> p = pane_id | _ \<Rightarrow> False)"

definition event_bytes :: "control_event \<Rightarrow> nat" where
  "event_bytes event = (case event of Output _ d \<Rightarrow> length d | _ \<Rightarrow> 0)"

definition discard_pre_capture_output :: "control_event list \<Rightarrow> bytes \<Rightarrow> nat \<times> control_event list" where
  "discard_pre_capture_output events pane_id =
     (let kept = filter (\<lambda>event. \<not> is_output_of pane_id event) events
      in (sum_list (map event_bytes kept), kept))"

definition discard_captured_output :: "bytes \<Rightarrow> unit ca" where
  "discard_captured_output pane_id = sr_modify (\<lambda>s.
     case discard_pre_capture_output (ca_events s) pane_id of
       (n, kept) \<Rightarrow> s\<lparr>ca_events := kept, ca_queued_output_bytes := n\<rparr>)"

section \<open>Framed responses\<close>

definition budget_observe :: "response_budget \<Rightarrow> bytes \<Rightarrow> tmux_error + response_budget" where
  "budget_observe b line =
     r_bind (ok_or (checked_add_usize (rb_records b) 1) Tmux_Protocol) (\<lambda>records.
     r_bind (ok_or (checked_add_usize (rb_wire_bytes b) (length line)) Tmux_Protocol) (\<lambda>wire_bytes.
     if MAX_RESPONSE_RECORDS < records \<or> MAX_RESPONSE_WIRE_BYTES < wire_bytes then Err Tmux_Protocol
     else Ok \<lparr>rb_records = records, rb_wire_bytes = wire_bytes\<rparr>))"

record response_reader =
  rr_marker :: "(nat \<times> nat \<times> nat) option"
  rr_size :: nat
  rr_budget :: response_budget
  rr_result :: "bytes list"

definition reader_init :: response_reader where
  "reader_init = \<lparr>rr_marker = None, rr_size = 0,
     rr_budget = \<lparr>rb_records = 0, rb_wire_bytes = 0\<rparr>, rr_result = []\<rparr>"

text \<open>The loop body after a line has been read: \<open>Inl\<close> continues the loop, \<open>Inr\<close> returns.\<close>

definition response_body :: "nat \<Rightarrow> response_reader \<Rightarrow> bytes \<Rightarrow> (response_reader + bytes list) ca" where
  "response_body limit rr line =
     (case rr_marker rr of
        None \<Rightarrow>
          sr_bind (sr_lift (parse_marker line ''%begin '')) (\<lambda>m.
          (case m of
             Some begin_marker \<Rightarrow> sr_return (Inl (rr\<lparr>rr_marker := Some begin_marker\<rparr>))
           | None \<Rightarrow> sr_bind (ingest_notification line) (\<lambda>_. sr_return (Inl rr))))
      | Some marker \<Rightarrow>
          sr_bind (sr_lift (parse_marker line ''%end '')) (\<lambda>e.
          (case e of
             Some end_marker \<Rightarrow> if marker = end_marker then sr_return (Inr (rr_result rr)) else sr_throw Tmux_Protocol
           | None \<Rightarrow>
             sr_bind (sr_lift (parse_marker line ''%error '')) (\<lambda>x.
             (case x of
                Some error_marker \<Rightarrow> if marker = error_marker then sr_throw Tmux_Target else sr_throw Tmux_Protocol
              | None \<Rightarrow>
                  if starts_with ''%begin '' line then sr_throw Tmux_Protocol
                  else (let payload = command_payload line
                        in sr_bind (sr_lift (ok_or (checked_add_usize (rr_size rr) (length payload)) Tmux_Protocol)) (\<lambda>size.
                           if limit < size then sr_throw Tmux_ProjectionTooLarge
                           else sr_return (Inl (rr\<lparr>rr_size := size, rr_result := rr_result rr @ [payload]\<rparr>)))))))))"

definition response_step :: "nat \<Rightarrow> response_reader \<Rightarrow> bytes \<Rightarrow> (response_reader + bytes list) ca" where
  "response_step limit rr line =
     sr_bind (sr_lift (budget_observe (rr_budget rr) line)) (\<lambda>budget.
       response_body limit (rr\<lparr>rr_budget := budget\<rparr>) line)"

lemma budget_observe_Ok [res_simps]:
  "budget_observe b line = Ok b' \<longleftrightarrow> rb_records b < MAX_RESPONSE_RECORDS
     \<and> rb_wire_bytes b + length line \<le> MAX_RESPONSE_WIRE_BYTES
     \<and> b' = \<lparr>rb_records = Suc (rb_records b), rb_wire_bytes = rb_wire_bytes b + length line\<rparr>"
  by (auto simp: budget_observe_def res_simps checked_add_usize_def)

lemma response_body_budget:
  "sr_yields (\<lambda>r. \<forall>rr'. r = Inl rr' \<longrightarrow> rr_budget rr' = rr_budget rr) (response_body limit rr line)"
  unfolding response_body_def by (intro sr_rules) auto

lemma response_step_budget:
  "response_step limit rr line s = (Ok (Inl rr'), s') \<Longrightarrow>
     rb_records (rr_budget rr) < MAX_RESPONSE_RECORDS \<and> rb_records (rr_budget rr') = Suc (rb_records (rr_budget rr))"
  by (auto simp: response_step_def res_simps sr_lift_def dest!: sr_yieldsD [OF response_body_budget])

text \<open>The loop itself ends because every round consumes one record of the budget.\<close>

function read_response_loop :: "nat \<Rightarrow> response_reader \<Rightarrow> (bytes list) ca_await" where
  "read_response_loop limit rr s =
     (case control_line_next s of
        (Inl e, s1) \<Rightarrow> (Err e, s1)
      | (Inr line, s1) \<Rightarrow>
          (case response_step limit rr line s1 of
             (Inl e, s2) \<Rightarrow> (Err (Failed e), s2)
           | (Inr (Inr result), s2) \<Rightarrow> (Ok result, s2)
           | (Inr (Inl rr'), s2) \<Rightarrow> read_response_loop limit rr' s2))"
  by pat_completeness auto
termination
  by (relation "measure (\<lambda>(limit, rr, s). MAX_RESPONSE_RECORDS - rb_records (rr_budget rr))")
     (auto dest!: response_step_budget [OF sym])

declare read_response_loop.simps [simp del]

definition read_response_with_limit_inner :: "nat \<Rightarrow> (bytes list) ca_await" where
  "read_response_with_limit_inner max_response_bytes = read_response_loop max_response_bytes reader_init"

fun deadline_error :: "tmux_error await \<Rightarrow> tmux_error" where
  "deadline_error (Failed e) = e"
| "deadline_error Pending = Tmux_Deadline"

definition response_deadline :: "'a ca_await \<Rightarrow> 'a ca" where
  "response_deadline = sr_map_err deadline_error"

definition read_response_with_limit :: "nat \<Rightarrow> (bytes list) ca" where
  "read_response_with_limit max_response_bytes =
     response_deadline (read_response_with_limit_inner max_response_bytes)"

definition read_response :: "(bytes list) ca" where
  "read_response = read_response_with_limit MAX_RESPONSE_BYTES"

definition command :: "bytes \<Rightarrow> nat \<Rightarrow> (bytes list) ca" where
  "command cmd max_response_bytes = sr_bind (control_send cmd) (\<lambda>_. read_response_with_limit max_response_bytes)"

section \<open>Mutating commands\<close>

definition quoted :: "bytes \<Rightarrow> bytes" where
  "quoted s = CHR 0x27 # s @ [CHR 0x27]"

definition classify_response :: "tmux_error + bytes list \<Rightarrow> mutation_outcome" where
  "classify_response r = (case r of Inr _ \<Rightarrow> Succeeded | Inl e \<Rightarrow> if e = Tmux_Target then MFailed else Ambiguous)"

definition mutating_command :: "bytes \<Rightarrow> control_adapter \<Rightarrow> mutation_outcome \<times> control_adapter" where
  "mutating_command cmd s = (case control_send cmd s of
     (Inl _, s1) \<Rightarrow> (Ambiguous, s1)
   | (Inr _, s1) \<Rightarrow> (case read_response_with_limit MAX_RESPONSE_BYTES s1 of
       (r, s2) \<Rightarrow> (classify_response r, s2)))"

definition set_writer :: "bool \<Rightarrow> control_adapter \<Rightarrow> mutation_outcome \<times> control_adapter" where
  "set_writer writer s =
     (if writer then
        (case mutating_command ''switch-client -r'' s of (o1, s1) \<Rightarrow>
           if o1 \<noteq> Succeeded then (o1, s1)
           else mutating_command (''refresh-client -f '' @ quoted ''!ignore-size,pause-after=1'') s1)
      else
        (case mutating_command (''refresh-client -f '' @ quoted ''ignore-size,pause-after=1'') s of (o1, s1) \<Rightarrow>
           if o1 \<noteq> Succeeded then (o1, s1)
           else mutating_command ''switch-client -r'' s1))"

definition mutate :: "bytes \<Rightarrow> mutation_outcome ca" where
  "mutate cmd s = (case mutating_command cmd s of (out, s') \<Rightarrow> (Ok out, s'))"

definition resize :: "nat \<Rightarrow> nat \<Rightarrow> mutation_outcome ca" where
  "resize columns rows = (if \<not> valid_grid columns rows then sr_throw Tmux_Protocol
     else mutate (''refresh-client -C '' @ show_nat columns @ ''x'' @ show_nat rows))"

definition send_literal :: "bytes \<Rightarrow> bytes \<Rightarrow> mutation_outcome ca" where
  "send_literal pane_id d = sr_bind (sr_lift (render_literal_input pane_id d)) mutate"

definition select_window :: "bytes \<Rightarrow> mutation_outcome ca" where
  "select_window window_id = (if \<not> is_window_id window_id then sr_throw Tmux_Protocol
     else mutate (''select-window -t '' @ window_id))"

definition select_pane :: "bytes \<Rightarrow> mutation_outcome ca" where
  "select_pane pane_id = (if \<not> is_pane_id pane_id then sr_throw Tmux_Protocol
     else mutate (''select-pane -t '' @ pane_id))"

section \<open>Observation\<close>

text \<open>A response line \<open>"id:active:name"\<close> of \<open>list-windows\<close>.\<close>

definition parse_window_row :: "bytes \<Rightarrow> tmux_error + window_summary" where
  "parse_window_row row = (if \<not> from_utf8_ok row then Err Tmux_Protocol
     else (case str_splitn 3 (CHR '':'') row of
       [window_id, active, name] \<Rightarrow>
         r_bind (parse_flag active) (\<lambda>a.
         if \<not> is_window_id window_id \<or> 128 < length name \<or> chars_any char_is_control name then Err Tmux_Protocol
         else Ok \<lparr>wsm_window_id = window_id, wsm_name = name, wsm_active = a\<rparr>)
     | _ \<Rightarrow> Err Tmux_Protocol))"

fun parse_window_rows :: "bytes list \<Rightarrow> bytes list \<Rightarrow> tmux_error + window_summary list" where
  "parse_window_rows [] identities = Ok []"
| "parse_window_rows (row # rows) identities =
     r_bind (parse_window_row row) (\<lambda>w.
     if wsm_window_id w \<in> set identities then Err Tmux_Protocol
     else r_bind (parse_window_rows rows (wsm_window_id w # identities)) (\<lambda>ws. Ok (w # ws)))"

definition parse_windows :: "bytes list \<Rightarrow> tmux_error + window_summary list" where
  "parse_windows rows = (if rows = [] \<or> MAX_WINDOWS < length rows then Err Tmux_Protocol
     else r_bind (parse_window_rows rows []) (\<lambda>windows.
       if length (filter wsm_active windows) \<noteq> 1 then Err Tmux_Protocol else Ok windows))"

definition observe_windows :: "bytes \<Rightarrow> (window_summary list) ca" where
  "observe_windows session_id =
     (if \<not> is_session_id session_id then sr_throw Tmux_Protocol
      else sr_bind (command (''list-windows -t '' @ session_id @ '' -F ''
             @ quoted ''#{window_id}:#{window_active}:#{window_name}'') MAX_RESPONSE_BYTES) (\<lambda>rows.
           sr_lift (parse_windows rows)))"

text \<open>The six fields of the window line, checked against the session that was asked for. A missing
  field and a field that does not parse are both \<open>Protocol\<close>, so their order does not show.\<close>

definition parse_window_line ::
  "bytes \<Rightarrow> int \<Rightarrow> bytes list \<Rightarrow> tmux_error + bytes \<times> nat \<times> nat \<times> bytes" where
  "parse_window_line session_id session_created response =
     r_bind (single_line response) (\<lambda>line.
     (case str_splitn 6 (CHR '':'') line of
        [observed_session, created, window_id, w, h, layout] \<Rightarrow>
          r_bind (parse_positive_i64 created) (\<lambda>observed_created.
          r_bind (parse_dimension w) (\<lambda>width.
          r_bind (parse_dimension h) (\<lambda>height.
          if \<not> valid_grid width height then Err Tmux_ProjectionTooLarge
          else if observed_session \<noteq> session_id \<or> observed_created \<noteq> session_created
               \<or> \<not> is_window_id window_id \<or> layout = [] \<or> MAX_LAYOUT_BYTES < length layout
               \<or> \<not> list_all is_ascii_graphic layout
          then Err Tmux_Changed
          else Ok (window_id, width, height, layout))))
      | _ \<Rightarrow> Err Tmux_Protocol))"

definition observe_window :: "bytes \<Rightarrow> int \<Rightarrow> window_projection ca" where
  "observe_window session_id session_created =
     (if \<not> is_session_id session_id \<or> session_created \<le> 0 then sr_throw Tmux_Protocol
      else sr_bind (command (''display-message -p -t '' @ session_id @ '' ''
             @ quoted ''#{session_id}:#{session_created}:#{window_id}:#{window_width}:#{window_height}:#{window_layout}'')
             MAX_RESPONSE_BYTES) (\<lambda>response.
           sr_bind (sr_lift (parse_window_line session_id session_created response)) (\<lambda>(window_id, width, height, layout).
           sr_bind (command (''display-message -p -t '' @ window_id @ '' '' @ quoted ''#{window_name}'')
             MAX_RESPONSE_BYTES) (\<lambda>name.
           sr_bind (sr_lift (safe_text name 128)) (\<lambda>nm.
           sr_return \<lparr>wp_window_id = window_id, wp_name = nm, wp_width = width, wp_height = height,
                      wp_layout = layout\<rparr>)))))"

definition observe_panes :: "window_projection \<Rightarrow> (pane_projection list) ca" where
  "observe_panes window =
     sr_bind (command (''list-panes -t '' @ wp_window_id window @ '' -F '' @ quoted PANE_FORMAT)
       MAX_RESPONSE_BYTES) (\<lambda>rows. sr_lift (parse_pane_rows rows window))"

definition observe_pane_label :: "pane_projection \<Rightarrow> pane_projection ca" where
  "observe_pane_label pane =
     sr_bind (command (''display-message -p -t '' @ pp_pane_id pane @ '' '' @ quoted ''#{pane_title}'')
       MAX_RESPONSE_BYTES) (\<lambda>t.
     sr_bind (sr_lift (safe_text t MAX_TEXT_BYTES)) (\<lambda>title.
     sr_bind (command (''display-message -p -t '' @ pp_pane_id pane @ '' '' @ quoted ''#{pane_current_command}'')
       MAX_RESPONSE_BYTES) (\<lambda>c.
     sr_bind (sr_lift (safe_text c MAX_TEXT_BYTES)) (\<lambda>current_command.
     sr_return (pane\<lparr>pp_title := title, pp_current_command := current_command\<rparr>)))))"

definition observe_pane_labels :: "pane_projection list \<Rightarrow> (pane_projection list) ca" where
  "observe_pane_labels = sr_map observe_pane_label"

definition pause_panes :: "pane_projection list \<Rightarrow> unit ca" where
  "pause_panes panes = sr_bind (sr_map (\<lambda>pane.
     command (''refresh-client -A '' @ quoted (pp_pane_id pane @ '':pause'')) MAX_RESPONSE_BYTES) panes) (\<lambda>_. sr_return ())"

definition continue_panes :: "pane_projection list \<Rightarrow> unit ca" where
  "continue_panes panes = sr_bind (sr_map (\<lambda>pane.
     command (''refresh-client -A '' @ quoted (pp_pane_id pane @ '':continue'')) MAX_RESPONSE_BYTES) panes) (\<lambda>_. sr_return ())"

section \<open>Capture and cutover\<close>

definition capture_barrier :: "bytes \<Rightarrow> (bytes \<times> bytes list) ca" where
  "capture_barrier pane_id =
     sr_bind (control_send (''capture-pane -p -e -N -t '' @ pane_id @ '' ; display-message -p -t '' @ pane_id
       @ '' '' @ quoted PANE_FORMAT)) (\<lambda>_.
     response_deadline (
       sr_bind (read_response_with_limit_inner ATTACHMENT_MAX_PANE_SNAPSHOT_BYTES) (\<lambda>ls.
       sr_bind (sr_gets (\<lambda>s. length (ca_events s))) (\<lambda>event_boundary.
       sr_bind (read_response_with_limit_inner MAX_PANE_METADATA_BYTES) (\<lambda>metadata.
       sr_bind (sr_gets (\<lambda>s. list_ex (is_output_of pane_id) (drop event_boundary (ca_events s)))) (\<lambda>raced.
       if raced then sr_throw (Failed Tmux_Changed)
       else sr_bind (sr_lift (map_err Failed (single_line metadata))) (\<lambda>m. sr_return (m, ls))))))))"

fun capture_panes_from ::
  "window_projection \<Rightarrow> nat \<Rightarrow> pane_projection list \<Rightarrow> ((pane_projection \<times> pane_snapshot) list) ca" where
  "capture_panes_from window projection_bytes [] = sr_return []"
| "capture_panes_from window projection_bytes (pane # panes) =
     sr_bind (capture_barrier (pp_pane_id pane)) (\<lambda>(metadata, ls).
     sr_bind (sr_lift (parse_pane_row metadata window)) (\<lambda>final_pane.
     if \<not> same_pane_structure pane final_pane then sr_throw Tmux_Changed
     else (let pane' = pane\<lparr>pp_terminal := pp_terminal final_pane\<rparr>
       in sr_bind (sr_lift (capture_lines ls pane')) (\<lambda>content.
          sr_bind (sr_lift (ok_or (checked_add_usize projection_bytes (length content)) Tmux_Protocol)) (\<lambda>used.
          if ATTACHMENT_MAX_PROJECTION_BYTES < used then sr_throw Tmux_ProjectionTooLarge
          else sr_bind (discard_captured_output (pp_pane_id pane)) (\<lambda>_.
               sr_bind (capture_panes_from window used panes) (\<lambda>rest.
               sr_return ((pane', \<lparr>sn_pane_id = pp_pane_id pane, sn_content = content\<rparr>) # rest))))))))"

definition capture_panes ::
  "window_projection \<Rightarrow> pane_projection list \<Rightarrow> (pane_projection list \<times> pane_snapshot list) ca" where
  "capture_panes window panes =
     sr_bind (capture_panes_from window 0 panes) (\<lambda>ps. sr_return (map fst ps, map snd ps))"

definition active_window_is :: "window_summary list \<Rightarrow> bytes \<Rightarrow> bool" where
  "active_window_is windows window_id =
     (case find wsm_active windows of None \<Rightarrow> False | Some active \<Rightarrow> wsm_window_id active = window_id)"

definition revalidate_projection ::
  "bytes \<Rightarrow> int \<Rightarrow> window_projection \<Rightarrow> pane_projection list \<Rightarrow> unit ca" where
  "revalidate_projection session_id session_created expected_window expected_panes =
     sr_bind (observe_windows session_id) (\<lambda>windows.
     sr_bind (observe_window session_id session_created) (\<lambda>window.
     if window \<noteq> expected_window \<or> \<not> active_window_is windows (wp_window_id window)
     then sr_throw Tmux_Changed
     else sr_bind (observe_panes window) (\<lambda>panes.
       if length panes \<noteq> length expected_panes
          \<or> list_ex (\<lambda>(observed, expected). \<not> same_pane_structure observed expected) (zip panes expected_panes)
       then sr_throw Tmux_Changed else sr_return ())))"

text \<open>\<open>require_stable_cutover\<close> pops events until the queue is empty or an exit is met.\<close>

function drain_events :: "bool \<Rightarrow> control_adapter \<Rightarrow> (tmux_error + bool) \<times> control_adapter" where
  "drain_events changed s =
     (case pop_event s of
        (None, s') \<Rightarrow> (Ok changed, s')
      | (Some event, s') \<Rightarrow>
          (case event of
             Output _ _ \<Rightarrow> drain_events changed s'
           | Refresh \<Rightarrow> drain_events True s'
           | Exit \<Rightarrow> (Err Tmux_Target, s')))"
  by pat_completeness auto
termination
  by (relation "measure (\<lambda>(changed, s). length (ca_events s))")
     (auto simp: pop_event_def split: list.splits control_event.splits)

declare drain_events.simps [simp del]

definition require_stable_cutover :: "unit ca" where
  "require_stable_cutover =
     sr_bind (drain_events False) (\<lambda>changed. if changed then sr_throw Tmux_Changed else sr_return ())"

definition require_live_cutover :: "unit ca" where
  "require_live_cutover s =
     (if Exit \<in> set (ca_events s) then (Err Tmux_Target, s)
      else if Refresh \<in> set (ca_events s) then (Err Tmux_Changed, s)
      else (Ok (), s))"

definition hydrate_once :: "bytes \<Rightarrow> int \<Rightarrow> workspace_projection ca" where
  "hydrate_once session_id session_created =
     sr_bind (observe_windows session_id) (\<lambda>windows.
     sr_bind (observe_window session_id session_created) (\<lambda>window.
     if \<not> active_window_is windows (wp_window_id window) then sr_throw Tmux_Changed
     else
       sr_bind (observe_panes window) (\<lambda>panes0.
       sr_bind (observe_pane_labels panes0) (\<lambda>panes1.
       sr_bind (pause_panes panes1) (\<lambda>_.
       sr_bind require_stable_cutover (\<lambda>_.
       sr_bind (continue_panes panes1) (\<lambda>_.
       sr_bind (capture_panes window panes1) (\<lambda>(panes, snapshots).
       sr_bind (revalidate_projection session_id session_created window panes) (\<lambda>_.
       sr_bind require_live_cutover (\<lambda>_.
       sr_return \<lparr>wk_windows = windows, wk_window = window, wk_panes = panes, wk_snapshots = snapshots\<rparr>))))))))))"

fun hydrate_attempts :: "nat \<Rightarrow> bytes \<Rightarrow> int \<Rightarrow> workspace_projection ca" where
  "hydrate_attempts 0 session_id session_created s = (Err Tmux_Changed, s)"
| "hydrate_attempts (Suc n) session_id session_created s =
     (case hydrate_once session_id session_created (clear_events s) of
        (Inr projection, s') \<Rightarrow> (Ok projection, s')
      | (Inl e, s') \<Rightarrow> if e = Tmux_Changed then hydrate_attempts n session_id session_created s' else (Err e, s'))"

definition hydrate :: "bytes \<Rightarrow> int \<Rightarrow> workspace_projection ca" where
  "hydrate = hydrate_attempts MAX_HYDRATION_ATTEMPTS"

section \<open>Start and live events\<close>

definition adapter_start :: "control_child \<Rightarrow> (tmux_error + unit) \<times> control_adapter" where
  "adapter_start control =
     sr_bind read_response (\<lambda>_.
     sr_bind (command (''refresh-client -f '' @ quoted ''read-only,ignore-size,pause-after=1'') MAX_RESPONSE_BYTES) (\<lambda>_.
     sr_bind (command (''refresh-client -B '' @ quoted
       ''owlmux-pane-v1:%*:#{pane_title}|#{pane_current_command}|#{pane_active}|#{pane_width}|#{pane_height}|#{pane_left}|#{pane_top}'')
       MAX_RESPONSE_BYTES) (\<lambda>_.
     sr_modify clear_events)))
     \<lparr>ca_control = control, ca_events = [], ca_queued_output_bytes = 0\<rparr>"

definition pump_event :: "unit ca_await" where
  "pump_event = sr_bind control_line_next (\<lambda>line. sr_map_err Failed (ingest_notification line))"

section \<open>The queue invariant\<close>

text \<open>The queue never exceeds its two caps and every queued output is a non-empty bounded chunk of a
  valid pane. The byte counter is exact while operations succeed and never below the truth.\<close>

definition outputs_total :: "control_event list \<Rightarrow> nat" where
  "outputs_total evs = sum_list (map event_bytes evs)"

definition event_ok :: "control_event \<Rightarrow> bool" where
  "event_ok e = (case e of
     Output p d \<Rightarrow> is_pane_id p \<and> d \<noteq> [] \<and> length d \<le> ATTACHMENT_MAX_TERMINAL_CHUNK_BYTES | _ \<Rightarrow> True)"

definition queue_ok :: "control_adapter \<Rightarrow> bool" where
  "queue_ok s \<longleftrightarrow> length (ca_events s) \<le> MAX_QUEUED_EVENTS \<and> list_all event_ok (ca_events s)
     \<and> outputs_total (ca_events s) \<le> MAX_QUEUED_OUTPUT_BYTES
     \<and> outputs_total (ca_events s) \<le> ca_queued_output_bytes s"

definition queue_exact :: "control_adapter \<Rightarrow> bool" where
  "queue_exact s \<longleftrightarrow> ca_queued_output_bytes s = outputs_total (ca_events s)"

definition adapter_ok :: "control_adapter \<Rightarrow> bool" where
  "adapter_ok s \<longleftrightarrow> child_ok (ca_control s) \<and> queue_ok s"

lemma outputs_total_simps [simp]:
  "outputs_total [] = 0" "outputs_total (e # es) = event_bytes e + outputs_total es"
  "outputs_total (es @ fs) = outputs_total es + outputs_total fs"
  by (simp_all add: outputs_total_def)

lemma event_bytes_simps [simp]: "event_bytes (Output p d) = length d" "event_bytes Refresh = 0" "event_bytes Exit = 0"
  by (simp_all add: event_bytes_def)

lemma outputs_total_filter: "outputs_total (filter P es) \<le> outputs_total es"
  by (induction es) auto

lemma queue_event_marker [sr_rules]:
  "sr_keeps queue_ok (queue_event Refresh)" "sr_keeps queue_ok (queue_event Exit)"
  by (rule sr_keepsI, auto simp: queue_event_def queue_ok_def event_ok_def)+

lemma queue_one_chunk:
  assumes "is_pane_id p" and "chunk \<noteq> []" and "length chunk \<le> ATTACHMENT_MAX_TERMINAL_CHUNK_BYTES"
  shows "sr_keeps queue_ok (sr_bind (count_output chunk) (\<lambda>_. queue_event (Output p chunk)))"
  using assms
  by (intro sr_keepsI)
     (auto simp: sr_bind_def count_output_def queue_event_def queue_ok_def event_ok_def checked_add_usize_def Let_def
       split: option.splits if_splits)

lemma queue_chunks_ok:
  assumes "is_pane_id p" and "\<And>c. c \<in> set cs \<Longrightarrow> c \<noteq> [] \<and> length c \<le> ATTACHMENT_MAX_TERMINAL_CHUNK_BYTES"
  shows "sr_keeps queue_ok (queue_chunks p cs)"
  using assms(2)
proof (induction cs)
  case (Cons c cs)
  then have "sr_keeps queue_ok (sr_bind (sr_bind (count_output c) (\<lambda>_. queue_event (Output p c))) (\<lambda>_. queue_chunks p cs))"
    by (intro sr_keeps_bind queue_one_chunk assms(1)) auto
  then show ?case by (simp add: sr_bind_assoc)
qed (simp add: sr_rules)

lemma queue_output_ok [sr_rules]: "sr_keeps queue_ok (queue_output p d)"
  unfolding queue_output_def
  by (intro sr_rules queue_chunks_ok) (use chunks_bound in auto)

lemma ingest_queue_ok [sr_rules]: "sr_keeps queue_ok (ingest_notification line)"
  unfolding ingest_notification_def by (intro sr_rules)

text \<open>Queue operations never touch the child process.\<close>

lemma ingest_control [sr_rules]: "sr_keeps (\<lambda>s. P (ca_control s)) (ingest_notification line)"
proof -
  have q: "sr_keeps (\<lambda>s. P (ca_control s)) (queue_event e)" for e
    by (rule sr_keepsI) (simp add: queue_event_def)
  have c: "sr_keeps (\<lambda>s. P (ca_control s)) (count_output d)" for d
    by (rule sr_keepsI) (simp add: count_output_def Let_def split: option.splits)
  have qc: "sr_keeps (\<lambda>s. P (ca_control s)) (queue_chunks p cs)" for p cs
    by (induction cs) (auto intro!: sr_rules q c)
  have qo: "sr_keeps (\<lambda>s. P (ca_control s)) (queue_output p d)" for p d
    unfolding queue_output_def by (intro sr_rules qc)
  show ?thesis unfolding ingest_notification_def by (intro sr_rules q qo)
qed

lemma adapter_ok_eq: "adapter_ok = (\<lambda>s. child_ok (ca_control s) \<and> queue_ok s)"
  by (rule ext) (simp add: adapter_ok_def)

lemma ingest_ok [sr_rules]: "sr_keeps adapter_ok (ingest_notification line)"
  unfolding adapter_ok_eq by (intro sr_keeps_conj sr_rules)

lemma on_control_keeps:
  assumes "sr_keeps P m"
  shows "sr_keeps (\<lambda>s. P (ca_control s)) (on_control g m)"
  using assms by (auto simp: sr_keeps_def on_control_def split: prod.splits)

lemma on_control_queue: "sr_keeps queue_ok (on_control g m)"
  by (rule sr_keepsI) (simp add: on_control_def queue_ok_def split: prod.splits)

lemma on_control_ok: "sr_keeps child_ok m \<Longrightarrow> sr_keeps adapter_ok (on_control g m)"
  unfolding adapter_ok_eq by (intro sr_keeps_conj on_control_keeps on_control_queue)

lemma control_line_ok [sr_rules]: "sr_keeps adapter_ok control_line_next"
  unfolding control_line_next_def by (intro on_control_ok sr_rules)

lemma control_send_ok [sr_rules]: "sr_keeps adapter_ok (control_send cmd)"
  unfolding control_send_def by (intro on_control_ok sr_rules)

text \<open>A loop of reads keeps whatever a read and an ingested notification keep.\<close>

lemma response_loop_keeps:
  assumes line: "sr_keeps P control_line_next" and ingest: "\<And>l. sr_keeps P (ingest_notification l)"
  shows "sr_keeps P (read_response_loop limit rr)"
proof -
  have step: "sr_keeps P (response_step limit rr l)" for limit rr l
    unfolding response_step_def response_body_def by (intro sr_rules ingest)
  have "P s \<Longrightarrow> P (snd (read_response_loop limit rr s))" for rr s
  proof (induction limit rr s rule: read_response_loop.induct)
    case (1 limit rr s)
    obtain r1 s1 where l: "control_line_next s = (r1, s1)" by fastforce
    with line "1.prems" have P1: "P s1" by (rule sr_keepsD)
    show ?case
    proof (cases r1)
      case (Inr bytes)
      obtain r2 s2 where st: "response_step limit rr bytes s1 = (r2, s2)" by fastforce
      with step P1 have P2: "P s2" by (rule sr_keepsD)
      show ?thesis
      proof (cases "\<exists>rr'. r2 = Inr (Inl rr')")
        case True
        with "1.IH" l Inr st P2 show ?thesis by (auto simp: read_response_loop.simps [of limit rr s])
      next
        case False
        with l Inr st P2 show ?thesis
          by (auto simp: read_response_loop.simps [of limit rr s] split: sum.splits)
      qed
    qed (simp add: read_response_loop.simps [of limit rr s] l P1)
  qed
  then show ?thesis by (rule sr_keepsI)
qed

section \<open>What the observations promise\<close>

definition label_ok :: "nat \<Rightarrow> bytes \<Rightarrow> bool" where
  "label_ok n t \<longleftrightarrow> length t \<le> n \<and> \<not> chars_any char_is_control t"

definition window_ok :: "window_projection \<Rightarrow> bool" where
  "window_ok w \<longleftrightarrow> is_window_id (wp_window_id w) \<and> valid_grid (wp_width w) (wp_height w)
     \<and> label_ok 128 (wp_name w)
     \<and> wp_layout w \<noteq> [] \<and> length (wp_layout w) \<le> MAX_LAYOUT_BYTES \<and> list_all is_ascii_graphic (wp_layout w)"

definition window_summary_ok :: "window_summary \<Rightarrow> bool" where
  "window_summary_ok w \<longleftrightarrow> is_window_id (wsm_window_id w) \<and> label_ok 128 (wsm_name w)"

definition windows_ok :: "window_summary list \<Rightarrow> bool" where
  "windows_ok ws \<longleftrightarrow> ws \<noteq> [] \<and> length ws \<le> MAX_WINDOWS \<and> list_all window_summary_ok ws
     \<and> distinct (map wsm_window_id ws) \<and> length (filter wsm_active ws) = 1"

lemma parse_window_row_ok: "parse_window_row row = Ok w \<Longrightarrow> window_summary_ok w"
  by (auto simp: parse_window_row_def window_summary_ok_def label_ok_def res_simps split: if_splits list.splits)

lemma parse_window_rows_ok:
  "parse_window_rows rows ids = Ok ws \<Longrightarrow> length ws = length rows \<and> list_all window_summary_ok ws
     \<and> distinct (map wsm_window_id ws) \<and> set (map wsm_window_id ws) \<inter> set ids = {}"
proof (induction rows arbitrary: ids ws)
  case (Cons row rows)
  then obtain w ws' where "parse_window_row row = Ok w" "wsm_window_id w \<notin> set ids"
    "parse_window_rows rows (wsm_window_id w # ids) = Ok ws'" "ws = w # ws'"
    by (auto simp: res_simps split: if_splits)
  with Cons.IH [of "wsm_window_id w # ids" ws'] parse_window_row_ok [of row w] show ?case by auto
qed simp

lemma parse_windows_ok: "parse_windows rows = Ok ws \<Longrightarrow> windows_ok ws"
  by (auto simp: parse_windows_def windows_ok_def res_simps split: if_splits dest!: parse_window_rows_ok)

lemma observe_windows_yields: "sr_yields windows_ok (observe_windows sid)"
  unfolding observe_windows_def by (intro sr_rules sr_yields_lift) (rule parse_windows_ok)

lemma safe_text_ok: "safe_text ls n = Ok t \<Longrightarrow> label_ok n t"
  by (auto simp: safe_text_def label_ok_def res_simps split: if_splits)

lemma parse_window_line_ok:
  "parse_window_line sid created ls = Ok (wid, w, h, layout) \<Longrightarrow>
     is_window_id wid \<and> valid_grid w h \<and> layout \<noteq> [] \<and> length layout \<le> MAX_LAYOUT_BYTES \<and> list_all is_ascii_graphic layout"
  unfolding parse_window_line_def r_bind_eq_Ok [of "single_line ls"]
  by (elim exE conjE) (auto simp: res_simps split: if_splits list.splits)

lemma observe_window_yields: "sr_yields window_ok (observe_window sid created)"
  unfolding observe_window_def
  by (intro sr_rules) (auto simp: window_ok_def dest!: parse_window_line_ok safe_text_ok)

lemma observe_panes_yields: "sr_yields (panes_ok w) (observe_panes w)"
  unfolding observe_panes_def by (intro sr_rules sr_yields_lift) (auto dest: parse_pane_rows_ok)

text \<open>Labelling a pane changes its labels only.\<close>

definition labelled :: "pane_projection \<Rightarrow> pane_projection \<Rightarrow> bool" where
  "labelled p q \<longleftrightarrow> (\<exists>t c. q = p\<lparr>pp_title := t, pp_current_command := c\<rparr> \<and> label_ok MAX_TEXT_BYTES t \<and> label_ok MAX_TEXT_BYTES c)"

lemma observe_pane_label_yields: "sr_yields (labelled p) (observe_pane_label p)"
  unfolding observe_pane_label_def
  by (intro sr_rules) (auto simp: labelled_def dest!: safe_text_ok)

lemma labelled_ids:
  "list_all2 labelled ps qs \<Longrightarrow> list_all (\<lambda>p. is_pane_id (pp_pane_id p)) ps \<Longrightarrow>
     list_all (\<lambda>p. is_pane_id (pp_pane_id p)) qs"
  by (induction rule: list_all2_induct) (auto simp: labelled_def)

lemma sr_map_yields2:
  assumes "\<And>x. sr_yields (R x) (f x)"
  shows "sr_yields (list_all2 R xs) (sr_map f xs)"
proof (induction xs)
  case (Cons x xs)
  show ?case
    unfolding sr_map.simps
    by (rule sr_yields_bind_strong [OF assms], rule sr_yields_bind_strong [OF Cons.IH]) (auto intro: sr_rules)
qed (simp add: sr_rules)

lemma observe_pane_labels_yields: "sr_yields (list_all2 labelled ps) (observe_pane_labels ps)"
  unfolding observe_pane_labels_def by (rule sr_map_yields2) (rule observe_pane_label_yields)

section \<open>Observation does not mutate\<close>

text \<open>The commands an observer may issue, each with a validated target.\<close>

definition observing :: "bytes \<Rightarrow> bool" where
  "observing cmd \<longleftrightarrow>
     (\<exists>sid. is_session_id sid \<and> (cmd = ''list-windows -t '' @ sid @ '' -F '' @ quoted ''#{window_id}:#{window_active}:#{window_name}''
        \<or> cmd = ''display-message -p -t '' @ sid @ '' ''
             @ quoted ''#{session_id}:#{session_created}:#{window_id}:#{window_width}:#{window_height}:#{window_layout}''))
   \<or> (\<exists>wid. is_window_id wid \<and> (cmd = ''display-message -p -t '' @ wid @ '' '' @ quoted ''#{window_name}''
        \<or> cmd = ''list-panes -t '' @ wid @ '' -F '' @ quoted PANE_FORMAT))
   \<or> (\<exists>pid. is_pane_id pid \<and> (cmd = ''display-message -p -t '' @ pid @ '' '' @ quoted ''#{pane_title}''
        \<or> cmd = ''display-message -p -t '' @ pid @ '' '' @ quoted ''#{pane_current_command}''
        \<or> cmd = ''refresh-client -A '' @ quoted (pid @ '':pause'')
        \<or> cmd = ''refresh-client -A '' @ quoted (pid @ '':continue'')
        \<or> cmd = ''capture-pane -p -e -N -t '' @ pid @ '' ; display-message -p -t '' @ pid @ '' '' @ quoted PANE_FORMAT))"

text \<open>The interface of the adapter's primitives towards its state: any predicate they keep, for the
  commands in \<open>C\<close>, is kept by every method built from them.\<close>

locale adapter_inv =
  fixes P :: "control_adapter \<Rightarrow> bool" and C :: "bytes \<Rightarrow> bool"
  assumes line: "sr_keeps P control_line_next"
    and ingest: "sr_keeps P (ingest_notification l)"
    and send: "C cmd \<Longrightarrow> sr_keeps P (control_send cmd)"
    and pop: "P s \<Longrightarrow> P (snd (pop_event s))"
    and clear: "P s \<Longrightarrow> P (clear_events s)"
    and discard: "sr_keeps P (discard_captured_output pid)"
begin

lemma inner: "sr_keeps P (read_response_with_limit_inner n)"
  unfolding read_response_with_limit_inner_def by (intro response_loop_keeps line ingest)

lemma response: "sr_keeps P (read_response_with_limit n)"
  unfolding read_response_with_limit_def response_deadline_def by (intro sr_rules inner)

lemma command: "C cmd \<Longrightarrow> sr_keeps P (command cmd n)"
  unfolding command_def by (intro sr_rules send response)

lemma mutating:
  assumes "C cmd" and "P s" and "mutating_command cmd s = (out, t)"
  shows "P t"
proof -
  obtain r u where u: "control_send cmd s = (r, u)" by fastforce
  from send [OF assms(1)] assms(2) u have "P u" by (rule sr_keepsD)
  with assms(3) u response [of MAX_RESPONSE_BYTES] show ?thesis
    by (auto simp: mutating_command_def sr_keeps_def split: sum.splits prod.splits)
qed

lemma mutate: "C cmd \<Longrightarrow> sr_keeps P (mutate cmd)"
  by (rule sr_keepsI) (auto simp: mutate_def split: prod.splits dest: mutating)

lemma drain: "P s \<Longrightarrow> P (snd (drain_events b s))"
proof (induction b s rule: drain_events.induct)
  case (1 b s)
  obtain r u where u: "pop_event s = (r, u)" by fastforce
  with pop [OF "1.prems"] have "P u" by simp
  with "1.IH" u show ?case
    by (subst drain_events.simps) (auto split: option.split control_event.split)
qed

lemma stable: "sr_keeps P require_stable_cutover"
  unfolding require_stable_cutover_def by (intro sr_rules sr_keepsI drain)

lemma live: "sr_keeps P require_live_cutover"
  by (rule sr_keepsI) (simp add: require_live_cutover_def)

end

text \<open>With every observing command in \<open>C\<close>, the whole hydration keeps the predicate.\<close>

locale adapter_observer = adapter_inv +
  assumes observing_in: "observing cmd \<Longrightarrow> C cmd"
begin

lemma windows: "sr_keeps P (observe_windows sid)"
  unfolding observe_windows_def by (intro sr_rules command observing_in) (auto simp: observing_def)

lemma window: "sr_keeps P (observe_window sid created)"
  unfolding observe_window_def
  by (intro sr_keeps_if sr_keeps_throw sr_keeps_bind_lift sr_keeps_prod sr_keeps_bind sr_keeps_return sr_keeps_lift
        command observing_in)
     (auto simp: observing_def dest: parse_window_line_ok)

lemma panes: "is_window_id (wp_window_id w) \<Longrightarrow> sr_keeps P (observe_panes w)"
  unfolding observe_panes_def by (intro sr_rules command observing_in) (auto simp: observing_def)

lemma label: "is_pane_id (pp_pane_id p) \<Longrightarrow> sr_keeps P (observe_pane_label p)"
  unfolding observe_pane_label_def by (intro sr_rules command observing_in) (auto simp: observing_def)

lemma labels: "list_all (\<lambda>p. is_pane_id (pp_pane_id p)) ps \<Longrightarrow> sr_keeps P (observe_pane_labels ps)"
  unfolding observe_pane_labels_def by (intro sr_keeps_map_all label) (auto simp: list_all_iff)

lemma pause: "list_all (\<lambda>p. is_pane_id (pp_pane_id p)) ps \<Longrightarrow> sr_keeps P (pause_panes ps)"
  unfolding pause_panes_def
  by (intro sr_keeps_map_all sr_keeps_bind sr_keeps_return command observing_in) (auto simp: list_all_iff observing_def)

lemma continue: "list_all (\<lambda>p. is_pane_id (pp_pane_id p)) ps \<Longrightarrow> sr_keeps P (continue_panes ps)"
  unfolding continue_panes_def
  by (intro sr_keeps_map_all sr_keeps_bind sr_keeps_return command observing_in) (auto simp: list_all_iff observing_def)

lemma barrier: "is_pane_id pid \<Longrightarrow> sr_keeps P (capture_barrier pid)"
  unfolding capture_barrier_def response_deadline_def
  by (intro sr_rules inner send observing_in) (auto simp: observing_def)

lemma capture_from: "list_all (\<lambda>p. is_pane_id (pp_pane_id p)) ps \<Longrightarrow> sr_keeps P (capture_panes_from w n ps)"
proof (induction ps arbitrary: n)
  case (Cons p ps)
  then show ?case by (auto intro!: sr_rules barrier discard)
qed (simp add: sr_rules)

lemma capture: "list_all (\<lambda>p. is_pane_id (pp_pane_id p)) ps \<Longrightarrow> sr_keeps P (capture_panes w ps)"
  unfolding capture_panes_def by (intro sr_rules capture_from)

lemma revalidate: "sr_keeps P (revalidate_projection sid created w ps)"
  unfolding revalidate_projection_def
  by (intro sr_keeps_bind [OF windows] sr_keeps_bind_yields [OF window observe_window_yields] sr_keeps_if sr_keeps_throw
      sr_keeps_bind [OF panes] sr_keeps_return) (simp add: window_ok_def)

lemma hydrate_once: "sr_keeps P (hydrate_once sid created)"
  unfolding hydrate_once_def
proof (rule sr_keeps_bind [OF windows], rule sr_keeps_bind_yields [OF window observe_window_yields], rule sr_keeps_if)
  fix w assume "window_ok w"
  then have wid: "is_window_id (wp_window_id w)" by (simp add: window_ok_def)
  show "sr_keeps P (sr_bind (observe_panes w) (\<lambda>panes0. sr_bind (observe_pane_labels panes0) (\<lambda>panes1.
      sr_bind (pause_panes panes1) (\<lambda>_. sr_bind require_stable_cutover (\<lambda>_. sr_bind (continue_panes panes1) (\<lambda>_.
      sr_bind (capture_panes w panes1) (\<lambda>(panes, snapshots).
      sr_bind (revalidate_projection sid created w panes) (\<lambda>_. sr_bind require_live_cutover (\<lambda>_.
      sr_return \<lparr>wk_windows = windows, wk_window = w, wk_panes = panes, wk_snapshots = snapshots\<rparr>)))))))))" for windows
  proof (rule sr_keeps_bind_yields [OF panes [OF wid] observe_panes_yields])
    fix ps assume "panes_ok w ps"
    then have "list_all (\<lambda>p. is_pane_id (pp_pane_id p)) ps" by (auto simp: panes_ok_def pane_ok_def list_all_iff)
    moreover have "list_all (\<lambda>p. is_pane_id (pp_pane_id p)) qs" if "list_all2 labelled ps qs" for qs
      using that calculation by (rule labelled_ids)
    ultimately show "sr_keeps P (sr_bind (observe_pane_labels ps) (\<lambda>panes1.
      sr_bind (pause_panes panes1) (\<lambda>_. sr_bind require_stable_cutover (\<lambda>_. sr_bind (continue_panes panes1) (\<lambda>_.
      sr_bind (capture_panes w panes1) (\<lambda>(panes, snapshots).
      sr_bind (revalidate_projection sid created w panes) (\<lambda>_. sr_bind require_live_cutover (\<lambda>_.
      sr_return \<lparr>wk_windows = windows, wk_window = w, wk_panes = panes, wk_snapshots = snapshots\<rparr>))))))))"
      by (intro sr_keeps_bind_yields [OF labels observe_pane_labels_yields] sr_keeps_bind pause stable continue capture
          sr_keeps_prod revalidate live sr_keeps_return)
  qed
qed (rule sr_keeps_throw)

lemma hydrate_attempts: "P s \<Longrightarrow> P (snd (hydrate_attempts n sid created s))"
proof (induction n arbitrary: s)
  case (Suc n)
  obtain r t where t: "hydrate_once sid created (clear_events s) = (r, t)" by fastforce
  with hydrate_once clear [OF Suc.prems] have "P t" by (rule sr_keepsD)
  with Suc.IH t show ?case by (auto split: sum.splits)
qed simp

lemma hydrate: "sr_keeps P (hydrate sid created)"
  unfolding hydrate_def by (rule sr_keepsI) (rule hydrate_attempts)

end

text \<open>First instance: the bounds of the queue and of the child's streams, for any command.\<close>

lemma pop_queue_ok: "queue_ok s \<Longrightarrow> queue_ok (snd (pop_event s))"
  by (auto simp: pop_event_def queue_ok_def split: list.splits control_event.splits)

lemma discard_queue_ok [sr_rules]: "sr_keeps queue_ok (discard_captured_output p)"
  unfolding discard_captured_output_def
  by (rule sr_keeps_modify)
     (auto simp: discard_pre_capture_output_def Let_def queue_ok_def outputs_total_def [symmetric] list_all_iff
       intro: order_trans [OF length_filter_le] order_trans [OF outputs_total_filter])

interpretation bounds: adapter_observer adapter_ok "\<lambda>_. True"
proof unfold_locales
  show "sr_keeps adapter_ok (discard_captured_output pid)" for pid
    unfolding adapter_ok_eq
    by (intro sr_keeps_conj sr_rules)
       (simp add: discard_captured_output_def sr_keeps_def sr_leaf split: prod.splits)
  show "adapter_ok (snd (pop_event s))" if "adapter_ok s" for s
    using that pop_queue_ok [of s]
    by (auto simp: adapter_ok_def pop_event_def split: list.splits control_event.splits)
qed (auto intro!: sr_rules simp: adapter_ok_def clear_events_def queue_ok_def)

text \<open>Second instance: everything written after a given point is an observing command.\<close>

definition observed_since :: "bytes list \<Rightarrow> control_adapter \<Rightarrow> bool" where
  "observed_since base s \<longleftrightarrow> (\<exists>cs. cc_stdin (ca_control s) = base @ cs \<and> list_all observing cs)"

lemma line_stdin: "sr_keeps (\<lambda>s. P (cc_stdin (ca_control s))) control_line_next"
  unfolding control_line_next_def
  by (rule on_control_keeps [where P = "\<lambda>c. P (cc_stdin c)"]) (simp add: sr_keeps_def next_line_frame [OF surjective_pairing])

lemma send_stdin:
  "control_send cmd s = (r, t) \<Longrightarrow> cc_stdin (ca_control t) = cc_stdin (ca_control s)
     \<or> cc_stdin (ca_control t) = cc_stdin (ca_control s) @ [cmd]"
  by (auto simp: control_send_def on_control_def split: prod.splits dest!: send_command_log)

interpretation quiet: adapter_observer "observed_since base" observing for base
proof unfold_locales
  show "sr_keeps (observed_since base) control_line_next"
    unfolding observed_since_def by (rule line_stdin)
  show "sr_keeps (observed_since base) (ingest_notification l)" for l
    unfolding observed_since_def by (rule ingest_control)
  show "sr_keeps (observed_since base) (control_send cmd)" if "observing cmd" for cmd
  proof (rule sr_keepsI)
    fix s assume s: "observed_since base s"
    obtain r t where t: "control_send cmd s = (r, t)" by fastforce
    from send_stdin [OF t] s that have "observed_since base t" by (auto simp: observed_since_def)
    with t show "observed_since base (snd (control_send cmd s))" by simp
  qed
  show "observed_since base (snd (pop_event s))" if "observed_since base s" for s
    using that by (auto simp: observed_since_def pop_event_def split: list.splits control_event.splits)
  show "observed_since base (clear_events s)" if "observed_since base s" for s
    using that by (simp add: observed_since_def clear_events_def)
  show "sr_keeps (observed_since base) (discard_captured_output pid)" for pid
    by (simp add: discard_captured_output_def sr_keeps_def sr_leaf observed_since_def split: prod.splits)
qed

section \<open>What a hydration promises\<close>

definition pane_labels_ok :: "pane_projection \<Rightarrow> bool" where
  "pane_labels_ok p \<longleftrightarrow> label_ok MAX_TEXT_BYTES (pp_title p) \<and> label_ok MAX_TEXT_BYTES (pp_current_command p)"

definition snapshots_ok :: "pane_projection list \<Rightarrow> pane_snapshot list \<Rightarrow> bool" where
  "snapshots_ok ps sns \<longleftrightarrow> list_all2 (\<lambda>p sn. sn_pane_id sn = pp_pane_id p
       \<and> (\<exists>rows. sn_content sn = capture_prologue (pp_terminal p) @ join_rows rows @ restore_sequence (pp_terminal p))
       \<and> length (sn_content sn) \<le> ATTACHMENT_MAX_PANE_SNAPSHOT_BYTES) ps sns
     \<and> (\<Sum>sn \<leftarrow> sns. length (sn_content sn)) \<le> ATTACHMENT_MAX_PROJECTION_BYTES"

definition projection_ok :: "workspace_projection \<Rightarrow> bool" where
  "projection_ok k \<longleftrightarrow> windows_ok (wk_windows k) \<and> window_ok (wk_window k)
     \<and> active_window_is (wk_windows k) (wp_window_id (wk_window k))
     \<and> panes_ok (wk_window k) (wk_panes k) \<and> list_all pane_labels_ok (wk_panes k)
     \<and> snapshots_ok (wk_panes k) (wk_snapshots k)"

definition captured :: "pane_projection \<Rightarrow> pane_projection \<times> pane_snapshot \<Rightarrow> bool" where
  "captured p r \<longleftrightarrow> (\<exists>t rows content. r = (p\<lparr>pp_terminal := t\<rparr>, \<lparr>sn_pane_id = pp_pane_id p, sn_content = content\<rparr>)
     \<and> terminal_ok (pp_width p) (pp_height p) t \<and> capture_lines rows (p\<lparr>pp_terminal := t\<rparr>) = Ok content)"

lemma capture_panes_from_yields:
  "n \<le> ATTACHMENT_MAX_PROJECTION_BYTES \<Longrightarrow>
     sr_yields (\<lambda>rs. list_all2 captured ps rs \<and> n + (\<Sum>r \<leftarrow> rs. length (sn_content (snd r))) \<le> ATTACHMENT_MAX_PROJECTION_BYTES)
       (capture_panes_from w n ps)"
proof (induction ps arbitrary: n)
  case (Cons p ps)
  have one: "captured p (p\<lparr>pp_terminal := pp_terminal q\<rparr>, \<lparr>sn_pane_id = pp_pane_id p, sn_content = content\<rparr>)"
    if "parse_pane_row m w = Ok q" "same_pane_structure p q" "capture_lines ls (p\<lparr>pp_terminal := pp_terminal q\<rparr>) = Ok content"
    for m q ls content
    using parse_pane_row_sound(1) [OF that(1)] that(2,3)
    by (auto simp: captured_def pane_ok_def same_pane_structure_def)
  show ?case
    unfolding capture_panes_from.simps
    by (intro sr_yields_bind [of _ _ "capture_barrier _"] sr_rules sr_yields_bind_strong [OF Cons.IH])
       (auto simp: res_simps checked_add_usize_def intro: one split: if_splits)
qed (simp add: sr_rules)

lemma captured_panes_ok:
  assumes "list_all2 captured ps rs" and "panes_ok w ps"
  shows "panes_ok w (map fst rs)"
proof -
  have eqs: "map pp_pane_id (map fst rs) = map pp_pane_id ps" "map pp_active (map fst rs) = map pp_active ps"
    "map (\<lambda>p. pp_width p * pp_height p) (map fst rs) = map (\<lambda>p. pp_width p * pp_height p) ps" "length rs = length ps"
    and "list_all (pane_ok w) ps \<Longrightarrow> list_all (pane_ok w) (map fst rs)"
    using assms(1) by (induction rule: list_all2_induct) (auto simp: captured_def pane_ok_def)
  moreover have "length (filter pp_active xs) = length (filter id (map pp_active xs))" for xs
    by (simp add: filter_map comp_def)
  ultimately show ?thesis
    using assms(2) unfolding panes_ok_def by (metis length_0_conv length_map)
qed

lemma captured_snapshots:
  assumes "list_all2 captured ps rs" and "panes_ok w (map fst rs)"
    and "(\<Sum>r \<leftarrow> rs. length (sn_content (snd r))) \<le> ATTACHMENT_MAX_PROJECTION_BYTES"
  shows "snapshots_ok (map fst rs) (map snd rs)"
proof -
  have "list_all2 (\<lambda>p sn. sn_pane_id sn = pp_pane_id p
       \<and> (\<exists>rows. sn_content sn = capture_prologue (pp_terminal p) @ join_rows rows @ restore_sequence (pp_terminal p))
       \<and> length (sn_content sn) \<le> ATTACHMENT_MAX_PANE_SNAPSHOT_BYTES) (map fst rs) (map snd rs)"
    if "list_all (pane_ok w) (map fst rs)"
    using assms(1) that
    by (induction rule: list_all2_induct)
       (fastforce simp: captured_def dest: capture_lines_content)+
  with assms(2,3) show ?thesis by (simp add: snapshots_ok_def panes_ok_def comp_def)
qed

lemma labelled_panes_ok:
  assumes "list_all2 labelled ps qs" and "panes_ok w ps"
  shows "panes_ok w qs \<and> list_all pane_labels_ok qs"
proof -
  have eqs: "map pp_pane_id qs = map pp_pane_id ps" "map pp_active qs = map pp_active ps"
    "map (\<lambda>p. pp_width p * pp_height p) qs = map (\<lambda>p. pp_width p * pp_height p) ps" "length qs = length ps"
    "list_all pane_labels_ok qs"
    and "list_all (pane_ok w) ps \<Longrightarrow> list_all (pane_ok w) qs"
    using assms(1) by (induction rule: list_all2_induct) (auto simp: labelled_def pane_ok_def pane_labels_ok_def)
  moreover have "length (filter pp_active xs) = length (filter id (map pp_active xs))" for xs
    by (simp add: filter_map comp_def)
  ultimately show ?thesis
    using assms(2) unfolding panes_ok_def by (metis length_0_conv)
qed

lemma captured_labels: "list_all2 captured ps rs \<Longrightarrow> list_all pane_labels_ok ps \<Longrightarrow> list_all pane_labels_ok (map fst rs)"
  by (induction rule: list_all2_induct) (auto simp: captured_def pane_labels_ok_def)

lemma capture_panes_yields:
  assumes "panes_ok w ps" and "list_all pane_labels_ok ps"
  shows "sr_yields (\<lambda>(panes, sns). panes_ok w panes \<and> list_all pane_labels_ok panes \<and> snapshots_ok panes sns) (capture_panes w ps)"
  unfolding capture_panes_def
  by (rule sr_yields_bind_strong [OF capture_panes_from_yields])
     (auto intro!: sr_rules captured_panes_ok captured_labels captured_snapshots assms)

lemma hydrate_once_yields: "sr_yields projection_ok (hydrate_once sid created)"
  unfolding hydrate_once_def
  apply (rule sr_yields_bind_strong [OF observe_windows_yields], rule sr_yields_bind_strong [OF observe_window_yields])
  apply (rule sr_yields_if, rule sr_yields_throw)
  apply (rule sr_yields_bind_strong [OF observe_panes_yields], rule sr_yields_bind_strong [OF observe_pane_labels_yields])
  apply (rule sr_yields_bind, rule sr_yields_bind, rule sr_yields_bind)
  apply (rule sr_yields_bind_strong [OF capture_panes_yields])
    apply (auto dest: labelled_panes_ok) [2]
  apply (intro sr_rules)
  apply (auto simp: projection_ok_def)
  done

lemma hydrate_once_live:
  "hydrate_once sid created s = (Ok k, t) \<Longrightarrow> Exit \<notin> set (ca_events t) \<and> Refresh \<notin> set (ca_events t)"
  by (auto simp: hydrate_once_def res_simps require_live_cutover_def sr_leaf split: if_splits prod.splits)

lemma hydrate_attempts_Ok:
  "hydrate_attempts n sid created s = (Ok k, t) \<Longrightarrow> \<exists>u. hydrate_once sid created u = (Ok k, t)"
  by (induction n arbitrary: s) (auto split: prod.splits sum.splits if_splits)

lemma hydrate_projection_ok: "hydrate sid created s = (Ok k, t) \<Longrightarrow> projection_ok k"
  by (auto simp: hydrate_def dest!: hydrate_attempts_Ok sr_yieldsD [OF hydrate_once_yields])

section \<open>Live events\<close>

lemma line_size: "control_line_next s = (Ok l, t) \<Longrightarrow> event_size (cc_stdout (ca_control t)) < event_size (cc_stdout (ca_control s))"
  by (auto simp: control_line_next_def on_control_def res_simps split: prod.splits dest!: next_line_size)

lemma ingest_control_eq: "ingest_notification l s = (r, t) \<Longrightarrow> ca_control t = ca_control s"
  using ingest_control [of "\<lambda>c. c = ca_control s" l] by (auto simp: sr_keeps_def dest!: spec [where x = s])

function next_event :: "control_event ca_await" where
  "next_event s =
     (case pop_event s of
        (Some event, s') \<Rightarrow> (Ok event, s')
      | (None, s') \<Rightarrow>
          (case control_line_next s of
             (Inl e, s1) \<Rightarrow> (Err e, s1)
           | (Inr line, s1) \<Rightarrow>
               (case ingest_notification line s1 of
                  (Inl e, s2) \<Rightarrow> (Err (Failed e), s2)
                | (Inr _, s2) \<Rightarrow> next_event s2)))"
  by pat_completeness auto
termination
  by (relation "measure (\<lambda>s. event_size (cc_stdout (ca_control s)))")
     (auto dest!: line_size [OF sym] ingest_control_eq [OF sym])

declare next_event.simps [simp del]

section \<open>The queue as a first-in first-out interface\<close>

datatype 'e queue_op = Put 'e | Take

fun queue_run :: "('e \<Rightarrow> 's \<Rightarrow> ('x + unit) \<times> 's) \<Rightarrow> ('s \<Rightarrow> 'e option \<times> 's) \<Rightarrow> 'e queue_op list \<Rightarrow> 's \<Rightarrow>
    'e list \<times> 'e list \<times> 's" where
  "queue_run enq deq [] s = ([], [], s)"
| "queue_run enq deq (Put e # ops) s = (case enq e s of (r, s1) \<Rightarrow>
     (case queue_run enq deq ops s1 of (acc, del, t) \<Rightarrow> (if is_ok r then e # acc else acc, del, t)))"
| "queue_run enq deq (Take # ops) s = (case deq s of (r, s1) \<Rightarrow>
     (case queue_run enq deq ops s1 of (acc, del, t) \<Rightarrow> (acc, (case r of None \<Rightarrow> del | Some e \<Rightarrow> e # del), t)))"

locale fifo_queue =
  fixes contents :: "'s \<Rightarrow> 'e list" and enq :: "'e \<Rightarrow> 's \<Rightarrow> ('x + unit) \<times> 's" and deq :: "'s \<Rightarrow> 'e option \<times> 's"
  assumes enq_Ok: "enq e s = (Ok u, t) \<Longrightarrow> contents t = contents s @ [e]"
    and enq_Err: "enq e s = (Err x, t) \<Longrightarrow> contents t = contents s"
    and deq_None: "deq s = (None, t) \<Longrightarrow> contents s = [] \<and> contents t = []"
    and deq_Some: "deq s = (Some e, t) \<Longrightarrow> contents s = e # contents t"
begin

lemma run_fifo: "queue_run enq deq ops s = (acc, del, t) \<Longrightarrow> contents s @ acc = del @ contents t"
proof (induction ops arbitrary: s acc del)
  case (Cons op ops)
  show ?case
  proof (cases op)
    case (Put e)
    obtain r s1 acc' where r: "enq e s = (r, s1)" and rest: "queue_run enq deq ops s1 = (acc', del, t)"
      and acc: "acc = (if is_ok r then e # acc' else acc')"
      using Cons.prems Put by (auto split: prod.splits)
    from Cons.IH [OF rest] r acc show ?thesis
      by (cases r) (auto dest: enq_Ok enq_Err)
  next
    case Take
    obtain r s1 del' where r: "deq s = (r, s1)" and rest: "queue_run enq deq ops s1 = (acc, del', t)"
      and del: "del = (case r of None \<Rightarrow> del' | Some e \<Rightarrow> e # del')"
      using Cons.prems Take by (auto split: prod.splits)
    from Cons.IH [OF rest] r del show ?thesis
      by (cases r) (auto dest: deq_None deq_Some)
  qed
qed simp

end

interpretation lq: fifo_queue ca_events queue_event pop_event
  by unfold_locales (auto simp: queue_event_def pop_event_def split: if_splits list.splits control_event.splits)

section \<open>Delivery of pane output\<close>

lemma queue_chunks_delivers:
  assumes "queue_exact s" and "length (ca_events s) + length cs \<le> MAX_QUEUED_EVENTS"
    and "outputs_total (ca_events s) + sum_list (map length cs) \<le> MAX_QUEUED_OUTPUT_BYTES"
  shows "\<exists>t. queue_chunks p cs s = (Ok (), t) \<and> ca_events t = ca_events s @ map (Output p) cs \<and> queue_exact t"
  using assms
proof (induction cs arbitrary: s)
  case (Cons c cs)
  let ?n = "outputs_total (ca_events s) + length c"
  let ?s = "s\<lparr>ca_queued_output_bytes := ?n, ca_events := ca_events s @ [Output p c]\<rparr>"
  from Cons.prems have "count_output c s = (Ok (), s\<lparr>ca_queued_output_bytes := ?n\<rparr>)"
    by (auto simp: count_output_def checked_add_usize_def queue_exact_def Let_def)
  moreover from Cons.prems have "queue_event (Output p c) (s\<lparr>ca_queued_output_bytes := ?n\<rparr>) = (Ok (), ?s)"
    by (auto simp: queue_event_def)
  ultimately have step: "queue_chunks p (c # cs) s = queue_chunks p cs ?s"
    by (simp add: sr_bind_def)
  from Cons.prems Cons.IH [of ?s] show ?case
    unfolding step by (auto simp: queue_exact_def)
qed (simp add: sr_leaf)

lemma numeric_id_ascii: "is_numeric_id v s \<Longrightarrow> ord s < 128 \<Longrightarrow> from_utf8_ok v"
  by (rule from_utf8_ok_ascii) (auto simp: is_ascii_digit_def dest: numeric_id_bytes)

lemma split_once_space_append: "CHR '' '' \<notin> set p \<Longrightarrow> split_once_space (p @ CHR '' '' # d) = Ok (p, d)"
proof -
  assume "CHR '' '' \<notin> set p"
  then have "position (\<lambda>b. b = CHR '' '') (p @ CHR '' '' # d) = Some (length p)"
    by (auto simp: position_Some_iff nth_append) (metis nth_mem)
  then show ?thesis by (simp add: split_once_space_def)
qed

lemma ingest_output_line:
  assumes "is_pane_id p"
  shows "ingest_notification (''%output '' @ p @ CHR '' '' # d @ [LF]) = queue_output p d"
proof -
  from assms have sp: "CHR '' '' \<notin> set p"
    by (auto simp: is_pane_id_def is_ascii_digit_def dest!: numeric_id_bytes)
  have suffix: "strip_suffix [LF] (''%output '' @ p @ CHR '' '' # d @ [LF]) = Some (''%output '' @ p @ CHR '' '' # d)"
    by (simp add: strip_suffix_Some_iff)
  have prefix: "strip_prefix ''%output '' (''%output '' @ p @ CHR '' '' # d) = Some (p @ CHR '' '' # d)"
    by (rule strip_prefix_append)
  show ?thesis
    unfolding ingest_notification_def suffix option.case Let_def prefix
    by (rule ext) (simp add: split_once_space_append [OF sp] sr_bind_def sr_lift_def)
qed

section \<open>Framing\<close>

text \<open>A child under a live lease whose next buffers are whole lines.\<close>

definition feeding :: "bytes list \<Rightarrow> read_event list \<Rightarrow> control_adapter \<Rightarrow> bool" where
  "feeding ls evs s \<longleftrightarrow> cc_stdout (ca_control s) = map Buf ls @ evs \<and> cc_pending_line (ca_control s) = []
     \<and> cc_lease_ok (ca_control s) = (\<lambda>_. True) \<and> cc_unlink_ok (ca_control s)
     \<and> list_all (control_line MAX_CONTROL_LINE_BYTES) ls"

lemma position_first_LF: "LF \<notin> set body \<Longrightarrow> position (\<lambda>b. b = LF) (body @ [LF]) = Some (length body)"
  by (auto simp: position_Some_iff nth_append) (metis nth_mem)

lemma read_whole_line:
  assumes "control_line n l" and "n < 2 ^ 64"
  shows "read_bounded_line_into (Buf l # evs) [] n = (Ok l, evs, [])"
proof -
  from assms(1) obtain body where l: "l = body @ [LF]" "LF \<notin> set body" "length l \<le> n"
    by (auto simp: control_line_def)
  with assms(2) show ?thesis
    by (simp add: position_first_LF checked_add_usize_def Let_def nth_append)
qed

lemma feed_line:
  assumes "feeding (l # ls) evs s"
  shows "\<exists>t. control_line_next s = (Ok l, t) \<and> feeding ls evs t
    \<and> ca_events t = ca_events s \<and> ca_queued_output_bytes t = ca_queued_output_bytes s
    \<and> cc_stdin (ca_control t) = cc_stdin (ca_control s)"
proof -
  from assms have "control_line MAX_CONTROL_LINE_BYTES l" by (simp add: feeding_def)
  from read_whole_line [OF this, of "map Buf ls @ evs"] assms show ?thesis
    by (auto simp: feeding_def control_line_next_def on_control_def next_line_def sr_bind_def sr_return_def
        child_lease_check_def read_line_def unlink_identity_def Let_def)
qed

text \<open>An opaque payload record inside a guard.\<close>

definition payload_line :: "bytes \<Rightarrow> bool" where
  "payload_line l \<longleftrightarrow> \<not> starts_with ''%begin '' l \<and> \<not> starts_with ''%end '' l \<and> \<not> starts_with ''%error '' l"

lemma parse_marker_other: "\<not> starts_with p l \<Longrightarrow> parse_marker l p = Ok None"
  by (simp add: parse_marker_def strip_prefix_def)

definition reader_at :: "(nat \<times> nat \<times> nat) option \<Rightarrow> nat \<Rightarrow> nat \<Rightarrow> nat \<Rightarrow> bytes list \<Rightarrow> response_reader" where
  "reader_at m sz records wire result = \<lparr>rr_marker = m, rr_size = sz,
     rr_budget = \<lparr>rb_records = records, rb_wire_bytes = wire\<rparr>, rr_result = result\<rparr>"

lemma loop_step:
  assumes "control_line_next s = (Ok l, t)" and "response_step limit rr l t = (Ok (Inl rr'), u)"
  shows "read_response_loop limit rr s = read_response_loop limit rr' u"
  using assms by (simp add: read_response_loop.simps [of limit rr s])

lemma step_budget:
  assumes "records < MAX_RESPONSE_RECORDS" and "wire + length l \<le> MAX_RESPONSE_WIRE_BYTES"
  shows "response_step limit (reader_at m sz records wire res) l t
    = response_body limit (reader_at m sz (Suc records) (wire + length l) res) l t"
proof -
  have "budget_observe \<lparr>rb_records = records, rb_wire_bytes = wire\<rparr> l
      = Ok \<lparr>rb_records = Suc records, rb_wire_bytes = wire + length l\<rparr>"
    using assms by (simp add: res_simps)
  then show ?thesis by (simp add: response_step_def reader_at_def sr_bind_def sr_lift_def)
qed

lemma payload_body:
  assumes "payload_line l" and "sz + length (command_payload l) \<le> limit" and "limit < 2 ^ 64"
  shows "response_body limit (reader_at (Some m) sz r w res) l t
    = (Ok (Inl (reader_at (Some m) (sz + length (command_payload l)) r w (res @ [command_payload l]))), t)"
  using assms
  by (auto simp: response_body_def reader_at_def payload_line_def parse_marker_other sr_bind_def sr_leaf Let_def
      checked_add_usize_def)

lemma read_payload:
  assumes "feeding (ls @ [e]) evs s" and "list_all payload_line ls" and "parse_marker e ''%end '' = Ok (Some m)"
    and "records + length ls < MAX_RESPONSE_RECORDS"
    and "wire + sum_list (map length ls) + length e \<le> MAX_RESPONSE_WIRE_BYTES"
    and "sz + sum_list (map (length \<circ> command_payload) ls) \<le> limit" and "limit < 2 ^ 64"
  shows "\<exists>t. read_response_loop limit (reader_at (Some m) sz records wire res) s
      = (Ok (res @ map command_payload ls), t) \<and> feeding [] evs t
    \<and> ca_events t = ca_events s \<and> cc_stdin (ca_control t) = cc_stdin (ca_control s)"
  using assms
proof (induction ls arbitrary: s sz records wire res)
  case Nil
  then obtain t where t: "control_line_next s = (Ok e, t)" "feeding [] evs t" "ca_events t = ca_events s"
    "cc_stdin (ca_control t) = cc_stdin (ca_control s)"
    using feed_line [of e "[]" evs s] by auto
  moreover have "response_step limit (reader_at (Some m) sz records wire res) e t = (Ok (Inr res), t)"
    using Nil by (subst step_budget) (auto simp: response_body_def reader_at_def sr_bind_def sr_leaf)
  ultimately show ?case by (auto simp: read_response_loop.simps [of limit _ s])
next
  case (Cons l ls)
  obtain t where t: "control_line_next s = (Ok l, t)" "feeding (ls @ [e]) evs t" "ca_events t = ca_events s"
    "cc_stdin (ca_control t) = cc_stdin (ca_control s)"
    using feed_line [of l "ls @ [e]" evs s] Cons.prems(1) by auto
  have "response_step limit (reader_at (Some m) sz records wire res) l t
      = (Ok (Inl (reader_at (Some m) (sz + length (command_payload l)) (Suc records) (wire + length l)
          (res @ [command_payload l]))), t)"
    using Cons.prems by (simp add: step_budget payload_body)
  note step = loop_step [OF t(1) this]
  from Cons.IH [OF t(2), of "Suc records" "wire + length l" "sz + length (command_payload l)" "res @ [command_payload l]"]
    Cons.prems t(3,4) show ?case
    unfolding step by (auto simp: ac_simps)
qed

lemma read_response_framed:
  assumes "feeding (b # ls @ [e]) evs s" and "list_all payload_line ls"
    and "parse_marker b ''%begin '' = Ok (Some m)" and "parse_marker e ''%end '' = Ok (Some m)"
    and "length ls + 2 \<le> MAX_RESPONSE_RECORDS"
    and "length b + sum_list (map length ls) + length e \<le> MAX_RESPONSE_WIRE_BYTES"
    and "sum_list (map (length \<circ> command_payload) ls) \<le> limit" and "limit < 2 ^ 64"
  shows "\<exists>t. read_response_with_limit limit s = (Ok (map command_payload ls), t) \<and> feeding [] evs t
    \<and> ca_events t = ca_events s \<and> cc_stdin (ca_control t) = cc_stdin (ca_control s)"
proof -
  obtain t where t: "control_line_next s = (Ok b, t)" "feeding (ls @ [e]) evs t" "ca_events t = ca_events s"
    "cc_stdin (ca_control t) = cc_stdin (ca_control s)"
    using feed_line [OF assms(1)] by auto
  have "response_step limit (reader_at None 0 0 0 []) b t = (Ok (Inl (reader_at (Some m) 0 (Suc 0) (0 + length b) [])), t)"
    using assms by (subst step_budget) (auto simp: response_body_def reader_at_def sr_bind_def sr_leaf)
  note step = loop_step [OF t(1) this]
  have init: "reader_init = reader_at None 0 0 0 []" by (simp add: reader_init_def reader_at_def)
  from read_payload [OF t(2) assms(2,4), of "Suc 0" "0 + length b" 0 limit "[]"] assms t(3,4) show ?thesis
    by (auto simp: read_response_with_limit_def response_deadline_def read_response_with_limit_inner_def init step sr_map_err_def)
qed

context adapter_inv
begin

lemma next_event: "P s \<Longrightarrow> P (snd (next_event s))"
proof (induction s rule: next_event.induct)
  case (1 s)
  obtain e u where u: "pop_event s = (e, u)" by fastforce
  obtain r1 s1 where l: "control_line_next s = (r1, s1)" by fastforce
  with line "1.prems" have ok1: "P s1" by (rule sr_keepsD)
  show ?case
  proof (cases e)
    case None
    show ?thesis
    proof (cases r1)
      case (Inr ln)
      obtain r2 s2 where i: "ingest_notification ln s1 = (r2, s2)" by fastforce
      with ingest ok1 have "P s2" by (rule sr_keepsD)
      with 1 u None l Inr i show ?thesis by (cases r2) (auto simp: next_event.simps [of s])
    qed (use u None l ok1 in \<open>simp add: next_event.simps [of s]\<close>)
  next
    case (Some ev)
    with u pop [OF "1.prems"] show ?thesis by (simp add: next_event.simps [of s])
  qed
qed

lemma set_writer:
  assumes "writer \<Longrightarrow> C ''switch-client -r'' \<and> C (''refresh-client -f '' @ quoted ''!ignore-size,pause-after=1'')"
    and "\<not> writer \<Longrightarrow> C ''switch-client -r'' \<and> C (''refresh-client -f '' @ quoted ''ignore-size,pause-after=1'')"
    and "P s" and "set_writer writer s = (out, t)"
  shows "P t"
proof -
  have two: "P t" if "C a" "C b"
    "(case mutating_command a s of (o1, s1) \<Rightarrow> if o1 \<noteq> Succeeded then (o1, s1) else mutating_command b s1) = (out, t)" for a b
    using that assms(3) by (auto split: prod.splits if_splits dest: mutating)
  show ?thesis
  proof (cases writer)
    case True
    from assms(4) show ?thesis unfolding set_writer_def if_P [OF True] using assms(1) [OF True] by (intro two) blast+
  next
    case False
    from assms(4) show ?thesis unfolding set_writer_def if_not_P [OF False] using assms(2) [OF False] by (intro two) blast+
  qed
qed

end

section \<open>Answers of the target\<close>

lemma ingest_fails: "sr_fails (\<lambda>e. e = Tmux_Protocol) (ingest_notification line)"
proof -
  have q: "sr_fails (\<lambda>e. e = Tmux_Protocol) (queue_event e)" for e
    by (rule sr_failsI) (auto simp: queue_event_def split: if_splits)
  have c: "sr_fails (\<lambda>e. e = Tmux_Protocol) (count_output d)" for d
    by (rule sr_failsI) (auto simp: count_output_def Let_def split: option.splits if_splits)
  have qc: "sr_fails (\<lambda>e. e = Tmux_Protocol) (queue_chunks p cs)" for p cs
    by (induction cs) (auto intro!: sr_rules q c)
  show ?thesis
    unfolding ingest_notification_def queue_output_def
    by (intro sr_rules sr_fails_lift q qc refl) (auto simp: split_once_space_def split: option.splits dest: decode_escaped_Err [rotated])
qed

lemma line_received: "control_line_next s = (Ok line, t) \<Longrightarrow> received (ca_control s) = line @ received (ca_control t)"
  by (auto simp: control_line_next_def on_control_def res_simps split: prod.splits dest!: next_line_received)

lemma line_fails: "sr_fails (\<lambda>e. e \<noteq> Failed Tmux_Target) control_line_next"
proof (rule sr_failsI)
  fix s e t assume "control_line_next s = (Err e, t)"
  then obtain e' where "e = ssh_await e'"
    by (auto simp: control_line_next_def on_control_def map_err_def split: prod.splits sum.splits)
  then show "e \<noteq> Failed Tmux_Target" by (cases e') auto
qed

text \<open>What the target sent between two moments holds a whole answer: a \<open>%begin\<close> record, and later the record
  that closes the same guard, \<open>%end\<close> for a success and \<open>%error\<close> for a failure.\<close>

definition closing :: "mutation_outcome \<Rightarrow> bytes" where
  "closing out = (if out = Succeeded then ''%end '' else ''%error '')"

definition closed_by :: "bytes \<Rightarrow> nat \<times> nat \<times> nat \<Rightarrow> bytes \<Rightarrow> bytes \<Rightarrow> bool" where
  "closed_by mark m earlier later \<longleftrightarrow> (\<exists>body e. earlier = body @ e @ later \<and> parse_marker e mark = Ok (Some m))"

definition target_answered :: "bytes \<Rightarrow> bytes \<Rightarrow> bytes \<Rightarrow> bool" where
  "target_answered mark earlier later \<longleftrightarrow> (\<exists>pre b m rest. earlier = pre @ b @ rest
     \<and> parse_marker b ''%begin '' = Ok (Some m) \<and> closed_by mark m rest later)"

lemma closed_now: "parse_marker e mark = Ok (Some m) \<Longrightarrow> closed_by mark m (e @ later) later"
  unfolding closed_by_def by (metis append_Nil)

lemma answered_now: "parse_marker b ''%begin '' = Ok (Some m) \<Longrightarrow> closed_by mark m rest later \<Longrightarrow> target_answered mark (b @ rest) later"
  unfolding target_answered_def by (metis append_Nil)

lemma closed_by_later: "closed_by mark m rest later \<Longrightarrow> closed_by mark m (l @ rest) later"
  unfolding closed_by_def by (metis append.assoc)

lemma answered_later: "target_answered mark rest later \<Longrightarrow> target_answered mark (l @ rest) later"
  unfolding target_answered_def by (metis append.assoc)

lemma response_body_wp:
  "sr_wp (response_body limit rr line)
     (\<lambda>r t. ca_control t = ca_control s \<and> (case r of
        Inl rr' \<Rightarrow> rr_marker rr' = rr_marker rr
          \<or> rr_marker rr = None \<and> (\<exists>m. rr_marker rr' = Some m \<and> parse_marker line ''%begin '' = Ok (Some m))
      | Inr _ \<Rightarrow> \<exists>m. rr_marker rr = Some m \<and> parse_marker line ''%end '' = Ok (Some m)))
     (\<lambda>e t. ca_control t = ca_control s
        \<and> (e = Tmux_Target \<longrightarrow> (\<exists>m. rr_marker rr = Some m \<and> parse_marker line ''%error '' = Ok (Some m)))) s"
proof -
  have ing: "sr_wp (ingest_notification line) (\<lambda>_ t. ca_control t = ca_control s) (\<lambda>e t. ca_control t = ca_control s \<and> e \<noteq> Tmux_Target) s"
    by (rule sr_wpI) (auto dest: ingest_control_eq sr_failsD [OF ingest_fails])
  show ?thesis
    unfolding response_body_def wp_option wp_bind
    by (auto simp: wp_simps wp_option Let_def ok_or_def dest: parse_marker_Err split: option.splits
        intro!: wp_lift sr_wp_mono [OF ing])
qed

lemma response_step_answer:
  assumes "response_step limit rr line s = (r, t)"
  shows "ca_control t = ca_control s"
    and "r = Ok (Inl rr') \<Longrightarrow> rr_marker rr' = rr_marker rr
      \<or> rr_marker rr = None \<and> (\<exists>m. rr_marker rr' = Some m \<and> parse_marker line ''%begin '' = Ok (Some m))"
    and "r = Ok (Inr res) \<Longrightarrow> \<exists>m. rr_marker rr = Some m \<and> parse_marker line ''%end '' = Ok (Some m)"
    and "r = Err Tmux_Target \<Longrightarrow> \<exists>m. rr_marker rr = Some m \<and> parse_marker line ''%error '' = Ok (Some m)"
proof -
  have "ca_control t = ca_control s \<and> (case r of
      Inr (Inl rr') \<Rightarrow> rr_marker rr' = rr_marker rr
        \<or> rr_marker rr = None \<and> (\<exists>m. rr_marker rr' = Some m \<and> parse_marker line ''%begin '' = Ok (Some m))
    | Inr (Inr _) \<Rightarrow> \<exists>m. rr_marker rr = Some m \<and> parse_marker line ''%end '' = Ok (Some m)
    | Inl e \<Rightarrow> e = Tmux_Target \<longrightarrow> (\<exists>m. rr_marker rr = Some m \<and> parse_marker line ''%error '' = Ok (Some m)))"
  proof (cases "budget_observe (rr_budget rr) line")
    case (Inl e)
    then have "e = Tmux_Protocol"
      by (auto simp: budget_observe_def r_bind_def ok_or_def split: option.splits if_splits)
    with assms Inl show ?thesis by (auto simp: response_step_def sr_bind_def sr_lift_def)
  next
    case (Inr b)
    with assms have "response_body limit (rr\<lparr>rr_budget := b\<rparr>) line s = (r, t)"
      by (simp add: response_step_def sr_bind_def sr_lift_def)
    with response_body_wp [of limit "rr\<lparr>rr_budget := b\<rparr>" line s] show ?thesis
      by (auto simp: sr_wp_def split: sum.splits)
  qed
  then show "ca_control t = ca_control s"
    and "r = Ok (Inl rr') \<Longrightarrow> rr_marker rr' = rr_marker rr
      \<or> rr_marker rr = None \<and> (\<exists>m. rr_marker rr' = Some m \<and> parse_marker line ''%begin '' = Ok (Some m))"
    and "r = Ok (Inr res) \<Longrightarrow> \<exists>m. rr_marker rr = Some m \<and> parse_marker line ''%end '' = Ok (Some m)"
    and "r = Err Tmux_Target \<Longrightarrow> \<exists>m. rr_marker rr = Some m \<and> parse_marker line ''%error '' = Ok (Some m)"
    by simp_all
qed

definition answer_read :: "bytes \<Rightarrow> (nat \<times> nat \<times> nat) option \<Rightarrow> bytes \<Rightarrow> bytes \<Rightarrow> bool" where
  "answer_read mark marker earlier later \<longleftrightarrow> (case marker of
     None \<Rightarrow> target_answered mark earlier later | Some m \<Rightarrow> closed_by mark m earlier later)"

lemma response_loop_answered:
  assumes "read_response_loop limit rr s = (r, t)" and "r = Ok res \<and> mark = ''%end '' \<or> r = Err (Failed Tmux_Target) \<and> mark = ''%error ''"
  shows "answer_read mark (rr_marker rr) (received (ca_control s)) (received (ca_control t))"
  using assms
proof (induction limit rr s rule: read_response_loop.induct)
  case (1 limit rr s)
  obtain r1 s1 where l: "control_line_next s = (r1, s1)" by fastforce
  show ?case
  proof (cases r1)
    case (Inl e)
    with 1 l sr_failsD [OF line_fails] show ?thesis by (auto simp: read_response_loop.simps [of limit rr s])
  next
    case (Inr line)
    obtain r2 s2 where st: "response_step limit rr line s1 = (r2, s2)" by fastforce
    note ans = response_step_answer [OF st]
    from line_received l Inr ans(1) have rcv: "received (ca_control s) = line @ received (ca_control s2)" by simp
    consider e where "r2 = Err e" | rr' where "r2 = Ok (Inl rr')" | res' where "r2 = Ok (Inr res')"
      by (metis obj_sumE)
    then show ?thesis
    proof cases
      case 1
      with "1.prems" l Inr st have "r2 = Err Tmux_Target" "mark = ''%error ''" "t = s2"
        by (auto simp: read_response_loop.simps [of limit rr s])
      with ans(4) rcv show ?thesis by (auto simp: answer_read_def intro: closed_now)
    next
      case 3
      with "1.prems" l Inr st have "mark = ''%end ''" "t = s2"
        by (auto simp: read_response_loop.simps [of limit rr s])
      with ans(3) [OF 3] rcv show ?thesis by (auto simp: answer_read_def intro: closed_now)
    next
      case 2
      with "1.prems" l Inr st have rest: "read_response_loop limit rr' s2 = (r, t)"
        by (simp add: read_response_loop.simps [of limit rr s])
      have ih: "answer_read mark (rr_marker rr') (received (ca_control s2)) (received (ca_control t))"
        by (rule "1.IH") (use l Inr st 2 rest "1.prems" in auto)
      with ans(2) [OF 2] rcv show ?thesis
        by (auto simp: answer_read_def split: option.splits intro: closed_by_later answered_later answered_now)
    qed
  qed
qed

lemma mutating_answered:
  assumes "mutating_command cmd s = (out, t)" and "out \<noteq> Ambiguous"
  shows "safe_command cmd \<and> cc_stdin (ca_control t) = cc_stdin (ca_control s) @ [cmd]"
proof -
  obtain r u where u: "control_send cmd s = (r, u)" by fastforce
  with assms obtain x where r: "r = Ok x" by (cases r) (auto simp: mutating_command_def)
  have sent: "safe_command cmd \<and> cc_stdin (ca_control u) = cc_stdin (ca_control s) @ [cmd]"
    using u r by (auto simp: control_send_def on_control_def res_simps split: prod.splits dest!: send_command_Ok)
  have "sr_keeps (\<lambda>s. cc_stdin (ca_control s) = cc_stdin (ca_control u)) (read_response_with_limit MAX_RESPONSE_BYTES)"
    unfolding read_response_with_limit_def response_deadline_def read_response_with_limit_inner_def
    by (intro sr_rules response_loop_keeps line_stdin [where P = "\<lambda>x. x = cc_stdin (ca_control u)"]
        ingest_control [where P = "\<lambda>c. cc_stdin c = cc_stdin (ca_control u)"])
  from sr_keepsD [OF this refl] assms(1) u r have "cc_stdin (ca_control t) = cc_stdin (ca_control u)"
    by (auto simp: mutating_command_def split: prod.splits)
  with sent show ?thesis by simp
qed

lemma mutating_closed:
  assumes "mutating_command cmd s = (out, t)" and "out \<noteq> Ambiguous"
  shows "target_answered (closing out) (received (ca_control s)) (received (ca_control t))"
proof -
  obtain r u where u: "control_send cmd s = (r, u)" by fastforce
  with assms obtain x where r: "r = Ok x" by (cases r) (auto simp: mutating_command_def)
  obtain q where q: "read_response_with_limit MAX_RESPONSE_BYTES u = (q, t)" and out: "out = classify_response q"
    using assms u r by (auto simp: mutating_command_def split: prod.splits)
  obtain q' where q': "read_response_loop MAX_RESPONSE_BYTES reader_init u = (q', t)" and e: "q = map_err deadline_error q'"
    using q by (auto simp: read_response_with_limit_def response_deadline_def read_response_with_limit_inner_def sr_map_err_def
      split: prod.splits)
  have kind: "(\<exists>res. q' = Ok res \<and> closing out = ''%end '') \<or> q' = Err (Failed Tmux_Target) \<and> closing out = ''%error ''"
  proof (cases q')
    case (Inl a)
    then show ?thesis using assms(2) out e by (cases a) (auto simp: classify_response_def closing_def split: if_splits)
  qed (use out e in \<open>auto simp: classify_response_def closing_def\<close>)
  then have "answer_read (closing out) (rr_marker reader_init) (received (ca_control u)) (received (ca_control t))"
    using response_loop_answered [OF q'] by blast
  moreover have "received (ca_control u) = received (ca_control s)"
    using u by (auto simp: control_send_def on_control_def send_command_def received_def Let_def split: if_splits prod.splits)
  ultimately show ?thesis by (simp add: answer_read_def reader_init_def)
qed

section \<open>Properties\<close>

definition sample_child :: "read_event list \<Rightarrow> control_child" where
  "sample_child evs = \<lparr>cc_ticks = 0, cc_lease_ok = (\<lambda>_. True), cc_write_ok = (\<lambda>_. True), cc_unlink_ok = True,
     cc_stdout = evs, cc_pending_line = [], cc_identity_path = Some ''id'', cc_stdin = []\<rparr>"

definition sample_adapter :: "read_event list \<Rightarrow> control_adapter" where
  "sample_adapter evs = \<lparr>ca_control = sample_child evs, ca_events = [], ca_queued_output_bytes = 0\<rparr>"

text \<open>Whatever the target sends, every method of the adapter leaves it with at most 256 queued events,
  at most 512 KiB of queued output made of non-empty bounded chunks of valid panes, a byte counter that never
  understates the queue, a bounded partial line, and only bounded single-line commands written.\<close>

lemma adapter_stays_bounded:
  assumes "adapter_ok s"
  shows "adapter_ok (snd (hydrate sid created s)) \<and> adapter_ok (snd (next_event s)) \<and> adapter_ok (snd (pump_event s))
    \<and> adapter_ok (snd (mutating_command cmd s)) \<and> adapter_ok (snd (command cmd n s)) \<and> adapter_ok (snd (pop_event s))"
proof -
  have "sr_keeps adapter_ok pump_event" unfolding pump_event_def by (intro sr_rules)
  moreover have "adapter_ok (snd (mutating_command cmd s))"
    by (rule bounds.mutating [OF _ assms surjective_pairing]) simp
  ultimately show ?thesis
    using assms bounds.hydrate [of sid created] bounds.command [of cmd n] bounds.next_event [OF assms] bounds.pop [OF assms]
    by (simp add: sr_keeps_def)
qed

theorem adapter_stays_bounded_witness:
  "adapter_ok (sample_adapter [Buf (''%output %1 hello'' @ [LF])])
   \<and> adapter_ok (snd (pump_event (sample_adapter [Buf (''%output %1 hello'' @ [LF])])))"
proof -
  have "adapter_ok (sample_adapter [Buf (''%output %1 hello'' @ [LF])])" by code_simp
  with adapter_stays_bounded [OF this] show ?thesis by blast
qed

text \<open>Building a projection, however often it is retried and however it fails, writes only the
  closed set of observing commands with validated targets: an observer never mutates the session.\<close>

lemma hydration_only_observes:
  "\<exists>cs. cc_stdin (ca_control (snd (hydrate sid created s))) = cc_stdin (ca_control s) @ cs \<and> list_all observing cs"
proof -
  have "observed_since (cc_stdin (ca_control s)) s" by (simp add: observed_since_def)
  with quiet.hydrate [of "cc_stdin (ca_control s)" sid created]
  have "observed_since (cc_stdin (ca_control s)) (snd (hydrate sid created s))" by (simp add: sr_keeps_def)
  then show ?thesis by (simp add: observed_since_def)
qed

text \<open>C38. A projection that \<open>hydrate\<close> returns is consistent: its windows are distinct with exactly one
  active, which is the projected window; its panes are well formed inside that window and carry
  bounded labels; there is one snapshot per pane, in order, that reproduces the pane's terminal state
  within the contract's sizes; and no refresh or exit notification is left unprocessed.\<close>

theorem hydrated_projection_consistent:
  assumes "hydrate sid created s = (Ok k, t)"
  shows "projection_ok k \<and> Exit \<notin> set (ca_events t) \<and> Refresh \<notin> set (ca_events t)"
proof -
  from assms obtain u where "hydrate_once sid created u = (Ok k, t)"
    unfolding hydrate_def by (blast dest: hydrate_attempts_Ok)
  then show ?thesis using hydrate_once_live sr_yieldsD [OF hydrate_once_yields] by blast
qed

definition reply :: "nat \<Rightarrow> bytes list \<Rightarrow> read_event list" where
  "reply n ls = Buf (''%begin 1 '' @ show_nat n @ '' 1'' @ [LF]) # map (\<lambda>l. Buf (l @ [LF])) ls
     @ [Buf (''%end 1 '' @ show_nat n @ '' 1'' @ [LF])]"

definition sample_session :: "read_event list" where
  "sample_session = (let windows = [''@1:1:main'']; window = [''$0:1700000000:@1:80:24:abcd,80x24'']; name = [''main'']
     in reply 1 windows @ reply 2 window @ reply 3 name @ reply 4 [sample_row] @ reply 5 [''title''] @ reply 6 [''bash'']
        @ reply 7 [] @ reply 8 [] @ reply 9 [''$ ls'', ''%7 file''] @ reply 10 [sample_row]
        @ reply 11 windows @ reply 12 window @ reply 13 name @ reply 14 [sample_row])"

lemma sample_session_hydrates: "is_ok (fst (hydrate ''$0'' 1700000000 (sample_adapter sample_session)))"
  by code_simp

theorem hydrated_projection_consistent_witness:
  "(case hydrate ''$0'' 1700000000 (sample_adapter sample_session) of
      (Inr k, t) \<Rightarrow> projection_ok k | (Inl e, t) \<Rightarrow> False)"
proof -
  obtain k t where k: "hydrate ''$0'' 1700000000 (sample_adapter sample_session) = (Ok k, t)"
    using sample_session_hydrates by (metis is_ok_iff fst_conv prod.exhaust)
  with hydrated_projection_consistent [OF k] show ?thesis by simp
qed

text \<open>A guarded response of the target is read exactly: the payload lines between the matching
  \<open>%begin\<close> and \<open>%end\<close> records come back in order without their line feeds, nothing behind the guard
  is consumed, and no event is lost or invented.\<close>

lemma guarded_response_read_exactly:
  assumes "feeding (b # ls @ [e]) evs s" and "list_all payload_line ls"
    and "parse_marker b ''%begin '' = Ok (Some m)" and "parse_marker e ''%end '' = Ok (Some m)"
    and "length ls + 2 \<le> MAX_RESPONSE_RECORDS"
    and "length b + sum_list (map length ls) + length e \<le> MAX_RESPONSE_WIRE_BYTES"
    and "sum_list (map (length \<circ> command_payload) ls) \<le> limit" and "limit < 2 ^ 64"
  shows "\<exists>t. read_response_with_limit limit s = (Ok (map command_payload ls), t)
    \<and> cc_stdout (ca_control t) = evs \<and> ca_events t = ca_events s"
  using read_response_framed [OF assms] by (auto simp: feeding_def)

theorem guarded_response_read_exactly_witness:
  "\<exists>t. read_response_with_limit 100 (sample_adapter [Buf (''%begin 1 2 3'' @ [LF]), Buf (''%output row'' @ [LF]),
       Buf (''%end 1 2 3'' @ [LF]), Buf ''%exi''])
     = (Ok [''%output row''], t) \<and> cc_stdout (ca_control t) = [Buf ''%exi''] \<and> ca_events t = []"
proof -
  let ?b = "''%begin 1 2 3'' @ [LF]" and ?l = "''%output row'' @ [LF]" and ?e = "''%end 1 2 3'' @ [LF]"
  let ?s = "sample_adapter [Buf ?b, Buf ?l, Buf ?e, Buf ''%exi'']"
  have lines: "control_line MAX_CONTROL_LINE_BYTES ?b" "control_line MAX_CONTROL_LINE_BYTES ?l" "control_line MAX_CONTROL_LINE_BYTES ?e"
    unfolding control_line_def by (rule conjI, rule exI, rule conjI, rule refl, simp, simp)+
  then have feed: "feeding (?b # [?l] @ [?e]) [Buf ''%exi''] ?s"
    by (simp add: feeding_def sample_adapter_def sample_child_def)
  have "parse_marker ?b ''%begin '' = Ok (Some (1, 2, 3))" by code_simp
  moreover have "parse_marker ?e ''%end '' = Ok (Some (1, 2, 3))" by code_simp
  moreover have "list_all payload_line [?l]" "map command_payload [?l] = [''%output row'']" by code_simp+
  ultimately show ?thesis
    using guarded_response_read_exactly [OF feed, of "(1, 2, 3)" 100] by (simp add: sample_adapter_def)
qed

text \<open>C39. A mutating command is reported as succeeded or failed only when it was one bounded line, was
  written exactly once and the target answered: the bytes read from the child hold a \<open>%begin\<close> record and
  after it the record closing the same guard, \<open>%end\<close> for a success and \<open>%error\<close> for a failure. In every
  other case (refused, fenced, cut off, late or malformed reply) the outcome is ambiguous.\<close>

theorem mutation_outcome_is_honest:
  assumes "mutating_command cmd s = (out, t)" and "out \<noteq> Ambiguous"
  shows "safe_command cmd \<and> cc_stdin (ca_control t) = cc_stdin (ca_control s) @ [cmd]
    \<and> target_answered (closing out) (received (ca_control s)) (received (ca_control t))"
  using mutating_answered [OF assms] mutating_closed [OF assms] by simp

theorem mutation_outcome_is_honest_witness:
  "(case mutating_command ''select-pane -t %1'' (sample_adapter (reply 1 [])) of (out, t) \<Rightarrow>
     out = Succeeded \<and> safe_command ''select-pane -t %1'' \<and> cc_stdin (ca_control t) = [''select-pane -t %1'']
     \<and> target_answered ''%end '' (received (ca_control (sample_adapter (reply 1 [])))) (received (ca_control t)))"
proof -
  obtain out t where h: "mutating_command ''select-pane -t %1'' (sample_adapter (reply 1 [])) = (out, t)" by fastforce
  have "fst (mutating_command ''select-pane -t %1'' (sample_adapter (reply 1 []))) = Succeeded" by code_simp
  with h have out: "out = Succeeded" by simp
  with mutation_outcome_is_honest [OF h] h show ?thesis by (simp add: closing_def sample_adapter_def sample_child_def)
qed

text \<open>Over any interleaving of queued and consumed events, the events handed out are exactly the
  accepted ones in arrival order: nothing is lost, duplicated or reordered.\<close>

lemma event_queue_is_fifo:
  assumes "queue_run queue_event pop_event ops s = (accepted, delivered, t)"
  shows "ca_events s @ accepted = delivered @ ca_events t"
  using assms by (rule lq.run_fifo)

theorem event_queue_is_fifo_witness:
  "(case queue_run queue_event pop_event [Put Refresh, Put (Output ''%1'' ''x''), Take] (sample_adapter []) of
     (accepted, delivered, t) \<Rightarrow> accepted = delivered @ ca_events t \<and> delivered = [Refresh])"
proof -
  obtain a d t where r: "queue_run queue_event pop_event [Put Refresh, Put (Output ''%1'' ''x''), Take] (sample_adapter []) = (a, d, t)"
    using prod_cases3 by blast
  have "fst (snd (queue_run queue_event pop_event [Put Refresh, Put (Output ''%1'' ''x''), Take] (sample_adapter []))) = [Refresh]"
    by code_simp
  with event_queue_is_fifo [OF r] r show ?thesis by (simp add: sample_adapter_def)
qed

text \<open>An output notification, however tmux escaped it, is queued as consecutive chunks whose
  concatenation is exactly the bytes the pane wrote, as long as the queue has room.\<close>

lemma output_notification_delivered:
  assumes "is_pane_id p" and "d \<noteq> []" and "queue_exact s"
    and "length (ca_events s) + length (chunks ATTACHMENT_MAX_TERMINAL_CHUNK_BYTES d) \<le> MAX_QUEUED_EVENTS"
    and "outputs_total (ca_events s) + length d \<le> MAX_QUEUED_OUTPUT_BYTES"
  shows "\<exists>t cs. ingest_notification (''%output '' @ p @ CHR '' '' # tmux_escape esc d @ [LF]) s = (Ok (), t)
    \<and> ca_events t = ca_events s @ map (Output p) cs \<and> concat cs = d \<and> queue_exact t"
proof -
  let ?cs = "chunks ATTACHMENT_MAX_TERMINAL_CHUNK_BYTES d"
  have dec: "decode_escaped (tmux_escape esc d) = Ok d"
    by (rule decode_escaped_complete) (rule escaped_tmux_escape)
  from assms(1) have "from_utf8_ok p" by (auto simp: is_pane_id_def intro: numeric_id_ascii)
  with assms(1,2) dec have "queue_output p (tmux_escape esc d) s = queue_chunks p ?cs s"
    by (simp add: queue_output_def sr_bind_def sr_lift_def)
  moreover have cs: "concat ?cs = d" "sum_list (map length ?cs) = length d"
    by (simp_all add: concat_chunks sum_length_chunks)
  moreover obtain t where "queue_chunks p ?cs s = (Ok (), t)" "ca_events t = ca_events s @ map (Output p) ?cs" "queue_exact t"
    using queue_chunks_delivers [of s ?cs p] assms cs(2) by auto
  ultimately show ?thesis
    using ingest_output_line [OF assms(1)] by (intro exI [of _ t] exI [of _ ?cs]) simp
qed

theorem output_notification_delivered_witness:
  "\<exists>t cs. ingest_notification (''%output '' @ ''%3'' @ CHR '' '' # tmux_escape (\<lambda>_. True) ''hi'' @ [LF]) (sample_adapter []) = (Ok (), t)
    \<and> ca_events t = map (Output ''%3'') cs \<and> concat cs = ''hi''"
proof -
  have "is_pane_id ''%3''" by code_simp
  moreover have "length (chunks ATTACHMENT_MAX_TERMINAL_CHUNK_BYTES ''hi'') = 1" by (simp add: chunks.simps)
  ultimately show ?thesis
    using output_notification_delivered [of "''%3''" "''hi''" "sample_adapter []" "\<lambda>_. True"]
    by (auto simp: sample_adapter_def queue_exact_def)
qed

end
