(* ===== verification/Writer.thy ===== *)
theory Writer
  imports Prelude "HOL-Library.AList"
begin

text \<open>
  The single-writer registry of \<open>crates/owlmux-server/src/writer.rs\<close>. A scope is shared behind an
  \<open>Arc\<close>, so the registry keeps a heap of scopes and maps a machine to the address of its scope; an
  attachment that still holds the address of a replaced scope keeps seeing that scope. The methods
  of \<open>WriterGuard\<close> run under the scope's mutex and are functions of the scope.
\<close>

section \<open>Data\<close>

text \<open>\<open>RouteIdentity\<close> of \<open>relay/mod.rs\<close>; the \<open>i64\<close> columns are integers.\<close>

record route_identity =
  ri_route_revision :: int
  ri_connection_epoch :: int
  ri_connection_id :: uuid

record client_size =
  cs_columns :: nat
  cs_rows :: nat

datatype control_outcome = CO_Succeeded | CO_Failed | CO_Ambiguous

text \<open>The sender of a control channel is named by the number of the attachment task that owns the
  receiver.\<close>

type_synonym channel = nat

record writer_handle =
  wh_attachment_id :: uuid
  wh_size :: client_size
  wh_control :: "channel option"

record writer_scope =
  wsc_route :: route_identity
  wsc_current :: "writer_handle option"
  wsc_changed :: "64 word"

record writer_view =
  wv_is_writer :: bool
  wv_writer_available :: bool

record writer_registry =
  wr_scopes :: "(uuid \<times> nat) list"
  wr_heap :: "writer_scope list"

section \<open>Guard operations\<close>

definition writer_scope_new :: "route_identity \<Rightarrow> writer_scope" where
  "writer_scope_new route = \<lparr>wsc_route = route, wsc_current = None, wsc_changed = 0\<rparr>"

definition is_current :: "uuid \<Rightarrow> writer_scope \<Rightarrow> bool" where
  "is_current attachment_id s = (case wsc_current s of None \<Rightarrow> False | Some w \<Rightarrow> wh_attachment_id w = attachment_id)"

definition is_available :: "writer_scope \<Rightarrow> bool" where
  "is_available s \<longleftrightarrow> wsc_current s = None"

definition writer_view_of :: "uuid \<Rightarrow> writer_scope \<Rightarrow> writer_view" where
  "writer_view_of attachment_id s =
     \<lparr>wv_is_writer = is_current attachment_id s, wv_writer_available = is_available s\<rparr>"

definition current_attachment :: "writer_scope \<Rightarrow> uuid option" where
  "current_attachment s = map_option wh_attachment_id (wsc_current s)"

definition current_control :: "writer_scope \<Rightarrow> channel option" where
  "current_control s = Option.bind (wsc_current s) wh_control"

definition current_size :: "uuid \<Rightarrow> writer_scope \<Rightarrow> client_size option" where
  "current_size attachment_id s = Option.bind (wsc_current s) (\<lambda>w.
     if wh_attachment_id w = attachment_id then Some (wh_size w) else None)"

definition notify :: "writer_scope \<Rightarrow> writer_scope" where
  "notify s = s\<lparr>wsc_changed := wsc_changed s + 1\<rparr>"

definition set_current :: "uuid \<Rightarrow> client_size \<Rightarrow> channel option \<Rightarrow> writer_scope \<Rightarrow> writer_scope" where
  "set_current attachment_id sz control s =
     notify (s\<lparr>wsc_current := Some \<lparr>wh_attachment_id = attachment_id, wh_size = sz, wh_control = control\<rparr>\<rparr>)"

definition update_current ::
  "uuid \<Rightarrow> (writer_handle \<Rightarrow> writer_handle) \<Rightarrow> writer_scope \<Rightarrow> bool \<times> writer_scope" where
  "update_current attachment_id f s = (case wsc_current s of
     None \<Rightarrow> (False, s)
   | Some w \<Rightarrow> if wh_attachment_id w \<noteq> attachment_id then (False, s)
               else (True, s\<lparr>wsc_current := Some (f w)\<rparr>))"

definition set_control :: "uuid \<Rightarrow> channel \<Rightarrow> writer_scope \<Rightarrow> bool \<times> writer_scope" where
  "set_control attachment_id control = update_current attachment_id (\<lambda>w. w\<lparr>wh_control := Some control\<rparr>)"

definition clear_control :: "uuid \<Rightarrow> writer_scope \<Rightarrow> bool \<times> writer_scope" where
  "clear_control attachment_id = update_current attachment_id (\<lambda>w. w\<lparr>wh_control := None\<rparr>)"

definition update_size :: "uuid \<Rightarrow> client_size \<Rightarrow> writer_scope \<Rightarrow> bool \<times> writer_scope" where
  "update_size attachment_id sz = update_current attachment_id (\<lambda>w. w\<lparr>wh_size := sz\<rparr>)"

definition clear_if_current :: "uuid \<Rightarrow> writer_scope \<Rightarrow> bool \<times> writer_scope" where
  "clear_if_current attachment_id s =
     (if \<not> is_current attachment_id s then (False, s) else (True, notify (s\<lparr>wsc_current := None\<rparr>)))"

definition clear_writer :: "writer_scope \<Rightarrow> writer_scope" where
  "clear_writer s = (if wsc_current s \<noteq> None then notify (s\<lparr>wsc_current := None\<rparr>) else s)"

section \<open>The registry\<close>

definition registry_new :: writer_registry where
  "registry_new = \<lparr>wr_scopes = [], wr_heap = []\<rparr>"

definition scope_of :: "uuid \<Rightarrow> route_identity \<Rightarrow> writer_registry \<Rightarrow> nat \<times> writer_registry" where
  "scope_of machine_id route r =
     (let fresh = (length (wr_heap r),
             r\<lparr>wr_scopes := AList.update machine_id (length (wr_heap r)) (wr_scopes r),
               wr_heap := wr_heap r @ [writer_scope_new route]\<rparr>)
      in case map_of (wr_scopes r) machine_id of
        None \<Rightarrow> fresh
      | Some a \<Rightarrow> if wsc_route (wr_heap r ! a) = route then (a, r) else fresh)"

definition scope_release :: "uuid \<Rightarrow> writer_scope \<Rightarrow> writer_scope" where
  "scope_release attachment_id s = snd (clear_if_current attachment_id s)"

fun release_at :: "uuid \<Rightarrow> nat list \<Rightarrow> writer_scope list \<Rightarrow> writer_scope list" where
  "release_at attachment_id [] heap = heap"
| "release_at attachment_id (a # as) heap =
     release_at attachment_id as (heap[a := scope_release attachment_id (heap ! a)])"

definition release_attachment :: "uuid \<Rightarrow> writer_registry \<Rightarrow> writer_registry" where
  "release_attachment attachment_id r =
     r\<lparr>wr_heap := release_at attachment_id (map snd (wr_scopes r)) (wr_heap r)\<rparr>"

section \<open>The scope as a cell with one holder\<close>

text \<open>The contract the attachment code relies on: a cell that one attachment at a time can hold, with
  a revision that tells watchers about every change of the holder.\<close>

datatype cell_op = Acquire uuid | Yield uuid | Evict | Adjust uuid

fun holder_step :: "cell_op \<Rightarrow> uuid option \<Rightarrow> uuid option" where
  "holder_step (Acquire a) h = Some a"
| "holder_step (Yield a) h = (if h = Some a then None else h)"
| "holder_step Evict h = None"
| "holder_step (Adjust a) h = h"

fun notices :: "cell_op \<Rightarrow> uuid option \<Rightarrow> nat" where
  "notices (Acquire a) h = 1"
| "notices (Yield a) h = (if h = Some a then 1 else 0)"
| "notices Evict h = (if h \<noteq> None then 1 else 0)"
| "notices (Adjust a) h = 0"

fun holder_run :: "cell_op list \<Rightarrow> uuid option \<Rightarrow> uuid option \<times> nat" where
  "holder_run [] h = (h, 0)"
| "holder_run (c # cs) h = (case holder_run cs (holder_step c h) of (h', n) \<Rightarrow> (h', notices c h + n))"

locale writer_cell =
  fixes holder :: "'s \<Rightarrow> uuid option" and revision :: "'s \<Rightarrow> 64 word" and apply_op :: "'o \<Rightarrow> 's \<Rightarrow> 's"
    and abstract :: "'o \<Rightarrow> cell_op"
  assumes holder_apply: "holder (apply_op x s) = holder_step (abstract x) (holder s)"
    and revision_apply: "revision (apply_op x s) = revision s + of_nat (notices (abstract x) (holder s))"
begin

lemma fold_holder:
  "holder (fold apply_op xs s) = fst (holder_run (map abstract xs) (holder s))
   \<and> revision (fold apply_op xs s) = revision s + of_nat (snd (holder_run (map abstract xs) (holder s)))"
proof (induction xs arbitrary: s)
  case (Cons x xs)
  from Cons [of "apply_op x s"] show ?case
    by (simp add: holder_apply revision_apply split: prod.splits)
qed simp

end

text \<open>The guard's operations as they are called.\<close>

datatype guard_op =
    G_set_current uuid client_size "channel option"
  | G_set_control uuid channel
  | G_clear_control uuid
  | G_update_size uuid client_size
  | G_clear_if_current uuid
  | G_clear

fun guard_apply :: "guard_op \<Rightarrow> writer_scope \<Rightarrow> writer_scope" where
  "guard_apply (G_set_current a sz c) s = set_current a sz c s"
| "guard_apply (G_set_control a c) s = snd (set_control a c s)"
| "guard_apply (G_clear_control a) s = snd (clear_control a s)"
| "guard_apply (G_update_size a sz) s = snd (update_size a sz s)"
| "guard_apply (G_clear_if_current a) s = snd (clear_if_current a s)"
| "guard_apply G_clear s = clear_writer s"

fun guard_abstract :: "guard_op \<Rightarrow> cell_op" where
  "guard_abstract (G_set_current a sz c) = Acquire a"
| "guard_abstract (G_set_control a c) = Adjust a"
| "guard_abstract (G_clear_control a) = Adjust a"
| "guard_abstract (G_update_size a sz) = Adjust a"
| "guard_abstract (G_clear_if_current a) = Yield a"
| "guard_abstract G_clear = Evict"

lemmas guard_defs = set_current_def set_control_def clear_control_def update_size_def update_current_def
  clear_if_current_def clear_writer_def notify_def is_current_def current_attachment_def

interpretation scope_cell: writer_cell current_attachment wsc_changed guard_apply guard_abstract
proof unfold_locales
  fix x s
  show "current_attachment (guard_apply x s) = holder_step (guard_abstract x) (current_attachment s)"
    by (cases x) (auto simp: guard_defs split: option.splits)
  show "wsc_changed (guard_apply x s) = wsc_changed s + of_nat (notices (guard_abstract x) (current_attachment s))"
    by (cases x) (auto simp: guard_defs split: option.splits)
qed

lemma is_current_iff: "is_current a s \<longleftrightarrow> current_attachment s = Some a"
  by (auto simp: guard_defs split: option.splits)

lemma is_available_iff: "is_available s \<longleftrightarrow> current_attachment s = None"
  by (simp add: is_available_def current_attachment_def)

lemma current_attachment_simps [simp]:
  "current_attachment (set_current a sz c s) = Some a"
  "current_attachment (clear_writer s) = None"
  "current_attachment (snd (clear_if_current a s)) = (if current_attachment s = Some a then None else current_attachment s)"
  "current_attachment (snd (set_control a ch s)) = current_attachment s"
  "current_attachment (snd (clear_control a s)) = current_attachment s"
  "current_attachment (snd (update_size a sz s)) = current_attachment s"
  "current_attachment (notify s) = current_attachment s"
  by (auto simp: guard_defs split: option.splits)

section \<open>Registry invariant\<close>

definition registry_ok :: "writer_registry \<Rightarrow> bool" where
  "registry_ok r \<longleftrightarrow> distinct (map fst (wr_scopes r)) \<and> distinct (map snd (wr_scopes r))
     \<and> list_all (\<lambda>(_, a). a < length (wr_heap r)) (wr_scopes r)"

lemma registry_ok_new: "registry_ok registry_new"
  by (simp add: registry_ok_def registry_new_def)

lemma update_values: "set (map snd (AList.update k v al)) \<subseteq> insert v (set (map snd al))"
  by (induction al) auto

lemma distinct_update_values:
  "distinct (map snd al) \<Longrightarrow> v \<notin> set (map snd al) \<Longrightarrow> distinct (map snd (AList.update k v al))"
proof (induction al)
  case (Cons p ps)
  with update_values [of k v ps] show ?case by (cases p) auto
qed simp

lemma scope_of_ok:
  assumes "registry_ok r" and "scope_of machine route r = (a, r')"
  shows "registry_ok r' \<and> a < length (wr_heap r') \<and> map_of (wr_scopes r') machine = Some a
    \<and> wsc_route (wr_heap r' ! a) = route"
proof (cases "\<exists>b. map_of (wr_scopes r) machine = Some b \<and> wsc_route (wr_heap r ! b) = route")
  case True
  with assms show ?thesis
    by (auto simp: scope_of_def registry_ok_def list_all_iff Let_def split: option.splits if_splits dest: map_of_SomeD)
next
  case False
  let ?n = "length (wr_heap r)"
  from False assms(2) have a: "a = ?n" and r': "r' = r\<lparr>wr_scopes := AList.update machine ?n (wr_scopes r),
      wr_heap := wr_heap r @ [writer_scope_new route]\<rparr>"
    by (auto simp: scope_of_def Let_def split: option.splits if_splits)
  from assms(1) have new: "?n \<notin> set (map snd (wr_scopes r))" by (auto simp: registry_ok_def list_all_iff)
  have "list_all (\<lambda>(_, b). b < Suc ?n) (AList.update machine ?n (wr_scopes r))"
    using assms(1) update_values [of machine ?n "wr_scopes r"]
    by (fastforce simp: registry_ok_def list_all_iff)
  with assms(1) new show ?thesis
    by (auto simp: a r' registry_ok_def writer_scope_new_def update_conv nth_append
        intro!: distinct_update distinct_update_values)
qed

lemma release_at_nth:
  "distinct as \<Longrightarrow> i < length heap \<Longrightarrow>
     release_at x as heap ! i = (if i \<in> set as then scope_release x (heap ! i) else heap ! i)"
proof (induction as arbitrary: heap)
  case (Cons a as)
  then show ?case by (cases "i = a") (auto simp: nth_list_update)
qed simp

lemma release_at_length [simp]: "length (release_at x as heap) = length heap"
  by (induction as arbitrary: heap) auto

section \<open>Properties\<close>

text \<open>C37. Over any sequence of guard operations a scope behaves like a cell with at most one holder:
  the holder is the last acquirer not since released, and the revision seen by watchers counts,
  modulo 2^64, exactly the operations that acquired or released it.\<close>

theorem writer_scope_refines_cell:
  "current_attachment (fold guard_apply ops s) = fst (holder_run (map guard_abstract ops) (current_attachment s))
   \<and> wsc_changed (fold guard_apply ops s)
       = wsc_changed s + of_nat (snd (holder_run (map guard_abstract ops) (current_attachment s)))"
  by (rule scope_cell.fold_holder)

text \<open>Asking for a machine's scope on the same route yields the shared scope again; on another
  route it installs a fresh scope without a writer, and no attachment still holding an older scope
  is disturbed.\<close>

lemma scope_shared_per_route:
  assumes "registry_ok r" and "scope_of machine route r = (a, r')"
  shows "scope_of machine route r' = (a, r') \<and> registry_ok r'
    \<and> (\<forall>i < length (wr_heap r). wr_heap r' ! i = wr_heap r ! i)
    \<and> (length (wr_heap r) \<le> a \<longrightarrow> is_available (wr_heap r' ! a))"
proof -
  note ok = scope_of_ok [OF assms]
  then have again: "scope_of machine route r' = (a, r')" by (simp add: scope_of_def Let_def)
  from assms(2) have "\<forall>i < length (wr_heap r). wr_heap r' ! i = wr_heap r ! i"
    and "length (wr_heap r) \<le> a \<longrightarrow> is_available (wr_heap r' ! a) \<or> r' = r"
    by (auto simp: scope_of_def Let_def nth_append is_available_def writer_scope_new_def split: option.splits if_splits)
  with ok again show ?thesis by auto
qed

definition sample_route :: "int \<Rightarrow> route_identity" where
  "sample_route e = \<lparr>ri_route_revision = 1, ri_connection_epoch = e, ri_connection_id = 9\<rparr>"

theorem scope_shared_per_route_witness:
  "(case scope_of 5 (sample_route 1) registry_new of (a, r) \<Rightarrow> scope_of 5 (sample_route 1) r = (a, r) \<and> registry_ok r)"
proof -
  obtain a r where s: "scope_of 5 (sample_route 1) registry_new = (a, r)" by fastforce
  with scope_shared_per_route [OF registry_ok_new s] show ?thesis by simp
qed

text \<open>Releasing an attachment removes it as writer of every registered scope and leaves every other
  writer, and every scope no longer registered, as it was.\<close>

lemma release_attachment_everywhere:
  assumes "registry_ok r" and "map_of (wr_scopes r) machine = Some a"
  shows "\<not> is_current x (wr_heap (release_attachment x r) ! a)
    \<and> (current_attachment (wr_heap r ! a) \<noteq> Some x \<longrightarrow> wr_heap (release_attachment x r) ! a = wr_heap r ! a)"
proof -
  from map_of_SomeD [OF assms(2)] assms(1) have "a \<in> set (map snd (wr_scopes r))" "a < length (wr_heap r)"
    "distinct (map snd (wr_scopes r))"
    by (force simp: registry_ok_def list_all_iff)+
  then have "wr_heap (release_attachment x r) ! a = scope_release x (wr_heap r ! a)"
    by (simp add: release_attachment_def release_at_nth del: set_map)
  moreover have "current_attachment t \<noteq> Some x \<longrightarrow> scope_release x t = t" for t
    by (simp add: scope_release_def clear_if_current_def is_current_iff)
  ultimately show ?thesis by (simp add: is_current_iff scope_release_def)
qed

definition sample_registry :: writer_registry where
  "sample_registry = \<lparr>wr_scopes = [(5, 0)], wr_heap = [set_current 7 \<lparr>cs_columns = 80, cs_rows = 24\<rparr> None (writer_scope_new (sample_route 1))]\<rparr>"

theorem release_attachment_everywhere_witness:
  "is_current 7 (wr_heap sample_registry ! 0) \<and> \<not> is_current 7 (wr_heap (release_attachment 7 sample_registry) ! 0)"
proof -
  have "registry_ok sample_registry" "map_of (wr_scopes sample_registry) 5 = Some 0"
    by (simp_all add: sample_registry_def registry_ok_def)
  from release_attachment_everywhere [OF this] show ?thesis
    by (simp add: sample_registry_def is_current_iff)
qed

end
