(* ===== verification/Relay_Registry.thy ===== *)
theory Relay_Registry
  imports Writer
begin

text \<open>
  The in-memory tunnel registry of \<open>crates/owlmux-server/src/relay/mod.rs\<close>: which Relay tunnel a node
  serves for a machine, the claims being made, and which of two competing exits (an administrative
  transition or the tunnel's own release) currently owns the machine. Every definition is one
  section that runs under the registry lock, a token operation, or a tunnel-handle operation, so a
  sequence of them is an interleaving of the asynchronous methods. \<open>Arc\<close>-shared handles and
  completion tokens are addresses into a heap. Answers of the node lease are arguments.
\<close>

section \<open>State\<close>

datatype relay_error = R_InvalidToken | R_InvalidState | R_ProofFailed | R_Protocol | R_Unavailable
  | R_Overloaded | R_OwnerConflict | R_Conflict | R_Ambiguous | R_Fenced

datatype owner_exit_state = Transitioning route_identity | Releasing route_identity

datatype owner_release_decision = Defer | Release

record tunnel_handle =
  th_route :: route_identity
  th_dispatch_open :: bool
  th_barrier_cancelled :: bool
  th_cleanup_complete :: bool

record relay_registry =
  rg_tunnels :: "(uuid \<times> nat) list"
  rg_pending_claims :: "((uuid \<times> uuid) \<times> nat) list"
  rg_owner_exits :: "uuid \<rightharpoonup> owner_exit_state"
  rg_handles :: "tunnel_handle list"
  rg_tokens :: "bool list"
  rg_hard_fenced :: bool

record machine_transition =
  mt_machine_id :: uuid
  mt_route :: route_identity
  mt_armed :: bool

definition registry_empty :: relay_registry where
  "registry_empty = \<lparr>rg_tunnels = [], rg_pending_claims = [], rg_owner_exits = Map.empty,
     rg_handles = [], rg_tokens = [], rg_hard_fenced = False\<rparr>"

section \<open>Tunnel handles\<close>

definition tunnel_handle_new :: "route_identity \<Rightarrow> tunnel_handle" where
  "tunnel_handle_new route = \<lparr>th_route = route, th_dispatch_open = True, th_barrier_cancelled = False,
     th_cleanup_complete = False\<rparr>"

definition alloc_handle :: "route_identity \<Rightarrow> relay_registry \<Rightarrow> nat \<times> relay_registry" where
  "alloc_handle route g = (length (rg_handles g), g\<lparr>rg_handles := rg_handles g @ [tunnel_handle_new route]\<rparr>)"

definition on_handle :: "nat \<Rightarrow> (tunnel_handle \<Rightarrow> tunnel_handle) \<Rightarrow> relay_registry \<Rightarrow> relay_registry" where
  "on_handle h f g = g\<lparr>rg_handles := (rg_handles g)[h := f (rg_handles g ! h)]\<rparr>"

definition close_dispatch :: "nat \<Rightarrow> relay_registry \<Rightarrow> relay_registry" where
  "close_dispatch h = on_handle h (\<lambda>t. t\<lparr>th_dispatch_open := False, th_barrier_cancelled := True\<rparr>)"

definition cancel_cleanup_token :: "nat \<Rightarrow> relay_registry \<Rightarrow> relay_registry" where
  "cancel_cleanup_token h = on_handle h (\<lambda>t. t\<lparr>th_cleanup_complete := True\<rparr>)"

text \<open>\<open>RouteFence::dispatch\<close>: whether the work runs, given the answer of \<open>lease.check()\<close>.\<close>

definition fence_dispatch :: "bool \<Rightarrow> nat \<Rightarrow> relay_registry \<Rightarrow> relay_error + unit" where
  "fence_dispatch lease_ok h g =
     (if \<not> lease_ok then Err R_Fenced
      else if \<not> th_dispatch_open (rg_handles g ! h) \<or> th_barrier_cancelled (rg_handles g ! h) then Err R_Unavailable
      else Ok ())"

section \<open>Owner exits\<close>

definition begin_transition :: "uuid \<Rightarrow> route_identity \<Rightarrow> relay_registry \<Rightarrow> bool \<times> relay_registry" where
  "begin_transition machine_id route g =
     (if rg_owner_exits g machine_id \<noteq> None then (False, g)
      else (True, g\<lparr>rg_owner_exits := (rg_owner_exits g)(machine_id \<mapsto> Transitioning route)\<rparr>))"

definition begin_owner_release ::
  "uuid \<Rightarrow> route_identity \<Rightarrow> relay_registry \<Rightarrow> (relay_error + owner_release_decision) \<times> relay_registry" where
  "begin_owner_release machine_id route g =
     (case rg_owner_exits g machine_id of
        Some (Transitioning expected) \<Rightarrow> if expected = route then (Ok Defer, g) else (Err R_Fenced, g)
      | Some (Releasing _) \<Rightarrow> (Err R_Fenced, g)
      | None \<Rightarrow> (Ok Release, g\<lparr>rg_owner_exits := (rg_owner_exits g)(machine_id \<mapsto> Releasing route)\<rparr>))"

definition state_finish_owner_release :: "uuid \<Rightarrow> route_identity \<Rightarrow> relay_registry \<Rightarrow> relay_registry" where
  "state_finish_owner_release machine_id route g =
     (if rg_owner_exits g machine_id = Some (Releasing route)
      then g\<lparr>rg_owner_exits := (rg_owner_exits g)(machine_id := None)\<rparr> else g)"

definition finish_owner_release :: "uuid \<Rightarrow> uuid \<Rightarrow> route_identity \<Rightarrow> relay_registry \<Rightarrow> relay_registry" where
  "finish_owner_release machine_id connection_id route g =
     (let g1 = (case map_of (rg_tunnels g) machine_id of
           None \<Rightarrow> g
         | Some h \<Rightarrow> if th_route (rg_handles g ! h) = route \<and> ri_connection_id route = connection_id
                     then g\<lparr>rg_tunnels := AList.delete machine_id (rg_tunnels g)\<rparr> else g)
      in state_finish_owner_release machine_id route g1)"

section \<open>Machine transitions\<close>

text \<open>The section of \<open>begin_machine_transition\<close> under the lock: the transition, the handle to close and
  the tokens of the claims that were pending.\<close>

definition begin_machine_transition ::
  "uuid \<Rightarrow> route_identity \<Rightarrow> relay_registry \<Rightarrow> (machine_transition \<times> nat \<times> nat list) option \<times> relay_registry" where
  "begin_machine_transition machine_id expected_route g =
     (case map_of (rg_tunnels g) machine_id of
        None \<Rightarrow> (None, g)
      | Some h \<Rightarrow>
          if th_route (rg_handles g ! h) \<noteq> expected_route then (None, g)
          else (case begin_transition machine_id expected_route g of
              (False, g1) \<Rightarrow> (None, g1)
            | (True, g1) \<Rightarrow>
                (Some (\<lparr>mt_machine_id = machine_id, mt_route = expected_route, mt_armed = True\<rparr>, h,
                       map snd (filter (\<lambda>((m, _), _). m = machine_id) (rg_pending_claims g1))),
                 g1\<lparr>rg_tunnels := AList.delete machine_id (rg_tunnels g1)\<rparr>)))"

text \<open>The cleanup that follows: whether everything it waits for has completed.\<close>

definition cleanup_completed :: "nat \<Rightarrow> nat list \<Rightarrow> relay_registry \<Rightarrow> bool" where
  "cleanup_completed h tokens g \<longleftrightarrow> th_cleanup_complete (rg_handles g ! h) \<and> list_all (\<lambda>t. rg_tokens g ! t) tokens"

definition drop_transition :: "machine_transition \<Rightarrow> relay_registry \<Rightarrow> relay_registry" where
  "drop_transition mt g = (if mt_armed mt then g\<lparr>rg_hard_fenced := True\<rparr> else g)"

definition await_machine_transition ::
  "bool \<Rightarrow> bool \<Rightarrow> machine_transition \<Rightarrow> nat \<Rightarrow> nat list \<Rightarrow> relay_registry \<Rightarrow> machine_transition option \<times> relay_registry" where
  "await_machine_transition timed_out lease_ok mt h tokens g =
     (if timed_out \<or> \<not> cleanup_completed h tokens g \<or> \<not> lease_ok then (None, drop_transition mt g) else (Some mt, g))"

definition finish_machine_transition :: "uuid \<Rightarrow> route_identity \<Rightarrow> relay_registry \<Rightarrow> relay_registry" where
  "finish_machine_transition machine_id route g =
     (let handle = map_of (rg_tunnels g) machine_id;
          g1 = g\<lparr>rg_tunnels := AList.delete machine_id (rg_tunnels g)\<rparr>;
          g2 = (if rg_owner_exits g1 machine_id = Some (Transitioning route)
                then g1\<lparr>rg_owner_exits := (rg_owner_exits g1)(machine_id := None)\<rparr> else g1)
      in case handle of None \<Rightarrow> g2 | Some h \<Rightarrow> close_dispatch h g2)"

text \<open>\<open>MachineTransition::finish\<close>; \<open>released\<close> is the result of \<open>release_owner\<close> when it is called.\<close>

definition transition_finish ::
  "bool \<Rightarrow> relay_error + unit \<Rightarrow> machine_transition \<Rightarrow> relay_registry \<Rightarrow> (relay_error + unit) \<times> relay_registry" where
  "transition_finish committed released mt g =
     (if \<not> committed \<and> \<not> is_ok released then (Err R_Fenced, g)
      else (Ok (), finish_machine_transition (mt_machine_id mt) (mt_route mt) g))"

definition transition_hard_fence :: "relay_registry \<Rightarrow> relay_registry" where
  "transition_hard_fence g = g\<lparr>rg_hard_fenced := True\<rparr>"

section \<open>Claims and lookups\<close>

definition reserve_claim :: "bool \<Rightarrow> uuid \<Rightarrow> uuid \<Rightarrow> relay_registry \<Rightarrow> (relay_error + unit) \<times> relay_registry" where
  "reserve_claim ready machine_id connection_id g =
     (if \<not> ready then (Err R_Fenced, g)
      else if rg_owner_exits g machine_id \<noteq> None \<or> map_of (rg_tunnels g) machine_id \<noteq> None
              \<or> map_of (rg_pending_claims g) (machine_id, connection_id) \<noteq> None
      then (Err R_OwnerConflict, g)
      else (Ok (), g\<lparr>rg_pending_claims := AList.update (machine_id, connection_id) (length (rg_tokens g)) (rg_pending_claims g),
                     rg_tokens := rg_tokens g @ [False]\<rparr>))"

definition complete_claim :: "uuid \<Rightarrow> uuid \<Rightarrow> relay_registry \<Rightarrow> relay_registry" where
  "complete_claim machine_id connection_id g =
     (case map_of (rg_pending_claims g) (machine_id, connection_id) of
        None \<Rightarrow> g
      | Some t \<Rightarrow> g\<lparr>rg_pending_claims := AList.delete (machine_id, connection_id) (rg_pending_claims g),
                    rg_tokens := (rg_tokens g)[t := True]\<rparr>)"

definition install_reserved :: "bool \<Rightarrow> uuid \<Rightarrow> uuid \<Rightarrow> nat \<Rightarrow> relay_registry \<Rightarrow> (relay_error + unit) \<times> relay_registry" where
  "install_reserved ready machine_id connection_id h g =
     (if \<not> ready then (Err R_Fenced, g)
      else if rg_owner_exits g machine_id \<noteq> None \<or> map_of (rg_tunnels g) machine_id \<noteq> None
              \<or> map_of (rg_pending_claims g) (machine_id, connection_id) = None
      then (Err R_OwnerConflict, g)
      else (Ok (), complete_claim machine_id connection_id (g\<lparr>rg_tunnels := AList.update machine_id h (rg_tunnels g)\<rparr>)))"

definition finish_pending :: "uuid \<Rightarrow> uuid \<Rightarrow> relay_registry \<Rightarrow> relay_registry" where
  "finish_pending = complete_claim"

definition registry_open_stream :: "bool \<Rightarrow> uuid \<Rightarrow> relay_registry \<Rightarrow> relay_error + nat" where
  "registry_open_stream lease_ok machine_id g =
     (if \<not> lease_ok then Err R_Fenced else ok_or (map_of (rg_tunnels g) machine_id) R_Unavailable)"

definition is_connected :: "uuid \<Rightarrow> relay_registry \<Rightarrow> bool" where
  "is_connected machine_id g = (case map_of (rg_tunnels g) machine_id of
     None \<Rightarrow> False | Some h \<Rightarrow> \<not> th_barrier_cancelled (rg_handles g ! h))"

definition route_fence :: "bool \<Rightarrow> uuid \<Rightarrow> route_identity \<Rightarrow> relay_registry \<Rightarrow> nat option" where
  "route_fence lease_ok machine_id route g =
     (if \<not> lease_ok then None
      else (case map_of (rg_tunnels g) machine_id of
        None \<Rightarrow> None
      | Some h \<Rightarrow> if th_route (rg_handles g ! h) \<noteq> route \<or> th_barrier_cancelled (rg_handles g ! h) then None else Some h))"

definition is_current_route :: "bool \<Rightarrow> uuid \<Rightarrow> route_identity \<Rightarrow> relay_registry \<Rightarrow> bool" where
  "is_current_route ready machine_id route g \<longleftrightarrow> ready \<and> (case map_of (rg_tunnels g) machine_id of
     None \<Rightarrow> False | Some h \<Rightarrow> th_route (rg_handles g ! h) = route \<and> \<not> th_barrier_cancelled (rg_handles g ! h))"

text \<open>\<open>close_all\<close> drains the table under the lock and then closes the drained handles.\<close>

definition close_all :: "relay_registry \<Rightarrow> relay_registry" where
  "close_all g = fold close_dispatch (map snd (rg_tunnels g)) (g\<lparr>rg_tunnels := []\<rparr>)"

section \<open>A tunnel's life around the registry\<close>

text \<open>The database outcomes of \<open>claim_owner\<close> and \<open>release_owner\<close> are arguments here.\<close>

definition claim_reserved_owner ::
  "bool \<Rightarrow> (relay_error + int) \<Rightarrow> uuid \<Rightarrow> uuid \<Rightarrow> relay_registry \<Rightarrow> (relay_error + int) \<times> relay_registry" where
  "claim_reserved_owner ready claimed machine_id connection_id g =
     (case reserve_claim ready machine_id connection_id g of
        (Inl e, g1) \<Rightarrow> (Err e, g1)
      | (Inr _, g1) \<Rightarrow>
          (case claimed of
             Inr connection_epoch \<Rightarrow> (Ok connection_epoch, g1)
           | Inl e \<Rightarrow> (Err e, finish_pending machine_id connection_id g1)))"

definition tunnel_install ::
  "bool \<Rightarrow> (relay_error + unit) \<Rightarrow> uuid \<Rightarrow> uuid \<Rightarrow> route_identity \<Rightarrow> relay_registry \<Rightarrow> (relay_error + nat) \<times> relay_registry" where
  "tunnel_install ready released machine_id connection_id route g =
     (case alloc_handle route g of (h, g1) \<Rightarrow>
        (case install_reserved ready machine_id connection_id h g1 of
           (Inr _, g2) \<Rightarrow> (Ok h, g2)
         | (Inl e, g2) \<Rightarrow>
             (let g3 = finish_pending machine_id connection_id (close_dispatch h g2)
              in case released of Inl e' \<Rightarrow> (Err e', g3) | Inr _ \<Rightarrow> (Err e, g3))))"

definition complete_tunnel_owner_cleanup ::
  "(relay_error + unit) \<Rightarrow> uuid \<Rightarrow> nat \<Rightarrow> relay_registry \<Rightarrow> (relay_error + unit) \<times> relay_registry" where
  "complete_tunnel_owner_cleanup released machine_id h g =
     (let route = th_route (rg_handles g ! h)
      in case begin_owner_release machine_id route g of
        (Inl e, g1) \<Rightarrow> (Err e, g1)
      | (Inr decision, g1) \<Rightarrow>
          (let g2 = cancel_cleanup_token h g1
           in case decision of
             Defer \<Rightarrow> (Ok (), g2)
           | Release \<Rightarrow> (released, finish_owner_release machine_id (ri_connection_id route) route g2)))"

section \<open>Interleavings\<close>

datatype registry_op =
    Op_alloc route_identity
  | Op_close nat
  | Op_cleanup nat
  | Op_release_begin uuid route_identity
  | Op_release_finish uuid uuid route_identity
  | Op_transition uuid route_identity
  | Op_transition_finish uuid route_identity
  | Op_reserve bool uuid uuid
  | Op_install bool uuid uuid nat
  | Op_finish_pending uuid uuid
  | Op_close_all
  | Op_hard_fence

fun registry_step :: "registry_op \<Rightarrow> relay_registry \<Rightarrow> relay_registry" where
  "registry_step (Op_alloc r) g = snd (alloc_handle r g)"
| "registry_step (Op_close h) g = close_dispatch h g"
| "registry_step (Op_cleanup h) g = cancel_cleanup_token h g"
| "registry_step (Op_release_begin m r) g = snd (begin_owner_release m r g)"
| "registry_step (Op_release_finish m c r) g = finish_owner_release m c r g"
| "registry_step (Op_transition m r) g = snd (begin_machine_transition m r g)"
| "registry_step (Op_transition_finish m r) g = finish_machine_transition m r g"
| "registry_step (Op_reserve b m c) g = snd (reserve_claim b m c g)"
| "registry_step (Op_install b m c h) g = snd (install_reserved b m c h g)"
| "registry_step (Op_finish_pending m c) g = finish_pending m c g"
| "registry_step Op_close_all g = close_all g"
| "registry_step Op_hard_fence g = transition_hard_fence g"

lemmas registry_defs = alloc_handle_def close_dispatch_def cancel_cleanup_token_def on_handle_def begin_owner_release_def
  finish_owner_release_def state_finish_owner_release_def begin_machine_transition_def begin_transition_def
  finish_machine_transition_def reserve_claim_def install_reserved_def finish_pending_def complete_claim_def
  transition_hard_fence_def Let_def

lemma fold_close_frame:
  "rg_tunnels (fold close_dispatch hs g) = rg_tunnels g \<and> rg_owner_exits (fold close_dispatch hs g) = rg_owner_exits g
   \<and> rg_pending_claims (fold close_dispatch hs g) = rg_pending_claims g \<and> rg_tokens (fold close_dispatch hs g) = rg_tokens g
   \<and> length (rg_handles (fold close_dispatch hs g)) = length (rg_handles g)"
  by (induction hs arbitrary: g) (auto simp: close_dispatch_def on_handle_def)

subsection \<open>The registry invariant\<close>

text \<open>A machine in transition has no tunnel, and the token of a pending claim is its own and not yet
  completed.\<close>

definition registry_inv :: "relay_registry \<Rightarrow> bool" where
  "registry_inv g \<longleftrightarrow>
     (\<forall>m r. rg_owner_exits g m = Some (Transitioning r) \<longrightarrow> map_of (rg_tunnels g) m = None)
   \<and> distinct (map fst (rg_pending_claims g)) \<and> distinct (map snd (rg_pending_claims g))
   \<and> list_all (\<lambda>(_, t). t < length (rg_tokens g) \<and> \<not> rg_tokens g ! t) (rg_pending_claims g)"

lemma registry_inv_empty: "registry_inv registry_empty"
  by (simp add: registry_inv_def registry_empty_def)

lemma set_update_subset: "set (AList.update k v al) \<subseteq> insert (k, v) (set al)"
  by (induction al) auto

lemma distinct_values_key: "distinct (map snd al) \<Longrightarrow> (k, t) \<in> set al \<Longrightarrow> (k', t) \<in> set al \<Longrightarrow> k = k'"
  by (induction al) force+

lemma distinct_delete_values: "distinct (map snd al) \<Longrightarrow> distinct (map snd (AList.delete k al))"
  by (auto simp: AList.delete_eq distinct_map intro: inj_on_subset)

lemma complete_claim_inv:
  assumes "registry_inv g"
  shows "registry_inv (complete_claim m c g)"
proof (cases "map_of (rg_pending_claims g) (m, c)")
  case (Some t)
  have ne: "t' \<noteq> t" if "(k, t') \<in> set (AList.delete (m, c) (rg_pending_claims g))" for k t'
  proof -
    from that have k: "k \<noteq> (m, c)" "(k, t') \<in> set (rg_pending_claims g)" by (auto simp: AList.delete_eq)
    with map_of_SomeD [OF Some] assms show ?thesis
      by (auto simp: registry_inv_def dest: distinct_values_key)
  qed
  have old: "u < length (rg_tokens g) \<and> \<not> rg_tokens g ! u" if "(k, u) \<in> set (AList.delete (m, c) (rg_pending_claims g))" for k u
    using that assms by (fastforce simp: list_all_iff registry_inv_def AList.delete_eq)
  have "list_all (\<lambda>(_, u). u < length (rg_tokens g) \<and> \<not> (rg_tokens g)[t := True] ! u)
      (AList.delete (m, c) (rg_pending_claims g))"
    unfolding list_all_iff
  proof (intro ballI)
    fix x assume x: "x \<in> set (AList.delete (m, c) (rg_pending_claims g))"
    obtain k u where "x = (k, u)" by fastforce
    with x old [of k u] ne [of k u] show "case x of (_, u) \<Rightarrow> u < length (rg_tokens g) \<and> \<not> (rg_tokens g)[t := True] ! u"
      by simp
  qed
  moreover have "distinct (map fst (AList.delete (m, c) (rg_pending_claims g)))"
    "distinct (map snd (AList.delete (m, c) (rg_pending_claims g)))"
    using assms by (auto simp: registry_inv_def intro: distinct_delete distinct_delete_values)
  ultimately show ?thesis using Some assms by (simp add: registry_inv_def complete_claim_def)
qed (use assms in \<open>simp add: complete_claim_def\<close>)

lemma reserve_claim_inv:
  assumes "registry_inv g"
  shows "registry_inv (snd (reserve_claim b m c g))"
proof -
  have new: "length (rg_tokens g) \<notin> set (map snd (rg_pending_claims g))"
    using assms by (auto simp: registry_inv_def list_all_iff)
  have upd: "x = ((m, c), length (rg_tokens g)) \<or> x \<in> set (rg_pending_claims g)"
    if "x \<in> set (AList.update (m, c) (length (rg_tokens g)) (rg_pending_claims g))" for x
    using that set_update_subset by fast
  show ?thesis
    using assms new
    by (auto simp: registry_inv_def reserve_claim_def list_all_iff nth_append distinct_update distinct_update_values
        dest!: upd)
qed

lemma registry_step_inv: "registry_inv g \<Longrightarrow> registry_inv (registry_step x g)"
proof (cases x)
  case (Op_install b m c h)
  assume inv: "registry_inv g"
  show ?thesis
  proof (cases "fst (install_reserved b m c h g) = Ok ()")
    case True
    then have "rg_owner_exits g m = None" by (auto simp: install_reserved_def split: if_splits)
    with inv have "registry_inv (g\<lparr>rg_tunnels := AList.update m h (rg_tunnels g)\<rparr>)"
      by (auto simp: registry_inv_def update_conv)
    with True Op_install show ?thesis by (auto simp: install_reserved_def complete_claim_inv split: if_splits)
  qed (use inv Op_install in \<open>auto simp: install_reserved_def split: if_splits\<close>)
next
  case (Op_reserve b m c)
  assume "registry_inv g"
  with Op_reserve show ?thesis by (simp add: reserve_claim_inv)
next
  case (Op_finish_pending m c)
  assume "registry_inv g"
  with Op_finish_pending show ?thesis by (simp add: finish_pending_def complete_claim_inv)
next
  case Op_close_all
  assume "registry_inv g"
  with Op_close_all show ?thesis by (simp add: close_all_def registry_inv_def fold_close_frame)
qed (auto simp: registry_inv_def registry_defs delete_conv split: option.splits owner_exit_state.splits if_splits)

interpretation registry: step_invariant registry_step "\<lambda>_. True" registry_inv
  by unfold_locales (rule registry_step_inv)

subsection \<open>Closed handles stay closed\<close>

definition handle_closed :: "nat \<Rightarrow> relay_registry \<Rightarrow> bool" where
  "handle_closed h g \<longleftrightarrow> h < length (rg_handles g) \<and> \<not> th_dispatch_open (rg_handles g ! h)
     \<and> th_barrier_cancelled (rg_handles g ! h)"

lemma on_handle_closed:
  assumes "handle_closed h g" and "\<And>t. \<not> th_dispatch_open t \<and> th_barrier_cancelled t \<Longrightarrow> \<not> th_dispatch_open (f t) \<and> th_barrier_cancelled (f t)"
  shows "handle_closed h (on_handle i f g)"
  using assms by (cases "i = h") (auto simp: handle_closed_def on_handle_def)

lemma close_dispatch_closed: "handle_closed h g \<Longrightarrow> handle_closed h (close_dispatch i g)"
  unfolding close_dispatch_def by (rule on_handle_closed) auto

lemma fold_close_closed: "handle_closed h g \<Longrightarrow> handle_closed h (fold close_dispatch hs g)"
  by (induction hs arbitrary: g) (auto intro: close_dispatch_closed)

lemma handle_closed_frame: "rg_handles g' = rg_handles g \<Longrightarrow> handle_closed h g' = handle_closed h g"
  by (simp add: handle_closed_def)

lemma registry_step_closed:
  assumes "handle_closed h g"
  shows "handle_closed h (registry_step x g)"
proof (cases x)
  case (Op_alloc r)
  with assms show ?thesis by (auto simp: alloc_handle_def handle_closed_def nth_append)
next
  case (Op_close i)
  with assms show ?thesis by (simp add: close_dispatch_closed)
next
  case (Op_cleanup i)
  with assms show ?thesis by (simp add: cancel_cleanup_token_def on_handle_closed)
next
  case (Op_transition_finish m r)
  have "handle_closed h (g\<lparr>rg_tunnels := t, rg_owner_exits := e\<rparr>)" "handle_closed h (g\<lparr>rg_tunnels := t\<rparr>)" for t e
    using assms by (simp_all add: handle_closed_def)
  with Op_transition_finish show ?thesis
    by (auto simp: finish_machine_transition_def Let_def split: option.splits intro: close_dispatch_closed)
next
  case Op_close_all
  have "handle_closed h (g\<lparr>rg_tunnels := []\<rparr>)" using assms by (simp add: handle_closed_def)
  with Op_close_all show ?thesis by (simp add: close_all_def fold_close_closed)
qed (use assms in \<open>auto simp: registry_defs handle_closed_def split: option.splits owner_exit_state.splits if_splits\<close>)

interpretation closed: step_invariant registry_step "\<lambda>_. True" "handle_closed h" for h
  by unfold_locales (rule registry_step_closed)

lemma closed_refuses: "handle_closed h g \<Longrightarrow> fence_dispatch b h g \<noteq> Ok ()"
  by (simp add: handle_closed_def fence_dispatch_def)

subsection \<open>An owner exit in progress\<close>

fun ends_exit :: "uuid \<Rightarrow> owner_exit_state \<Rightarrow> registry_op \<Rightarrow> bool" where
  "ends_exit m (Releasing r) (Op_release_finish m' c r') \<longleftrightarrow> m' = m \<and> r' = r"
| "ends_exit m (Transitioning r) (Op_transition_finish m' r') \<longleftrightarrow> m' = m \<and> r' = r"
| "ends_exit m x y = False"

lemma exit_kept:
  assumes "rg_owner_exits g m = Some x" and "\<not> ends_exit m x op"
  shows "rg_owner_exits (registry_step op g) m = Some x"
  using assms
  by (cases op; cases x)
     (auto simp: registry_defs close_all_def fold_close_frame split: option.splits owner_exit_state.splits if_splits)

text \<open>While a transition of \<open>m\<close> is in progress, its pending claims are among those it waits for.\<close>

definition quiescing :: "uuid \<Rightarrow> route_identity \<Rightarrow> nat list \<Rightarrow> relay_registry \<Rightarrow> bool" where
  "quiescing m r tokens g \<longleftrightarrow> registry_inv g \<and> rg_owner_exits g m = Some (Transitioning r)
     \<and> (\<forall>c t. map_of (rg_pending_claims g) (m, c) = Some t \<longrightarrow> t \<in> set tokens)"

lemma quiescing_step:
  assumes "\<not> ends_exit m (Transitioning r) op" and "quiescing m r tokens g"
  shows "quiescing m r tokens (registry_step op g)"
proof -
  have "rg_owner_exits (registry_step op g) m = Some (Transitioning r)"
    using assms by (intro exit_kept) (auto simp: quiescing_def)
  moreover have "map_of (rg_pending_claims g) (m, c) = Some t"
    if "map_of (rg_pending_claims (registry_step op g)) (m, c) = Some t" for c t
  proof (cases op)
    case Op_close_all
    with that show ?thesis by (simp add: close_all_def fold_close_frame)
  next
    case (Op_reserve b m' c')
    with that assms(2) show ?thesis
      by (cases "m' = m") (auto simp: reserve_claim_def quiescing_def update_conv' split: if_splits)
  qed (use that in \<open>auto simp: registry_defs delete_conv' split: option.splits owner_exit_state.splits if_splits\<close>)
  ultimately show ?thesis using assms(2) registry_step_inv [of g op] by (auto simp: quiescing_def)
qed

interpretation transition: step_invariant registry_step "\<lambda>op. \<not> ends_exit m (Transitioning r) op" "quiescing m r tokens" for m r tokens
  by unfold_locales (rule quiescing_step)

lemma begin_transition_quiescing:
  assumes "registry_inv g" and "begin_machine_transition m r g = (Some (mt, h, tokens), g1)"
  shows "quiescing m r tokens g1"
proof -
  have g1: "g1 = registry_step (Op_transition m r) g" using assms(2) by simp
  have "rg_owner_exits g1 m = Some (Transitioning r)"
    and tk: "tokens = map snd (filter (\<lambda>((m', _), _). m' = m) (rg_pending_claims g1))"
    using assms(2) by (auto simp: begin_machine_transition_def begin_transition_def split: option.splits if_splits)
  moreover have "t \<in> set tokens" if "map_of (rg_pending_claims g1) (m, c) = Some t" for c t
    using map_of_SomeD [OF that] by (force simp: tk)
  ultimately show ?thesis using registry_step_inv [OF assms(1), of "Op_transition m r"] g1 by (auto simp: quiescing_def)
qed

lemma step_tunnel_kept:
  assumes "map_of (rg_tunnels g) m = Some h"
  shows "map_of (rg_tunnels (registry_step op g)) m = None \<or> map_of (rg_tunnels (registry_step op g)) m = Some h"
  using assms
  by (cases op)
     (auto simp: registry_defs close_all_def fold_close_frame update_conv' delete_conv' split: option.splits owner_exit_state.splits if_splits)

section \<open>Properties\<close>

text \<open>A machine transition quiesces its machine: once it has been entered and, after any interleaving
  of other registry activity, its cleanup is accepted, no claim for the machine is pending, no tunnel
  serves it, and nothing can be dispatched any more through the fenced tunnel.\<close>

lemma transition_quiesces_machine:
  assumes "registry_inv g" and "begin_machine_transition m r g = (Some (mt, h, tokens), g1)"
    and "h < length (rg_handles g)"
    and "list_all (\<lambda>op. \<not> ends_exit m (Transitioning r) op) ops"
    and "await_machine_transition timed_out lease_ok mt h tokens (fold registry_step ops (close_dispatch h g1)) = (Some mt', g2)"
  shows "map_of (rg_pending_claims g2) (m, c) = None \<and> map_of (rg_tunnels g2) m = None
    \<and> fence_dispatch lease_ok' h g2 \<noteq> Ok ()"
proof -
  let ?ops = "Op_close h # ops"
  have g2: "g2 = fold registry_step ?ops g1" and fin: "cleanup_completed h tokens g2"
    using assms(5) by (auto simp: await_machine_transition_def split: if_splits)
  have "quiescing m r tokens g2"
    unfolding g2 by (rule transition.run) (use assms(4) begin_transition_quiescing [OF assms(1,2)] in auto)
  moreover have "rg_handles g1 = rg_handles g"
    using assms(2) by (auto simp: begin_machine_transition_def begin_transition_def split: option.splits if_splits)
  then have "handle_closed h (close_dispatch h g1)"
    using assms(3) by (simp add: close_dispatch_def on_handle_def handle_closed_def)
  then have "handle_closed h g2" unfolding g2 by (simp add: closed.run)
  ultimately show ?thesis
    using fin closed_refuses [of h g2 lease_ok']
    by (auto simp: quiescing_def registry_inv_def cleanup_completed_def list_all_iff dest: map_of_SomeD)
       (metis (no_types, lifting) case_prodD map_of_SomeD not_Some_eq)
qed

definition sample_registry_state :: relay_registry where
  "sample_registry_state = snd (install_reserved True 5 9 0 (snd (reserve_claim True 5 9 (snd (alloc_handle (sample_route 1) registry_empty)))))"

theorem transition_quiesces_machine_witness:
  "(case begin_machine_transition 5 (sample_route 1) sample_registry_state of
      (Some (mt, h, tokens), g1) \<Rightarrow>
        (case await_machine_transition False True mt h tokens (fold registry_step [Op_cleanup h] (close_dispatch h g1)) of
           (Some mt', g2) \<Rightarrow> fence_dispatch True h g2 \<noteq> Ok () | (None, g2) \<Rightarrow> False)
    | (None, g1) \<Rightarrow> False)"
proof -
  have inv: "registry_inv sample_registry_state"
    unfolding sample_registry_state_def
    using registry.run [of "[Op_alloc (sample_route 1), Op_reserve True 5 9, Op_install True 5 9 0]", OF _ registry_inv_empty] by simp
  let ?mt = "\<lparr>mt_machine_id = 5, mt_route = sample_route 1, mt_armed = True\<rparr>"
  have beg: "begin_machine_transition 5 (sample_route 1) sample_registry_state
      = (Some (?mt, 0, []), snd (begin_machine_transition 5 (sample_route 1) sample_registry_state))"
    by (simp add: sample_registry_state_def registry_defs registry_empty_def tunnel_handle_new_def)
  have len: "0 < length (rg_handles sample_registry_state)"
    by (simp add: sample_registry_state_def registry_defs registry_empty_def)
  let ?g = "fold registry_step [Op_cleanup 0] (close_dispatch 0 (snd (begin_machine_transition 5 (sample_route 1) sample_registry_state)))"
  have "cleanup_completed 0 [] ?g"
    by (simp add: sample_registry_state_def registry_defs registry_empty_def tunnel_handle_new_def cleanup_completed_def)
  then have aw: "await_machine_transition False True ?mt 0 [] ?g = (Some ?mt, ?g)"
    by (simp only: await_machine_transition_def) simp
  have "fence_dispatch True 0 ?g \<noteq> Ok ()"
    using transition_quiesces_machine [OF inv beg len _ aw, of 1 True] by (simp only: list.pred_inject ends_exit.simps) blast
  then show ?thesis by (subst beg) (simp only: option.case prod.case aw not_False_eq_True)
qed

text \<open>At most one exit owns a machine: while a transition or a release is in progress, no operation
  but its own completion removes it, and until then a second transition, another release, a new claim
  and an installation for that machine are all refused (a release of the transitioning route itself is
  told to defer).\<close>

lemma owner_exit_is_exclusive:
  assumes "rg_owner_exits g m = Some x"
  shows "(ends_exit m x op \<or> rg_owner_exits (registry_step op g) m = Some x)
    \<and> fst (begin_machine_transition m r g) = None
    \<and> fst (begin_owner_release m r g) = (if x = Transitioning r then Ok Defer else Err R_Fenced)
    \<and> \<not> is_ok (fst (reserve_claim ready m c g)) \<and> \<not> is_ok (fst (install_reserved ready m c h g))"
  using assms exit_kept [OF assms, of op]
  by (auto simp: begin_machine_transition_def begin_transition_def begin_owner_release_def reserve_claim_def install_reserved_def
      split: option.splits owner_exit_state.splits)

theorem owner_exit_is_exclusive_witness:
  "fst (begin_machine_transition 5 (sample_route 2) (snd (begin_owner_release 5 (sample_route 1) registry_empty))) = None"
proof -
  have "rg_owner_exits (snd (begin_owner_release 5 (sample_route 1) registry_empty)) 5 = Some (Releasing (sample_route 1))"
    by (simp add: begin_owner_release_def registry_empty_def)
  from owner_exit_is_exclusive [OF this] show ?thesis by blast
qed

text \<open>A tunnel that serves a machine is never replaced by another one without first being removed:
  no single registry operation exchanges the handle.\<close>

lemma tunnel_never_replaced:
  assumes "map_of (rg_tunnels g) m = Some h"
  shows "map_of (rg_tunnels (registry_step op g)) m \<in> {None, Some h}"
  using step_tunnel_kept [OF assms, of op] by blast

theorem tunnel_never_replaced_witness:
  "map_of (rg_tunnels sample_registry_state) 5 = Some 0
   \<and> map_of (rg_tunnels (registry_step (Op_install True 5 9 1) sample_registry_state)) 5 \<in> {None, Some 0}"
proof -
  have "map_of (rg_tunnels sample_registry_state) 5 = Some 0"
    by (simp add: sample_registry_state_def registry_defs registry_empty_def)
  with tunnel_never_replaced [OF this, of "Op_install True 5 9 1"] show ?thesis by simp
qed

text \<open>A handle once closed stays closed under every later registry operation, and no work is ever
  dispatched through its fence again.\<close>

lemma closed_route_never_dispatches:
  assumes "h < length (rg_handles g)"
  shows "fence_dispatch lease_ok h (fold registry_step ops (close_dispatch h g)) \<noteq> Ok ()"
proof -
  have "handle_closed h (close_dispatch h g)" using assms by (simp add: close_dispatch_def on_handle_def handle_closed_def)
  then show ?thesis by (intro closed_refuses closed.run) auto
qed

theorem closed_route_never_dispatches_witness:
  "fence_dispatch True 0 sample_registry_state = Ok ()
   \<and> fence_dispatch True 0 (fold registry_step [Op_alloc (sample_route 2)] (close_dispatch 0 sample_registry_state)) \<noteq> Ok ()"
proof -
  have "0 < length (rg_handles sample_registry_state)"
    by (simp add: sample_registry_state_def registry_defs registry_empty_def)
  from closed_route_never_dispatches [OF this, of True "[Op_alloc (sample_route 2)]"] show ?thesis
    by (simp add: sample_registry_state_def registry_defs registry_empty_def fence_dispatch_def tunnel_handle_new_def)
qed

text \<open>An installation that fails, for whatever reason and whatever the release of the claimed ownership
  answers, leaves the new handle closed, the pending claim completed and the machine's tunnel entry as
  it was.\<close>

lemma failed_install_cleans_up:
  assumes "registry_inv g" and "tunnel_install ready released m c route g = (Err e, g')"
  shows "handle_closed (length (rg_handles g)) g' \<and> map_of (rg_pending_claims g') (m, c) = None
    \<and> map_of (rg_tunnels g') m = map_of (rg_tunnels g) m"
  using assms
  by (auto simp: tunnel_install_def registry_defs handle_closed_def nth_append delete_conv split: option.splits if_splits sum.splits)

theorem failed_install_cleans_up_witness:
  "(case tunnel_install False (Ok ()) 5 9 (sample_route 3) (snd (reserve_claim True 5 9 registry_empty)) of
      (Inl e, g') \<Rightarrow> e = R_Fenced \<and> map_of (rg_pending_claims g') (5, 9) = None | (Inr h, g') \<Rightarrow> False)"
proof -
  have inv: "registry_inv (snd (reserve_claim True 5 9 registry_empty))" by (rule reserve_claim_inv [OF registry_inv_empty])
  obtain g' where "tunnel_install False (Ok ()) 5 9 (sample_route 3) (snd (reserve_claim True 5 9 registry_empty)) = (Err R_Fenced, g')"
    by (simp add: tunnel_install_def registry_defs registry_empty_def)
  with failed_install_cleans_up [OF inv this] show ?thesis by simp
qed

end
