(* ===== verification/Attachment_Frames.thy ===== *)
theory Attachment_Frames
  imports Tmux_Control Relay_Registry
begin

text \<open>
  The wire side of a Browser attachment, \<open>crates/owlmux-server/src/attachment.rs\<close>: the frames both
  sides exchange, the validation of what a client sends, the attachment's view of the world and the
  primitives that write a frame, an operation result or a projection. The attachment runs as one task
  among others; what the others and the libraries answer is an environment \<open>att_env\<close> whose functions
  are indexed by the number of questions asked so far. JSON (\<open>serde_json\<close>) and base64 are library code
  and stay parameters of that environment.
\<close>

section \<open>Frames\<close>

datatype attachment_error = AE_ClientClosed | AE_Ssh | AE_Tmux | AE_TmuxIncompatible | AE_Protocol
  | AE_Unavailable | AE_RouteChanged

datatype wire_error = Wire_Closed | Wire_Protocol | Wire_Unavailable

datatype att_phase = Connecting | Selecting | Ready | PhaseFailed

datatype writer_role = Role_Observer | Role_Writer

datatype operation = O_WriterClaim | O_WriterTakeover | O_SessionRefresh | O_SessionCreate
  | O_WindowSelect | O_PaneSelect | O_PaneInput | O_ClientResize | O_WorkspaceRefresh

datatype public_outcome = PO_Succeeded | PO_Failed | PO_Ambiguous

datatype client_frame =
    F_WriterClaim (cf_request_id: uuid) (cf_connection_epoch: bytes) (cf_epoch: uuid) nat nat
  | F_WriterTakeover (cf_request_id: uuid) (cf_connection_epoch: bytes) (cf_epoch: uuid) nat nat
  | F_SessionSelect (cf_connection_epoch: bytes) (cf_epoch: uuid) bytes int
  | F_SessionRefresh (cf_request_id: uuid) (cf_connection_epoch: bytes) (cf_epoch: uuid)
  | F_SessionCreate (cf_request_id: uuid) (cf_connection_epoch: bytes) (cf_epoch: uuid) bytes
  | F_WorkspaceReturnToChooser (cf_connection_epoch: bytes) (cf_epoch: uuid)
  | F_WindowSelect (cf_request_id: uuid) (cf_connection_epoch: bytes) (cf_epoch: uuid) bytes
  | F_PaneSelect (cf_request_id: uuid) (cf_connection_epoch: bytes) (cf_epoch: uuid) bytes
  | F_PaneInput (cf_request_id: uuid) (cf_connection_epoch: bytes) (cf_epoch: uuid) bytes bytes
  | F_ClientResize (cf_request_id: uuid) (cf_connection_epoch: bytes) (cf_epoch: uuid) nat nat
  | F_WorkspaceRefresh (cf_request_id: uuid) (cf_connection_epoch: bytes) (cf_epoch: uuid)
  | F_WorkspaceDetach

datatype server_frame =
    S_Phase att_phase
  | S_SessionList bytes uuid bytes "bytes option" "session_summary list"
  | S_WriterState bytes uuid writer_role bool
  | S_OperationResult uuid operation public_outcome bytes bytes
  | S_Projection bytes uuid bytes int "window_summary list" window_projection "pane_projection list"
  | S_PaneSnapshot uuid bytes nat bool bytes
  | S_Output uuid bytes bytes
  | S_Error bytes bytes

fun audit_action :: "operation \<Rightarrow> bytes option" where
  "audit_action O_WriterClaim = Some ''writer_claim''"
| "audit_action O_WriterTakeover = Some ''writer_takeover''"
| "audit_action O_SessionCreate = Some ''tmux_session_create''"
| "audit_action O_WindowSelect = Some ''tmux_window_select''"
| "audit_action O_PaneSelect = Some ''tmux_pane_select''"
| "audit_action O_WorkspaceRefresh = Some ''tmux_projection_refresh''"
| "audit_action O_SessionRefresh = None"
| "audit_action O_PaneInput = None"
| "audit_action O_ClientResize = None"

fun audit_outcome :: "public_outcome \<Rightarrow> bytes" where
  "audit_outcome PO_Succeeded = ''success''"
| "audit_outcome PO_Failed = ''rejected''"
| "audit_outcome PO_Ambiguous = ''ambiguous''"

fun error_code :: "attachment_error \<Rightarrow> bytes" where
  "error_code AE_TmuxIncompatible = ''tmux_incompatible''"
| "error_code AE_Protocol = ''protocol_error''"
| "error_code _ = ''target_unavailable''"

fun error_message :: "attachment_error \<Rightarrow> bytes" where
  "error_message AE_TmuxIncompatible = ''Target tmux is incompatible.''"
| "error_message AE_Protocol = ''Attachment protocol failed closed.''"
| "error_message _ = ''Target is unavailable.''"

fun map_wire_error :: "wire_error \<Rightarrow> attachment_error" where
  "map_wire_error Wire_Closed = AE_ClientClosed"
| "map_wire_error Wire_Protocol = AE_Protocol"
| "map_wire_error Wire_Unavailable = AE_Unavailable"

definition map_tmux :: "tmux_error \<Rightarrow> attachment_error" where
  "map_tmux e = (if e = Tmux_Incompatible then AE_TmuxIncompatible else AE_Tmux)"

fun to_control_outcome :: "mutation_outcome \<Rightarrow> control_outcome" where
  "to_control_outcome Succeeded = CO_Succeeded"
| "to_control_outcome MFailed = CO_Failed"
| "to_control_outcome Ambiguous = CO_Ambiguous"

section \<open>Validation of client values\<close>

definition matches_connection_epoch :: "bytes \<Rightarrow> int \<Rightarrow> bool" where
  "matches_connection_epoch v expected \<longleftrightarrow>
     0 < expected \<and> parse_i64 v = Some expected \<and> v = show_int expected"

text \<open>\<open>columns\<close> and \<open>rows\<close> are \<open>u32\<close>; the product is taken in \<open>u64\<close>, where it cannot overflow.\<close>

definition valid_client_size :: "client_size \<Rightarrow> bool" where
  "valid_client_size sz \<longleftrightarrow>
     0 < cs_columns sz \<and> cs_columns sz \<le> ATTACHMENT_MAX_DIMENSION
     \<and> 0 < cs_rows sz \<and> cs_rows sz \<le> ATTACHMENT_MAX_DIMENSION
     \<and> cs_columns sz * cs_rows sz \<le> ATTACHMENT_MAX_GRID_CELLS"

definition valid_session_name :: "bytes \<Rightarrow> bool" where
  "valid_session_name v \<longleftrightarrow> v \<noteq> [] \<and> length v \<le> 64 \<and> str_trim v = v \<and> \<not> chars_any char_is_control v"

record workspace_state =
  wst_epoch :: uuid
  wst_connection_epoch :: int
  wst_windows :: "bytes set"
  wst_visible_panes :: "bytes set"
  wst_active_pane :: bytes

definition workspace_matches :: "workspace_state \<Rightarrow> bytes \<Rightarrow> uuid \<Rightarrow> bool" where
  "workspace_matches k connection_epoch workspace_epoch \<longleftrightarrow>
     workspace_epoch = wst_epoch k \<and> matches_connection_epoch connection_epoch (wst_connection_epoch k)"

section \<open>The world of an attachment task\<close>

datatype control_directive = Demote | Close

datatype write_fate = Written | WriteTimeout | WriteFailed wire_error

datatype demote_fate = NotDelivered | Unanswered | Answered control_outcome

datatype create_session_outcome = CS_Succeeded | CS_Failed | CS_Ambiguous

text \<open>What other tasks share with this one at some moment: the answers of \<open>lease.check()\<close> and
  \<open>lease.is_ready()\<close>, and the registry of tunnels.\<close>

record shared =
  sh_lease_ok :: bool
  sh_ready :: bool
  sh_relays :: relay_registry

record att_env =
  ae_shared :: "nat \<Rightarrow> shared"
  ae_to_string :: "server_frame \<Rightarrow> bytes option"
  ae_from_str :: "bytes \<Rightarrow> client_frame option"
  ae_b64_encode :: "bytes \<Rightarrow> bytes"
  ae_b64_decode :: "bytes \<Rightarrow> bytes option"
  ae_write :: "nat \<Rightarrow> write_fate"
  ae_pumps :: "nat \<Rightarrow> nat"
  ae_dispatch_free :: "nat \<Rightarrow> bool"
  ae_demote :: "nat \<Rightarrow> demote_fate"
  ae_expired :: "nat \<Rightarrow> bool"
  ae_route_closed :: "nat \<Rightarrow> bool"
  ae_uuid :: "nat \<Rightarrow> uuid"
  ae_stream_ok :: "nat \<Rightarrow> bool"
  ae_open_attempts :: "nat \<Rightarrow> nat"
  ae_permit :: "nat \<Rightarrow> bool"
  ae_probe :: "nat \<Rightarrow> bytes option"
  ae_create_session :: "nat \<Rightarrow> bytes \<Rightarrow> create_session_outcome option"
  ae_start_control :: "nat \<Rightarrow> bytes \<Rightarrow> int \<Rightarrow> control_child option"

text \<open>The state the task itself changes. \<open>aw_control\<close> and \<open>aw_workspace\<close> are the local variables of
  \<open>workspace\<close> and are set when a workspace starts; the logs record what left the task: complete frames,
  audit events, directives to other attachments, close codes and answers to demotion directives.\<close>

record att_world =
  aw_ticks :: nat
  aw_writers :: writer_registry
  aw_control :: control_adapter
  aw_workspace :: workspace_state
  aw_frames :: "server_frame list"
  aw_results :: "(operation \<times> public_outcome) list"
  aw_audit :: "(bytes \<times> bytes) list"
  aw_directives :: "(channel \<times> control_directive) list"
  aw_closed :: "(nat \<times> bytes) list"
  aw_answers :: "control_outcome list"

text \<open>The fixed identity of an attachment: its machine, its id, the tunnel handle its route fence guards
  (none before the owner route is fenced) and the sender of its control channel.\<close>

record att_id =
  ai_machine_id :: uuid
  ai_attachment_id :: uuid
  ai_fence :: "nat option"
  ai_control_tx :: channel

type_synonym 'a att = "(att_world, attachment_error, 'a) sr"

definition ask :: "(nat \<Rightarrow> 'a) \<Rightarrow> 'a att" where
  "ask f w = (Ok (f (aw_ticks w)), w\<lparr>aw_ticks := Suc (aw_ticks w)\<rparr>)"

definition adapter_result :: "(control_adapter, 'e, 'a) sr \<Rightarrow> ('e + 'a) att" where
  "adapter_result m w = (case m (aw_control w) of (r, c) \<Rightarrow> (Ok r, w\<lparr>aw_control := c\<rparr>))"

definition adapter_does :: "(control_adapter \<Rightarrow> 'a \<times> control_adapter) \<Rightarrow> 'a att" where
  "adapter_does f w = (case f (aw_control w) of (a, c) \<Rightarrow> (Ok a, w\<lparr>aw_control := c\<rparr>))"

text \<open>A call on the adapter whose error ends the attachment: \<open>.map_err(map_tmux)?\<close>.\<close>

definition adapter_try :: "'a ca \<Rightarrow> 'a att" where
  "adapter_try m = sr_bind (adapter_result m) (\<lambda>r. sr_lift (map_err map_tmux r))"

text \<open>\<open>scope.lock()\<close>: the guard operations of the writer scope at an address.\<close>

definition scope_at :: "nat \<Rightarrow> att_world \<Rightarrow> writer_scope" where
  "scope_at a w = wr_heap (aw_writers w) ! a"

definition writer_reads :: "nat \<Rightarrow> (writer_scope \<Rightarrow> 'a) \<Rightarrow> 'a att" where
  "writer_reads a f = sr_gets (\<lambda>w. f (scope_at a w))"

definition writer_does :: "nat \<Rightarrow> (writer_scope \<Rightarrow> writer_scope) \<Rightarrow> unit att" where
  "writer_does a f = sr_modify (\<lambda>w. w\<lparr>aw_writers := (aw_writers w)\<lparr>wr_heap :=
     (wr_heap (aw_writers w))[a := f (scope_at a w)]\<rparr>\<rparr>)"

definition direct :: "channel \<Rightarrow> control_directive \<Rightarrow> unit att" where
  "direct ch d = sr_modify (\<lambda>w. w\<lparr>aw_directives := aw_directives w @ [(ch, d)]\<rparr>)"

definition audit_event :: "bytes \<Rightarrow> bytes \<Rightarrow> unit att" where
  "audit_event action outcome = sr_modify (\<lambda>w. w\<lparr>aw_audit := aw_audit w @ [(action, outcome)]\<rparr>)"

section \<open>Writing frames\<close>

text \<open>\<open>RouteAttachmentSocket::send_text\<close> around the socket's own write: the route fence may refuse it. The
  result is \<open>None\<close> when the caller's timeout fires first.\<close>

definition send_text :: "att_env \<Rightarrow> att_id \<Rightarrow> server_frame \<Rightarrow> ((wire_error + unit) option) att" where
  "send_text E me frame =
     sr_bind (ask (ae_shared E)) (\<lambda>sh.
     case (case ai_fence me of None \<Rightarrow> Ok () | Some h \<Rightarrow> fence_dispatch (sh_lease_ok sh) h (sh_relays sh)) of
       Inl _ \<Rightarrow> sr_return (Some (Err Wire_Unavailable))
     | Inr _ \<Rightarrow> sr_bind (ask (ae_write E)) (\<lambda>fate. case fate of
         WriteTimeout \<Rightarrow> sr_return None
       | WriteFailed e \<Rightarrow> sr_return (Some (Err e))
       | Written \<Rightarrow> sr_bind (sr_modify (\<lambda>w. w\<lparr>aw_frames := aw_frames w @ [frame]\<rparr>)) (\<lambda>_. sr_return (Some (Ok ())))))"

definition write_result :: "(wire_error + unit) option \<Rightarrow> attachment_error + unit" where
  "write_result r = (case r of None \<Rightarrow> Err AE_Unavailable | Some x \<Rightarrow> map_err map_wire_error x)"

definition encode_frame :: "att_env \<Rightarrow> server_frame \<Rightarrow> attachment_error + bytes" where
  "encode_frame E frame = r_bind (ok_or (ae_to_string E frame) AE_Protocol) (\<lambda>encoded.
     if ATTACHMENT_MAX_FRAME_BYTES < length encoded then Err AE_Protocol else Ok encoded)"

definition send :: "att_env \<Rightarrow> att_id \<Rightarrow> server_frame \<Rightarrow> unit att" where
  "send E me frame = sr_bind (sr_lift (encode_frame E frame)) (\<lambda>_.
     sr_bind (send_text E me frame) (\<lambda>r. sr_lift (write_result r)))"

text \<open>\<open>send_with_control\<close>: while the write is in progress, target output is pumped into the adapter's
  queue; \<open>n\<close> counts the pump completions before the write completes.\<close>

fun pump_until_written :: "nat \<Rightarrow> unit att" where
  "pump_until_written 0 = sr_return ()"
| "pump_until_written (Suc n) = sr_bind (adapter_result pump_event) (\<lambda>r. case r of
       Inl (Failed e) \<Rightarrow> sr_throw (map_tmux e)
     | Inl Pending \<Rightarrow> sr_return ()
     | Inr _ \<Rightarrow> pump_until_written n)"

definition send_with_control :: "att_env \<Rightarrow> att_id \<Rightarrow> server_frame \<Rightarrow> unit att" where
  "send_with_control E me frame = sr_bind (sr_lift (encode_frame E frame)) (\<lambda>_.
     sr_bind (ask (ae_pumps E)) (\<lambda>n.
     sr_bind (pump_until_written n) (\<lambda>_.
     sr_bind (send_text E me frame) (\<lambda>r. sr_lift (write_result r)))))"

definition audit_operation :: "operation \<Rightarrow> public_outcome \<Rightarrow> unit att" where
  "audit_operation oper outcome =
     sr_bind (sr_modify (\<lambda>w. w\<lparr>aw_results := aw_results w @ [(oper, outcome)]\<rparr>)) (\<lambda>_.
     case audit_action oper of None \<Rightarrow> sr_return () | Some action \<Rightarrow> audit_event action (audit_outcome outcome))"

definition send_operation_result ::
  "att_env \<Rightarrow> att_id \<Rightarrow> uuid \<Rightarrow> operation \<Rightarrow> public_outcome \<Rightarrow> bytes \<Rightarrow> bytes \<Rightarrow> unit att" where
  "send_operation_result E me request_id oper outcome code message =
     sr_bind (audit_operation oper outcome) (\<lambda>_.
     send E me (S_OperationResult request_id oper outcome code message))"

definition send_writer_required :: "att_env \<Rightarrow> att_id \<Rightarrow> uuid \<Rightarrow> operation \<Rightarrow> unit att" where
  "send_writer_required E me request_id oper = send_operation_result E me request_id oper PO_Failed
     ''writer_required'' ''Only the current OwlMux Browser writer may perform this operation.''"

definition send_stale_operation :: "att_env \<Rightarrow> att_id \<Rightarrow> uuid \<Rightarrow> operation \<Rightarrow> unit att" where
  "send_stale_operation E me request_id oper = send_operation_result E me request_id oper PO_Failed
     ''stale_epoch'' ''The workspace changed before dispatch.''"

definition send_workspace_error :: "att_env \<Rightarrow> att_id \<Rightarrow> bytes \<Rightarrow> bytes \<Rightarrow> unit att" where
  "send_workspace_error E me code message = send E me (S_Error code message)"

definition close_code :: "bytes \<Rightarrow> nat" where
  "close_code code =
     (if code = ''protocol_error'' then ATTACHMENT_CLOSE_PROTOCOL_ERROR
      else if code = ''unauthenticated'' \<or> code = ''invalid_origin'' \<or> code = ''tmux_incompatible''
      then ATTACHMENT_CLOSE_POLICY_VIOLATION
      else ATTACHMENT_CLOSE_TEMPORARILY_UNAVAILABLE)"

text \<open>The close handshake itself may time out; a close is logged when it was attempted.\<close>

definition send_fatal_error :: "att_env \<Rightarrow> att_id \<Rightarrow> bytes \<Rightarrow> bytes \<Rightarrow> unit att" where
  "send_fatal_error E me code message =
     sr_bind (send E me (S_Phase PhaseFailed)) (\<lambda>_.
     sr_bind (send_workspace_error E me code message) (\<lambda>_.
     sr_bind (sr_modify (\<lambda>w. w\<lparr>aw_closed := aw_closed w @ [(close_code code, code)]\<rparr>)) (\<lambda>_.
     sr_bind (ask (ae_expired E)) (\<lambda>late. if late then sr_throw AE_Unavailable else sr_return ()))))"

definition send_writer_state :: "att_env \<Rightarrow> att_id \<Rightarrow> nat \<Rightarrow> uuid \<Rightarrow> unit att" where
  "send_writer_state E me a attachment_epoch =
     sr_bind (writer_reads a (\<lambda>s. (writer_view_of (ai_attachment_id me) s, wsc_route s))) (\<lambda>(view, route).
     send E me (S_WriterState (show_int (ri_connection_epoch route)) attachment_epoch
       (if wv_is_writer view then Role_Writer else Role_Observer) (wv_writer_available view)))"

section \<open>Receiving frames\<close>

definition decode_text_frame :: "att_env \<Rightarrow> bytes \<Rightarrow> attachment_error + client_frame" where
  "decode_text_frame E txt =
     (if ATTACHMENT_MAX_FRAME_BYTES < length txt then Err AE_Protocol else ok_or (ae_from_str E txt) AE_Protocol)"

definition receive :: "att_env \<Rightarrow> wire_error + bytes \<Rightarrow> attachment_error + client_frame" where
  "receive E msg = r_bind (map_err map_wire_error msg) (decode_text_frame E)"

definition decode_input :: "att_env \<Rightarrow> bytes \<Rightarrow> bytes option" where
  "decode_input E v =
     (if v = [] \<or> 1366 < length v then None
      else (case ae_b64_decode E v of
        None \<Rightarrow> None
      | Some bs \<Rightarrow> if bs = [] \<or> ATTACHMENT_MAX_INPUT_BYTES < length bs \<or> ae_b64_encode E bs \<noteq> v then None else Some bs))"

section \<open>Questions to the rest of the server\<close>

definition current_route :: "att_env \<Rightarrow> att_id \<Rightarrow> nat \<Rightarrow> bool att" where
  "current_route E me a =
     sr_bind (ask (ae_shared E)) (\<lambda>sh1. if \<not> sh_lease_ok sh1 then sr_return False
     else sr_bind (writer_reads a wsc_route) (\<lambda>route.
     sr_bind (ask (ae_shared E)) (\<lambda>sh2.
     sr_return (is_current_route (sh_ready sh2) (ai_machine_id me) route (sh_relays sh2)))))"

text \<open>\<open>relays.open_stream\<close>: the handle's route, when the tunnel also accepts the stream.\<close>

definition relays_open_stream :: "att_env \<Rightarrow> att_id \<Rightarrow> (route_identity option) att" where
  "relays_open_stream E me =
     sr_bind (ask (ae_shared E)) (\<lambda>sh.
     case registry_open_stream (sh_lease_ok sh) (ai_machine_id me) (sh_relays sh) of
       Inl _ \<Rightarrow> sr_return None
     | Inr h \<Rightarrow> sr_bind (ask (ae_stream_ok E)) (\<lambda>ok.
         sr_return (if ok then Some (th_route (rg_handles (sh_relays sh) ! h)) else None)))"

text \<open>\<open>open_relay_stream\<close> polls until a deadline; \<open>n\<close> is the number of further polls the deadline
  leaves.\<close>

fun open_relay_stream_from :: "nat \<Rightarrow> att_env \<Rightarrow> att_id \<Rightarrow> route_identity att" where
  "open_relay_stream_from n E me =
     sr_bind (relays_open_stream E me) (\<lambda>stream. case stream of
       Some route \<Rightarrow> sr_return route
     | None \<Rightarrow> (case n of
         0 \<Rightarrow> sr_throw AE_Unavailable
       | Suc m \<Rightarrow> sr_bind (ask (ae_shared E)) (\<lambda>sh.
           if \<not> sh_lease_ok sh then sr_throw AE_Unavailable else open_relay_stream_from m E me)))"

declare open_relay_stream_from.simps [simp del]

definition open_relay_stream :: "att_env \<Rightarrow> att_id \<Rightarrow> route_identity att" where
  "open_relay_stream E me = sr_bind (ask (ae_open_attempts E)) (\<lambda>n. open_relay_stream_from n E me)"

definition demote_writer :: "att_env \<Rightarrow> channel \<Rightarrow> control_outcome att" where
  "demote_writer E ch =
     sr_bind (ask (ae_demote E)) (\<lambda>fate. case fate of
       NotDelivered \<Rightarrow> sr_return CO_Ambiguous
     | Unanswered \<Rightarrow> sr_bind (direct ch Demote) (\<lambda>_. sr_return CO_Ambiguous)
     | Answered outcome \<Rightarrow> sr_bind (direct ch Demote) (\<lambda>_. sr_return outcome))"

section \<open>Installing a projection\<close>

text \<open>The 30 second limit around the installation may cut it short at any of its awaits. A cut inside
  \<open>hydrate\<close> would leave the adapter in an intermediate state, but the caller drops the adapter on this
  error, so the limit is checked in front of each await here.\<close>

definition within_limit :: "att_env \<Rightarrow> 'a att \<Rightarrow> 'a att" where
  "within_limit E m = sr_bind (ask (ae_expired E)) (\<lambda>late. if late then sr_throw AE_Unavailable else m)"

definition snapshot_frames :: "att_env \<Rightarrow> uuid \<Rightarrow> pane_snapshot \<Rightarrow> server_frame list" where
  "snapshot_frames E epoch snapshot =
     (let cs = chunks ATTACHMENT_MAX_TERMINAL_CHUNK_BYTES (sn_content snapshot)
      in if cs = [] then [S_PaneSnapshot epoch (sn_pane_id snapshot) 0 True []]
         else map (\<lambda>(i, chunk). S_PaneSnapshot epoch (sn_pane_id snapshot) i (i = length cs - 1) (ae_b64_encode E chunk))
                (enumerate 0 cs))"

definition send_all :: "att_env \<Rightarrow> att_id \<Rightarrow> server_frame list \<Rightarrow> unit att" where
  "send_all E me frames = sr_bind (sr_map (\<lambda>f. within_limit E (send_with_control E me f)) frames) (\<lambda>_. sr_return ())"

definition install_projection_inner :: "att_env \<Rightarrow> att_id \<Rightarrow> int \<Rightarrow> bytes \<Rightarrow> int \<Rightarrow> (workspace_state option) att" where
  "install_projection_inner E me connection_epoch session_id session_created =
     sr_bind (within_limit E (send E me (S_Phase Connecting))) (\<lambda>_.
     sr_bind (within_limit E (adapter_result (hydrate session_id session_created))) (\<lambda>hydrated. case hydrated of
       Inl e \<Rightarrow> if e = Tmux_Changed \<or> e = Tmux_Target \<or> e = Tmux_Ssh Ssh_Unavailable then sr_return None
               else sr_throw (map_tmux e)
     | Inr projection \<Rightarrow>
         sr_bind (ask (ae_uuid E)) (\<lambda>workspace_epoch.
         sr_bind (sr_lift (ok_or (map_option pp_pane_id (find pp_active (wk_panes projection))) AE_Protocol)) (\<lambda>active_pane.
         sr_bind (within_limit E (send_with_control E me (S_Projection (show_int connection_epoch) workspace_epoch
             session_id session_created (wk_windows projection) (wk_window projection) (wk_panes projection)))) (\<lambda>_.
         sr_bind (send_all E me (concat (map (snapshot_frames E workspace_epoch) (wk_snapshots projection)))) (\<lambda>_.
         sr_bind (within_limit E (send_with_control E me (S_Phase Ready))) (\<lambda>_.
         sr_return (Some \<lparr>wst_epoch = workspace_epoch, wst_connection_epoch = connection_epoch,
           wst_windows = set (map wsm_window_id (wk_windows projection)),
           wst_visible_panes = set (map pp_pane_id (wk_panes projection)),
           wst_active_pane = active_pane\<rparr>))))))))"

text \<open>\<open>install_projection\<close> is the inner function under its limit, which \<open>within_limit\<close> already carries.\<close>

definition install_projection :: "att_env \<Rightarrow> att_id \<Rightarrow> int \<Rightarrow> bytes \<Rightarrow> int \<Rightarrow> (workspace_state option) att" where
  "install_projection = install_projection_inner"

section \<open>What the primitives may change\<close>

lemma scope_at_simps [simp]:
  "scope_at a (w\<lparr>aw_ticks := n\<rparr>) = scope_at a w" "scope_at a (w\<lparr>aw_control := c\<rparr>) = scope_at a w"
  "scope_at a (w\<lparr>aw_workspace := k\<rparr>) = scope_at a w" "scope_at a (w\<lparr>aw_frames := fs\<rparr>) = scope_at a w"
  "scope_at a (w\<lparr>aw_results := rs\<rparr>) = scope_at a w" "scope_at a (w\<lparr>aw_audit := as\<rparr>) = scope_at a w"
  "scope_at a (w\<lparr>aw_directives := ds\<rparr>) = scope_at a w" "scope_at a (w\<lparr>aw_closed := cl\<rparr>) = scope_at a w"
  "scope_at a (w\<lparr>aw_answers := os\<rparr>) = scope_at a w"
  by (simp_all add: scope_at_def)

lemma wp_reads [wp_simps]: "sr_wp (writer_reads a f) Q R w = Q (f (scope_at a w)) w"
  by (simp add: writer_reads_def wp_simps)

lemma wp_ask: "(\<And>v n. Q v (w\<lparr>aw_ticks := n\<rparr>)) \<Longrightarrow> sr_wp (ask f) Q R w"
  by (simp add: ask_def sr_wp_def)

lemma wp_adapter_result:
  "(\<And>r c. m (aw_control w) = (r, c) \<Longrightarrow> Q r (w\<lparr>aw_control := c\<rparr>)) \<Longrightarrow> sr_wp (adapter_result m) Q R w"
  by (simp add: adapter_result_def sr_wp_def split: prod.splits)

lemma wp_adapter_does:
  "(\<And>v c. f (aw_control w) = (v, c) \<Longrightarrow> Q v (w\<lparr>aw_control := c\<rparr>)) \<Longrightarrow> sr_wp (adapter_does f) Q R w"
  by (simp add: adapter_does_def sr_wp_def split: prod.splits)

lemma wp_adapter_try:
  "(\<And>v c. m (aw_control w) = (Ok v, c) \<Longrightarrow> Q v (w\<lparr>aw_control := c\<rparr>)) \<Longrightarrow>
   (\<And>e c. m (aw_control w) = (Err e, c) \<Longrightarrow> R (map_tmux e) (w\<lparr>aw_control := c\<rparr>)) \<Longrightarrow> sr_wp (adapter_try m) Q R w"
  by (auto simp: adapter_try_def wp_simps intro!: wp_adapter_result wp_lift split: sum.splits)
     (metis map_err_eq_Ok, metis map_err_simps old.sum.exhaust Inl_Inr_False Inl_inject)

text \<open>Most primitives leave the writer registry, the adapter, the workspace and the directives alone.\<close>

definition kept :: "att_world \<Rightarrow> att_world \<Rightarrow> bool" where
  "kept w t \<longleftrightarrow> aw_writers t = aw_writers w \<and> aw_control t = aw_control w \<and> aw_workspace t = aw_workspace w
     \<and> aw_directives t = aw_directives w"

lemma keptD: "kept w t \<Longrightarrow> aw_writers t = aw_writers w" "kept w t \<Longrightarrow> aw_control t = aw_control w"
  "kept w t \<Longrightarrow> aw_workspace t = aw_workspace w" "kept w t \<Longrightarrow> aw_directives t = aw_directives w"
  "kept w t \<Longrightarrow> scope_at a t = scope_at a w"
  by (simp_all add: kept_def scope_at_def)

definition silent :: "att_world \<Rightarrow> att_world \<Rightarrow> bool" where
  "silent w t \<longleftrightarrow> kept w t \<and> aw_frames t = aw_frames w \<and> aw_results t = aw_results w"

lemma silentD: "silent w t \<Longrightarrow> kept w t" "silent w t \<Longrightarrow> aw_frames t = aw_frames w" "silent w t \<Longrightarrow> aw_results t = aw_results w"
  by (simp_all add: silent_def)

lemma wp_current_route [wp_rules]: "(\<And>b t. silent w t \<Longrightarrow> Q b t) \<Longrightarrow> sr_wp (current_route E me a) Q R w"
  by (auto simp: current_route_def wp_simps silent_def kept_def intro!: wp_ask)

lemma wp_ask_silent [wp_rules]: "(\<And>v t. silent w t \<Longrightarrow> Q v t) \<Longrightarrow> sr_wp (ask f) Q R w"
  by (auto simp: silent_def kept_def intro!: wp_ask)

lemma wp_send_text:
  "(\<And>n. Q (Some (Ok ())) (w\<lparr>aw_ticks := n, aw_frames := aw_frames w @ [frame]\<rparr>)) \<Longrightarrow>
   (\<And>r n. r \<noteq> Some (Ok ()) \<Longrightarrow> Q r (w\<lparr>aw_ticks := n\<rparr>)) \<Longrightarrow> sr_wp (send_text E me frame) Q R w"
  by (auto simp: send_text_def wp_simps wp_sum intro!: wp_ask split: sum.splits write_fate.splits)

lemma write_result_cases: "write_result (Some (Ok ())) = Ok ()" "r \<noteq> Some (Ok ()) \<Longrightarrow> \<exists>e. write_result r = Err e"
  by (auto simp: write_result_def split: option.splits) (metis map_err_simps(1) old.sum.exhaust old.unit.exhaust)

lemma wp_write:
  "(\<And>n. Q () (w\<lparr>aw_ticks := n, aw_frames := aw_frames w @ [frame]\<rparr>)) \<Longrightarrow> (\<And>e n. R e (w\<lparr>aw_ticks := n\<rparr>)) \<Longrightarrow>
     sr_wp (sr_bind (send_text E me frame) (\<lambda>r. sr_lift (write_result r))) Q R w"
proof -
  assume q: "\<And>n. Q () (w\<lparr>aw_ticks := n, aw_frames := aw_frames w @ [frame]\<rparr>)" and r: "\<And>e n. R e (w\<lparr>aw_ticks := n\<rparr>)"
  have "sr_wp (sr_lift (write_result x)) Q R (w\<lparr>aw_ticks := n\<rparr>)" if "x \<noteq> Some (Ok ())" for x n
  proof -
    from that obtain e where "write_result x = Err e" using write_result_cases(2) by blast
    with r show ?thesis by (simp add: sr_lift_def sr_wp_def)
  qed
  with q show ?thesis
    unfolding wp_bind by (intro wp_send_text) (simp_all add: write_result_cases(1) sr_lift_def sr_wp_def)
qed

lemma wp_send [wp_rules]:
  "(\<And>t. kept w t \<Longrightarrow> aw_frames t = aw_frames w @ [frame] \<Longrightarrow> aw_results t = aw_results w \<Longrightarrow> Q () t) \<Longrightarrow>
   (\<And>e t. silent w t \<Longrightarrow> R e t) \<Longrightarrow> sr_wp (send E me frame) Q R w"
  unfolding send_def wp_bind [of "sr_lift _"]
  by (rule wp_lift) (auto intro!: wp_write simp: kept_def silent_def)

lemma wp_send_operation_result [wp_rules]:
  "(\<And>t. kept w t \<Longrightarrow> aw_frames t = aw_frames w @ [S_OperationResult rid oper oc code msg] \<Longrightarrow>
       aw_results t = aw_results w @ [(oper, oc)] \<Longrightarrow> Q () t) \<Longrightarrow>
   (\<And>e t. kept w t \<Longrightarrow> aw_frames t = aw_frames w \<Longrightarrow> aw_results t = aw_results w @ [(oper, oc)] \<Longrightarrow> R e t) \<Longrightarrow>
   sr_wp (send_operation_result E me rid oper oc code msg) Q R w"
  by (auto simp: send_operation_result_def audit_operation_def audit_event_def wp_simps wp_option kept_def silent_def
      intro!: wp_rules split: option.splits)

section \<open>Showing a projection only observes\<close>

definition observed :: "control_adapter \<Rightarrow> control_adapter \<Rightarrow> bool" where
  "observed c d \<longleftrightarrow> observed_since (cc_stdin (ca_control c)) d \<and> (adapter_ok c \<longrightarrow> adapter_ok d)"

lemma observed_refl: "observed c c"
  by (simp add: observed_def observed_since_def)

lemma observed_trans: "observed c d \<Longrightarrow> observed d e \<Longrightarrow> observed c e"
  by (auto simp: observed_def observed_since_def)

lemma observed_by:
  assumes "sr_keeps (observed_since (cc_stdin (ca_control c))) m" and "sr_keeps adapter_ok m" and "m c = (r, d)"
  shows "observed c d"
proof -
  have "observed_since (cc_stdin (ca_control c)) c" by (simp add: observed_since_def)
  with assms show ?thesis by (auto simp: observed_def dest: sr_keepsD)
qed

lemma pump_observed: "pump_event c = (r, d) \<Longrightarrow> observed c d"
  by (rule observed_by [of _ pump_event])
     (auto simp: pump_event_def intro!: sr_rules quiet.line quiet.ingest bounds.line bounds.ingest)

lemma hydrate_observed: "hydrate sid created c = (r, d) \<Longrightarrow> observed c d"
  by (rule observed_by [OF quiet.hydrate bounds.hydrate])

definition is_result :: "server_frame \<Rightarrow> bool" where
  "is_result f = (case f of S_OperationResult _ _ _ _ _ \<Rightarrow> True | _ \<Rightarrow> False)"

definition shown :: "att_world \<Rightarrow> att_world \<Rightarrow> bool" where
  "shown w t \<longleftrightarrow> aw_writers t = aw_writers w \<and> aw_workspace t = aw_workspace w \<and> aw_directives t = aw_directives w
     \<and> aw_results t = aw_results w \<and> observed (aw_control w) (aw_control t)
     \<and> (\<exists>fs. aw_frames t = aw_frames w @ fs \<and> list_all (\<lambda>f. \<not> is_result f) fs)"

lemma shown_refl: "shown w w"
  by (simp add: shown_def observed_refl)

lemma shown_trans: "shown w t \<Longrightarrow> shown t u \<Longrightarrow> shown w u"
  by (auto simp: shown_def intro: observed_trans)

lemma silent_shown: "silent w t \<Longrightarrow> shown w t"
  by (simp add: shown_def silent_def kept_def observed_refl)

lemma shown_keepsI: "(\<And>w. sr_wp m (\<lambda>_. shown w) (\<lambda>_. shown w) w) \<Longrightarrow> sr_keeps (shown u) m"
  by (rule sr_keepsI) (blast intro: shown_trans sr_wp_state)

lemma ask_shown [sr_rules]: "sr_keeps (shown w) (ask f)"
  by (rule shown_keepsI) (auto intro!: wp_rules silent_shown)

lemma adapter_shown: "(\<And>c r d. m c = (r, d) \<Longrightarrow> observed c d) \<Longrightarrow> sr_keeps (shown w) (adapter_result m)"
  by (rule shown_keepsI) (auto intro!: wp_adapter_result simp: shown_def)

lemma send_shown [sr_rules]: "\<not> is_result f \<Longrightarrow> sr_keeps (shown w) (send E me f)"
  by (rule shown_keepsI, rule wp_send) (auto simp: shown_def kept_def silent_def observed_refl)

lemma write_shown: "\<not> is_result f \<Longrightarrow> sr_keeps (shown w) (sr_bind (send_text E me f) (\<lambda>r. sr_lift (write_result r)))"
  by (rule shown_keepsI) (auto intro!: wp_write simp: shown_def observed_refl)

lemma pump_shown [sr_rules]: "sr_keeps (shown w) (pump_until_written n)"
proof (induction n)
  case (Suc n)
  then show ?case by (auto intro!: sr_keeps_bind sr_rules adapter_shown dest: pump_observed split: sum.split await.split)
qed (simp add: sr_rules)

lemma send_with_control_shown [sr_rules]: "\<not> is_result f \<Longrightarrow> sr_keeps (shown w) (send_with_control E me f)"
  unfolding send_with_control_def by (intro sr_keeps_bind [OF sr_keeps_lift] sr_keeps_bind [OF ask_shown]
    sr_keeps_bind [OF pump_shown] write_shown)

lemma within_limit_shown [sr_rules]: "sr_keeps (shown w) m \<Longrightarrow> sr_keeps (shown w) (within_limit E m)"
  unfolding within_limit_def by (intro sr_rules)

lemma snapshot_frames_plain: "f \<in> set (snapshot_frames E epoch sn) \<Longrightarrow> \<not> is_result f"
  by (auto simp: snapshot_frames_def Let_def is_result_def split: if_splits)

lemma send_all_shown: "(\<And>f. f \<in> set fs \<Longrightarrow> \<not> is_result f) \<Longrightarrow> sr_keeps (shown w) (send_all E me fs)"
  unfolding send_all_def by (intro sr_keeps_bind sr_keeps_map_all sr_keeps_return within_limit_shown send_with_control_shown)

lemma install_projection_shown: "sr_keeps (shown w) (install_projection E me ce sid created)"
  unfolding install_projection_def install_projection_inner_def
  by (intro sr_rules adapter_shown send_all_shown)
     (auto dest: hydrate_observed snapshot_frames_plain simp: is_result_def)

lemma wp_install [wp_rules]:
  "(\<And>v t. shown w t \<Longrightarrow> Q v t) \<Longrightarrow> (\<And>e t. shown w t \<Longrightarrow> R e t) \<Longrightarrow> sr_wp (install_projection E me ce sid created) Q R w"
  using install_projection_shown [of w E me ce sid created] shown_refl [of w] by (auto intro!: sr_wpI dest: sr_keepsD)

section \<open>The frames of a projection\<close>

definition delivers :: "server_frame list \<Rightarrow> 'a att \<Rightarrow> bool" where
  "delivers fs m \<longleftrightarrow> (\<forall>w a t. m w = (Ok a, t) \<longrightarrow> aw_frames t = aw_frames w @ fs)"

lemma deliversD: "delivers fs m \<Longrightarrow> m w = (Ok a, t) \<Longrightarrow> aw_frames t = aw_frames w @ fs"
  by (auto simp: delivers_def)

lemma deliversI: "(\<And>w. sr_wp m (\<lambda>_ t. aw_frames t = aw_frames w @ fs) (\<lambda>_ _. True) w) \<Longrightarrow> delivers fs m"
  by (auto simp: delivers_def dest: sr_wp_Ok)

lemma delivers_bind: "delivers fs m \<Longrightarrow> (\<And>a. delivers gs (k a)) \<Longrightarrow> delivers (fs @ gs) (sr_bind m k)"
  by (fastforce simp: delivers_def res_simps)

lemma delivers_none:
  "delivers [] (sr_return a)" "delivers [] (sr_throw e)" "delivers [] (sr_lift r)" "delivers [] (ask f)" "delivers [] (adapter_result m)"
  by (auto simp: delivers_def sr_leaf ask_def adapter_result_def split: prod.splits)

lemma delivers_send: "delivers [f] (send E me f)"
  by (rule deliversI, rule wp_send) auto

lemma delivers_pump: "delivers [] (pump_until_written n)"
proof (induction n)
  case (Suc n)
  have "delivers [] (case r of Inl (Failed e) \<Rightarrow> sr_throw (map_tmux e) | Inl Pending \<Rightarrow> sr_return ()
      | Inr _ \<Rightarrow> pump_until_written n)" for r :: "tmux_error await + unit"
    by (auto simp: delivers_none Suc.IH split: sum.split await.split)
  then have "delivers ([] @ []) (pump_until_written (Suc n))"
    unfolding pump_until_written.simps by (intro delivers_bind delivers_none)
  then show ?case by simp
qed (simp add: delivers_none)

lemma delivers_send_with_control: "delivers [f] (send_with_control E me f)"
proof -
  have w: "delivers [f] (sr_bind (send_text E me f) (\<lambda>r. sr_lift (write_result r)))"
    by (rule deliversI, rule wp_write) auto
  have "delivers ([] @ [] @ [] @ [f]) (send_with_control E me f)"
    unfolding send_with_control_def by (intro delivers_bind delivers_none delivers_pump w)
  then show ?thesis by simp
qed

lemma delivers_within: "delivers fs m \<Longrightarrow> delivers fs (within_limit E m)"
  by (auto simp: delivers_def within_limit_def res_simps ask_def sr_throw_def split: if_splits)

lemma delivers_all: "delivers fs (send_all E me fs)"
proof -
  have "delivers fs (sr_map (\<lambda>f. within_limit E (send_with_control E me f)) fs)"
  proof (induction fs)
    case (Cons f fs)
    have "delivers ([f] @ fs @ []) (sr_map (\<lambda>f. within_limit E (send_with_control E me f)) (f # fs))"
      unfolding sr_map.simps by (intro delivers_bind delivers_within delivers_send_with_control Cons.IH delivers_none)
    then show ?case by simp
  qed (simp add: delivers_none)
  then have "delivers (fs @ []) (send_all E me fs)"
    unfolding send_all_def by (intro delivers_bind delivers_none)
  then show ?thesis by simp
qed

definition projection_frames :: "att_env \<Rightarrow> int \<Rightarrow> uuid \<Rightarrow> bytes \<Rightarrow> int \<Rightarrow> workspace_projection \<Rightarrow> server_frame list" where
  "projection_frames E connection_epoch epoch session_id session_created p =
     [S_Phase Connecting, S_Projection (show_int connection_epoch) epoch session_id session_created
        (wk_windows p) (wk_window p) (wk_panes p)]
     @ concat (map (snapshot_frames E epoch) (wk_snapshots p)) @ [S_Phase Ready]"

lemma within_limit_Ok: "within_limit E m w = (Ok a, t) \<Longrightarrow> \<exists>n. m (w\<lparr>aw_ticks := n\<rparr>) = (Ok a, t)"
  by (auto simp: within_limit_def res_simps ask_def sr_throw_def split: if_splits)

lemma send_control: "send E me f w = (Ok (), t) \<Longrightarrow> aw_control t = aw_control w"
proof -
  have "sr_wp (send E me f) (\<lambda>_ t. aw_control t = aw_control w) (\<lambda>_ _. True) w"
    by (rule wp_send) (simp_all add: keptD)
  then show "send E me f w = (Ok (), t) \<Longrightarrow> aw_control t = aw_control w" by (rule sr_wp_Ok)
qed

lemma install_projection_Ok:
  assumes "install_projection E me ce sid created w = (Ok (Some k), t)"
  shows "\<exists>p c active. hydrate sid created (aw_control w) = (Ok p, c)
    \<and> find pp_active (wk_panes p) = Some active
    \<and> aw_frames t = aw_frames w @ projection_frames E ce (wst_epoch k) sid created p
    \<and> k = \<lparr>wst_epoch = wst_epoch k, wst_connection_epoch = ce, wst_windows = set (map wsm_window_id (wk_windows p)),
           wst_visible_panes = set (map pp_pane_id (wk_panes p)), wst_active_pane = pp_pane_id active\<rparr>"
proof -
  from assms obtain w1 w2 h where
    s1: "within_limit E (send E me (S_Phase Connecting)) w = (Ok (), w1)"
    and s2: "within_limit E (adapter_result (hydrate sid created)) w1 = (Ok h, w2)"
    by (auto simp: install_projection_def install_projection_inner_def res_simps)
  obtain c where h: "hydrate sid created (aw_control w) = (h, c)"
    using within_limit_Ok [OF s1] within_limit_Ok [OF s2]
    by (cases "hydrate sid created (aw_control w)") (auto simp: adapter_result_def dest!: send_control)
  have f1: "aw_frames w1 = aw_frames w @ [S_Phase Connecting]"
    by (rule deliversD [OF delivers_within [OF delivers_send] s1])
  have f2: "aw_frames w2 = aw_frames w1"
    using deliversD [OF delivers_within [OF delivers_none(5)] s2] by simp
  define epoch where "epoch = ae_uuid E (aw_ticks w2)"
  let ?w3 = "w2\<lparr>aw_ticks := Suc (aw_ticks w2)\<rparr>"
  from assms s1 s2 obtain p active w4 w5 where p: "h = Ok p"
    and a: "find pp_active (wk_panes p) = Some active"
    and s4: "within_limit E (send_with_control E me (S_Projection (show_int ce) epoch sid created
              (wk_windows p) (wk_window p) (wk_panes p))) ?w3 = (Ok (), w4)"
    and s5: "send_all E me (concat (map (snapshot_frames E epoch) (wk_snapshots p))) w4 = (Ok (), w5)"
    and s6: "within_limit E (send_with_control E me (S_Phase Ready)) w5 = (Ok (), t)"
    and k: "k = \<lparr>wst_epoch = epoch, wst_connection_epoch = ce, wst_windows = set (map wsm_window_id (wk_windows p)),
           wst_visible_panes = set (map pp_pane_id (wk_panes p)), wst_active_pane = pp_pane_id active\<rparr>"
    by (cases h) (auto simp: install_projection_def install_projection_inner_def res_simps sr_leaf ask_def epoch_def split: if_splits)
  have "aw_frames t = aw_frames w @ projection_frames E ce epoch sid created p"
    using f1 f2 deliversD [OF delivers_within [OF delivers_send_with_control] s4] deliversD [OF delivers_all s5]
      deliversD [OF delivers_within [OF delivers_send_with_control] s6]
    by (simp add: projection_frames_def)
  with h p a k show ?thesis by auto
qed

subsection \<open>What a client reassembles\<close>

text \<open>The reader's side of the snapshot protocol: chunks of a pane must arrive with consecutive indices
  from zero and nothing may follow the final one.\<close>

fun client_read :: "att_env \<Rightarrow> uuid \<Rightarrow> bytes \<Rightarrow> server_frame list \<Rightarrow> bytes \<times> nat \<times> bool \<Rightarrow> (bytes \<times> nat \<times> bool) option" where
  "client_read E epoch pane [] st = Some st"
| "client_read E epoch pane (f # fs) (acc, n, finished) = (case f of
     S_PaneSnapshot e p i fin d \<Rightarrow>
       if e = epoch \<and> p = pane then
         (if finished \<or> i \<noteq> n then None
          else (case ae_b64_decode E d of None \<Rightarrow> None | Some b \<Rightarrow> client_read E epoch pane fs (acc @ b, Suc n, fin)))
       else client_read E epoch pane fs (acc, n, finished)
   | _ \<Rightarrow> client_read E epoch pane fs (acc, n, finished))"

definition b64_inverse :: "att_env \<Rightarrow> bool" where
  "b64_inverse E \<longleftrightarrow> (\<forall>bs. ae_b64_decode E (ae_b64_encode E bs) = Some bs)"

lemma client_read_append:
  "client_read E ep p (fs @ gs) st = Option.bind (client_read E ep p fs st) (client_read E ep p gs)"
proof (induction fs arbitrary: st)
  case (Cons f fs)
  obtain acc n fin where st: "st = (acc, n, fin)" by (cases st) auto
  show ?case
    by (cases f) (auto simp: st Cons.IH split: option.split)
qed simp

lemma client_read_foreign:
  "sn_pane_id sn \<noteq> p \<Longrightarrow> client_read E ep p (snapshot_frames E ep sn) (acc, n, fin) = Some (acc, n, fin)"
proof -
  assume ne: "sn_pane_id sn \<noteq> p"
  have "client_read E ep p (map (\<lambda>(i, c). S_PaneSnapshot ep (sn_pane_id sn) i (P i) (ae_b64_encode E c)) (enumerate m cs))
      (acc, n, fin) = Some (acc, n, fin)" for P m cs
    using ne by (induction cs arbitrary: m) auto
  with ne show ?thesis by (simp add: snapshot_frames_def Let_def)
qed

lemma client_read_chunks:
  assumes "b64_inverse E" and "cs \<noteq> []"
  shows "client_read E ep p (map (\<lambda>(i, c). S_PaneSnapshot ep p i (i = m + length cs - 1) (ae_b64_encode E c)) (enumerate m cs))
    (acc, m, False) = Some (acc @ concat cs, m + length cs, True)"
  using assms(2)
proof (induction cs arbitrary: m acc)
  case (Cons c cs)
  show ?case
  proof (cases "cs = []")
    case True
    with assms(1) show ?thesis by (simp add: b64_inverse_def)
  next
    case False
    with assms(1) Cons.IH [of "Suc m" "acc @ c"] show ?thesis by (simp add: b64_inverse_def)
  qed
qed simp

lemma client_read_own:
  assumes "b64_inverse E" and "sn_content sn \<noteq> []"
  shows "\<exists>n. client_read E ep (sn_pane_id sn) (snapshot_frames E ep sn) ([], 0, False) = Some (sn_content sn, n, True)"
proof -
  let ?cs = "chunks ATTACHMENT_MAX_TERMINAL_CHUNK_BYTES (sn_content sn)"
  have c: "concat ?cs = sn_content sn" by (rule concat_chunks) simp
  with assms(2) have "?cs \<noteq> []" by auto
  with client_read_chunks [OF assms(1) this, of ep "sn_pane_id sn" 0 "[]"] c show ?thesis
    by (simp add: snapshot_frames_def Let_def)
qed

lemma client_read_snapshots:
  assumes "b64_inverse E" and "distinct (map sn_pane_id sns)" and "sn \<in> set sns" and "sn_content sn \<noteq> []"
  shows "\<exists>n. client_read E ep (sn_pane_id sn) (concat (map (snapshot_frames E ep) sns)) ([], 0, False) = Some (sn_content sn, n, True)"
proof -
  from assms(3) obtain as bs where sns: "sns = as @ sn # bs" by (meson split_list)
  have other: "client_read E ep (sn_pane_id sn) (concat (map (snapshot_frames E ep) xs)) st = Some st"
    if "sn_pane_id sn \<notin> set (map sn_pane_id xs)" for xs st
    using that by (induction xs) (cases st, auto simp: client_read_append client_read_foreign)+
  from assms(2) sns have "sn_pane_id sn \<notin> set (map sn_pane_id as)" "sn_pane_id sn \<notin> set (map sn_pane_id bs)" by auto
  with client_read_own [OF assms(1,4), of ep] show ?thesis
    by (auto simp: sns client_read_append other)
qed

lemma snapshots_ids:
  assumes "projection_ok p"
  shows "map sn_pane_id (wk_snapshots p) = map pp_pane_id (wk_panes p)" "sn \<in> set (wk_snapshots p) \<Longrightarrow> sn_content sn \<noteq> []"
proof -
  from assms have all: "list_all2 (\<lambda>p sn. sn_pane_id sn = pp_pane_id p
       \<and> (\<exists>rows. sn_content sn = capture_prologue (pp_terminal p) @ join_rows rows @ restore_sequence (pp_terminal p))
       \<and> length (sn_content sn) \<le> ATTACHMENT_MAX_PANE_SNAPSHOT_BYTES) (wk_panes p) (wk_snapshots p)"
    by (simp add: projection_ok_def snapshots_ok_def)
  then show "map sn_pane_id (wk_snapshots p) = map pp_pane_id (wk_panes p)"
    by (induction rule: list_all2_induct) auto
  from all show "sn \<in> set (wk_snapshots p) \<Longrightarrow> sn_content sn \<noteq> []"
    by (induction rule: list_all2_induct) (auto simp: capture_prologue_def)
qed

text \<open>C32. When a projection is installed, the Browser has received exactly the connecting phase, the
  projection of the panes, windows and ids the target reported, the snapshots and the ready phase, in
  this order; reading the snapshot frames back yields, for every pane of the projection, exactly the
  bytes captured for it, with consecutive chunks and one final mark; and the workspace state against
  which later requests are checked is the one of this projection, its active pane among the visible ones.\<close>

theorem installed_projection_is_shown:
  assumes "install_projection E me ce sid created w = (Ok (Some k), t)" and "b64_inverse E"
  shows "\<exists>p c fs. hydrate sid created (aw_control w) = (Ok p, c) \<and> projection_ok p
    \<and> aw_frames t = aw_frames w @ [S_Phase Connecting, S_Projection (show_int ce) (wst_epoch k) sid created
         (wk_windows p) (wk_window p) (wk_panes p)] @ fs @ [S_Phase Ready]
    \<and> map sn_pane_id (wk_snapshots p) = map pp_pane_id (wk_panes p)
    \<and> (\<forall>sn \<in> set (wk_snapshots p). \<exists>n. client_read E (wst_epoch k) (sn_pane_id sn) fs ([], 0, False) = Some (sn_content sn, n, True))
    \<and> wst_connection_epoch k = ce \<and> wst_windows k = set (map wsm_window_id (wk_windows p))
    \<and> wst_visible_panes k = set (map pp_pane_id (wk_panes p)) \<and> wst_active_pane k \<in> wst_visible_panes k"
proof -
  from install_projection_Ok [OF assms(1)] obtain p c active where h: "hydrate sid created (aw_control w) = (Ok p, c)"
    and a: "find pp_active (wk_panes p) = Some active"
    and f: "aw_frames t = aw_frames w @ projection_frames E ce (wst_epoch k) sid created p"
    and k: "k = \<lparr>wst_epoch = wst_epoch k, wst_connection_epoch = ce, wst_windows = set (map wsm_window_id (wk_windows p)),
           wst_visible_panes = set (map pp_pane_id (wk_panes p)), wst_active_pane = pp_pane_id active\<rparr>"
    by blast
  from h have ok: "projection_ok p" by (rule hydrate_projection_ok)
  then have "distinct (map sn_pane_id (wk_snapshots p))"
    by (simp add: snapshots_ids projection_ok_def panes_ok_def)
  then have read: "\<forall>sn \<in> set (wk_snapshots p). \<exists>n. client_read E (wst_epoch k) (sn_pane_id sn)
      (concat (map (snapshot_frames E (wst_epoch k)) (wk_snapshots p))) ([], 0, False) = Some (sn_content sn, n, True)"
    using client_read_snapshots [OF assms(2)] snapshots_ids(2) [OF ok] by blast
  from a have "active \<in> set (wk_panes p)" by (auto simp: find_Some_iff)
  moreover from k have "wst_connection_epoch k = ce" "wst_windows k = set (map wsm_window_id (wk_windows p))"
    "wst_visible_panes k = set (map pp_pane_id (wk_panes p))" "wst_active_pane k = pp_pane_id active"
    by (metis workspace_state.select_convs)+
  ultimately show ?thesis
    using h ok f read snapshots_ids(1) [OF ok] by (auto simp: projection_frames_def)
qed

text \<open>An environment in which nothing fails: frames encode within the limit, the fence lets every write
  pass, writes complete at once and no limit expires.\<close>

definition calm :: "att_env \<Rightarrow> att_id \<Rightarrow> bool" where
  "calm E me \<longleftrightarrow> (\<forall>n. (case ai_fence me of None \<Rightarrow> Ok ()
         | Some h \<Rightarrow> fence_dispatch (sh_lease_ok (ae_shared E n)) h (sh_relays (ae_shared E n))) = Ok ()
     \<and> ae_write E n = Written \<and> ae_pumps E n = 0 \<and> \<not> ae_expired E n)
     \<and> (\<forall>f. \<exists>s. ae_to_string E f = Some s \<and> length s \<le> ATTACHMENT_MAX_FRAME_BYTES)"

lemma calm_encode: "calm E me \<Longrightarrow> \<exists>s. encode_frame E f = Ok s"
proof -
  assume "calm E me"
  then obtain s where "ae_to_string E f = Some s" "length s \<le> ATTACHMENT_MAX_FRAME_BYTES" by (auto simp: calm_def)
  then show ?thesis by (simp add: encode_frame_def)
qed

lemma calm_write: "calm E me \<Longrightarrow> \<exists>t. sr_bind (send_text E me f) (\<lambda>r. sr_lift (write_result r)) w = (Ok (), t)"
  by (simp add: calm_def send_text_def sr_bind_def ask_def sr_leaf write_result_def)

lemma calm_send: "calm E me \<Longrightarrow> \<exists>t. send E me f w = (Ok (), t)"
  using calm_encode [of E me f] calm_write [of E me f w]
  by (auto simp: send_def sr_lift_def sr_bind_Ok_step [where m = "sr_lift _"])

lemma calm_send_with_control: "calm E me \<Longrightarrow> \<exists>t. send_with_control E me f w = (Ok (), t)"
proof -
  assume c: "calm E me"
  then obtain s where "encode_frame E f = Ok s" using calm_encode by blast
  moreover from c have "ae_pumps E n = 0" for n by (simp add: calm_def)
  ultimately have "send_with_control E me f w
      = sr_bind (send_text E me f) (\<lambda>r. sr_lift (write_result r)) (w\<lparr>aw_ticks := Suc (aw_ticks w)\<rparr>)"
    by (simp add: send_with_control_def sr_bind_def [of "sr_lift _"] sr_bind_def [of "ask _"] sr_bind_def [of "sr_return _"]
        sr_lift_def ask_def sr_return_def)
  with calm_write [OF c] show ?thesis by simp
qed

lemma calm_within: "calm E me \<Longrightarrow> within_limit E m w = m (w\<lparr>aw_ticks := Suc (aw_ticks w)\<rparr>)"
  by (simp add: within_limit_def calm_def sr_bind_def ask_def)

lemma calm_send_all: "calm E me \<Longrightarrow> \<exists>t. send_all E me fs w = (Ok (), t)"
proof -
  assume c: "calm E me"
  have "\<exists>us t. sr_map (\<lambda>f. within_limit E (send_with_control E me f)) fs w = (Ok us, t)"
  proof (induction fs arbitrary: w)
    case (Cons f fs)
    obtain t where t: "within_limit E (send_with_control E me f) w = (Ok (), t)"
      using calm_send_with_control [OF c] by (auto simp: calm_within [OF c])
    with Cons.IH [of t] show ?case by (auto simp: sr_bind_def sr_return_def)
  qed (simp add: sr_return_def)
  then show ?thesis by (auto simp: send_all_def sr_bind_def sr_return_def)
qed

lemma calm_install:
  assumes c: "calm E me" and h: "hydrate sid created (aw_control w) = (Ok p, d)"
  shows "\<exists>k t. install_projection E me ce sid created w = (Ok (Some k), t)"
proof -
  let ?m = "\<lambda>f. within_limit E (send_with_control E me f)"
  from h have "projection_ok p" by (rule hydrate_projection_ok)
  then have "filter pp_active (wk_panes p) \<noteq> []" by (auto simp: projection_ok_def panes_ok_def)
  then obtain active where a: "find pp_active (wk_panes p) = Some active"
    by (metis (mono_tags, lifting) filter_empty_conv find_None_iff not_None_eq)
  obtain w1 where s1: "within_limit E (send E me (S_Phase Connecting)) w = (Ok (), w1)"
    using calm_send [OF c] by (auto simp: calm_within [OF c])
  then have "aw_control w1 = aw_control w" by (auto simp: calm_within [OF c] dest: send_control)
  with h have s2: "within_limit E (adapter_result (hydrate sid created)) w1
      = (Ok (Ok p), w1\<lparr>aw_ticks := Suc (aw_ticks w1), aw_control := d\<rparr>)"
    by (simp add: calm_within [OF c] adapter_result_def)
  let ?w2 = "w1\<lparr>aw_ticks := Suc (aw_ticks w1), aw_control := d\<rparr>"
  let ?epoch = "ae_uuid E (aw_ticks ?w2)"
  obtain w4 where s4: "?m (S_Projection (show_int ce) ?epoch sid created (wk_windows p) (wk_window p) (wk_panes p))
      (?w2\<lparr>aw_ticks := Suc (aw_ticks ?w2)\<rparr>) = (Ok (), w4)"
    using calm_send_with_control [OF c] by (auto simp: calm_within [OF c])
  obtain w5 where s5: "send_all E me (concat (map (snapshot_frames E ?epoch) (wk_snapshots p))) w4 = (Ok (), w5)"
    using calm_send_all [OF c] by blast
  obtain t where s6: "?m (S_Phase Ready) w5 = (Ok (), t)"
    using calm_send_with_control [OF c] by (auto simp: calm_within [OF c])
  have u: "ask (ae_uuid E) ?w2 = (Ok ?epoch, ?w2\<lparr>aw_ticks := Suc (aw_ticks ?w2)\<rparr>)" by (simp add: ask_def)
  have l: "sr_lift (ok_or (map_option pp_pane_id (find pp_active (wk_panes p))) AE_Protocol) v = (Ok (pp_pane_id active), v)" for v
    by (simp add: a sr_lift_def)
  have "fst (install_projection E me ce sid created w) = Ok (Some \<lparr>wst_epoch = ?epoch, wst_connection_epoch = ce,
      wst_windows = set (map wsm_window_id (wk_windows p)), wst_visible_panes = set (map pp_pane_id (wk_panes p)),
      wst_active_pane = pp_pane_id active\<rparr>)"
    unfolding install_projection_def install_projection_inner_def
    by (simp only: sr_bind_def s1 s2 u l s4 s5 s6 sr_return_def prod.case sum.case fst_conv)
  then show ?thesis by (metis prod.collapse)
qed

definition sample_env :: att_env where
  "sample_env = \<lparr>ae_shared = (\<lambda>_. \<lparr>sh_lease_ok = True, sh_ready = True, sh_relays = registry_empty\<lparr>
        rg_tunnels := [(5, 0)], rg_handles := [tunnel_handle_new \<lparr>ri_route_revision = 1, ri_connection_epoch = 3, ri_connection_id = 9\<rparr>]\<rparr>\<rparr>),
     ae_to_string = (\<lambda>_. Some []), ae_from_str = (\<lambda>_. Some F_WorkspaceDetach), ae_b64_encode = id, ae_b64_decode = Some,
     ae_write = (\<lambda>_. Written), ae_pumps = (\<lambda>_. 0), ae_dispatch_free = (\<lambda>_. True), ae_demote = (\<lambda>_. Answered CO_Succeeded),
     ae_expired = (\<lambda>_. False), ae_route_closed = (\<lambda>_. False), ae_uuid = word_of_nat, ae_stream_ok = (\<lambda>_. True),
     ae_open_attempts = (\<lambda>_. 2), ae_permit = (\<lambda>_. True), ae_probe = (\<lambda>_. None), ae_create_session = (\<lambda>_ _. Some CS_Succeeded),
     ae_start_control = (\<lambda>_ _ _. None)\<rparr>"

definition sample_id :: att_id where
  "sample_id = \<lparr>ai_machine_id = 5, ai_attachment_id = 7, ai_fence = Some 0, ai_control_tx = 1\<rparr>"

definition sample_world :: "writer_handle option \<Rightarrow> read_event list \<Rightarrow> att_world" where
  "sample_world holder evs = \<lparr>aw_ticks = 0,
     aw_writers = \<lparr>wr_scopes = [(5, 0)], wr_heap = [\<lparr>wsc_route = \<lparr>ri_route_revision = 1, ri_connection_epoch = 3, ri_connection_id = 9\<rparr>,
       wsc_current = holder, wsc_changed = 0\<rparr>]\<rparr>,
     aw_control = sample_adapter evs,
     aw_workspace = \<lparr>wst_epoch = 11, wst_connection_epoch = 3, wst_windows = {''@1''}, wst_visible_panes = {''%1''}, wst_active_pane = ''%1''\<rparr>,
     aw_frames = [], aw_results = [], aw_audit = [], aw_directives = [], aw_closed = [], aw_answers = []\<rparr>"

lemma sample_calm: "calm sample_env sample_id"
  by (simp add: calm_def sample_env_def sample_id_def fence_dispatch_def tunnel_handle_new_def)

theorem installed_projection_is_shown_witness:
  "\<exists>k t p fs. install_projection sample_env sample_id 3 ''$0'' 1700000000 (sample_world None sample_session) = (Ok (Some k), t)
     \<and> projection_ok p \<and> aw_frames t = [S_Phase Connecting, S_Projection (show_int 3) (wst_epoch k) ''$0'' 1700000000
         (wk_windows p) (wk_window p) (wk_panes p)] @ fs @ [S_Phase Ready]"
proof -
  obtain p d where "hydrate ''$0'' 1700000000 (sample_adapter sample_session) = (Ok p, d)"
    using sample_session_hydrates by (cases "hydrate ''$0'' 1700000000 (sample_adapter sample_session)") (auto simp: is_ok_iff)
  then have "hydrate ''$0'' 1700000000 (aw_control (sample_world None sample_session)) = (Ok p, d)"
    by (simp add: sample_world_def)
  from calm_install [OF sample_calm this, of 3] obtain k t where
    i: "install_projection sample_env sample_id 3 ''$0'' 1700000000 (sample_world None sample_session) = (Ok (Some k), t)"
    by blast
  moreover have "b64_inverse sample_env" by (simp add: b64_inverse_def sample_env_def)
  ultimately show ?thesis
    using installed_projection_is_shown [of sample_env sample_id 3 "''$0''" 1700000000 "sample_world None sample_session" k t]
    by (auto simp: sample_world_def)
qed

end
