(* ===== verification/Attachment.thy ===== *)
theory Attachment
  imports Attachment_Frames
begin

text \<open>
  The handlers of a Browser attachment, \<open>crates/owlmux-server/src/attachment.rs\<close>: the session chooser's
  reaction to a frame, the transfer of the writer role with and without a control client, and every arm
  of \<open>handle_workspace_frame\<close>. A handler runs with the scope's dispatch and state locks held from the
  point where the code takes them, so the writer scope changes only through the handler itself; what it
  learns from other tasks comes from the environment.
\<close>

section \<open>Requests and exits\<close>

record writer_request =
  wq_request_id :: uuid
  wq_operation :: operation
  wq_machine_connection_epoch :: bytes
  wq_attachment_epoch :: uuid
  wq_size :: client_size

record selection =
  sel_session_id :: bytes
  sel_session_created :: int
  sel_route :: route_identity
  sel_scope :: nat

datatype chooser_exit = ChooseSelection selection | ChooseRefresh | ChooseDetach

datatype workspace_exit = WX_Chooser | WX_Detach

datatype frame_exit = FX_Continue | FX_Chooser | FX_Detach

definition size_of :: "nat \<Rightarrow> nat \<Rightarrow> client_size" where
  "size_of columns rows = \<lparr>cs_columns = columns, cs_rows = rows\<rparr>"

definition is_writer :: "att_id \<Rightarrow> nat \<Rightarrow> bool att" where
  "is_writer me a = writer_reads a (is_current (ai_attachment_id me))"

definition drop_writer :: "att_id \<Rightarrow> nat \<Rightarrow> unit att" where
  "drop_writer me a = writer_does a (\<lambda>s. snd (clear_if_current (ai_attachment_id me) s))"

definition close_old :: "channel option \<Rightarrow> unit att" where
  "close_old old = (case old of None \<Rightarrow> sr_return () | Some ch \<Rightarrow> direct ch Close)"

section \<open>Changing the writer without a control client\<close>

definition change_writer_without_control ::
  "att_env \<Rightarrow> att_id \<Rightarrow> nat \<Rightarrow> uuid \<Rightarrow> writer_request \<Rightarrow> bool \<Rightarrow> unit att" where
  "change_writer_without_control E me a expected_epoch request takeover =
     (let result = send_operation_result E me (wq_request_id request) (wq_operation request) in
     sr_bind (writer_reads a wsc_route) (\<lambda>route.
     if wq_attachment_epoch request \<noteq> expected_epoch
        \<or> \<not> matches_connection_epoch (wq_machine_connection_epoch request) (ri_connection_epoch route)
     then result PO_Failed ''stale_epoch'' ''Writer state changed before dispatch.''
     else if \<not> valid_client_size (wq_size request)
     then result PO_Failed ''invalid_operation'' ''The requested Browser size is outside the supported bounds.''
     else sr_bind (current_route E me a) (\<lambda>current.
     if \<not> current then sr_throw AE_RouteChanged
     else sr_bind (is_writer me a) (\<lambda>mine.
     if mine then
       sr_bind (writer_does a (\<lambda>s. snd (update_size (ai_attachment_id me) (wq_size request) s))) (\<lambda>_.
       result PO_Succeeded ''writer_current'' ''This attachment is the current writer.'')
     else sr_bind (writer_reads a is_available) (\<lambda>available.
     if \<not> available \<and> \<not> takeover
     then result PO_Failed ''writer_busy'' ''Another OwlMux Browser attachment is the current writer.''
     else
       (let install = sr_bind (writer_does a (set_current (ai_attachment_id me) (wq_size request) None)) (\<lambda>_.
              result PO_Succeeded (if takeover then ''writer_taken_over'' else ''writer_claimed'')
                ''This attachment is now the current writer.'')
        in sr_bind (writer_reads a current_control) (\<lambda>old_control. case old_control of
          None \<Rightarrow> install
        | Some control \<Rightarrow>
            sr_bind (demote_writer E control) (\<lambda>outcome.
            sr_bind (current_route E me a) (\<lambda>still.
            if \<not> still then
              sr_bind (writer_does a clear_writer) (\<lambda>_.
              sr_bind (direct control Close) (\<lambda>_. sr_throw AE_RouteChanged))
            else if outcome \<noteq> CO_Succeeded then
              sr_bind (writer_does a clear_writer) (\<lambda>_.
              sr_bind (direct control Close) (\<lambda>_.
              result (if outcome = CO_Ambiguous then PO_Ambiguous else PO_Failed)
                (if outcome = CO_Ambiguous then ''operation_ambiguous'' else ''writer_transition_failed'')
                ''Writer transition failed closed; no writer was retained.''))
            else install)))))))))"

section \<open>The chooser\<close>

text \<open>What the chooser holds after the probe: the route, the scope's address and the probe's answer.\<close>

record chooser_state =
  ch_route :: route_identity
  ch_scope :: nat
  ch_probe :: probe_result

definition run_probe :: "att_env \<Rightarrow> bytes att" where
  "run_probe E =
     sr_bind (ask (ae_route_closed E)) (\<lambda>closed. if closed then sr_throw AE_RouteChanged
     else sr_bind (ask (ae_probe E)) (\<lambda>probe.
     sr_bind (audit_event ''ssh_tmux_probe'' (if probe \<noteq> None then ''success'' else ''rejected'')) (\<lambda>_.
     sr_lift (ok_or probe AE_Ssh))))"

definition scope_for :: "att_id \<Rightarrow> route_identity \<Rightarrow> nat att" where
  "scope_for me route w = (case scope_of (ai_machine_id me) route (aw_writers w) of
     (a, r) \<Rightarrow> (Ok a, w\<lparr>aw_writers := r\<rparr>))"

definition chooser_start :: "att_env \<Rightarrow> att_id \<Rightarrow> route_identity \<Rightarrow> chooser_state att" where
  "chooser_start E me expected_route =
     sr_bind (send E me (S_Phase Connecting)) (\<lambda>_.
     sr_bind (open_relay_stream E me) (\<lambda>route.
     if route \<noteq> expected_route then sr_throw AE_RouteChanged
     else sr_bind (run_probe E) (\<lambda>out.
     sr_bind (ask (ae_uuid E)) (\<lambda>selection_epoch.
     sr_bind (sr_lift (map_err map_tmux (parse_probe selection_epoch out))) (\<lambda>probe.
     sr_bind (scope_for me route) (\<lambda>a.
     sr_bind (send E me (S_Phase Selecting)) (\<lambda>_.
     sr_bind (send E me (S_SessionList (show_int (ri_connection_epoch route)) (pr_selection_epoch probe)
       (pr_tmux_client_version probe) (pr_tmux_server_version probe) (pr_sessions probe))) (\<lambda>_.
     sr_bind (send_writer_state E me a (pr_selection_epoch probe)) (\<lambda>_.
     sr_return \<lparr>ch_route = route, ch_scope = a, ch_probe = probe\<rparr>)))))))))"

definition chooser_session_create ::
  "att_env \<Rightarrow> att_id \<Rightarrow> chooser_state \<Rightarrow> uuid \<Rightarrow> bytes \<Rightarrow> uuid \<Rightarrow> bytes \<Rightarrow> (chooser_exit option) att" where
  "chooser_session_create E me st request_id machine_connection_epoch selection_epoch name =
     (let a = ch_scope st; result = send_operation_result E me request_id O_SessionCreate;
          refused = (\<lambda>code message. sr_bind (result PO_Failed code message) (\<lambda>_. sr_return None)) in
     if \<not> matches_connection_epoch machine_connection_epoch (ri_connection_epoch (ch_route st))
        \<or> selection_epoch \<noteq> pr_selection_epoch (ch_probe st)
     then refused ''stale_epoch'' ''The session chooser changed before dispatch.''
     else sr_bind (is_writer me a) (\<lambda>mine.
     if \<not> mine then refused ''writer_required'' ''Claim writer access before creating a session.''
     else sr_bind (if valid_session_name name then current_route E me a else sr_return False) (\<lambda>ok.
     if \<not> ok then refused ''invalid_operation'' ''The session could not be created before dispatch.''
     else sr_bind (relays_open_stream E me) (\<lambda>stream.
     if stream \<noteq> Some (ch_route st) then refused ''target_unavailable'' ''The target became unavailable before dispatch.''
     else sr_bind (ask (\<lambda>n. ae_create_session E n name)) (\<lambda>created.
     sr_bind (sr_lift (ok_or created AE_Ssh)) (\<lambda>outcome.
     sr_bind (current_route E me a) (\<lambda>still.
     if \<not> still then sr_bind (drop_writer me a) (\<lambda>_. sr_throw AE_RouteChanged)
     else sr_bind (case outcome of
         CS_Succeeded \<Rightarrow> result PO_Succeeded ''session_created'' ''The target session was created. Refreshing the chooser.''
       | CS_Failed \<Rightarrow> result PO_Failed ''session_create_failed''
           ''The target rejected session creation. Refreshing the chooser.''
       | CS_Ambiguous \<Rightarrow> sr_bind (writer_does a clear_writer) (\<lambda>_.
           result PO_Ambiguous ''operation_ambiguous'' ''Session creation may have occurred. It will not be retried.''))
       (\<lambda>_. sr_return (Some ChooseRefresh)))))))))"

definition chooser_frame :: "att_env \<Rightarrow> att_id \<Rightarrow> chooser_state \<Rightarrow> client_frame \<Rightarrow> (chooser_exit option) att" where
  "chooser_frame E me st frame = (case frame of
     F_SessionSelect machine_connection_epoch selection_epoch session_id session_created \<Rightarrow>
       if \<not> matches_connection_epoch machine_connection_epoch (ri_connection_epoch (ch_route st))
          \<or> selection_epoch \<noteq> pr_selection_epoch (ch_probe st)
          \<or> \<not> list_ex (\<lambda>session. ss_session_id session = session_id \<and> ss_session_created session = session_created)
              (pr_sessions (ch_probe st))
       then sr_bind (send_workspace_error E me ''stale_selection'' ''Session selection is stale.'') (\<lambda>_. sr_return None)
       else sr_return (Some (ChooseSelection \<lparr>sel_session_id = session_id, sel_session_created = session_created,
              sel_route = ch_route st, sel_scope = ch_scope st\<rparr>))
   | F_WriterClaim request_id machine_connection_epoch attachment_epoch columns rows \<Rightarrow>
       sr_bind (change_writer_without_control E me (ch_scope st) (pr_selection_epoch (ch_probe st))
         \<lparr>wq_request_id = request_id, wq_operation = O_WriterClaim, wq_machine_connection_epoch = machine_connection_epoch,
          wq_attachment_epoch = attachment_epoch, wq_size = size_of columns rows\<rparr> False) (\<lambda>_. sr_return None)
   | F_WriterTakeover request_id machine_connection_epoch attachment_epoch columns rows \<Rightarrow>
       sr_bind (change_writer_without_control E me (ch_scope st) (pr_selection_epoch (ch_probe st))
         \<lparr>wq_request_id = request_id, wq_operation = O_WriterTakeover, wq_machine_connection_epoch = machine_connection_epoch,
          wq_attachment_epoch = attachment_epoch, wq_size = size_of columns rows\<rparr> True) (\<lambda>_. sr_return None)
   | F_SessionRefresh request_id machine_connection_epoch selection_epoch \<Rightarrow>
       if \<not> matches_connection_epoch machine_connection_epoch (ri_connection_epoch (ch_route st))
          \<or> selection_epoch \<noteq> pr_selection_epoch (ch_probe st)
       then sr_bind (send_stale_operation E me request_id O_SessionRefresh) (\<lambda>_. sr_return None)
       else sr_bind (send_operation_result E me request_id O_SessionRefresh PO_Succeeded ''chooser_refreshed''
              ''Refreshing the target session chooser.'') (\<lambda>_. sr_return (Some ChooseRefresh))
   | F_SessionCreate request_id machine_connection_epoch selection_epoch name \<Rightarrow>
       chooser_session_create E me st request_id machine_connection_epoch selection_epoch name
   | F_WorkspaceDetach \<Rightarrow> sr_return (Some ChooseDetach)
   | _ \<Rightarrow> sr_throw AE_Protocol)"

section \<open>Operations of a workspace\<close>

definition try_dispatch_operation :: "att_env \<Rightarrow> att_id \<Rightarrow> uuid \<Rightarrow> operation \<Rightarrow> bool att" where
  "try_dispatch_operation E me request_id oper =
     sr_bind (ask (ae_dispatch_free E)) (\<lambda>free.
     if \<not> free then sr_bind (send_operation_result E me request_id oper PO_Failed ''writer_busy''
       ''Another target operation is already being dispatched.'') (\<lambda>_. sr_return False)
     else sr_return True)"

definition mutation_result ::
  "att_env \<Rightarrow> att_id \<Rightarrow> nat \<Rightarrow> uuid \<Rightarrow> operation \<Rightarrow> mutation_outcome \<Rightarrow> frame_exit att" where
  "mutation_result E me a request_id oper outcome = (case outcome of
     Succeeded \<Rightarrow> sr_bind (send_operation_result E me request_id oper PO_Succeeded ''operation_succeeded''
       ''The target confirmed the operation.'') (\<lambda>_. sr_return FX_Continue)
   | MFailed \<Rightarrow> sr_bind (send_operation_result E me request_id oper PO_Failed ''target_rejected''
       ''The target rejected the operation without applying it.'') (\<lambda>_. sr_return FX_Continue)
   | Ambiguous \<Rightarrow> sr_bind (drop_writer me a) (\<lambda>_.
       sr_bind (send_operation_result E me request_id oper PO_Ambiguous ''operation_ambiguous''
         ''The operation may have occurred. It will not be retried.'') (\<lambda>_. sr_return FX_Chooser)))"

definition install_for :: "att_env \<Rightarrow> att_id \<Rightarrow> selection \<Rightarrow> (workspace_state option) att" where
  "install_for E me sel = install_projection E me (ri_connection_epoch (sel_route sel)) (sel_session_id sel) (sel_session_created sel)"

definition adopt :: "workspace_state \<Rightarrow> unit att" where
  "adopt k = sr_modify (\<lambda>w. w\<lparr>aw_workspace := k\<rparr>)"

definition refresh_after_mutation :: "att_env \<Rightarrow> att_id \<Rightarrow> selection \<Rightarrow> frame_exit att" where
  "refresh_after_mutation E me sel =
     sr_bind (install_for E me sel) (\<lambda>projection. case projection of
       None \<Rightarrow> sr_return FX_Chooser
     | Some nxt \<Rightarrow> sr_bind (current_route E me (sel_scope sel)) (\<lambda>current.
         if \<not> current then sr_throw AE_RouteChanged
         else sr_bind (adopt nxt) (\<lambda>_. sr_return FX_Continue)))"

text \<open>The steps every mutating arm takes before it touches the target: take the dispatch lock, be the
  current writer, be on the current route.\<close>

definition as_writer :: "att_env \<Rightarrow> att_id \<Rightarrow> selection \<Rightarrow> uuid \<Rightarrow> operation \<Rightarrow> frame_exit att \<Rightarrow> frame_exit att" where
  "as_writer E me sel request_id oper body =
     sr_bind (try_dispatch_operation E me request_id oper) (\<lambda>dispatched.
     if \<not> dispatched then sr_return FX_Continue
     else sr_bind (is_writer me (sel_scope sel)) (\<lambda>mine.
     if \<not> mine then sr_bind (send_writer_required E me request_id oper) (\<lambda>_. sr_return FX_Continue)
     else sr_bind (current_route E me (sel_scope sel)) (\<lambda>current.
     if \<not> current then sr_throw AE_RouteChanged else body)))"

text \<open>And the step after the target was asked: the route must still be current.\<close>

definition after_dispatch :: "att_env \<Rightarrow> att_id \<Rightarrow> selection \<Rightarrow> mutation_outcome ca \<Rightarrow> (mutation_outcome \<Rightarrow> frame_exit att) \<Rightarrow> frame_exit att" where
  "after_dispatch E me sel call rest =
     sr_bind (adapter_try call) (\<lambda>outcome.
     sr_bind (current_route E me (sel_scope sel)) (\<lambda>still.
     if \<not> still then sr_bind (drop_writer me (sel_scope sel)) (\<lambda>_. sr_throw AE_RouteChanged)
     else rest outcome))"

definition handle_pane_input ::
  "att_env \<Rightarrow> att_id \<Rightarrow> selection \<Rightarrow> uuid \<Rightarrow> bytes \<Rightarrow> uuid \<Rightarrow> bytes \<Rightarrow> bytes \<Rightarrow> frame_exit att" where
  "handle_pane_input E me sel request_id machine_connection_epoch workspace_epoch pane_id data_base64 =
     sr_bind (sr_gets aw_workspace) (\<lambda>k.
     if \<not> workspace_matches k machine_connection_epoch workspace_epoch \<or> wst_active_pane k \<noteq> pane_id
     then sr_bind (send_operation_result E me request_id O_PaneInput PO_Failed ''stale_epoch''
       ''Pane input was rejected before dispatch.'') (\<lambda>_. sr_return FX_Continue)
     else sr_bind (sr_lift (ok_or (decode_input E data_base64) AE_Protocol)) (\<lambda>bs.
     as_writer E me sel request_id O_PaneInput (
     after_dispatch E me sel (send_literal pane_id bs) (\<lambda>outcome.
     mutation_result E me (sel_scope sel) request_id O_PaneInput outcome))))"

definition handle_client_resize ::
  "att_env \<Rightarrow> att_id \<Rightarrow> selection \<Rightarrow> uuid \<Rightarrow> bytes \<Rightarrow> uuid \<Rightarrow> nat \<Rightarrow> nat \<Rightarrow> frame_exit att" where
  "handle_client_resize E me sel request_id machine_connection_epoch workspace_epoch columns rows =
     sr_bind (sr_gets aw_workspace) (\<lambda>k.
     if \<not> workspace_matches k machine_connection_epoch workspace_epoch
     then sr_bind (send_stale_operation E me request_id O_ClientResize) (\<lambda>_. sr_return FX_Continue)
     else if \<not> valid_client_size (size_of columns rows)
     then sr_bind (send_operation_result E me request_id O_ClientResize PO_Failed ''invalid_operation''
       ''The requested Browser size is outside the supported bounds.'') (\<lambda>_. sr_return FX_Continue)
     else as_writer E me sel request_id O_ClientResize (
     after_dispatch E me sel (resize columns rows) (\<lambda>outcome.
     if outcome \<noteq> Succeeded then mutation_result E me (sel_scope sel) request_id O_ClientResize outcome
     else sr_bind (writer_does (sel_scope sel) (\<lambda>s. snd (update_size (ai_attachment_id me) (size_of columns rows) s))) (\<lambda>_.
     sr_bind (send_operation_result E me request_id O_ClientResize PO_Succeeded ''resize_applied''
       ''The target accepted the Browser client size.'') (\<lambda>_.
     refresh_after_mutation E me sel)))))"

definition handle_window_select ::
  "att_env \<Rightarrow> att_id \<Rightarrow> selection \<Rightarrow> uuid \<Rightarrow> bytes \<Rightarrow> uuid \<Rightarrow> bytes \<Rightarrow> frame_exit att" where
  "handle_window_select E me sel request_id machine_connection_epoch workspace_epoch window_id =
     sr_bind (sr_gets aw_workspace) (\<lambda>k.
     if \<not> workspace_matches k machine_connection_epoch workspace_epoch \<or> window_id \<notin> wst_windows k
     then sr_bind (send_stale_operation E me request_id O_WindowSelect) (\<lambda>_. sr_return FX_Continue)
     else as_writer E me sel request_id O_WindowSelect (
     after_dispatch E me sel (select_window window_id) (\<lambda>outcome.
     if outcome \<noteq> Succeeded then mutation_result E me (sel_scope sel) request_id O_WindowSelect outcome
     else sr_bind (send_operation_result E me request_id O_WindowSelect PO_Succeeded ''window_selected''
       ''The target selected the observed window.'') (\<lambda>_.
     refresh_after_mutation E me sel))))"

definition handle_pane_select ::
  "att_env \<Rightarrow> att_id \<Rightarrow> selection \<Rightarrow> uuid \<Rightarrow> bytes \<Rightarrow> uuid \<Rightarrow> bytes \<Rightarrow> frame_exit att" where
  "handle_pane_select E me sel request_id machine_connection_epoch workspace_epoch pane_id =
     sr_bind (sr_gets aw_workspace) (\<lambda>k.
     if \<not> workspace_matches k machine_connection_epoch workspace_epoch \<or> pane_id \<notin> wst_visible_panes k
     then sr_bind (send_stale_operation E me request_id O_PaneSelect) (\<lambda>_. sr_return FX_Continue)
     else as_writer E me sel request_id O_PaneSelect (
     after_dispatch E me sel (select_pane pane_id) (\<lambda>outcome.
     if outcome \<noteq> Succeeded then mutation_result E me (sel_scope sel) request_id O_PaneSelect outcome
     else sr_bind (send_operation_result E me request_id O_PaneSelect PO_Succeeded ''pane_selected''
       ''The target selected the observed pane.'') (\<lambda>_.
     refresh_after_mutation E me sel))))"

definition handle_workspace_refresh :: "att_env \<Rightarrow> att_id \<Rightarrow> selection \<Rightarrow> uuid \<Rightarrow> bytes \<Rightarrow> uuid \<Rightarrow> frame_exit att" where
  "handle_workspace_refresh E me sel request_id machine_connection_epoch workspace_epoch =
     sr_bind (sr_gets aw_workspace) (\<lambda>k.
     if \<not> workspace_matches k machine_connection_epoch workspace_epoch
     then sr_bind (send_stale_operation E me request_id O_WorkspaceRefresh) (\<lambda>_. sr_return FX_Continue)
     else as_writer E me sel request_id O_WorkspaceRefresh (
     sr_bind (install_for E me sel) (\<lambda>projection. case projection of
       None \<Rightarrow> sr_return FX_Chooser
     | Some nxt \<Rightarrow> sr_bind (current_route E me (sel_scope sel)) (\<lambda>current.
         if \<not> current then sr_throw AE_RouteChanged
         else sr_bind (adopt nxt) (\<lambda>_.
         sr_bind (send_operation_result E me request_id O_WorkspaceRefresh PO_Succeeded ''projection_refreshed''
           ''A fresh target projection was installed.'') (\<lambda>_. sr_return FX_Continue))))))"

section \<open>Changing the writer with a control client\<close>

definition failed_closed ::
  "att_env \<Rightarrow> att_id \<Rightarrow> writer_request \<Rightarrow> bool \<Rightarrow> bytes \<Rightarrow> frame_exit att" where
  "failed_closed E me request ambiguous message =
     sr_bind (send_operation_result E me (wq_request_id request) (wq_operation request)
       (if ambiguous then PO_Ambiguous else PO_Failed)
       (if ambiguous then ''operation_ambiguous'' else ''writer_transition_failed'') message) (\<lambda>_. sr_return FX_Chooser)"

text \<open>The first part of the transfer: demote the attachment that holds the role, if it is another one
  with a control client. \<open>Some exit\<close> ends the handler.\<close>

definition demote_old ::
  "att_env \<Rightarrow> att_id \<Rightarrow> nat \<Rightarrow> writer_request \<Rightarrow> channel option \<Rightarrow> (frame_exit option) att" where
  "demote_old E me a request old_control = (case old_control of
     None \<Rightarrow> sr_return None
   | Some old \<Rightarrow>
       sr_bind (demote_writer E old) (\<lambda>outcome.
       sr_bind (current_route E me a) (\<lambda>current.
       if \<not> current then
         sr_bind (writer_does a clear_writer) (\<lambda>_. sr_bind (direct old Close) (\<lambda>_. sr_throw AE_RouteChanged))
       else if outcome \<noteq> CO_Succeeded then
         sr_bind (writer_does a clear_writer) (\<lambda>_. sr_bind (direct old Close) (\<lambda>_.
         sr_bind (failed_closed E me request (outcome = CO_Ambiguous)
           ''Writer transition failed closed; no writer was retained.'') (\<lambda>x. sr_return (Some x))))
       else sr_return None)))"

text \<open>The second part: become the writer. \<open>Some exit\<close> ends the handler.\<close>

definition become_writer ::
  "att_env \<Rightarrow> att_id \<Rightarrow> nat \<Rightarrow> writer_request \<Rightarrow> channel option \<Rightarrow> (frame_exit option) att" where
  "become_writer E me a request old_control =
     sr_bind (is_writer me a) (\<lambda>mine.
     if mine then
       sr_bind (writer_does a (\<lambda>s. snd (update_size (ai_attachment_id me) (wq_size request) s))) (\<lambda>_.
       sr_bind (writer_does a (\<lambda>s. snd (set_control (ai_attachment_id me) (ai_control_tx me) s))) (\<lambda>_. sr_return None))
     else
       sr_bind (adapter_does (set_writer True)) (\<lambda>outcome.
       sr_bind (current_route E me a) (\<lambda>current.
       if \<not> current then
         sr_bind (writer_does a clear_writer) (\<lambda>_. sr_bind (close_old old_control) (\<lambda>_. sr_throw AE_RouteChanged))
       else if outcome \<noteq> Succeeded then
         sr_bind (writer_does a clear_writer) (\<lambda>_. sr_bind (close_old old_control) (\<lambda>_.
         sr_bind (failed_closed E me request (outcome = Ambiguous)
           ''Writer transition failed closed; no writer was retained.'') (\<lambda>x. sr_return (Some x))))
       else sr_bind (writer_does a (set_current (ai_attachment_id me) (wq_size request) (Some (ai_control_tx me)))) (\<lambda>_.
         sr_return None))))"

text \<open>The third part: size the control client and show a fresh projection.\<close>

definition activate_writer ::
  "att_env \<Rightarrow> att_id \<Rightarrow> selection \<Rightarrow> writer_request \<Rightarrow> channel option \<Rightarrow> bool \<Rightarrow> frame_exit att" where
  "activate_writer E me sel request old_control takeover =
     (let a = sel_scope sel in
     sr_bind (adapter_try (resize (cs_columns (wq_size request)) (cs_rows (wq_size request)))) (\<lambda>resized.
     sr_bind (current_route E me a) (\<lambda>current.
     if \<not> current then
       sr_bind (drop_writer me a) (\<lambda>_. sr_bind (close_old old_control) (\<lambda>_. sr_throw AE_RouteChanged))
     else if resized \<noteq> Succeeded then
       sr_bind (drop_writer me a) (\<lambda>_. sr_bind (close_old old_control) (\<lambda>_.
       failed_closed E me request (resized = Ambiguous) ''Writer resize failed closed; no writer was retained.''))
     else sr_bind (install_for E me sel) (\<lambda>projection. case projection of
         None \<Rightarrow> sr_bind (drop_writer me a) (\<lambda>_. sr_return FX_Chooser)
       | Some nxt \<Rightarrow> sr_bind (current_route E me a) (\<lambda>still.
           if \<not> still then sr_bind (drop_writer me a) (\<lambda>_. sr_throw AE_RouteChanged)
           else sr_bind (adopt nxt) (\<lambda>_.
           sr_bind (send_operation_result E me (wq_request_id request) (wq_operation request) PO_Succeeded
             (if takeover then ''writer_taken_over'' else ''writer_claimed'')
             ''Writer access is active after a fresh target projection.'') (\<lambda>_. sr_return FX_Continue)))))))"

definition change_writer_with_control ::
  "att_env \<Rightarrow> att_id \<Rightarrow> selection \<Rightarrow> writer_request \<Rightarrow> bool \<Rightarrow> frame_exit att" where
  "change_writer_with_control E me sel request takeover =
     (let a = sel_scope sel in
     sr_bind (sr_gets aw_workspace) (\<lambda>k.
     if wq_attachment_epoch request \<noteq> wst_epoch k
        \<or> \<not> matches_connection_epoch (wq_machine_connection_epoch request) (ri_connection_epoch (sel_route sel))
     then sr_bind (send_stale_operation E me (wq_request_id request) (wq_operation request)) (\<lambda>_. sr_return FX_Continue)
     else if \<not> valid_client_size (wq_size request)
     then sr_bind (send_operation_result E me (wq_request_id request) (wq_operation request) PO_Failed ''invalid_operation''
       ''The requested Browser size is outside the supported bounds.'') (\<lambda>_. sr_return FX_Continue)
     else sr_bind (try_dispatch_operation E me (wq_request_id request) (wq_operation request)) (\<lambda>dispatched.
     if \<not> dispatched then sr_return FX_Continue
     else sr_bind (current_route E me a) (\<lambda>current.
     if \<not> current then sr_throw AE_RouteChanged
     else sr_bind (writer_reads a (\<lambda>s. (is_available s, is_current (ai_attachment_id me) s, current_control s))) (\<lambda>(available, mine, control).
     if \<not> available \<and> \<not> mine \<and> \<not> takeover
     then sr_bind (send_operation_result E me (wq_request_id request) (wq_operation request) PO_Failed ''writer_busy''
       ''Another OwlMux Browser attachment is the current writer.'') (\<lambda>_. sr_return FX_Continue)
     else
       (let old_control = (if mine then None else control) in
        sr_bind (demote_old E me a request old_control) (\<lambda>ended. case ended of
          Some x \<Rightarrow> sr_return x
        | None \<Rightarrow> sr_bind (become_writer E me a request old_control) (\<lambda>ended'. case ended' of
            Some x \<Rightarrow> sr_return x
          | None \<Rightarrow> activate_writer E me sel request old_control takeover))))))))"

definition handle_workspace_frame :: "att_env \<Rightarrow> att_id \<Rightarrow> selection \<Rightarrow> client_frame \<Rightarrow> frame_exit att" where
  "handle_workspace_frame E me sel frame = (case frame of
     F_WorkspaceReturnToChooser machine_connection_epoch workspace_epoch \<Rightarrow>
       sr_bind (sr_gets aw_workspace) (\<lambda>k.
       if workspace_matches k machine_connection_epoch workspace_epoch then sr_return FX_Chooser
       else sr_bind (send_workspace_error E me ''stale_epoch'' ''Workspace state is stale.'') (\<lambda>_. sr_return FX_Continue))
   | F_WorkspaceDetach \<Rightarrow> sr_return FX_Detach
   | F_WriterClaim request_id machine_connection_epoch attachment_epoch columns rows \<Rightarrow>
       change_writer_with_control E me sel
         \<lparr>wq_request_id = request_id, wq_operation = O_WriterClaim, wq_machine_connection_epoch = machine_connection_epoch,
          wq_attachment_epoch = attachment_epoch, wq_size = size_of columns rows\<rparr> False
   | F_WriterTakeover request_id machine_connection_epoch attachment_epoch columns rows \<Rightarrow>
       change_writer_with_control E me sel
         \<lparr>wq_request_id = request_id, wq_operation = O_WriterTakeover, wq_machine_connection_epoch = machine_connection_epoch,
          wq_attachment_epoch = attachment_epoch, wq_size = size_of columns rows\<rparr> True
   | F_PaneInput request_id machine_connection_epoch workspace_epoch pane_id data_base64 \<Rightarrow>
       handle_pane_input E me sel request_id machine_connection_epoch workspace_epoch pane_id data_base64
   | F_ClientResize request_id machine_connection_epoch workspace_epoch columns rows \<Rightarrow>
       handle_client_resize E me sel request_id machine_connection_epoch workspace_epoch columns rows
   | F_WindowSelect request_id machine_connection_epoch workspace_epoch window_id \<Rightarrow>
       handle_window_select E me sel request_id machine_connection_epoch workspace_epoch window_id
   | F_PaneSelect request_id machine_connection_epoch workspace_epoch pane_id \<Rightarrow>
       handle_pane_select E me sel request_id machine_connection_epoch workspace_epoch pane_id
   | F_WorkspaceRefresh request_id machine_connection_epoch workspace_epoch \<Rightarrow>
       handle_workspace_refresh E me sel request_id machine_connection_epoch workspace_epoch
   | _ \<Rightarrow> sr_throw AE_Protocol)"

section \<open>Steps of the handlers\<close>

lemma kept_refl [simp]: "kept w w"
  by (simp add: kept_def)

lemma kept_trans: "kept w t \<Longrightarrow> kept t u \<Longrightarrow> kept w u"
  by (simp add: kept_def)

lemma wp_is_writer [wp_simps]: "sr_wp (is_writer me a) Q R w = Q (is_current (ai_attachment_id me) (scope_at a w)) w"
  by (simp add: is_writer_def wp_simps)

lemma wp_stale [wp_rules]:
  "(\<And>t code msg. kept w t \<Longrightarrow> aw_frames t = aw_frames w @ [S_OperationResult rid oper PO_Failed code msg] \<Longrightarrow>
       aw_results t = aw_results w @ [(oper, PO_Failed)] \<Longrightarrow> Q () t) \<Longrightarrow>
   (\<And>e t. kept w t \<Longrightarrow> aw_frames t = aw_frames w \<Longrightarrow> aw_results t = aw_results w @ [(oper, PO_Failed)] \<Longrightarrow> R e t) \<Longrightarrow>
   sr_wp (send_stale_operation E me rid oper) Q R w"
  unfolding send_stale_operation_def by (rule wp_send_operation_result)

lemma wp_required [wp_rules]:
  "(\<And>t code msg. kept w t \<Longrightarrow> aw_frames t = aw_frames w @ [S_OperationResult rid oper PO_Failed code msg] \<Longrightarrow>
       aw_results t = aw_results w @ [(oper, PO_Failed)] \<Longrightarrow> Q () t) \<Longrightarrow>
   (\<And>e t. kept w t \<Longrightarrow> aw_frames t = aw_frames w \<Longrightarrow> aw_results t = aw_results w @ [(oper, PO_Failed)] \<Longrightarrow> R e t) \<Longrightarrow>
   sr_wp (send_writer_required E me rid oper) Q R w"
  unfolding send_writer_required_def by (rule wp_send_operation_result)

lemma wp_try_dispatch [wp_rules]:
  "(\<And>t code msg. kept w t \<Longrightarrow> aw_frames t = aw_frames w @ [S_OperationResult rid oper PO_Failed code msg] \<Longrightarrow>
       aw_results t = aw_results w @ [(oper, PO_Failed)] \<Longrightarrow> Q False t) \<Longrightarrow>
   (\<And>t. silent w t \<Longrightarrow> Q True t) \<Longrightarrow>
   (\<And>e t. kept w t \<Longrightarrow> aw_frames t = aw_frames w \<Longrightarrow> aw_results t = aw_results w @ [(oper, PO_Failed)] \<Longrightarrow> R e t) \<Longrightarrow>
   sr_wp (try_dispatch_operation E me rid oper) Q R w"
  unfolding try_dispatch_operation_def wp_bind
  by (rule wp_ask_silent)
     (simp add: wp_simps, intro impI wp_send_operation_result; simp add: wp_simps silent_def kept_def)

text \<open>A dispatch guard passes only the current writer on its route to the body.\<close>

lemma wp_as_writer:
  assumes "\<And>t code msg. kept w t \<Longrightarrow> aw_frames t = aw_frames w @ [S_OperationResult rid oper PO_Failed code msg] \<Longrightarrow>
       aw_results t = aw_results w @ [(oper, PO_Failed)] \<Longrightarrow> Q FX_Continue t"
    and "\<And>e t. kept w t \<Longrightarrow> aw_frames t = aw_frames w \<Longrightarrow>
       aw_results t = aw_results w \<or> aw_results t = aw_results w @ [(oper, PO_Failed)] \<Longrightarrow> R e t"
    and "\<And>t. is_current (ai_attachment_id me) (scope_at (sel_scope sel) w) \<Longrightarrow> silent w t \<Longrightarrow> sr_wp body Q R t"
  shows "sr_wp (as_writer E me sel rid oper body) Q R w"
  unfolding as_writer_def wp_bind
proof (rule wp_try_dispatch, goal_cases)
  case (2 t)
  then have k: "kept w t" and f: "aw_frames t = aw_frames w" and r: "aw_results t = aw_results w" by (simp_all add: silent_def)
  show ?case
  proof (cases "is_current (ai_attachment_id me) (scope_at (sel_scope sel) t)")
    case True
    with k have c: "is_current (ai_attachment_id me) (scope_at (sel_scope sel) w)" by (simp add: keptD)
    have go: "sr_wp (if \<not> b then sr_throw AE_RouteChanged else body) Q R u" if "silent t u" for b u
      using that k f r assms(2) [of u] assms(3) [OF c, of u] by (auto simp: wp_simps silent_def intro: kept_trans)
    from True show ?thesis by (simp add: wp_bind wp_is_writer) (intro wp_current_route go)
  next
    case False
    then show ?thesis
      using k f r by (simp add: wp_simps, intro wp_required) (auto simp: wp_simps intro!: assms(1,2) intro: kept_trans)
  qed
qed (simp_all add: wp_simps assms)

section \<open>Requests of observers and stale requests\<close>

definition changes_writer :: "client_frame \<Rightarrow> bool" where
  "changes_writer frame = (case frame of F_WriterClaim _ _ _ _ _ \<Rightarrow> True | F_WriterTakeover _ _ _ _ _ \<Rightarrow> True | _ \<Rightarrow> False)"

lemma wp_as_observer:
  assumes "\<not> is_current (ai_attachment_id me) (scope_at (sel_scope sel) w)"
  shows "sr_wp (as_writer E me sel rid oper body) (\<lambda>_. kept w) (\<lambda>_. kept w) w"
  by (rule wp_as_writer) (use assms in auto)

lemma observer_frame:
  assumes "\<not> is_current (ai_attachment_id me) (scope_at (sel_scope sel) w)" and "\<not> changes_writer frame"
  shows "sr_wp (handle_workspace_frame E me sel frame) (\<lambda>_. kept w) (\<lambda>_. kept w) w"
  using assms(2)
  by (cases frame)
     (auto simp: handle_workspace_frame_def changes_writer_def handle_pane_input_def handle_client_resize_def handle_window_select_def
        handle_pane_select_def handle_workspace_refresh_def send_workspace_error_def wp_simps
        intro!: wp_as_observer [OF assms(1)] wp_rules wp_lift dest: silentD)

definition sample_selection :: selection where
  "sample_selection = \<lparr>sel_session_id = ''$0'', sel_session_created = 1700000000,
     sel_route = \<lparr>ri_route_revision = 1, ri_connection_epoch = 3, ri_connection_id = 9\<rparr>, sel_scope = 0\<rparr>"

definition sample_holder :: "uuid \<Rightarrow> writer_handle" where
  "sample_holder u = \<lparr>wh_attachment_id = u, wh_size = \<lparr>cs_columns = 80, cs_rows = 24\<rparr>, wh_control = Some 2\<rparr>"



section \<open>Answers\<close>

fun request_of :: "client_frame \<Rightarrow> (uuid \<times> operation) option" where
  "request_of (F_WriterClaim rid _ _ _ _) = Some (rid, O_WriterClaim)"
| "request_of (F_WriterTakeover rid _ _ _ _) = Some (rid, O_WriterTakeover)"
| "request_of (F_SessionRefresh rid _ _) = Some (rid, O_SessionRefresh)"
| "request_of (F_SessionCreate rid _ _ _) = Some (rid, O_SessionCreate)"
| "request_of (F_WindowSelect rid _ _ _) = Some (rid, O_WindowSelect)"
| "request_of (F_PaneSelect rid _ _ _) = Some (rid, O_PaneSelect)"
| "request_of (F_PaneInput rid _ _ _ _) = Some (rid, O_PaneInput)"
| "request_of (F_ClientResize rid _ _ _ _) = Some (rid, O_ClientResize)"
| "request_of (F_WorkspaceRefresh rid _ _) = Some (rid, O_WorkspaceRefresh)"
| "request_of _ = None"

definition results_shown :: "att_world \<Rightarrow> server_frame list" where
  "results_shown w = filter is_result (aw_frames w)"

definition scope_valid :: "nat \<Rightarrow> att_world \<Rightarrow> bool" where
  "scope_valid a w \<longleftrightarrow> a < length (wr_heap (aw_writers w))"

text \<open>The request was not answered yet, or it was answered once; an ambiguous answer is only given by an
  attachment that gave up the writer role.\<close>

definition unanswered :: "att_world \<Rightarrow> att_world \<Rightarrow> bool" where
  "unanswered w t \<longleftrightarrow> aw_results t = aw_results w \<and> results_shown t = results_shown w"

definition answered :: "att_id \<Rightarrow> nat \<Rightarrow> uuid \<times> operation \<Rightarrow> att_world \<Rightarrow> public_outcome \<Rightarrow> att_world \<Rightarrow> bool" where
  "answered me a q w oc t \<longleftrightarrow> aw_results t = aw_results w @ [(snd q, oc)]
     \<and> (\<exists>code msg. results_shown t = results_shown w @ [S_OperationResult (fst q) (snd q) oc code msg])
     \<and> (oc = PO_Ambiguous \<longrightarrow> \<not> is_current (ai_attachment_id me) (scope_at a t))"

definition exit_ok :: "att_id \<Rightarrow> nat \<Rightarrow> uuid \<times> operation \<Rightarrow> att_world \<Rightarrow> frame_exit \<Rightarrow> att_world \<Rightarrow> bool" where
  "exit_ok me a q w x t \<longleftrightarrow> x = FX_Chooser \<and> unanswered w t
     \<or> (\<exists>oc. answered me a q w oc t \<and> (oc = PO_Ambiguous \<longrightarrow> x = FX_Chooser))"

definition fail_ok :: "att_id \<Rightarrow> nat \<Rightarrow> uuid \<times> operation \<Rightarrow> att_world \<Rightarrow> attachment_error \<Rightarrow> att_world \<Rightarrow> bool" where
  "fail_ok me a q w e t \<longleftrightarrow> aw_results t = aw_results w
     \<or> (\<exists>oc. aw_results t = aw_results w @ [(snd q, oc)] \<and> (oc = PO_Ambiguous \<longrightarrow> \<not> is_current (ai_attachment_id me) (scope_at a t)))"

lemmas answer_defs = exit_ok_def fail_ok_def answered_def unanswered_def results_shown_def

lemma is_result_simps [simp]: "is_result (S_OperationResult rid oper oc code msg)"
  by (simp add: is_result_def)

lemma scope_at_set [simp]:
  "scope_valid a w \<Longrightarrow> scope_at a (w\<lparr>aw_writers := (aw_writers w)\<lparr>wr_heap := (wr_heap (aw_writers w))[a := s]\<rparr>\<rparr>) = s"
  by (simp add: scope_valid_def scope_at_def)

lemma scope_valid_same: "aw_writers t = aw_writers w \<Longrightarrow> scope_valid a t = scope_valid a w"
  by (simp add: scope_valid_def)

lemma wp_writer_does:
  assumes "scope_valid a w"
    and "\<And>t. aw_control t = aw_control w \<Longrightarrow> aw_workspace t = aw_workspace w \<Longrightarrow> aw_directives t = aw_directives w \<Longrightarrow>
      aw_frames t = aw_frames w \<Longrightarrow> aw_results t = aw_results w \<Longrightarrow> scope_valid a t \<Longrightarrow> scope_at a t = f (scope_at a w) \<Longrightarrow> Q () t"
  shows "sr_wp (writer_does a f) Q R w"
  using assms(1) by (simp add: writer_does_def wp_simps) (rule assms(2), simp_all add: scope_valid_def)

lemma cleared_not_current [simp]: "\<not> is_current b (snd (clear_if_current b s))" "\<not> is_current b (clear_writer s)"
  by (auto simp: is_current_def clear_if_current_def clear_writer_def notify_def split: option.splits)

lemma shown_results: "shown w t \<Longrightarrow> aw_results t = aw_results w \<and> results_shown t = results_shown w \<and> scope_at a t = scope_at a w
    \<and> aw_writers t = aw_writers w"
  by (auto simp: shown_def results_shown_def scope_at_def list_all_iff)

text \<open>Sending the answer at the end of a handler.\<close>

lemma wp_answer:
  assumes "unanswered w0 w" and "oc = PO_Ambiguous \<longrightarrow> x = FX_Chooser \<and> \<not> is_current (ai_attachment_id me) (scope_at a w)"
  shows "sr_wp (sr_bind (send_operation_result E me rid oper oc code msg) (\<lambda>_. sr_return x))
    (exit_ok me a (rid, oper) w0) (fail_ok me a (rid, oper) w0) w"
  unfolding wp_bind
  by (rule wp_send_operation_result) (use assms in \<open>auto simp: wp_simps answer_defs keptD\<close>)

lemma wp_mutation_result:
  assumes "unanswered w0 w" and "scope_valid a w"
  shows "sr_wp (mutation_result E me a rid oper outcome) (exit_ok me a (rid, oper) w0) (fail_ok me a (rid, oper) w0) w"
proof (cases outcome)
  case Ambiguous
  have "sr_wp (drop_writer me a) (\<lambda>_. sr_wp (sr_bind (send_operation_result E me rid oper PO_Ambiguous ''operation_ambiguous''
      ''The operation may have occurred. It will not be retried.'') (\<lambda>_. sr_return FX_Chooser))
      (exit_ok me a (rid, oper) w0) (fail_ok me a (rid, oper) w0)) (fail_ok me a (rid, oper) w0) w"
    unfolding drop_writer_def
    by (rule wp_writer_does [OF assms(2)], rule wp_answer) (use assms(1) in \<open>auto simp: answer_defs\<close>)
  with Ambiguous show ?thesis by (simp add: mutation_result_def wp_bind)
qed (use assms in \<open>simp_all add: mutation_result_def wp_answer\<close>)

lemma wp_refresh:
  assumes "answered me a q w0 oc w" and "oc \<noteq> PO_Ambiguous"
  shows "sr_wp (refresh_after_mutation E me sel) (exit_ok me a q w0) (fail_ok me a q w0) w"
  unfolding refresh_after_mutation_def install_for_def wp_bind
proof (rule wp_install)
  fix p t assume t: "shown w t"
  show "sr_wp (case p of None \<Rightarrow> sr_return FX_Chooser | Some nxt \<Rightarrow> sr_bind (current_route E me (sel_scope sel)) (\<lambda>current.
      if \<not> current then sr_throw AE_RouteChanged else sr_bind (adopt nxt) (\<lambda>_. sr_return FX_Continue)))
      (exit_ok me a q w0) (fail_ok me a q w0) t"
    using assms shown_results [OF t]
    by (auto simp: wp_option wp_simps adopt_def answer_defs silent_def intro!: wp_current_route split: option.splits)
qed (use assms in \<open>auto simp: answer_defs dest: shown_results\<close>)

lemma fail_unanswered: "unanswered w0 w \<Longrightarrow> fail_ok me a q w0 e w"
  by (simp add: answer_defs)

lemma wp_dropped_error:
  assumes "unanswered w0 w" and "scope_valid a w"
  shows "sr_wp (sr_bind (drop_writer me a) (\<lambda>_. sr_throw e)) Q (fail_ok me a q w0) w"
  unfolding wp_bind drop_writer_def
  by (rule wp_writer_does [OF assms(2)]) (use assms(1) in \<open>auto simp: wp_simps answer_defs\<close>)

lemma wp_after_dispatch:
  assumes "unanswered w0 w" and "scope_valid (sel_scope sel) w"
    and "\<And>out t. unanswered w0 t \<Longrightarrow> scope_valid (sel_scope sel) t \<Longrightarrow> sr_wp (rest out) Q (fail_ok me (sel_scope sel) q w0) t"
  shows "sr_wp (after_dispatch E me sel call rest) Q (fail_ok me (sel_scope sel) q w0) w"
  unfolding after_dispatch_def wp_bind
proof (rule wp_adapter_try)
  fix out c
  let ?t = "w\<lparr>aw_control := c\<rparr>"
  have t: "unanswered w0 u" "scope_valid (sel_scope sel) u" if "silent ?t u" for u
    using that assms(1,2) by (auto simp: answer_defs silent_def kept_def scope_valid_def)
  have "sr_wp (if \<not> b then sr_bind (drop_writer me (sel_scope sel)) (\<lambda>_. sr_throw AE_RouteChanged) else rest out) Q
      (fail_ok me (sel_scope sel) q w0) u" if "silent ?t u" for b u
    using wp_dropped_error [OF t [OF that]] assms(3) [OF t [OF that]] by (cases b) simp_all
  then show "sr_wp (current_route E me (sel_scope sel)) (\<lambda>a. sr_wp
      (if \<not> a then sr_bind (drop_writer me (sel_scope sel)) (\<lambda>_. sr_throw AE_RouteChanged) else rest out) Q
        (fail_ok me (sel_scope sel) q w0)) (fail_ok me (sel_scope sel) q w0) ?t"
    by (rule wp_current_route)
qed (use assms(1) in \<open>auto simp: answer_defs\<close>)

text \<open>An arm that ends with its answer when the guard refuses.\<close>

lemma wp_guarded:
  assumes "unanswered w0 w" and "scope_valid (sel_scope sel) w"
    and "\<And>t. unanswered w0 t \<Longrightarrow> scope_valid (sel_scope sel) t \<Longrightarrow>
      sr_wp body (exit_ok me (sel_scope sel) (rid, oper) w0) (fail_ok me (sel_scope sel) (rid, oper) w0) t"
  shows "sr_wp (as_writer E me sel rid oper body) (exit_ok me (sel_scope sel) (rid, oper) w0) (fail_ok me (sel_scope sel) (rid, oper) w0) w"
proof (rule wp_as_writer, goal_cases)
  case (3 t)
  with assms(1,2) show ?case by (intro assms(3)) (auto simp: silent_def kept_def answer_defs scope_valid_def)
qed (use assms(1) in \<open>auto simp: answer_defs\<close>)

text \<open>An answered success followed by a fresh projection.\<close>

lemma wp_success_refresh:
  assumes "unanswered w0 w"
  shows "sr_wp (sr_bind (send_operation_result E me rid oper PO_Succeeded code msg) (\<lambda>_. refresh_after_mutation E me sel))
    (exit_ok me a (rid, oper) w0) (fail_ok me a (rid, oper) w0) w"
  unfolding wp_bind
  by (rule wp_send_operation_result, rule wp_refresh [where oc = PO_Succeeded]) (use assms in \<open>auto simp: answer_defs\<close>)

lemma unanswered_refl [simp]: "unanswered w w"
  by (simp add: answer_defs)

lemma pane_input_answers:
  "scope_valid (sel_scope sel) w \<Longrightarrow> sr_wp (handle_pane_input E me sel rid ce ep p d)
     (exit_ok me (sel_scope sel) (rid, O_PaneInput) w) (fail_ok me (sel_scope sel) (rid, O_PaneInput) w) w"
  unfolding handle_pane_input_def wp_bind wp_gets wp_if
  by (auto intro!: wp_answer [unfolded wp_bind] wp_lift wp_guarded wp_after_dispatch wp_mutation_result fail_unanswered)

lemma client_resize_answers:
  "scope_valid (sel_scope sel) w \<Longrightarrow> sr_wp (handle_client_resize E me sel rid ce ep c r)
     (exit_ok me (sel_scope sel) (rid, O_ClientResize) w) (fail_ok me (sel_scope sel) (rid, O_ClientResize) w) w"
  unfolding handle_client_resize_def send_stale_operation_def wp_bind wp_gets wp_if
  apply (auto intro!: wp_answer [unfolded wp_bind] wp_guarded wp_after_dispatch wp_mutation_result)
  apply (auto simp: wp_if wp_bind intro!: wp_mutation_result wp_writer_does wp_success_refresh [unfolded wp_bind] simp: unanswered_def results_shown_def)
  done

lemma window_select_answers:
  "scope_valid (sel_scope sel) w \<Longrightarrow> sr_wp (handle_window_select E me sel rid ce ep v)
     (exit_ok me (sel_scope sel) (rid, O_WindowSelect) w) (fail_ok me (sel_scope sel) (rid, O_WindowSelect) w) w"
  unfolding handle_window_select_def send_stale_operation_def wp_bind wp_gets wp_if
  by (auto intro!: wp_answer [unfolded wp_bind] wp_guarded wp_after_dispatch)
     (auto simp: wp_if intro!: wp_mutation_result wp_success_refresh)

lemma pane_select_answers:
  "scope_valid (sel_scope sel) w \<Longrightarrow> sr_wp (handle_pane_select E me sel rid ce ep v)
     (exit_ok me (sel_scope sel) (rid, O_PaneSelect) w) (fail_ok me (sel_scope sel) (rid, O_PaneSelect) w) w"
  unfolding handle_pane_select_def send_stale_operation_def wp_bind wp_gets wp_if
  by (auto intro!: wp_answer [unfolded wp_bind] wp_guarded wp_after_dispatch)
     (auto simp: wp_if intro!: wp_mutation_result wp_success_refresh)

text \<open>Installing a projection, then adopting it and answering.\<close>

lemma wp_install_then:
  assumes "unanswered w0 w" and "scope_valid a w"
    and "\<And>p t. unanswered w0 t \<Longrightarrow> scope_valid a t \<Longrightarrow> scope_at a t = scope_at a w \<Longrightarrow> sr_wp (k p) Q (fail_ok me a q w0) t"
  shows "sr_wp (sr_bind (install_for E me sel) k) Q (fail_ok me a q w0) w"
  unfolding wp_bind install_for_def
  by (rule wp_install, rule assms(3)) (use assms(1,2) in \<open>auto simp: answer_defs scope_valid_def dest!: shown_results\<close>)

lemma wp_route_then:
  assumes "unanswered w0 w" and "scope_valid a w"
    and "\<And>b t. unanswered w0 t \<Longrightarrow> scope_valid a t \<Longrightarrow> scope_at a t = scope_at a w \<Longrightarrow> sr_wp (k b) Q R t"
  shows "sr_wp (sr_bind (current_route E me a) k) Q R w"
  unfolding wp_bind
  by (rule wp_current_route, rule assms(3)) (use assms(1,2) in \<open>auto simp: answer_defs scope_valid_def silent_def keptD\<close>)

lemma wp_adopt [wp_simps]: "sr_wp (adopt k) Q R w = Q () (w\<lparr>aw_workspace := k\<rparr>)"
  by (simp add: adopt_def wp_simps)

lemma wp_adopt_answer:
  assumes "unanswered w0 w"
  shows "sr_wp (sr_bind (adopt k) (\<lambda>_. sr_bind (send_operation_result E me rid oper PO_Succeeded code msg) (\<lambda>_. sr_return FX_Continue)))
    (exit_ok me a (rid, oper) w0) (fail_ok me a (rid, oper) w0) w"
proof -
  from assms have "unanswered w0 (w\<lparr>aw_workspace := k\<rparr>)" by (simp add: answer_defs)
  then show ?thesis unfolding wp_bind [of "adopt k"] wp_adopt by (intro wp_answer) simp_all
qed

lemma exit_chooser: "unanswered w0 w \<Longrightarrow> exit_ok me a q w0 FX_Chooser w"
  by (simp add: exit_ok_def)

lemma workspace_refresh_answers:
  "scope_valid (sel_scope sel) w \<Longrightarrow> sr_wp (handle_workspace_refresh E me sel rid ce ep)
     (exit_ok me (sel_scope sel) (rid, O_WorkspaceRefresh) w) (fail_ok me (sel_scope sel) (rid, O_WorkspaceRefresh) w) w"
  unfolding handle_workspace_refresh_def send_stale_operation_def wp_bind [of "sr_gets _"] wp_gets wp_if
  by (auto intro!: wp_answer wp_guarded wp_install_then wp_route_then wp_adopt_answer
        simp: wp_option wp_if wp_return wp_throw exit_chooser fail_unanswered split: option.splits)

lemma wp_direct [wp_simps]: "sr_wp (direct ch d) Q R w = Q () (w\<lparr>aw_directives := aw_directives w @ [(ch, d)]\<rparr>)"
  by (simp add: direct_def wp_simps)

lemma unanswered_directives [simp]: "unanswered w0 (w\<lparr>aw_directives := ds\<rparr>) = unanswered w0 w"
  "scope_valid a (w\<lparr>aw_directives := ds\<rparr>) = scope_valid a w"
  by (simp_all add: answer_defs scope_valid_def)

lemma wp_demote [wp_rules]:
  assumes "\<And>out t. (out = CO_Succeeded \<Longrightarrow> (\<exists>n. ae_demote E n = Answered CO_Succeeded) \<and> (ch, Demote) \<in> set (aw_directives t)) \<Longrightarrow>
      aw_control t = aw_control w \<Longrightarrow> aw_writers t = aw_writers w \<Longrightarrow> aw_workspace t = aw_workspace w \<Longrightarrow>
      aw_frames t = aw_frames w \<Longrightarrow> aw_results t = aw_results w \<Longrightarrow> Q out t"
  shows "sr_wp (demote_writer E ch) Q R w"
proof (cases "ae_demote E (aw_ticks w)")
  case (Answered out)
  then have "Q out (w\<lparr>aw_ticks := Suc (aw_ticks w), aw_directives := aw_directives w @ [(ch, Demote)]\<rparr>)"
    by (intro assms) auto
  with Answered show ?thesis by (simp add: demote_writer_def wp_simps ask_def sr_wp_def [of "ask _"])
next
  case NotDelivered
  moreover have "Q CO_Ambiguous (w\<lparr>aw_ticks := Suc (aw_ticks w)\<rparr>)" by (rule assms) simp_all
  ultimately show ?thesis by (simp add: demote_writer_def wp_simps ask_def sr_wp_def [of "ask _"])
next
  case Unanswered
  moreover have "Q CO_Ambiguous (w\<lparr>aw_ticks := Suc (aw_ticks w), aw_directives := aw_directives w @ [(ch, Demote)]\<rparr>)"
    by (rule assms) simp_all
  ultimately show ?thesis by (simp add: demote_writer_def wp_simps ask_def sr_wp_def [of "ask _"])
qed

text \<open>The three parts of a transfer either go on with the request unanswered or end the handler properly.\<close>

definition part_ok :: "att_id \<Rightarrow> nat \<Rightarrow> uuid \<times> operation \<Rightarrow> att_world \<Rightarrow> frame_exit option \<Rightarrow> att_world \<Rightarrow> bool" where
  "part_ok me a q w0 x t \<longleftrightarrow> (case x of None \<Rightarrow> unanswered w0 t \<and> scope_valid a t | Some y \<Rightarrow> exit_ok me a q w0 y t)"

abbreviation request_key :: "writer_request \<Rightarrow> uuid \<times> operation" where
  "request_key request \<equiv> (wq_request_id request, wq_operation request)"

lemma wp_failed_closed:
  assumes "unanswered w0 w" and "\<not> is_current (ai_attachment_id me) (scope_at a w)"
  shows "sr_wp (failed_closed E me request b msg) (exit_ok me a (request_key request) w0) (fail_ok me a (request_key request) w0) w"
  unfolding failed_closed_def by (rule wp_answer) (use assms in auto)

lemma wp_some_exit: "sr_wp m (exit_ok me a q w0) R w \<Longrightarrow> sr_wp (sr_bind m (\<lambda>x. sr_return (Some x))) (part_ok me a q w0) R w"
  unfolding wp_bind by (erule sr_wp_mono) (simp_all add: wp_simps part_ok_def)

lemma wp_clear_all_then:
  assumes "scope_valid a w" and "unanswered w0 w"
    and "\<And>t. unanswered w0 t \<Longrightarrow> scope_valid a t \<Longrightarrow> \<not> is_current (ai_attachment_id me) (scope_at a t) \<Longrightarrow> sr_wp m Q R t"
  shows "sr_wp (sr_bind (writer_does a clear_writer) (\<lambda>_. m)) Q R w"
  unfolding wp_bind
  by (rule wp_writer_does [OF assms(1)], rule assms(3)) (use assms(2) in \<open>auto simp: answer_defs\<close>)

lemma wp_drop_then:
  assumes "scope_valid a w" and "unanswered w0 w"
    and "\<And>t. unanswered w0 t \<Longrightarrow> scope_valid a t \<Longrightarrow> \<not> is_current (ai_attachment_id me) (scope_at a t) \<Longrightarrow> sr_wp m Q R t"
  shows "sr_wp (sr_bind (drop_writer me a) (\<lambda>_. m)) Q R w"
  unfolding wp_bind drop_writer_def
  by (rule wp_writer_does [OF assms(1)], rule assms(3)) (use assms(2) in \<open>auto simp: answer_defs\<close>)

lemma wp_close_old [wp_simps]:
  "sr_wp (close_old old) Q R w = Q () (case old of None \<Rightarrow> w | Some ch \<Rightarrow> w\<lparr>aw_directives := aw_directives w @ [(ch, Close)]\<rparr>)"
  by (simp add: close_old_def wp_simps split: option.split)

lemma wp_close_then:
  assumes "unanswered w0 w" and "\<not> is_current (ai_attachment_id me) (scope_at a w)"
    and "\<And>t. unanswered w0 t \<Longrightarrow> \<not> is_current (ai_attachment_id me) (scope_at a t) \<Longrightarrow> sr_wp m Q R t"
  shows "sr_wp (sr_bind (close_old old) (\<lambda>_. m)) Q R w"
  using assms(1,2) unfolding wp_bind wp_close_old by (auto intro!: assms(3) split: option.split)

lemma wp_direct_then:
  assumes "unanswered w0 w" and "\<not> is_current (ai_attachment_id me) (scope_at a w)"
    and "\<And>t. unanswered w0 t \<Longrightarrow> \<not> is_current (ai_attachment_id me) (scope_at a t) \<Longrightarrow> sr_wp m Q R t"
  shows "sr_wp (sr_bind (direct ch d) (\<lambda>_. m)) Q R w"
  using assms(1,2) unfolding wp_bind wp_direct by (auto intro!: assms(3))

lemma wp_demote_then:
  assumes "unanswered w0 w" and "scope_valid a w"
    and "\<And>out t. unanswered w0 t \<Longrightarrow> scope_valid a t \<Longrightarrow> sr_wp (k out) Q R t"
  shows "sr_wp (sr_bind (demote_writer E ch) k) Q R w"
  unfolding wp_bind
  by (rule wp_demote, rule assms(3)) (use assms(1,2) in \<open>auto simp: answer_defs scope_valid_def\<close>)

lemma unanswered_control [simp]: "unanswered w0 (w\<lparr>aw_control := c\<rparr>) = unanswered w0 w"
  "scope_valid a (w\<lparr>aw_control := c\<rparr>) = scope_valid a w"
  by (simp_all add: answer_defs scope_valid_def)

lemma wp_adapter_then:
  assumes "unanswered w0 w" and "scope_valid a w"
    and "\<And>out t. unanswered w0 t \<Longrightarrow> scope_valid a t \<Longrightarrow> sr_wp (k out) Q R t"
  shows "sr_wp (sr_bind (adapter_does f) k) Q R w"
  unfolding wp_bind by (rule wp_adapter_does, rule assms(3)) (use assms(1,2) in simp_all)

lemma wp_does_then:
  assumes "unanswered w0 w" and "scope_valid a w"
    and "\<And>t. unanswered w0 t \<Longrightarrow> scope_valid a t \<Longrightarrow> sr_wp m Q R t"
  shows "sr_wp (sr_bind (writer_does a f) (\<lambda>_. m)) Q R w"
  unfolding wp_bind
  by (rule wp_writer_does [OF assms(2)], rule assms(3)) (use assms(1) in \<open>auto simp: answer_defs\<close>)

lemma demote_old_part:
  assumes "unanswered w0 w" and "scope_valid a w"
  shows "sr_wp (demote_old E me a request old) (part_ok me a (request_key request) w0) (fail_ok me a (request_key request) w0) w"
  unfolding demote_old_def
  by (intro vcs wp_demote_then [OF assms] wp_route_then [where ?w0.0 = w0] wp_clear_all_then [where ?w0.0 = w0 and me = me]
        wp_direct_then [where ?w0.0 = w0 and me = me and a = a] wp_some_exit wp_failed_closed fail_unanswered)
     (auto simp: part_ok_def assms)

lemma become_writer_part:
  assumes "unanswered w0 w" and "scope_valid a w"
  shows "sr_wp (become_writer E me a request old) (part_ok me a (request_key request) w0) (fail_ok me a (request_key request) w0) w"
  unfolding become_writer_def wp_bind [of "is_writer _ _"] wp_is_writer
  by (intro vcs wp_adapter_then [OF assms] wp_route_then [where ?w0.0 = w0] wp_clear_all_then [where ?w0.0 = w0 and me = me]
        wp_close_then [where ?w0.0 = w0 and me = me and a = a] wp_some_exit wp_failed_closed fail_unanswered wp_does_then [where ?w0.0 = w0])
     (auto simp: part_ok_def assms)

lemma activate_writer_answers:
  assumes "unanswered w0 w" and "scope_valid (sel_scope sel) w"
  shows "sr_wp (activate_writer E me sel request old takeover)
    (exit_ok me (sel_scope sel) (request_key request) w0) (fail_ok me (sel_scope sel) (request_key request) w0) w"
  unfolding activate_writer_def Let_def wp_bind [of "adapter_try _"]
proof (rule wp_adapter_try)
  fix resized c
  let ?t = "w\<lparr>aw_control := c\<rparr>"
  from assms have t: "unanswered w0 ?t" "scope_valid (sel_scope sel) ?t" by simp_all
  show "sr_wp (sr_bind (current_route E me (sel_scope sel)) (\<lambda>current.
     if \<not> current then
       sr_bind (drop_writer me (sel_scope sel)) (\<lambda>_. sr_bind (close_old old) (\<lambda>_. sr_throw AE_RouteChanged))
     else if resized \<noteq> Succeeded then
       sr_bind (drop_writer me (sel_scope sel)) (\<lambda>_. sr_bind (close_old old) (\<lambda>_.
       failed_closed E me request (resized = Ambiguous) ''Writer resize failed closed; no writer was retained.''))
     else sr_bind (install_for E me sel) (\<lambda>projection. case projection of
         None \<Rightarrow> sr_bind (drop_writer me (sel_scope sel)) (\<lambda>_. sr_return FX_Chooser)
       | Some nxt \<Rightarrow> sr_bind (current_route E me (sel_scope sel)) (\<lambda>still.
           if \<not> still then sr_bind (drop_writer me (sel_scope sel)) (\<lambda>_. sr_throw AE_RouteChanged)
           else sr_bind (adopt nxt) (\<lambda>_.
           sr_bind (send_operation_result E me (wq_request_id request) (wq_operation request) PO_Succeeded
             (if takeover then ''writer_taken_over'' else ''writer_claimed'')
             ''Writer access is active after a fresh target projection.'') (\<lambda>_. sr_return FX_Continue))))))
     (exit_ok me (sel_scope sel) (request_key request) w0) (fail_ok me (sel_scope sel) (request_key request) w0) ?t"
    by (intro vcs wp_route_then [where ?w0.0 = w0] wp_drop_then [where ?w0.0 = w0 and me = me] wp_failed_closed fail_unanswered
          wp_close_then [where ?w0.0 = w0 and me = me and a = "sel_scope sel"] wp_install_then [where a = "sel_scope sel"] wp_adopt_answer
          exit_chooser)
       (use t in auto)
qed (use assms in \<open>auto simp: answer_defs\<close>)

lemma change_writer_answers:
  assumes "scope_valid (sel_scope sel) w"
  shows "sr_wp (change_writer_with_control E me sel request takeover)
    (exit_ok me (sel_scope sel) (request_key request) w) (fail_ok me (sel_scope sel) (request_key request) w) w"
proof -
  let ?q = "request_key request" and ?a = "sel_scope sel"
  let ?Q = "exit_ok me ?a ?q w" and ?R = "fail_ok me ?a ?q w"
  have second: "sr_wp (case x of Some y \<Rightarrow> sr_return y | None \<Rightarrow> activate_writer E me sel request old takeover) ?Q ?R t"
    if "part_ok me ?a ?q w x t" for x t old
    using that by (cases x) (auto simp: part_ok_def wp_simps intro: activate_writer_answers)
  have first: "sr_wp (case x of Some y \<Rightarrow> sr_return y | None \<Rightarrow> sr_bind (become_writer E me ?a request old) (\<lambda>ended'. case ended' of
            Some x \<Rightarrow> sr_return x | None \<Rightarrow> activate_writer E me sel request old takeover)) ?Q ?R t"
    if "part_ok me ?a ?q w x t" for x t old
    using that by (cases x)
      (auto simp: part_ok_def wp_return wp_bind intro!: sr_wp_mono [OF become_writer_part] second)
  have transfer: "sr_wp (sr_bind (demote_old E me ?a request old) (\<lambda>ended. case ended of
          Some x \<Rightarrow> sr_return x
        | None \<Rightarrow> sr_bind (become_writer E me ?a request old) (\<lambda>ended'. case ended' of
            Some x \<Rightarrow> sr_return x
          | None \<Rightarrow> activate_writer E me sel request old takeover))) ?Q ?R t"
    if "unanswered w t" "scope_valid ?a t" for t old
    unfolding wp_bind [of "demote_old _ _ _ _ _"] by (rule sr_wp_mono [OF demote_old_part [OF that]]) (rule first)
  have reads: "sr_wp (sr_bind (writer_reads ?a (\<lambda>s. (is_available s, is_current (ai_attachment_id me) s, current_control s)))
      (\<lambda>(available, mine, control).
       if \<not> available \<and> \<not> mine \<and> \<not> takeover
       then sr_bind (send_operation_result E me (wq_request_id request) (wq_operation request) PO_Failed ''writer_busy''
         ''Another OwlMux Browser attachment is the current writer.'') (\<lambda>_. sr_return FX_Continue)
       else let old_control = (if mine then None else control) in
        sr_bind (demote_old E me ?a request old_control) (\<lambda>ended. case ended of
          Some x \<Rightarrow> sr_return x
        | None \<Rightarrow> sr_bind (become_writer E me ?a request old_control) (\<lambda>ended'. case ended' of
            Some x \<Rightarrow> sr_return x
          | None \<Rightarrow> activate_writer E me sel request old_control takeover)))) ?Q ?R t"
    if "unanswered w t" "scope_valid ?a t" for t
    unfolding wp_bind [of "writer_reads _ _"] wp_reads Let_def prod.case
    by (intro vc_if wp_answer transfer) (use that in auto)
  have routed: "sr_wp (sr_bind (current_route E me ?a) (\<lambda>current. if \<not> current then sr_throw AE_RouteChanged
      else sr_bind (writer_reads ?a (\<lambda>s. (is_available s, is_current (ai_attachment_id me) s, current_control s)))
      (\<lambda>(available, mine, control).
       if \<not> available \<and> \<not> mine \<and> \<not> takeover
       then sr_bind (send_operation_result E me (wq_request_id request) (wq_operation request) PO_Failed ''writer_busy''
         ''Another OwlMux Browser attachment is the current writer.'') (\<lambda>_. sr_return FX_Continue)
       else let old_control = (if mine then None else control) in
        sr_bind (demote_old E me ?a request old_control) (\<lambda>ended. case ended of
          Some x \<Rightarrow> sr_return x
        | None \<Rightarrow> sr_bind (become_writer E me ?a request old_control) (\<lambda>ended'. case ended' of
            Some x \<Rightarrow> sr_return x
          | None \<Rightarrow> activate_writer E me sel request old_control takeover))))) ?Q ?R t"
    if "unanswered w t" "scope_valid ?a t" for t
    by (intro wp_route_then [OF that] vc_if vc_throw fail_unanswered reads)
  show ?thesis
    unfolding change_writer_with_control_def Let_def [of ?a] send_stale_operation_def wp_bind [of "sr_gets _"] wp_gets wp_if
      wp_bind [of "try_dispatch_operation _ _ _ _"]
    using assms
    by (auto intro!: wp_answer wp_try_dispatch routed simp: wp_return answer_defs silent_def kept_def scope_valid_def)
qed

lemma workspace_frame_answers:
  assumes "scope_valid (sel_scope sel) w" and "request_of frame = Some q"
  shows "sr_wp (handle_workspace_frame E me sel frame) (exit_ok me (sel_scope sel) q w) (fail_ok me (sel_scope sel) q w) w"
proof -
  note arms = pane_input_answers client_resize_answers window_select_answers pane_select_answers workspace_refresh_answers
  have claim: "sr_wp (change_writer_with_control E me sel \<lparr>wq_request_id = rid, wq_operation = oper, wq_machine_connection_epoch = ce,
      wq_attachment_epoch = ep, wq_size = sz\<rparr> b) (exit_ok me (sel_scope sel) (rid, oper) w) (fail_ok me (sel_scope sel) (rid, oper) w) w"
    for rid oper ce ep sz b
    using change_writer_answers [OF assms(1), where request = "\<lparr>wq_request_id = rid, wq_operation = oper,
      wq_machine_connection_epoch = ce, wq_attachment_epoch = ep, wq_size = sz\<rparr>"] by simp
  show ?thesis
    using assms(2)
    by (cases frame) (auto simp: handle_workspace_frame_def wp_throw fail_unanswered intro!: arms claim assms(1))
qed

section \<open>The audit trail\<close>

text \<open>The audit lines an operation result stands for: one for an audited operation, none for pane input,
  client resizes and chooser refreshes. \<open>aw_audit\<close> lists the writes the handlers issue; a write that fails
  is only logged by the source.\<close>

definition audit_of :: "operation \<times> public_outcome \<Rightarrow> (bytes \<times> bytes) list" where
  "audit_of q = (case audit_action (fst q) of None \<Rightarrow> [] | Some action \<Rightarrow> [(action, audit_outcome (snd q))])"

definition audited_since :: "att_world \<Rightarrow> att_world \<Rightarrow> bool" where
  "audited_since w t \<longleftrightarrow> (\<exists>rs. aw_results t = aw_results w @ rs \<and> aw_audit t = aw_audit w @ concat (map audit_of rs))"

lemma audited_frame:
  "aw_results u = aw_results t \<Longrightarrow> aw_audit u = aw_audit t \<Longrightarrow> audited_since w t \<Longrightarrow> audited_since w u"
  by (simp add: audited_since_def)

lemma audited_prims [sr_rules]:
  "sr_keeps (audited_since w) (ask f)"
  "sr_keeps (audited_since w) (adapter_result m)"
  "sr_keeps (audited_since w) (adapter_does g)"
  "sr_keeps (audited_since w) (writer_reads a p)"
  "sr_keeps (audited_since w) (writer_does a q)"
  "sr_keeps (audited_since w) (direct ch d)"
  "sr_keeps (audited_since w) (adopt k)"
  "sr_keeps (audited_since w) (sr_modify (\<lambda>w. w\<lparr>aw_frames := aw_frames w @ [frame]\<rparr>))"
  unfolding ask_def adapter_result_def adapter_does_def writer_reads_def writer_does_def direct_def adopt_def
  by (rule sr_keepsI, erule audited_frame [rotated 2]; simp add: sr_leaf split: prod.splits)+

lemma audited_operation [sr_rules]: "sr_keeps (audited_since w) (audit_operation oper oc)"
proof (rule sr_keepsI)
  fix s assume "audited_since w s"
  then obtain rs where "aw_results s = aw_results w @ rs" "aw_audit s = aw_audit w @ concat (map audit_of rs)"
    by (auto simp: audited_since_def)
  then show "audited_since w (snd (audit_operation oper oc s))"
    by (auto simp: audited_since_def audit_operation_def audit_event_def audit_of_def sr_defs split: option.splits intro!: exI [of _ "rs @ [(oper, oc)]"])
qed

lemma audited_pump [sr_rules]: "sr_keeps (audited_since w) (pump_until_written n)"
proof (induction n)
  case (Suc n)
  have "sr_keeps (audited_since w) (case r of Inl (Failed e) \<Rightarrow> sr_throw (map_tmux e) | Inl Pending \<Rightarrow> sr_return ()
     | Inr _ \<Rightarrow> pump_until_written n)" for r
    using Suc by (cases r) (auto intro: sr_rules split: await.splits)
  then show ?case unfolding pump_until_written.simps by (rule sr_keeps_bind [OF audited_prims(2)])
qed (simp add: sr_rules)

lemma audited_send_text [sr_rules]: "sr_keeps (audited_since w) (send_text E me frame)"
proof -
  have "sr_keeps (audited_since w) (case fate of WriteTimeout \<Rightarrow> sr_return None | WriteFailed e \<Rightarrow> sr_return (Some (Err e))
      | Written \<Rightarrow> sr_bind (sr_modify (\<lambda>w. w\<lparr>aw_frames := aw_frames w @ [frame]\<rparr>)) (\<lambda>_. sr_return (Some (Ok ()))))" for fate
    by (cases fate) (auto intro: sr_rules)
  then show ?thesis unfolding send_text_def by (intro sr_rules)
qed

lemma audited_sends [sr_rules]:
  "sr_keeps (audited_since w) (send E me frame)"
  "sr_keeps (audited_since w) (send_with_control E me frame)"
  "sr_keeps (audited_since w) (current_route E me a)"
  "sr_keeps (audited_since w) (adapter_try m)"
  unfolding send_def send_with_control_def current_route_def adapter_try_def by (intro sr_rules)+

lemma audited_result [sr_rules]: "sr_keeps (audited_since w) (send_operation_result E me rid oper oc code msg)"
  unfolding send_operation_result_def by (intro sr_rules)

lemma audited_install [sr_rules]: "sr_keeps (audited_since w) (install_for E me sel)"
proof -
  have lim: "sr_keeps (audited_since w) (within_limit E m)" if "sr_keeps (audited_since w) m" for m :: "'a att"
    unfolding within_limit_def by (intro sr_rules that)
  show ?thesis
    unfolding install_for_def install_projection_def install_projection_inner_def send_all_def by (intro sr_rules lim)
qed

lemma audited_demote [sr_rules]: "sr_keeps (audited_since w) (demote_writer E ch)"
proof -
  have "sr_keeps (audited_since w) (case fate of NotDelivered \<Rightarrow> sr_return CO_Ambiguous
     | Unanswered \<Rightarrow> sr_bind (direct ch Demote) (\<lambda>_. sr_return CO_Ambiguous)
     | Answered outcome \<Rightarrow> sr_bind (direct ch Demote) (\<lambda>_. sr_return outcome))" for fate
    by (cases fate) (auto intro!: sr_rules)
  then show ?thesis unfolding demote_writer_def by (intro sr_rules)
qed

lemma audited_mutation [sr_rules]: "sr_keeps (audited_since w) (mutation_result E me a rid oper out)"
  unfolding mutation_result_def drop_writer_def by (cases out) (auto intro!: sr_rules)

lemma audited_writer [sr_rules]:
  assumes "sr_keeps (audited_since w) body"
  shows "sr_keeps (audited_since w) (as_writer E me sel rid oper body)"
  unfolding as_writer_def try_dispatch_operation_def is_writer_def send_writer_required_def by (intro sr_rules assms)

lemma audited_after [sr_rules]:
  assumes "\<And>x. sr_keeps (audited_since w) (rest x)"
  shows "sr_keeps (audited_since w) (after_dispatch E me sel call rest)"
  unfolding after_dispatch_def drop_writer_def by (intro sr_rules assms)

lemma audited_refresh [sr_rules]: "sr_keeps (audited_since w) (refresh_after_mutation E me sel)"
  unfolding refresh_after_mutation_def by (intro sr_rules)

lemma audited_change [sr_rules]: "sr_keeps (audited_since w) (change_writer_with_control E me sel request takeover)"
  unfolding change_writer_with_control_def demote_old_def become_writer_def activate_writer_def failed_closed_def
    send_stale_operation_def try_dispatch_operation_def is_writer_def drop_writer_def close_old_def
  by (intro sr_rules)

lemma audited_handlers:
  "sr_keeps (audited_since w) (handle_pane_input E me sel rid ce we p d)"
  "sr_keeps (audited_since w) (handle_client_resize E me sel rid ce we c r)"
  "sr_keeps (audited_since w) (handle_window_select E me sel rid ce we win)"
  "sr_keeps (audited_since w) (handle_pane_select E me sel rid ce we p)"
  "sr_keeps (audited_since w) (handle_workspace_refresh E me sel rid ce we)"
  unfolding handle_pane_input_def handle_client_resize_def handle_window_select_def handle_pane_select_def
    handle_workspace_refresh_def send_stale_operation_def by (intro sr_rules)+

lemma audited_workspace_frame: "sr_keeps (audited_since w) (handle_workspace_frame E me sel frame)"
  unfolding handle_workspace_frame_def send_workspace_error_def
  by (cases frame) (auto intro!: sr_rules audited_handlers)

lemma audit_follows_results:
  assumes "handle_workspace_frame E me sel frame w = (r, t)" and "aw_results t = aw_results w @ rs"
  shows "aw_audit t = aw_audit w @ concat (map audit_of rs)"
proof -
  have "audited_since w w" by (simp add: audited_since_def)
  from sr_keepsD [OF audited_workspace_frame this assms(1)] assms(2) show ?thesis by (auto simp: audited_since_def)
qed

text \<open>C31. A workspace request that leaves the workspace running has been answered exactly once: one operation
  result with the request's own id and operation was delivered, and the audit line of that operation and
  outcome was written once, for the operations that are audited (not for pane input, a client resize or a session refresh).
  However the handler ends, it writes no other audit line and at most this one.\<close>

theorem request_answered_once:
  assumes "scope_valid (sel_scope sel) w" and "request_of frame = Some (rid, oper)"
    and "handle_workspace_frame E me sel frame w = (r, t)"
  shows "(r = Ok FX_Continue \<longrightarrow> (\<exists>oc code msg. aw_audit t = aw_audit w @ audit_of (oper, oc)
       \<and> filter is_result (aw_frames t) = filter is_result (aw_frames w) @ [S_OperationResult rid oper oc code msg]))
    \<and> (aw_audit t = aw_audit w \<or> (\<exists>oc. aw_audit t = aw_audit w @ audit_of (oper, oc)))"
proof -
  note audit = audit_follows_results [OF assms(3)]
  have none: "aw_audit t = aw_audit w" if "aw_results t = aw_results w" using audit [of "[]"] that by simp
  have one: "aw_audit t = aw_audit w @ audit_of (oper, oc)" if "aw_results t = aw_results w @ [(oper, oc)]" for oc
    using audit [OF that] by simp
  show ?thesis
  proof (cases r)
    case (Inl e)
    with assms(3) have "handle_workspace_frame E me sel frame w = (Err e, t)" by simp
    from sr_wp_Err [OF workspace_frame_answers [OF assms(1,2)] this] Inl none one show ?thesis
      by (auto simp: answer_defs)
  next
    case (Inr x)
    with assms(3) have "handle_workspace_frame E me sel frame w = (Ok x, t)" by simp
    from sr_wp_Ok [OF workspace_frame_answers [OF assms(1,2)] this] Inr none one show ?thesis
      by (auto simp: answer_defs)
  qed
qed

theorem request_answered_once_witness:
  "\<exists>oc code msg. aw_audit (snd (handle_workspace_frame sample_env sample_id sample_selection
       (F_WindowSelect 1 ''3'' 12 ''@1'') (sample_world None []))) = [(''tmux_window_select'', audit_outcome oc)]
     \<and> filter is_result (aw_frames (snd (handle_workspace_frame sample_env sample_id sample_selection
       (F_WindowSelect 1 ''3'' 12 ''@1'') (sample_world None [])))) = [S_OperationResult 1 O_WindowSelect oc code msg]"
proof -
  let ?w = "sample_world None []" and ?f = "F_WindowSelect 1 ''3'' 12 ''@1''"
  have "scope_valid (sel_scope sample_selection) ?w" by code_simp
  moreover obtain r t where h: "handle_workspace_frame sample_env sample_id sample_selection ?f ?w = (r, t)" by fastforce
  moreover have "fst (handle_workspace_frame sample_env sample_id sample_selection ?f ?w) = Ok FX_Continue" by code_simp
  ultimately have "\<exists>oc code msg. aw_audit t = aw_audit ?w @ audit_of (O_WindowSelect, oc)
      \<and> filter is_result (aw_frames t) = filter is_result (aw_frames ?w) @ [S_OperationResult 1 O_WindowSelect oc code msg]"
    using request_answered_once [of sample_selection ?w ?f 1 O_WindowSelect sample_env sample_id r t] by auto
  with h show ?thesis by (simp add: sample_world_def audit_of_def)
qed

text \<open>An operation reported as ambiguous fails closed: the attachment is no longer the writer of its
  scope when the handler ends, and it leaves the workspace.\<close>

lemma ambiguous_fails_closed:
  assumes "scope_valid (sel_scope sel) w" and "handle_workspace_frame E me sel frame w = (r, t)"
    and "aw_results t = aw_results w @ rs" and "(oper, PO_Ambiguous) \<in> set rs"
  shows "\<not> is_current (ai_attachment_id me) (scope_at (sel_scope sel) t) \<and> (r = Ok FX_Chooser \<or> (\<exists>e. r = Err e))"
proof -
  have "request_of frame \<noteq> None"
  proof
    assume n: "request_of frame = None"
    then have "\<not> changes_writer frame" by (cases frame) (auto simp: changes_writer_def)
    have "sr_wp (handle_workspace_frame E me sel frame) (\<lambda>_ u. aw_results u = aw_results w) (\<lambda>_ u. aw_results u = aw_results w) w"
      using n by (cases frame) (auto simp: handle_workspace_frame_def wp_simps send_workspace_error_def silent_def intro!: wp_rules)
    from sr_wp_state [OF this] assms show False by simp
  qed
  then obtain q where q: "request_of frame = Some q" by blast
  show ?thesis
  proof (cases r)
    case (Inl e)
    with assms(2) have "handle_workspace_frame E me sel frame w = (Err e, t)" by simp
    from sr_wp_Err [OF workspace_frame_answers [OF assms(1) q] this] Inl assms(3,4) show ?thesis by (auto simp: answer_defs)
  next
    case (Inr x)
    with assms(2) have "handle_workspace_frame E me sel frame w = (Ok x, t)" by simp
    from sr_wp_Ok [OF workspace_frame_answers [OF assms(1) q] this] Inr assms(3,4) show ?thesis by (auto simp: answer_defs)
  qed
qed

theorem ambiguous_fails_closed_witness:
  "\<not> is_current 7 (scope_at 0 (snd (handle_workspace_frame sample_env sample_id sample_selection
     (F_PaneInput 1 ''3'' 11 ''%1'' ''hi'') (sample_world (Some (sample_holder 7)) []))))"
proof -
  let ?w = "sample_world (Some (sample_holder 7)) []" and ?f = "F_PaneInput 1 ''3'' 11 ''%1'' ''hi''"
  have "scope_valid (sel_scope sample_selection) ?w" by code_simp
  moreover obtain r t where h: "handle_workspace_frame sample_env sample_id sample_selection ?f ?w = (r, t)" by fastforce
  moreover have "aw_results (snd (handle_workspace_frame sample_env sample_id sample_selection ?f ?w)) = [(O_PaneInput, PO_Ambiguous)]"
    by code_simp
  moreover have "aw_results ?w = []" by (simp add: sample_world_def)
  ultimately have "\<not> is_current (ai_attachment_id sample_id) (scope_at (sel_scope sample_selection) t)"
    using ambiguous_fails_closed [of sample_selection ?w sample_env sample_id ?f r t "[(O_PaneInput, PO_Ambiguous)]" O_PaneInput] by simp
  with h show ?thesis by (simp add: sample_id_def sample_selection_def)
qed

section \<open>Pane input\<close>

text \<open>C30. Pane input reported as succeeded reached the target exactly once and unchanged: the attachment was
  the writer, the request named the current workspace and its active pane, the client's text was the
  canonical base64 of at most 1024 bytes, and the control client was sent one command, the literal-key
  command for those bytes.\<close>

theorem pane_input_exact:
  assumes "handle_workspace_frame E me sel (F_PaneInput rid ce ep p d) w = (r, t)"
    and "aw_results t = aw_results w @ [(O_PaneInput, PO_Succeeded)]"
  shows "is_current (ai_attachment_id me) (scope_at (sel_scope sel) w)
    \<and> workspace_matches (aw_workspace w) ce ep \<and> wst_active_pane (aw_workspace w) = p
    \<and> (\<exists>bs cmd. bs \<noteq> [] \<and> length bs \<le> ATTACHMENT_MAX_INPUT_BYTES \<and> ae_b64_encode E bs = d
        \<and> render_literal_input p bs = Ok cmd
        \<and> cc_stdin (ca_control (aw_control t)) = cc_stdin (ca_control (aw_control w)) @ [cmd])"
proof -
  define sent where "sent c \<longleftrightarrow> is_current (ai_attachment_id me) (scope_at (sel_scope sel) w)
    \<and> workspace_matches (aw_workspace w) ce ep \<and> wst_active_pane (aw_workspace w) = p
    \<and> (\<exists>bs cmd. bs \<noteq> [] \<and> length bs \<le> ATTACHMENT_MAX_INPUT_BYTES \<and> ae_b64_encode E bs = d
        \<and> render_literal_input p bs = Ok cmd
        \<and> cc_stdin (ca_control c) = cc_stdin (ca_control (aw_control w)) @ [cmd])" for c :: control_adapter
  let ?P = "\<lambda>t. aw_results t = aw_results w @ [(O_PaneInput, PO_Succeeded)] \<longrightarrow> sent (aw_control t)"
  have body: "sr_wp (after_dispatch E me sel (send_literal p bs) (mutation_result E me (sel_scope sel) rid O_PaneInput))
      (\<lambda>_. ?P) (\<lambda>_. ?P) u"
    if cur: "is_current (ai_attachment_id me) (scope_at (sel_scope sel) w)" and u: "silent w u"
      and k: "workspace_matches (aw_workspace w) ce ep" "wst_active_pane (aw_workspace w) = p" and bs: "decode_input E d = Some bs" for u bs
  proof -
    from bs have b: "bs \<noteq> []" "length bs \<le> ATTACHMENT_MAX_INPUT_BYTES" "ae_b64_encode E bs = d"
      by (auto simp: decode_input_def split: if_splits option.splits)
    have hit: "sent c" if "send_literal p bs (aw_control u) = (Ok Succeeded, c)" for c
    proof -
      from that u have "\<exists>cmd. render_literal_input p bs = Ok cmd
          \<and> cc_stdin (ca_control c) = cc_stdin (ca_control (aw_control w)) @ [cmd]"
        by (auto simp: send_literal_def mutate_def res_simps sr_lift_def silent_def kept_def
            split: prod.splits dest!: mutating_answered)
      with b cur k show ?thesis unfolding sent_def by blast
    qed
    have res: "aw_results u = aw_results w" using u by (simp add: silent_def)
    show ?thesis
      unfolding after_dispatch_def wp_bind
    proof (rule wp_adapter_try, goal_cases)
      case (1 out c)
      then show ?case
        using hit [of c] res
        by (cases out)
           (auto simp: wp_simps mutation_result_def drop_writer_def writer_does_def silent_def kept_def intro!: wp_rules)
    qed (use res in simp)
  qed
  have "sr_wp (handle_pane_input E me sel rid ce ep p d) (\<lambda>_. ?P) (\<lambda>_. ?P) w"
    unfolding handle_pane_input_def wp_bind [of "sr_gets _"] wp_gets
  proof (rule vc_if, goal_cases)
    case 1
    then show ?case by (auto simp: wp_simps intro!: wp_rules)
  next
    case 2
    then show ?case
      unfolding wp_bind [of "sr_lift _"]
      by (intro wp_lift wp_as_writer body) (auto simp: res_simps)
  qed
  from sr_wp_state [OF this] assms show ?thesis by (simp add: handle_workspace_frame_def sent_def)
qed

theorem pane_input_exact_witness:
  "\<exists>cmd. render_literal_input ''%1'' ''hi'' = Ok cmd
    \<and> cc_stdin (ca_control (aw_control (snd (handle_workspace_frame sample_env sample_id sample_selection
     (F_PaneInput 1 ''3'' 11 ''%1'' ''hi'') (sample_world (Some (sample_holder 7)) (reply 1 [])))))) = [cmd]"
proof -
  let ?w = "sample_world (Some (sample_holder 7)) (reply 1 [])" and ?f = "F_PaneInput 1 ''3'' 11 ''%1'' ''hi''"
  obtain r t where h: "handle_workspace_frame sample_env sample_id sample_selection ?f ?w = (r, t)" by fastforce
  moreover have "aw_results (snd (handle_workspace_frame sample_env sample_id sample_selection ?f ?w)) = [(O_PaneInput, PO_Succeeded)]"
    by code_simp
  moreover have "aw_results ?w = []" "cc_stdin (ca_control (aw_control ?w)) = []"
    by (simp_all add: sample_world_def sample_adapter_def sample_child_def)
  ultimately show ?thesis
    using pane_input_exact [of sample_env sample_id sample_selection 1 "''3''" 11 "''%1''" "''hi''" ?w r t]
    by (auto simp: sample_env_def)
qed

section \<open>Transfer of the writer role\<close>

definition holder :: "nat \<Rightarrow> att_world \<Rightarrow> uuid option" where
  "holder a w = current_attachment (scope_at a w)"

definition demoted :: "att_env \<Rightarrow> channel \<Rightarrow> att_world \<Rightarrow> bool" where
  "demoted E ch w \<longleftrightarrow> (\<exists>n. ae_demote E n = Answered CO_Succeeded) \<and> (ch, Demote) \<in> set (aw_directives w)"

text \<open>The previous writer's control client, if it had one, was told to demote itself and confirmed it.\<close>

definition relieved :: "att_env \<Rightarrow> channel option \<Rightarrow> att_world \<Rightarrow> bool" where
  "relieved E old w \<longleftrightarrow> (\<forall>ch. old = Some ch \<longrightarrow> demoted E ch w)"

text \<open>After a handler: nobody holds the role, or the requester does and the attachment before it was
  relieved.\<close>

definition handed_over :: "att_env \<Rightarrow> att_id \<Rightarrow> nat \<Rightarrow> channel option \<Rightarrow> att_world \<Rightarrow> bool" where
  "handed_over E me a ch t \<longleftrightarrow> scope_valid a t \<and> (holder a t = None \<or> holder a t = Some (ai_attachment_id me) \<and> relieved E ch t)"

lemma handed_over_frame:
  "kept w t \<Longrightarrow> handed_over E me a ch t = handed_over E me a ch w"
  "shown w t \<Longrightarrow> handed_over E me a ch t = handed_over E me a ch w"
  "handed_over E me a ch (w\<lparr>aw_control := c\<rparr>) = handed_over E me a ch w"
  "handed_over E me a ch (w\<lparr>aw_workspace := k\<rparr>) = handed_over E me a ch w"
  by (simp_all add: handed_over_def holder_def relieved_def demoted_def scope_at_def scope_valid_def kept_def shown_def)

lemma handed_over_direct: "handed_over E me a ch w \<Longrightarrow> handed_over E me a ch (w\<lparr>aw_directives := aw_directives w @ ds\<rparr>)"
  by (auto simp: handed_over_def holder_def relieved_def demoted_def scope_valid_def)

lemma vacated:
  "scope_valid a w \<Longrightarrow> sr_wp (writer_does a clear_writer) (\<lambda>_ t. handed_over E me a ch t \<and> holder a t = None) R w"
  by (rule wp_writer_does) (simp_all add: handed_over_def holder_def)

lemma dropped: "handed_over E me a ch w \<Longrightarrow> sr_wp (drop_writer me a) (\<lambda>_. handed_over E me a ch) R w"
  unfolding drop_writer_def
  by (rule wp_writer_does) (auto simp: handed_over_def holder_def relieved_def demoted_def)

lemma sr_keeps_wpI: "(\<And>s. P s \<Longrightarrow> sr_wp m (\<lambda>_. P) (\<lambda>_. P) s) \<Longrightarrow> sr_keeps P m"
  by (rule sr_keepsI) (rule sr_wp_state)

lemma handed_over_keeps [sr_rules]:
  "sr_keeps (handed_over E me a ch) (send_operation_result E me rid oper oc code msg)"
  "sr_keeps (handed_over E me a ch) (current_route E me b)"
  "sr_keeps (handed_over E me a ch) (direct ch' d)"
  "sr_keeps (handed_over E me a ch) (close_old old)"
  "sr_keeps (handed_over E me a ch) (drop_writer me a)"
  "sr_keeps (handed_over E me a ch) (writer_does a clear_writer)"
  "sr_keeps (handed_over E me a ch) (install_for E me sel)"
  "sr_keeps (handed_over E me a ch) (adopt k)"
  "sr_keeps (handed_over E me a ch) (adapter_try m)"
  "sr_keeps (handed_over E me a ch) (adapter_does f)"
proof -
  let ?P = "handed_over E me a ch"
  show "sr_keeps ?P (send_operation_result E me rid oper oc code msg)"
    by (rule sr_keeps_wpI, rule wp_send_operation_result) (simp_all add: handed_over_frame)
  show "sr_keeps ?P (current_route E me b)"
    by (rule sr_keeps_wpI, rule wp_current_route) (blast dest: silentD(1) handed_over_frame(1) [THEN iffD2])
  show "sr_keeps ?P (direct ch' d)" unfolding direct_def by (intro sr_keeps_modify handed_over_direct)
  show "sr_keeps ?P (close_old old)"
    unfolding close_old_def direct_def by (intro sr_rules sr_keeps_modify handed_over_direct)
  show "sr_keeps ?P (drop_writer me a)" by (rule sr_keeps_wpI) (rule dropped)
  show "sr_keeps ?P (writer_does a clear_writer)"
    by (rule sr_keeps_wpI, rule sr_wp_mono [OF vacated [where R = "\<lambda>_ _. False"]]) (auto simp: handed_over_def)
  show "sr_keeps ?P (install_for E me sel)"
    unfolding install_for_def by (rule sr_keeps_wpI, rule wp_install) (simp_all add: handed_over_frame)
  show "sr_keeps ?P (adopt k)" unfolding adopt_def by (rule sr_keeps_modify) (simp add: handed_over_frame)
  show "sr_keeps ?P (adapter_try m)" by (rule sr_keeps_wpI, rule wp_adapter_try) (simp_all add: handed_over_frame)
  show "sr_keeps ?P (adapter_does f)" by (rule sr_keeps_wpI, rule wp_adapter_does) (simp_all add: handed_over_frame)
qed

lemma failed_closed_handed [sr_rules]: "sr_keeps (handed_over E me a ch) (failed_closed E me request b msg)"
  unfolding failed_closed_def by (intro sr_rules)

lemma activate_writer_handed: "sr_keeps (handed_over E me (sel_scope sel) ch) (activate_writer E me sel request old takeover)"
  unfolding activate_writer_def Let_def by (intro sr_rules)

lemma vacate_then:
  "scope_valid a w \<Longrightarrow> sr_keeps (handed_over E me a ch) m \<Longrightarrow>
     sr_wp (sr_bind (writer_does a clear_writer) (\<lambda>_. m)) (\<lambda>_. handed_over E me a ch) (\<lambda>_. handed_over E me a ch) w"
  unfolding wp_bind by (rule sr_wp_mono [OF vacated]) (auto intro: wp_keeps)

lemma demote_control_hands:
  assumes "scope_valid a w"
  shows "sr_wp (demote_old E me a request (Some ch))
    (\<lambda>x t. case x of None \<Rightarrow> relieved E (Some ch) t \<and> aw_writers t = aw_writers w | Some _ \<Rightarrow> handed_over E me a (Some ch) t)
    (\<lambda>_. handed_over E me a (Some ch)) w"
  unfolding demote_old_def option.case wp_bind
proof (rule wp_demote, goal_cases)
  case (1 out t)
  have fail: "sr_wp (sr_bind (writer_does a clear_writer) (\<lambda>_. sr_bind (direct ch Close) (\<lambda>_. m)))
      (\<lambda>x t. case x of None \<Rightarrow> relieved E (Some ch) t \<and> aw_writers t = aw_writers w | Some _ \<Rightarrow> handed_over E me a (Some ch) t)
      (\<lambda>_. handed_over E me a (Some ch)) u"
    if "aw_writers u = aw_writers w" "sr_keeps (handed_over E me a (Some ch)) m" "sr_yields (\<lambda>x. x \<noteq> None) m"
    for u and m :: "frame_exit option att"
  proof -
    let ?m = "sr_bind (writer_does a clear_writer) (\<lambda>_. sr_bind (direct ch Close) (\<lambda>_. m))"
    have y: "sr_yields (\<lambda>x. x \<noteq> None) ?m" by (intro sr_yields_bind that(3))
    have "sr_wp ?m (\<lambda>_. handed_over E me a (Some ch)) (\<lambda>_. handed_over E me a (Some ch)) u"
      by (intro vacate_then sr_rules that(2)) (use that(1) assms in \<open>simp add: scope_valid_def\<close>)
    with y show ?thesis
      by (auto simp: sr_wp_def split: prod.splits sum.splits option.splits dest: sr_yieldsD)
  qed
  show ?case
  proof (rule wp_current_route)
    fix b u assume "silent t u"
    with 1 have u: "aw_writers u = aw_writers w" "out = CO_Succeeded \<Longrightarrow> relieved E (Some ch) u"
      by (auto simp: silent_def kept_def relieved_def demoted_def)
    show "sr_wp (if \<not> b then sr_bind (writer_does a clear_writer) (\<lambda>_. sr_bind (direct ch Close) (\<lambda>_. sr_throw AE_RouteChanged))
       else if out \<noteq> CO_Succeeded then
         sr_bind (writer_does a clear_writer) (\<lambda>_. sr_bind (direct ch Close) (\<lambda>_.
         sr_bind (failed_closed E me request (out = CO_Ambiguous)
           ''Writer transition failed closed; no writer was retained.'') (\<lambda>x. sr_return (Some x))))
       else sr_return None)
      (\<lambda>x t. case x of None \<Rightarrow> relieved E (Some ch) t \<and> aw_writers t = aw_writers w | Some _ \<Rightarrow> handed_over E me a (Some ch) t)
      (\<lambda>_. handed_over E me a (Some ch)) u"
      by (intro vc_if fail sr_rules vc_return) (use u in auto)
  qed
qed

lemma demote_old_hands:
  assumes "scope_valid a w"
  shows "sr_wp (demote_old E me a request old)
    (\<lambda>x t. case x of None \<Rightarrow> relieved E old t \<and> aw_writers t = aw_writers w | Some _ \<Rightarrow> handed_over E me a old t)
    (\<lambda>_. handed_over E me a old) w"
proof (cases old)
  case None
  then show ?thesis by (simp add: demote_old_def wp_return relieved_def)
next
  case (Some ch)
  show ?thesis unfolding Some by (rule demote_control_hands [OF assms])
qed

lemma vc_route: "(\<And>b t. silent w t \<Longrightarrow> sr_wp (k b) Q R t) \<Longrightarrow> sr_wp (sr_bind (current_route E me a) k) Q R w"
  unfolding wp_bind by (rule wp_current_route)

lemma vc_adapter: "(\<And>v c. f (aw_control w) = (v, c) \<Longrightarrow> sr_wp (k v) Q R (w\<lparr>aw_control := c\<rparr>)) \<Longrightarrow> sr_wp (sr_bind (adapter_does f) k) Q R w"
  unfolding wp_bind by (rule wp_adapter_does)

lemma vc_try_dispatch:
  "(\<And>t. kept w t \<Longrightarrow> sr_wp (k False) Q R t) \<Longrightarrow> (\<And>t. silent w t \<Longrightarrow> sr_wp (k True) Q R t) \<Longrightarrow> (\<And>e t. kept w t \<Longrightarrow> R e t) \<Longrightarrow>
     sr_wp (sr_bind (try_dispatch_operation E me rid oper) k) Q R w"
  unfolding wp_bind by (rule wp_try_dispatch)

lemma vc_reply: "(\<And>t. kept w t \<Longrightarrow> sr_wp (k ()) Q R t) \<Longrightarrow> (\<And>e t. kept w t \<Longrightarrow> R e t) \<Longrightarrow>
    sr_wp (sr_bind (send_operation_result E me rid oper oc code msg) k) Q R w"
  unfolding wp_bind by (rule wp_send_operation_result)

lemma become_writer_hands:
  assumes "scope_valid a w" and "relieved E ch w" and "\<not> is_current (ai_attachment_id me) (scope_at a w)"
  shows "sr_wp (become_writer E me a request old) (\<lambda>_. handed_over E me a ch) (\<lambda>_. handed_over E me a ch) w"
  unfolding become_writer_def wp_bind [of "is_writer _ _"] wp_is_writer
proof (rule vc_if, goal_cases)
  case 2
  have set: "sr_wp (sr_bind (writer_does a (set_current (ai_attachment_id me) sz c)) (\<lambda>_. sr_return None))
      (\<lambda>_. handed_over E me a ch) R u" if "scope_valid a u" "relieved E ch u" for u sz c R
    unfolding wp_bind by (rule wp_writer_does [OF that(1)]) (use that(2) in \<open>auto simp: wp_return handed_over_def holder_def relieved_def demoted_def\<close>)
  show ?case
    by (intro vc_adapter vc_route vc_if vacate_then set sr_rules)
       (use assms in \<open>auto simp: silent_def kept_def relieved_def demoted_def scope_valid_def\<close>)
qed (use assms in simp)



end
