(* ===== verification/Attachment_Session.thy ===== *)
theory Attachment_Session
  imports Attachment
begin

text \<open>
  The life of a Browser attachment, \<open>crates/owlmux-server/src/attachment.rs\<close>: the two event loops (the
  chooser's and the workspace's), the session that alternates between them and its owner-side frame. A
  \<open>select!\<close> loop is driven by a list of events, one per completed branch; operations of other attachments
  on the shared writer scopes are events of their own, so every interleaving at the points where this
  attachment holds no lock is a list of events. The loops end when the code returns or the events do.
\<close>

section \<open>Events\<close>

datatype session_event =
    Ev_other nat guard_op
  | Ev_route_closed
  | Ev_writer_changed bool
  | Ev_message "wire_error + bytes"
  | Ev_directive "control_directive option"
  | Ev_dispatch_ready
  | Ev_target

definition foreign :: "nat \<Rightarrow> guard_op \<Rightarrow> unit att" where
  "foreign a g = writer_does a (guard_apply g)"

definition writer_changed :: "att_env \<Rightarrow> att_id \<Rightarrow> nat \<Rightarrow> uuid \<Rightarrow> bool \<Rightarrow> unit att" where
  "writer_changed E me a epoch alive =
     (if \<not> alive then sr_throw AE_Unavailable else send_writer_state E me a epoch)"

section \<open>The chooser loop\<close>

definition chooser_step :: "att_env \<Rightarrow> att_id \<Rightarrow> chooser_state \<Rightarrow> session_event \<Rightarrow> (chooser_exit option) att" where
  "chooser_step E me st ev = (case ev of
     Ev_other a g \<Rightarrow> sr_bind (foreign a g) (\<lambda>_. sr_return None)
   | Ev_route_closed \<Rightarrow> sr_throw AE_RouteChanged
   | Ev_writer_changed alive \<Rightarrow>
       sr_bind (writer_changed E me (ch_scope st) (pr_selection_epoch (ch_probe st)) alive) (\<lambda>_. sr_return None)
   | Ev_message msg \<Rightarrow> sr_bind (sr_lift (receive E msg)) (chooser_frame E me st)
   | _ \<Rightarrow> sr_return None)"

fun chooser_run :: "att_env \<Rightarrow> att_id \<Rightarrow> chooser_state \<Rightarrow> session_event list \<Rightarrow> (chooser_exit option \<times> session_event list) att" where
  "chooser_run E me st [] = sr_return (None, [])"
| "chooser_run E me st (ev # evs) = sr_bind (chooser_step E me st ev) (\<lambda>x. case x of
     None \<Rightarrow> chooser_run E me st evs | Some y \<Rightarrow> sr_return (Some y, evs))"

section \<open>The workspace loop\<close>

text \<open>The projection and dispatch flags of the loop: \<open>projection_dirty\<close> and \<open>pending_dispatch.is_some()\<close>.\<close>

record work_flags =
  wf_dirty :: bool
  wf_pending :: bool

definition start_control :: "att_env \<Rightarrow> selection \<Rightarrow> unit att" where
  "start_control E sel =
     sr_bind (ask (ae_route_closed E)) (\<lambda>closed. if closed then sr_throw AE_RouteChanged
     else sr_bind (ask (\<lambda>n. ae_start_control E n (sel_session_id sel) (sel_session_created sel))) (\<lambda>child.
     sr_bind (audit_event ''ssh_tmux_control'' (if child \<noteq> None then ''success'' else ''rejected'')) (\<lambda>_.
     sr_bind (sr_lift (ok_or child AE_Ssh)) (\<lambda>control.
     sr_bind (ask (ae_route_closed E)) (\<lambda>closed'. if closed' then sr_throw AE_RouteChanged
     else (case adapter_start control of (r, c) \<Rightarrow>
       sr_bind (sr_modify (\<lambda>w. w\<lparr>aw_control := c\<rparr>)) (\<lambda>_. sr_lift (map_err map_tmux r))))))))"

text \<open>A writer that enters a workspace makes its new control client writable and sizes it. The result says
  whether the workspace goes on.\<close>

definition enter_as_writer :: "att_env \<Rightarrow> att_id \<Rightarrow> selection \<Rightarrow> bool att" where
  "enter_as_writer E me sel =
     (let a = sel_scope sel in
     sr_bind (is_writer me a) (\<lambda>mine. if \<not> mine then sr_return True
     else sr_bind (adapter_does (set_writer True)) (\<lambda>outcome.
     if outcome \<noteq> Succeeded then sr_bind (drop_writer me a) (\<lambda>_. sr_return False)
     else sr_bind (writer_does a (\<lambda>s. snd (set_control (ai_attachment_id me) (ai_control_tx me) s))) (\<lambda>_.
     sr_bind (writer_reads a (current_size (ai_attachment_id me))) (\<lambda>sz. case sz of
       None \<Rightarrow> sr_return True
     | Some dims \<Rightarrow> sr_bind (adapter_try (resize (cs_columns dims) (cs_rows dims))) (\<lambda>resized.
         if resized \<noteq> Succeeded then sr_bind (drop_writer me a) (\<lambda>_. sr_return False) else sr_return True))))))"

definition workspace_start :: "att_env \<Rightarrow> att_id \<Rightarrow> selection \<Rightarrow> (workspace_exit option) att" where
  "workspace_start E me sel =
     (let a = sel_scope sel in
     sr_bind (open_relay_stream E me) (\<lambda>route.
     sr_bind (ask (ae_route_closed E)) (\<lambda>old_closed.
     if route \<noteq> sel_route sel \<or> old_closed then sr_throw AE_RouteChanged
     else sr_bind (start_control E sel) (\<lambda>_.
     sr_bind (current_route E me a) (\<lambda>current. if \<not> current then sr_throw AE_RouteChanged
     else sr_bind (enter_as_writer E me sel) (\<lambda>entered. if \<not> entered then sr_return (Some WX_Chooser)
     else sr_bind (ask (ae_route_closed E)) (\<lambda>closed. if closed then sr_throw AE_RouteChanged
     else sr_bind (install_for E me sel) (\<lambda>projection.
     sr_bind (current_route E me a) (\<lambda>still.
     if \<not> still then sr_bind (drop_writer me a) (\<lambda>_. sr_throw AE_RouteChanged)
     else (case projection of
       None \<Rightarrow> sr_return (Some WX_Chooser)
     | Some k \<Rightarrow> sr_bind (adopt k) (\<lambda>_.
         sr_bind (send_writer_state E me a (wst_epoch k)) (\<lambda>_. sr_return None))))))))))))"

definition workspace_directive :: "att_id \<Rightarrow> control_directive option \<Rightarrow> (workspace_exit option) att" where
  "workspace_directive me d = (case d of
     None \<Rightarrow> sr_return (Some WX_Chooser)
   | Some Close \<Rightarrow> sr_return (Some WX_Chooser)
   | Some Demote \<Rightarrow>
       sr_bind (adapter_does (set_writer False)) (\<lambda>out.
       sr_bind (sr_modify (\<lambda>w. w\<lparr>aw_answers := aw_answers w @ [to_control_outcome out]\<rparr>)) (\<lambda>_.
       sr_return (if to_control_outcome out \<noteq> CO_Succeeded then Some WX_Chooser else None))))"

fun frame_to_workspace :: "frame_exit \<Rightarrow> workspace_exit option" where
  "frame_to_workspace FX_Continue = None"
| "frame_to_workspace FX_Chooser = Some WX_Chooser"
| "frame_to_workspace FX_Detach = Some WX_Detach"

definition workspace_refresh :: "att_env \<Rightarrow> att_id \<Rightarrow> selection \<Rightarrow> (workspace_exit option) att" where
  "workspace_refresh E me sel =
     sr_bind (current_route E me (sel_scope sel)) (\<lambda>current. if \<not> current then sr_throw AE_RouteChanged
     else sr_bind (install_for E me sel) (\<lambda>projection. case projection of
       None \<Rightarrow> sr_return (Some WX_Chooser)
     | Some nxt \<Rightarrow> sr_bind (current_route E me (sel_scope sel)) (\<lambda>still.
         if \<not> still then sr_throw AE_RouteChanged else sr_bind (adopt nxt) (\<lambda>_. sr_return None))))"

definition workspace_target :: "att_env \<Rightarrow> att_id \<Rightarrow> work_flags \<Rightarrow> (workspace_exit option \<times> work_flags) att" where
  "workspace_target E me fl =
     sr_bind (adapter_result next_event) (\<lambda>event. case event of
       Inl Pending \<Rightarrow> sr_return (None, fl)
     | Inl (Failed e) \<Rightarrow> if e = Tmux_Ssh Ssh_Unavailable then sr_return (Some WX_Chooser, fl) else sr_throw (map_tmux e)
     | Inr (Output pane_id bs) \<Rightarrow> sr_bind (sr_gets aw_workspace) (\<lambda>k.
         if pane_id \<in> wst_visible_panes k
         then sr_bind (send E me (S_Output (wst_epoch k) pane_id (ae_b64_encode E bs))) (\<lambda>_. sr_return (None, fl))
         else sr_return (None, fl))
     | Inr Refresh \<Rightarrow> sr_return (None, fl\<lparr>wf_dirty := True, wf_pending := True\<rparr>)
     | Inr Exit \<Rightarrow> sr_return (Some WX_Chooser, fl))"

definition workspace_step ::
  "att_env \<Rightarrow> att_id \<Rightarrow> selection \<Rightarrow> work_flags \<Rightarrow> session_event \<Rightarrow> (workspace_exit option \<times> work_flags) att" where
  "workspace_step E me sel fl ev = (case ev of
     Ev_other a g \<Rightarrow> sr_bind (foreign a g) (\<lambda>_. sr_return (None, fl))
   | Ev_route_closed \<Rightarrow> sr_throw AE_RouteChanged
   | Ev_writer_changed alive \<Rightarrow> sr_bind (sr_gets aw_workspace) (\<lambda>k.
       sr_bind (writer_changed E me (sel_scope sel) (wst_epoch k) alive) (\<lambda>_. sr_return (None, fl)))
   | Ev_directive d \<Rightarrow> sr_bind (workspace_directive me d) (\<lambda>x. sr_return (x, fl))
   | Ev_message msg \<Rightarrow> sr_bind (sr_lift (receive E msg)) (\<lambda>frame.
       sr_bind (handle_workspace_frame E me sel frame) (\<lambda>x. sr_return (frame_to_workspace x, fl)))
   | Ev_dispatch_ready \<Rightarrow>
       (if \<not> wf_pending fl then sr_return (None, fl)
        else if \<not> wf_dirty fl then sr_return (None, fl\<lparr>wf_pending := False\<rparr>)
        else sr_bind (workspace_refresh E me sel) (\<lambda>x. sr_return (x, \<lparr>wf_dirty = False, wf_pending = False\<rparr>)))
   | Ev_target \<Rightarrow> workspace_target E me fl)"

fun workspace_run ::
  "att_env \<Rightarrow> att_id \<Rightarrow> selection \<Rightarrow> work_flags \<Rightarrow> session_event list \<Rightarrow> (workspace_exit option \<times> session_event list) att" where
  "workspace_run E me sel fl [] = sr_return (None, [])"
| "workspace_run E me sel fl (ev # evs) = sr_bind (workspace_step E me sel fl ev) (\<lambda>(x, fl'). case x of
     None \<Rightarrow> workspace_run E me sel fl' evs | Some y \<Rightarrow> sr_return (Some y, evs))"

definition workspace :: "att_env \<Rightarrow> att_id \<Rightarrow> selection \<Rightarrow> session_event list \<Rightarrow> (workspace_exit option \<times> session_event list) att" where
  "workspace E me sel evs = sr_bind (workspace_start E me sel) (\<lambda>x. case x of
     Some y \<Rightarrow> sr_return (Some y, evs)
   | None \<Rightarrow> workspace_run E me sel \<lparr>wf_dirty = False, wf_pending = False\<rparr> evs)"

section \<open>The session\<close>

lemma chooser_run_consumes: "chooser_run E me st evs w = (Ok (Some x, rest), t) \<Longrightarrow> length rest < length evs"
proof (induction evs arbitrary: w)
  case (Cons ev evs)
  then show ?case by (fastforce simp: res_simps sr_leaf split: option.splits)
qed (simp add: sr_leaf)

lemma workspace_run_consumes: "workspace_run E me sel fl evs w = (Ok (x, rest), t) \<Longrightarrow> length rest \<le> length evs"
proof (induction evs arbitrary: w fl)
  case (Cons ev evs)
  then show ?case by (fastforce simp: res_simps sr_leaf split: option.splits prod.splits)
qed (simp add: sr_leaf)

lemma workspace_consumes: "workspace E me sel evs w = (Ok (x, rest), t) \<Longrightarrow> length rest \<le> length evs"
  by (auto simp: workspace_def res_simps sr_leaf split: option.splits dest: workspace_run_consumes)

lemma choose_consumes:
  "(Ok (Some x, rest), t) = sr_bind (chooser_start E me route) (\<lambda>st. chooser_run E me st evs) w \<Longrightarrow> length rest < length evs"
  by (drule sym) (auto simp: res_simps dest: chooser_run_consumes)

text \<open>The error arms of the session: a closed client or a changed route ends it silently, anything else with
  a fatal error whose own failure is ignored.\<close>

definition session_failed :: "att_env \<Rightarrow> att_id \<Rightarrow> attachment_error \<Rightarrow> att_world \<Rightarrow> att_world" where
  "session_failed E me e w = (if e = AE_ClientClosed \<or> e = AE_RouteChanged then w
     else snd (send_fatal_error E me (error_code e) (error_message e) w))"

definition forget_control :: "att_id \<Rightarrow> nat \<Rightarrow> att_world \<Rightarrow> att_world" where
  "forget_control me a w = snd (writer_does a (\<lambda>s. snd (clear_control (ai_attachment_id me) s)) w)"

text \<open>\<open>authenticated_session\<close>: \<open>True\<close> when the session ended, \<open>False\<close> when the events did.\<close>

function authenticated_session ::
  "att_env \<Rightarrow> att_id \<Rightarrow> route_identity \<Rightarrow> session_event list \<Rightarrow> att_world \<Rightarrow> bool \<times> att_world" where
  "authenticated_session E me route evs w =
     (case sr_bind (chooser_start E me route) (\<lambda>st. chooser_run E me st evs) w of
        (Inl e, w1) \<Rightarrow> (True, session_failed E me e w1)
      | (Inr (None, rest), w1) \<Rightarrow> (False, w1)
      | (Inr (Some ChooseDetach, rest), w1) \<Rightarrow> (True, w1)
      | (Inr (Some ChooseRefresh, rest), w1) \<Rightarrow> authenticated_session E me route rest w1
      | (Inr (Some (ChooseSelection sel), rest), w1) \<Rightarrow>
          (case workspace E me sel rest w1 of
             (Inl e, w2) \<Rightarrow> (True, session_failed E me e (forget_control me (sel_scope sel) w2))
           | (Inr (None, rest'), w2) \<Rightarrow> (False, w2)
           | (Inr (Some WX_Detach, rest'), w2) \<Rightarrow> (True, forget_control me (sel_scope sel) w2)
           | (Inr (Some WX_Chooser, rest'), w2) \<Rightarrow>
               authenticated_session E me route rest' (forget_control me (sel_scope sel) w2)))"
  by pat_completeness auto
termination
  by (relation "measure (\<lambda>(E, me, route, evs, w). length evs)")
     (auto dest!: choose_consumes workspace_consumes [OF sym])

declare authenticated_session.simps [simp del]

definition run_owner_attachment ::
  "att_env \<Rightarrow> att_id \<Rightarrow> route_identity \<Rightarrow> session_event list \<Rightarrow> att_world \<Rightarrow> bool \<times> att_world" where
  "run_owner_attachment E self expected_route evs w0 =
     (let sh = ae_shared E (aw_ticks w0);
          w = w0\<lparr>aw_ticks := Suc (aw_ticks w0)\<rparr>
      in case route_fence (sh_lease_ok sh) (ai_machine_id self) expected_route (sh_relays sh) of
        None \<Rightarrow> (True, snd (send_fatal_error E (self\<lparr>ai_fence := None\<rparr>) ''temporarily_unavailable'' ''The Machine route changed.'' w))
      | Some h \<Rightarrow>
          if \<not> ae_permit E (aw_ticks w)
          then (True, snd (send_fatal_error E (self\<lparr>ai_fence := None\<rparr>) ''overloaded'' ''Attachment capacity is exhausted.''
                 (w\<lparr>aw_ticks := Suc (aw_ticks w)\<rparr>)))
          else
            (let me = self\<lparr>ai_fence := Some h\<rparr>;
                 w1 = w\<lparr>aw_ticks := Suc (aw_ticks w), aw_audit := aw_audit w @ [(''attachment_start'', ''success'')]\<rparr>
             in case authenticated_session E me expected_route evs w1 of
               (False, w2) \<Rightarrow> (False, w2)
             | (True, w2) \<Rightarrow> (True, w2\<lparr>aw_writers := release_attachment (ai_attachment_id me) (aw_writers w2),
                 aw_audit := aw_audit w2 @ [(''attachment_end'', ''success'')],
                 aw_closed := aw_closed w2 @ [(ATTACHMENT_CLOSE_NORMAL, ''attachment_closed'')]\<rparr>)))"

section \<open>Stored sizes\<close>

definition size_ok :: "writer_scope \<Rightarrow> bool" where
  "size_ok s \<longleftrightarrow> (case wsc_current s of None \<Rightarrow> True | Some h \<Rightarrow> valid_client_size (wh_size h))"

definition sizes_ok :: "writer_registry \<Rightarrow> bool" where
  "sizes_ok r \<longleftrightarrow> list_all size_ok (wr_heap r)"

fun op_size_ok :: "guard_op \<Rightarrow> bool" where
  "op_size_ok (G_set_current _ sz _) = valid_client_size sz"
| "op_size_ok (G_update_size _ sz) = valid_client_size sz"
| "op_size_ok _ = True"

fun event_size_ok :: "session_event \<Rightarrow> bool" where
  "event_size_ok (Ev_other _ g) = op_size_ok g"
| "event_size_ok _ = True"

section \<open>Invariants of the writer registry\<close>

text \<open>What a predicate on the registry must satisfy to survive whatever attachments do: the guard operations
  with valid sizes, and the lookup that creates a scope. The client lemmas below follow the code from
  the primitives up to the whole session.\<close>

lemma frame_writers [sr_rules]:
  "sr_keeps (\<lambda>w. P (aw_writers w)) (ask f)"
  "sr_keeps (\<lambda>w. P (aw_writers w)) (adapter_result m)"
  "sr_keeps (\<lambda>w. P (aw_writers w)) (adapter_does g)"
  "sr_keeps (\<lambda>w. P (aw_writers w)) (audit_event x y)"
  "sr_keeps (\<lambda>w. P (aw_writers w)) (direct ch d)"
  "sr_keeps (\<lambda>w. P (aw_writers w)) (writer_reads a h)"
  "sr_keeps (\<lambda>w. P (aw_writers w)) (adopt k)"
  by (auto simp: sr_keeps_def ask_def adapter_result_def adapter_does_def audit_event_def direct_def writer_reads_def adopt_def sr_defs
      split: prod.splits)

lemma frame_writers_send [sr_rules]:
  "sr_keeps (\<lambda>w. P (aw_writers w)) (send E me f)"
  "sr_keeps (\<lambda>w. P (aw_writers w)) (send_operation_result E me rid oper oc code msg)"
  "sr_keeps (\<lambda>w. P (aw_writers w)) (current_route E me a)"
  "sr_keeps (\<lambda>w. P (aw_writers w)) (install_projection E me ce sid created)"
  "sr_keeps (\<lambda>w. P (aw_writers w)) (demote_writer E ch)"
  by (rule sr_keeps_wpI, rule wp_rules; auto simp: silent_def kept_def shown_def)+

lemma frame_writers_more [sr_rules]:
  "sr_keeps (\<lambda>w. P (aw_writers w)) (adapter_try m')"
  "sr_keeps (\<lambda>w. P (aw_writers w)) (send_workspace_error E me code msg)"
  "sr_keeps (\<lambda>w. P (aw_writers w)) (send_stale_operation E me rid oper)"
  "sr_keeps (\<lambda>w. P (aw_writers w)) (send_writer_required E me rid oper)"
  "sr_keeps (\<lambda>w. P (aw_writers w)) (try_dispatch_operation E me rid oper)"
  "sr_keeps (\<lambda>w. P (aw_writers w)) (is_writer me a)"
  "sr_keeps (\<lambda>w. P (aw_writers w)) (install_for E me sel)"
  "sr_keeps (\<lambda>w. P (aw_writers w)) (close_old old)"
  "sr_keeps (\<lambda>w. P (aw_writers w)) (failed_closed E me request b txt)"
  "sr_keeps (\<lambda>w. P (aw_writers w)) (relays_open_stream E me)"
  "sr_keeps (\<lambda>w. P (aw_writers w)) (send_writer_state E me a epoch)"
  "sr_keeps (\<lambda>w. P (aw_writers w)) (refresh_after_mutation E me sel)"
  unfolding adapter_try_def send_workspace_error_def send_stale_operation_def send_writer_required_def try_dispatch_operation_def
    is_writer_def install_for_def close_old_def failed_closed_def relays_open_stream_def send_writer_state_def refresh_after_mutation_def
  by (intro sr_rules)+

lemma open_from_writers [sr_rules]: "sr_keeps (\<lambda>w. P (aw_writers w)) (open_relay_stream_from n E me)"
proof (induction n)
  case 0
  show ?case by (subst open_relay_stream_from.simps) (auto intro!: sr_rules)
next
  case (Suc n)
  then show ?case by (subst open_relay_stream_from.simps) (auto intro!: sr_rules)
qed

lemma open_writers [sr_rules]: "sr_keeps (\<lambda>w. P (aw_writers w)) (open_relay_stream E me)"
  unfolding open_relay_stream_def by (intro sr_rules)

lemma chooser_run_rest: "chooser_run E me st evs w = (Ok (x, rest), t) \<Longrightarrow> list_all Q evs \<Longrightarrow> list_all Q rest"
proof (induction evs arbitrary: w)
  case (Cons ev evs)
  then show ?case by (fastforce simp: res_simps sr_leaf split: option.splits)
qed (simp add: sr_leaf)

lemma workspace_run_rest: "workspace_run E me sel fl evs w = (Ok (x, rest), t) \<Longrightarrow> list_all Q evs \<Longrightarrow> list_all Q rest"
proof (induction evs arbitrary: w fl)
  case (Cons ev evs)
  then show ?case by (fastforce simp: res_simps sr_leaf split: option.splits prod.splits)
qed (simp add: sr_leaf)

lemma workspace_rest: "workspace E me sel evs w = (Ok (x, rest), t) \<Longrightarrow> list_all Q evs \<Longrightarrow> list_all Q rest"
  by (auto simp: workspace_def res_simps sr_leaf split: option.splits dest: workspace_run_rest)

locale registry_inv =
  fixes P :: "writer_registry \<Rightarrow> bool"
  assumes guard: "op_size_ok g \<Longrightarrow> P r \<Longrightarrow> P (r\<lparr>wr_heap := (wr_heap r)[a := guard_apply g (wr_heap r ! a)]\<rparr>)"
    and scope: "P r \<Longrightarrow> P (snd (scope_of m route r))"
    and release: "P r \<Longrightarrow> P (release_attachment u r)"
begin

abbreviation keeps :: "'a att \<Rightarrow> bool" where
  "keeps \<equiv> sr_keeps (\<lambda>w. P (aw_writers w))"

lemma does: "op_size_ok g \<Longrightarrow> f = guard_apply g \<Longrightarrow> keeps (writer_does a f)"
  unfolding writer_does_def by (rule sr_keeps_modify) (simp add: scope_at_def guard)

lemma clear_all: "keeps (writer_does a clear_writer)"
  by (rule does [of G_clear]) auto

lemma drop: "keeps (drop_writer me a)"
  unfolding drop_writer_def by (rule does [of "G_clear_if_current (ai_attachment_id me)"]) auto

lemma sized: "valid_client_size sz \<Longrightarrow> keeps (writer_does a (\<lambda>s. snd (update_size u sz s)))"
  by (rule does [of "G_update_size u sz"]) auto

lemma controlled: "keeps (writer_does a (\<lambda>s. snd (set_control u ch s)))"
  by (rule does [of "G_set_control u ch"]) auto

lemma uncontrolled: "keeps (writer_does a (\<lambda>s. snd (clear_control u s)))"
  by (rule does [of "G_clear_control u"]) auto

lemma installed: "valid_client_size sz \<Longrightarrow> keeps (writer_does a (set_current u sz c))"
  by (rule does [of "G_set_current u sz c"]) auto

lemmas guards = clear_all drop controlled uncontrolled

lemma foreign_op: "op_size_ok g \<Longrightarrow> keeps (foreign a g)"
  unfolding foreign_def by (rule does) simp_all

lemma without_control: "keeps (change_writer_without_control E me a ep request takeover)"
  unfolding change_writer_without_control_def Let_def by (intro sr_rules guards sized installed) auto

lemma mutation: "keeps (mutation_result E me a rid oper out)"
  by (cases out) (auto simp: mutation_result_def intro!: sr_rules guards)

lemma writer_body: "keeps body \<Longrightarrow> keeps (as_writer E me sel rid oper body)"
  unfolding as_writer_def by (intro sr_rules)

lemma dispatched: "(\<And>out. keeps (rest out)) \<Longrightarrow> keeps (after_dispatch E me sel call rest)"
  unfolding after_dispatch_def by (intro sr_rules guards)

lemma with_control: "keeps (change_writer_with_control E me sel request takeover)"
proof -
  have demote: "keeps (demote_old E me a request old)" for a old
    unfolding demote_old_def by (intro sr_rules guards)
  have become: "keeps (become_writer E me a request old)" if "valid_client_size (wq_size request)" for a old
    unfolding become_writer_def by (intro sr_rules guards sized installed that)
  have act: "keeps (activate_writer E me sel request old takeover)" for old
    unfolding activate_writer_def Let_def by (intro sr_rules guards)
  show ?thesis
    unfolding change_writer_with_control_def Let_def by (intro sr_rules demote become act) auto
qed

lemma workspace_frame: "keeps (handle_workspace_frame E me sel frame)"
  by (cases frame)
     (auto simp: handle_workspace_frame_def handle_pane_input_def handle_client_resize_def handle_window_select_def
        handle_pane_select_def handle_workspace_refresh_def intro!: sr_rules with_control writer_body dispatched mutation sized)

lemma session_create: "keeps (chooser_session_create E me st rid ce ep name)"
  unfolding chooser_session_create_def Let_def
  by (intro sr_rules guards) (auto split: create_session_outcome.split intro!: sr_rules guards)

lemma choose: "keeps (chooser_frame E me st frame)"
  by (cases frame) (auto simp: chooser_frame_def intro!: sr_rules without_control session_create)

lemma scope_created: "keeps (scope_for me route)"
  using scope by (auto simp: sr_keeps_def scope_for_def split: prod.splits) (metis snd_conv)

lemma chooser_begin: "keeps (chooser_start E me route)"
  unfolding chooser_start_def run_probe_def by (intro sr_rules scope_created)

lemma changed: "keeps (writer_changed E me a ep alive)"
  unfolding writer_changed_def by (intro sr_rules)

lemma choose_event: "event_size_ok ev \<Longrightarrow> keeps (chooser_step E me st ev)"
  by (cases ev) (auto simp: chooser_step_def intro!: sr_rules foreign_op changed choose)

lemma choose_loop: "list_all event_size_ok evs \<Longrightarrow> keeps (chooser_run E me st evs)"
  by (induction evs) (auto intro!: sr_rules choose_event)

lemma control_started: "keeps (start_control E sel)"
  unfolding start_control_def by (intro sr_rules sr_keeps_modify) simp

lemma entered: "keeps (enter_as_writer E me sel)"
  unfolding enter_as_writer_def Let_def by (intro sr_rules guards)

lemma work_begin: "keeps (workspace_start E me sel)"
  unfolding workspace_start_def Let_def by (intro sr_rules guards control_started entered)

lemma work_event: "event_size_ok ev \<Longrightarrow> keeps (workspace_step E me sel fl ev)"
proof (cases ev)
  case (Ev_directive d)
  have "keeps (workspace_directive me d)"
    by (auto simp: workspace_directive_def intro!: sr_rules sr_keeps_modify split: option.split control_directive.split)
  with Ev_directive show ?thesis by (auto simp: workspace_step_def intro!: sr_rules)
next
  case Ev_target
  then show ?thesis
    by (auto simp: workspace_step_def workspace_target_def intro!: sr_rules split: sum.split await.split control_event.split)
qed (auto simp: workspace_step_def workspace_refresh_def intro!: sr_rules foreign_op changed workspace_frame)

lemma work_loop: "list_all event_size_ok evs \<Longrightarrow> keeps (workspace_run E me sel fl evs)"
  by (induction evs arbitrary: fl) (auto intro!: sr_rules work_event split: prod.split)

lemma work: "list_all event_size_ok evs \<Longrightarrow> keeps (workspace E me sel evs)"
  unfolding workspace_def by (intro sr_rules work_begin work_loop)

lemma failed: "P (aw_writers w) \<Longrightarrow> P (aw_writers (session_failed E me e w))"
proof -
  have "keeps (send_fatal_error E me code msg)" for code msg
    unfolding send_fatal_error_def by (intro sr_rules sr_keeps_modify) simp
  then show "P (aw_writers w) \<Longrightarrow> P (aw_writers (session_failed E me e w))"
    by (simp add: session_failed_def sr_keeps_def)
qed

lemma forgotten: "P (aw_writers w) \<Longrightarrow> P (aw_writers (forget_control me a w))"
  using uncontrolled by (simp add: forget_control_def sr_keeps_def)

lemma session: "list_all event_size_ok evs \<Longrightarrow> P (aw_writers w) \<Longrightarrow> P (aw_writers (snd (authenticated_session E me route evs w)))"
proof (induction E me route evs w rule: authenticated_session.induct)
  case (1 E me route evs w)
  let ?choose = "sr_bind (chooser_start E me route) (\<lambda>st. chooser_run E me st evs)"
  obtain r w1 where c: "?choose w = (r, w1)" by fastforce
  have "keeps ?choose" by (intro sr_rules chooser_begin choose_loop "1.prems"(1))
  then have p1: "P (aw_writers w1)" using "1.prems"(2) c by (rule sr_keepsD)
  show ?case
  proof (cases r)
    case (Inl e)
    with c p1 show ?thesis by (simp add: authenticated_session.simps [of E me route evs w] failed)
  next
    case (Inr v)
    obtain x rest where v: "v = (x, rest)" by fastforce
    have rest: "list_all event_size_ok rest"
      using c Inr v "1.prems"(1) chooser_run_rest by (fastforce simp: res_simps)
    show ?thesis
    proof (cases x)
      case None
      with c Inr v p1 show ?thesis by (simp add: authenticated_session.simps [of E me route evs w])
    next
      case (Some y)
      show ?thesis
      proof (cases y)
        case (ChooseSelection sel)
        obtain r2 w2 where k: "workspace E me sel rest w1 = (r2, w2)" by fastforce
        have p2: "P (aw_writers w2)" using work [OF rest] p1 k by (rule sr_keepsD)
        show ?thesis
        proof (cases r2)
          case (Inl e)
          with c Inr v Some ChooseSelection k p2 show ?thesis
            by (simp add: authenticated_session.simps [of E me route evs w] failed forgotten)
        next
          case (Inr v2)
          obtain z rest' where v2: "v2 = (z, rest')" by fastforce
          have rest': "list_all event_size_ok rest'" using k Inr v2 rest workspace_rest by fastforce
          note step = c \<open>r = Inr v\<close> v Some ChooseSelection k Inr v2
          show ?thesis
          proof (cases "z = Some WX_Chooser")
            case True
            from "1.IH"(1) [OF c [symmetric] \<open>r = Inr v\<close> v [symmetric] Some ChooseSelection k [symmetric] Inr v2 [symmetric] True refl
                rest' forgotten [OF p2]]
            show ?thesis using step True by (simp add: authenticated_session.simps [of E me route evs w])
          next
            case False
            with step p2 show ?thesis
              by (auto simp: authenticated_session.simps [of E me route evs w] forgotten split: option.splits workspace_exit.splits)
          qed
        qed
      next
        case ChooseRefresh
        from "1.IH"(2) [OF c [symmetric] Inr v [symmetric] Some ChooseRefresh rest p1] show ?thesis
          using c Inr v Some ChooseRefresh by (simp add: authenticated_session.simps [of E me route evs w])
      next
        case ChooseDetach
        with c Inr v Some p1 show ?thesis by (simp add: authenticated_session.simps [of E me route evs w])
      qed
    qed
  qed
qed

lemma owner: "list_all event_size_ok evs \<Longrightarrow> P (aw_writers w) \<Longrightarrow> P (aw_writers (snd (run_owner_attachment E self route evs w)))"
proof -
  assume evs: "list_all event_size_ok evs" and w: "P (aw_writers w)"
  have fatal: "P (aw_writers (snd (send_fatal_error E me code msg u)))" if "P (aw_writers u)" for me code msg u
  proof -
    have "keeps (send_fatal_error E me code msg)"
      unfolding send_fatal_error_def by (intro sr_rules sr_keeps_modify) simp
    with that show ?thesis by (simp add: sr_keeps_def)
  qed
  have ses: "P (aw_writers u')" if "authenticated_session E me route evs u = (b, u')" "P (aw_writers u)" for me u b u'
    using session [OF evs, of u E me route] that by simp
  show ?thesis
    unfolding run_owner_attachment_def Let_def
    using w by (auto simp: fatal split: option.split prod.split bool.split intro: ses intro!: release)
qed

end

section \<open>Two invariants of the registry\<close>

lemma guard_size_ok: "op_size_ok g \<Longrightarrow> size_ok s \<Longrightarrow> size_ok (guard_apply g s)"
  by (cases g) (auto simp: size_ok_def guard_defs split: option.splits)

lemma list_all_update: "(a < length xs \<Longrightarrow> Q v) \<Longrightarrow> list_all Q xs \<Longrightarrow> list_all Q (xs[a := v])"
  by (cases "a < length xs") (auto simp: list_all_length nth_list_update not_less)

lemma list_all_release: "(\<And>s. Q s \<Longrightarrow> Q (scope_release u s)) \<Longrightarrow> list_all Q heap \<Longrightarrow> list_all Q (release_at u as heap)"
proof (induction as arbitrary: heap)
  case (Cons a as)
  have "Q (heap ! a)" if "a < length heap" using Cons.prems(2) that by (simp add: list_all_length)
  with Cons.prems have "list_all Q (heap[a := scope_release u (heap ! a)])" by (intro list_all_update) auto
  with Cons show ?case by simp
qed simp

interpretation sizes: registry_inv sizes_ok
proof unfold_locales
  show "sizes_ok (r\<lparr>wr_heap := (wr_heap r)[a := guard_apply g (wr_heap r ! a)]\<rparr>)" if "op_size_ok g" "sizes_ok r" for g r a
    using that by (auto simp: sizes_ok_def intro!: list_all_update guard_size_ok) (simp add: list_all_length)
  show "sizes_ok (snd (scope_of m route r))" if "sizes_ok r" for m route r
    using that by (auto simp: sizes_ok_def scope_of_def Let_def writer_scope_new_def size_ok_def split: option.split)
  show "sizes_ok (release_attachment u r)" if "sizes_ok r" for u r
    using that guard_size_ok [of "G_clear_if_current u"]
    by (auto simp: sizes_ok_def release_attachment_def scope_release_def intro!: list_all_release)
qed

interpretation table: registry_inv registry_ok
proof unfold_locales
  show "registry_ok (r\<lparr>wr_heap := (wr_heap r)[a := guard_apply g (wr_heap r ! a)]\<rparr>)" if "registry_ok r" for g r a
    using that by (simp add: registry_ok_def)
  show "registry_ok (snd (scope_of m route r))" if "registry_ok r" for m route r
    using scope_of_ok [OF that, of m route] by (metis prod.collapse)
  show "registry_ok (release_attachment u r)" if "registry_ok r" for u r
    using that by (simp add: registry_ok_def release_attachment_def)
qed

section \<open>Properties\<close>

text \<open>Whatever a Browser sends and whatever other attachments do in between, the size stored for a writer is
  always one that the control client accepts: resizing a control client to a stored size is never
  rejected as malformed.\<close>

lemma stored_sizes_accepted:
  assumes "list_all event_size_ok evs" and "sizes_ok (aw_writers w)"
    and "run_owner_attachment E self route evs w = (ended, t)"
    and "a < length (wr_heap (aw_writers t))" and "current_size u (scope_at a t) = Some sz"
  shows "valid_grid (cs_columns sz) (cs_rows sz)"
proof -
  from sizes.owner [OF assms(1,2), of E self route] assms(3) have "sizes_ok (aw_writers t)" by simp
  with assms(4) have "size_ok (scope_at a t)" by (simp add: sizes_ok_def list_all_length scope_at_def)
  with assms(5) have "valid_client_size sz"
    by (auto simp: size_ok_def current_size_def split: option.splits if_splits)
  then show ?thesis by (simp add: valid_client_size_def valid_grid_def)
qed

text \<open>When an attachment has ended, it is the writer of no scope that the server still hands out, whatever
  happened during its life; other writers keep their role.\<close>

lemma ended_attachment_released:
  assumes "list_all event_size_ok evs" and "registry_ok (aw_writers w)"
    and "\<not> is_current (ai_attachment_id self) (scope_at a w)"
    and "run_owner_attachment E self route evs w = (True, t)"
    and "map_of (wr_scopes (aw_writers t)) machine = Some a"
  shows "\<not> is_current (ai_attachment_id self) (scope_at a t)"
proof -
  have released: "\<not> is_current x (wr_heap (release_attachment x r) ! a)"
    if ok: "registry_ok r" and "map_of (wr_scopes (release_attachment x r)) machine = Some a" for x r
  proof -
    from that(2) have "map_of (wr_scopes r) machine = Some a" by (simp add: release_attachment_def)
    from map_of_SomeD [OF this] ok have "a \<in> set (map snd (wr_scopes r))" "a < length (wr_heap r)"
      "distinct (map snd (wr_scopes r))"
      by (force simp: registry_ok_def list_all_iff)+
    then show ?thesis by (simp add: release_attachment_def release_at_nth scope_release_def del: set_map)
  qed
  have fatal: "scope_at a (snd (send_fatal_error E me code msg u)) = scope_at a u" for me code msg u
  proof -
    have "sr_keeps (\<lambda>v. aw_writers v = aw_writers u) (send_fatal_error E me code msg)"
      unfolding send_fatal_error_def by (intro sr_rules sr_keeps_modify) simp
    then show ?thesis by (simp add: sr_keeps_def scope_at_def)
  qed
  have ok: "registry_ok (aw_writers u')" if "authenticated_session E me route evs u = (b, u')" "registry_ok (aw_writers u)" for me u b u'
    using table.session [OF assms(1), of u E me route] that by simp
  let ?sh = "ae_shared E (aw_ticks w)"
  let ?fence = "route_fence (sh_lease_ok ?sh) (ai_machine_id self) route (sh_relays ?sh)"
  show ?thesis
  proof (cases "?fence = None \<or> \<not> ae_permit E (Suc (aw_ticks w))")
    case True
    with assms(4) have "scope_at a t = scope_at a w"
      by (auto simp: run_owner_attachment_def Let_def fatal split: option.splits)
    with assms(3) show ?thesis by simp
  next
    case False
    then obtain h where h: "?fence = Some h" and permit: "ae_permit E (Suc (aw_ticks w))" by auto
    let ?w1 = "w\<lparr>aw_ticks := Suc (Suc (aw_ticks w)), aw_audit := aw_audit w @ [(''attachment_start'', ''success'')]\<rparr>"
    obtain b w2 where ses: "authenticated_session E (self\<lparr>ai_fence := Some h\<rparr>) route evs ?w1 = (b, w2)" by fastforce
    from assms(4) h permit ses have t: "aw_writers t = release_attachment (ai_attachment_id self) (aw_writers w2)"
      by (auto simp: run_owner_attachment_def Let_def split: bool.splits)
    have "registry_ok (aw_writers w2)" using ok [OF ses] assms(2) by simp
    from released [OF this, of "ai_attachment_id self"] assms(5) t show ?thesis by (simp add: scope_at_def)
  qed
qed

subsection \<open>What an observer's workspace sends to the target\<close>

definition demoting :: "bytes \<Rightarrow> bool" where
  "demoting cmd \<longleftrightarrow> cmd = ''switch-client -r'' \<or> cmd = ''refresh-client -f '' @ quoted ''ignore-size,pause-after=1''"

definition commanded_since :: "bytes list \<Rightarrow> control_adapter \<Rightarrow> bool" where
  "commanded_since base s \<longleftrightarrow> (\<exists>cs. cc_stdin (ca_control s) = base @ cs \<and> list_all (\<lambda>c. observing c \<or> demoting c) cs)"

interpretation observer: adapter_observer "commanded_since base" "\<lambda>c. observing c \<or> demoting c" for base
proof unfold_locales
  show "sr_keeps (commanded_since base) control_line_next"
    unfolding commanded_since_def by (rule line_stdin)
  show "sr_keeps (commanded_since base) (ingest_notification l)" for l
    by (rule sr_keepsI) (simp add: commanded_since_def ingest_control_eq [OF surjective_pairing])
  show "sr_keeps (commanded_since base) (control_send cmd)" if "observing cmd \<or> demoting cmd" for cmd
  proof (rule sr_keepsI)
    fix s assume "commanded_since base s"
    then obtain cs where cs: "cc_stdin (ca_control s) = base @ cs" "list_all (\<lambda>c. observing c \<or> demoting c) cs"
      by (auto simp: commanded_since_def)
    from send_stdin [OF surjective_pairing, of cmd s] show "commanded_since base (snd (control_send cmd s))"
    proof
      assume "cc_stdin (ca_control (snd (control_send cmd s))) = cc_stdin (ca_control s) @ [cmd]"
      with cs that show ?thesis unfolding commanded_since_def by (intro exI [of _ "cs @ [cmd]"]) simp
    qed (use cs in \<open>auto simp: commanded_since_def\<close>)
  qed
qed (auto simp: commanded_since_def pop_event_def clear_events_def discard_captured_output_def discard_pre_capture_output_def Let_def
      intro!: sr_keeps_modify split: list.splits control_event.splits)

lemma observed_commanded: "observed c d \<Longrightarrow> commanded_since (cc_stdin (ca_control c)) d"
  by (auto simp: observed_def observed_since_def commanded_since_def list_all_iff)

lemma observer_step:
  assumes "\<not> is_current (ai_attachment_id me) (scope_at (sel_scope sel) w)"
    and "\<And>msg frame. ev = Ev_message msg \<Longrightarrow> receive E msg = Ok frame \<Longrightarrow> \<not> changes_writer frame"
  shows "sr_wp (workspace_step E me sel fl ev) (\<lambda>_ t. commanded_since (cc_stdin (ca_control (aw_control w))) (aw_control t))
    (\<lambda>_ t. commanded_since (cc_stdin (ca_control (aw_control w))) (aw_control t)) w"
proof -
  let ?base = "cc_stdin (ca_control (aw_control w))"
  have start: "commanded_since ?base (aw_control w)" by (simp add: commanded_since_def)
  note same = keptD silent_def shown_def start
  show ?thesis
  proof (cases ev)
    case (Ev_message msg)
    have "sr_wp (sr_bind (handle_workspace_frame E me sel frame) (\<lambda>x. sr_return (frame_to_workspace x, fl)))
        (\<lambda>_ t. commanded_since ?base (aw_control t)) (\<lambda>_ t. commanded_since ?base (aw_control t)) w"
      if "receive E msg = Ok frame" for frame
      unfolding wp_bind
      by (rule sr_wp_mono [OF observer_frame [OF assms(1) assms(2) [OF Ev_message that]]]) (auto simp: wp_return keptD start)
    with Ev_message start show ?thesis by (auto simp: workspace_step_def wp_bind [of "sr_lift _"] intro!: wp_lift)
  next
    case (Ev_directive d)
    have "commanded_since ?base c" if "set_writer False (aw_control w) = (out, c)" for out c
      using observer.set_writer [OF _ _ start that] by (simp add: demoting_def)
    with Ev_directive start show ?thesis
      by (auto simp: workspace_step_def workspace_directive_def wp_simps split: option.split control_directive.split intro!: wp_adapter_does)
  next
    case Ev_dispatch_ready
    then show ?thesis
      using start
      by (auto simp: workspace_step_def workspace_refresh_def install_for_def wp_simps wp_option adopt_def same
          split: option.splits intro!: wp_rules dest!: observed_commanded)
  next
    case Ev_target
    have "commanded_since ?base c" if "next_event (aw_control w) = (r, c)" for r c
      using observer.next_event [OF start] that by simp
    with Ev_target show ?thesis
      by (auto simp: workspace_step_def workspace_target_def wp_simps same split: sum.split await.split control_event.split
          intro!: wp_adapter_result wp_send)
  qed (use start in \<open>auto simp: workspace_step_def foreign_def writer_does_def writer_changed_def send_writer_state_def wp_simps same
      intro!: wp_send\<close>)
qed

text \<open>Whatever event the workspace of an attachment reacts to while it is not the writer (client frames other
  than requests for the role, target events, refreshes, directives of a taker), its control client is
  only sent the read-only observing commands of a projection or the two commands of its own demotion.\<close>

lemma observer_workspace_only_observes:
  assumes "\<not> is_current (ai_attachment_id me) (scope_at (sel_scope sel) w)"
    and "\<forall>msg frame. ev = Ev_message msg \<and> receive E msg = Ok frame \<longrightarrow> \<not> changes_writer frame"
    and "workspace_step E me sel fl ev w = (r, t)"
  shows "\<exists>cs. cc_stdin (ca_control (aw_control t)) = cc_stdin (ca_control (aw_control w)) @ cs
    \<and> list_all (\<lambda>c. observing c \<or> demoting c) cs"
proof -
  have "sr_wp (workspace_step E me sel fl ev) (\<lambda>_ t. commanded_since (cc_stdin (ca_control (aw_control w))) (aw_control t))
    (\<lambda>_ t. commanded_since (cc_stdin (ca_control (aw_control w))) (aw_control t)) w"
    by (rule observer_step [OF assms(1)]) (use assms(2) in blast)
  from sr_wp_state [OF this] assms(3) show ?thesis by (simp add: commanded_since_def)
qed

theorem observer_workspace_only_observes_witness:
  "\<exists>cs. cc_stdin (ca_control (aw_control (snd (workspace_step sample_env sample_id sample_selection \<lparr>wf_dirty = False, wf_pending = False\<rparr>
     (Ev_directive (Some Demote)) (sample_world (Some (sample_holder 8)) []))))) = cs \<and> list_all (\<lambda>c. observing c \<or> demoting c) cs"
proof -
  let ?w = "sample_world (Some (sample_holder 8)) []"
  have "\<not> is_current (ai_attachment_id sample_id) (scope_at (sel_scope sample_selection) ?w)" by code_simp
  from observer_workspace_only_observes [OF this _ surjective_pairing, of "Ev_directive (Some Demote)" sample_env
      "\<lparr>wf_dirty = False, wf_pending = False\<rparr>"]
  show ?thesis by (simp add: sample_world_def sample_adapter_def sample_child_def)
qed

text \<open>A concrete life: the chooser's probe answers, the Browser claims the writer role and detaches.\<close>

definition session_env :: att_env where
  "session_env = sample_env\<lparr>ae_probe := (\<lambda>_. Some sample_probe), ae_uuid := (\<lambda>_. 11),
     ae_from_str := (\<lambda>txt. if txt = ''claim'' then Some (F_WriterClaim 1 ''3'' 11 80 24) else Some F_WorkspaceDetach)\<rparr>"

definition session_events :: "bool \<Rightarrow> session_event list" where
  "session_events leave = Ev_message (Ok ''claim'') # (if leave then [Ev_message (Ok ''bye'')] else [])"

theorem stored_sizes_accepted_witness:
  "\<exists>t. run_owner_attachment session_env sample_id \<lparr>ri_route_revision = 1, ri_connection_epoch = 3, ri_connection_id = 9\<rparr>
      (session_events False) (sample_world None []) = (False, t) \<and> current_size 7 (scope_at 0 t) = Some (size_of 80 24) \<and> valid_grid 80 24"
proof -
  let ?r = "\<lparr>ri_route_revision = 1, ri_connection_epoch = 3, ri_connection_id = 9\<rparr>"
  let ?run = "run_owner_attachment session_env sample_id ?r (session_events False) (sample_world None [])"
  have "(fst ?run, length (wr_heap (aw_writers (snd ?run))), current_size 7 (scope_at 0 (snd ?run)))
      = (False, 1, Some \<lparr>cs_columns = 80, cs_rows = 24\<rparr>)" by code_simp
  moreover obtain b t where t: "?run = (b, t)" by fastforce
  moreover have "list_all event_size_ok (session_events False)" "sizes_ok (aw_writers (sample_world None []))" by code_simp+
  ultimately show ?thesis
    using stored_sizes_accepted [of "session_events False" "sample_world None []" session_env sample_id ?r b t 0 7 "size_of 80 24"]
    by (simp add: size_of_def)
qed

theorem ended_attachment_released_witness:
  "\<exists>t. run_owner_attachment session_env sample_id \<lparr>ri_route_revision = 1, ri_connection_epoch = 3, ri_connection_id = 9\<rparr>
      (session_events True) (sample_world None []) = (True, t) \<and> \<not> is_current 7 (scope_at 0 t)
      \<and> (O_WriterClaim, PO_Succeeded) \<in> set (aw_results t)"
proof -
  let ?r = "\<lparr>ri_route_revision = 1, ri_connection_epoch = 3, ri_connection_id = 9\<rparr>"
  let ?run = "run_owner_attachment session_env sample_id ?r (session_events True) (sample_world None [])"
  have "(fst ?run, map_of (wr_scopes (aw_writers (snd ?run))) 5, aw_results (snd ?run))
      = (True, Some 0, [(O_WriterClaim, PO_Succeeded)])" by code_simp
  moreover obtain b t where t: "?run = (b, t)" by fastforce
  moreover have "list_all event_size_ok (session_events True)" "registry_ok (aw_writers (sample_world None []))"
    "\<not> is_current (ai_attachment_id sample_id) (scope_at 0 (sample_world None []))" by code_simp+
  ultimately show ?thesis
    using ended_attachment_released [of "session_events True" "sample_world None []" sample_id 0 session_env ?r t 5]
    by (simp add: sample_id_def)
qed

end
