(* ===== verification/Relay_Protocol.thy ===== *)
theory Relay_Protocol
  imports Contracts
begin

text \<open>
  The wire protocol between a Server and a Relay, as both crates define it
  (\<open>crates/owlmux-server/src/relay/protocol.rs\<close> and \<open>crates/owlmux-relay/src/protocol.rs\<close>): the frames
  of each direction and the byte string a Relay signs to prove its identity. The JSON text of a frame
  and base64 are library code and enter as the record \<open>relay_codec\<close>; what is relied on is that reading
  gives back what was written (\<open>codec_ok\<close>). The main result is that the signed byte string determines
  every value it is built from, so a signature given for one challenge proves nothing for another.
\<close>

abbreviation (input) VERSION :: nat where "VERSION \<equiv> 1"
abbreviation (input) MAX_FRAME_BYTES :: nat where "MAX_FRAME_BYTES \<equiv> 32768"
abbreviation (input) MAX_DATA_BYTES :: nat where "MAX_DATA_BYTES \<equiv> 16384"
abbreviation (input) MAX_STREAMS :: nat where "MAX_STREAMS \<equiv> 32"

section \<open>Frames\<close>

datatype close_reason = CR_Eof | CR_ConnectFailed | CR_Protocol | CR_Shutdown

datatype challenge_purpose = CP_Enrollment | CP_Tunnel

datatype relay_client_frame =
    RC_Token bytes
  | RC_Setup (rcs_protocol: nat) (rcs_relay_id: uuid) (rcs_public_key: bytes) (rcs_endpoint: bytes)
      (rcs_observed_account: bytes)
  | RC_Ready
  | RC_HostKeyAccepted bytes
  | RC_Signature bytes
  | RC_TunnelHello (rch_protocol: nat) (rch_deployment_id: uuid) (rch_machine_id: uuid) (rch_relay_id: uuid)
      (rch_connection_id: uuid) (rch_route_revision: int)
  | RC_StreamOpened nat
  | RC_StreamData nat bytes
  | RC_StreamHalfClosed nat
  | RC_StreamClosed nat close_reason
  | RC_Pong nat

datatype relay_server_frame =
    RS_Accepted (rsa_deployment_id: uuid) (rsa_machine_id: uuid) (rsa_attempt_id: uuid) (rsa_route_revision: int)
  | RS_Credential (rsc_credential_id: uuid) (rsc_name: bytes) (rsc_public_key: bytes) (rsc_fingerprint: bytes)
  | RS_HostKey bytes bytes
  | RS_Challenge challenge_purpose bytes
  | RS_Activated int
  | RS_TunnelEstablished int
  | RS_OpenStream nat
  | RS_StreamData nat bytes
  | RS_StreamHalfClosed nat
  | RS_StreamClosed nat close_reason
  | RS_Ping nat
  | RS_Error bytes bytes

section \<open>Library encoders\<close>

record relay_codec =
  rc_b64_encode :: "bytes \<Rightarrow> bytes"
  rc_b64_decode :: "bytes \<Rightarrow> bytes option"
  rc_show_server :: "relay_server_frame \<Rightarrow> bytes option"
  rc_read_server :: "bytes \<Rightarrow> relay_server_frame option"
  rc_show_client :: "relay_client_frame \<Rightarrow> bytes option"
  rc_read_client :: "bytes \<Rightarrow> relay_client_frame option"

definition codec_ok :: "relay_codec \<Rightarrow> bool" where
  "codec_ok E \<longleftrightarrow> (\<forall>b. rc_b64_decode E (rc_b64_encode E b) = Some b)
     \<and> (\<forall>f t. rc_show_server E f = Some t \<longrightarrow> rc_read_server E t = Some f)
     \<and> (\<forall>f t. rc_show_client E f = Some t \<longrightarrow> rc_read_client E t = Some f)"

lemma codec_okD:
  assumes "codec_ok E"
  shows "rc_b64_decode E (rc_b64_encode E b) = Some b"
    and "rc_show_server E f = Some t \<Longrightarrow> rc_read_server E t = Some f"
    and "rc_show_client E g = Some t \<Longrightarrow> rc_read_client E t = Some g"
  using assms by (auto simp: codec_ok_def)

text \<open>A WebSocket message as the receiving side meets it, and the outcome of waiting for one.\<close>

datatype ws_message = WS_Text bytes | WS_Other

datatype socket_next = Next_Closed | Next_Error | Next_Message ws_message

section \<open>The signed byte string\<close>

text \<open>Rust's \<open>to_be_bytes\<close> of an \<open>n\<close>-byte value, and \<open>Uuid::as_bytes\<close>.\<close>

fun be_bytes :: "nat \<Rightarrow> nat \<Rightarrow> bytes" where
  "be_bytes 0 v = []"
| "be_bytes (Suc n) v = be_bytes n (v div 256) @ [char_of (v mod 256)]"

definition uuid_bytes :: "uuid \<Rightarrow> bytes" where
  "uuid_bytes u = be_bytes 16 (unat u)"

definition i64_be_bytes :: "int \<Rightarrow> bytes" where
  "i64_be_bytes r = be_bytes 8 (nat (r mod 2 ^ 64))"

definition signature_message ::
  "challenge_purpose \<Rightarrow> uuid \<Rightarrow> uuid \<Rightarrow> uuid \<Rightarrow> uuid option \<Rightarrow> int \<Rightarrow> bytes \<Rightarrow> bytes" where
  "signature_message purpose deployment_id machine_id relay_id connection_id route_revision nonce =
     ''owlmux:relay-signature:v1'' @ [CHR 0x00]
     @ (case purpose of CP_Enrollment \<Rightarrow> ''enrollment'' @ [CHR 0x00] | CP_Tunnel \<Rightarrow> ''tunnel'' @ [CHR 0x00])
     @ uuid_bytes deployment_id @ uuid_bytes machine_id @ uuid_bytes relay_id
     @ (case connection_id of None \<Rightarrow> [] | Some c \<Rightarrow> uuid_bytes c)
     @ i64_be_bytes route_revision @ nonce"

lemma length_be_bytes [simp]: "length (be_bytes n v) = n"
  by (induction n arbitrary: v) auto

lemma be_bytes_inject: "v < 256 ^ n \<Longrightarrow> w < 256 ^ n \<Longrightarrow> be_bytes n v = be_bytes n w \<longleftrightarrow> v = w"
proof (induction n arbitrary: v w)
  case (Suc n)
  have "v div 256 < 256 ^ n" "w div 256 < 256 ^ n"
    using Suc.prems by (simp_all add: less_mult_imp_div_less mult.commute)
  then have "be_bytes n (v div 256) = be_bytes n (w div 256) \<longleftrightarrow> v div 256 = w div 256"
    by (rule Suc.IH)
  moreover have "(char_of (v mod 256) :: char) = char_of (w mod 256) \<longleftrightarrow> v mod 256 = w mod 256"
    by (metis mod_mod_trivial of_char_of)
  ultimately show ?case by (simp, metis div_mult_mod_eq)
qed auto

lemma length_uuid_bytes [simp]: "length (uuid_bytes u) = 16"
  by (simp add: uuid_bytes_def)

lemma uuid_bytes_nonempty [simp]: "uuid_bytes u \<noteq> []" "[] \<noteq> uuid_bytes u"
  by (metis length_uuid_bytes list.size(3) zero_neq_numeral)+

lemma uuid_bytes_inject [simp]: "uuid_bytes u = uuid_bytes v \<longleftrightarrow> u = v"
proof -
  have "unat w < 256 ^ 16" for w :: uuid
    using unsigned_less [of w, where ?'a = nat] by simp
  then show ?thesis by (simp add: uuid_bytes_def be_bytes_inject word_unat_eq_iff)
qed

definition is_i64 :: "int \<Rightarrow> bool" where
  "is_i64 r \<longleftrightarrow> - (2 ^ 63) \<le> r \<and> r < 2 ^ 63"

lemma length_i64_be_bytes [simp]: "length (i64_be_bytes r) = 8"
  by (simp add: i64_be_bytes_def)

lemma i64_be_bytes_inject:
  assumes "is_i64 r" "is_i64 s"
  shows "i64_be_bytes r = i64_be_bytes s \<longleftrightarrow> r = s"
proof -
  have "nat (x mod 2 ^ 64) < 256 ^ 8" for x :: int by simp
  then have "i64_be_bytes r = i64_be_bytes s \<longleftrightarrow> r mod 2 ^ 64 = s mod 2 ^ 64"
    by (simp add: i64_be_bytes_def be_bytes_inject eq_nat_nat_iff)
  also have "\<dots> \<longleftrightarrow> r = s"
    using assms dvd_imp_le_int [of "r - s" "2 ^ 64"] by (cases "r = s") (simp_all add: is_i64_def mod_eq_dvd_iff, linarith)
  finally show ?thesis .
qed

lemma signature_message_length:
  "length (signature_message p d m r c v n)
     = 82 + (case p of CP_Enrollment \<Rightarrow> 11 | CP_Tunnel \<Rightarrow> 7) + (case c of None \<Rightarrow> 0 | Some _ \<Rightarrow> 16) + length n"
  by (simp add: signature_message_def split: challenge_purpose.split option.split)

text \<open>A Relay's signature binds everything the challenge is about: two signed byte strings are equal
  only if purpose, deployment, machine, Relay, connection, route revision and nonce are all equal, so no
  signature can be replayed for another purpose, machine, route or challenge.\<close>

lemma signature_binds_everything:
  assumes "is_i64 v" "is_i64 v'" "length n = 32" "length n' = 32"
    and "signature_message p d m r c v n = signature_message p' d' m' r' c' v' n'"
  shows "p = p' \<and> d = d' \<and> m = m' \<and> r = r' \<and> c = c' \<and> v = v' \<and> n = n'"
proof -
  have p: "p = p'"
    using assms(5) by (cases p; cases p') (auto simp: signature_message_def)
  then have "length (case c of None \<Rightarrow> [] | Some x \<Rightarrow> uuid_bytes x) = length (case c' of None \<Rightarrow> [] | Some x \<Rightarrow> uuid_bytes x)"
    using assms(3,4) arg_cong [OF assms(5), of length]
    by (auto simp: signature_message_length split: option.splits challenge_purpose.splits)
  with p show ?thesis
    using assms by (auto simp: signature_message_def i64_be_bytes_inject split: option.splits)
qed

theorem signature_binds_everything_witness:
  "\<not> (signature_message CP_Tunnel 1 2 3 (Some 4) 5 (replicate 32 CHR ''n'')
      = signature_message CP_Tunnel 1 2 3 (Some 4) 6 (replicate 32 CHR ''n''))"
  using signature_binds_everything [of 5 6 "replicate 32 CHR ''n''" "replicate 32 CHR ''n''" CP_Tunnel 1 2 3 "Some 4" CP_Tunnel 1 2 3 "Some 4"]
  by (auto simp: is_i64_def)

end
