(* ===== verification/Relay_Tunnel.thy ===== *)
theory Relay_Tunnel
  imports Relay_Protocol Relay_Registry
begin

text \<open>
  The Server end of a Relay tunnel (\<open>relay/mod.rs\<close>: \<open>run_tunnel\<close>, \<open>relay_reader\<close>, \<open>send_route_frame\<close>,
  \<open>send_frame\<close>, \<open>decode_frame\<close>, \<open>write_data\<close>). One round of the loop is a lease check followed by the
  first ready branch of the \<open>biased\<close> \<open>select!\<close>; what the branch meets (lease, barrier, socket, pipes,
  clock) is the record \<open>server_poll\<close>. The tasks that read the callers' pipes are separate steps that
  share the outbound channel with the loop. Times are in seconds.
\<close>

abbreviation (input) HEARTBEAT :: nat where "HEARTBEAT \<equiv> 15"
abbreviation (input) OUTBOUND_CAPACITY :: nat where "OUTBOUND_CAPACITY \<equiv> 64"

section \<open>State\<close>

text \<open>\<open>sv_socket\<close> holds the messages handed to the socket and not yet taken by the Relay. A caller's pipe
  is described by what was read from it and what was written to it so far.\<close>

record server_tunnel =
  sv_writers :: "nat list"
  sv_next_stream_id :: nat
  sv_ping_nonce :: nat
  sv_outstanding_pings :: "nat list"
  sv_inbound_deadline :: nat
  sv_readers :: "nat list"
  sv_outbound :: "relay_server_frame list"
  sv_socket :: "ws_message list"
  sv_from_caller :: "nat \<Rightarrow> bytes"
  sv_to_caller :: "nat \<Rightarrow> bytes"
  sv_shutdown :: "nat list"
  sv_answers :: "(relay_error + nat) list"

record server_poll =
  sp_now :: nat
  sp_lease :: bool
  sp_barrier :: bool
  sp_fence :: bool
  sp_command :: bool
  sp_next :: "socket_next option"
  sp_tick :: bool
  sp_dispatch_open :: bool
  sp_barrier_now :: bool
  sp_lease_now :: bool
  sp_socket_ok :: bool
  sp_write :: "nat option"

datatype tunnel_loop = Loop_Continue | Loop_Finished

type_synonym 'a server_sr = "(server_tunnel, relay_error, 'a) sr"

definition server_tunnel_new :: "nat \<Rightarrow> server_tunnel" where
  "server_tunnel_new now = \<lparr>sv_writers = [], sv_next_stream_id = 1, sv_ping_nonce = 0, sv_outstanding_pings = [],
     sv_inbound_deadline = now + HEARTBEAT * 3, sv_readers = [], sv_outbound = [], sv_socket = [],
     sv_from_caller = (\<lambda>_. []), sv_to_caller = (\<lambda>_. []), sv_shutdown = [], sv_answers = []\<rparr>"

section \<open>Frames on the socket\<close>

definition server_send_frame :: "relay_codec \<Rightarrow> server_poll \<Rightarrow> relay_server_frame \<Rightarrow> unit server_sr" where
  "server_send_frame E p frame =
     sr_bind (sr_lift (ok_or (rc_show_server E frame) R_Protocol)) (\<lambda>encoded.
     if \<not> sp_socket_ok p then sr_throw R_Unavailable
     else sr_modify (\<lambda>s. s\<lparr>sv_socket := sv_socket s @ [WS_Text encoded]\<rparr>))"

definition send_route_frame :: "relay_codec \<Rightarrow> server_poll \<Rightarrow> relay_server_frame \<Rightarrow> unit server_sr" where
  "send_route_frame E p frame =
     (if \<not> sp_lease_now p then sr_throw R_Fenced
      else if \<not> sp_dispatch_open p \<or> sp_barrier_now p then sr_throw R_Unavailable
      else server_send_frame E p frame)"

definition server_decode_frame :: "relay_codec \<Rightarrow> ws_message \<Rightarrow> relay_error + relay_client_frame" where
  "server_decode_frame E message = (case message of
     WS_Other \<Rightarrow> Err R_Protocol
   | WS_Text t \<Rightarrow> if length t > MAX_FRAME_BYTES then Err R_Protocol else ok_or (rc_read_client E t) R_Protocol)"

definition server_write_data :: "relay_codec \<Rightarrow> server_poll \<Rightarrow> nat \<Rightarrow> bytes \<Rightarrow> unit server_sr" where
  "server_write_data E p stream_id data =
     sr_bind (sr_lift (ok_or (rc_b64_decode E data) R_Protocol)) (\<lambda>decoded.
     if length decoded > MAX_DATA_BYTES then sr_throw R_Protocol
     else (let written = (case sp_write p of None \<Rightarrow> decoded | Some k \<Rightarrow> take k decoded) in
       sr_bind (sr_modify (\<lambda>s. s\<lparr>sv_to_caller := (sv_to_caller s)(stream_id := sv_to_caller s stream_id @ written)\<rparr>)) (\<lambda>_.
       if sp_write p = None then sr_return () else sr_throw R_Unavailable)))"

section \<open>The loop\<close>

datatype server_arm = SA_Barrier | SA_Fence | SA_Command | SA_Outbound | SA_Deadline | SA_Message socket_next | SA_Tick

text \<open>The branch a \<open>biased\<close> \<open>select!\<close> takes: the first one that is ready, in source order.\<close>

definition server_select :: "server_poll \<Rightarrow> server_tunnel \<Rightarrow> server_arm option" where
  "server_select p s =
     (if sp_barrier p then Some SA_Barrier
      else if sp_fence p then Some SA_Fence
      else if sp_command p then Some SA_Command
      else if sv_outbound s \<noteq> [] then Some SA_Outbound
      else if sv_inbound_deadline s \<le> sp_now p then Some SA_Deadline
      else (case sp_next p of
          Some m \<Rightarrow> Some (SA_Message m)
        | None \<Rightarrow> if sp_tick p then Some SA_Tick else None))"

definition answer_open :: "relay_error + nat \<Rightarrow> unit server_sr" where
  "answer_open r = sr_modify (\<lambda>s. s\<lparr>sv_answers := sv_answers s @ [r]\<rparr>)"

definition server_open :: "relay_codec \<Rightarrow> server_poll \<Rightarrow> tunnel_loop server_sr" where
  "server_open E p =
     (if \<not> sp_lease_now p then sr_throw R_Fenced
      else if \<not> sp_dispatch_open p \<or> sp_barrier_now p
      then sr_bind (answer_open (Err R_Unavailable)) (\<lambda>_. sr_return Loop_Continue)
      else sr_bind (sr_gets id) (\<lambda>s.
        if length (sv_writers s) \<ge> MAX_STREAMS
        then sr_bind (answer_open (Err R_Overloaded)) (\<lambda>_. sr_return Loop_Continue)
        else (let stream_id = sv_next_stream_id s in
          if stream_id + 1 \<ge> 2 ^ 32 then sr_throw R_Protocol
          else sr_bind (sr_modify (\<lambda>s. s\<lparr>sv_next_stream_id := stream_id + 1, sv_writers := stream_id # sv_writers s,
                 sv_readers := stream_id # sv_readers s\<rparr>)) (\<lambda>_.
               sr_bind (server_send_frame E p (RS_OpenStream stream_id)) (\<lambda>_.
               sr_bind (answer_open (Ok stream_id)) (\<lambda>_. sr_return Loop_Continue))))))"

definition server_outbound :: "relay_codec \<Rightarrow> server_poll \<Rightarrow> tunnel_loop server_sr" where
  "server_outbound E p =
     sr_bind (sr_gets (\<lambda>s. hd (sv_outbound s))) (\<lambda>frame.
     sr_bind (sr_modify (\<lambda>s. s\<lparr>sv_outbound := tl (sv_outbound s)\<rparr>)) (\<lambda>_.
     sr_bind (send_route_frame E p frame) (\<lambda>_. sr_return Loop_Continue)))"

definition server_close_stream :: "nat \<Rightarrow> unit server_sr" where
  "server_close_stream stream_id = sr_modify (\<lambda>s.
     if stream_id \<in> set (sv_writers s)
     then s\<lparr>sv_writers := removeAll stream_id (sv_writers s), sv_shutdown := stream_id # sv_shutdown s\<rparr> else s)"

definition server_frame_arm :: "relay_codec \<Rightarrow> server_poll \<Rightarrow> relay_client_frame \<Rightarrow> tunnel_loop server_sr" where
  "server_frame_arm E p frame = (case frame of
     RC_StreamOpened _ \<Rightarrow> sr_return Loop_Continue
   | RC_Pong nonce \<Rightarrow> sr_bind (sr_gets sv_outstanding_pings) (\<lambda>pings.
       if nonce \<notin> set pings then sr_throw R_Protocol
       else sr_bind (sr_modify (\<lambda>s. s\<lparr>sv_outstanding_pings := remove1 nonce pings\<rparr>)) (\<lambda>_. sr_return Loop_Continue))
   | RC_StreamData stream_id data \<Rightarrow>
       if \<not> sp_lease_now p then sr_throw R_Fenced
       else sr_bind (sr_gets sv_writers) (\<lambda>writers.
         if stream_id \<notin> set writers then sr_throw R_Protocol
         else sr_bind (server_write_data E p stream_id data) (\<lambda>_. sr_return Loop_Continue))
   | RC_StreamHalfClosed stream_id \<Rightarrow> sr_bind (server_close_stream stream_id) (\<lambda>_. sr_return Loop_Continue)
   | RC_StreamClosed stream_id _ \<Rightarrow> sr_bind (server_close_stream stream_id) (\<lambda>_. sr_return Loop_Continue)
   | _ \<Rightarrow> sr_throw R_Protocol)"

definition server_message :: "relay_codec \<Rightarrow> server_poll \<Rightarrow> socket_next \<Rightarrow> tunnel_loop server_sr" where
  "server_message E p message = (case message of
     Next_Closed \<Rightarrow> sr_throw R_Unavailable
   | Next_Error \<Rightarrow> sr_throw R_Protocol
   | Next_Message m \<Rightarrow> sr_bind (sr_lift (server_decode_frame E m)) (\<lambda>frame.
       sr_bind (sr_modify (\<lambda>s. s\<lparr>sv_inbound_deadline := sp_now p + HEARTBEAT * 3\<rparr>)) (\<lambda>_.
       server_frame_arm E p frame)))"

definition server_tick :: "relay_codec \<Rightarrow> server_poll \<Rightarrow> tunnel_loop server_sr" where
  "server_tick E p =
     sr_bind (sr_gets sv_outstanding_pings) (\<lambda>pings.
     if length pings \<ge> 3 then sr_throw R_Unavailable
     else sr_bind (sr_gets sv_ping_nonce) (\<lambda>nonce.
       if nonce + 1 \<ge> 2 ^ 64 then sr_throw R_Protocol
       else sr_bind (sr_modify (\<lambda>s. s\<lparr>sv_ping_nonce := nonce + 1\<rparr>)) (\<lambda>_.
         sr_bind (send_route_frame E p (RS_Ping (nonce + 1))) (\<lambda>_.
         sr_bind (sr_modify (\<lambda>s. s\<lparr>sv_outstanding_pings := sv_outstanding_pings s @ [nonce + 1]\<rparr>)) (\<lambda>_.
         sr_return Loop_Continue)))))"

definition server_arm_body :: "relay_codec \<Rightarrow> server_poll \<Rightarrow> server_arm \<Rightarrow> tunnel_loop server_sr" where
  "server_arm_body E p arm = (case arm of
     SA_Barrier \<Rightarrow> sr_return Loop_Finished
   | SA_Fence \<Rightarrow> sr_throw R_Fenced
   | SA_Command \<Rightarrow> server_open E p
   | SA_Outbound \<Rightarrow> server_outbound E p
   | SA_Deadline \<Rightarrow> sr_throw R_Unavailable
   | SA_Message m \<Rightarrow> server_message E p m
   | SA_Tick \<Rightarrow> server_tick E p)"

definition server_round :: "relay_codec \<Rightarrow> server_poll \<Rightarrow> tunnel_loop server_sr" where
  "server_round E p s =
     (if \<not> sp_lease p then (Err R_Fenced, s)
      else (case server_select p s of
          None \<Rightarrow> (Ok Loop_Continue, s)
        | Some arm \<Rightarrow> server_arm_body E p arm s))"

section \<open>Reading a caller's pipe\<close>

datatype read_result = Read_Eof | Read_Data bytes | Read_Failed

text \<open>One turn of the task for a stream; it waits while the outbound channel is full.\<close>

definition relay_reader :: "relay_codec \<Rightarrow> nat \<Rightarrow> read_result \<Rightarrow> server_tunnel \<Rightarrow> server_tunnel" where
  "relay_reader E stream_id r s = (case r of
     Read_Eof \<Rightarrow> s\<lparr>sv_outbound := sv_outbound s @ [RS_StreamHalfClosed stream_id],
                   sv_readers := removeAll stream_id (sv_readers s)\<rparr>
   | Read_Data b \<Rightarrow> s\<lparr>sv_outbound := sv_outbound s @ [RS_StreamData stream_id (rc_b64_encode E b)],
                   sv_from_caller := (sv_from_caller s)(stream_id := sv_from_caller s stream_id @ b)\<rparr>
   | Read_Failed \<Rightarrow> s\<lparr>sv_outbound := sv_outbound s @ [RS_StreamClosed stream_id CR_Shutdown],
                   sv_readers := removeAll stream_id (sv_readers s)\<rparr>)"

definition relay_reader_enabled :: "nat \<Rightarrow> read_result \<Rightarrow> server_tunnel \<Rightarrow> bool" where
  "relay_reader_enabled stream_id r s \<longleftrightarrow> stream_id \<in> set (sv_readers s) \<and> length (sv_outbound s) < OUTBOUND_CAPACITY
     \<and> (case r of Read_Data b \<Rightarrow> b \<noteq> [] \<and> length b \<le> MAX_DATA_BYTES | _ \<Rightarrow> True)"

section \<open>Bounds\<close>

text \<open>The Server end never serves more than \<open>MAX_STREAMS\<close> streams or waits for more than three pings; a
  stream id it uses was handed out before and is not handed out again.\<close>

definition server_tunnel_ok :: "server_tunnel \<Rightarrow> bool" where
  "server_tunnel_ok s \<longleftrightarrow> distinct (sv_writers s) \<and> length (sv_writers s) \<le> MAX_STREAMS
     \<and> 0 < sv_next_stream_id s \<and> sv_next_stream_id s < 2 ^ 32
     \<and> (\<forall>i \<in> set (sv_writers s) \<union> set (sv_readers s). 0 < i \<and> i < sv_next_stream_id s)
     \<and> length (sv_outstanding_pings s) \<le> 3 \<and> distinct (sv_outstanding_pings s)
     \<and> (\<forall>n \<in> set (sv_outstanding_pings s). n \<le> sv_ping_nonce s)
     \<and> length (sv_outbound s) \<le> OUTBOUND_CAPACITY"

end
