(* ===== verification/Relay_Client.thy ===== *)
theory Relay_Client
  imports Relay_Protocol
begin

text \<open>
  The Relay end of a tunnel (\<open>crates/owlmux-relay/src/main.rs\<close>: \<open>relay_tunnel\<close>, \<open>spawn_target_reader\<close>,
  \<open>send_frame\<close>, \<open>decode_frame\<close>, \<open>write_data\<close>, \<open>run_forever\<close>). The \<open>select!\<close> of the Relay is not biased,
  so a round is given the branch it takes; a branch that is not ready leaves the round without effect.
\<close>

abbreviation (input) TUNNEL_INBOUND_TIMEOUT :: nat where "TUNNEL_INBOUND_TIMEOUT \<equiv> 45"
abbreviation (input) CLIENT_OUTBOUND_CAPACITY :: nat where "CLIENT_OUTBOUND_CAPACITY \<equiv> 64"

section \<open>State\<close>

datatype relay_client_error = RE_Input | RE_State bytes | RE_StateFile | RE_Protocol | RE_Transport | is_RE_Remote: RE_Remote bytes

datatype tunnel_exit = TX_Shutdown | TX_Disconnected

datatype client_loop = CL_Continue | CL_Exit tunnel_exit

record client_tunnel =
  ct_targets :: "nat list"
  ct_inbound_deadline :: nat
  ct_readers :: "nat list"
  ct_outbound :: "relay_client_frame list"
  ct_socket :: "ws_message list"
  ct_to_target :: "nat \<Rightarrow> bytes"
  ct_from_target :: "nat \<Rightarrow> bytes"
  ct_shutdown :: "nat list"

datatype client_arm = CA_Signal bool | CA_Outbound | CA_Deadline | CA_Message socket_next

record client_poll =
  cp_now :: nat
  cp_arm :: client_arm
  cp_connect :: bool
  cp_socket_ok :: bool
  cp_write :: "nat option"

type_synonym 'a client_sr = "(client_tunnel, relay_client_error, 'a) sr"

definition client_tunnel_new :: "nat \<Rightarrow> client_tunnel" where
  "client_tunnel_new now = \<lparr>ct_targets = [], ct_inbound_deadline = now + TUNNEL_INBOUND_TIMEOUT, ct_readers = [],
     ct_outbound = [], ct_socket = [], ct_to_target = (\<lambda>_. []), ct_from_target = (\<lambda>_. []), ct_shutdown = []\<rparr>"

section \<open>Frames on the socket\<close>

definition client_decode_frame :: "relay_codec \<Rightarrow> ws_message \<Rightarrow> relay_client_error + relay_server_frame" where
  "client_decode_frame E message = (case message of
     WS_Other \<Rightarrow> Err RE_Protocol
   | WS_Text t \<Rightarrow> if length t > MAX_FRAME_BYTES then Err RE_Protocol else ok_or (rc_read_server E t) RE_Protocol)"

definition client_send_frame :: "relay_codec \<Rightarrow> client_poll \<Rightarrow> relay_client_frame \<Rightarrow> unit client_sr" where
  "client_send_frame E p frame =
     sr_bind (sr_lift (ok_or (rc_show_client E frame) RE_Protocol)) (\<lambda>encoded.
     if length encoded > MAX_FRAME_BYTES then sr_throw RE_Protocol
     else if \<not> cp_socket_ok p then sr_throw RE_Transport
     else sr_modify (\<lambda>s. s\<lparr>ct_socket := ct_socket s @ [WS_Text encoded]\<rparr>))"

definition client_write_data :: "relay_codec \<Rightarrow> client_poll \<Rightarrow> nat \<Rightarrow> bytes \<Rightarrow> unit client_sr" where
  "client_write_data E p stream_id data =
     sr_bind (sr_lift (ok_or (rc_b64_decode E data) RE_Protocol)) (\<lambda>decoded.
     if length decoded > MAX_DATA_BYTES then sr_throw RE_Protocol
     else (let written = (case cp_write p of None \<Rightarrow> decoded | Some k \<Rightarrow> take k decoded) in
       sr_bind (sr_modify (\<lambda>s. s\<lparr>ct_to_target := (ct_to_target s)(stream_id := ct_to_target s stream_id @ written)\<rparr>)) (\<lambda>_.
       if cp_write p = None then sr_return () else sr_throw RE_Transport)))"

section \<open>The loop\<close>

definition client_open :: "relay_codec \<Rightarrow> client_poll \<Rightarrow> nat \<Rightarrow> client_loop client_sr" where
  "client_open E p stream_id =
     sr_bind (sr_gets ct_targets) (\<lambda>targets.
     if stream_id = 0 \<or> length targets \<ge> MAX_STREAMS \<or> stream_id \<in> set targets then sr_throw RE_Protocol
     else if cp_connect p then
       sr_bind (sr_modify (\<lambda>s. s\<lparr>ct_targets := stream_id # targets, ct_readers := stream_id # ct_readers s\<rparr>)) (\<lambda>_.
       sr_bind (client_send_frame E p (RC_StreamOpened stream_id)) (\<lambda>_. sr_return CL_Continue))
     else sr_bind (client_send_frame E p (RC_StreamClosed stream_id CR_ConnectFailed)) (\<lambda>_. sr_return CL_Continue))"

definition client_close_stream :: "nat \<Rightarrow> unit client_sr" where
  "client_close_stream stream_id = sr_modify (\<lambda>s.
     if stream_id \<in> set (ct_targets s)
     then s\<lparr>ct_targets := removeAll stream_id (ct_targets s), ct_shutdown := stream_id # ct_shutdown s\<rparr> else s)"

definition client_frame_arm :: "relay_codec \<Rightarrow> client_poll \<Rightarrow> relay_server_frame \<Rightarrow> client_loop client_sr" where
  "client_frame_arm E p frame = (case frame of
     RS_OpenStream stream_id \<Rightarrow> client_open E p stream_id
   | RS_StreamData stream_id data \<Rightarrow> sr_bind (sr_gets ct_targets) (\<lambda>targets.
       if stream_id \<notin> set targets then sr_throw RE_Protocol
       else sr_bind (client_write_data E p stream_id data) (\<lambda>_. sr_return CL_Continue))
   | RS_StreamHalfClosed stream_id \<Rightarrow> sr_bind (client_close_stream stream_id) (\<lambda>_. sr_return CL_Continue)
   | RS_StreamClosed stream_id _ \<Rightarrow> sr_bind (client_close_stream stream_id) (\<lambda>_. sr_return CL_Continue)
   | RS_Ping nonce \<Rightarrow> sr_bind (client_send_frame E p (RC_Pong nonce)) (\<lambda>_. sr_return CL_Continue)
   | RS_Error code _ \<Rightarrow> sr_throw (RE_Remote code)
   | _ \<Rightarrow> sr_throw RE_Protocol)"

definition client_message :: "relay_codec \<Rightarrow> client_poll \<Rightarrow> socket_next \<Rightarrow> client_loop client_sr" where
  "client_message E p message = (case message of
     Next_Message m \<Rightarrow> sr_bind (sr_lift (client_decode_frame E m)) (\<lambda>incoming.
       sr_bind (sr_modify (\<lambda>s. s\<lparr>ct_inbound_deadline := cp_now p + TUNNEL_INBOUND_TIMEOUT\<rparr>)) (\<lambda>_.
       client_frame_arm E p incoming))
   | _ \<Rightarrow> sr_return (CL_Exit TX_Disconnected))"

definition client_outbound :: "relay_codec \<Rightarrow> client_poll \<Rightarrow> client_loop client_sr" where
  "client_outbound E p =
     sr_bind (sr_gets (\<lambda>s. hd (ct_outbound s))) (\<lambda>frame.
     sr_bind (sr_modify (\<lambda>s. s\<lparr>ct_outbound := tl (ct_outbound s)\<rparr>)) (\<lambda>_.
     sr_bind (client_send_frame E p frame) (\<lambda>_. sr_return CL_Continue)))"

definition client_round :: "relay_codec \<Rightarrow> client_poll \<Rightarrow> client_loop client_sr" where
  "client_round E p s = (case cp_arm p of
     CA_Signal ok \<Rightarrow> if ok then (Ok (CL_Exit TX_Shutdown), s) else (Err RE_Transport, s)
   | CA_Outbound \<Rightarrow> if ct_outbound s = [] then (Ok CL_Continue, s) else client_outbound E p s
   | CA_Deadline \<Rightarrow> if ct_inbound_deadline s \<le> cp_now p then (Ok (CL_Exit TX_Disconnected), s) else (Ok CL_Continue, s)
   | CA_Message m \<Rightarrow> client_message E p m s)"

section \<open>Reading a target's socket\<close>

datatype target_read = Target_Eof | Target_Data bytes | Target_Failed

definition target_reader :: "relay_codec \<Rightarrow> nat \<Rightarrow> target_read \<Rightarrow> client_tunnel \<Rightarrow> client_tunnel" where
  "target_reader E stream_id r s = (case r of
     Target_Eof \<Rightarrow> s\<lparr>ct_outbound := ct_outbound s @ [RC_StreamHalfClosed stream_id],
                     ct_readers := removeAll stream_id (ct_readers s)\<rparr>
   | Target_Data b \<Rightarrow> s\<lparr>ct_outbound := ct_outbound s @ [RC_StreamData stream_id (rc_b64_encode E b)],
                     ct_from_target := (ct_from_target s)(stream_id := ct_from_target s stream_id @ b)\<rparr>
   | Target_Failed \<Rightarrow> s\<lparr>ct_outbound := ct_outbound s @ [RC_StreamClosed stream_id CR_Shutdown],
                     ct_readers := removeAll stream_id (ct_readers s)\<rparr>)"

definition target_reader_enabled :: "nat \<Rightarrow> target_read \<Rightarrow> client_tunnel \<Rightarrow> bool" where
  "target_reader_enabled stream_id r s \<longleftrightarrow> stream_id \<in> set (ct_readers s) \<and> length (ct_outbound s) < CLIENT_OUTBOUND_CAPACITY
     \<and> (case r of Target_Data b \<Rightarrow> b \<noteq> [] \<and> length b \<le> MAX_DATA_BYTES | _ \<Rightarrow> True)"

section \<open>Reconnecting\<close>

text \<open>\<open>run_forever\<close> over the results of the successive tunnels: how the process ends, if it does, and how
  many tunnels it opened.\<close>

fun run_forever :: "(relay_client_error + tunnel_exit) list \<Rightarrow> (relay_client_error + unit) option \<times> nat" where
  "run_forever [] = (None, 0)"
| "run_forever (r # rs) = (case r of
     Inr TX_Shutdown \<Rightarrow> (Some (Ok ()), 1)
   | Inr TX_Disconnected \<Rightarrow> (case run_forever rs of (x, n) \<Rightarrow> (x, Suc n))
   | Inl e \<Rightarrow> (if e = RE_Transport \<or> is_RE_Remote e
       then (case run_forever rs of (x, n) \<Rightarrow> (x, Suc n)) else (Some (Err e), 1)))"

end
