(* ===== verification/Tunnel_System.thy ===== *)
theory Tunnel_System
  imports Relay_Tunnel Relay_Client "HOL-Library.Sublist"
begin

text \<open>
  A Server and a Relay joined by one tunnel: the rounds of \<open>run_tunnel\<close> and of \<open>relay_tunnel\<close>, the tasks
  that read callers and targets, and the two directions of the WebSocket in between, in any interleaving.
  Every stream of the tunnel is shown to refine an abstract byte pipe in each direction, from which
  follows that bytes arrive in order, unchanged and on the right stream. Stream ids are shown to be
  fresh, and the executions in which the Relay gives up on a correct Server are exhibited.
\<close>

section \<open>The composed system\<close>

record tunnel_system =
  sy_server :: server_tunnel
  sy_server_exit :: "(relay_error + unit) option"
  sy_client :: client_tunnel
  sy_client_exit :: "(relay_client_error + tunnel_exit) option"

datatype tunnel_event =
    TE_Server server_poll
  | TE_Client client_poll
  | TE_Caller nat read_result
  | TE_Target nat target_read

definition server_exit_of :: "relay_error + tunnel_loop \<Rightarrow> (relay_error + unit) option" where
  "server_exit_of r = (case r of Inl e \<Rightarrow> Some (Err e) | Inr Loop_Finished \<Rightarrow> Some (Ok ()) | Inr Loop_Continue \<Rightarrow> None)"

definition client_exit_of :: "relay_client_error + client_loop \<Rightarrow> (relay_client_error + tunnel_exit) option" where
  "client_exit_of r = (case r of Inl e \<Rightarrow> Some (Err e) | Inr (CL_Exit x) \<Rightarrow> Some (Ok x) | Inr CL_Continue \<Rightarrow> None)"

text \<open>Whether a round takes a message off the socket.\<close>

definition server_takes :: "server_poll \<Rightarrow> server_tunnel \<Rightarrow> ws_message option" where
  "server_takes p s = (if sp_lease p then (case server_select p s of Some (SA_Message (Next_Message m)) \<Rightarrow> Some m | _ \<Rightarrow> None) else None)"

definition client_takes :: "client_poll \<Rightarrow> client_tunnel \<Rightarrow> ws_message option" where
  "client_takes p s = (case cp_arm p of CA_Message (Next_Message m) \<Rightarrow> Some m | _ \<Rightarrow> None)"

definition server_step :: "relay_codec \<Rightarrow> server_poll \<Rightarrow> tunnel_system \<Rightarrow> tunnel_system" where
  "server_step E p s = (case server_round E p (sy_server s) of (r, sv) \<Rightarrow>
     s\<lparr>sy_server := sv, sy_server_exit := server_exit_of r,
       sy_client := (if server_takes p (sy_server s) \<noteq> None
         then (sy_client s)\<lparr>ct_socket := tl (ct_socket (sy_client s))\<rparr> else sy_client s)\<rparr>)"

definition client_step :: "relay_codec \<Rightarrow> client_poll \<Rightarrow> tunnel_system \<Rightarrow> tunnel_system" where
  "client_step E p s = (case client_round E p (sy_client s) of (r, ct) \<Rightarrow>
     s\<lparr>sy_client := ct, sy_client_exit := client_exit_of r,
       sy_server := (if client_takes p (sy_client s) \<noteq> None
         then (sy_server s)\<lparr>sv_socket := tl (sv_socket (sy_server s))\<rparr> else sy_server s)\<rparr>)"

fun tunnel_step :: "relay_codec \<Rightarrow> tunnel_event \<Rightarrow> tunnel_system \<Rightarrow> tunnel_system" where
  "tunnel_step E (TE_Server p) s = server_step E p s"
| "tunnel_step E (TE_Client p) s = client_step E p s"
| "tunnel_step E (TE_Caller i r) s = s\<lparr>sy_server := relay_reader E i r (sy_server s)\<rparr>"
| "tunnel_step E (TE_Target i r) s = s\<lparr>sy_client := target_reader E i r (sy_client s)\<rparr>"

text \<open>An end that returned takes no further step, and what a socket delivers is the oldest message the
  other end handed to it. A socket may also fail or close at any time.\<close>

definition delivers_head :: "socket_next \<Rightarrow> ws_message list \<Rightarrow> bool" where
  "delivers_head n ms \<longleftrightarrow> (case n of Next_Message m \<Rightarrow> ms \<noteq> [] \<and> hd ms = m | _ \<Rightarrow> True)"

fun tunnel_permitted :: "tunnel_event \<Rightarrow> tunnel_system \<Rightarrow> bool" where
  "tunnel_permitted (TE_Server p) s \<longleftrightarrow> sy_server_exit s = None
     \<and> (case sp_next p of None \<Rightarrow> True | Some n \<Rightarrow> delivers_head n (ct_socket (sy_client s)))"
| "tunnel_permitted (TE_Client p) s \<longleftrightarrow> sy_client_exit s = None
     \<and> (case cp_arm p of CA_Message n \<Rightarrow> delivers_head n (sv_socket (sy_server s)) | _ \<Rightarrow> True)"
| "tunnel_permitted (TE_Caller i r) s \<longleftrightarrow> sy_server_exit s = None \<and> relay_reader_enabled i r (sy_server s)"
| "tunnel_permitted (TE_Target i r) s \<longleftrightarrow> sy_client_exit s = None \<and> target_reader_enabled i r (sy_client s)"

definition tunnel_new :: "nat \<Rightarrow> nat \<Rightarrow> tunnel_system" where
  "tunnel_new now now' = \<lparr>sy_server = server_tunnel_new now, sy_server_exit = None,
     sy_client = client_tunnel_new now', sy_client_exit = None\<rparr>"

inductive tunnel_reachable :: "relay_codec \<Rightarrow> tunnel_system \<Rightarrow> bool" for E where
  start: "tunnel_reachable E (tunnel_new now now')"
| step: "tunnel_reachable E s \<Longrightarrow> tunnel_permitted e s \<Longrightarrow> tunnel_reachable E (tunnel_step E e s)"

section \<open>The abstract byte pipe\<close>

text \<open>One direction of one stream: what was read at the sending end, what waits there, what is on the
  socket, and what came out. A send round may stop the sender and then lose waiting bytes; a receive
  round may stop the receiver after part of a frame.\<close>

record byte_pipe =
  bp_read :: bytes
  bp_queued :: bytes
  bp_inflight :: bytes
  bp_delivered :: bytes
  bp_sender :: bool
  bp_receiver :: bool

definition pipe_new :: byte_pipe where
  "pipe_new = \<lparr>bp_read = [], bp_queued = [], bp_inflight = [], bp_delivered = [], bp_sender = True, bp_receiver = True\<rparr>"

inductive pipe_step :: "byte_pipe \<Rightarrow> byte_pipe \<Rightarrow> bool" where
  idle: "pipe_step q q"
| pipe_read: "bp_sender q \<Longrightarrow> pipe_step q (q\<lparr>bp_read := bp_read q @ b, bp_queued := bp_queued q @ b\<rparr>)"
| pipe_send: "bp_sender q \<Longrightarrow> (alive \<Longrightarrow> fly @ wait = bp_inflight q @ bp_queued q) \<Longrightarrow>
    prefix fly (bp_inflight q @ bp_queued q) \<Longrightarrow>
    pipe_step q (q\<lparr>bp_inflight := fly, bp_queued := wait, bp_sender := alive\<rparr>)"
| pipe_receive: "bp_receiver q \<Longrightarrow> bp_inflight q = m @ fly \<Longrightarrow> prefix w m \<Longrightarrow> (alive \<Longrightarrow> w = m) \<Longrightarrow>
    pipe_step q (q\<lparr>bp_inflight := fly, bp_delivered := bp_delivered q @ w, bp_receiver := alive\<rparr>)"

definition pipe_ok :: "byte_pipe \<Rightarrow> bool" where
  "pipe_ok q \<longleftrightarrow> prefix (bp_delivered q) (bp_read q)
     \<and> (bp_receiver q \<longrightarrow> prefix (bp_delivered q @ bp_inflight q) (bp_read q))
     \<and> (bp_sender q \<and> bp_receiver q \<longrightarrow> bp_read q = bp_delivered q @ bp_inflight q @ bp_queued q)"

lemma pipe_step_ok: "pipe_step q q' \<Longrightarrow> pipe_ok q \<Longrightarrow> pipe_ok q'"
proof (induction rule: pipe_step.induct)
  case (pipe_receive q m fly w alive)
  then have "prefix (bp_delivered q @ m @ fly) (bp_read q)" by (simp add: pipe_ok_def)
  moreover from \<open>prefix w m\<close> have "prefix (bp_delivered q @ w) (bp_delivered q @ m @ fly)" by auto
  ultimately have "prefix (bp_delivered q @ w) (bp_read q)" by (rule prefix_order.trans [rotated])
  with pipe_receive show ?case by (auto simp: pipe_ok_def)
next
  case (pipe_read q b)
  then show ?case by (auto simp: pipe_ok_def)
next
  case (pipe_send q alive fly "wait")
  then show ?case by (auto simp: pipe_ok_def)
qed

lemma pipe_new_ok: "pipe_ok pipe_new"
  by (simp add: pipe_new_def pipe_ok_def)

lemma pipe_steps_ok: "pipe_step\<^sup>*\<^sup>* pipe_new q \<Longrightarrow> pipe_ok q"
  by (induction rule: rtranclp_induct) (rule pipe_new_ok, rule pipe_step_ok)

section \<open>An end of the tunnel as an end of a pipe\<close>

text \<open>What one round of an end does to the bytes of a stream: as a sender it only moves waiting bytes to
  the socket, as a receiver it delivers the frame it takes and nothing else, and it may stop.\<close>

locale pipe_end =
  fixes ok :: bool
    and round :: "'p \<Rightarrow> 's \<Rightarrow> ('e + 'l) \<times> 's"
    and stopped :: "'e + 'l \<Rightarrow> bool"
    and takes :: "'p \<Rightarrow> 's \<Rightarrow> ws_message option"
    and read :: "nat \<Rightarrow> 's \<Rightarrow> bytes"
    and queued :: "nat \<Rightarrow> 's \<Rightarrow> bytes"
    and inflight :: "nat \<Rightarrow> 's \<Rightarrow> bytes"
    and delivered :: "nat \<Rightarrow> 's \<Rightarrow> bytes"
    and content :: "nat \<Rightarrow> ws_message \<Rightarrow> bytes"
  assumes round_read: "round p s = (r, t) \<Longrightarrow> read i t = read i s"
    and round_moves: "ok \<Longrightarrow> round p s = (r, t) \<Longrightarrow> \<not> stopped r \<Longrightarrow> inflight i t @ queued i t = inflight i s @ queued i s"
    and round_sends: "ok \<Longrightarrow> round p s = (r, t) \<Longrightarrow> prefix (inflight i t) (inflight i s @ queued i s)"
    and round_quiet: "takes p s = None \<Longrightarrow> round p s = (r, t) \<Longrightarrow> delivered i t = delivered i s"
    and round_takes: "takes p s = Some m \<Longrightarrow> round p s = (r, t) \<Longrightarrow>
      \<exists>w. delivered i t = delivered i s @ w \<and> prefix w (content i m) \<and> (\<not> stopped r \<longrightarrow> w = content i m)"
begin

lemma sender:
  assumes "ok" "round p s = (r, t)"
  shows "pipe_step \<lparr>bp_read = read i s, bp_queued = queued i s, bp_inflight = inflight i s, bp_delivered = d, bp_sender = True, bp_receiver = b\<rparr>
     \<lparr>bp_read = read i t, bp_queued = queued i t, bp_inflight = inflight i t, bp_delivered = d, bp_sender = (\<not> stopped r), bp_receiver = b\<rparr>"
  using pipe_send [where q = "\<lparr>bp_read = read i s, bp_queued = queued i s, bp_inflight = inflight i s, bp_delivered = d, bp_sender = True, bp_receiver = b\<rparr>"
      and alive = "\<not> stopped r" and fly = "inflight i t" and wait = "queued i t"]
    round_read [OF assms(2)] round_moves [OF assms] round_sends [OF assms] by simp

lemma receiver:
  assumes "round p s = (r, t)" and "fly = (case takes p s of None \<Rightarrow> [] | Some m \<Rightarrow> content i m) @ rest"
  shows "pipe_step \<lparr>bp_read = x, bp_queued = q, bp_inflight = fly, bp_delivered = delivered i s, bp_sender = b, bp_receiver = True\<rparr>
     \<lparr>bp_read = x, bp_queued = q, bp_inflight = rest, bp_delivered = delivered i t, bp_sender = b, bp_receiver = (\<not> stopped r)\<rparr>"
proof -
  let ?m = "case takes p s of None \<Rightarrow> [] | Some m \<Rightarrow> content i m"
  obtain w where "delivered i t = delivered i s @ w" "prefix w ?m" "\<not> stopped r \<Longrightarrow> w = ?m"
    using round_quiet [OF _ assms(1), of i] round_takes [OF _ assms(1), of _ i] by (cases "takes p s") fastforce+
  then show ?thesis
    using pipe_receive [where q = "\<lparr>bp_read = x, bp_queued = q, bp_inflight = fly, bp_delivered = delivered i s, bp_sender = b, bp_receiver = True\<rparr>"
        and m = ?m and fly = rest and alive = "\<not> stopped r" and w = w] assms(2) by simp
qed

end

section \<open>The bytes of a stream in frames\<close>

definition server_frame_data :: "relay_codec \<Rightarrow> nat \<Rightarrow> relay_server_frame \<Rightarrow> bytes" where
  "server_frame_data E i frame = (case frame of
     RS_StreamData j d \<Rightarrow> if i = j then (case rc_b64_decode E d of None \<Rightarrow> [] | Some b \<Rightarrow> b) else [] | _ \<Rightarrow> [])"

definition client_frame_data :: "relay_codec \<Rightarrow> nat \<Rightarrow> relay_client_frame \<Rightarrow> bytes" where
  "client_frame_data E i frame = (case frame of
     RC_StreamData j d \<Rightarrow> if i = j then (case rc_b64_decode E d of None \<Rightarrow> [] | Some b \<Rightarrow> b) else [] | _ \<Rightarrow> [])"

definition down_content :: "relay_codec \<Rightarrow> nat \<Rightarrow> ws_message \<Rightarrow> bytes" where
  "down_content E i m = (case m of WS_Other \<Rightarrow> []
     | WS_Text t \<Rightarrow> (case rc_read_server E t of None \<Rightarrow> [] | Some f \<Rightarrow> server_frame_data E i f))"

definition up_content :: "relay_codec \<Rightarrow> nat \<Rightarrow> ws_message \<Rightarrow> bytes" where
  "up_content E i m = (case m of WS_Other \<Rightarrow> []
     | WS_Text t \<Rightarrow> (case rc_read_client E t of None \<Rightarrow> [] | Some f \<Rightarrow> client_frame_data E i f))"

text \<open>What one end has read, holds back, put on the socket and handed to its own side.\<close>

definition server_queued :: "relay_codec \<Rightarrow> nat \<Rightarrow> server_tunnel \<Rightarrow> bytes" where
  "server_queued E i s = concat (map (server_frame_data E i) (sv_outbound s))"

definition server_inflight :: "relay_codec \<Rightarrow> nat \<Rightarrow> server_tunnel \<Rightarrow> bytes" where
  "server_inflight E i s = concat (map (down_content E i) (sv_socket s))"

definition client_queued :: "relay_codec \<Rightarrow> nat \<Rightarrow> client_tunnel \<Rightarrow> bytes" where
  "client_queued E i s = concat (map (client_frame_data E i) (ct_outbound s))"

definition client_inflight :: "relay_codec \<Rightarrow> nat \<Rightarrow> client_tunnel \<Rightarrow> bytes" where
  "client_inflight E i s = concat (map (up_content E i) (ct_socket s))"

lemmas stream_bytes = server_queued_def server_inflight_def client_queued_def client_inflight_def

subsection \<open>Rounds of the Server end\<close>

lemma vc_server_send:
  "(\<And>t. rc_show_server E f = Some t \<Longrightarrow> Q () (s\<lparr>sv_socket := sv_socket s @ [WS_Text t]\<rparr>)) \<Longrightarrow> (\<And>e. R e s) \<Longrightarrow>
     sr_wp (server_send_frame E p f) Q R s"
  by (auto simp: server_send_frame_def wp_simps intro!: wp_lift split: if_splits option.splits simp: res_simps)

lemma vc_route_send:
  "(\<And>t. rc_show_server E f = Some t \<Longrightarrow> Q () (s\<lparr>sv_socket := sv_socket s @ [WS_Text t]\<rparr>)) \<Longrightarrow> (\<And>e. R e s) \<Longrightarrow>
     sr_wp (send_route_frame E p f) Q R s"
  unfolding send_route_frame_def by (intro vcs vc_server_send) auto

lemma vc_server_write:
  assumes "\<And>b. rc_b64_decode E d = Some b \<Longrightarrow> Q () (s\<lparr>sv_to_caller := (sv_to_caller s)(i := sv_to_caller s i @ b)\<rparr>)"
    and "\<And>e b k. rc_b64_decode E d = Some b \<Longrightarrow> R e (s\<lparr>sv_to_caller := (sv_to_caller s)(i := sv_to_caller s i @ take k b)\<rparr>)"
    and "\<And>e. R e s"
  shows "sr_wp (server_write_data E p i d) Q R s"
  unfolding server_write_data_def wp_simps
  using assms by (intro wp_lift) (auto simp: wp_simps res_simps split: option.splits)

lemma sent_content: "codec_ok E \<Longrightarrow> rc_show_server E f = Some t \<Longrightarrow> down_content E i (WS_Text t) = server_frame_data E i f"
  by (simp add: down_content_def codec_okD)


lemmas server_arms = server_arm_body_def server_open_def server_outbound_def server_message_def server_frame_arm_def
  server_tick_def answer_open_def server_close_stream_def

lemmas wp_case = wp_simps wp_option wp_sum

lemma server_arm_sends:
  assumes "codec_ok E" and "arm = SA_Outbound \<Longrightarrow> sv_outbound s \<noteq> []"
  shows "sr_wp (server_arm_body E p arm)
     (\<lambda>_ t. server_inflight E i t @ server_queued E i t = server_inflight E i s @ server_queued E i s)
     (\<lambda>_ t. prefix (server_inflight E i t) (server_inflight E i s @ server_queued E i s)) s"
proof (cases arm)
  case SA_Outbound
  with assms obtain f fs where "sv_outbound s = f # fs" by (cases "sv_outbound s") auto
  then show ?thesis
    unfolding SA_Outbound
    by (auto simp: server_arms wp_simps stream_bytes sent_content [OF assms(1)] intro!: vc_route_send)
next
  case (SA_Message m)
  then show ?thesis
    by (cases m) (auto simp: server_arms wp_simps stream_bytes intro!: vc_server_write wp_lift split: relay_client_frame.split)
next
  case SA_Command
  then show ?thesis
    by (auto simp: server_arms wp_simps stream_bytes sent_content [OF assms(1)] server_frame_data_def Let_def intro!: vc_server_send)
next
  case SA_Tick
  then show ?thesis
    by (auto simp: server_arms wp_simps stream_bytes sent_content [OF assms(1)] server_frame_data_def intro!: vc_route_send)
qed (auto simp: server_arm_body_def wp_simps stream_bytes)

lemma server_arm_reads: "sr_wp (server_arm_body E p arm) (\<lambda>_ t. sv_from_caller t = sv_from_caller s) (\<lambda>_ t. sv_from_caller t = sv_from_caller s) s"
  by (cases arm) (auto simp: server_arms wp_simps Let_def intro!: vc_server_send vc_route_send vc_server_write wp_lift
      split: relay_client_frame.split socket_next.split)


lemma server_arm_quiet:
  "(\<And>m. arm \<noteq> SA_Message (Next_Message m)) \<Longrightarrow>
     sr_wp (server_arm_body E p arm) (\<lambda>_ t. sv_to_caller t = sv_to_caller s) (\<lambda>_ t. sv_to_caller t = sv_to_caller s) s"
  by (cases arm) (auto simp: server_arms wp_simps Let_def intro!: vc_server_send vc_route_send split: socket_next.split)

lemma server_arm_takes:
  "sr_wp (server_arm_body E p (SA_Message (Next_Message m)))
     (\<lambda>_ t. sv_to_caller t i = sv_to_caller s i @ up_content E i m)
     (\<lambda>_ t. \<exists>w. sv_to_caller t i = sv_to_caller s i @ w \<and> prefix w (up_content E i m)) s"
  by (auto simp: server_arms wp_simps server_decode_frame_def up_content_def client_frame_data_def res_simps take_is_prefix
      intro!: vc_server_write wp_lift split: relay_client_frame.split ws_message.splits if_splits)

lemma server_round_wp:
  assumes "\<And>arm. server_select p s = Some arm \<Longrightarrow> sp_lease p \<Longrightarrow> sr_wp (server_arm_body E p arm) Q R s"
    and "Q Loop_Continue s" "R R_Fenced s"
  shows "sr_wp (server_round E p) Q R s"
  using assms by (auto simp: sr_wp_def server_round_def split: option.splits)

lemma select_outbound: "server_select p s = Some SA_Outbound \<Longrightarrow> sv_outbound s \<noteq> []"
  by (auto simp: server_select_def split: if_splits option.splits)

lemma server_round_reads: "server_round E p s = (r, t) \<Longrightarrow> sv_from_caller t = sv_from_caller s"
  using sr_wp_state [where m = "server_round E p" and s = s and P = "\<lambda>t. sv_from_caller t = sv_from_caller s"]
    server_round_wp [OF server_arm_reads] by fastforce

lemma server_round_moves:
  assumes "codec_ok E" "server_round E p s = (r, t)"
  shows "server_exit_of r = None \<Longrightarrow> server_inflight E i t @ server_queued E i t = server_inflight E i s @ server_queued E i s"
    and "prefix (server_inflight E i t) (server_inflight E i s @ server_queued E i s)"
proof -
  have wp: "sr_wp (server_round E p)
     (\<lambda>_ t. server_inflight E i t @ server_queued E i t = server_inflight E i s @ server_queued E i s)
     (\<lambda>_ t. prefix (server_inflight E i t) (server_inflight E i s @ server_queued E i s)) s"
    by (rule server_round_wp) (auto intro!: server_arm_sends [OF assms(1)] dest: select_outbound)
  show "server_inflight E i t @ server_queued E i t = server_inflight E i s @ server_queued E i s" if "server_exit_of r = None"
    using that sr_wp_Ok [OF wp] assms(2) by (cases r) (auto simp: server_exit_of_def)
  show "prefix (server_inflight E i t) (server_inflight E i s @ server_queued E i s)"
    using sr_wp_Ok [OF wp] sr_wp_Err [OF wp] assms(2) by (cases r) (blast, metis prefixI)
qed

lemma server_round_quiet: "server_takes p s = None \<Longrightarrow> server_round E p s = (r, t) \<Longrightarrow> sv_to_caller t = sv_to_caller s"
  using sr_wp_state [where m = "server_round E p" and s = s and P = "\<lambda>t. sv_to_caller t = sv_to_caller s"]
    server_round_wp [OF server_arm_quiet, where p = p and s = s and E = E] by (fastforce simp: server_takes_def)

lemma server_round_takes:
  assumes "server_takes p s = Some m" "server_round E p s = (r, t)"
  shows "\<exists>w. sv_to_caller t i = sv_to_caller s i @ w \<and> prefix w (up_content E i m) \<and> (server_exit_of r = None \<longrightarrow> w = up_content E i m)"
proof -
  from assms(1) have "server_select p s = Some (SA_Message (Next_Message m))" "sp_lease p"
    by (auto simp: server_takes_def split: if_splits option.splits server_arm.splits socket_next.splits)
  with assms(2) have "server_arm_body E p (SA_Message (Next_Message m)) s = (r, t)" by (simp add: server_round_def)
  then show ?thesis
    using sr_wp_Ok [OF server_arm_takes] sr_wp_Err [OF server_arm_takes] by (cases r) (fastforce simp: server_exit_of_def)+
qed

interpretation server_pipe: pipe_end "codec_ok E" "server_round E" "\<lambda>r. server_exit_of r \<noteq> None" server_takes
    "\<lambda>i s. sv_from_caller s i" "server_queued E" "server_inflight E" "\<lambda>i s. sv_to_caller s i" "up_content E" for E
  by unfold_locales (auto dest: server_round_reads server_round_quiet server_round_moves simp: server_round_takes)

subsection \<open>Rounds of the Relay end\<close>

lemma vc_client_send:
  "(\<And>t. rc_show_client E f = Some t \<Longrightarrow> Q () (s\<lparr>ct_socket := ct_socket s @ [WS_Text t]\<rparr>)) \<Longrightarrow> (\<And>e. R e s) \<Longrightarrow>
     sr_wp (client_send_frame E p f) Q R s"
  by (auto simp: client_send_frame_def wp_simps intro!: wp_lift split: if_splits option.splits simp: res_simps)

lemma vc_client_write:
  assumes "\<And>b. rc_b64_decode E d = Some b \<Longrightarrow> Q () (s\<lparr>ct_to_target := (ct_to_target s)(i := ct_to_target s i @ b)\<rparr>)"
    and "\<And>e b k. rc_b64_decode E d = Some b \<Longrightarrow> R e (s\<lparr>ct_to_target := (ct_to_target s)(i := ct_to_target s i @ take k b)\<rparr>)"
    and "\<And>e. R e s"
  shows "sr_wp (client_write_data E p i d) Q R s"
  unfolding client_write_data_def wp_simps
  using assms by (intro wp_lift) (auto simp: wp_simps res_simps split: option.splits)

lemma sent_up_content: "codec_ok E \<Longrightarrow> rc_show_client E f = Some t \<Longrightarrow> up_content E i (WS_Text t) = client_frame_data E i f"
  by (simp add: up_content_def codec_okD)

lemmas client_arms = client_open_def client_close_stream_def client_frame_arm_def client_message_def client_outbound_def

lemma client_message_sends:
  assumes "codec_ok E"
  shows "sr_wp (client_message E p m)
     (\<lambda>_ t. client_inflight E i t @ client_queued E i t = client_inflight E i s @ client_queued E i s)
     (\<lambda>_ t. prefix (client_inflight E i t) (client_inflight E i s @ client_queued E i s)) s"
  by (auto simp: client_arms wp_simps stream_bytes sent_up_content [OF assms] client_frame_data_def
      intro!: vc_client_send vc_client_write wp_lift split: socket_next.split relay_server_frame.split)

lemma client_outbound_sends:
  assumes "codec_ok E" "ct_outbound s \<noteq> []"
  shows "sr_wp (client_outbound E p)
     (\<lambda>_ t. client_inflight E i t @ client_queued E i t = client_inflight E i s @ client_queued E i s)
     (\<lambda>_ t. prefix (client_inflight E i t) (client_inflight E i s @ client_queued E i s)) s"
proof -
  from assms obtain f fs where "ct_outbound s = f # fs" by (cases "ct_outbound s") auto
  then show ?thesis
    by (auto simp: client_arms wp_simps stream_bytes sent_up_content [OF assms(1)] intro!: vc_client_send)
qed

lemma client_message_reads:
  "sr_wp (client_message E p m) (\<lambda>_ t. ct_from_target t = ct_from_target s) (\<lambda>_ t. ct_from_target t = ct_from_target s) s"
  by (auto simp: client_arms wp_simps intro!: vc_client_send vc_client_write wp_lift split: socket_next.split relay_server_frame.split)

lemma client_outbound_quiet:
  "sr_wp (client_outbound E p) (\<lambda>_ t. ct_to_target t = ct_to_target s \<and> ct_from_target t = ct_from_target s)
     (\<lambda>_ t. ct_to_target t = ct_to_target s \<and> ct_from_target t = ct_from_target s) s"
  by (auto simp: client_arms wp_simps intro!: vc_client_send)

lemma client_message_takes:
  "sr_wp (client_message E p (Next_Message m))
     (\<lambda>_ t. ct_to_target t i = ct_to_target s i @ down_content E i m)
     (\<lambda>_ t. \<exists>w. ct_to_target t i = ct_to_target s i @ w \<and> prefix w (down_content E i m)) s"
  by (auto simp: client_arms wp_simps client_decode_frame_def down_content_def server_frame_data_def res_simps take_is_prefix
      intro!: vc_client_send vc_client_write wp_lift split: relay_server_frame.split ws_message.splits if_splits)

lemma client_round_wp:
  assumes "\<And>m. cp_arm p = CA_Message m \<Longrightarrow> sr_wp (client_message E p m) Q R s"
    and "cp_arm p = CA_Outbound \<Longrightarrow> ct_outbound s \<noteq> [] \<Longrightarrow> sr_wp (client_outbound E p) Q R s"
    and "\<And>x. Q x s" "R RE_Transport s"
  shows "sr_wp (client_round E p) Q R s"
  using assms by (auto simp: sr_wp_def client_round_def split: client_arm.splits)

lemma client_round_reads: "client_round E p s = (r, t) \<Longrightarrow> ct_from_target t = ct_from_target s"
proof -
  assume r: "client_round E p s = (r, t)"
  have "sr_wp (client_round E p) (\<lambda>_ t. ct_from_target t = ct_from_target s) (\<lambda>_ t. ct_from_target t = ct_from_target s) s"
    by (rule client_round_wp) (auto intro: client_message_reads sr_wp_mono [OF client_outbound_quiet])
  with r show ?thesis using sr_wp_state by fastforce
qed

lemma client_round_moves:
  assumes "codec_ok E" "client_round E p s = (r, t)"
  shows "client_exit_of r = None \<Longrightarrow> client_inflight E i t @ client_queued E i t = client_inflight E i s @ client_queued E i s"
    and "prefix (client_inflight E i t) (client_inflight E i s @ client_queued E i s)"
proof -
  have wp: "sr_wp (client_round E p)
     (\<lambda>_ t. client_inflight E i t @ client_queued E i t = client_inflight E i s @ client_queued E i s)
     (\<lambda>_ t. prefix (client_inflight E i t) (client_inflight E i s @ client_queued E i s)) s"
    by (rule client_round_wp) (auto intro: client_message_sends [OF assms(1)] client_outbound_sends [OF assms(1)])
  show "client_inflight E i t @ client_queued E i t = client_inflight E i s @ client_queued E i s" if "client_exit_of r = None"
    using that sr_wp_Ok [OF wp] assms(2) by (cases r) (auto simp: client_exit_of_def)
  show "prefix (client_inflight E i t) (client_inflight E i s @ client_queued E i s)"
    using sr_wp_Ok [OF wp] sr_wp_Err [OF wp] assms(2) by (cases r) (blast, metis prefixI)
qed

lemma client_round_quiet: "client_takes p s = None \<Longrightarrow> client_round E p s = (r, t) \<Longrightarrow> ct_to_target t = ct_to_target s"
  using sr_wp_state [OF client_outbound_quiet, of E p s]
  by (auto simp: client_takes_def client_round_def client_message_def sr_leaf split: client_arm.splits socket_next.splits if_splits)

lemma client_round_takes:
  assumes "client_takes p s = Some m" "client_round E p s = (r, t)"
  shows "\<exists>w. ct_to_target t i = ct_to_target s i @ w \<and> prefix w (down_content E i m) \<and> (client_exit_of r = None \<longrightarrow> w = down_content E i m)"
proof -
  from assms have "client_message E p (Next_Message m) s = (r, t)"
    by (auto simp: client_takes_def client_round_def split: client_arm.splits socket_next.splits)
  then show ?thesis
    using sr_wp_Ok [OF client_message_takes] sr_wp_Err [OF client_message_takes] by (cases r) (fastforce simp: client_exit_of_def)+
qed

interpretation client_pipe: pipe_end "codec_ok E" "client_round E" "\<lambda>r. client_exit_of r \<noteq> None" client_takes
    "\<lambda>i s. ct_from_target s i" "client_queued E" "client_inflight E" "\<lambda>i s. ct_to_target s i" "down_content E" for E
  by unfold_locales (auto dest: client_round_reads client_round_quiet client_round_moves simp: client_round_takes)

section \<open>Every stream refines a pipe in each direction\<close>

definition down_pipe :: "relay_codec \<Rightarrow> nat \<Rightarrow> tunnel_system \<Rightarrow> byte_pipe" where
  "down_pipe E i s = \<lparr>bp_read = sv_from_caller (sy_server s) i, bp_queued = server_queued E i (sy_server s),
     bp_inflight = server_inflight E i (sy_server s), bp_delivered = ct_to_target (sy_client s) i,
     bp_sender = (sy_server_exit s = None), bp_receiver = (sy_client_exit s = None)\<rparr>"

definition up_pipe :: "relay_codec \<Rightarrow> nat \<Rightarrow> tunnel_system \<Rightarrow> byte_pipe" where
  "up_pipe E i s = \<lparr>bp_read = ct_from_target (sy_client s) i, bp_queued = client_queued E i (sy_client s),
     bp_inflight = client_inflight E i (sy_client s), bp_delivered = sv_to_caller (sy_server s) i,
     bp_sender = (sy_client_exit s = None), bp_receiver = (sy_server_exit s = None)\<rparr>"

lemma server_taken_head:
  assumes "tunnel_permitted (TE_Server p) s" "server_takes p (sy_server s) = Some m"
  shows "\<exists>rest. ct_socket (sy_client s) = m # rest"
  using assms by (auto simp: neq_Nil_conv server_takes_def server_select_def delivers_head_def
      split: if_splits option.splits server_arm.splits socket_next.splits)

lemma client_taken_head:
  assumes "tunnel_permitted (TE_Client p) s" "client_takes p (sy_client s) = Some m"
  shows "\<exists>rest. sv_socket (sy_server s) = m # rest"
  using assms by (auto simp: neq_Nil_conv client_takes_def delivers_head_def split: client_arm.splits socket_next.splits)

lemma relay_reader_bytes:
  assumes "codec_ok E"
  shows "(\<exists>b. sv_from_caller (relay_reader E j r s) i = sv_from_caller s i @ b
     \<and> server_queued E i (relay_reader E j r s) = server_queued E i s @ b)
     \<and> server_inflight E i (relay_reader E j r s) = server_inflight E i s \<and> sv_to_caller (relay_reader E j r s) = sv_to_caller s"
  using codec_okD(1) [OF assms] by (cases r) (auto simp: relay_reader_def stream_bytes server_frame_data_def)

lemma target_reader_bytes:
  assumes "codec_ok E"
  shows "(\<exists>b. ct_from_target (target_reader E j r s) i = ct_from_target s i @ b
     \<and> client_queued E i (target_reader E j r s) = client_queued E i s @ b)
     \<and> client_inflight E i (target_reader E j r s) = client_inflight E i s \<and> ct_to_target (target_reader E j r s) = ct_to_target s"
  using codec_okD(1) [OF assms] by (cases r) (auto simp: target_reader_def stream_bytes client_frame_data_def)

lemma pipe_read_step:
  "pipe_step \<lparr>bp_read = x, bp_queued = q, bp_inflight = f, bp_delivered = d, bp_sender = True, bp_receiver = b\<rparr>
     \<lparr>bp_read = x @ y, bp_queued = q @ y, bp_inflight = f, bp_delivered = d, bp_sender = True, bp_receiver = b\<rparr>"
  using pipe_read [of "\<lparr>bp_read = x, bp_queued = q, bp_inflight = f, bp_delivered = d, bp_sender = True, bp_receiver = b\<rparr>" y] by simp

lemma down_pipe_step:
  assumes "codec_ok E" "tunnel_permitted e s"
  shows "pipe_step (down_pipe E i s) (down_pipe E i (tunnel_step E e s))"
proof (cases e)
  case (TE_Server p)
  obtain r sv where r: "server_round E p (sy_server s) = (r, sv)" by fastforce
  with TE_Server assms show ?thesis
    using server_pipe.sender [OF assms(1) r] by (simp add: down_pipe_def server_step_def)
next
  case (TE_Client p)
  obtain r ct where r: "client_round E p (sy_client s) = (r, ct)" by fastforce
  have fly: "server_inflight E i (sy_server s) = (case client_takes p (sy_client s) of None \<Rightarrow> [] | Some m \<Rightarrow> down_content E i m)
      @ server_inflight E i (sy_server (client_step E p s))"
    using client_taken_head [OF assms(2) [unfolded TE_Client]] r
    by (cases "client_takes p (sy_client s)") (auto simp: client_step_def server_inflight_def)
  have frame: "sv_from_caller (sy_server (client_step E p s)) = sv_from_caller (sy_server s)"
      "server_queued E i (sy_server (client_step E p s)) = server_queued E i (sy_server s)"
      "sy_server_exit (client_step E p s) = sy_server_exit s" "sy_client (client_step E p s) = ct"
      "sy_client_exit (client_step E p s) = client_exit_of r"
    using r by (simp_all add: client_step_def server_queued_def)
  show ?thesis
    using client_pipe.receiver [OF r fly] assms(2) frame by (simp add: TE_Client down_pipe_def)
next
  case (TE_Caller j r)
  with assms show ?thesis
    using relay_reader_bytes [OF assms(1), of j r "sy_server s" i] by (auto simp: down_pipe_def intro: pipe_read_step)
next
  case (TE_Target j r)
  with assms show ?thesis
    using target_reader_bytes [OF assms(1), of j r "sy_client s" i] by (auto simp: down_pipe_def intro: idle)
qed

lemma up_pipe_step:
  assumes "codec_ok E" "tunnel_permitted e s"
  shows "pipe_step (up_pipe E i s) (up_pipe E i (tunnel_step E e s))"
proof (cases e)
  case (TE_Server p)
  obtain r sv where r: "server_round E p (sy_server s) = (r, sv)" by fastforce
  have fly: "client_inflight E i (sy_client s) = (case server_takes p (sy_server s) of None \<Rightarrow> [] | Some m \<Rightarrow> up_content E i m)
      @ client_inflight E i (sy_client (server_step E p s))"
    using server_taken_head [OF assms(2) [unfolded TE_Server]] r
    by (cases "server_takes p (sy_server s)") (auto simp: server_step_def client_inflight_def)
  have frame: "ct_from_target (sy_client (server_step E p s)) = ct_from_target (sy_client s)"
      "client_queued E i (sy_client (server_step E p s)) = client_queued E i (sy_client s)"
      "sy_client_exit (server_step E p s) = sy_client_exit s" "sy_server (server_step E p s) = sv"
      "sy_server_exit (server_step E p s) = server_exit_of r"
    using r by (simp_all add: server_step_def client_queued_def)
  show ?thesis
    using server_pipe.receiver [OF r fly] assms(2) frame by (simp add: TE_Server up_pipe_def)
next
  case (TE_Client p)
  obtain r ct where r: "client_round E p (sy_client s) = (r, ct)" by fastforce
  with TE_Client assms show ?thesis
    using client_pipe.sender [OF assms(1) r] by (simp add: up_pipe_def client_step_def)
next
  case (TE_Caller j r)
  with assms show ?thesis
    using relay_reader_bytes [OF assms(1), of j r "sy_server s" i] by (auto simp: up_pipe_def intro: idle)
next
  case (TE_Target j r)
  with assms show ?thesis
    using target_reader_bytes [OF assms(1), of j r "sy_client s" i] by (auto simp: up_pipe_def intro: pipe_read_step)
qed

lemma new_pipes: "down_pipe E i (tunnel_new now now') = pipe_new" "up_pipe E i (tunnel_new now now') = pipe_new"
  by (simp_all add: down_pipe_def up_pipe_def pipe_new_def tunnel_new_def server_tunnel_new_def client_tunnel_new_def stream_bytes)

lemma tunnel_pipes:
  assumes "codec_ok E" "tunnel_reachable E s"
  shows "pipe_step\<^sup>*\<^sup>* pipe_new (down_pipe E i s) \<and> pipe_step\<^sup>*\<^sup>* pipe_new (up_pipe E i s)"
  using assms(2)
proof (induction rule: tunnel_reachable.induct)
  case (step s e)
  with down_pipe_step [OF assms(1)] up_pipe_step [OF assms(1)] show ?case
    by (meson rtranclp.rtrancl_into_rtrancl)
qed (simp add: new_pipes)

text \<open>C34. Every stream of a tunnel is two byte pipes: whatever the Server, the Relay, the callers, the
  targets and the network do, each step of the tunnel is a step of the abstract pipe (or none) in either
  direction, for every stream.\<close>

theorem tunnel_refines_pipes:
  assumes "codec_ok E" "tunnel_permitted e s"
  shows "pipe_step (down_pipe E i s) (down_pipe E i (tunnel_step E e s))
     \<and> pipe_step (up_pipe E i s) (up_pipe E i (tunnel_step E e s))"
  using down_pipe_step [OF assms] up_pipe_step [OF assms] by simp_all

text \<open>C33. A tunnel delivers bytes in order, unchanged and on the right stream: what the Relay wrote to the
  target of a stream is a prefix of what was read from that stream's caller, and the other way round;
  while both ends run and nothing waits or is under way for the stream, it is all of it.\<close>

theorem tunnel_delivers_in_order:
  assumes "codec_ok E" "tunnel_reachable E s"
  shows "prefix (ct_to_target (sy_client s) i) (sv_from_caller (sy_server s) i)
     \<and> prefix (sv_to_caller (sy_server s) i) (ct_from_target (sy_client s) i)
     \<and> (sy_server_exit s = None \<and> sy_client_exit s = None \<longrightarrow>
         (server_queued E i (sy_server s) = [] \<and> server_inflight E i (sy_server s) = []
            \<longrightarrow> ct_to_target (sy_client s) i = sv_from_caller (sy_server s) i)
       \<and> (client_queued E i (sy_client s) = [] \<and> client_inflight E i (sy_client s) = []
            \<longrightarrow> sv_to_caller (sy_server s) i = ct_from_target (sy_client s) i))"
proof -
  have "pipe_ok (down_pipe E i s)" "pipe_ok (up_pipe E i s)"
    using tunnel_pipes [OF assms] by (blast intro: pipe_steps_ok)+
  then show ?thesis by (simp add: pipe_ok_def down_pipe_def up_pipe_def)
qed

section \<open>Bounds and fresh stream ids\<close>

definition open_ids :: "relay_codec \<Rightarrow> ws_message list \<Rightarrow> nat list" where
  "open_ids E ms = concat (map (\<lambda>m. case m of WS_Other \<Rightarrow> []
     | WS_Text t \<Rightarrow> (case rc_read_server E t of Some (RS_OpenStream i) \<Rightarrow> [i] | _ \<Rightarrow> [])) ms)"

definition is_open :: "relay_server_frame \<Rightarrow> bool" where
  "is_open f = (case f of RS_OpenStream _ \<Rightarrow> True | _ \<Rightarrow> False)"

text \<open>The ids on their way are increasing, above everything the Relay serves and below what the Server
  hands out next.\<close>

definition ids_between :: "nat list \<Rightarrow> nat set \<Rightarrow> nat \<Rightarrow> bool" where
  "ids_between ids used nxt \<longleftrightarrow> sorted_wrt (<) ids \<and> (\<forall>i \<in> set ids. 0 < i \<and> i < nxt \<and> (\<forall>t \<in> used. t < i)) \<and> (\<forall>t \<in> used. t < nxt)"

definition tunnel_ok :: "relay_codec \<Rightarrow> tunnel_system \<Rightarrow> bool" where
  "tunnel_ok E s \<longleftrightarrow> server_tunnel_ok (sy_server s) \<and> list_all (\<lambda>f. \<not> is_open f) (sv_outbound (sy_server s))
     \<and> ids_between (open_ids E (sv_socket (sy_server s))) (set (ct_targets (sy_client s))) (sv_next_stream_id (sy_server s))
     \<and> length (ct_targets (sy_client s)) \<le> MAX_STREAMS"

lemma open_ids_snoc:
  "codec_ok E \<Longrightarrow> rc_show_server E f = Some t \<Longrightarrow>
     open_ids E (ms @ [WS_Text t]) = open_ids E ms @ (case f of RS_OpenStream i \<Rightarrow> [i] | _ \<Rightarrow> [])"
  by (simp add: open_ids_def codec_okD split: relay_server_frame.split)

definition server_ids_ok :: "relay_codec \<Rightarrow> nat set \<Rightarrow> server_tunnel \<Rightarrow> bool" where
  "server_ids_ok E used s \<longleftrightarrow> server_tunnel_ok s \<and> list_all (\<lambda>f. \<not> is_open f) (sv_outbound s)
     \<and> ids_between (open_ids E (sv_socket s)) used (sv_next_stream_id s)"

lemma ids_between_snoc: "ids_between ids used nxt \<Longrightarrow> 0 < nxt \<Longrightarrow> ids_between (ids @ [nxt]) used (nxt + 1)"
  by (auto simp: ids_between_def sorted_wrt_append)

lemma ids_between_top: "ids_between ids used nxt \<Longrightarrow> nxt \<le> nxt' \<Longrightarrow> ids_between ids used nxt'"
  by (force simp: ids_between_def)

lemma ids_between_used: "ids_between ids used nxt \<Longrightarrow> used' \<subseteq> used \<Longrightarrow> ids_between ids used' nxt"
  unfolding ids_between_def by blast

lemma length_removeAll_bound: "length xs \<le> n \<Longrightarrow> length (removeAll x xs) \<le> n"
  by (meson le_trans length_removeAll_less_eq)

lemma length_remove1_bound: "length xs \<le> n \<Longrightarrow> length (remove1 x xs) \<le> n"
  by (auto simp: length_remove1)

lemma server_tunnel_ok_open:
  assumes "server_tunnel_ok s" "length (sv_writers s) < MAX_STREAMS" "sv_next_stream_id s + 1 < 2 ^ 32"
  shows "server_tunnel_ok (s\<lparr>sv_next_stream_id := sv_next_stream_id s + 1, sv_writers := sv_next_stream_id s # sv_writers s,
           sv_readers := sv_next_stream_id s # sv_readers s\<rparr>)"
  using assms by (auto simp: server_tunnel_ok_def intro: less_SucI)

lemma server_tunnel_ok_ping:
  assumes "server_tunnel_ok s" "length (sv_outstanding_pings s) < 3"
  shows "server_tunnel_ok (s\<lparr>sv_ping_nonce := sv_ping_nonce s + 1, sv_socket := x, sv_outstanding_pings := sv_outstanding_pings s @ [sv_ping_nonce s + 1]\<rparr>)"
  using assms by (auto simp: server_tunnel_ok_def)

lemma server_tunnel_ok_frame [simp]:
  "server_tunnel_ok (s\<lparr>sv_socket := x\<rparr>) = server_tunnel_ok s"
  "server_tunnel_ok (s\<lparr>sv_answers := y\<rparr>) = server_tunnel_ok s"
  "server_tunnel_ok (s\<lparr>sv_inbound_deadline := d\<rparr>) = server_tunnel_ok s"
  "server_tunnel_ok (s\<lparr>sv_to_caller := c\<rparr>) = server_tunnel_ok s"
  by (simp_all add: server_tunnel_ok_def)

lemma server_tunnel_ok_close:
  "server_tunnel_ok s \<Longrightarrow> server_tunnel_ok (s\<lparr>sv_inbound_deadline := d, sv_writers := removeAll i (sv_writers s), sv_shutdown := x\<rparr>)"
  by (auto simp: server_tunnel_ok_def length_removeAll_bound distinct_removeAll)

lemma server_tunnel_ok_pong:
  "server_tunnel_ok s \<Longrightarrow> server_tunnel_ok (s\<lparr>sv_inbound_deadline := d, sv_outstanding_pings := remove1 n (sv_outstanding_pings s)\<rparr>)"
  by (auto simp: server_tunnel_ok_def length_remove1_bound dest: set_remove1_subset [THEN subsetD])

lemma server_open_ids:
  assumes "codec_ok E" and ok: "server_ids_ok E used s"
  shows "sr_wp (server_open E p) (\<lambda>_. server_ids_ok E used) (\<lambda>_. server_ids_ok E used) s"
proof -
  have ids: "ids_between (open_ids E (sv_socket s)) used (sv_next_stream_id s)" "0 < sv_next_stream_id s"
    using ok by (auto simp: server_ids_ok_def server_tunnel_ok_def)
  let ?s = "s\<lparr>sv_next_stream_id := sv_next_stream_id s + 1, sv_writers := sv_next_stream_id s # sv_writers s,
           sv_readers := sv_next_stream_id s # sv_readers s\<rparr>"
  have opened: "server_ids_ok E used ?s" "rc_show_server E (RS_OpenStream (sv_next_stream_id s)) = Some t \<Longrightarrow>
      server_ids_ok E used (?s\<lparr>sv_socket := sv_socket s @ [WS_Text t], sv_answers := a\<rparr>)"
    if "length (sv_writers s) < MAX_STREAMS" "sv_next_stream_id s + 1 < 2 ^ 32" for t a
    using server_tunnel_ok_open [OF _ that] ok ids_between_top [OF ids(1)] ids_between_snoc [OF ids]
    by (simp_all add: server_ids_ok_def open_ids_snoc [OF assms(1)])
  show ?thesis
    unfolding server_open_def wp_simps answer_open_def Let_def id_apply
    using ok opened by (auto simp: server_ids_ok_def intro!: vc_server_send)
qed

lemma server_arm_ids:
  assumes "codec_ok E" and "arm = SA_Outbound \<Longrightarrow> sv_outbound s \<noteq> []" and ok: "server_ids_ok E used s"
  shows "sr_wp (server_arm_body E p arm) (\<lambda>_. server_ids_ok E used) (\<lambda>_. server_ids_ok E used) s"
proof (cases arm)
  case SA_Outbound
  with assms obtain f fs where f: "sv_outbound s = f # fs" by (cases "sv_outbound s") auto
  with ok have "\<not> is_open f" by (simp add: server_ids_ok_def)
  moreover from f ok have "server_ids_ok E used (s\<lparr>sv_outbound := fs\<rparr>)"
    by (simp add: server_ids_ok_def server_tunnel_ok_def)
  ultimately show ?thesis
    using f by (auto simp: SA_Outbound server_arm_body_def server_outbound_def wp_simps server_ids_ok_def
        open_ids_snoc [OF assms(1)] is_open_def intro!: vc_route_send split: relay_server_frame.splits)
next
  case (SA_Message m)
  with ok show ?thesis
    by (cases m) (auto simp: server_arms wp_simps server_ids_ok_def
        intro!: vc_server_write wp_lift server_tunnel_ok_close server_tunnel_ok_pong split: relay_client_frame.split)
next
  case SA_Command
  with server_open_ids [OF assms(1) ok] show ?thesis by (simp add: server_arm_body_def)
next
  case SA_Tick
  have "server_tunnel_ok (s\<lparr>sv_ping_nonce := sv_ping_nonce s + 1\<rparr>)"
    using ok by (auto simp: server_ids_ok_def server_tunnel_ok_def intro: le_SucI)
  with SA_Tick ok server_tunnel_ok_ping [of s] show ?thesis
    by (auto simp: server_arm_body_def server_tick_def wp_simps server_ids_ok_def open_ids_snoc [OF assms(1)] intro!: vc_route_send)
qed (use ok in \<open>auto simp: server_arm_body_def wp_simps\<close>)

lemma server_round_ids:
  assumes "codec_ok E" "server_ids_ok E used s" "server_round E p s = (r, t)"
  shows "server_ids_ok E used t"
proof -
  have "sr_wp (server_round E p) (\<lambda>_. server_ids_ok E used) (\<lambda>_. server_ids_ok E used) s"
    by (rule server_round_wp) (auto intro!: server_arm_ids assms(1,2) dest: select_outbound)
  then show ?thesis using assms(3) sr_wp_state by fastforce
qed

lemma client_message_targets:
  assumes "length (ct_targets s) \<le> MAX_STREAMS"
  shows "sr_wp (client_message E p (Next_Message m))
     (\<lambda>_ t. set (ct_targets t) \<subseteq> set (ct_targets s) \<union> set (open_ids E [m]) \<and> length (ct_targets t) \<le> MAX_STREAMS)
     (\<lambda>_ t. set (ct_targets t) \<subseteq> set (ct_targets s) \<union> set (open_ids E [m]) \<and> length (ct_targets t) \<le> MAX_STREAMS) s"
  using assms
  by (auto simp: client_arms wp_simps client_decode_frame_def open_ids_def res_simps length_removeAll_bound
      intro!: vc_client_send vc_client_write wp_lift split: relay_server_frame.split ws_message.splits if_splits)

lemma client_outbound_targets:
  "sr_wp (client_outbound E p) (\<lambda>_ t. ct_targets t = ct_targets s) (\<lambda>_ t. ct_targets t = ct_targets s) s"
  by (auto simp: client_arms wp_simps intro!: vc_client_send)

lemma client_round_targets:
  assumes "client_round E p s = (r, t)" "length (ct_targets s) \<le> MAX_STREAMS"
  shows "set (ct_targets t) \<subseteq> set (ct_targets s) \<union> (case client_takes p s of None \<Rightarrow> {} | Some m \<Rightarrow> set (open_ids E [m]))
     \<and> length (ct_targets t) \<le> MAX_STREAMS"
proof (cases "client_takes p s")
  case None
  with assms sr_wp_state [OF client_outbound_targets, of E p s] show ?thesis
    by (auto simp: client_takes_def client_round_def client_message_def sr_leaf split: client_arm.splits socket_next.splits if_splits)
next
  case (Some m)
  with assms(1) have "client_message E p (Next_Message m) s = (r, t)"
    by (auto simp: client_takes_def client_round_def split: client_arm.splits socket_next.splits)
  with Some sr_wp_state [OF client_message_targets [OF assms(2)], of E p m] show ?thesis by simp
qed

lemma tunnel_ok_new: "tunnel_ok E (tunnel_new now now')"
  by (simp add: tunnel_ok_def tunnel_new_def server_tunnel_new_def client_tunnel_new_def server_tunnel_ok_def ids_between_def open_ids_def)

lemma tunnel_ok_split:
  "tunnel_ok E s \<longleftrightarrow> server_ids_ok E (set (ct_targets (sy_client s))) (sy_server s) \<and> length (ct_targets (sy_client s)) \<le> MAX_STREAMS"
  by (auto simp: tunnel_ok_def server_ids_ok_def)

lemma ids_between_take:
  "ids_between (xs @ ys) used nxt \<Longrightarrow> used' \<subseteq> used \<union> set xs \<Longrightarrow> ids_between ys used' nxt"
  by (auto simp: ids_between_def sorted_wrt_append)

lemma relay_reader_ids: "relay_reader_enabled i r s \<Longrightarrow> server_ids_ok E used s \<Longrightarrow> server_ids_ok E used (relay_reader E i r s)"
  by (cases r) (auto simp: relay_reader_def relay_reader_enabled_def server_ids_ok_def server_tunnel_ok_def is_open_def)

lemma tunnel_step_ok:
  assumes "codec_ok E" "tunnel_permitted e s" "tunnel_ok E s"
  shows "tunnel_ok E (tunnel_step E e s)"
proof (cases e)
  case (TE_Server p)
  obtain r sv where r: "server_round E p (sy_server s) = (r, sv)" by fastforce
  with TE_Server assms show ?thesis
    using server_round_ids [OF assms(1) _ r] by (simp add: tunnel_ok_split server_step_def)
next
  case (TE_Client p)
  obtain r ct where r: "client_round E p (sy_client s) = (r, ct)" by fastforce
  let ?m = "case client_takes p (sy_client s) of None \<Rightarrow> [] | Some m \<Rightarrow> [m]"
  have "sv_socket (sy_server s) = ?m @ sv_socket (sy_server (client_step E p s))"
    using client_taken_head [OF assms(2) [unfolded TE_Client]] r
    by (cases "client_takes p (sy_client s)") (auto simp: client_step_def)
  then have opens: "open_ids E (sv_socket (sy_server s)) = open_ids E ?m @ open_ids E (sv_socket (sy_server (client_step E p s)))"
    by (simp add: open_ids_def flip: map_append concat_append)
  have ids: "ids_between (open_ids E (sv_socket (sy_server s))) (set (ct_targets (sy_client s))) (sv_next_stream_id (sy_server s))"
    and len: "length (ct_targets (sy_client s)) \<le> MAX_STREAMS"
    using assms(3) by (simp_all add: tunnel_ok_def)
  have "set (ct_targets ct) \<subseteq> set (ct_targets (sy_client s)) \<union> set (open_ids E ?m)"
    using client_round_targets [OF r len] by (cases "client_takes p (sy_client s)") (simp_all add: open_ids_def)
  then have "ids_between (open_ids E (sv_socket (sy_server (client_step E p s)))) (set (ct_targets ct)) (sv_next_stream_id (sy_server s))"
    by (rule ids_between_take [OF ids [unfolded opens]])
  moreover have "server_tunnel_ok (sy_server (client_step E p s))" "sv_outbound (sy_server (client_step E p s)) = sv_outbound (sy_server s)"
      "sv_next_stream_id (sy_server (client_step E p s)) = sv_next_stream_id (sy_server s)" "sy_client (client_step E p s) = ct"
    using r assms(3) by (simp_all add: client_step_def tunnel_ok_def)
  ultimately show ?thesis
    using assms(3) client_round_targets [OF r len] by (simp add: TE_Client tunnel_ok_def)
next
  case (TE_Caller i r)
  with assms show ?thesis by (auto simp: tunnel_ok_split intro: relay_reader_ids)
next
  case (TE_Target i r)
  with assms show ?thesis by (cases r) (auto simp: tunnel_ok_split target_reader_def)
qed

lemma tunnel_reachable_ok: "codec_ok E \<Longrightarrow> tunnel_reachable E s \<Longrightarrow> tunnel_ok E s"
  by (rotate_tac, induction rule: tunnel_reachable.induct) (auto intro: tunnel_ok_new tunnel_step_ok)

text \<open>Both ends stay within their bounds (at most 32 streams, three unanswered pings, a full outbound
  channel), and a stream id the Relay is asked to open is never zero and never one it still serves, so
  the Server's ids cannot make the Relay reject a stream.\<close>

lemma stream_ids_fresh:
  assumes "codec_ok E" "tunnel_reachable E s"
  shows "server_tunnel_ok (sy_server s) \<and> length (ct_targets (sy_client s)) \<le> MAX_STREAMS
     \<and> (\<forall>m rest i. sv_socket (sy_server s) = m # rest \<and> client_decode_frame E m = Ok (RS_OpenStream i)
          \<longrightarrow> 0 < i \<and> i \<notin> set (ct_targets (sy_client s)))"
proof -
  have ok: "tunnel_ok E s" using assms by (rule tunnel_reachable_ok)
  have "i \<in> set (open_ids E (m # rest))" if "client_decode_frame E m = Ok (RS_OpenStream i)" for i m rest
    using that by (auto simp: client_decode_frame_def open_ids_def res_simps split: ws_message.splits if_splits)
  then have "0 < i \<and> i \<notin> set (ct_targets (sy_client s))"
    if "sv_socket (sy_server s) = m # rest" "client_decode_frame E m = Ok (RS_OpenStream i)" for m rest i
    using ok that unfolding tunnel_ok_def ids_between_def by fastforce
  with ok show ?thesis by (simp add: tunnel_ok_def)
qed

section \<open>When the Relay gives up on a correct Server\<close>

text \<open>A codec that writes every frame within the limit; the JSON of the program does.\<close>

definition codec_writes :: "relay_codec \<Rightarrow> bool" where
  "codec_writes E \<longleftrightarrow> (\<forall>i < 2 ^ 32. \<forall>b. length b \<le> 16 \<longrightarrow>
     (\<forall>f \<in> {RS_OpenStream i, RS_StreamData i (rc_b64_encode E b)}. \<exists>t. rc_show_server E f = Some t \<and> length t \<le> MAX_FRAME_BYTES)
   \<and> (\<forall>f \<in> {RC_StreamOpened i, RC_StreamHalfClosed i, RC_StreamClosed i CR_ConnectFailed}.
        \<exists>t. rc_show_client E f = Some t \<and> length t \<le> MAX_FRAME_BYTES))"

definition calm_poll :: server_poll where
  "calm_poll = \<lparr>sp_now = 0, sp_lease = True, sp_barrier = False, sp_fence = False, sp_command = False, sp_next = None,
     sp_tick = False, sp_dispatch_open = True, sp_barrier_now = False, sp_lease_now = True, sp_socket_ok = True, sp_write = None\<rparr>"

definition calm_client :: "client_arm \<Rightarrow> client_poll" where
  "calm_client arm = \<lparr>cp_now = 0, cp_arm = arm, cp_connect = True, cp_socket_ok = True, cp_write = None\<rparr>"

fun tunnel_run :: "relay_codec \<Rightarrow> tunnel_event list \<Rightarrow> tunnel_system \<Rightarrow> tunnel_system option" where
  "tunnel_run E [] s = Some s"
| "tunnel_run E (e # es) s = (if tunnel_permitted e s then tunnel_run E es (tunnel_step E e s) else None)"

lemma tunnel_run_reachable: "tunnel_run E es s = Some t \<Longrightarrow> tunnel_reachable E s \<Longrightarrow> tunnel_reachable E t"
  by (induction es arbitrary: s) (auto split: if_splits intro: tunnel_reachable.step)

lemmas tunnel_eval = server_step_def client_step_def server_round_def server_select_def server_takes_def client_takes_def
  client_round_def server_arms client_arms server_send_frame_def send_route_frame_def client_send_frame_def
  server_decode_frame_def client_decode_frame_def server_exit_of_def client_exit_of_def
  calm_poll_def calm_client_def sr_defs relay_reader_def target_reader_def delivers_head_def
  relay_reader_enabled_def target_reader_enabled_def Let_def

lemma codec_writesD:
  assumes "codec_writes E" "i < 2 ^ 32"
  obtains "open" "data" opened eof failed where
    "rc_show_server E (RS_OpenStream i) = Some open" "length open \<le> MAX_FRAME_BYTES"
    "rc_show_server E (RS_StreamData i (rc_b64_encode E ''x'')) = Some data" "length data \<le> MAX_FRAME_BYTES"
    "rc_show_client E (RC_StreamOpened i) = Some opened" "length opened \<le> MAX_FRAME_BYTES"
    "rc_show_client E (RC_StreamHalfClosed i) = Some eof" "length eof \<le> MAX_FRAME_BYTES"
    "rc_show_client E (RC_StreamClosed i CR_ConnectFailed) = Some failed" "length failed \<le> MAX_FRAME_BYTES"
  using assms(1) [unfolded codec_writes_def, rule_format, OF assms(2), of "''x''"] by auto

text \<open>C35. A connect that fails at the Relay ends the Relay process. There is a reachable state, with both ends running, in which the
  Server has put the opening of stream 1 and data for it on the socket and the Relay takes both. If the Relay's connect
  succeeds, both ends keep running. If it fails, the Relay keeps running and forgets the stream, and the data that was
  already sent then ends its tunnel with a protocol error, while the Server follows the protocol and runs on with the
  stream open; on a protocol error the Relay process exits instead of connecting again.\<close>

theorem failed_connect_ends_relay:
  assumes "codec_ok E" "codec_writes E"
  shows "\<exists>s request content. tunnel_reachable E s \<and> sy_server_exit s = None \<and> sy_client_exit s = None \<and> sv_writers (sy_server s) = [1]
     \<and> sv_socket (sy_server s) = [request, content] \<and> client_decode_frame E request = Ok (RS_OpenStream 1)
     \<and> (\<exists>d. client_decode_frame E content = Ok (RS_StreamData 1 d))
     \<and> (\<forall>connects. \<exists>t u.
          tunnel_run E [TE_Client (calm_client (CA_Message (Next_Message request))\<lparr>cp_connect := connects\<rparr>)] s = Some t
        \<and> tunnel_run E [TE_Client (calm_client (CA_Message (Next_Message content)))] t = Some u
        \<and> sy_client_exit t = None \<and> (1 \<in> set (ct_targets (sy_client t)) \<longleftrightarrow> connects)
        \<and> sy_server_exit u = None \<and> sv_writers (sy_server u) = [1]
        \<and> sy_client_exit u = (if connects then None else Some (Err RE_Protocol)))
     \<and> run_forever [Err RE_Protocol] = (Some (Err RE_Protocol), 1)"
proof -
  obtain a d o' c where w: "rc_show_server E (RS_OpenStream 1) = Some a" "length a \<le> MAX_FRAME_BYTES"
    "rc_show_server E (RS_StreamData 1 (rc_b64_encode E ''x'')) = Some d" "length d \<le> MAX_FRAME_BYTES"
    "rc_show_client E (RC_StreamOpened 1) = Some o'" "length o' \<le> MAX_FRAME_BYTES"
    "rc_show_client E (RC_StreamClosed 1 CR_ConnectFailed) = Some c" "length c \<le> MAX_FRAME_BYTES"
    by (rule codec_writesD [OF assms(2), of 1]) auto
  note r = codec_okD(1) [OF assms(1)] codec_okD(2) [OF assms(1) w(1)] codec_okD(2) [OF assms(1) w(3)]
  obtain s where s: "tunnel_run E [TE_Server (calm_poll\<lparr>sp_command := True\<rparr>), TE_Caller 1 (Read_Data ''x''), TE_Server calm_poll] (tunnel_new 0 0) = Some s"
    and at: "sy_server_exit s = None" "sy_client_exit s = None" "sv_writers (sy_server s) = [1]" "sv_socket (sy_server s) = [WS_Text a, WS_Text d]"
      "sy_client s = client_tunnel_new 0"
    using w r by (simp add: tunnel_eval tunnel_new_def server_tunnel_new_def)
  from s have reach: "tunnel_reachable E s" using tunnel_run_reachable tunnel_reachable.start by blast
  have run: "\<exists>t u. tunnel_run E [TE_Client (calm_client (CA_Message (Next_Message (WS_Text a)))\<lparr>cp_connect := connects\<rparr>)] s = Some t
        \<and> tunnel_run E [TE_Client (calm_client (CA_Message (Next_Message (WS_Text d))))] t = Some u
        \<and> sy_client_exit t = None \<and> (1 \<in> set (ct_targets (sy_client t)) \<longleftrightarrow> connects)
        \<and> sy_server_exit u = None \<and> sv_writers (sy_server u) = [1]
        \<and> sy_client_exit u = (if connects then None else Some (Err RE_Protocol))" for connects
    using at w r by (cases connects) (simp_all add: tunnel_eval client_tunnel_new_def client_write_data_def)
  have decoded: "client_decode_frame E (WS_Text a) = Ok (RS_OpenStream 1)" "\<exists>x. client_decode_frame E (WS_Text d) = Ok (RS_StreamData 1 x)"
    using w r by (simp_all add: client_decode_frame_def ok_or_def)
  have "run_forever [Err RE_Protocol] = (Some (Err RE_Protocol), 1)" by simp
  then show ?thesis
    by (intro exI [of _ s] exI [of _ "WS_Text a"] exI [of _ "WS_Text d"] conjI allI reach at(1-4) decoded run)
qed

text \<open>A state in which the targets of \<open>k\<close> streams have closed and the callers have not yet: the Server
  counts none of the streams, the Relay counts all of them.\<close>

definition drained :: "nat \<Rightarrow> tunnel_system \<Rightarrow> bool" where
  "drained k s \<longleftrightarrow> sy_server_exit s = None \<and> sy_client_exit s = None
     \<and> sv_writers (sy_server s) = [] \<and> sv_next_stream_id (sy_server s) = k + 1 \<and> sv_outbound (sy_server s) = []
     \<and> sv_socket (sy_server s) = [] \<and> 0 < sv_inbound_deadline (sy_server s)
     \<and> ct_targets (sy_client s) = rev [1..<k + 1] \<and> ct_readers (sy_client s) = [] \<and> ct_outbound (sy_client s) = []
     \<and> ct_socket (sy_client s) = []"

lemma drained_more:
  assumes "codec_ok E" "codec_writes E" "k < MAX_STREAMS" "drained k s"
  shows "\<exists>es t. tunnel_run E es s = Some t \<and> drained (k + 1) t"
proof -
  have "k + 1 < 2 ^ 32" using assms(3) by simp
  then obtain a c h where w: "rc_show_server E (RS_OpenStream (k + 1)) = Some a" "length a \<le> MAX_FRAME_BYTES"
    "rc_show_client E (RC_StreamOpened (k + 1)) = Some c" "length c \<le> MAX_FRAME_BYTES"
    "rc_show_client E (RC_StreamHalfClosed (k + 1)) = Some h" "length h \<le> MAX_FRAME_BYTES"
    by (rule codec_writesD [OF assms(2)]) auto
  note r = codec_okD(2) [OF assms(1) w(1)] codec_okD(3) [OF assms(1) w(3)] codec_okD(3) [OF assms(1) w(5)]
  have "\<exists>t. tunnel_run E [TE_Server (calm_poll\<lparr>sp_command := True\<rparr>), TE_Client (calm_client (CA_Message (Next_Message (WS_Text a)))),
      TE_Server (calm_poll\<lparr>sp_next := Some (Next_Message (WS_Text c))\<rparr>), TE_Target (k + 1) Target_Eof, TE_Client (calm_client CA_Outbound),
      TE_Server (calm_poll\<lparr>sp_next := Some (Next_Message (WS_Text h))\<rparr>)] s = Some t \<and> drained (k + 1) t"
    using assms(3,4) w r by (simp add: drained_def tunnel_eval)
  then show ?thesis by blast
qed

lemma drained_reachable:
  assumes "codec_ok E" "codec_writes E" "k \<le> MAX_STREAMS"
  shows "\<exists>s. tunnel_reachable E s \<and> drained k s"
  using assms(3)
proof (induction k)
  case 0
  have "drained 0 (tunnel_new 0 0)"
    by (simp add: drained_def tunnel_new_def server_tunnel_new_def client_tunnel_new_def)
  then show ?case using tunnel_reachable.start by blast
next
  case (Suc k)
  then show ?case using drained_more [OF assms(1,2), of k] tunnel_run_reachable by fastforce
qed

text \<open>C36. The two ends count streams differently: the Server forgets a stream when its target closes, the
  Relay only when its caller closes. There is a reachable state, with both ends running, in which the Server counts no open stream
  and the Relay counts 32; when the Server then opens one more, its only one, and the Relay takes the request, the Relay's
  tunnel ends with a protocol error, although its connect would have succeeded, and the Server runs on.\<close>

theorem stream_limit_mismatch:
  assumes "codec_ok E" "codec_writes E"
  shows "\<exists>s t u request. tunnel_reachable E s \<and> sy_server_exit s = None \<and> sy_client_exit s = None
     \<and> sv_writers (sy_server s) = [] \<and> length (ct_targets (sy_client s)) = 32 \<and> sv_socket (sy_server s) = []
     \<and> tunnel_run E [TE_Server (calm_poll\<lparr>sp_command := True\<rparr>)] s = Some t
     \<and> length (sv_writers (sy_server t)) = 1 \<and> sv_socket (sy_server t) = [request]
     \<and> client_decode_frame E request = Ok (RS_OpenStream 33)
     \<and> tunnel_run E [TE_Client (calm_client (CA_Message (Next_Message request)))] t = Some u
     \<and> sy_server_exit u = None \<and> sy_client_exit u = Some (Err RE_Protocol)"
proof -
  obtain s where s: "tunnel_reachable E s" "drained MAX_STREAMS s"
    using drained_reachable [OF assms, of MAX_STREAMS] by auto
  obtain a where a: "rc_show_server E (RS_OpenStream 33) = Some a" "length a \<le> MAX_FRAME_BYTES"
    by (rule codec_writesD [OF assms(2), of 33]) auto
  note r = codec_okD(2) [OF assms(1) a(1)]
  have "\<exists>t. tunnel_run E [TE_Server (calm_poll\<lparr>sp_command := True\<rparr>)] s = Some t
      \<and> length (sv_writers (sy_server t)) = 1 \<and> sv_socket (sy_server t) = [WS_Text a]
      \<and> (\<exists>u. tunnel_run E [TE_Client (calm_client (CA_Message (Next_Message (WS_Text a))))] t = Some u
        \<and> sy_server_exit u = None \<and> sy_client_exit u = Some (Err RE_Protocol))"
    using s(2) a r by (simp add: drained_def tunnel_eval del: upt.simps)
  moreover have "client_decode_frame E (WS_Text a) = Ok (RS_OpenStream 33)" using a r by (simp add: client_decode_frame_def ok_or_def)
  moreover have "sy_server_exit s = None \<and> sy_client_exit s = None \<and> sv_writers (sy_server s) = []
      \<and> length (ct_targets (sy_client s)) = 32 \<and> sv_socket (sy_server s) = []" using s(2) by (simp add: drained_def del: upt.simps)
  ultimately show ?thesis using s(1) by blast
qed

section \<open>A concrete codec\<close>

definition sample_codec :: relay_codec where
  "sample_codec = \<lparr>rc_b64_encode = id, rc_b64_decode = Some,
     rc_show_server = (\<lambda>f. case f of
         RS_OpenStream i \<Rightarrow> Some (CHR ''O'' # show_nat i)
       | RS_StreamData i d \<Rightarrow> Some (CHR ''D'' # show_nat i @ CHR '':'' # d)
       | _ \<Rightarrow> None),
     rc_read_server = (\<lambda>t. case t of
         [] \<Rightarrow> None
       | x # r \<Rightarrow> if x = CHR ''O'' then map_option RS_OpenStream (parse_digits r)
           else (case split_once CHR '':'' r of None \<Rightarrow> None
             | Some (n, d) \<Rightarrow> map_option (\<lambda>i. RS_StreamData i d) (parse_digits n))),
     rc_show_client = (\<lambda>f. case f of
         RC_StreamOpened i \<Rightarrow> Some (CHR ''O'' # show_nat i)
       | RC_StreamHalfClosed i \<Rightarrow> Some (CHR ''H'' # show_nat i)
       | RC_StreamClosed i CR_ConnectFailed \<Rightarrow> Some (CHR ''C'' # show_nat i)
       | RC_StreamData i d \<Rightarrow> Some (CHR ''D'' # show_nat i @ CHR '':'' # d)
       | _ \<Rightarrow> None),
     rc_read_client = (\<lambda>t. case t of
         [] \<Rightarrow> None
       | x # r \<Rightarrow> if x = CHR ''O'' then map_option RC_StreamOpened (parse_digits r)
           else if x = CHR ''H'' then map_option RC_StreamHalfClosed (parse_digits r)
           else if x = CHR ''C'' then map_option (\<lambda>i. RC_StreamClosed i CR_ConnectFailed) (parse_digits r)
           else (case split_once CHR '':'' r of None \<Rightarrow> None
             | Some (n, d) \<Rightarrow> map_option (\<lambda>i. RC_StreamData i d) (parse_digits n)))\<rparr>"

lemma colon_not_in_number: "CHR '':'' \<notin> set (show_nat i)"
  using show_nat_digits by (force simp: is_ascii_digit_def)

lemma sample_codec_ok: "codec_ok sample_codec"
  unfolding codec_ok_def
  by (auto simp: sample_codec_def parse_digits_show_nat split_once_append colon_not_in_number
      split: relay_server_frame.splits relay_client_frame.splits close_reason.splits)

lemma sample_codec_writes: "codec_writes sample_codec"
proof -
  have "length (show_nat i) \<le> 10" if "i < 2 ^ 32" for i
    by (rule show_nat_length) (use that in simp_all)
  then show ?thesis by (fastforce simp: codec_writes_def sample_codec_def)
qed


text \<open>A run in which one byte travels from a caller to its target.\<close>

definition sample_run :: "tunnel_event list" where
  "sample_run = [TE_Server (calm_poll\<lparr>sp_command := True\<rparr>), TE_Caller 1 (Read_Data ''x''), TE_Server calm_poll,
     TE_Client (calm_client (CA_Message (Next_Message (WS_Text ''O1'')))),
     TE_Client (calm_client (CA_Message (Next_Message (WS_Text ''D1:x''))))]"

lemma sample_run_delivers:
  "\<exists>s. tunnel_reachable sample_codec s \<and> ct_to_target (sy_client s) 1 = ''x'' \<and> ct_targets (sy_client s) = [1]"
proof -
  have n: "show_nat (Suc 0) = ''1''" by code_simp
  have "\<exists>t. tunnel_run sample_codec sample_run (tunnel_new 0 0) = Some t
      \<and> ct_to_target (sy_client t) 1 = ''x'' \<and> ct_targets (sy_client t) = [1]"
    unfolding sample_run_def
    by (simp add: tunnel_eval sample_codec_def tunnel_new_def server_tunnel_new_def client_tunnel_new_def n
        server_write_data_def client_write_data_def parse_digits_def digits_value_def digit_value_def is_ascii_digit_def)
  then show ?thesis using tunnel_run_reachable tunnel_reachable.start by blast
qed

text \<open>The step that reads the byte from the caller puts it into the pipe of the stream.\<close>

theorem tunnel_refines_pipes_witness:
  "\<exists>s. tunnel_reachable sample_codec s \<and> bp_read (down_pipe sample_codec 1 s) = []
     \<and> bp_read (down_pipe sample_codec 1 (tunnel_step sample_codec (TE_Caller 1 (Read_Data ''x'')) s)) = ''x''
     \<and> pipe_step (down_pipe sample_codec 1 s) (down_pipe sample_codec 1 (tunnel_step sample_codec (TE_Caller 1 (Read_Data ''x'')) s))"
proof -
  have n: "show_nat (Suc 0) = ''1''" by code_simp
  have "\<exists>s. tunnel_run sample_codec [TE_Server (calm_poll\<lparr>sp_command := True\<rparr>)] (tunnel_new 0 0) = Some s
      \<and> tunnel_permitted (TE_Caller 1 (Read_Data ''x'')) s \<and> bp_read (down_pipe sample_codec 1 s) = []
      \<and> bp_read (down_pipe sample_codec 1 (tunnel_step sample_codec (TE_Caller 1 (Read_Data ''x'')) s)) = ''x''"
    by (simp add: tunnel_eval sample_codec_def tunnel_new_def server_tunnel_new_def down_pipe_def n)
  then obtain s where s: "tunnel_run sample_codec [TE_Server (calm_poll\<lparr>sp_command := True\<rparr>)] (tunnel_new 0 0) = Some s"
    "tunnel_permitted (TE_Caller 1 (Read_Data ''x'')) s" "bp_read (down_pipe sample_codec 1 s) = []"
    "bp_read (down_pipe sample_codec 1 (tunnel_step sample_codec (TE_Caller 1 (Read_Data ''x'')) s)) = ''x''" by blast
  from s(1) have "tunnel_reachable sample_codec s" using tunnel_run_reachable tunnel_reachable.start by blast
  with s(3,4) tunnel_refines_pipes [OF sample_codec_ok s(2), of 1] show ?thesis by blast
qed

theorem tunnel_delivers_in_order_witness:
  "\<exists>s. tunnel_reachable sample_codec s \<and> ct_to_target (sy_client s) 1 = ''x'' \<and> prefix ''x'' (sv_from_caller (sy_server s) 1)"
  using sample_run_delivers tunnel_delivers_in_order [OF sample_codec_ok] by metis

theorem stream_ids_fresh_witness:
  "\<exists>s. tunnel_reachable sample_codec s \<and> ct_targets (sy_client s) = [1] \<and> server_tunnel_ok (sy_server s)"
  using sample_run_delivers stream_ids_fresh [OF sample_codec_ok] by metis

theorem failed_connect_ends_relay_witness:
  "\<exists>s request t u. tunnel_reachable sample_codec s \<and> sy_client_exit s = None
     \<and> tunnel_run sample_codec [TE_Client (calm_client (CA_Message (Next_Message request))\<lparr>cp_connect := False\<rparr>)] s = Some t
     \<and> tunnel_reachable sample_codec u \<and> sy_server_exit u = None \<and> sy_client_exit u = Some (Err RE_Protocol)"
proof -
  from failed_connect_ends_relay [OF sample_codec_ok sample_codec_writes] obtain s request content t u where
    "tunnel_reachable sample_codec s" "sy_client_exit s = None"
    "tunnel_run sample_codec [TE_Client (calm_client (CA_Message (Next_Message request))\<lparr>cp_connect := False\<rparr>)] s = Some t"
    "tunnel_run sample_codec [TE_Client (calm_client (CA_Message (Next_Message content)))] t = Some u"
    "sy_server_exit u = None" "sy_client_exit u = Some (Err RE_Protocol)" by metis
  then show ?thesis using tunnel_run_reachable by blast
qed

theorem stream_limit_mismatch_witness:
  "\<exists>s u. tunnel_reachable sample_codec s \<and> sv_writers (sy_server s) = [] \<and> length (ct_targets (sy_client s)) = 32
     \<and> tunnel_reachable sample_codec u \<and> sy_client_exit u = Some (Err RE_Protocol)"
  using stream_limit_mismatch [OF sample_codec_ok sample_codec_writes] tunnel_run_reachable by metis

end
