(* ===== verification/Node_Lease.thy ===== *)
theory Node_Lease
  imports Rust_Std
begin

text \<open>
  The boot clock (\<open>clock.rs\<close>) and the node lease (\<open>deployment.rs\<close>) of the server. Durations and
  instants are nanoseconds. A reading of \<open>CLOCK_BOOTTIME\<close> is an argument of each operation that reads
  it; a database transaction takes the database clock and a fate, because a commit may be refused or
  its acknowledgement lost. The last part composes several nodes and one database into a transition
  system in which renewals of different nodes interleave.
\<close>

section \<open>Boot clock\<close>

datatype clock_error = Clock_Unavailable | Clock_MovedBackwards

type_synonym reading = "clock_error + nat"

text \<open>\<open>BootClock::now\<close> over the last accepted reading.\<close>

definition boot_now :: "reading \<Rightarrow> nat option \<Rightarrow> (clock_error + nat) \<times> nat option" where
  "boot_now rd latest = (case rd of
     Inl e \<Rightarrow> (Err e, latest)
   | Inr current \<Rightarrow>
       if (case latest of None \<Rightarrow> False | Some previous \<Rightarrow> current < previous)
       then (Err Clock_MovedBackwards, latest)
       else (Ok current, Some current))"

section \<open>Database rows\<close>

datatype node_state = NodeServing | NodeDraining

record node_row =
  nr_incarnation_id :: uuid
  nr_display_name :: "bytes option"
  nr_state :: node_state
  nr_config_epoch :: int
  nr_server_build_id :: bytes
  nr_internal_wss_url :: "bytes option"
  nr_lease_until :: nat

record deployment_row =
  dp_id :: uuid
  dp_config_epoch :: int
  dp_server_build_id :: bytes
  dp_relay_protocol_version :: int
  dp_profile :: bytes
  dp_config_proof :: "bytes option"

record lease_db =
  ld_deployment :: "deployment_row option"
  ld_nodes :: "node_row list"
  ld_audit :: "(uuid \<times> bytes \<times> bytes) list"

datatype lease_error = Lease_Fenced | Lease_Database | Lease_ConfigurationMismatch

datatype tx_fate = TxCommit | TxRefused | TxAckLost

definition run_tx :: "tx_fate \<Rightarrow> (lease_db \<Rightarrow> lease_error + lease_db) \<Rightarrow> lease_db \<Rightarrow> (lease_error + unit) \<times> lease_db" where
  "run_tx fate body db = (if fate = TxRefused then (Err Lease_Database, db)
     else (case body db of
       Inl e \<Rightarrow> (Err e, db)
     | Inr db' \<Rightarrow> ((if fate = TxCommit then Ok () else Err Lease_Database), db')))"

section \<open>The lease\<close>

record node_lease =
  nl_incarnation_id :: uuid
  nl_config_epoch :: int
  nl_display_name :: "bytes option"
  nl_profile :: bytes
  nl_config_proof :: "bytes option"
  nl_internal_wss_url :: "bytes option"
  nl_build_id :: bytes
  nl_ttl :: nat
  nl_safety_margin :: nat
  nl_clock_last :: "nat option"
  nl_hard_deadline_ns :: nat
  nl_fenced :: bool
  nl_fence_token_cancelled :: bool
  nl_draining :: bool
  nl_dependency_ready :: bool

abbreviation (input) U64_MAX :: nat where "U64_MAX \<equiv> 18446744073709551615"
abbreviation (input) NS :: nat where "NS \<equiv> 1000000000"

definition duration_ns :: "nat \<Rightarrow> nat" where
  "duration_ns d = min d U64_MAX"

definition lease_fence :: "node_lease \<Rightarrow> node_lease" where
  "lease_fence n = (if nl_fenced n then n else n\<lparr>nl_fenced := True, nl_fence_token_cancelled := True\<rparr>)"

definition read_clock :: "reading \<Rightarrow> node_lease \<Rightarrow> (clock_error + nat) \<times> node_lease" where
  "read_clock rd n = (case boot_now rd (nl_clock_last n) of (r, latest) \<Rightarrow> (r, n\<lparr>nl_clock_last := latest\<rparr>))"

definition lease_check :: "reading \<Rightarrow> node_lease \<Rightarrow> (lease_error + unit) \<times> node_lease" where
  "lease_check rd n = (if nl_fenced n then (Err Lease_Fenced, n)
     else (case read_clock rd n of
       (Inl e, n1) \<Rightarrow> (Err Lease_Fenced, lease_fence n1)
     | (Inr now, n1) \<Rightarrow>
         if nl_hard_deadline_ns n1 = 0 \<or> nl_hard_deadline_ns n1 \<le> duration_ns now
         then (Err Lease_Fenced, lease_fence n1)
         else (Ok (), n1)))"

definition lease_is_ready :: "reading \<Rightarrow> node_lease \<Rightarrow> bool \<times> node_lease" where
  "lease_is_ready rd n = (if \<not> nl_dependency_ready n \<or> nl_draining n then (False, n)
     else (case lease_check rd n of (r, n') \<Rightarrow> (is_ok r, n')))"

definition install_deadline :: "nat \<Rightarrow> reading \<Rightarrow> node_lease \<Rightarrow> (lease_error + unit) \<times> node_lease" where
  "install_deadline before_request rd n =
     (if nl_fenced n then (Err Lease_Fenced, n)
      else if before_request + nl_ttl n < nl_safety_margin n then (Err Lease_Fenced, lease_fence n)
      else (let candidate = before_request + nl_ttl n - nl_safety_margin n
            in case read_clock rd n of
              (Inl e, n1) \<Rightarrow> (Err Lease_Fenced, lease_fence n1)
            | (Inr now, n1) \<Rightarrow>
                (let previous = nl_hard_deadline_ns n1
                 in if (previous \<noteq> 0 \<and> previous \<le> duration_ns now) \<or> candidate \<le> now
                    then (Err Lease_Fenced, lease_fence n1)
                    else (Ok (), n1\<lparr>nl_hard_deadline_ns := duration_ns candidate\<rparr>))))"

definition validate_deployment :: "node_lease \<Rightarrow> lease_db \<Rightarrow> lease_error + uuid" where
  "validate_deployment n db = (case ld_deployment db of
     None \<Rightarrow> Err Lease_ConfigurationMismatch
   | Some d \<Rightarrow> if dp_config_epoch d = nl_config_epoch n \<and> dp_server_build_id d = nl_build_id n
                 \<and> dp_relay_protocol_version d = 1 \<and> dp_profile d = nl_profile n
                 \<and> dp_config_proof d = nl_config_proof n
               then Ok (dp_id d) else Err Lease_ConfigurationMismatch)"

definition ttl_seconds :: "node_lease \<Rightarrow> lease_error + nat" where
  "ttl_seconds n = (if nl_ttl n div NS < 2 ^ 63 then Ok (nl_ttl n div NS) else Err Lease_Database)"

definition append_audit :: "uuid \<Rightarrow> bytes \<Rightarrow> bytes \<Rightarrow> lease_db \<Rightarrow> lease_db" where
  "append_audit deployment_id kind action db = db\<lparr>ld_audit := ld_audit db @ [(deployment_id, kind, action)]\<rparr>"

text \<open>The constraint on the column that holds the advertised URL of a node.\<close>

definition url_column_ok :: "bytes option \<Rightarrow> bool" where
  "url_column_ok url = (case url of None \<Rightarrow> True | Some u \<Rightarrow>
     (case utf8_chars u of None \<Rightarrow> False | Some cs \<Rightarrow> 16 \<le> length cs \<and> length cs \<le> 2048)
     \<and> starts_with ''wss://'' u \<and> \<not> chars_any char_is_control u)"

lemma url_column_ok_None [simp]: "url_column_ok None"
  by (simp add: url_column_ok_def)

definition register_body :: "nat \<Rightarrow> node_lease \<Rightarrow> lease_db \<Rightarrow> lease_error + lease_db" where
  "register_body dbnow n db =
     r_bind (validate_deployment n db) (\<lambda>deployment_id.
     if nl_profile n = ''single_node'' \<and> list_ex (\<lambda>r. dbnow < nr_lease_until r) (ld_nodes db)
     then Err Lease_ConfigurationMismatch
     else r_bind (ttl_seconds n) (\<lambda>ttl.
       if nl_incarnation_id n \<in> set (map nr_incarnation_id (ld_nodes db)) \<or> \<not> url_column_ok (nl_internal_wss_url n) then Err Lease_Database
       else Ok (append_audit deployment_id ''server_node'' ''register''
         (db\<lparr>ld_nodes := ld_nodes db @ [\<lparr>nr_incarnation_id = nl_incarnation_id n, nr_display_name = nl_display_name n,
            nr_state = NodeServing, nr_config_epoch = nl_config_epoch n, nr_server_build_id = nl_build_id n,
            nr_internal_wss_url = nl_internal_wss_url n, nr_lease_until = dbnow + ttl * NS\<rparr>]\<rparr>))))"

definition register_database :: "tx_fate \<Rightarrow> nat \<Rightarrow> node_lease \<Rightarrow> lease_db \<Rightarrow> (lease_error + unit) \<times> lease_db" where
  "register_database fate dbnow n db = run_tx fate (register_body dbnow n) db"

definition serving_row :: "node_lease \<Rightarrow> node_row \<Rightarrow> bool" where
  "serving_row n r \<longleftrightarrow> nr_incarnation_id r = nl_incarnation_id n \<and> nr_state r = NodeServing
     \<and> nr_config_epoch r = nl_config_epoch n \<and> nr_server_build_id r = nl_build_id n"

definition update_rows :: "(node_row \<Rightarrow> bool) \<Rightarrow> (node_row \<Rightarrow> node_row) \<Rightarrow> lease_db \<Rightarrow> nat \<times> lease_db" where
  "update_rows p f db = (length (filter p (ld_nodes db)),
     db\<lparr>ld_nodes := map (\<lambda>r. if p r then f r else r) (ld_nodes db)\<rparr>)"

definition renew_body :: "nat \<Rightarrow> node_lease \<Rightarrow> lease_db \<Rightarrow> lease_error + lease_db" where
  "renew_body dbnow n db =
     r_bind (validate_deployment n db) (\<lambda>_.
     r_bind (ttl_seconds n) (\<lambda>ttl.
     (case update_rows (serving_row n) (\<lambda>r. r\<lparr>nr_lease_until := dbnow + ttl * NS\<rparr>) db of
        (changed, db') \<Rightarrow> if changed \<noteq> 1 then Err Lease_Fenced else Ok db')))"

text \<open>A row count other than one fences the node locally as well.\<close>

definition fence_on :: "(lease_error + unit) \<Rightarrow> node_lease \<Rightarrow> node_lease" where
  "fence_on r n = (if r = Err Lease_Fenced then lease_fence n else n)"

definition renew_database ::
  "tx_fate \<Rightarrow> nat \<Rightarrow> node_lease \<Rightarrow> lease_db \<Rightarrow> (lease_error + unit) \<times> node_lease \<times> lease_db" where
  "renew_database fate dbnow n db = (case run_tx fate (renew_body dbnow n) db of
     (r, db') \<Rightarrow> (r, fence_on r n, db'))"

definition drain_body :: "nat \<Rightarrow> node_lease \<Rightarrow> lease_db \<Rightarrow> lease_error + lease_db" where
  "drain_body dbnow n db =
     r_bind (validate_deployment n db) (\<lambda>deployment_id.
     (case update_rows (\<lambda>r. serving_row n r \<and> dbnow < nr_lease_until r) (\<lambda>r. r\<lparr>nr_state := NodeDraining\<rparr>) db of
        (changed, db') \<Rightarrow> if changed \<noteq> 1 then Err Lease_Fenced
          else Ok (append_audit deployment_id ''server_node'' ''drain'' db')))"

definition begin_drain ::
  "reading \<Rightarrow> tx_fate \<Rightarrow> nat \<Rightarrow> node_lease \<Rightarrow> lease_db \<Rightarrow> (lease_error + unit) \<times> node_lease \<times> lease_db" where
  "begin_drain rd fate dbnow n db =
     (case lease_check rd (n\<lparr>nl_draining := True\<rparr>) of
        (Inl e, n1) \<Rightarrow> (Err e, n1, db)
      | (Inr _, n1) \<Rightarrow> (case run_tx fate (drain_body dbnow n1) db of (r, db') \<Rightarrow> (r, fence_on r n1, db')))"

definition draining_row :: "node_lease \<Rightarrow> node_row \<Rightarrow> bool" where
  "draining_row n r \<longleftrightarrow> nr_incarnation_id r = nl_incarnation_id n \<and> nr_state r = NodeDraining
     \<and> nr_config_epoch r = nl_config_epoch n \<and> nr_server_build_id r = nl_build_id n"

definition release_body :: "node_lease \<Rightarrow> lease_db \<Rightarrow> lease_error + lease_db" where
  "release_body n db =
     r_bind (validate_deployment n db) (\<lambda>deployment_id.
     if length (filter (draining_row n) (ld_nodes db)) \<noteq> 1 then Err Lease_Fenced
     else Ok (append_audit deployment_id ''server_node'' ''release''
       (db\<lparr>ld_nodes := filter (\<lambda>r. \<not> draining_row n r) (ld_nodes db)\<rparr>)))"

definition lease_release :: "tx_fate \<Rightarrow> node_lease \<Rightarrow> lease_db \<Rightarrow> (lease_error + unit) \<times> node_lease \<times> lease_db" where
  "lease_release fate n db = (case run_tx fate (release_body n) db of (r, db') \<Rightarrow> (r, lease_fence n, db'))"

section \<open>Registration and renewal\<close>

definition lease_register ::
  "reading \<Rightarrow> tx_fate \<Rightarrow> nat \<Rightarrow> reading \<Rightarrow> node_lease \<Rightarrow> lease_db \<Rightarrow> (lease_error + node_lease) \<times> lease_db" where
  "lease_register rd1 fate dbnow rd2 n db =
     (case read_clock rd1 n of
        (Inl e, n1) \<Rightarrow> (Err Lease_Fenced, db)
      | (Inr before, n1) \<Rightarrow>
          (case register_database fate dbnow n1 db of
             (Inl e, db') \<Rightarrow> (Err e, db')
           | (Inr _, db') \<Rightarrow>
               (case install_deadline before rd2 n1 of
                  (Inl e, n2) \<Rightarrow> (Err e, db')
                | (Inr _, n2) \<Rightarrow> (Ok n2, db'))))"

text \<open>One round of \<open>run_renewals\<close> in its three parts: before the request, the request, after it.\<close>

definition renewal_start :: "reading \<Rightarrow> reading \<Rightarrow> node_lease \<Rightarrow> nat option \<times> node_lease" where
  "renewal_start rd1 rd2 n =
     (case lease_check rd1 n of (r, n1) \<Rightarrow>
        if \<not> is_ok r \<or> nl_draining n1 then (None, n1)
        else (case read_clock rd2 n1 of
          (Inl e, n2) \<Rightarrow> (None, lease_fence n2)
        | (Inr before, n2) \<Rightarrow> (Some before, n2)))"

definition renewal_finish :: "nat \<Rightarrow> reading \<Rightarrow> (lease_error + unit) \<Rightarrow> node_lease \<Rightarrow> bool \<times> node_lease" where
  "renewal_finish before rd result n =
     (case result of
        Inl e \<Rightarrow> (True, n\<lparr>nl_dependency_ready := False\<rparr>)
      | Inr _ \<Rightarrow>
          (case install_deadline before rd n of
             (Inl e, n') \<Rightarrow> (False, n'\<lparr>nl_dependency_ready := False\<rparr>)
           | (Inr _, n') \<Rightarrow> (True, n'\<lparr>nl_dependency_ready := True\<rparr>)))"

definition renewal_round ::
  "reading \<Rightarrow> reading \<Rightarrow> tx_fate \<Rightarrow> nat \<Rightarrow> reading \<Rightarrow> node_lease \<Rightarrow> lease_db \<Rightarrow> bool \<times> node_lease \<times> lease_db" where
  "renewal_round rd1 rd2 fate dbnow rd3 n db =
     (case renewal_start rd1 rd2 n of
        (None, n1) \<Rightarrow> (False, n1, db)
      | (Some before, n1) \<Rightarrow>
          (case renew_database fate dbnow n1 db of (r, n2, db') \<Rightarrow>
             (case renewal_finish before rd3 r n2 of (continue, n3) \<Rightarrow> (continue, n3, db'))))"

section \<open>Local facts\<close>

lemma lease_fence_simps [simp]:
  "nl_fenced (lease_fence n)" "nl_incarnation_id (lease_fence n) = nl_incarnation_id n"
  "nl_ttl (lease_fence n) = nl_ttl n" "nl_safety_margin (lease_fence n) = nl_safety_margin n"
  "nl_hard_deadline_ns (lease_fence n) = nl_hard_deadline_ns n" "nl_profile (lease_fence n) = nl_profile n"
  by (simp_all add: lease_fence_def)

text \<open>The configuration fields no operation changes.\<close>

definition lease_key :: "node_lease \<Rightarrow> uuid \<times> nat \<times> nat \<times> bytes" where
  "lease_key n = (nl_incarnation_id n, nl_ttl n, nl_safety_margin n, nl_profile n)"

lemma lease_key_fence [simp]: "lease_key (lease_fence n) = lease_key n"
  by (simp add: lease_key_def)

lemma read_clock_frame:
  "read_clock rd n = (r, n') \<Longrightarrow> lease_key n' = lease_key n \<and> nl_fenced n' = nl_fenced n
     \<and> nl_hard_deadline_ns n' = nl_hard_deadline_ns n \<and> (\<forall>now. r = Ok now \<longrightarrow> rd = Ok now)"
  by (auto simp: read_clock_def lease_key_def boot_now_def split: prod.splits sum.splits if_splits)

lemma lease_check_frame:
  "lease_check rd n = (r, n') \<Longrightarrow> lease_key n' = lease_key n \<and> nl_hard_deadline_ns n' = nl_hard_deadline_ns n
     \<and> (nl_fenced n \<longrightarrow> nl_fenced n')"
  by (auto simp: lease_check_def split: if_splits prod.splits sum.splits dest!: read_clock_frame)

lemma install_deadline_cases:
  assumes "install_deadline b rd n = (r, n')"
  shows "lease_key n' = lease_key n \<and> (nl_fenced n' \<or>
    (\<exists>now. rd = Ok now \<and> r = Ok () \<and> nl_safety_margin n \<le> b + nl_ttl n
       \<and> nl_hard_deadline_ns n' = duration_ns (b + nl_ttl n - nl_safety_margin n)
       \<and> now < b + nl_ttl n - nl_safety_margin n
       \<and> (nl_hard_deadline_ns n = 0 \<or> duration_ns now < nl_hard_deadline_ns n)))"
  using assms
  by (auto simp: install_deadline_def Let_def lease_key_def split: if_splits prod.splits sum.splits dest!: read_clock_frame)

lemma fence_on_simps [simp]: "lease_key (fence_on r n) = lease_key n" "nl_hard_deadline_ns (fence_on r n) = nl_hard_deadline_ns n"
  "nl_fenced n \<Longrightarrow> nl_fenced (fence_on r n)"
  by (simp_all add: fence_on_def)

section \<open>Several nodes and one database\<close>

text \<open>The boot clock of a node counts real time from the instant its machine booted: reading it may fail, but a
  successful reading is the time elapsed since boot. The clock of the database shows \<open>D t\<close> at the instant \<open>t\<close>. It may be
  off by any amount, run slow and be set back; but in no period shorter than a lease does it gain more on real time
  than the safety margin, which is what the margin is there for. A node that is between two parts of a registration or
  renewal remembers the instant read before the request.\<close>

datatype phase = Idle | Registering nat | Registered nat | Renewing nat | Renewed nat | Ended

record node =
  nd_lease :: node_lease
  nd_boot :: nat
  nd_phase :: phase
  nd_released :: bool

definition honest :: "nat \<Rightarrow> nat \<Rightarrow> reading \<Rightarrow> bool" where
  "honest \<tau> boot rd \<longleftrightarrow> boot \<le> \<tau> \<and> (\<forall>t. rd = Ok t \<longrightarrow> t = \<tau> - boot)"

definition clock_within :: "nat \<Rightarrow> nat \<Rightarrow> (nat \<Rightarrow> nat) \<Rightarrow> bool" where
  "clock_within ttl margin D \<longleftrightarrow> (\<forall>t u. t \<le> u \<and> u < t + ttl \<longrightarrow> D u \<le> D t + (u - t) + margin)"

inductive node_step :: "(nat \<Rightarrow> nat) \<Rightarrow> nat \<Rightarrow> lease_db \<Rightarrow> node \<Rightarrow> lease_db \<Rightarrow> node \<Rightarrow> bool" for D \<tau> where
  ns_check: "honest \<tau> (nd_boot nd) rd \<Longrightarrow>
    node_step D \<tau> db nd db (nd\<lparr>nd_lease := snd (lease_check rd (nd_lease nd))\<rparr>)"
| ns_fence: "node_step D \<tau> db nd db (nd\<lparr>nd_lease := lease_fence (nd_lease nd)\<rparr>)"
| ns_register_db: "nd_phase nd = Registering b \<Longrightarrow> register_database fate (D \<tau>) (nd_lease nd) db = (r, db') \<Longrightarrow>
    node_step D \<tau> db nd db' (nd\<lparr>nd_phase := (if is_ok r then Registered b else Ended)\<rparr>)"
| ns_register_install: "nd_phase nd = Registered b \<Longrightarrow> honest \<tau> (nd_boot nd) rd \<Longrightarrow>
    install_deadline b rd (nd_lease nd) = (r, n') \<Longrightarrow>
    node_step D \<tau> db nd db (nd\<lparr>nd_lease := n', nd_phase := (if is_ok r then Idle else Ended)\<rparr>)"
| ns_renew_start: "nd_phase nd = Idle \<Longrightarrow> honest \<tau> (nd_boot nd) rd1 \<Longrightarrow> honest \<tau> (nd_boot nd) rd2 \<Longrightarrow>
    renewal_start rd1 rd2 (nd_lease nd) = (b, n') \<Longrightarrow>
    node_step D \<tau> db nd db (nd\<lparr>nd_lease := n', nd_phase := (case b of None \<Rightarrow> Idle | Some t \<Rightarrow> Renewing t)\<rparr>)"
| ns_renew_db: "nd_phase nd = Renewing b \<Longrightarrow> renew_database fate (D \<tau>) (nd_lease nd) db = (r, n', db') \<Longrightarrow>
    node_step D \<tau> db nd db' (nd\<lparr>nd_lease := (if is_ok r then n' else snd (renewal_finish b (Err Clock_Unavailable) r n')),
                              nd_phase := (if is_ok r then Renewed b else Idle)\<rparr>)"
| ns_renew_install: "nd_phase nd = Renewed b \<Longrightarrow> honest \<tau> (nd_boot nd) rd \<Longrightarrow>
    renewal_finish b rd (Ok ()) (nd_lease nd) = (go_on, n') \<Longrightarrow>
    node_step D \<tau> db nd db (nd\<lparr>nd_lease := n', nd_phase := Idle\<rparr>)"
| ns_drain: "honest \<tau> (nd_boot nd) rd \<Longrightarrow> begin_drain rd fate (D \<tau>) (nd_lease nd) db = (r, n', db') \<Longrightarrow>
    node_step D \<tau> db nd db' (nd\<lparr>nd_lease := n'\<rparr>)"
| ns_release_db: "run_tx fate (release_body (nd_lease nd)) db = (r, db') \<Longrightarrow>
    node_step D \<tau> db nd db' (nd\<lparr>nd_released := True\<rparr>)"

inductive_cases node_stepE: "node_step D \<tau> db nd db' nd'"

record system =
  sy_time :: nat
  sy_clock :: "nat \<Rightarrow> nat"
  sy_db :: lease_db
  sy_nodes :: "node list"

inductive sys_step :: "system \<Rightarrow> system \<Rightarrow> bool" where
  ss_tick: "sy_time S \<le> t \<Longrightarrow> sys_step S (S\<lparr>sy_time := t\<rparr>)"
| ss_join: "nl_incarnation_id n \<notin> nl_incarnation_id ` nd_lease ` set (sy_nodes S) \<Longrightarrow>
    nl_incarnation_id n \<notin> nr_incarnation_id ` set (ld_nodes (sy_db S)) \<Longrightarrow>
    nl_hard_deadline_ns n = 0 \<Longrightarrow> \<not> nl_fenced n \<Longrightarrow> NS dvd nl_ttl n \<Longrightarrow>
    clock_within (nl_ttl n) (nl_safety_margin n) (sy_clock S) \<Longrightarrow> honest (sy_time S) boot rd \<Longrightarrow> read_clock rd n = (Ok b, n') \<Longrightarrow>
    sys_step S (S\<lparr>sy_nodes := sy_nodes S @ [\<lparr>nd_lease = n', nd_boot = boot, nd_phase = Registering b, nd_released = False\<rparr>]\<rparr>)"
| ss_node: "i < length (sy_nodes S) \<Longrightarrow> node_step (sy_clock S) (sy_time S) (sy_db S) (sy_nodes S ! i) db' nd' \<Longrightarrow>
    sys_step S (S\<lparr>sy_db := db', sy_nodes := (sy_nodes S)[i := nd']\<rparr>)"

inductive reachable :: "system \<Rightarrow> system \<Rightarrow> bool" for S0 where
  reach_init: "reachable S0 S0"
| reach_step: "reachable S0 S \<Longrightarrow> sys_step S T \<Longrightarrow> reachable S0 T"

definition start_system :: "(nat \<Rightarrow> nat) \<Rightarrow> deployment_row \<Rightarrow> system" where
  "start_system D d = \<lparr>sy_time = 0, sy_clock = D, sy_db = \<lparr>ld_deployment = Some d, ld_nodes = [], ld_audit = []\<rparr>, sy_nodes = []\<rparr>"

section \<open>The invariant of one node\<close>

text \<open>The latest real time at which the node may still consider itself authorised, given what it has
  done so far: its local deadline, or the one its pending registration would install.\<close>

definition limit :: "node \<Rightarrow> nat" where
  "limit nd = (let n = nd_lease nd in
     if nd_released nd \<or> nl_fenced n then 0
     else if nl_hard_deadline_ns n \<noteq> 0 then nd_boot nd + nl_hard_deadline_ns n
     else (case nd_phase nd of
       Registered b \<Rightarrow> if nl_safety_margin n < b + nl_ttl n then nd_boot nd + (b + nl_ttl n - nl_safety_margin n) else 0
     | _ \<Rightarrow> 0))"

text \<open>A membership row of the node was written at some past instant, which a lease later is not before \<open>x\<close>.\<close>

definition covered :: "(nat \<Rightarrow> nat) \<Rightarrow> nat \<Rightarrow> node_row list \<Rightarrow> node \<Rightarrow> nat \<Rightarrow> bool" where
  "covered D \<tau> rows nd x \<longleftrightarrow> (\<exists>r \<in> set rows. nr_incarnation_id r = nl_incarnation_id (nd_lease nd)
     \<and> (\<exists>t \<le> \<tau>. nr_lease_until r = D t + nl_ttl (nd_lease nd) \<and> x \<le> t + nl_ttl (nd_lease nd)))"

fun phase_start :: "phase \<Rightarrow> nat option" where
  "phase_start (Registering b) = Some b"
| "phase_start (Registered b) = Some b"
| "phase_start (Renewing b) = Some b"
| "phase_start (Renewed b) = Some b"
| "phase_start _ = None"

fun registering :: "phase \<Rightarrow> bool" where
  "registering (Registering b) = True"
| "registering (Registered b) = True"
| "registering _ = False"

fun renewing :: "phase \<Rightarrow> bool" where
  "renewing (Renewing b) = True"
| "renewing (Renewed b) = True"
| "renewing _ = False"

definition node_ok :: "(nat \<Rightarrow> nat) \<Rightarrow> nat \<Rightarrow> node_row list \<Rightarrow> node \<Rightarrow> bool" where
  "node_ok D \<tau> rows nd \<longleftrightarrow>
     nl_hard_deadline_ns (nd_lease nd) \<le> U64_MAX
   \<and> NS dvd nl_ttl (nd_lease nd)
   \<and> (registering (nd_phase nd) \<longrightarrow> nl_hard_deadline_ns (nd_lease nd) = 0)
   \<and> (renewing (nd_phase nd) \<longrightarrow> nl_hard_deadline_ns (nd_lease nd) \<noteq> 0)
   \<and> (\<forall>b. phase_start (nd_phase nd) = Some b \<longrightarrow> nd_boot nd + b \<le> \<tau>)
   \<and> (0 < limit nd \<longrightarrow> covered D \<tau> rows nd (limit nd + nl_safety_margin (nd_lease nd)))
   \<and> (\<forall>b. nd_phase nd = Renewed b \<and> \<not> nd_released nd \<and> \<not> nl_fenced (nd_lease nd) \<longrightarrow>
          covered D \<tau> rows nd (nd_boot nd + b + nl_ttl (nd_lease nd)))
   \<and> (\<forall>r \<in> set rows. nr_incarnation_id r = nl_incarnation_id (nd_lease nd) \<longrightarrow>
          (\<exists>t \<le> \<tau>. nr_lease_until r = D t + nl_ttl (nd_lease nd)))
   \<and> clock_within (nl_ttl (nd_lease nd)) (nl_safety_margin (nd_lease nd)) D"

text \<open>What a step of one node may do to the rows: those of other incarnations stay.\<close>

definition rows_of :: "uuid \<Rightarrow> node_row list \<Rightarrow> node_row list" where
  "rows_of u rows = filter (\<lambda>r. nr_incarnation_id r = u) rows"

definition foreign_rows_kept :: "uuid \<Rightarrow> node_row list \<Rightarrow> node_row list \<Rightarrow> bool" where
  "foreign_rows_kept u rows rows' \<longleftrightarrow> (\<forall>v. v \<noteq> u \<longrightarrow> rows_of v rows' = rows_of v rows)"

lemma covered_rows_of: "covered D \<tau> rows nd x = covered D \<tau> (rows_of (nl_incarnation_id (nd_lease nd)) rows) nd x"
  by (auto simp: covered_def rows_of_def)

lemma node_ok_rows_of: "node_ok D \<tau> rows nd = node_ok D \<tau> (rows_of (nl_incarnation_id (nd_lease nd)) rows) nd"
  unfolding node_ok_def covered_rows_of [of D \<tau> rows] covered_rows_of [of D \<tau> "rows_of _ rows"] by (auto simp: rows_of_def)

lemma node_ok_foreign:
  assumes "foreign_rows_kept u rows rows'" and "nl_incarnation_id (nd_lease nd) \<noteq> u" and "node_ok D \<tau> rows nd"
  shows "node_ok D \<tau> rows' nd"
  using assms node_ok_rows_of [of D \<tau> rows nd] node_ok_rows_of [of D \<tau> rows' nd] by (auto simp: foreign_rows_kept_def)

lemma covered_later: "covered D \<tau> rows nd x \<Longrightarrow> \<tau> \<le> t \<Longrightarrow> covered D t rows nd x"
  by (auto simp: covered_def intro: order_trans)

lemma node_ok_later:
  assumes "node_ok D \<tau> rows nd" "\<tau> \<le> t" shows "node_ok D t rows nd"
proof -
  have "\<forall>r \<in> set rows. nr_incarnation_id r = nl_incarnation_id (nd_lease nd) \<longrightarrow> (\<exists>u \<le> t. nr_lease_until r = D u + nl_ttl (nd_lease nd))"
    using assms unfolding node_ok_def by (meson order_trans)
  moreover have "\<forall>b. phase_start (nd_phase nd) = Some b \<longrightarrow> nd_boot nd + b \<le> t" using assms unfolding node_ok_def by (meson order_trans)
  ultimately show ?thesis using assms covered_later [OF _ assms(2), of D rows nd] unfolding node_ok_def by blast
qed

lemma duration_ns_le: "duration_ns d \<le> d" "duration_ns d \<le> U64_MAX"
  by (simp_all add: duration_ns_def)

lemma duration_ns_less: "duration_ns d < x \<Longrightarrow> x \<le> U64_MAX \<Longrightarrow> d < x"
  by (auto simp: duration_ns_def split: if_splits)

section \<open>Every step of a node keeps its invariant\<close>

definition extends :: "(nat \<Rightarrow> nat) \<Rightarrow> nat \<Rightarrow> node \<Rightarrow> node_row list \<Rightarrow> node_row list \<Rightarrow> bool" where
  "extends D \<tau> nd rows rows' \<longleftrightarrow> (\<forall>r \<in> set rows. nr_incarnation_id r = nl_incarnation_id (nd_lease nd) \<longrightarrow>
     (\<forall>t \<le> \<tau>. nr_lease_until r = D t + nl_ttl (nd_lease nd) \<longrightarrow>
       (\<exists>r' \<in> set rows'. nr_incarnation_id r' = nl_incarnation_id (nd_lease nd)
          \<and> (\<exists>t'. t \<le> t' \<and> t' \<le> \<tau> \<and> nr_lease_until r' = D t' + nl_ttl (nd_lease nd)))))"

definition own_rows_bounded :: "(nat \<Rightarrow> nat) \<Rightarrow> nat \<Rightarrow> node \<Rightarrow> node_row list \<Rightarrow> bool" where
  "own_rows_bounded D \<tau> nd rows \<longleftrightarrow> (\<forall>r \<in> set rows. nr_incarnation_id r = nl_incarnation_id (nd_lease nd) \<longrightarrow>
     (\<exists>t \<le> \<tau>. nr_lease_until r = D t + nl_ttl (nd_lease nd)))"

lemma extends_refl: "extends D \<tau> nd rows rows"
  by (auto simp: extends_def)

lemma covered_extends:
  assumes "covered D \<tau> rows nd x" "extends D \<tau> nd rows rows'" "lease_key (nd_lease nd') = lease_key (nd_lease nd)"
  shows "covered D \<tau> rows' nd' x"
proof -
  from assms(1) obtain r t where r: "r \<in> set rows" "nr_incarnation_id r = nl_incarnation_id (nd_lease nd)" "t \<le> \<tau>"
    "nr_lease_until r = D t + nl_ttl (nd_lease nd)" "x \<le> t + nl_ttl (nd_lease nd)" by (auto simp: covered_def)
  with assms(2) obtain r' t' where "r' \<in> set rows'" "nr_incarnation_id r' = nl_incarnation_id (nd_lease nd)" "t \<le> t'" "t' \<le> \<tau>"
    "nr_lease_until r' = D t' + nl_ttl (nd_lease nd)" unfolding extends_def by blast
  with r(5) assms(3) show ?thesis unfolding covered_def lease_key_def by (intro bexI [of _ r']) auto
qed

lemma covered_weaken:
  "covered D \<tau> rows nd x \<Longrightarrow> y \<le> x \<Longrightarrow> lease_key (nd_lease nd') = lease_key (nd_lease nd) \<Longrightarrow> covered D \<tau> rows nd' y"
  by (force simp: covered_def lease_key_def)

lemma node_ok_bounded: "node_ok D \<tau> rows nd \<Longrightarrow> own_rows_bounded D \<tau> nd rows"
  by (simp add: node_ok_def own_rows_bounded_def)

text \<open>A step that keeps the deadline and at most ends the phase or fences the node.\<close>

lemma node_ok_shrink:
  assumes ok: "node_ok D \<tau> rows nd" and key: "lease_key (nd_lease nd') = lease_key (nd_lease nd)"
    and same: "nl_hard_deadline_ns (nd_lease nd') = nl_hard_deadline_ns (nd_lease nd)" "nd_boot nd' = nd_boot nd"
    and fenced: "nl_fenced (nd_lease nd) \<longrightarrow> nl_fenced (nd_lease nd')"
    and released: "nd_released nd' = nd_released nd"
    and phase: "nd_phase nd' = nd_phase nd \<or> nd_phase nd' = Idle \<or> nd_phase nd' = Ended"
    and rows: "extends D \<tau> nd rows rows'" "own_rows_bounded D \<tau> nd rows'"
  shows "node_ok D \<tau> rows' nd' \<and> limit nd' \<le> limit nd"
proof -
  have le: "limit nd' = limit nd \<or> limit nd' = 0"
    using key same fenced released phase by (cases "nd_phase nd") (auto simp: limit_def Let_def lease_key_def)
  have "covered D \<tau> rows' nd' (limit nd' + nl_safety_margin (nd_lease nd'))" if "0 < limit nd'"
    using that le ok covered_extends [OF _ rows(1) key] key by (auto simp: node_ok_def lease_key_def)
  moreover have "covered D \<tau> rows' nd' (nd_boot nd' + b + nl_ttl (nd_lease nd'))"
    if "nd_phase nd' = Renewed b" "\<not> nd_released nd'" "\<not> nl_fenced (nd_lease nd')" for b
    using that ok covered_extends [OF _ rows(1) key] key same fenced released phase by (auto simp: node_ok_def lease_key_def)
  ultimately show ?thesis
    using ok key same phase rows(2) le by (auto simp: node_ok_def lease_key_def own_rows_bounded_def)
qed

text \<open>A step that gives a fresh, covered deadline or registration.\<close>

lemma node_ok_fresh:
  assumes ok: "node_ok D \<tau> rows nd" and key: "lease_key (nd_lease nd') = lease_key (nd_lease nd)"
    and boot: "nd_boot nd' = nd_boot nd" and deadline: "nl_hard_deadline_ns (nd_lease nd') \<le> U64_MAX"
    and phase: "\<And>b. phase_start (nd_phase nd') = Some b \<Longrightarrow> nd_boot nd' + b \<le> \<tau>"
      "registering (nd_phase nd') \<Longrightarrow> nl_hard_deadline_ns (nd_lease nd') = 0"
      "renewing (nd_phase nd') \<Longrightarrow> nl_hard_deadline_ns (nd_lease nd') \<noteq> 0"
    and cov: "0 < limit nd' \<Longrightarrow> covered D \<tau> rows' nd' (limit nd' + nl_safety_margin (nd_lease nd'))"
    and ren: "\<And>b. nd_phase nd' = Renewed b \<Longrightarrow> \<not> nd_released nd' \<Longrightarrow> \<not> nl_fenced (nd_lease nd') \<Longrightarrow>
      covered D \<tau> rows' nd' (nd_boot nd' + b + nl_ttl (nd_lease nd'))"
    and rows: "own_rows_bounded D \<tau> nd rows'"
  shows "node_ok D \<tau> rows' nd'"
  using assms unfolding node_ok_def own_rows_bounded_def lease_key_def by auto

definition single_node :: "lease_db \<Rightarrow> bool" where
  "single_node db \<longleftrightarrow> (\<exists>d. ld_deployment db = Some d \<and> dp_profile d = ''single_node'')"

definition step_effect :: "(nat \<Rightarrow> nat) \<Rightarrow> nat \<Rightarrow> lease_db \<Rightarrow> node \<Rightarrow> lease_db \<Rightarrow> node \<Rightarrow> bool" where
  "step_effect D \<tau> db nd db' nd' \<longleftrightarrow> node_ok D \<tau> (ld_nodes db') nd'
     \<and> lease_key (nd_lease nd') = lease_key (nd_lease nd) \<and> nd_boot nd' = nd_boot nd
     \<and> ld_deployment db' = ld_deployment db
     \<and> foreign_rows_kept (nl_incarnation_id (nd_lease nd)) (ld_nodes db) (ld_nodes db')
     \<and> (limit nd' \<le> limit nd \<or> \<tau> < limit nd
        \<or> registering (nd_phase nd) \<and> (single_node db \<longrightarrow> (\<forall>r \<in> set (ld_nodes db). nr_lease_until r \<le> D \<tau>)))"

lemma step_effect_same_rows:
  assumes "node_ok D \<tau> (ld_nodes db) nd" and "lease_key (nd_lease nd') = lease_key (nd_lease nd)"
    and "nl_hard_deadline_ns (nd_lease nd') = nl_hard_deadline_ns (nd_lease nd)" "nd_boot nd' = nd_boot nd"
    and "nl_fenced (nd_lease nd) \<longrightarrow> nl_fenced (nd_lease nd')" and "nd_released nd' = nd_released nd"
    and "nd_phase nd' = nd_phase nd \<or> nd_phase nd' = Idle \<or> nd_phase nd' = Ended"
    and "ld_deployment db' = ld_deployment db"
    and "foreign_rows_kept (nl_incarnation_id (nd_lease nd)) (ld_nodes db) (ld_nodes db')"
    and "extends D \<tau> nd (ld_nodes db) (ld_nodes db')" "own_rows_bounded D \<tau> nd (ld_nodes db')"
  shows "step_effect D \<tau> db nd db' nd'"
  using node_ok_shrink [OF assms(1-7,10,11)] assms by (auto simp: step_effect_def)

lemma foreign_refl: "foreign_rows_kept u rows rows"
  by (simp add: foreign_rows_kept_def)

lemma foreign_map: "(\<And>r. nr_incarnation_id (f r) = nr_incarnation_id r) \<Longrightarrow> (\<And>r. nr_incarnation_id r \<noteq> u \<Longrightarrow> f r = r) \<Longrightarrow>
    foreign_rows_kept u rows (map f rows)"
  unfolding foreign_rows_kept_def rows_of_def
  by (induction rows) auto

lemma foreign_filter: "(\<And>r. p r \<Longrightarrow> nr_incarnation_id r = u) \<Longrightarrow> foreign_rows_kept u rows (filter (\<lambda>r. \<not> p r) rows)"
  unfolding foreign_rows_kept_def rows_of_def
  by (induction rows) auto

lemma validate_deployment_profile: "validate_deployment n db = Ok i \<Longrightarrow> \<exists>d. ld_deployment db = Some d \<and> dp_profile d = nl_profile n"
  by (auto simp: validate_deployment_def split: option.splits if_splits)

text \<open>The four transactions.\<close>

lemma run_tx_cases:
  "run_tx fate body db = (r, db') \<Longrightarrow> db' = db \<and> r \<noteq> Ok () \<or> body db = Ok db' \<and> (r = Ok () \<or> r = Err Lease_Database)"
  by (auto simp: run_tx_def split: if_splits sum.splits)

lemma ttl_exact: "ttl_seconds n = Ok t \<Longrightarrow> NS dvd nl_ttl n \<Longrightarrow> t * NS = nl_ttl n"
  by (auto simp: ttl_seconds_def split: if_splits)

lemma register_body_rows:
  assumes "register_body \<tau> n db = Ok db'" and "NS dvd nl_ttl n"
  shows "ld_deployment db' = ld_deployment db \<and> (\<exists>r. ld_nodes db' = ld_nodes db @ [r]
    \<and> nr_incarnation_id r = nl_incarnation_id n \<and> nr_lease_until r = \<tau> + nl_ttl n)
    \<and> (single_node db \<longrightarrow> (\<forall>r \<in> set (ld_nodes db). nr_lease_until r \<le> \<tau>))"
  using assms ttl_exact [OF _ assms(2)]
  by (auto simp: register_body_def res_simps append_audit_def list_ex_iff not_less single_node_def split: if_splits
      dest!: validate_deployment_profile)

lemma renew_body_rows:
  assumes "renew_body \<tau> n db = Ok db'" and "NS dvd nl_ttl n"
  shows "ld_deployment db' = ld_deployment db
    \<and> ld_nodes db' = map (\<lambda>r. if serving_row n r then r\<lparr>nr_lease_until := \<tau> + nl_ttl n\<rparr> else r) (ld_nodes db)
    \<and> (\<exists>r \<in> set (ld_nodes db). serving_row n r)"
proof -
  from assms(1) obtain t where t: "ttl_seconds n = Ok t" and one: "length (filter (serving_row n) (ld_nodes db)) = 1"
    and db': "db' = db\<lparr>ld_nodes := map (\<lambda>r. if serving_row n r then r\<lparr>nr_lease_until := \<tau> + t * NS\<rparr> else r) (ld_nodes db)\<rparr>"
    by (auto simp: renew_body_def res_simps update_rows_def split: if_splits)
  from one have "filter (serving_row n) (ld_nodes db) \<noteq> []" by auto
  then have "\<exists>r \<in> set (ld_nodes db). serving_row n r" by (auto simp: filter_empty_conv)
  with ttl_exact [OF t assms(2)] db' show ?thesis by simp
qed

lemma drain_body_rows:
  assumes "drain_body \<tau> n db = Ok db'"
  shows "ld_deployment db' = ld_deployment db
    \<and> (\<exists>p. ld_nodes db' = map (\<lambda>r. if p r then r\<lparr>nr_state := NodeDraining\<rparr> else r) (ld_nodes db)
         \<and> (\<forall>r. p r \<longrightarrow> nr_incarnation_id r = nl_incarnation_id n))"
  using assms
  by (auto simp: drain_body_def res_simps update_rows_def append_audit_def split: if_splits
      intro!: exI [of _ "\<lambda>r. serving_row n r \<and> \<tau> < nr_lease_until r"]) (simp_all add: serving_row_def)

lemma release_body_rows:
  assumes "release_body n db = Ok db'"
  shows "ld_deployment db' = ld_deployment db
    \<and> (\<exists>p. ld_nodes db' = filter (\<lambda>r. \<not> p r) (ld_nodes db) \<and> (\<forall>r. p r \<longrightarrow> nr_incarnation_id r = nl_incarnation_id n))"
  using assms
  by (auto simp: release_body_def res_simps append_audit_def split: if_splits intro!: exI [of _ "draining_row n"])
     (simp_all add: draining_row_def)

lemma effect_check:
  assumes "node_ok D \<tau> (ld_nodes db) nd"
  shows "step_effect D \<tau> db nd db (nd\<lparr>nd_lease := snd (lease_check rd (nd_lease nd))\<rparr>)"
  using lease_check_frame [OF surjective_pairing, of rd "nd_lease nd"] assms node_ok_bounded [OF assms]
  by (intro step_effect_same_rows) (auto intro: foreign_refl extends_refl)

lemma effect_fence:
  assumes "node_ok D \<tau> (ld_nodes db) nd"
  shows "step_effect D \<tau> db nd db (nd\<lparr>nd_lease := lease_fence (nd_lease nd)\<rparr>)"
  using assms node_ok_bounded [OF assms] by (intro step_effect_same_rows) (auto intro: foreign_refl extends_refl)


lemma register_effect_rows:
  assumes "register_database fate (D \<tau>) (nd_lease nd) db = (r, db')" and ok: "node_ok D \<tau> (ld_nodes db) nd"
  shows "ld_deployment db' = ld_deployment db
    \<and> foreign_rows_kept (nl_incarnation_id (nd_lease nd)) (ld_nodes db) (ld_nodes db')
    \<and> extends D \<tau> nd (ld_nodes db) (ld_nodes db') \<and> own_rows_bounded D \<tau> nd (ld_nodes db')
    \<and> (r = Ok () \<longrightarrow> covered D \<tau> (ld_nodes db') nd (\<tau> + nl_ttl (nd_lease nd))
         \<and> (single_node db \<longrightarrow> (\<forall>r \<in> set (ld_nodes db). nr_lease_until r \<le> D \<tau>)))"
proof -
  have ttl: "NS dvd nl_ttl (nd_lease nd)" using ok by (simp add: node_ok_def)
  from run_tx_cases [OF assms(1) [unfolded register_database_def]]
  consider "db' = db" "r \<noteq> Ok ()" | "register_body (D \<tau>) (nd_lease nd) db = Ok db'" by blast
  then show ?thesis
  proof cases
    case 1
    then show ?thesis using node_ok_bounded [OF ok] by (simp add: foreign_refl extends_refl)
  next
    case 2
    from register_body_rows [OF this ttl] node_ok_bounded [OF ok] show ?thesis
      by (auto simp: foreign_rows_kept_def rows_of_def extends_def own_rows_bounded_def covered_def)
  qed
qed

lemma effect_register_db:
  assumes ok: "node_ok D \<tau> (ld_nodes db) nd" and phase: "nd_phase nd = Registering b"
    and reg: "register_database fate (D \<tau>) (nd_lease nd) db = (r, db')"
  shows "step_effect D \<tau> db nd db' (nd\<lparr>nd_phase := (if is_ok r then Registered b else Ended)\<rparr>)"
proof (cases "r = Ok ()")
  case False
  then have "\<not> is_ok r" by (cases r) auto
  with register_effect_rows [OF reg ok] ok show ?thesis by (intro step_effect_same_rows) auto
next
  case True
  note rows = register_effect_rows [OF reg ok]
  let ?nd = "nd\<lparr>nd_phase := Registered b\<rparr>"
  have zero: "nl_hard_deadline_ns (nd_lease nd) = 0" and b: "nd_boot nd + b \<le> \<tau>"
    using ok phase by (auto simp: node_ok_def)
  have "node_ok D \<tau> (ld_nodes db') ?nd"
  proof (rule node_ok_fresh [OF ok])
    assume "0 < limit ?nd"
    then have "limit ?nd + nl_safety_margin (nd_lease nd) \<le> \<tau> + nl_ttl (nd_lease nd)"
      using zero b by (auto simp: limit_def Let_def split: if_splits)
    with rows True show "covered D \<tau> (ld_nodes db') ?nd (limit ?nd + nl_safety_margin (nd_lease ?nd))"
      by (auto intro: covered_weaken)
  qed (use rows b zero in auto)
  with True rows phase show ?thesis by (simp add: step_effect_def)
qed

lemma effect_register_install:
  assumes ok: "node_ok D \<tau> (ld_nodes db) nd" and phase: "nd_phase nd = Registered b"
    and hon: "honest \<tau> (nd_boot nd) rd" and inst: "install_deadline b rd (nd_lease nd) = (r, n')"
  shows "step_effect D \<tau> db nd db (nd\<lparr>nd_lease := n', nd_phase := (if is_ok r then Idle else Ended)\<rparr>)"
proof -
  let ?nd = "nd\<lparr>nd_lease := n', nd_phase := (if is_ok r then Idle else Ended)\<rparr>"
  let ?cand = "b + nl_ttl (nd_lease nd) - nl_safety_margin (nd_lease nd)"
  note c = install_deadline_cases [OF inst]
  have zero: "nl_hard_deadline_ns (nd_lease nd) = 0" using ok phase by (auto simp: node_ok_def)
  have le: "limit ?nd \<le> limit nd \<and> nl_hard_deadline_ns n' \<le> U64_MAX"
  proof (cases "nl_fenced n'")
    case True
    have "nl_hard_deadline_ns n' \<le> U64_MAX"
      using inst ok duration_ns_le(2)
      by (auto simp: install_deadline_def Let_def node_ok_def split: if_splits prod.splits sum.splits dest!: read_clock_frame)
    with True show ?thesis by (simp add: limit_def Let_def)
  next
    case False
    with c have "nl_hard_deadline_ns n' = duration_ns ?cand" "0 < ?cand" by auto
    moreover have "\<not> nl_fenced (nd_lease nd)" using False inst by (auto simp: install_deadline_def split: if_splits)
    ultimately show ?thesis
      using zero phase duration_ns_le [of ?cand] by (auto simp: limit_def Let_def)
  qed
  have "node_ok D \<tau> (ld_nodes db) ?nd"
  proof (rule node_ok_fresh [OF ok])
    assume "0 < limit ?nd"
    with le have "0 < limit nd" by simp
    with ok have "covered D \<tau> (ld_nodes db) nd (limit nd + nl_safety_margin (nd_lease nd))" by (simp add: node_ok_def)
    with le c show "covered D \<tau> (ld_nodes db) ?nd (limit ?nd + nl_safety_margin (nd_lease ?nd))"
      by (fastforce simp: covered_def lease_key_def)
  qed (use c le node_ok_bounded [OF ok] in \<open>auto split: if_splits\<close>)
  with c le show ?thesis by (simp add: step_effect_def foreign_refl)
qed

lemma effect_renew_start:
  assumes ok: "node_ok D \<tau> (ld_nodes db) nd" and phase: "nd_phase nd = Idle"
    and hon: "honest \<tau> (nd_boot nd) rd2" and st: "renewal_start rd1 rd2 (nd_lease nd) = (b, n')"
  shows "step_effect D \<tau> db nd db (nd\<lparr>nd_lease := n', nd_phase := (case b of None \<Rightarrow> Idle | Some t \<Rightarrow> Renewing t)\<rparr>)"
proof -
  obtain r n1 where chk: "lease_check rd1 (nd_lease nd) = (r, n1)" by fastforce
  note f = lease_check_frame [OF chk]
  have frame: "lease_key n' = lease_key (nd_lease nd)" "nl_hard_deadline_ns n' = nl_hard_deadline_ns (nd_lease nd)"
    "nl_fenced (nd_lease nd) \<longrightarrow> nl_fenced n'"
    using st chk f by (auto simp: renewal_start_def split: if_splits prod.splits sum.splits dest!: read_clock_frame)
  show ?thesis
  proof (cases b)
    case None
    with frame phase ok node_ok_bounded [OF ok] show ?thesis
      by (intro step_effect_same_rows) (auto intro: foreign_refl extends_refl)
  next
    case (Some t)
    let ?nd = "nd\<lparr>nd_lease := n', nd_phase := Renewing t\<rparr>"
    have "rd2 = Ok t" using st Some by (auto simp: renewal_start_def split: if_splits prod.splits sum.splits dest!: read_clock_frame)
    with hon have t: "nd_boot nd + t \<le> \<tau>" by (auto simp: honest_def)
    have "nl_hard_deadline_ns (nd_lease nd) \<noteq> 0"
      using st Some chk f by (auto simp: renewal_start_def lease_check_def split: if_splits prod.splits sum.splits dest!: read_clock_frame)
    with frame have le: "limit ?nd \<le> limit nd" "nl_hard_deadline_ns n' \<noteq> 0" by (auto simp: limit_def Let_def)
    have "node_ok D \<tau> (ld_nodes db) ?nd"
    proof (rule node_ok_fresh [OF ok])
      assume "0 < limit ?nd"
      with le have "0 < limit nd" by simp
      with ok have "covered D \<tau> (ld_nodes db) nd (limit nd + nl_safety_margin (nd_lease nd))" by (simp add: node_ok_def)
      with le frame show "covered D \<tau> (ld_nodes db) ?nd (limit ?nd + nl_safety_margin (nd_lease ?nd))"
        by (fastforce simp: covered_def lease_key_def)
    qed (use frame t le ok node_ok_bounded [OF ok] in \<open>auto simp: node_ok_def\<close>)
    with Some frame le show ?thesis by (simp add: step_effect_def foreign_refl)
  qed
qed

lemma renew_effect_rows:
  assumes "run_tx fate (renew_body (D \<tau>) (nd_lease nd)) db = (r, db')" and ok: "node_ok D \<tau> (ld_nodes db) nd"
  shows "ld_deployment db' = ld_deployment db
    \<and> foreign_rows_kept (nl_incarnation_id (nd_lease nd)) (ld_nodes db) (ld_nodes db')
    \<and> extends D \<tau> nd (ld_nodes db) (ld_nodes db') \<and> own_rows_bounded D \<tau> nd (ld_nodes db')
    \<and> (r = Ok () \<longrightarrow> covered D \<tau> (ld_nodes db') nd (\<tau> + nl_ttl (nd_lease nd)))"
proof -
  have ttl: "NS dvd nl_ttl (nd_lease nd)" using ok by (simp add: node_ok_def)
  let ?f = "\<lambda>r. if serving_row (nd_lease nd) r then r\<lparr>nr_lease_until := D \<tau> + nl_ttl (nd_lease nd)\<rparr> else r"
  from run_tx_cases [OF assms(1)] consider "db' = db" "r \<noteq> Ok ()" | "renew_body (D \<tau>) (nd_lease nd) db = Ok db'" by blast
  then show ?thesis
  proof cases
    case 1
    then show ?thesis using node_ok_bounded [OF ok] by (simp add: foreign_refl extends_refl)
  next
    case 2
    note rows = renew_body_rows [OF 2 ttl]
    have id: "nr_incarnation_id r = nl_incarnation_id (nd_lease nd)" if "serving_row (nd_lease nd) r" for r
      using that by (simp add: serving_row_def)
    have "foreign_rows_kept (nl_incarnation_id (nd_lease nd)) (ld_nodes db) (map ?f (ld_nodes db))"
      by (rule foreign_map) (auto dest: id)
    moreover have "extends D \<tau> nd (ld_nodes db) (map ?f (ld_nodes db))"
      unfolding extends_def
    proof (intro ballI allI impI)
      fix r t assume r: "r \<in> set (ld_nodes db)" "nr_incarnation_id r = nl_incarnation_id (nd_lease nd)" "t \<le> \<tau>"
        "nr_lease_until r = D t + nl_ttl (nd_lease nd)"
      then show "\<exists>r' \<in> set (map ?f (ld_nodes db)). nr_incarnation_id r' = nl_incarnation_id (nd_lease nd)
          \<and> (\<exists>t'. t \<le> t' \<and> t' \<le> \<tau> \<and> nr_lease_until r' = D t' + nl_ttl (nd_lease nd))"
        by (intro bexI [of _ "?f r"]) auto
    qed
    moreover have "own_rows_bounded D \<tau> nd (map ?f (ld_nodes db))"
      using node_ok_bounded [OF ok] by (auto simp: own_rows_bounded_def)
    moreover have "covered D \<tau> (map ?f (ld_nodes db)) nd (\<tau> + nl_ttl (nd_lease nd))"
    proof -
      from rows obtain r where "r \<in> set (ld_nodes db)" "serving_row (nd_lease nd) r" by blast
      then show ?thesis unfolding covered_def by (intro bexI [of _ "?f r"]) (auto dest: id)
    qed
    ultimately show ?thesis using rows by simp
  qed
qed

lemma effect_renew_db:
  assumes ok: "node_ok D \<tau> (ld_nodes db) nd" and phase: "nd_phase nd = Renewing b"
    and ren: "renew_database fate (D \<tau>) (nd_lease nd) db = (r, n', db')"
  shows "step_effect D \<tau> db nd db' (nd\<lparr>nd_lease := (if is_ok r then n' else snd (renewal_finish b (Err Clock_Unavailable) r n')),
      nd_phase := (if is_ok r then Renewed b else Idle)\<rparr>)"
proof -
  from ren have tx: "run_tx fate (renew_body (D \<tau>) (nd_lease nd)) db = (r, db')" and n': "n' = fence_on r (nd_lease nd)"
    by (auto simp: renew_database_def split: prod.splits)
  note rows = renew_effect_rows [OF tx ok]
  show ?thesis
  proof (cases r)
    case (Inl e)
    have f: "lease_key (n'\<lparr>nl_dependency_ready := False\<rparr>) = lease_key (nd_lease nd)"
      "nl_hard_deadline_ns (n'\<lparr>nl_dependency_ready := False\<rparr>) = nl_hard_deadline_ns (nd_lease nd)"
      "nl_fenced (nd_lease nd) \<longrightarrow> nl_fenced (n'\<lparr>nl_dependency_ready := False\<rparr>)"
      by (simp_all add: n' fence_on_def lease_key_def)
    with Inl rows ok show ?thesis
      by (intro step_effect_same_rows) (auto simp: renewal_finish_def)
  next
    case (Inr u)
    then have n'_eq: "n' = nd_lease nd" by (simp add: n' fence_on_def)
    let ?nd = "nd\<lparr>nd_lease := nd_lease nd, nd_phase := Renewed b\<rparr>"
    have b: "nd_boot nd + b \<le> \<tau>" "nl_hard_deadline_ns (nd_lease nd) \<noteq> 0" using ok phase by (auto simp: node_ok_def)
    then have le: "limit ?nd = limit nd" by (simp add: limit_def Let_def)
    have cov: "covered D \<tau> (ld_nodes db') nd (\<tau> + nl_ttl (nd_lease nd))" using rows Inr by simp
    have "node_ok D \<tau> (ld_nodes db') ?nd"
    proof (rule node_ok_fresh [OF ok])
      assume "0 < limit ?nd"
      with le ok have "covered D \<tau> (ld_nodes db) nd (limit nd + nl_safety_margin (nd_lease nd))" by (simp add: node_ok_def)
      then have "covered D \<tau> (ld_nodes db') ?nd (limit nd + nl_safety_margin (nd_lease nd))"
        by (rule covered_extends) (use rows in simp_all)
      with le show "covered D \<tau> (ld_nodes db') ?nd (limit ?nd + nl_safety_margin (nd_lease ?nd))" by simp
    next
      fix b' assume "nd_phase ?nd = Renewed b'"
      with b cov show "covered D \<tau> (ld_nodes db') ?nd (nd_boot ?nd + b' + nl_ttl (nd_lease ?nd))"
        by (intro covered_weaken [OF cov]) auto
    next
      show "nl_hard_deadline_ns (nd_lease ?nd) \<le> U64_MAX" using ok by (simp add: node_ok_def)
    qed (use b rows in auto)
    with Inr n'_eq le rows show ?thesis by (simp add: step_effect_def)
  qed
qed

lemma effect_renew_install:
  assumes ok: "node_ok D \<tau> (ld_nodes db) nd" and phase: "nd_phase nd = Renewed b"
    and hon: "honest \<tau> (nd_boot nd) rd" and fin: "renewal_finish b rd (Ok ()) (nd_lease nd) = (go_on, n')"
  shows "step_effect D \<tau> db nd db (nd\<lparr>nd_lease := n', nd_phase := Idle\<rparr>)"
proof -
  let ?nd = "nd\<lparr>nd_lease := n', nd_phase := Idle\<rparr>"
  let ?cand = "b + nl_ttl (nd_lease nd) - nl_safety_margin (nd_lease nd)"
  obtain r n1 where inst: "install_deadline b rd (nd_lease nd) = (r, n1)" by fastforce
  note c = install_deadline_cases [OF inst]
  have n': "lease_key n' = lease_key n1" "nl_fenced n' = nl_fenced n1" "nl_hard_deadline_ns n' = nl_hard_deadline_ns n1"
    using fin inst by (auto simp: renewal_finish_def lease_key_def split: sum.splits)
  have dl: "nl_hard_deadline_ns (nd_lease nd) \<noteq> 0" "nl_hard_deadline_ns (nd_lease nd) \<le> U64_MAX"
    using ok phase by (auto simp: node_ok_def)
  have bound: "nl_hard_deadline_ns n1 \<le> U64_MAX"
    using inst dl(2) duration_ns_le(2)
    by (auto simp: install_deadline_def Let_def split: if_splits prod.splits sum.splits dest!: read_clock_frame)
  have live: "\<tau> < limit nd" "limit ?nd + nl_safety_margin (nd_lease nd) \<le> nd_boot nd + b + nl_ttl (nd_lease nd)"
    if "\<not> nl_fenced n1" "\<not> nd_released nd"
  proof -
    have nf: "\<not> nl_fenced (nd_lease nd)" using that inst by (auto simp: install_deadline_def split: if_splits)
    from c that dl obtain now where now: "rd = Ok now" "duration_ns now < nl_hard_deadline_ns (nd_lease nd)"
      "nl_hard_deadline_ns n1 = duration_ns ?cand" "nl_safety_margin (nd_lease nd) \<le> b + nl_ttl (nd_lease nd)" by auto
    from duration_ns_less [OF now(2) dl(2)] hon now(1) have "\<tau> < nd_boot nd + nl_hard_deadline_ns (nd_lease nd)"
      by (auto simp: honest_def)
    then show "\<tau> < limit nd" using that nf dl by (simp add: limit_def Let_def)
    from now duration_ns_le(1) [of ?cand] that n' show "limit ?nd + nl_safety_margin (nd_lease nd) \<le> nd_boot nd + b + nl_ttl (nd_lease nd)"
      by (auto simp: limit_def Let_def)
  qed
  have dead: "limit ?nd = 0" if "nl_fenced n1 \<or> nd_released nd" using that n' by (auto simp: limit_def Let_def)
  have "node_ok D \<tau> (ld_nodes db) ?nd"
  proof (rule node_ok_fresh [OF ok])
    assume "0 < limit ?nd"
    with dead have alive: "\<not> nl_fenced n1" "\<not> nd_released nd" by auto
    moreover have "\<not> nl_fenced (nd_lease nd)" using alive inst by (auto simp: install_deadline_def split: if_splits)
    ultimately have "covered D \<tau> (ld_nodes db) nd (nd_boot nd + b + nl_ttl (nd_lease nd))"
      using ok phase by (auto simp: node_ok_def)
    with live(2) [OF alive] n' c show "covered D \<tau> (ld_nodes db) ?nd (limit ?nd + nl_safety_margin (nd_lease ?nd))"
      by (fastforce simp: covered_def lease_key_def)
  qed (use c n' bound node_ok_bounded [OF ok] in auto)
  moreover have "limit ?nd \<le> limit nd \<or> \<tau> < limit nd"
    using live(1) dead by (cases "nl_fenced n1 \<or> nd_released nd") auto
  ultimately show ?thesis using c n' by (auto simp: step_effect_def foreign_refl)
qed

lemma effect_drain:
  assumes ok: "node_ok D \<tau> (ld_nodes db) nd" and dr: "begin_drain rd fate (D \<tau>) (nd_lease nd) db = (r, n', db')"
  shows "step_effect D \<tau> db nd db' (nd\<lparr>nd_lease := n'\<rparr>)"
proof -
  obtain r1 n1 where chk: "lease_check rd (nd_lease nd\<lparr>nl_draining := True\<rparr>) = (r1, n1)" by fastforce
  from lease_check_frame [OF chk] have key: "lease_key n1 = lease_key (nd_lease nd)"
    and dl: "nl_hard_deadline_ns n1 = nl_hard_deadline_ns (nd_lease nd)" and fe: "nl_fenced (nd_lease nd) \<longrightarrow> nl_fenced n1"
    by (auto simp: lease_key_def)
  have n': "lease_key n' = lease_key n1" "nl_hard_deadline_ns n' = nl_hard_deadline_ns n1" "nl_fenced n1 \<longrightarrow> nl_fenced n'"
    using dr chk by (auto simp: begin_drain_def split: sum.splits prod.splits)
  have "db' = db \<or> drain_body (D \<tau>) n1 db = Ok db'"
    using dr chk by (auto simp: begin_drain_def split: sum.splits prod.splits dest!: run_tx_cases)
  then have "ld_deployment db' = ld_deployment db
    \<and> foreign_rows_kept (nl_incarnation_id (nd_lease nd)) (ld_nodes db) (ld_nodes db')
    \<and> extends D \<tau> nd (ld_nodes db) (ld_nodes db') \<and> own_rows_bounded D \<tau> nd (ld_nodes db')"
  proof (elim disjE)
    assume "drain_body (D \<tau>) n1 db = Ok db'"
    from drain_body_rows [OF this] obtain p where db': "ld_deployment db' = ld_deployment db"
      and rows: "ld_nodes db' = map (\<lambda>r. if p r then r\<lparr>nr_state := NodeDraining\<rparr> else r) (ld_nodes db)"
      and p: "\<And>r. p r \<Longrightarrow> nr_incarnation_id r = nl_incarnation_id n1" by blast
    from key have id: "nl_incarnation_id n1 = nl_incarnation_id (nd_lease nd)" by (simp add: lease_key_def)
    have "foreign_rows_kept (nl_incarnation_id (nd_lease nd)) (ld_nodes db) (ld_nodes db')"
      unfolding rows by (rule foreign_map) (auto dest: p simp: id)
    moreover have "extends D \<tau> nd (ld_nodes db) (ld_nodes db')"
      unfolding extends_def rows
      by (intro ballI allI impI, rule_tac x = "if p r then r\<lparr>nr_state := NodeDraining\<rparr> else r" in bexI) auto
    moreover have "own_rows_bounded D \<tau> nd (ld_nodes db')"
      using node_ok_bounded [OF ok] by (auto simp: own_rows_bounded_def rows)
    ultimately show ?thesis using db' by simp
  qed (use node_ok_bounded [OF ok] in \<open>simp add: foreign_refl extends_refl\<close>)
  with n' key dl fe ok show ?thesis by (intro step_effect_same_rows) auto
qed

lemma effect_release:
  assumes ok: "node_ok D \<tau> (ld_nodes db) nd" and rel: "run_tx fate (release_body (nd_lease nd)) db = (r, db')"
  shows "step_effect D \<tau> db nd db' (nd\<lparr>nd_released := True\<rparr>)"
proof -
  have "db' = db \<or> release_body (nd_lease nd) db = Ok db'" using run_tx_cases [OF rel] by blast
  then have rows: "ld_deployment db' = ld_deployment db
    \<and> foreign_rows_kept (nl_incarnation_id (nd_lease nd)) (ld_nodes db) (ld_nodes db') \<and> own_rows_bounded D \<tau> nd (ld_nodes db')"
  proof (elim disjE)
    assume "release_body (nd_lease nd) db = Ok db'"
    from release_body_rows [OF this] obtain p where p: "ld_nodes db' = filter (\<lambda>r. \<not> p r) (ld_nodes db)"
      "\<And>r. p r \<Longrightarrow> nr_incarnation_id r = nl_incarnation_id (nd_lease nd)" "ld_deployment db' = ld_deployment db" by blast
    from foreign_filter [of p, OF p(2)] p node_ok_bounded [OF ok] show ?thesis
      by (auto simp: own_rows_bounded_def)
  qed (use node_ok_bounded [OF ok] in \<open>simp add: foreign_refl\<close>)
  have zero: "limit (nd\<lparr>nd_released := True\<rparr>) = 0" by (simp add: limit_def Let_def)
  have "node_ok D \<tau> (ld_nodes db') (nd\<lparr>nd_released := True\<rparr>)"
    by (rule node_ok_fresh [OF ok]) (use ok rows zero in \<open>auto simp: node_ok_def\<close>)
  with rows zero show ?thesis by (simp add: step_effect_def)
qed

lemma node_step_effect:
  assumes "node_step D \<tau> db nd db' nd'" and "node_ok D \<tau> (ld_nodes db) nd"
  shows "step_effect D \<tau> db nd db' nd'"
  using assms
  by (auto elim!: node_stepE intro: effect_check effect_fence effect_register_db effect_register_install effect_renew_start
      effect_renew_db effect_renew_install effect_drain effect_release simp del: if_split)

section \<open>The invariant of the system\<close>

definition nodes_distinct :: "node list \<Rightarrow> bool" where
  "nodes_distinct nds \<longleftrightarrow> distinct (map (\<lambda>nd. nl_incarnation_id (nd_lease nd)) nds)"

definition exclusive :: "nat \<Rightarrow> node list \<Rightarrow> bool" where
  "exclusive \<tau> nds \<longleftrightarrow> (\<forall>i < length nds. \<forall>j < length nds. i \<noteq> j \<longrightarrow> limit (nds ! i) \<le> \<tau> \<or> limit (nds ! j) \<le> \<tau>)"

definition system_ok :: "system \<Rightarrow> bool" where
  "system_ok S \<longleftrightarrow> nodes_distinct (sy_nodes S)
     \<and> (\<forall>nd \<in> set (sy_nodes S). node_ok (sy_clock S) (sy_time S) (ld_nodes (sy_db S)) nd)
     \<and> (single_node (sy_db S) \<longrightarrow> exclusive (sy_time S) (sy_nodes S))"

text \<open>As long as a node may be authorised, its row is valid by the clock of the database.\<close>

lemma limit_row:
  assumes ok: "node_ok D \<tau> rows nd" and live: "\<tau> < limit nd"
  shows "\<exists>r \<in> set rows. nr_incarnation_id r = nl_incarnation_id (nd_lease nd) \<and> D \<tau> < nr_lease_until r"
proof -
  from assms obtain r t where r: "r \<in> set rows" "nr_incarnation_id r = nl_incarnation_id (nd_lease nd)" "t \<le> \<tau>"
    "nr_lease_until r = D t + nl_ttl (nd_lease nd)" "limit nd + nl_safety_margin (nd_lease nd) \<le> t + nl_ttl (nd_lease nd)"
    by (auto simp: node_ok_def covered_def)
  with live have "\<tau> < t + nl_ttl (nd_lease nd)" by simp
  moreover from ok have "clock_within (nl_ttl (nd_lease nd)) (nl_safety_margin (nd_lease nd)) D" by (simp add: node_ok_def)
  ultimately have "D \<tau> \<le> D t + (\<tau> - t) + nl_safety_margin (nd_lease nd)" using r(3) by (simp add: clock_within_def)
  with r live show ?thesis by (intro bexI [of _ r]) auto
qed

lemma limit_expired:
  assumes "node_ok D \<tau> rows nd" and "\<forall>r \<in> set rows. nr_lease_until r \<le> D \<tau>"
  shows "limit nd \<le> \<tau>"
  using limit_row [OF assms(1)] assms(2) by (meson not_le)

lemma exclusive_update:
  assumes ex: "exclusive \<tau> nds" and i: "i < length nds" and ok: "\<forall>nd \<in> set nds. node_ok D \<tau> rows nd"
    and grow: "limit nd' \<le> limit (nds ! i) \<or> \<tau> < limit (nds ! i) \<or> (\<forall>r \<in> set rows. nr_lease_until r \<le> D \<tau>)"
  shows "exclusive \<tau> (nds[i := nd'])"
proof -
  have other: "limit nd' \<le> \<tau> \<or> limit (nds ! j) \<le> \<tau>" if "j < length nds" "j \<noteq> i" for j
  proof -
    have "limit (nds ! i) \<le> \<tau> \<or> limit (nds ! j) \<le> \<tau>" using ex i that by (auto simp: exclusive_def)
    moreover have "limit (nds ! j) \<le> \<tau>" if "\<forall>r \<in> set rows. nr_lease_until r \<le> D \<tau>"
      using limit_expired [where D = D and \<tau> = \<tau> and rows = rows, OF _ that] ok \<open>j < length nds\<close> by auto
    ultimately show ?thesis using grow by auto
  qed
  show ?thesis
    unfolding exclusive_def
  proof (intro allI impI)
    fix j k assume jk: "j < length (nds[i := nd'])" "k < length (nds[i := nd'])" "j \<noteq> k"
    show "limit (nds[i := nd'] ! j) \<le> \<tau> \<or> limit (nds[i := nd'] ! k) \<le> \<tau>"
      using jk other [of j] other [of k] ex i by (cases "j = i"; cases "k = i") (auto simp: exclusive_def)
  qed
qed

lemma system_ok_tick: "system_ok S \<Longrightarrow> sy_time S \<le> t \<Longrightarrow> system_ok (S\<lparr>sy_time := t\<rparr>)"
  unfolding system_ok_def exclusive_def by (auto intro: node_ok_later) (meson order_trans)+

lemma system_ok_join:
  assumes ok: "system_ok S" and fresh: "nl_incarnation_id n \<notin> nl_incarnation_id ` nd_lease ` set (sy_nodes S)"
    "nl_incarnation_id n \<notin> nr_incarnation_id ` set (ld_nodes (sy_db S))"
    and n: "nl_hard_deadline_ns n = 0" "NS dvd nl_ttl n" "clock_within (nl_ttl n) (nl_safety_margin n) (sy_clock S)" and hon: "honest (sy_time S) boot rd"
    and rd: "read_clock rd n = (Ok b, n')"
  shows "system_ok (S\<lparr>sy_nodes := sy_nodes S @ [\<lparr>nd_lease = n', nd_boot = boot, nd_phase = Registering b, nd_released = False\<rparr>]\<rparr>)"
proof -
  let ?nd = "\<lparr>nd_lease = n', nd_boot = boot, nd_phase = Registering b, nd_released = False\<rparr>"
  note f = read_clock_frame [OF rd]
  then have key: "nl_incarnation_id n' = nl_incarnation_id n" "nl_ttl n' = nl_ttl n" "nl_safety_margin n' = nl_safety_margin n" "nl_hard_deadline_ns n' = 0"
    using n by (auto simp: lease_key_def)
  have zero: "limit ?nd = 0" using key by (simp add: limit_def Let_def)
  have "boot + b \<le> sy_time S" using hon f by (auto simp: honest_def)
  moreover have "\<forall>r \<in> set (ld_nodes (sy_db S)). nr_incarnation_id r \<noteq> nl_incarnation_id n" using fresh(2) by (metis imageI)
  ultimately have "node_ok (sy_clock S) (sy_time S) (ld_nodes (sy_db S)) ?nd" using key zero n(2,3) by (auto simp: node_ok_def)
  moreover have "nodes_distinct (sy_nodes S @ [?nd])" using ok fresh(1) key by (auto simp: system_ok_def nodes_distinct_def)
  moreover have "exclusive (sy_time S) (sy_nodes S @ [?nd])" if "exclusive (sy_time S) (sy_nodes S)"
    using that zero by (auto simp: exclusive_def nth_append less_Suc_eq)
  ultimately show ?thesis using ok by (auto simp: system_ok_def)
qed

lemma system_ok_node:
  assumes ok: "system_ok S" and i: "i < length (sy_nodes S)"
    and st: "node_step (sy_clock S) (sy_time S) (sy_db S) (sy_nodes S ! i) db' nd'"
  shows "system_ok (S\<lparr>sy_db := db', sy_nodes := (sy_nodes S)[i := nd']\<rparr>)"
proof -
  let ?nd = "sy_nodes S ! i" and ?id = "\<lambda>nd. nl_incarnation_id (nd_lease nd)"
  have oki: "node_ok (sy_clock S) (sy_time S) (ld_nodes (sy_db S)) ?nd" using ok i by (auto simp: system_ok_def)
  note eff = node_step_effect [OF st oki, unfolded step_effect_def]
  from eff have id: "?id nd' = ?id ?nd" by (simp add: lease_key_def)
  have dist: "nodes_distinct ((sy_nodes S)[i := nd'])"
    using ok i id by (simp add: system_ok_def nodes_distinct_def map_update) (metis list_update_id map_update nth_map)
  have "node_ok (sy_clock S) (sy_time S) (ld_nodes db') (sy_nodes S ! j)" if j: "j < length (sy_nodes S)" "j \<noteq> i" for j
  proof (rule node_ok_foreign)
    show "?id (sy_nodes S ! j) \<noteq> ?id ?nd"
      using ok i j by (auto simp: system_ok_def nodes_distinct_def distinct_conv_nth)
    show "node_ok (sy_clock S) (sy_time S) (ld_nodes (sy_db S)) (sy_nodes S ! j)" using ok j by (auto simp: system_ok_def)
  qed (use eff in blast)
  then have all: "node_ok (sy_clock S) (sy_time S) (ld_nodes db') nd" if "nd \<in> set ((sy_nodes S)[i := nd'])" for nd
    using that eff i by (auto simp: in_set_conv_nth nth_list_update split: if_splits)
  have "exclusive (sy_time S) ((sy_nodes S)[i := nd'])" if "single_node (sy_db S)"
    using ok eff that by (intro exclusive_update [OF _ i]) (auto simp: system_ok_def)
  moreover have "single_node db' = single_node (sy_db S)" using eff by (simp add: single_node_def)
  ultimately show ?thesis using dist all by (simp add: system_ok_def)
qed

lemma reachable_ok:
  assumes "reachable (start_system D d) S"
  shows "system_ok S"
  using assms
proof (induction rule: reachable.induct)
  case reach_init
  show ?case by (simp add: system_ok_def start_system_def nodes_distinct_def exclusive_def)
next
  case (reach_step S T)
  from reach_step.hyps(2) reach_step.IH show ?case
    by (induction rule: sys_step.induct) (auto intro: system_ok_tick system_ok_join system_ok_node)
qed

lemma reachable_deployment:
  assumes "reachable (start_system D d) S"
  shows "ld_deployment (sy_db S) = Some d"
  using assms
proof (induction rule: reachable.induct)
  case reach_init
  show ?case by (simp add: start_system_def)
next
  case (reach_step S T)
  have ok: "system_ok S" using reach_step.hyps(1) by (rule reachable_ok)
  from reach_step.hyps(2) ok reach_step.IH show ?case
  proof (induction rule: sys_step.induct)
    case (ss_node i S db' nd')
    then have "node_ok (sy_clock S) (sy_time S) (ld_nodes (sy_db S)) (sy_nodes S ! i)" by (auto simp: system_ok_def)
    with node_step_effect [OF ss_node.hyps(2)] ss_node.prems show ?case by (simp add: step_effect_def)
  qed simp_all
qed

text \<open>The authority check a node would pass now, with a working clock. A node whose membership row is
  being deleted by its own \<open>release\<close> no longer counts: it drains all work before and fences itself
  right after.\<close>

definition authorised :: "system \<Rightarrow> nat \<Rightarrow> bool" where
  "authorised S i \<longleftrightarrow> i < length (sy_nodes S) \<and> (let nd = sy_nodes S ! i in
     \<not> nd_released nd \<and> nd_boot nd \<le> sy_time S
     \<and> fst (lease_check (Ok (sy_time S - nd_boot nd)) (nd_lease nd)) = Ok ())"

lemma authorised_limit:
  assumes "system_ok S" and "authorised S i"
  shows "sy_time S < limit (sy_nodes S ! i)"
proof -
  let ?nd = "sy_nodes S ! i"
  from assms have i: "i < length (sy_nodes S)" and live: "\<not> nd_released ?nd" "nd_boot ?nd \<le> sy_time S"
    and chk: "fst (lease_check (Ok (sy_time S - nd_boot ?nd)) (nd_lease ?nd)) = Ok ()"
    by (auto simp: authorised_def Let_def)
  have "nl_hard_deadline_ns (nd_lease ?nd) \<le> U64_MAX" using assms(1) i by (auto simp: system_ok_def node_ok_def)
  moreover from chk have "\<not> nl_fenced (nd_lease ?nd)" "nl_hard_deadline_ns (nd_lease ?nd) \<noteq> 0"
    "duration_ns (sy_time S - nd_boot ?nd) < nl_hard_deadline_ns (nd_lease ?nd)"
    by (auto simp: lease_check_def read_clock_def boot_now_def split: if_splits option.splits)
  ultimately have "sy_time S - nd_boot ?nd < nl_hard_deadline_ns (nd_lease ?nd)" by (auto intro: duration_ns_less)
  with live \<open>\<not> nl_fenced (nd_lease ?nd)\<close> \<open>nl_hard_deadline_ns (nd_lease ?nd) \<noteq> 0\<close> show ?thesis
    by (auto simp: limit_def Let_def)
qed

section \<open>Properties\<close>

lemma authorised_member:
  assumes "reachable (start_system D d) S" and "authorised S i"
  shows "\<exists>r \<in> set (ld_nodes (sy_db S)). nr_incarnation_id r = nl_incarnation_id (nd_lease (sy_nodes S ! i))
    \<and> sy_clock S (sy_time S) < nr_lease_until r"
proof -
  have ok: "system_ok S" using assms(1) by (rule reachable_ok)
  then have "node_ok (sy_clock S) (sy_time S) (ld_nodes (sy_db S)) (sy_nodes S ! i)" using assms(2) by (auto simp: system_ok_def authorised_def)
  then show ?thesis by (rule limit_row) (rule authorised_limit [OF ok assms(2)])
qed

text \<open>C2. In a single-node deployment at most one server incarnation is authorised at any instant, under every
  interleaving of registrations, delayed or unacknowledged renewals, drains, releases, failing clock readings and
  restarts. Boot clocks count real time from any origin; the clock of the database may show any time and be adjusted, as
  long as in no period shorter than a lease it gains more on real time than the safety margin of a node that joins. A
  node counts as authorised while its lease check passes and it has not sent the deletion of its own membership row, the
  last thing a server does before it fences itself.\<close>

theorem single_node_exclusive:
  assumes "reachable (start_system D d) S" and "dp_profile d = ''single_node''"
  shows "card {i. authorised S i} \<le> 1"
proof -
  have ok: "system_ok S" using assms(1) by (rule reachable_ok)
  have "single_node (sy_db S)" using reachable_deployment [OF assms(1)] assms(2) by (simp add: single_node_def)
  with ok have ex: "exclusive (sy_time S) (sy_nodes S)" by (simp add: system_ok_def)
  have "i = j" if "authorised S i" "authorised S j" for i j
  proof (rule ccontr)
    assume "i \<noteq> j"
    moreover from that have "i < length (sy_nodes S)" "j < length (sy_nodes S)" by (simp_all add: authorised_def)
    ultimately have "limit (sy_nodes S ! i) \<le> sy_time S \<or> limit (sy_nodes S ! j) \<le> sy_time S"
      using ex by (simp add: exclusive_def)
    with authorised_limit [OF ok that(1)] authorised_limit [OF ok that(2)] show False by simp
  qed
  then have "{i. authorised S i} = {} \<or> (\<exists>i. {i. authorised S i} = {i})" by blast
  then show ?thesis by auto
qed

definition sample_deployment :: deployment_row where
  "sample_deployment = \<lparr>dp_id = 1, dp_config_epoch = 1, dp_server_build_id = ''b1'', dp_relay_protocol_version = 1,
     dp_profile = ''single_node'', dp_config_proof = None\<rparr>"

definition sample_lease :: node_lease where
  "sample_lease = \<lparr>nl_incarnation_id = 7, nl_config_epoch = 1, nl_display_name = None, nl_profile = ''single_node'',
     nl_config_proof = None, nl_internal_wss_url = None, nl_build_id = ''b1'', nl_ttl = 30 * NS, nl_safety_margin = 5 * NS,
     nl_clock_last = None, nl_hard_deadline_ns = 0, nl_fenced = False, nl_fence_token_cancelled = False,
     nl_draining = False, nl_dependency_ready = True\<rparr>"

definition sample_system :: system where
  "sample_system = \<lparr>sy_time = 100, sy_clock = id,
     sy_db = \<lparr>ld_deployment = Some sample_deployment,
       ld_nodes = [\<lparr>nr_incarnation_id = 7, nr_display_name = None, nr_state = NodeServing, nr_config_epoch = 1,
         nr_server_build_id = ''b1'', nr_internal_wss_url = None, nr_lease_until = 100 + 30 * NS\<rparr>],
       ld_audit = [(1, ''server_node'', ''register'')]\<rparr>,
     sy_nodes = [\<lparr>nd_lease = sample_lease\<lparr>nl_clock_last := Some 90, nl_hard_deadline_ns := 90 + 25 * NS\<rparr>, nd_boot = 10,
       nd_phase = Idle, nd_released = False\<rparr>]\<rparr>"

lemma sample_reachable: "reachable (start_system id sample_deployment) sample_system" "authorised sample_system 0"
proof -
  let ?n = "sample_lease\<lparr>nl_clock_last := Some 90\<rparr>"
  let ?row = "\<lparr>nr_incarnation_id = 7, nr_display_name = None, nr_state = NodeServing, nr_config_epoch = 1,
    nr_server_build_id = ''b1'', nr_internal_wss_url = None, nr_lease_until = 100 + 30 * NS\<rparr>"
  let ?db = "\<lparr>ld_deployment = Some sample_deployment, ld_nodes = [?row], ld_audit = [(1, ''server_node'', ''register'')]\<rparr>"
  let ?S1 = "(start_system id sample_deployment)\<lparr>sy_time := 100\<rparr>"
  let ?nd = "\<lparr>nd_lease = ?n, nd_boot = 10, nd_phase = Registering 90, nd_released = False\<rparr>"
  let ?S2 = "?S1\<lparr>sy_nodes := sy_nodes ?S1 @ [?nd]\<rparr>"
  let ?nd3 = "?nd\<lparr>nd_phase := Registered 90\<rparr>"
  let ?S3 = "?S2\<lparr>sy_db := ?db, sy_nodes := (sy_nodes ?S2)[0 := ?nd3]\<rparr>"
  let ?n4 = "?n\<lparr>nl_hard_deadline_ns := 90 + 25 * NS\<rparr>"
  let ?nd4 = "?nd3\<lparr>nd_lease := ?n4, nd_phase := Idle\<rparr>"
  let ?S4 = "?S3\<lparr>sy_db := sy_db ?S3, sy_nodes := (sy_nodes ?S3)[0 := ?nd4]\<rparr>"
  have hon: "honest 100 10 (Ok 90)" by (simp add: honest_def)
  have 1: "reachable (start_system id sample_deployment) ?S1"
    by (rule reach_step [OF reach_init ss_tick]) (simp add: start_system_def)
  have "sys_step ?S1 ?S2"
    by (rule ss_join [where n = sample_lease and rd = "Ok 90"])
       (simp_all add: start_system_def sample_lease_def honest_def read_clock_def boot_now_def clock_within_def)
  with 1 have 2: "reachable (start_system id sample_deployment) ?S2" by (rule reach_step)
  have "register_database TxCommit 100 ?n (sy_db ?S2) = (Ok (), ?db)"
    by (simp add: register_database_def run_tx_def register_body_def validate_deployment_def start_system_def
        sample_deployment_def sample_lease_def ttl_seconds_def append_audit_def)
  then have "node_step id 100 (sy_db ?S2) ?nd ?db ?nd3"
    using ns_register_db [of ?nd 90 TxCommit id 100 "sy_db ?S2" "Ok ()" ?db] by simp
  then have "sys_step ?S2 ?S3" by (intro ss_node) (simp_all add: start_system_def)
  with 2 have 3: "reachable (start_system id sample_deployment) ?S3" by (rule reach_step)
  have "install_deadline 90 (Ok 90) ?n = (Ok (), ?n4)"
    by (simp add: install_deadline_def sample_lease_def read_clock_def boot_now_def duration_ns_def Let_def)
  then have "node_step id 100 ?db ?nd3 ?db ?nd4"
    using ns_register_install [of ?nd3 90 100 "Ok 90" "Ok ()" ?n4 id ?db] hon by simp
  then have "sys_step ?S3 ?S4"
    using ss_node [of 0 ?S3 ?db ?nd4] by (simp add: start_system_def)
  with 3 have "reachable (start_system id sample_deployment) ?S4" by (rule reach_step)
  moreover have "?S4 = sample_system" by (simp add: sample_system_def start_system_def)
  ultimately show "reachable (start_system id sample_deployment) sample_system" by simp
  show "authorised sample_system 0"
    by (simp add: authorised_def Let_def sample_system_def lease_check_def sample_lease_def read_clock_def boot_now_def duration_ns_def)
qed

theorem single_node_exclusive_witness:
  "\<exists>S. reachable (start_system id sample_deployment) S \<and> authorised S 0 \<and> card {i. authorised S i} \<le> 1"
proof -
  obtain S where S: "reachable (start_system id sample_deployment) S" "authorised S 0" using sample_reachable by blast
  from single_node_exclusive [OF S(1)] S show ?thesis by (auto simp: sample_deployment_def)
qed

text \<open>Local authority always ends before the lease recorded in the database: whenever a node is authorised, its
  membership row exists and is valid by the clock of the database.\<close>

lemma authority_within_database_lease:
  assumes "reachable (start_system D d) S" and "authorised S i"
  shows "\<exists>r \<in> set (ld_nodes (sy_db S)). nr_incarnation_id r = nl_incarnation_id (nd_lease (sy_nodes S ! i))
    \<and> sy_clock S (sy_time S) < nr_lease_until r"
  using assms by (rule authorised_member)

theorem authority_within_database_lease_witness:
  "\<exists>S. reachable (start_system id sample_deployment) S \<and> (\<exists>r \<in> set (ld_nodes (sy_db S)). sy_clock S (sy_time S) < nr_lease_until r)"
proof -
  obtain S where S: "reachable (start_system id sample_deployment) S" "authorised S 0" using sample_reachable by blast
  from authority_within_database_lease [OF S] have "\<exists>r \<in> set (ld_nodes (sy_db S)). sy_clock S (sy_time S) < nr_lease_until r" by blast
  with S show ?thesis by blast
qed

text \<open>Fencing is irreversible: no operation of the node ever clears it, and a fenced node fails every
  later authority check whatever its clock reads.\<close>

lemma fence_is_irreversible:
  assumes "node_step D \<tau> db nd db' nd'" and "nl_fenced (nd_lease nd)"
  shows "nl_fenced (nd_lease nd') \<and> lease_check rd (nd_lease nd') = (Err Lease_Fenced, nd_lease nd')"
proof -
  have chk: "nl_fenced (snd (lease_check rd n))" if "nl_fenced n" for rd n
    using lease_check_frame [OF surjective_pairing, of rd n] that by blast
  have "nl_fenced (nd_lease nd')"
    using assms
  proof (cases rule: node_step.cases)
    case (ns_renew_start rd1 rd2 b n')
    with assms(2) show ?thesis by (auto simp: renewal_start_def lease_check_def)
  next
    case (ns_drain rd fate r n')
    with assms(2) show ?thesis by (auto simp: begin_drain_def lease_check_def)
  qed (auto simp: chk install_deadline_def renewal_finish_def renew_database_def fence_on_def lease_fence_def
      split: prod.splits sum.splits if_splits)
  then show ?thesis by (simp add: lease_check_def)
qed

theorem fence_is_irreversible_witness:
  "lease_check (Ok 5) (nd_lease (\<lparr>nd_lease = lease_fence sample_lease, nd_boot = 0, nd_phase = Idle, nd_released = False\<rparr>))
     = (Err Lease_Fenced, lease_fence sample_lease)"
proof -
  let ?nd = "\<lparr>nd_lease = lease_fence sample_lease, nd_boot = 0, nd_phase = Idle, nd_released = False\<rparr>"
  let ?db = "sy_db (start_system id sample_deployment)"
  have "node_step id 5 ?db ?nd ?db (?nd\<lparr>nd_lease := lease_fence (nd_lease ?nd)\<rparr>)" by (rule ns_fence)
  from fence_is_irreversible [OF this, of "Ok 5"] show ?thesis by (simp add: lease_fence_def)
qed

text \<open>The boot clock never accepts a reading below an earlier accepted one, and accepting one
  records it, so the sequence of times the server acts on is monotone.\<close>

lemma boot_clock_monotone:
  assumes "boot_now rd1 latest = (Ok t1, latest1)" and "boot_now rd2 latest1 = (Ok t2, latest2)"
  shows "t1 \<le> t2 \<and> latest2 = Some t2 \<and> (case latest of None \<Rightarrow> True | Some t0 \<Rightarrow> t0 \<le> t1)"
  using assms by (auto simp: boot_now_def split: sum.splits if_splits option.splits)

theorem boot_clock_monotone_witness:
  "boot_now (Ok 20) (Some 10) = (Ok 20, Some 20) \<and> (10::nat) \<le> 20"
proof -
  have "boot_now (Ok 20) (Some 10) = (Ok 20, Some 20)" "boot_now (Ok 20) (Some 20) = (Ok 20, Some 20)"
    by (simp_all add: boot_now_def)
  from boot_clock_monotone [OF this] this show ?thesis by simp
qed

end
