(* ===== verification/Relay_Db.thy ===== *)
theory Relay_Db
  imports Node_Lease Relay_Registry Contracts
begin

text \<open>
  The transactions that decide which Relay a machine trusts and which Server node owns it
  (\<open>relay/mod.rs\<close>: \<open>accept_token\<close>, \<open>activate\<close>, \<open>recover_expired_attempts\<close>, \<open>fail_attempt\<close>, \<open>claim_owner\<close>,
  \<open>release_owner\<close>; \<open>api/mod.rs\<close>: creation, renaming, enrolment tokens, rebinding, disabling and re-enrolling a
  machine). Every transaction locks the singleton deployment row first, so transactions are atomic
  steps over the tables; a table is the list of its rows, and the unique indexes of the schema are
  the conflicts an insert meets. \<open>te_*\<close> is what a transaction reads from its environment: the database
  clock, the node table, the clock readings of the lease checks, fresh random ids and whether an audit
  record written outside the transaction arrives.
\<close>

abbreviation (input) ENROLLMENT_ATTEMPT_SECONDS :: nat where "ENROLLMENT_ATTEMPT_SECONDS \<equiv> 120"
abbreviation (input) TOKEN_TTL_SECONDS :: nat where "TOKEN_TTL_SECONDS \<equiv> 900"
abbreviation (input) MAX_MACHINES :: nat where "MAX_MACHINES \<equiv> 1024"
abbreviation (input) ENROLLMENT_PREFIX :: bytes where "ENROLLMENT_PREFIX \<equiv> ''owlmux_enroll_v1_''"

section \<open>Tables\<close>

datatype lifecycle = LC_Pending | LC_Verifying | LC_Active | LC_Disabled
datatype enrollment_status = EN_Issued | EN_Consumed | EN_Cancelled
datatype attempt_status = AT_Verifying | AT_Activated | AT_Failed
datatype binding_status = BI_Active | BI_Revoked

record machine_row =
  mc_id :: uuid
  mc_credential_id :: uuid
  mc_alias :: bytes
  mc_lifecycle :: lifecycle
  mc_route_revision :: int
  mc_credential_revision :: int
  mc_target_account :: bytes
  mc_tmux_path :: bytes
  mc_tmux_socket :: bytes
  mc_host_identity :: "bytes option"

record enrollment_row =
  en_id :: uuid
  en_machine_id :: uuid
  en_token_digest :: bytes
  en_expires_at :: nat
  en_status :: enrollment_status

record attempt_row =
  at_id :: uuid
  at_machine_id :: uuid
  at_enrollment_id :: uuid
  at_executing :: uuid
  at_route_revision :: int
  at_status :: attempt_status
  at_deadline :: nat

record binding_row =
  bi_id :: uuid
  bi_machine_id :: uuid
  bi_relay_id :: uuid
  bi_public_key :: bytes
  bi_route_revision :: int
  bi_status :: binding_status

record owner_row =
  ow_machine_id :: uuid
  ow_connection_epoch :: int
  ow_owner :: "uuid option"
  ow_connection :: "uuid option"
  ow_route_revision :: int

datatype credential_status = CR_Active | CR_Retired

record credential_row =
  cr_id :: uuid
  cr_name :: bytes
  cr_public_key :: bytes
  cr_fingerprint :: bytes
  cr_envelope :: bytes
  cr_status :: credential_status

record audit_event =
  ae_kind :: bytes
  ae_machine :: "uuid option"
  ae_credential :: "uuid option"
  ae_action :: bytes
  ae_outcome :: bytes

record relay_tables =
  rt_machines :: "machine_row list"
  rt_enrollments :: "enrollment_row list"
  rt_attempts :: "attempt_row list"
  rt_bindings :: "binding_row list"
  rt_owners :: "owner_row list"
  rt_credentials :: "credential_row list"
  rt_default_credential :: uuid
  rt_audit :: "audit_event list"

definition update_where :: "('r \<Rightarrow> bool) \<Rightarrow> ('r \<Rightarrow> 'r) \<Rightarrow> 'r list \<Rightarrow> 'r list" where
  "update_where p f rows = map (\<lambda>r. if p r then f r else r) rows"

definition count_where :: "('r \<Rightarrow> bool) \<Rightarrow> 'r list \<Rightarrow> nat" where
  "count_where p rows = length (filter p rows)"

definition credential_active :: "uuid \<Rightarrow> relay_tables \<Rightarrow> bool" where
  "credential_active i t \<longleftrightarrow> list_ex (\<lambda>c. cr_id c = i \<and> cr_status c = CR_Active) (rt_credentials t)"

definition machine_of :: "uuid \<Rightarrow> relay_tables \<Rightarrow> machine_row option" where
  "machine_of i t = List.find (\<lambda>m. mc_id m = i) (rt_machines t)"

definition owner_of :: "uuid \<Rightarrow> relay_tables \<Rightarrow> owner_row option" where
  "owner_of i t = List.find (\<lambda>o'. ow_machine_id o' = i) (rt_owners t)"

section \<open>Transactions\<close>

record tx_env =
  te_deployment_id :: uuid
  te_now :: nat
  te_nodes :: lease_db
  te_clock :: reading
  te_clock_again :: reading
  te_fresh :: uuid
  te_audited :: bool

record relay_tx =
  tx_lease :: node_lease
  tx_tables :: relay_tables

datatype db_fate = DB_Commit | DB_Refused | DB_AckLost | DB_RolledBack

type_synonym ('e, 'a) tx = "(relay_tx, 'e, 'a) sr"

text \<open>A transaction that fails leaves the tables as they were. A commit whose acknowledgement is lost may
  have taken effect or not.\<close>

definition run_transaction :: "'e \<Rightarrow> 'e \<Rightarrow> db_fate \<Rightarrow> ('e, 'a) tx \<Rightarrow> ('e, 'a) tx" where
  "run_transaction refused ambiguous fate body s =
     (if fate = DB_Refused then (Err refused, s)
      else (case body s of
          (Inl e, s') \<Rightarrow> (Err e, s'\<lparr>tx_tables := tx_tables s\<rparr>)
        | (Inr a, s') \<Rightarrow> (case fate of
              DB_Commit \<Rightarrow> (Ok a, s')
            | DB_AckLost \<Rightarrow> (Err ambiguous, s')
            | _ \<Rightarrow> (Err ambiguous, s'\<lparr>tx_tables := tx_tables s\<rparr>))))"

definition tx_read :: "(relay_tables \<Rightarrow> 'a) \<Rightarrow> ('e, 'a) tx" where
  "tx_read f = sr_gets (\<lambda>s. f (tx_tables s))"

definition tx_write :: "(relay_tables \<Rightarrow> relay_tables) \<Rightarrow> ('e, unit) tx" where
  "tx_write f = sr_modify (\<lambda>s. s\<lparr>tx_tables := f (tx_tables s)\<rparr>)"

definition tx_require :: "bool \<Rightarrow> 'e \<Rightarrow> ('e, unit) tx" where
  "tx_require b e = (if b then sr_return () else sr_throw e)"

definition tx_check :: "reading \<Rightarrow> 'e \<Rightarrow> ('e, unit) tx" where
  "tx_check rd e s = (case lease_check rd (tx_lease s) of (r, n) \<Rightarrow>
     ((if is_ok r then Ok () else Err e), s\<lparr>tx_lease := n\<rparr>))"

definition audit :: "bytes \<Rightarrow> uuid option \<Rightarrow> uuid option \<Rightarrow> bytes \<Rightarrow> bytes \<Rightarrow> audit_event" where
  "audit kind machine_id credential_id action outcome = \<lparr>ae_kind = kind, ae_machine = machine_id, ae_credential = credential_id,
     ae_action = action, ae_outcome = outcome\<rparr>"

definition tx_audit :: "bytes \<Rightarrow> uuid option \<Rightarrow> uuid option \<Rightarrow> bytes \<Rightarrow> ('e, unit) tx" where
  "tx_audit kind machine_id credential_id action =
     tx_write (\<lambda>t. t\<lparr>rt_audit := rt_audit t @ [audit kind machine_id credential_id action ''success'']\<rparr>)"

definition deployment_matches :: "tx_env \<Rightarrow> node_lease \<Rightarrow> bool" where
  "deployment_matches V n = (case ld_deployment (te_nodes V) of
     None \<Rightarrow> False
   | Some d \<Rightarrow> dp_id d = te_deployment_id V \<and> dp_config_epoch d = nl_config_epoch n \<and> dp_server_build_id d = nl_build_id n
       \<and> dp_relay_protocol_version d = 1 \<and> dp_profile d = nl_profile n \<and> dp_config_proof d = nl_config_proof n)"

definition node_row_current :: "tx_env \<Rightarrow> node_lease \<Rightarrow> node_row \<Rightarrow> bool" where
  "node_row_current V n r \<longleftrightarrow> nr_config_epoch r = nl_config_epoch n \<and> nr_server_build_id r = nl_build_id n \<and> te_now V < nr_lease_until r"

definition lock_deployment :: "tx_env \<Rightarrow> (relay_error, unit) tx" where
  "lock_deployment V = sr_bind (sr_gets tx_lease) (\<lambda>n. tx_require (deployment_matches V n) R_Fenced)"

definition validate_node :: "tx_env \<Rightarrow> (relay_error, unit) tx" where
  "validate_node V = sr_bind (tx_check (te_clock V) R_Fenced) (\<lambda>_. sr_bind (sr_gets tx_lease) (\<lambda>n.
     tx_require (list_ex (\<lambda>r. nr_incarnation_id r = nl_incarnation_id n \<and> nr_state r = NodeServing \<and> node_row_current V n r)
       (ld_nodes (te_nodes V))) R_Fenced))"

definition validate_releasing_node :: "tx_env \<Rightarrow> (relay_error, unit) tx" where
  "validate_releasing_node V = sr_bind (tx_check (te_clock V) R_Fenced) (\<lambda>_. sr_bind (sr_gets tx_lease) (\<lambda>n.
     tx_require (list_ex (\<lambda>r. nr_incarnation_id r = nl_incarnation_id n \<and> node_row_current V n r)
       (ld_nodes (te_nodes V))) R_Fenced))"

section \<open>Enrolment\<close>

record accepted_enrollment =
  ac_deployment_id :: uuid
  ac_machine_id :: uuid
  ac_attempt_id :: uuid
  ac_route_revision :: int
  ac_target_account :: bytes
  ac_host_identity :: "bytes option"

definition token_digest :: "(bytes \<Rightarrow> bytes) \<Rightarrow> bytes \<Rightarrow> bytes" where
  "token_digest sha256 token = sha256 (''owlmux:relay-enrollment-token:v1'' @ [CHR 0x00] @ token)"

definition issued_enrollment :: "nat \<Rightarrow> bytes \<Rightarrow> relay_tables \<Rightarrow> (enrollment_row \<times> machine_row) option" where
  "issued_enrollment now digest t =
     (case List.find (\<lambda>e. en_token_digest e = digest \<and> en_status e = EN_Issued \<and> now < en_expires_at e) (rt_enrollments t) of
        None \<Rightarrow> None
      | Some e \<Rightarrow> (case machine_of (en_machine_id e) t of
            None \<Rightarrow> None
          | Some m \<Rightarrow> if mc_lifecycle m = LC_Pending then Some (e, m) else None))"

definition accept_body :: "tx_env \<Rightarrow> bytes \<Rightarrow> (relay_error, accepted_enrollment) tx" where
  "accept_body V digest =
     sr_bind (lock_deployment V) (\<lambda>_.
     sr_bind (tx_read (issued_enrollment (te_now V) digest)) (\<lambda>row. case row of
       None \<Rightarrow> sr_throw R_InvalidToken
     | Some (e, m) \<Rightarrow>
         sr_bind (validate_node V) (\<lambda>_.
         sr_bind (tx_write (\<lambda>t. t\<lparr>rt_enrollments := update_where (\<lambda>r. en_id r = en_id e) (\<lambda>r. r\<lparr>en_status := EN_Consumed\<rparr>) (rt_enrollments t)\<rparr>)) (\<lambda>_.
         sr_bind (tx_write (\<lambda>t. t\<lparr>rt_machines := update_where (\<lambda>r. mc_id r = mc_id m) (\<lambda>r. r\<lparr>mc_lifecycle := LC_Verifying\<rparr>) (rt_machines t)\<rparr>)) (\<lambda>_.
         sr_bind (sr_gets id) (\<lambda>s.
         sr_bind (tx_require (\<not> list_ex (\<lambda>a. at_id a = te_fresh V \<or> at_enrollment_id a = en_id e
             \<or> (at_machine_id a = mc_id m \<and> at_status a = AT_Verifying)) (rt_attempts (tx_tables s))) R_Unavailable) (\<lambda>_.
         sr_bind (tx_write (\<lambda>t. t\<lparr>rt_attempts := rt_attempts t @ [\<lparr>at_id = te_fresh V, at_machine_id = mc_id m,
             at_enrollment_id = en_id e, at_executing = nl_incarnation_id (tx_lease s), at_route_revision = mc_route_revision m,
             at_status = AT_Verifying, at_deadline = te_now V + ENROLLMENT_ATTEMPT_SECONDS * NS\<rparr>]\<rparr>)) (\<lambda>_.
         sr_bind (tx_audit ''enrollment'' (Some (mc_id m)) None ''accept_token'') (\<lambda>_.
         sr_return \<lparr>ac_deployment_id = te_deployment_id V, ac_machine_id = mc_id m, ac_attempt_id = te_fresh V,
           ac_route_revision = mc_route_revision m, ac_target_account = mc_target_account m,
           ac_host_identity = mc_host_identity m\<rparr>)))))))))"

definition accept_token :: "db_fate \<Rightarrow> (bytes \<Rightarrow> bytes) \<Rightarrow> tx_env \<Rightarrow> bytes \<Rightarrow> (relay_error, accepted_enrollment) tx" where
  "accept_token fate sha256 V token =
     (if \<not> starts_with ENROLLMENT_PREFIX token \<or> length token > 80 then sr_throw R_InvalidToken
      else run_transaction R_Unavailable R_Ambiguous fate (accept_body V (token_digest sha256 token)))"

definition attempt_valid :: "tx_env \<Rightarrow> accepted_enrollment \<Rightarrow> node_lease \<Rightarrow> relay_tables \<Rightarrow> bool" where
  "attempt_valid V ac n t \<longleftrightarrow> list_ex (\<lambda>a. at_id a = ac_attempt_id ac \<and> at_machine_id a = ac_machine_id ac
     \<and> at_status a = AT_Verifying \<and> te_now V < at_deadline a \<and> at_executing a = nl_incarnation_id n
     \<and> (case machine_of (at_machine_id a) t of None \<Rightarrow> False
        | Some m \<Rightarrow> at_route_revision a = mc_route_revision m \<and> mc_lifecycle m = LC_Verifying
            \<and> credential_active (mc_credential_id m) t)) (rt_attempts t)"

definition binding_conflict :: "uuid \<Rightarrow> uuid \<Rightarrow> uuid \<Rightarrow> bytes \<Rightarrow> relay_tables \<Rightarrow> bool" where
  "binding_conflict i machine_id relay_id public_key t \<longleftrightarrow> list_ex (\<lambda>b. bi_id b = i \<or> bi_status b = BI_Active
     \<and> (bi_machine_id b = machine_id \<or> bi_relay_id b = relay_id \<or> bi_public_key b = public_key)) (rt_bindings t)"

definition activate_body ::
  "(bytes \<Rightarrow> bool) \<Rightarrow> tx_env \<Rightarrow> accepted_enrollment \<Rightarrow> uuid \<Rightarrow> bytes \<Rightarrow> bytes \<Rightarrow> (relay_error, unit) tx" where
  "activate_body is_ed25519_host_identity V ac relay_id public_key host_identity =
     sr_bind (lock_deployment V) (\<lambda>_.
     sr_bind (validate_node V) (\<lambda>_.
     sr_bind (sr_gets id) (\<lambda>s.
     sr_bind (tx_require (attempt_valid V ac (tx_lease s) (tx_tables s) \<and> is_ed25519_host_identity host_identity) R_InvalidState) (\<lambda>_.
     let pins = (\<lambda>r. mc_id r = ac_machine_id ac \<and> mc_lifecycle r = LC_Verifying \<and> mc_route_revision r = ac_route_revision ac
           \<and> (mc_host_identity r = None \<or> mc_host_identity r = Some host_identity)) in
     sr_bind (tx_require (count_where pins (rt_machines (tx_tables s)) = 1) R_InvalidState) (\<lambda>_.
     sr_bind (tx_write (\<lambda>t. t\<lparr>rt_machines := update_where pins (\<lambda>r. r\<lparr>mc_host_identity := Some host_identity\<rparr>) (rt_machines t)\<rparr>)) (\<lambda>_.
     sr_bind (if ac_host_identity ac = None then tx_audit ''machine'' (Some (ac_machine_id ac)) None ''pin_ssh_host_key'' else sr_return ()) (\<lambda>_.
     sr_bind (tx_require (\<not> binding_conflict (te_fresh V) (ac_machine_id ac) relay_id public_key (tx_tables s)) R_Conflict) (\<lambda>_.
     sr_bind (tx_write (\<lambda>t. t\<lparr>rt_bindings := rt_bindings t @ [\<lparr>bi_id = te_fresh V, bi_machine_id = ac_machine_id ac, bi_relay_id = relay_id,
         bi_public_key = public_key, bi_route_revision = ac_route_revision ac, bi_status = BI_Active\<rparr>]\<rparr>)) (\<lambda>_.
     sr_bind (tx_write (\<lambda>t. t\<lparr>rt_attempts := update_where (\<lambda>a. at_id a = ac_attempt_id ac) (\<lambda>a. a\<lparr>at_status := AT_Activated\<rparr>) (rt_attempts t)\<rparr>)) (\<lambda>_.
     tx_audit ''relay_binding'' (Some (ac_machine_id ac)) None ''activate''))))))))))"

definition activate ::
  "db_fate \<Rightarrow> (bytes \<Rightarrow> bool) \<Rightarrow> tx_env \<Rightarrow> accepted_enrollment \<Rightarrow> uuid \<Rightarrow> bytes \<Rightarrow> bytes \<Rightarrow> (relay_error, unit) tx" where
  "activate fate is_host V ac relay_id public_key host_identity =
     run_transaction R_Unavailable R_Ambiguous fate (activate_body is_host V ac relay_id public_key host_identity)"

text \<open>Marking an attempt as failed, and returning its machine to \<open>pending\<close> if the caller's condition on the
  machine holds.\<close>

definition fail_one :: "uuid \<Rightarrow> uuid \<Rightarrow> int \<Rightarrow> bool \<Rightarrow> relay_tables \<Rightarrow> relay_tables" where
  "fail_one attempt_id machine_id route_revision unbound t =
     (let live = (\<lambda>a. at_id a = attempt_id \<and> at_status a = AT_Verifying);
          t1 = t\<lparr>rt_attempts := update_where live (\<lambda>a. a\<lparr>at_status := AT_Failed\<rparr>) (rt_attempts t)\<rparr>
      in if count_where live (rt_attempts t) = 1 \<and> unbound
         then t1\<lparr>rt_machines := update_where (\<lambda>m. mc_id m = machine_id \<and> mc_lifecycle m = LC_Verifying \<and> mc_route_revision m = route_revision)
                  (\<lambda>m. m\<lparr>mc_lifecycle := LC_Pending\<rparr>) (rt_machines t1)\<rparr>
         else t1)"

definition bound :: "uuid \<Rightarrow> int \<Rightarrow> relay_tables \<Rightarrow> bool" where
  "bound machine_id route_revision t \<longleftrightarrow>
     list_ex (\<lambda>b. bi_machine_id b = machine_id \<and> bi_route_revision b = route_revision \<and> bi_status b = BI_Active) (rt_bindings t)"

definition recover_one :: "attempt_row \<Rightarrow> relay_tables \<Rightarrow> relay_tables" where
  "recover_one a t =
     (let live = count_where (\<lambda>x. at_id x = at_id a \<and> at_status x = AT_Verifying) (rt_attempts t);
          t1 = fail_one (at_id a) (at_machine_id a) (at_route_revision a) (\<not> bound (at_machine_id a) (at_route_revision a) t) t
      in if live = 1 then t1\<lparr>rt_audit := rt_audit t1 @ [audit ''enrollment'' (Some (at_machine_id a)) None ''recover_expired_attempt'' ''success'']\<rparr> else t1)"

definition expired_attempts :: "nat \<Rightarrow> uuid option \<Rightarrow> relay_tables \<Rightarrow> attempt_row list" where
  "expired_attempts now machine_id t =
     take 128 (sort_key at_deadline (filter (\<lambda>a. (case machine_id of None \<Rightarrow> True | Some i \<Rightarrow> at_machine_id a = i)
       \<and> at_status a = AT_Verifying \<and> at_deadline a \<le> now) (rt_attempts t)))"

definition recover_body :: "tx_env \<Rightarrow> uuid option \<Rightarrow> (relay_error, unit) tx" where
  "recover_body V machine_id =
     sr_bind (lock_deployment V) (\<lambda>_. sr_bind (validate_node V) (\<lambda>_.
     sr_bind (tx_read (expired_attempts (te_now V) machine_id)) (\<lambda>rows.
     tx_write (fold recover_one rows))))"

definition recover_expired_attempts :: "db_fate \<Rightarrow> tx_env \<Rightarrow> uuid option \<Rightarrow> (relay_error, unit) tx" where
  "recover_expired_attempts fate V machine_id = run_transaction R_Unavailable R_Ambiguous fate (recover_body V machine_id)"

definition fail_attempt :: "db_fate \<Rightarrow> tx_env \<Rightarrow> accepted_enrollment \<Rightarrow> (relay_error, unit) tx" where
  "fail_attempt fate V ac = run_transaction R_Unavailable R_Ambiguous fate
     (sr_bind (lock_deployment V) (\<lambda>_. sr_bind (validate_node V) (\<lambda>_.
      tx_write (fail_one (ac_attempt_id ac) (ac_machine_id ac) (ac_route_revision ac) True))))"

section \<open>Ownership\<close>

definition binding_key :: "uuid \<Rightarrow> uuid \<Rightarrow> int \<Rightarrow> relay_tables \<Rightarrow> relay_error + bytes" where
  "binding_key machine_id relay_id route_revision t =
     (case List.find (\<lambda>b. bi_machine_id b = machine_id \<and> bi_relay_id b = relay_id \<and> bi_route_revision b = route_revision
          \<and> bi_status b = BI_Active) (rt_bindings t) of
        None \<Rightarrow> Err R_InvalidState
      | Some b \<Rightarrow> if length (bi_public_key b) = 32 then Ok (bi_public_key b) else Err R_InvalidState)"

definition owner_leased :: "nat \<Rightarrow> lease_db \<Rightarrow> owner_row \<Rightarrow> bool" where
  "owner_leased now db ow \<longleftrightarrow> list_ex (\<lambda>r. Some (nr_incarnation_id r) = ow_owner ow \<and> now < nr_lease_until r) (ld_nodes db)"

definition claimable :: "uuid \<Rightarrow> int \<Rightarrow> relay_tables \<Rightarrow> owner_row option" where
  "claimable machine_id route_revision t =
     (case (machine_of machine_id t, owner_of machine_id t) of
        (Some m, Some ow) \<Rightarrow>
          if ow_route_revision ow = route_revision \<and> mc_lifecycle m \<in> {LC_Verifying, LC_Active} \<and> mc_host_identity m \<noteq> None
             \<and> mc_route_revision m = route_revision \<and> bound machine_id route_revision t
          then Some ow else None
      | _ \<Rightarrow> None)"

definition claim_body :: "tx_env \<Rightarrow> uuid \<Rightarrow> uuid \<Rightarrow> int \<Rightarrow> (relay_error, int) tx" where
  "claim_body V machine_id connection_id route_revision =
     sr_bind (lock_deployment V) (\<lambda>_.
     sr_bind (validate_node V) (\<lambda>_.
     sr_bind (tx_read (claimable machine_id route_revision)) (\<lambda>row. case row of
       None \<Rightarrow> sr_throw R_InvalidState
     | Some ow \<Rightarrow>
         sr_bind (tx_require (\<not> owner_leased (te_now V) (te_nodes V) ow) R_OwnerConflict) (\<lambda>_.
         sr_bind (tx_require (ow_connection_epoch ow + 1 < 2 ^ 63) R_InvalidState) (\<lambda>_.
         sr_bind (sr_gets tx_lease) (\<lambda>n.
         sr_bind (tx_write (\<lambda>t. t\<lparr>rt_owners := update_where (\<lambda>r. ow_machine_id r = machine_id)
             (\<lambda>r. r\<lparr>ow_connection_epoch := ow_connection_epoch ow + 1, ow_owner := Some (nl_incarnation_id n),
                 ow_connection := Some connection_id\<rparr>) (rt_owners t)\<rparr>)) (\<lambda>_.
         sr_bind (tx_write (\<lambda>t. t\<lparr>rt_machines := update_where (\<lambda>m. mc_id m = machine_id \<and> mc_lifecycle m = LC_Verifying
               \<and> mc_route_revision m = route_revision) (\<lambda>m. m\<lparr>mc_lifecycle := LC_Active\<rparr>) (rt_machines t)\<rparr>)) (\<lambda>_.
         sr_bind (tx_audit ''machine_owner'' (Some machine_id) None ''claim'') (\<lambda>_.
         sr_return (ow_connection_epoch ow + 1)))))))))) "

text \<open>A claim whose commit is ambiguous fences the node and tries to leave an audit record of its own; a
  release that fails in any way fences the node.\<close>

definition claim_owner :: "db_fate \<Rightarrow> tx_env \<Rightarrow> uuid \<Rightarrow> uuid \<Rightarrow> int \<Rightarrow> (relay_error, int) tx" where
  "claim_owner fate V machine_id connection_id route_revision s =
     (case run_transaction R_Unavailable R_Ambiguous fate (claim_body V machine_id connection_id route_revision) s of
        (Inr e, s') \<Rightarrow> (Ok e, s')
      | (Inl err, s') \<Rightarrow> (Err err, if err = R_Ambiguous
           then s'\<lparr>tx_lease := lease_fence (tx_lease s'),
             tx_tables := (if te_audited V then (tx_tables s')\<lparr>rt_audit := rt_audit (tx_tables s')
               @ [audit ''machine_owner'' (Some machine_id) None ''claim_observation'' ''ambiguous'']\<rparr> else tx_tables s')\<rparr>
           else s'))"

definition owner_release_body :: "tx_env \<Rightarrow> uuid \<Rightarrow> uuid \<Rightarrow> int \<Rightarrow> (relay_error, unit) tx" where
  "owner_release_body V machine_id connection_id connection_epoch =
     sr_bind (lock_deployment V) (\<lambda>_.
     sr_bind (validate_releasing_node V) (\<lambda>_.
     sr_bind (sr_gets id) (\<lambda>s.
     let mine = (\<lambda>r. ow_machine_id r = machine_id \<and> ow_owner r = Some (nl_incarnation_id (tx_lease s))
           \<and> ow_connection r = Some connection_id \<and> ow_connection_epoch r = connection_epoch) in
     sr_bind (tx_require (count_where mine (rt_owners (tx_tables s)) = 1) R_Fenced) (\<lambda>_.
     sr_bind (tx_write (\<lambda>t. t\<lparr>rt_owners := update_where mine (\<lambda>r. r\<lparr>ow_owner := None, ow_connection := None\<rparr>) (rt_owners t)\<rparr>)) (\<lambda>_.
     tx_audit ''machine_owner'' (Some machine_id) None ''release'')))))"

definition release_owner :: "db_fate \<Rightarrow> tx_env \<Rightarrow> uuid \<Rightarrow> uuid \<Rightarrow> int \<Rightarrow> (relay_error, unit) tx" where
  "release_owner fate V machine_id connection_id connection_epoch s =
     (case run_transaction R_Unavailable R_Ambiguous fate (owner_release_body V machine_id connection_id connection_epoch) s of
        (Inr _, s') \<Rightarrow> (Ok (), s')
      | (Inl err, s') \<Rightarrow> (Err err, s'\<lparr>tx_lease := lease_fence (tx_lease s')\<rparr>))"

section \<open>Administration\<close>

datatype api_error = AP_Conflict bytes | AP_NotFound | AP_TemporarilyUnavailable | AP_OwnerUnreachable | AP_Ambiguous
  | AP_Internal | AP_BadRequest bytes | AP_Unauthenticated

definition is_ambiguous :: "api_error \<Rightarrow> bool" where
  "is_ambiguous e \<longleftrightarrow> e = AP_Ambiguous"

abbreviation api_transaction :: "db_fate \<Rightarrow> (api_error, 'a) tx \<Rightarrow> (api_error, 'a) tx" where
  "api_transaction \<equiv> run_transaction AP_TemporarilyUnavailable AP_Ambiguous"

definition lock_current_deployment :: "tx_env \<Rightarrow> (api_error, unit) tx" where
  "lock_current_deployment V =
     sr_bind (sr_gets tx_lease) (\<lambda>n.
     sr_bind (tx_require (deployment_matches V n) AP_TemporarilyUnavailable) (\<lambda>_.
     sr_bind (tx_check (te_clock V) AP_TemporarilyUnavailable) (\<lambda>_.
     sr_bind (tx_require (list_ex (\<lambda>r. nr_incarnation_id r = nl_incarnation_id n \<and> nr_state r = NodeServing \<and> node_row_current V n r)
       (ld_nodes (te_nodes V))) AP_TemporarilyUnavailable) (\<lambda>_.
     tx_check (te_clock_again V) AP_TemporarilyUnavailable))))"

definition insert_enrollment :: "tx_env \<Rightarrow> uuid \<Rightarrow> uuid \<Rightarrow> bytes \<Rightarrow> (api_error, unit) tx" where
  "insert_enrollment V fresh machine_id digest =
     sr_bind (tx_read rt_enrollments) (\<lambda>rows.
     sr_bind (tx_require (\<not> list_ex (\<lambda>e. en_id e = fresh \<or> en_token_digest e = digest
         \<or> (en_machine_id e = machine_id \<and> en_status e = EN_Issued)) rows) (AP_Conflict ''conflict'')) (\<lambda>_.
     tx_write (\<lambda>t. t\<lparr>rt_enrollments := rt_enrollments t @ [\<lparr>en_id = fresh, en_machine_id = machine_id, en_token_digest = digest,
       en_expires_at = te_now V + TOKEN_TTL_SECONDS * NS, en_status = EN_Issued\<rparr>]\<rparr>)))"

record create_machine_input =
  ci_alias :: bytes
  ci_target_account :: bytes
  ci_tmux_path :: bytes
  ci_tmux_socket_identity :: bytes
  ci_ssh_credential_id :: "uuid option"

definition validate_name :: "bytes \<Rightarrow> api_error + unit" where
  "validate_name name = (if name = [] \<or> length name > 64 \<or> str_trim name \<noteq> name \<or> chars_any char_is_control name
     then Err (AP_BadRequest ''invalid_name'') else Ok ())"

definition is_target_account :: "bytes \<Rightarrow> bool" where
  "is_target_account value = (case value of
     [] \<Rightarrow> False
   | first # rest \<Rightarrow> (is_ascii_alphabetic first \<or> first = CHR ''_'') \<and> length value \<le> 64
       \<and> list_all (\<lambda>b. is_ascii_alphabetic b \<or> is_ascii_digit b \<or> b = CHR ''_'' \<or> b = CHR ''.'' \<or> b = CHR ''-'') rest)"

definition validate_machine :: "create_machine_input \<Rightarrow> api_error + unit" where
  "validate_machine input =
     r_bind (validate_name (ci_alias input)) (\<lambda>_.
     if \<not> is_target_account (ci_target_account input) then Err (AP_BadRequest ''invalid_target_account'')
     else if \<not> starts_with ''/'' (ci_tmux_path input) \<or> length (ci_tmux_path input) > 256 \<or> chars_any char_is_control (ci_tmux_path input)
     then Err (AP_BadRequest ''invalid_tmux_path'')
     else if ci_tmux_socket_identity input = [] \<or> length (ci_tmux_socket_identity input) > 128
       \<or> chars_any char_is_control (ci_tmux_socket_identity input)
     then Err (AP_BadRequest ''invalid_tmux_socket'')
     else Ok ())"

text \<open>\<open>lower\<close> is the database's case folding of the unique alias index; \<open>token\<close> is the random id of the
  enrolment row.\<close>

definition create_body :: "(bytes \<Rightarrow> bytes) \<Rightarrow> tx_env \<Rightarrow> uuid \<Rightarrow> bytes \<Rightarrow> create_machine_input \<Rightarrow> (api_error, uuid) tx" where
  "create_body lower V token digest input =
     sr_bind (lock_current_deployment V) (\<lambda>_.
     sr_bind (tx_read id) (\<lambda>t.
     sr_bind (tx_require (length (rt_machines t) < MAX_MACHINES) (AP_Conflict ''machine_limit'')) (\<lambda>_.
     let credential_id = (case ci_ssh_credential_id input of Some i \<Rightarrow> i | None \<Rightarrow> rt_default_credential t) in
     sr_bind (tx_require (credential_active credential_id t) AP_NotFound) (\<lambda>_.
     sr_bind (tx_require (\<not> list_ex (\<lambda>m. mc_id m = te_fresh V \<or> lower (mc_alias m) = lower (ci_alias input)) (rt_machines t)
         \<and> \<not> list_ex (\<lambda>r. ow_machine_id r = te_fresh V) (rt_owners t)) (AP_Conflict ''conflict'')) (\<lambda>_.
     sr_bind (tx_write (\<lambda>t. t\<lparr>rt_machines := rt_machines t @ [\<lparr>mc_id = te_fresh V, mc_credential_id = credential_id, mc_alias = ci_alias input,
         mc_lifecycle = LC_Pending, mc_route_revision = 1, mc_credential_revision = 1, mc_target_account = ci_target_account input,
         mc_tmux_path = ci_tmux_path input, mc_tmux_socket = ci_tmux_socket_identity input, mc_host_identity = None\<rparr>]\<rparr>)) (\<lambda>_.
     sr_bind (tx_write (\<lambda>t. t\<lparr>rt_owners := rt_owners t @ [\<lparr>ow_machine_id = te_fresh V, ow_connection_epoch = 0, ow_owner = None,
         ow_connection = None, ow_route_revision = 1\<rparr>]\<rparr>)) (\<lambda>_.
     sr_bind (insert_enrollment V token (te_fresh V) digest) (\<lambda>_.
     sr_bind (tx_audit ''machine'' (Some (te_fresh V)) None ''create'') (\<lambda>_.
     sr_return (te_fresh V))))))))))"

definition create_machine ::
  "db_fate \<Rightarrow> (bytes \<Rightarrow> bytes) \<Rightarrow> tx_env \<Rightarrow> uuid \<Rightarrow> bytes \<Rightarrow> create_machine_input \<Rightarrow> (api_error, uuid) tx" where
  "create_machine fate lower V token digest input =
     sr_bind (sr_lift (validate_machine input)) (\<lambda>_. api_transaction fate (create_body lower V token digest input))"

definition rename_machine :: "db_fate \<Rightarrow> (bytes \<Rightarrow> bytes) \<Rightarrow> tx_env \<Rightarrow> uuid \<Rightarrow> bytes \<Rightarrow> (api_error, unit) tx" where
  "rename_machine fate lower V machine_id alias =
     sr_bind (sr_lift (validate_name alias)) (\<lambda>_. api_transaction fate (
     sr_bind (lock_current_deployment V) (\<lambda>_.
     sr_bind (tx_read rt_machines) (\<lambda>machines.
     sr_bind (tx_require (\<not> list_ex (\<lambda>m. mc_id m \<noteq> machine_id \<and> lower (mc_alias m) = lower alias) machines
         \<or> count_where (\<lambda>m. mc_id m = machine_id) machines = 0) (AP_Conflict ''conflict'')) (\<lambda>_.
     sr_bind (tx_write (\<lambda>t. t\<lparr>rt_machines := update_where (\<lambda>m. mc_id m = machine_id) (\<lambda>m. m\<lparr>mc_alias := alias\<rparr>) (rt_machines t)\<rparr>)) (\<lambda>_.
     sr_bind (tx_require (count_where (\<lambda>m. mc_id m = machine_id) machines = 1) AP_NotFound) (\<lambda>_.
     tx_audit ''machine'' (Some machine_id) None ''rename'')))))))"

definition rebind_machine_credential :: "db_fate \<Rightarrow> tx_env \<Rightarrow> uuid \<Rightarrow> uuid \<Rightarrow> (api_error, unit) tx" where
  "rebind_machine_credential fate V machine_id credential_id = api_transaction fate (
     sr_bind (lock_current_deployment V) (\<lambda>_.
     sr_bind (tx_read id) (\<lambda>t. case machine_of machine_id t of
       None \<Rightarrow> sr_throw AP_NotFound
     | Some m \<Rightarrow>
         sr_bind (tx_require (mc_lifecycle m = LC_Active) (AP_Conflict ''invalid_lifecycle'')) (\<lambda>_.
         sr_bind (tx_require (mc_credential_id m \<noteq> credential_id) (AP_Conflict ''conflict'')) (\<lambda>_.
         sr_bind (tx_require (mc_credential_revision m + 1 < 2 ^ 63) AP_Internal) (\<lambda>_.
         sr_bind (tx_require (credential_active credential_id t) AP_NotFound) (\<lambda>_.
         let target = (\<lambda>r. mc_id r = machine_id \<and> mc_lifecycle r = LC_Active \<and> mc_credential_revision r = mc_credential_revision m) in
         sr_bind (tx_require (count_where target (rt_machines t) = 1) AP_TemporarilyUnavailable) (\<lambda>_.
         sr_bind (tx_write (\<lambda>t. t\<lparr>rt_machines := update_where target (\<lambda>r. r\<lparr>mc_credential_id := credential_id,
             mc_credential_revision := mc_credential_revision m + 1\<rparr>) (rt_machines t)\<rparr>)) (\<lambda>_.
         tx_audit ''machine'' (Some machine_id) (Some credential_id) ''rebind''))))))))) "

definition re_enroll_disabled_machine :: "db_fate \<Rightarrow> tx_env \<Rightarrow> uuid \<Rightarrow> (api_error, unit) tx" where
  "re_enroll_disabled_machine fate V machine_id = api_transaction fate (
     sr_bind (lock_current_deployment V) (\<lambda>_.
     let disabled = (\<lambda>m. mc_id m = machine_id \<and> mc_lifecycle m = LC_Disabled) in
     sr_bind (tx_read rt_machines) (\<lambda>machines.
     sr_bind (tx_require (count_where disabled machines = 1) (AP_Conflict ''invalid_lifecycle'')) (\<lambda>_.
     sr_bind (tx_write (\<lambda>t. t\<lparr>rt_machines := update_where disabled (\<lambda>m. m\<lparr>mc_lifecycle := LC_Pending\<rparr>) (rt_machines t)\<rparr>)) (\<lambda>_.
     tx_audit ''machine'' (Some machine_id) None ''re_enroll''))))) "

definition cancel_issued :: "uuid \<Rightarrow> relay_tables \<Rightarrow> relay_tables" where
  "cancel_issued machine_id t = t\<lparr>rt_enrollments := update_where (\<lambda>e. en_machine_id e = machine_id \<and> en_status e = EN_Issued)
     (\<lambda>e. e\<lparr>en_status := EN_Cancelled\<rparr>) (rt_enrollments t)\<rparr>"

definition issue_transaction :: "db_fate \<Rightarrow> tx_env \<Rightarrow> uuid \<Rightarrow> uuid \<Rightarrow> bytes \<Rightarrow> (api_error, unit) tx" where
  "issue_transaction fate V token machine_id digest = api_transaction fate (
     sr_bind (lock_current_deployment V) (\<lambda>_.
     sr_bind (tx_read (machine_of machine_id)) (\<lambda>m.
     sr_bind (tx_require (map_option mc_lifecycle m = Some LC_Pending) (AP_Conflict ''invalid_lifecycle'')) (\<lambda>_.
     sr_bind (tx_write (cancel_issued machine_id)) (\<lambda>_.
     sr_bind (insert_enrollment V token machine_id digest) (\<lambda>_.
     tx_audit ''enrollment'' (Some machine_id) None ''issue_token''))))))"

definition issue_enrollment_token ::
  "db_fate \<Rightarrow> tx_env \<Rightarrow> db_fate \<Rightarrow> tx_env \<Rightarrow> uuid \<Rightarrow> uuid \<Rightarrow> bytes \<Rightarrow> (api_error, unit) tx" where
  "issue_enrollment_token recover_fate recover_env fate V token machine_id digest s =
     (case recover_expired_attempts recover_fate recover_env (Some machine_id) s of
        (Inl _, s1) \<Rightarrow> (Err AP_TemporarilyUnavailable, s1)
      | (Inr _, s1) \<Rightarrow> issue_transaction fate V token machine_id digest s1)"

definition cancel_enrollment_token :: "db_fate \<Rightarrow> tx_env \<Rightarrow> uuid \<Rightarrow> (api_error, unit) tx" where
  "cancel_enrollment_token fate V machine_id = api_transaction fate (
     sr_bind (lock_current_deployment V) (\<lambda>_.
     sr_bind (tx_read id) (\<lambda>t.
     sr_bind (tx_require (machine_of machine_id t \<noteq> None) AP_NotFound) (\<lambda>_.
     sr_bind (tx_write (cancel_issued machine_id)) (\<lambda>_.
     sr_bind (tx_require (count_where (\<lambda>e. en_machine_id e = machine_id \<and> en_status e = EN_Issued) (rt_enrollments t) \<noteq> 0) AP_NotFound) (\<lambda>_.
     tx_audit ''enrollment'' (Some machine_id) None ''cancel_token''))))))"

section \<open>Leaving the active state\<close>

datatype owner_expectation = Exact uuid route_identity | NoValidOwner int

fun expected_revision :: "owner_expectation \<Rightarrow> int" where
  "expected_revision (Exact _ route) = ri_route_revision route"
| "expected_revision (NoValidOwner revision) = revision"

definition owner_valid :: "tx_env \<Rightarrow> node_lease \<Rightarrow> owner_row \<Rightarrow> bool" where
  "owner_valid V n ow \<longleftrightarrow> list_ex (\<lambda>r. Some (nr_incarnation_id r) = ow_owner ow \<and> node_row_current V n r) (ld_nodes (te_nodes V))"

definition owner_matches :: "tx_env \<Rightarrow> node_lease \<Rightarrow> owner_expectation \<Rightarrow> owner_row \<Rightarrow> bool" where
  "owner_matches V n expected ow = (case expected of
     Exact incarnation_id route \<Rightarrow> ow_owner ow = Some incarnation_id \<and> ow_connection ow = Some (ri_connection_id route)
       \<and> ow_connection_epoch ow = ri_connection_epoch route
   | NoValidOwner _ \<Rightarrow> \<not> owner_valid V n ow)"

definition transition_body :: "tx_env \<Rightarrow> uuid \<Rightarrow> lifecycle \<Rightarrow> bytes \<Rightarrow> owner_expectation \<Rightarrow> (api_error, unit) tx" where
  "transition_body V machine_id lifecycle action expected =
     sr_bind (lock_current_deployment V) (\<lambda>_.
     sr_bind (sr_gets id) (\<lambda>s.
     case List.find (\<lambda>m. mc_id m = machine_id \<and> mc_lifecycle m = LC_Active) (rt_machines (tx_tables s)) of
       None \<Rightarrow> sr_throw (AP_Conflict ''invalid_lifecycle'')
     | Some m \<Rightarrow> (let route_revision = mc_route_revision m in
         sr_bind (tx_require (route_revision = expected_revision expected) AP_TemporarilyUnavailable) (\<lambda>_.
         case owner_of machine_id (tx_tables s) of
           None \<Rightarrow> sr_throw AP_Internal
         | Some ow \<Rightarrow>
             sr_bind (tx_require (ow_route_revision ow = route_revision \<and> owner_matches V (tx_lease s) expected ow) AP_TemporarilyUnavailable) (\<lambda>_.
             sr_bind (tx_require (route_revision + 1 < 2 ^ 63) AP_Internal) (\<lambda>_.
             let live = (\<lambda>b. bi_machine_id b = machine_id \<and> bi_status b = BI_Active \<and> bi_route_revision b = route_revision);
                 mine = (\<lambda>r. ow_machine_id r = machine_id \<and> ow_route_revision r = route_revision);
                 this = (\<lambda>r. mc_id r = machine_id \<and> mc_lifecycle r = LC_Active \<and> mc_route_revision r = route_revision) in
             sr_bind (tx_require (count_where live (rt_bindings (tx_tables s)) = 1) AP_Internal) (\<lambda>_.
             sr_bind (tx_write (\<lambda>t. t\<lparr>rt_bindings := update_where live (\<lambda>b. b\<lparr>bi_status := BI_Revoked\<rparr>) (rt_bindings t)\<rparr>)) (\<lambda>_.
             sr_bind (tx_write (\<lambda>t. t\<lparr>rt_attempts := update_where (\<lambda>a. at_machine_id a = machine_id \<and> at_status a = AT_Verifying)
                 (\<lambda>a. a\<lparr>at_status := AT_Failed\<rparr>) (rt_attempts t)\<rparr>)) (\<lambda>_.
             sr_bind (tx_write (cancel_issued machine_id)) (\<lambda>_.
             sr_bind (tx_write (\<lambda>t. t\<lparr>rt_owners := update_where mine (\<lambda>r. r\<lparr>ow_owner := None, ow_connection := None,
                 ow_route_revision := route_revision + 1\<rparr>) (rt_owners t)\<rparr>)) (\<lambda>_.
             sr_bind (tx_write (\<lambda>t. t\<lparr>rt_machines := update_where this (\<lambda>r. r\<lparr>mc_lifecycle := lifecycle,
                 mc_route_revision := route_revision + 1\<rparr>) (rt_machines t)\<rparr>)) (\<lambda>_.
             sr_bind (tx_require (count_where mine (rt_owners (tx_tables s)) = 1 \<and> count_where this (rt_machines (tx_tables s)) = 1) AP_Internal) (\<lambda>_.
             tx_audit ''machine'' (Some machine_id) None action)))))))))))))"

definition commit_active_machine_transition ::
  "db_fate \<Rightarrow> tx_env \<Rightarrow> uuid \<Rightarrow> lifecycle \<Rightarrow> bytes \<Rightarrow> owner_expectation \<Rightarrow> (api_error, unit) tx" where
  "commit_active_machine_transition fate V machine_id lifecycle action expected =
     api_transaction fate (transition_body V machine_id lifecycle action expected)"

datatype transition_observation = TO_Committed | TO_Aborted | TO_Indeterminate

text \<open>Reading the machine again after a commit whose outcome is unknown; \<open>answered\<close> is whether the query
  returned in time.\<close>

definition observe_machine_transition ::
  "bool \<Rightarrow> tx_env \<Rightarrow> uuid \<Rightarrow> lifecycle \<Rightarrow> owner_expectation \<Rightarrow> (api_error, transition_observation) tx" where
  "observe_machine_transition answered V machine_id lifecycle expected s =
     (case tx_check (te_clock V) AP_Internal s of
        (Inl _, s1) \<Rightarrow> (Ok TO_Indeterminate, s1)
      | (Inr _, s1) \<Rightarrow>
          (let revision = expected_revision expected; t = tx_tables s1 in
           case (machine_of machine_id t, owner_of machine_id t) of
             (Some m, Some ow) \<Rightarrow>
               if revision + 1 \<ge> 2 ^ 63 \<or> \<not> answered then (Ok TO_Indeterminate, s1)
               else (case tx_check (te_clock_again V) AP_Internal s1 of
                   (Inl _, s2) \<Rightarrow> (Ok TO_Indeterminate, s2)
                 | (Inr _, s2) \<Rightarrow>
                     (let status = map_option bi_status (List.find (\<lambda>b. bi_machine_id b = machine_id \<and> bi_route_revision b = revision) (rt_bindings t)) in
                      (Ok (if mc_lifecycle m = lifecycle \<and> mc_route_revision m = revision + 1 \<and> ow_route_revision ow = revision + 1
                               \<and> ow_owner ow = None \<and> ow_connection ow = None \<and> status = Some BI_Revoked then TO_Committed
                           else if mc_lifecycle m = LC_Active \<and> mc_route_revision m = revision \<and> ow_route_revision ow = revision
                               \<and> status = Some BI_Active \<and> owner_matches V (tx_lease s2) expected ow then TO_Aborted
                           else TO_Indeterminate), s2)))
           | _ \<Rightarrow> (Ok TO_Indeterminate, s1)))"

datatype transition_completion = TC_Committed | TC_Aborted api_error | TC_Indeterminate api_error

definition settle_transition_commit ::
  "bool \<Rightarrow> tx_env \<Rightarrow> uuid \<Rightarrow> lifecycle \<Rightarrow> owner_expectation \<Rightarrow> api_error + unit \<Rightarrow> (api_error, transition_completion) tx" where
  "settle_transition_commit answered V machine_id lifecycle expected result = (case result of
     Inr _ \<Rightarrow> sr_return TC_Committed
   | Inl e \<Rightarrow> if \<not> is_ambiguous e then sr_return (TC_Aborted e)
       else sr_bind (observe_machine_transition answered V machine_id lifecycle expected) (\<lambda>x. sr_return (case x of
           TO_Committed \<Rightarrow> TC_Committed
         | TO_Aborted \<Rightarrow> TC_Aborted AP_TemporarilyUnavailable
         | TO_Indeterminate \<Rightarrow> TC_Indeterminate e)))"

end
