(* ===== verification/Machine_Lifecycle.thy ===== *)
theory Machine_Lifecycle
  imports Relay_Db
begin

text \<open>
  What the transactions of \<open>Relay_Db\<close> amount to for one machine: an abstract state machine over its
  phase, route revision, pinned host key, trusted Relay, connection epoch and owner. Every transaction,
  whatever its outcome, is shown to be a step of that state machine for every machine. From this follow
  that a pinned host key never changes, that revisions and epochs only grow, that only an active machine
  has an owner, and that an enrolment token is good for one attempt.
\<close>

section \<open>The abstract machine\<close>

datatype machine_phase = P_Pending | P_Verifying | P_Bound | P_Active | P_Disabled

record machine_abs =
  ma_phase :: machine_phase
  ma_revision :: int
  ma_pin :: "bytes option"
  ma_relay :: "(uuid \<times> bytes) option"
  ma_epoch :: int
  ma_owner :: "(uuid \<times> uuid) option"

inductive machine_step :: "machine_abs option \<Rightarrow> machine_abs option \<Rightarrow> bool" where
  stay: "machine_step v v"
| create: "machine_step None (Some \<lparr>ma_phase = P_Pending, ma_revision = 1, ma_pin = None, ma_relay = None, ma_epoch = 0, ma_owner = None\<rparr>)"
| enroll: "ma_phase x = P_Pending \<Longrightarrow> machine_step (Some x) (Some (x\<lparr>ma_phase := P_Verifying\<rparr>))"
| abandon: "ma_phase x = P_Verifying \<Longrightarrow> machine_step (Some x) (Some (x\<lparr>ma_phase := P_Pending\<rparr>))"
| bind: "ma_phase x = P_Verifying \<Longrightarrow> ma_relay x = None \<Longrightarrow> ma_pin x = None \<or> ma_pin x = Some h \<Longrightarrow>
    machine_step (Some x) (Some (x\<lparr>ma_phase := P_Bound, ma_pin := Some h, ma_relay := Some r\<rparr>))"
| claim: "ma_phase x = P_Bound \<or> ma_phase x = P_Active \<Longrightarrow>
    machine_step (Some x) (Some (x\<lparr>ma_phase := P_Active, ma_epoch := ma_epoch x + 1, ma_owner := Some w\<rparr>))"
| release: "ma_phase x = P_Active \<Longrightarrow> machine_step (Some x) (Some (x\<lparr>ma_owner := None\<rparr>))"
| retire: "ma_phase x = P_Active \<Longrightarrow> p = P_Pending \<or> p = P_Disabled \<Longrightarrow>
    machine_step (Some x) (Some (x\<lparr>ma_phase := p, ma_revision := ma_revision x + 1, ma_relay := None, ma_owner := None\<rparr>))"
| reopen: "ma_phase x = P_Disabled \<Longrightarrow> machine_step (Some x) (Some (x\<lparr>ma_phase := P_Pending\<rparr>))"

text \<open>What a step never does.\<close>

definition machine_le :: "machine_abs option \<Rightarrow> machine_abs option \<Rightarrow> bool" where
  "machine_le v w = (case v of None \<Rightarrow> True | Some x \<Rightarrow> (case w of None \<Rightarrow> False | Some y \<Rightarrow>
     (ma_pin x \<noteq> None \<longrightarrow> ma_pin y = ma_pin x) \<and> ma_revision x \<le> ma_revision y \<and> ma_epoch x \<le> ma_epoch y
     \<and> (ma_owner y \<noteq> ma_owner x \<and> ma_owner y \<noteq> None \<longrightarrow> ma_epoch x < ma_epoch y)
     \<and> (ma_relay x \<noteq> None \<and> ma_relay y \<noteq> ma_relay x \<longrightarrow> ma_revision x < ma_revision y)))"

lemma machine_le_refl: "machine_le v v"
  by (simp add: machine_le_def split: option.split)

section \<open>Tables as abstract machines\<close>

definition machines_at :: "uuid \<Rightarrow> relay_tables \<Rightarrow> machine_row list" where
  "machines_at i t = filter (\<lambda>m. mc_id m = i) (rt_machines t)"

definition owners_at :: "uuid \<Rightarrow> relay_tables \<Rightarrow> owner_row list" where
  "owners_at i t = filter (\<lambda>r. ow_machine_id r = i) (rt_owners t)"

definition live_bindings :: "uuid \<Rightarrow> relay_tables \<Rightarrow> binding_row list" where
  "live_bindings i t = filter (\<lambda>b. bi_machine_id b = i \<and> bi_status b = BI_Active) (rt_bindings t)"

definition live_attempts :: "uuid \<Rightarrow> relay_tables \<Rightarrow> attempt_row list" where
  "live_attempts i t = filter (\<lambda>a. at_machine_id a = i \<and> at_status a = AT_Verifying) (rt_attempts t)"

lemmas views = machines_at_def owners_at_def live_bindings_def live_attempts_def

fun phase_ok :: "machine_phase \<Rightarrow> machine_row \<Rightarrow> binding_row list \<Rightarrow> attempt_row list \<Rightarrow> bool" where
  "phase_ok P_Pending m bs as \<longleftrightarrow> mc_lifecycle m = LC_Pending \<and> bs = [] \<and> as = []"
| "phase_ok P_Verifying m bs as \<longleftrightarrow> mc_lifecycle m = LC_Verifying \<and> bs = [] \<and> (\<exists>a. as = [a] \<and> at_route_revision a = mc_route_revision m)"
| "phase_ok P_Bound m bs as \<longleftrightarrow> mc_lifecycle m = LC_Verifying \<and> as = [] \<and> mc_host_identity m \<noteq> None
     \<and> (\<exists>b. bs = [b] \<and> bi_route_revision b = mc_route_revision m)"
| "phase_ok P_Active m bs as \<longleftrightarrow> mc_lifecycle m = LC_Active \<and> as = [] \<and> mc_host_identity m \<noteq> None
     \<and> (\<exists>b. bs = [b] \<and> bi_route_revision b = mc_route_revision m)"
| "phase_ok P_Disabled m bs as \<longleftrightarrow> mc_lifecycle m = LC_Disabled \<and> bs = [] \<and> as = []"

definition owner_pair :: "owner_row \<Rightarrow> (uuid \<times> uuid) option" where
  "owner_pair r = (case (ow_owner r, ow_connection r) of (Some a, Some c) \<Rightarrow> Some (a, c) | _ \<Rightarrow> None)"

definition owner_ok :: "machine_phase \<Rightarrow> machine_row \<Rightarrow> owner_row \<Rightarrow> bool" where
  "owner_ok p m r \<longleftrightarrow> ow_route_revision r = mc_route_revision m \<and> (ow_owner r = None \<longleftrightarrow> ow_connection r = None)
     \<and> (p \<noteq> P_Active \<longrightarrow> ow_owner r = None) \<and> 0 \<le> ow_connection_epoch r \<and> (ow_owner r \<noteq> None \<longrightarrow> 0 < ow_connection_epoch r)"

definition abs_machine :: "machine_phase \<Rightarrow> machine_row \<Rightarrow> owner_row \<Rightarrow> binding_row list \<Rightarrow> machine_abs" where
  "abs_machine p m r bs = \<lparr>ma_phase = p, ma_revision = mc_route_revision m, ma_pin = mc_host_identity m,
     ma_relay = (case bs of [] \<Rightarrow> None | b # _ \<Rightarrow> Some (bi_relay_id b, bi_public_key b)),
     ma_epoch = ow_connection_epoch r, ma_owner = owner_pair r\<rparr>"

definition represents :: "uuid \<Rightarrow> relay_tables \<Rightarrow> machine_abs option \<Rightarrow> bool" where
  "represents i t v = (case v of
     None \<Rightarrow> machines_at i t = [] \<and> owners_at i t = [] \<and> live_bindings i t = [] \<and> live_attempts i t = []
   | Some x \<Rightarrow> (\<exists>p m r. machines_at i t = [m] \<and> owners_at i t = [r] \<and> phase_ok p m (live_bindings i t) (live_attempts i t)
       \<and> owner_ok p m r \<and> x = abs_machine p m r (live_bindings i t)))"

definition tables_ok :: "relay_tables \<Rightarrow> bool" where
  "tables_ok t \<longleftrightarrow> (\<forall>i. \<exists>v. represents i t v) \<and> distinct (map at_id (rt_attempts t))
     \<and> distinct (map en_token_digest (rt_enrollments t)) \<and> distinct (map en_id (rt_enrollments t))"

definition same_view :: "uuid \<Rightarrow> relay_tables \<Rightarrow> relay_tables \<Rightarrow> bool" where
  "same_view i t t' \<longleftrightarrow> machines_at i t' = machines_at i t \<and> owners_at i t' = owners_at i t
     \<and> live_bindings i t' = live_bindings i t \<and> live_attempts i t' = live_attempts i t"

lemma same_view_represents: "same_view i t t' \<Longrightarrow> represents i t' v = represents i t v"
  by (auto simp: same_view_def represents_def split: option.splits)

text \<open>A transaction moves every machine by one step of the abstract state machine.\<close>

definition moves :: "relay_tables \<Rightarrow> relay_tables \<Rightarrow> bool" where
  "moves t t' \<longleftrightarrow> (\<forall>i v. represents i t v \<longrightarrow> (\<exists>w. represents i t' w \<and> machine_step v w))"

lemma moves_refl: "moves t t"
  by (auto simp: moves_def intro: stay)

lemma moves_one:
  assumes "\<And>j. j \<noteq> i \<Longrightarrow> same_view j t t'" and "\<And>v. represents i t v \<Longrightarrow> \<exists>w. represents i t' w \<and> machine_step v w"
  shows "moves t t'"
  using assms same_view_represents stay unfolding moves_def by metis

lemma moves_none: "(\<And>j. same_view j t t') \<Longrightarrow> moves t t'"
  by (rule moves_one [where i = 0]) (auto dest: same_view_represents intro: stay)

lemma filter_update: "(\<And>r. q (f r) = q r) \<Longrightarrow> filter q (update_where p f rows) = update_where p f (filter q rows)"
  unfolding update_where_def by (induction rows) auto

lemma filter_update_other: "(\<And>r. p r \<Longrightarrow> \<not> q r \<and> \<not> q (f r)) \<Longrightarrow> filter q (update_where p f rows) = filter q rows"
  unfolding update_where_def by (induction rows) auto

lemma update_where_simps [simp]:
  "update_where p f [] = []" "update_where p f (r # rs) = (if p r then f r else r) # update_where p f rs"
  by (simp_all add: update_where_def)

lemma find_filter: "List.find p rows = (case filter p rows of [] \<Rightarrow> None | r # _ \<Rightarrow> Some r)"
  by (induction rows) auto

lemma machine_of_at: "machine_of i t = (case machines_at i t of [] \<Rightarrow> None | m # _ \<Rightarrow> Some m)"
  by (simp add: machine_of_def machines_at_def find_filter)

lemma owner_of_at: "owner_of i t = (case owners_at i t of [] \<Rightarrow> None | r # _ \<Rightarrow> Some r)"
  by (simp add: owner_of_def owners_at_def find_filter)

lemma machine_step_le: "machine_step v w \<Longrightarrow> machine_le v w"
  by (induction rule: machine_step.induct) (auto simp: machine_le_def split: option.split)

lemma machine_le_trans:
  assumes "machine_le u v" "machine_le v w"
  shows "machine_le u w"
proof (cases u)
  case (Some x)
  with assms obtain y z where yz: "v = Some y" "w = Some z" by (auto simp: machine_le_def split: option.splits)
  have 1: "ma_pin x \<noteq> None \<longrightarrow> ma_pin y = ma_pin x" "ma_revision x \<le> ma_revision y" "ma_epoch x \<le> ma_epoch y"
      "ma_owner y \<noteq> ma_owner x \<and> ma_owner y \<noteq> None \<longrightarrow> ma_epoch x < ma_epoch y"
      "ma_relay x \<noteq> None \<and> ma_relay y \<noteq> ma_relay x \<longrightarrow> ma_revision x < ma_revision y"
    using assms(1) unfolding Some yz machine_le_def by simp_all
  have 2: "ma_pin y \<noteq> None \<longrightarrow> ma_pin z = ma_pin y" "ma_revision y \<le> ma_revision z" "ma_epoch y \<le> ma_epoch z"
      "ma_owner z \<noteq> ma_owner y \<and> ma_owner z \<noteq> None \<longrightarrow> ma_epoch y < ma_epoch z"
      "ma_relay y \<noteq> None \<and> ma_relay z \<noteq> ma_relay y \<longrightarrow> ma_revision y < ma_revision z"
    using assms(2) unfolding yz machine_le_def by simp_all
  have "ma_epoch x < ma_epoch z" if "ma_owner z \<noteq> ma_owner x" "ma_owner z \<noteq> None"
    using 1(3,4) 2(3,4) that by (cases "ma_owner z = ma_owner y") auto
  moreover have "ma_revision x < ma_revision z" if "ma_relay x \<noteq> None" "ma_relay z \<noteq> ma_relay x"
    using 1(2,5) 2(2,5) that by (cases "ma_relay y = ma_relay x") auto
  ultimately show ?thesis
    using 1(1-3) 2(1-3) by (simp add: Some yz machine_le_def)
qed (simp add: machine_le_def)

section \<open>What a successful transaction did\<close>

lemma tx_require_Ok [res_simps]: "tx_require b e s = (Ok u, s') \<longleftrightarrow> b \<and> s' = s"
  by (auto simp: tx_require_def sr_leaf)

lemma tx_write_Ok [res_simps]: "tx_write f s = (Ok u, s') \<longleftrightarrow> s' = s\<lparr>tx_tables := f (tx_tables s)\<rparr>"
  by (auto simp: tx_write_def sr_leaf)

lemma tx_read_Ok [res_simps]: "tx_read f s = (Ok a, s') \<longleftrightarrow> a = f (tx_tables s) \<and> s' = s"
  by (auto simp: tx_read_def sr_leaf)

lemma tx_audit_Ok [res_simps]: "tx_audit k i c a s = (Ok u, s') \<longleftrightarrow>
    s' = s\<lparr>tx_tables := (tx_tables s)\<lparr>rt_audit := rt_audit (tx_tables s) @ [audit k i c a ''success'']\<rparr>\<rparr>"
  by (auto simp: tx_audit_def res_simps)

lemma sr_leaf_Ok [res_simps]:
  "sr_return x s = (Ok a, s') \<longleftrightarrow> a = x \<and> s' = s" "sr_throw e s = (Ok a, s') \<longleftrightarrow> False"
  "sr_gets g s = (Ok b, s') \<longleftrightarrow> b = g s \<and> s' = s"
  by (auto simp: sr_leaf)

lemma tx_check_Ok: "tx_check rd e s = (Ok u, s') \<Longrightarrow> tx_tables s' = tx_tables s \<and> nl_incarnation_id (tx_lease s') = nl_incarnation_id (tx_lease s)"
  by (auto simp: tx_check_def lease_key_def dest!: lease_check_frame split: prod.splits)

lemma guards_Ok:
  "lock_deployment V s = (Ok u, s') \<Longrightarrow> s' = s"
  "validate_node V s = (Ok u, s') \<Longrightarrow> tx_tables s' = tx_tables s \<and> nl_incarnation_id (tx_lease s') = nl_incarnation_id (tx_lease s)"
  "validate_releasing_node V s = (Ok u, s') \<Longrightarrow> tx_tables s' = tx_tables s \<and> nl_incarnation_id (tx_lease s') = nl_incarnation_id (tx_lease s)"
  "lock_current_deployment V s = (Ok w, s') \<Longrightarrow> tx_tables s' = tx_tables s"
  by (auto simp: lock_deployment_def validate_node_def validate_releasing_node_def lock_current_deployment_def res_simps
      dest!: tx_check_Ok)

lemma run_transaction_tables:
  assumes "run_transaction e e' fate body s = (r, s')"
  shows "tx_tables s' = tx_tables s \<or> (\<exists>a t. body s = (Ok a, t) \<and> tx_tables s' = tx_tables t)"
  using assms by (auto simp: run_transaction_def split: if_splits prod.splits sum.splits db_fate.splits)

section \<open>Enrolment\<close>

text \<open>To show a move of one machine, give its phases before and after.\<close>

lemma represents_Some:
  "machines_at i t = [m] \<Longrightarrow> owners_at i t = [r] \<Longrightarrow> live_bindings i t = bs \<Longrightarrow> phase_ok p m bs (live_attempts i t) \<Longrightarrow>
     owner_ok p m r \<Longrightarrow> represents i t (Some (abs_machine p m r bs))"
  by (auto simp: represents_def)

lemma representsE:
  assumes "represents i t v" "machines_at i t \<noteq> []"
  obtains p m r where "machines_at i t = [m]" "owners_at i t = [r]" "phase_ok p m (live_bindings i t) (live_attempts i t)"
    "owner_ok p m r" "v = Some (abs_machine p m r (live_bindings i t))" "mc_id m = i" "ow_machine_id r = i"
proof -
  from assms obtain p m r where *: "machines_at i t = [m]" "owners_at i t = [r]" "phase_ok p m (live_bindings i t) (live_attempts i t)"
    "owner_ok p m r" "v = Some (abs_machine p m r (live_bindings i t))"
    by (auto simp: represents_def split: option.splits)
  moreover from * have "m \<in> set (machines_at i t)" "r \<in> set (owners_at i t)" by simp_all
  then have "mc_id m = i" "ow_machine_id r = i" by (simp_all add: views)
  ultimately show thesis using that by blast
qed

lemma machine_of_SomeD: "machine_of i t = Some m \<Longrightarrow> mc_id m = i \<and> (\<exists>ms. machines_at i t = m # ms)"
  by (auto simp: machine_of_at machines_at_def Cons_eq_filter_iff split: list.splits dest: filter_eq_ConsD)

definition accept_tables :: "tx_env \<Rightarrow> enrollment_row \<Rightarrow> machine_row \<Rightarrow> uuid \<Rightarrow> relay_tables \<Rightarrow> relay_tables" where
  "accept_tables V e m n t = t\<lparr>
     rt_enrollments := update_where (\<lambda>r. en_id r = en_id e) (\<lambda>r. r\<lparr>en_status := EN_Consumed\<rparr>) (rt_enrollments t),
     rt_machines := update_where (\<lambda>r. mc_id r = mc_id m) (\<lambda>r. r\<lparr>mc_lifecycle := LC_Verifying\<rparr>) (rt_machines t),
     rt_attempts := rt_attempts t @ [\<lparr>at_id = te_fresh V, at_machine_id = mc_id m, at_enrollment_id = en_id e, at_executing = n,
       at_route_revision = mc_route_revision m, at_status = AT_Verifying, at_deadline = te_now V + ENROLLMENT_ATTEMPT_SECONDS * NS\<rparr>],
     rt_audit := rt_audit t @ [audit ''enrollment'' (Some (mc_id m)) None ''accept_token'' ''success'']\<rparr>"

lemma accept_effect:
  assumes "accept_body V digest s = (Ok ac, s')"
  obtains e m where "issued_enrollment (te_now V) digest (tx_tables s) = Some (e, m)"
    "\<not> list_ex (\<lambda>a. at_id a = te_fresh V \<or> at_enrollment_id a = en_id e \<or> (at_machine_id a = mc_id m \<and> at_status a = AT_Verifying)) (rt_attempts (tx_tables s))"
    "tx_tables s' = accept_tables V e m (nl_incarnation_id (tx_lease s)) (tx_tables s)"
    "ac_machine_id ac = mc_id m" "ac_attempt_id ac = te_fresh V" "ac_route_revision ac = mc_route_revision m" "ac_host_identity ac = mc_host_identity m"
proof -
  from assms show thesis
    by (auto simp: accept_body_def res_simps accept_tables_def dest!: guards_Ok split: option.splits intro!: that)
qed

lemma issued_enrollment_Some:
  assumes "issued_enrollment now digest t = Some (e, m)"
  shows "e \<in> set (rt_enrollments t)" "en_token_digest e = digest" "en_status e = EN_Issued" "now < en_expires_at e"
    "\<exists>ms. machines_at (mc_id m) t = m # ms" "mc_lifecycle m = LC_Pending"
  using assms
  by (auto simp: issued_enrollment_def split: option.splits if_splits dest: find_SomeD machine_of_SomeD)

lemma accept_moves:
  assumes "issued_enrollment now digest t = Some (e, m)"
    and fresh: "\<not> list_ex (\<lambda>a. at_id a = te_fresh V \<or> at_enrollment_id a = en_id e \<or> (at_machine_id a = mc_id m \<and> at_status a = AT_Verifying)) (rt_attempts t)"
  shows "moves t (accept_tables V e m n t)"
proof (rule moves_one [where i = "mc_id m"])
  show "same_view j t (accept_tables V e m n t)" if "j \<noteq> mc_id m" for j
    using that by (simp add: same_view_def accept_tables_def views filter_update_other)
  fix v assume v: "represents (mc_id m) t v"
  from issued_enrollment_Some(5) [OF assms(1)] obtain ms where ms: "machines_at (mc_id m) t = m # ms" by blast
  with v obtain p r where x: "machines_at (mc_id m) t = [m]" "owners_at (mc_id m) t = [r]"
    "phase_ok p m (live_bindings (mc_id m) t) (live_attempts (mc_id m) t)" "owner_ok p m r"
    "v = Some (abs_machine p m r (live_bindings (mc_id m) t))"
    by (auto elim!: representsE)
  from issued_enrollment_Some(6) [OF assms(1)] x(3) have p: "p = P_Pending" "live_bindings (mc_id m) t = []" "live_attempts (mc_id m) t = []"
    by (cases p; simp)+
  let ?m = "m\<lparr>mc_lifecycle := LC_Verifying\<rparr>"
  have "represents (mc_id m) (accept_tables V e m n t) (Some (abs_machine P_Verifying ?m r []))"
    using x p by (intro represents_Some) (auto simp: accept_tables_def views filter_update owner_ok_def)
  moreover have "machine_step v (Some (abs_machine P_Verifying ?m r []))"
    using enroll [of "abs_machine P_Pending m r []"] x(5) p by (simp add: abs_machine_def)
  ultimately show "\<exists>w. represents (mc_id m) (accept_tables V e m n t) w \<and> machine_step v w" by blast
qed

lemma filter_update_elsewhere:
  "(\<And>r. r \<in> set rows \<Longrightarrow> p r \<Longrightarrow> \<not> q r \<and> \<not> q (f r)) \<Longrightarrow> filter q (update_where p f rows) = filter q rows"
  unfolding update_where_def by (induction rows) auto

lemma views_audit [simp]:
  "machines_at i (t\<lparr>rt_audit := a\<rparr>) = machines_at i t" "owners_at i (t\<lparr>rt_audit := a\<rparr>) = owners_at i t"
  "live_bindings i (t\<lparr>rt_audit := a\<rparr>) = live_bindings i t" "live_attempts i (t\<lparr>rt_audit := a\<rparr>) = live_attempts i t"
  by (simp_all add: views)

lemma represents_audit [simp]: "represents i (t\<lparr>rt_audit := a\<rparr>) = represents i t"
  by (rule ext) (simp add: represents_def split: option.split)

lemma moves_audit [simp]: "moves t (t'\<lparr>rt_audit := a\<rparr>) = moves t t'"
  by (simp add: moves_def)

text \<open>Moving the machine of a known row: its representation is unique, so it is enough to exhibit the new
  rows and the step.\<close>

lemma moves_machine:
  assumes others: "\<And>j. j \<noteq> i \<Longrightarrow> same_view j t t'" and row: "machines_at i t \<noteq> []"
    and step: "\<And>p m r. machines_at i t = [m] \<Longrightarrow> owners_at i t = [r] \<Longrightarrow> phase_ok p m (live_bindings i t) (live_attempts i t) \<Longrightarrow>
      owner_ok p m r \<Longrightarrow> mc_id m = i \<Longrightarrow> ow_machine_id r = i \<Longrightarrow>
      \<exists>w. represents i t' w \<and> machine_step (Some (abs_machine p m r (live_bindings i t))) w"
  shows "moves t t'"
proof (rule moves_one [OF others])
  fix v assume "represents i t v"
  then show "\<exists>w. represents i t' w \<and> machine_step v w" by (rule representsE [OF _ row]) (use step in blast)
qed

definition activate_tables :: "tx_env \<Rightarrow> accepted_enrollment \<Rightarrow> uuid \<Rightarrow> bytes \<Rightarrow> bytes \<Rightarrow> relay_tables \<Rightarrow> relay_tables" where
  "activate_tables V ac relay_id public_key h t = t\<lparr>
     rt_machines := update_where (\<lambda>r. mc_id r = ac_machine_id ac \<and> mc_lifecycle r = LC_Verifying \<and> mc_route_revision r = ac_route_revision ac
         \<and> (mc_host_identity r = None \<or> mc_host_identity r = Some h)) (\<lambda>r. r\<lparr>mc_host_identity := Some h\<rparr>) (rt_machines t),
     rt_bindings := rt_bindings t @ [\<lparr>bi_id = te_fresh V, bi_machine_id = ac_machine_id ac, bi_relay_id = relay_id,
         bi_public_key = public_key, bi_route_revision = ac_route_revision ac, bi_status = BI_Active\<rparr>],
     rt_attempts := update_where (\<lambda>a. at_id a = ac_attempt_id ac) (\<lambda>a. a\<lparr>at_status := AT_Activated\<rparr>) (rt_attempts t)\<rparr>"

definition pinnable :: "accepted_enrollment \<Rightarrow> bytes \<Rightarrow> machine_row \<Rightarrow> bool" where
  "pinnable ac h r \<longleftrightarrow> mc_id r = ac_machine_id ac \<and> mc_lifecycle r = LC_Verifying \<and> mc_route_revision r = ac_route_revision ac
     \<and> (mc_host_identity r = None \<or> mc_host_identity r = Some h)"

lemma activate_effect:
  assumes "activate_body is_host V ac relay_id public_key h s = (Ok u, s')"
  shows "(\<exists>n. attempt_valid V ac n (tx_tables s)) \<and> is_host h \<and> count_where (pinnable ac h) (rt_machines (tx_tables s)) = 1
    \<and> \<not> binding_conflict (te_fresh V) (ac_machine_id ac) relay_id public_key (tx_tables s)
    \<and> (\<exists>a. tx_tables s' = (activate_tables V ac relay_id public_key h (tx_tables s))\<lparr>rt_audit := a\<rparr>)"
  using assms unfolding activate_body_def pinnable_def activate_tables_def
  by (auto simp: res_simps Let_def dest!: guards_Ok split: if_splits)

lemma count_one_at:
  assumes "count_where p (rt_machines t) = 1" "\<And>r. p r \<Longrightarrow> mc_id r = i" "machines_at i t = [m]"
  shows "p m"
proof -
  have "filter p (rt_machines t) = filter p (machines_at i t)"
    using assms(2) by (simp add: machines_at_def filter_filter) (metis (mono_tags, lifting))
  with assms(1,3) show ?thesis by (auto simp: count_where_def split: if_splits)
qed

lemma distinct_same_id: "distinct (map at_id xs) \<Longrightarrow> a \<in> set xs \<Longrightarrow> b \<in> set xs \<Longrightarrow> at_id a = at_id b \<Longrightarrow> a = b"
  by (metis distinct_map inj_onD)

lemma ended_rows:
  assumes "\<And>b. b \<in> set rows \<Longrightarrow> p b \<longleftrightarrow> b = a" "s \<noteq> AT_Verifying"
  shows "filter (\<lambda>b. at_machine_id b = i \<and> at_status b = AT_Verifying) (update_where p (\<lambda>b. b\<lparr>at_status := s\<rparr>) rows)
    = filter (\<lambda>b. at_machine_id b = i \<and> at_status b = AT_Verifying \<and> b \<noteq> a) rows"
  using assms by (induction rows) auto

lemma live_ended:
  assumes "\<And>b. b \<in> set (rt_attempts t) \<Longrightarrow> p b \<longleftrightarrow> b = a" "s \<noteq> AT_Verifying"
    and t': "rt_attempts t' = update_where p (\<lambda>b. b\<lparr>at_status := s\<rparr>) (rt_attempts t)"
  shows "live_attempts i t' = filter (\<lambda>b. b \<noteq> a) (live_attempts i t)"
  using ended_rows [of "rt_attempts t" p a s i] assms(1,2) by (simp add: live_attempts_def t' filter_filter conj_ac)

lemma activate_moves:
  assumes dist: "distinct (map at_id (rt_attempts t))" and valid: "attempt_valid V ac n t"
    and pin: "count_where (pinnable ac h) (rt_machines t) = 1"
  shows "moves t (activate_tables V ac relay_id public_key h t)"
proof -
  let ?i = "ac_machine_id ac" and ?t = "activate_tables V ac relay_id public_key h t"
  from valid obtain a m0 where a: "a \<in> set (rt_attempts t)" "at_id a = ac_attempt_id ac" "at_machine_id a = ?i" "at_status a = AT_Verifying"
      and m0: "machine_of ?i t = Some m0" "mc_lifecycle m0 = LC_Verifying" "at_route_revision a = mc_route_revision m0"
    by (auto simp: attempt_valid_def list_ex_iff split: option.splits)
  have only: "b = a" if "b \<in> set (rt_attempts t)" "at_id b = ac_attempt_id ac" for b
    using distinct_same_id [OF dist that(1) a(1)] that(2) a(2) by simp
  have act: "live_attempts ?i ?t = filter (\<lambda>b. b \<noteq> a) (live_attempts ?i t)"
    by (rule live_ended [where p = "\<lambda>b. at_id b = ac_attempt_id ac" and s = AT_Activated])
      (use only a(2) in \<open>auto simp: activate_tables_def\<close>)
  show ?thesis
  proof (rule moves_machine [where i = ?i])
    show "same_view j t ?t" if "j \<noteq> ?i" for j
      using that only a(3) by (auto simp: same_view_def activate_tables_def views filter_update_other intro!: filter_update_elsewhere)
    show "machines_at ?i t \<noteq> []" using machine_of_SomeD [OF m0(1)] by auto
    fix p m r
    assume m: "machines_at ?i t = [m]" "owners_at ?i t = [r]" "phase_ok p m (live_bindings ?i t) (live_attempts ?i t)" "owner_ok p m r"
      "mc_id m = ?i" "ow_machine_id r = ?i"
    have pm: "pinnable ac h m" by (rule count_one_at [OF pin _ m(1)]) (simp add: pinnable_def)
    have "a \<in> set (live_attempts ?i t)" using a by (simp add: live_attempts_def)
    with m(3) pm have p: "p = P_Verifying" "live_bindings ?i t = []" "live_attempts ?i t = [a]"
      by (cases p; auto simp: pinnable_def)+
    let ?m = "m\<lparr>mc_host_identity := Some h\<rparr>" and ?b = "\<lparr>bi_id = te_fresh V, bi_machine_id = ?i, bi_relay_id = relay_id,
         bi_public_key = public_key, bi_route_revision = ac_route_revision ac, bi_status = BI_Active\<rparr>"
    have "machines_at ?i ?t = [?m]" "owners_at ?i ?t = [r]" "live_bindings ?i ?t = [?b]"
      using m(1,2) p(2) pm by (simp_all add: activate_tables_def views filter_update pinnable_def)
    then have "represents ?i ?t (Some (abs_machine P_Bound ?m r [?b]))"
      using m(4) p pm act by (intro represents_Some) (auto simp: owner_ok_def pinnable_def)
    moreover have "machine_step (Some (abs_machine p m r (live_bindings ?i t))) (Some (abs_machine P_Bound ?m r [?b]))"
      using bind [of "abs_machine P_Verifying m r []" h "(relay_id, public_key)"] p pm by (auto simp: abs_machine_def pinnable_def)
    ultimately show "\<exists>w. represents ?i ?t w \<and> machine_step (Some (abs_machine p m r (live_bindings ?i t))) w" by blast
  qed
qed

text \<open>An attempt row keeps its machine and revision; what is known of it by its id stays known.\<close>

definition attempt_known :: "uuid \<Rightarrow> uuid \<Rightarrow> int \<Rightarrow> relay_tables \<Rightarrow> bool" where
  "attempt_known attempt_id machine_id revision t \<longleftrightarrow>
     (\<forall>a \<in> set (rt_attempts t). at_id a = attempt_id \<longrightarrow> at_machine_id a = machine_id \<and> at_route_revision a = revision)"

lemma filter_single: "distinct xs \<Longrightarrow> a \<in> set xs \<Longrightarrow> (\<And>b. b \<in> set xs \<Longrightarrow> p b \<longleftrightarrow> b = a) \<Longrightarrow> filter p xs = [a]"
proof (induction xs)
  case (Cons x xs)
  show ?case
  proof (cases "x = a")
    case True
    with Cons.prems have "filter p xs = []" by (auto simp: filter_empty_conv)
    with True Cons.prems show ?thesis by simp
  next
    case False
    with Cons show ?thesis by auto
  qed
qed simp

lemma live_attempt_phase:
  assumes "tables_ok t" "a \<in> set (live_attempts i t)"
  obtains m r where "machines_at i t = [m]" "owners_at i t = [r]" "live_bindings i t = []" "live_attempts i t = [a]"
    "mc_lifecycle m = LC_Verifying" "at_route_revision a = mc_route_revision m" "owner_ok P_Verifying m r" "mc_id m = i"
proof -
  from assms(1) obtain v where v: "represents i t v" by (auto simp: tables_ok_def)
  with assms(2) have "machines_at i t \<noteq> []" by (auto simp: represents_def split: option.splits)
  with v obtain p m r where *: "machines_at i t = [m]" "owners_at i t = [r]" "phase_ok p m (live_bindings i t) (live_attempts i t)"
      "owner_ok p m r" "mc_id m = i" by (rule representsE)
  with assms(2) have "p = P_Verifying" by (cases p) auto
  with * assms(2) show thesis by (intro that [of m r]) auto
qed

lemma fail_one_moves:
  assumes ok: "tables_ok t" and known: "attempt_known attempt_id i g t" and free: "unbound \<or> bound i g t"
  shows "moves t (fail_one attempt_id i g unbound t)"
proof (cases "\<exists>a \<in> set (rt_attempts t). at_id a = attempt_id \<and> at_status a = AT_Verifying")
  case False
  then have "rt_attempts (fail_one attempt_id i g unbound t) = rt_attempts t"
      "count_where (\<lambda>a. at_id a = attempt_id \<and> at_status a = AT_Verifying) (rt_attempts t) = 0"
    by (auto simp: fail_one_def update_where_def count_where_def Let_def intro!: map_idI)
  then have "same_view j t (fail_one attempt_id i g unbound t)" for j
    by (simp add: same_view_def views fail_one_def Let_def)
  then show ?thesis by (rule moves_none)
next
  case True
  then obtain a where a: "a \<in> set (rt_attempts t)" "at_id a = attempt_id" "at_status a = AT_Verifying" by blast
  with known have ai: "at_machine_id a = i" "at_route_revision a = g" by (auto simp: attempt_known_def)
  have dist: "distinct (map at_id (rt_attempts t))" using ok by (simp add: tables_ok_def)
  have only: "at_id b = attempt_id \<and> at_status b = AT_Verifying \<longleftrightarrow> b = a" if "b \<in> set (rt_attempts t)" for b
    using distinct_same_id [OF dist that a(1)] a(2,3) by auto
  have one: "count_where (\<lambda>b. at_id b = attempt_id \<and> at_status b = AT_Verifying) (rt_attempts t) = 1"
    using filter_single [OF _ a(1) only] dist by (simp add: count_where_def distinct_map)
  have "a \<in> set (live_attempts i t)" using a ai by (simp add: live_attempts_def)
  with ok obtain m0 r0 where i: "machines_at i t = [m0]" "live_bindings i t = []" "live_attempts i t = [a]"
      "mc_lifecycle m0 = LC_Verifying" "mc_route_revision m0 = g" "mc_id m0 = i"
    using ai by (auto elim!: live_attempt_phase)
  with free have unbound
    by (auto simp: bound_def live_bindings_def list_ex_iff filter_empty_conv)
  with one have t': "fail_one attempt_id i g unbound t = t\<lparr>
      rt_attempts := update_where (\<lambda>b. at_id b = attempt_id \<and> at_status b = AT_Verifying) (\<lambda>b. b\<lparr>at_status := AT_Failed\<rparr>) (rt_attempts t),
      rt_machines := update_where (\<lambda>m. mc_id m = i \<and> mc_lifecycle m = LC_Verifying \<and> mc_route_revision m = g)
        (\<lambda>m. m\<lparr>mc_lifecycle := LC_Pending\<rparr>) (rt_machines t)\<rparr>" (is "_ = ?t")
    by (simp add: fail_one_def Let_def)
  have live: "live_attempts i ?t = []"
    using live_ended [of t "\<lambda>b. at_id b = attempt_id \<and> at_status b = AT_Verifying" a AT_Failed ?t i] only i(3) by simp
  have "moves t ?t"
  proof (rule moves_machine [where i = i])
    show "same_view j t ?t" if "j \<noteq> i" for j
      using that only ai(1) by (auto simp: same_view_def views filter_update_other intro!: filter_update_elsewhere)
    show "machines_at i t \<noteq> []" using i(1) by simp
    fix p m r
    assume m: "machines_at i t = [m]" "owners_at i t = [r]" "phase_ok p m (live_bindings i t) (live_attempts i t)" "owner_ok p m r"
    with i have p: "p = P_Verifying" "m = m0" by (cases p; simp)+
    let ?m = "m\<lparr>mc_lifecycle := LC_Pending\<rparr>"
    have "represents i ?t (Some (abs_machine P_Pending ?m r []))"
      using m i p live by (intro represents_Some) (auto simp: views filter_update owner_ok_def)
    moreover have "machine_step (Some (abs_machine p m r (live_bindings i t))) (Some (abs_machine P_Pending ?m r []))"
      using abandon [of "abs_machine P_Verifying m r []"] p i by (simp add: abs_machine_def)
    ultimately show "\<exists>w. represents i ?t w \<and> machine_step (Some (abs_machine p m r (live_bindings i t))) w" by blast
  qed
  then show ?thesis by (simp only: t')
qed

text \<open>Ending the attempt of a list of rows, one at a time: what is known of attempts is kept.\<close>

definition attempt_keys :: "relay_tables \<Rightarrow> (uuid \<times> uuid \<times> int) list" where
  "attempt_keys t = map (\<lambda>a. (at_id a, at_machine_id a, at_route_revision a)) (rt_attempts t)"

definition enrollment_keys :: "relay_tables \<Rightarrow> (uuid \<times> uuid \<times> bytes) list" where
  "enrollment_keys t = map (\<lambda>e. (en_id e, en_machine_id e, en_token_digest e)) (rt_enrollments t)"

lemma map_update_where: "(\<And>r. g (f r) = g r) \<Longrightarrow> map g (update_where p f rows) = map g rows"
  by (simp add: update_where_def)

lemma attempt_keys_known:
  assumes "distinct (map at_id (rt_attempts t))" "(attempt_id, i, g) \<in> set (attempt_keys t)"
  shows "attempt_known attempt_id i g t"
  using assms distinct_same_id [OF assms(1)] by (fastforce simp: attempt_keys_def attempt_known_def)

lemma fail_one_keys:
  "attempt_keys (fail_one attempt_id i g unbound t) = attempt_keys t"
  "map at_id (rt_attempts (fail_one attempt_id i g unbound t)) = map at_id (rt_attempts t)"
  "rt_enrollments (fail_one attempt_id i g unbound t) = rt_enrollments t"
  by (simp_all add: fail_one_def Let_def attempt_keys_def map_update_where)

lemma moves_ok: "tables_ok t \<Longrightarrow> moves t t' \<Longrightarrow> map at_id (rt_attempts t') = map at_id (rt_attempts t) \<Longrightarrow>
    rt_enrollments t' = rt_enrollments t \<Longrightarrow> tables_ok t'"
  by (metis moves_def tables_ok_def)

lemma phase_ok_unique: "phase_ok p m bs as \<Longrightarrow> phase_ok q m bs as \<Longrightarrow> p = q"
  by (cases p; cases q) auto

lemma represents_unique: "represents i t v \<Longrightarrow> represents i t w \<Longrightarrow> v = w"
  by (auto simp: represents_def split: option.splits) (metis phase_ok_unique)

section \<open>Ownership\<close>

lemma bound_live: "bound i g t \<Longrightarrow> live_bindings i t \<noteq> []"
  by (auto simp: bound_def live_bindings_def list_ex_iff filter_empty_conv)

definition claim_tables :: "uuid \<Rightarrow> uuid \<Rightarrow> uuid \<Rightarrow> int \<Rightarrow> int \<Rightarrow> relay_tables \<Rightarrow> relay_tables" where
  "claim_tables u i c g e t = t\<lparr>
     rt_owners := update_where (\<lambda>r. ow_machine_id r = i) (\<lambda>r. r\<lparr>ow_connection_epoch := e, ow_owner := Some u, ow_connection := Some c\<rparr>) (rt_owners t),
     rt_machines := update_where (\<lambda>m. mc_id m = i \<and> mc_lifecycle m = LC_Verifying \<and> mc_route_revision m = g)
       (\<lambda>m. m\<lparr>mc_lifecycle := LC_Active\<rparr>) (rt_machines t)\<rparr>"

lemma claim_effect:
  assumes "claim_body V i c g s = (Ok e, s')"
  obtains ow a where "claimable i g (tx_tables s) = Some ow" "\<not> owner_leased (te_now V) (te_nodes V) ow" "e = ow_connection_epoch ow + 1"
    "tx_tables s' = (claim_tables (nl_incarnation_id (tx_lease s)) i c g e (tx_tables s))\<lparr>rt_audit := a\<rparr>"
proof -
  from assms show thesis
    by (auto simp: claim_body_def res_simps claim_tables_def dest!: guards_Ok split: option.splits intro!: that)
qed

lemma claimable_Some:
  assumes "claimable i g t = Some ow"
  shows "\<exists>m. machine_of i t = Some m \<and> mc_route_revision m = g \<and> mc_host_identity m \<noteq> None \<and> mc_lifecycle m \<in> {LC_Verifying, LC_Active}
    \<and> owner_of i t = Some ow \<and> bound i g t"
  using assms by (auto simp: claimable_def split: option.splits if_splits)

lemma claim_moves:
  assumes "claimable i g t = Some ow" "e = ow_connection_epoch ow + 1"
  shows "moves t (claim_tables u i c g e t)"
proof -
  from claimable_Some [OF assms(1)] obtain m0 where m0: "machine_of i t = Some m0" "mc_route_revision m0 = g"
      "mc_lifecycle m0 \<in> {LC_Verifying, LC_Active}" "owner_of i t = Some ow" "bound i g t" by blast
  let ?t = "claim_tables u i c g e t"
  show ?thesis
  proof (rule moves_machine [where i = i])
    show "same_view j t ?t" if "j \<noteq> i" for j
      using that by (auto simp: same_view_def claim_tables_def views intro!: filter_update_elsewhere)
    show "machines_at i t \<noteq> []" using machine_of_SomeD [OF m0(1)] by auto
    fix p m r
    assume m: "machines_at i t = [m]" "owners_at i t = [r]" "phase_ok p m (live_bindings i t) (live_attempts i t)" "owner_ok p m r"
      "mc_id m = i" "ow_machine_id r = i"
    from m(1,2) m0 have e: "m0 = m" "ow = r" by (simp_all add: machine_of_at owner_of_at)
    with m0 m(3) bound_live [OF m0(5)] have p: "p = P_Bound \<or> p = P_Active" by (cases p) auto
    let ?m = "m\<lparr>mc_lifecycle := LC_Active\<rparr>" and ?r = "r\<lparr>ow_connection_epoch := e, ow_owner := Some u, ow_connection := Some c\<rparr>"
    have "machines_at i ?t = [?m]" "owners_at i ?t = [?r]" "live_bindings i ?t = live_bindings i t" "live_attempts i ?t = live_attempts i t"
      using m m0 e p by (auto simp: claim_tables_def views filter_update)
    then have "represents i ?t (Some (abs_machine P_Active ?m ?r (live_bindings i t)))"
      using m p assms(2) e by (intro represents_Some) (auto simp: owner_ok_def)
    moreover have "machine_step (Some (abs_machine p m r (live_bindings i t))) (Some (abs_machine P_Active ?m ?r (live_bindings i t)))"
      using claim [of "abs_machine p m r (live_bindings i t)" "(u, c)"] p assms(2) e by (simp add: abs_machine_def owner_pair_def)
    ultimately show "\<exists>w. represents i ?t w \<and> machine_step (Some (abs_machine p m r (live_bindings i t))) w" by blast
  qed
qed

definition release_tables :: "uuid \<Rightarrow> uuid \<Rightarrow> uuid \<Rightarrow> int \<Rightarrow> relay_tables \<Rightarrow> relay_tables" where
  "release_tables u i c e t = t\<lparr>rt_owners := update_where (\<lambda>r. ow_machine_id r = i \<and> ow_owner r = Some u \<and> ow_connection r = Some c
      \<and> ow_connection_epoch r = e) (\<lambda>r. r\<lparr>ow_owner := None, ow_connection := None\<rparr>) (rt_owners t)\<rparr>"

lemma release_effect:
  assumes "owner_release_body V i c e s = (Ok x, s')"
  shows "\<exists>a. tx_tables s' = (release_tables (nl_incarnation_id (tx_lease s)) i c e (tx_tables s))\<lparr>rt_audit := a\<rparr>"
  using assms by (auto simp: owner_release_body_def res_simps Let_def release_tables_def dest!: guards_Ok)

lemma owners_at_nonempty: "represents i t v \<Longrightarrow> owners_at i t \<noteq> [] \<longleftrightarrow> machines_at i t \<noteq> []"
  by (auto simp: represents_def split: option.splits)

lemma release_moves: "moves t (release_tables u i c e t)"
proof (rule moves_one [where i = i])
  let ?t = "release_tables u i c e t"
  show "same_view j t ?t" if "j \<noteq> i" for j
    using that by (auto simp: same_view_def release_tables_def views intro!: filter_update_elsewhere)
  fix v assume v: "represents i t v"
  show "\<exists>w. represents i ?t w \<and> machine_step v w"
  proof (cases "machines_at i t = []")
    case True
    with v have "v = None" "owners_at i t = []" by (auto simp: represents_def split: option.splits)
    with v have "represents i ?t v" by (simp add: represents_def release_tables_def views filter_update)
    then show ?thesis using stay by blast
  next
    case False
    with v obtain p m r where m: "machines_at i t = [m]" "owners_at i t = [r]" "phase_ok p m (live_bindings i t) (live_attempts i t)"
      "owner_ok p m r" "v = Some (abs_machine p m r (live_bindings i t))" "ow_machine_id r = i" by (rule representsE)
    let ?hit = "ow_owner r = Some u \<and> ow_connection r = Some c \<and> ow_connection_epoch r = e"
    let ?r = "if ?hit then r\<lparr>ow_owner := None, ow_connection := None\<rparr> else r"
    have "machines_at i ?t = [m]" "owners_at i ?t = [?r]" "live_bindings i ?t = live_bindings i t" "live_attempts i ?t = live_attempts i t"
      using m by (auto simp: release_tables_def views filter_update)
    then have "represents i ?t (Some (abs_machine p m ?r (live_bindings i t)))"
      using m by (intro represents_Some) (auto simp: owner_ok_def)
    moreover have "machine_step v (Some (abs_machine p m ?r (live_bindings i t)))"
    proof (cases ?hit)
      case True
      with m(4) have "p = P_Active" by (auto simp: owner_ok_def)
      with True m(5) show ?thesis using release [of "abs_machine p m r (live_bindings i t)"] by (simp add: abs_machine_def owner_pair_def)
    next
      case False
      then have "?r = r" by (rule if_not_P)
      with m(5) show ?thesis by (simp only: stay)
    qed
    ultimately show ?thesis by blast
  qed
qed

section \<open>Administration\<close>

lemma views_enrollments [simp]:
  "machines_at i (t\<lparr>rt_enrollments := a\<rparr>) = machines_at i t" "owners_at i (t\<lparr>rt_enrollments := a\<rparr>) = owners_at i t"
  "live_bindings i (t\<lparr>rt_enrollments := a\<rparr>) = live_bindings i t" "live_attempts i (t\<lparr>rt_enrollments := a\<rparr>) = live_attempts i t"
  by (simp_all add: views)

lemma represents_enrollments [simp]: "represents i (t\<lparr>rt_enrollments := a\<rparr>) = represents i t"
  by (rule ext) (simp add: represents_def split: option.split)

lemma moves_enrollments [simp]: "moves t (t'\<lparr>rt_enrollments := a\<rparr>) = moves t t'"
  by (simp add: moves_def)

text \<open>Renaming a machine or changing its credential is no step of its life.\<close>

lemma edit_moves:
  assumes f: "\<And>m. mc_id (f m) = mc_id m \<and> mc_lifecycle (f m) = mc_lifecycle m \<and> mc_route_revision (f m) = mc_route_revision m
    \<and> mc_host_identity (f m) = mc_host_identity m"
  shows "moves t (t\<lparr>rt_machines := update_where p f (rt_machines t)\<rparr>)"
proof -
  let ?t = "t\<lparr>rt_machines := update_where p f (rt_machines t)\<rparr>"
  have at: "machines_at i ?t = update_where p f (machines_at i t)" for i
    using f by (simp add: machines_at_def filter_update)
  have phase: "phase_ok q (f m) bs as = phase_ok q m bs as" "owner_ok q (f m) r = owner_ok q m r" "abs_machine q (f m) r bs = abs_machine q m r bs"
    for q m bs as r using f [of m] by (cases q; simp add: owner_ok_def abs_machine_def)+
  have "represents i ?t v" if "represents i t v" for i v
    using that phase by (auto simp: represents_def at owners_at_def live_bindings_def live_attempts_def split: option.splits)
  then show ?thesis using stay unfolding moves_def by blast
qed

definition reopen_tables :: "uuid \<Rightarrow> relay_tables \<Rightarrow> relay_tables" where
  "reopen_tables i t = t\<lparr>rt_machines := update_where (\<lambda>m. mc_id m = i \<and> mc_lifecycle m = LC_Disabled) (\<lambda>m. m\<lparr>mc_lifecycle := LC_Pending\<rparr>) (rt_machines t)\<rparr>"

lemma reopen_moves:
  assumes "count_where (\<lambda>m. mc_id m = i \<and> mc_lifecycle m = LC_Disabled) (rt_machines t) = 1"
  shows "moves t (reopen_tables i t)"
proof -
  let ?t = "reopen_tables i t"
  show ?thesis
  proof (rule moves_machine [where i = i])
    show "same_view j t ?t" if "j \<noteq> i" for j
      using that by (auto simp: same_view_def reopen_tables_def views intro!: filter_update_elsewhere)
    show "machines_at i t \<noteq> []" using assms by (fastforce simp: count_where_def machines_at_def filter_empty_conv length_Suc_conv filter_eq_Cons_iff)
    fix p m r
    assume m: "machines_at i t = [m]" "owners_at i t = [r]" "phase_ok p m (live_bindings i t) (live_attempts i t)" "owner_ok p m r"
      "mc_id m = i" "ow_machine_id r = i"
    have "mc_lifecycle m = LC_Disabled" using count_one_at [OF assms _ m(1)] by simp
    with m(3) have p: "p = P_Disabled" "live_bindings i t = []" "live_attempts i t = []" by (cases p; simp)+
    let ?m = "m\<lparr>mc_lifecycle := LC_Pending\<rparr>"
    have "represents i ?t (Some (abs_machine P_Pending ?m r []))"
      using m p \<open>mc_lifecycle m = LC_Disabled\<close> by (intro represents_Some) (auto simp: reopen_tables_def views filter_update owner_ok_def)
    moreover have "machine_step (Some (abs_machine p m r (live_bindings i t))) (Some (abs_machine P_Pending ?m r []))"
      using reopen [of "abs_machine P_Disabled m r []"] p by (simp add: abs_machine_def)
    ultimately show "\<exists>w. represents i ?t w \<and> machine_step (Some (abs_machine p m r (live_bindings i t))) w" by blast
  qed
qed

definition create_tables :: "tx_env \<Rightarrow> machine_row \<Rightarrow> relay_tables \<Rightarrow> relay_tables" where
  "create_tables V m t = t\<lparr>rt_machines := rt_machines t @ [m],
     rt_owners := rt_owners t @ [\<lparr>ow_machine_id = mc_id m, ow_connection_epoch = 0, ow_owner = None, ow_connection = None, ow_route_revision = 1\<rparr>]\<rparr>"

lemma create_moves:
  assumes "machines_at (mc_id m) t = []" "mc_lifecycle m = LC_Pending" "mc_route_revision m = 1" "mc_host_identity m = None"
  shows "moves t (create_tables V m t)"
proof (rule moves_one [where i = "mc_id m"])
  let ?t = "create_tables V m t" and ?r = "\<lparr>ow_machine_id = mc_id m, ow_connection_epoch = 0, ow_owner = None, ow_connection = None, ow_route_revision = 1\<rparr>"
  show "same_view j t ?t" if "j \<noteq> mc_id m" for j
    using that by (simp add: same_view_def create_tables_def views)
  fix v assume "represents (mc_id m) t v"
  with assms(1) have v: "v = None" "owners_at (mc_id m) t = []" "live_bindings (mc_id m) t = []" "live_attempts (mc_id m) t = []"
    by (auto simp: represents_def split: option.splits)
  have "represents (mc_id m) ?t (Some (abs_machine P_Pending m ?r []))"
    using v assms by (intro represents_Some) (auto simp: create_tables_def views owner_ok_def)
  moreover have "machine_step v (Some (abs_machine P_Pending m ?r []))"
    using create v(1) assms by (simp add: abs_machine_def owner_pair_def)
  ultimately show "\<exists>w. represents (mc_id m) ?t w \<and> machine_step v w" by blast
qed

definition retire_tables :: "uuid \<Rightarrow> lifecycle \<Rightarrow> int \<Rightarrow> relay_tables \<Rightarrow> relay_tables" where
  "retire_tables i lc g t = t\<lparr>
     rt_bindings := update_where (\<lambda>b. bi_machine_id b = i \<and> bi_status b = BI_Active \<and> bi_route_revision b = g) (\<lambda>b. b\<lparr>bi_status := BI_Revoked\<rparr>) (rt_bindings t),
     rt_attempts := update_where (\<lambda>a. at_machine_id a = i \<and> at_status a = AT_Verifying) (\<lambda>a. a\<lparr>at_status := AT_Failed\<rparr>) (rt_attempts t),
     rt_enrollments := update_where (\<lambda>e. en_machine_id e = i \<and> en_status e = EN_Issued) (\<lambda>e. e\<lparr>en_status := EN_Cancelled\<rparr>) (rt_enrollments t),
     rt_owners := update_where (\<lambda>r. ow_machine_id r = i \<and> ow_route_revision r = g)
       (\<lambda>r. r\<lparr>ow_owner := None, ow_connection := None, ow_route_revision := g + 1\<rparr>) (rt_owners t),
     rt_machines := update_where (\<lambda>r. mc_id r = i \<and> mc_lifecycle r = LC_Active \<and> mc_route_revision r = g)
       (\<lambda>r. r\<lparr>mc_lifecycle := lc, mc_route_revision := g + 1\<rparr>) (rt_machines t)\<rparr>"

lemma transition_effect:
  assumes "transition_body V i lc action expected s = (Ok x, s')"
  obtains m ow n a where "m \<in> set (rt_machines (tx_tables s))" "mc_id m = i" "mc_lifecycle m = LC_Active"
    "mc_route_revision m = expected_revision expected" "owner_of i (tx_tables s) = Some ow" "owner_matches V n expected ow"
    "tx_tables s' = (retire_tables i lc (mc_route_revision m) (tx_tables s))\<lparr>rt_audit := a\<rparr>"
proof -
  let ?find = "List.find (\<lambda>m. mc_id m = i \<and> mc_lifecycle m = LC_Active) (rt_machines (tx_tables s))"
  from assms obtain m ow where m: "?find = Some m" "owner_of i (tx_tables s) = Some ow"
    by (cases ?find; cases "owner_of i (tx_tables s)") (auto simp: transition_body_def res_simps Let_def dest!: guards_Ok)
  from find_SomeD [OF m(1)] assms m show thesis
    by (auto simp: transition_body_def res_simps Let_def retire_tables_def cancel_issued_def dest!: guards_Ok intro!: that [of m])
qed

lemma filter_update_out:
  "(\<And>r. r \<in> set rows \<Longrightarrow> q r \<Longrightarrow> p r) \<Longrightarrow> (\<And>r. p r \<Longrightarrow> \<not> q (f r)) \<Longrightarrow> filter q (update_where p f rows) = []"
  by (induction rows) auto

lemma revoked_rows:
  assumes "live_bindings i t = [b0]" "bi_route_revision b0 = g"
  shows "filter (\<lambda>b. bi_machine_id b = i \<and> bi_status b = BI_Active)
     (update_where (\<lambda>b. bi_machine_id b = i \<and> bi_status b = BI_Active \<and> bi_route_revision b = g) (\<lambda>b. b\<lparr>bi_status := BI_Revoked\<rparr>) (rt_bindings t)) = []"
proof (rule filter_update_out)
  fix b assume "b \<in> set (rt_bindings t)" "bi_machine_id b = i \<and> bi_status b = BI_Active"
  then have "b \<in> set (live_bindings i t)" by (simp add: live_bindings_def)
  with assms \<open>bi_machine_id b = i \<and> bi_status b = BI_Active\<close> show "bi_machine_id b = i \<and> bi_status b = BI_Active \<and> bi_route_revision b = g" by simp
qed simp

lemma retire_moves:
  assumes "m0 \<in> set (rt_machines t)" "mc_id m0 = i" "mc_lifecycle m0 = LC_Active" "lc = LC_Pending \<or> lc = LC_Disabled"
  shows "moves t (retire_tables i lc (mc_route_revision m0) t)"
proof -
  let ?t = "retire_tables i lc (mc_route_revision m0) t" and ?g = "mc_route_revision m0"
  show ?thesis
  proof (rule moves_machine [where i = i])
    show "same_view j t ?t" if "j \<noteq> i" for j
      using that by (auto simp: same_view_def retire_tables_def views intro!: filter_update_elsewhere)
    have m0: "m0 \<in> set (machines_at i t)" using assms by (simp add: machines_at_def)
    then show "machines_at i t \<noteq> []" by auto
    fix p m r
    assume m: "machines_at i t = [m]" "owners_at i t = [r]" "phase_ok p m (live_bindings i t) (live_attempts i t)" "owner_ok p m r"
      "mc_id m = i" "ow_machine_id r = i"
    with m0 have e: "m0 = m" by simp
    with assms(3) m(3) obtain b where p: "p = P_Active" "live_bindings i t = [b]" "bi_route_revision b = ?g" "live_attempts i t = []"
      by (cases p) auto
    let ?m = "m\<lparr>mc_lifecycle := lc, mc_route_revision := ?g + 1\<rparr>" and ?p = "if lc = LC_Pending then P_Pending else P_Disabled"
    let ?r = "r\<lparr>ow_owner := None, ow_connection := None, ow_route_revision := ?g + 1\<rparr>"
    have "machines_at i ?t = [?m]" "owners_at i ?t = [?r]"
      using m(1,2,4,5,6) e assms(3) by (simp_all add: retire_tables_def views filter_update owner_ok_def)
    moreover have "live_bindings i ?t = []" using revoked_rows [OF p(2,3)] by (simp add: retire_tables_def live_bindings_def)
    moreover have "live_attempts i ?t = []"
      unfolding live_attempts_def by (simp add: retire_tables_def filter_update_out)
    ultimately have "represents i ?t (Some (abs_machine ?p ?m ?r []))"
      using m assms(4) e by (intro represents_Some) (auto simp: owner_ok_def)
    moreover have "machine_step (Some (abs_machine p m r (live_bindings i t))) (Some (abs_machine ?p ?m ?r []))"
      using retire [of "abs_machine P_Active m r [b]" ?p] p e by (simp add: abs_machine_def owner_pair_def)
    ultimately show "\<exists>w. represents i ?t w \<and> machine_step (Some (abs_machine p m r (live_bindings i t))) w" by blast
  qed
qed

end
