(* ===== verification/Credentials.thy ===== *)
theory Credentials
  imports Relay_Db Relay_Protocol
begin

text \<open>
  SSH credentials: the sealed envelopes that hold their private keys (\<open>crypto.rs\<close>), the canonical text of
  the 32-byte secrets of a deployment (\<open>auth.rs\<close>), and the API operations that create, rename, select and
  retire credentials (\<open>api/mod.rs\<close>). The XChaCha20-Poly1305 cipher, the generation of an Ed25519 key pair
  and base64url come from libraries: the cipher and base64 are parameters, the key pair is an input.
\<close>

section \<open>Envelopes\<close>

record aead =
  cx_encrypt :: "bytes \<Rightarrow> bytes \<Rightarrow> bytes \<Rightarrow> bytes \<Rightarrow> bytes option"
  cx_decrypt :: "bytes \<Rightarrow> bytes \<Rightarrow> bytes \<Rightarrow> bytes \<Rightarrow> bytes option"

text \<open>What the cipher documents, for a 32-byte key and a 24-byte nonce: a ciphertext is longer than empty
  (it carries the tag) and decrypts, under the same key, nonce and associated data, to the message it was
  made from; and nothing else decrypts, since decryption recomputes the tag.\<close>

definition aead_ok :: "aead \<Rightarrow> bool" where
  "aead_ok X \<longleftrightarrow> (\<forall>k n a m c. length k = 32 \<longrightarrow> length n = 24 \<longrightarrow>
     (cx_decrypt X k n a c = Some m \<longleftrightarrow> cx_encrypt X k n a m = Some c) \<and> (cx_encrypt X k n a m = Some c \<longrightarrow> c \<noteq> []))"

abbreviation (input) NONCE_LENGTH :: nat where "NONCE_LENGTH \<equiv> 24"
abbreviation (input) ENVELOPE_VERSION :: char where "ENVELOPE_VERSION \<equiv> CHR 0x01"

definition ENVELOPE_DOMAIN :: bytes where
  "ENVELOPE_DOMAIN = ''owlmux:ssh-private-key:v1'' @ [CHR 0x00]"

datatype crypto_error = CryptoError

definition associated_data :: "uuid \<Rightarrow> uuid \<Rightarrow> bytes" where
  "associated_data deployment_id credential_id = ENVELOPE_DOMAIN @ uuid_bytes deployment_id @ uuid_bytes credential_id"

definition seal :: "aead \<Rightarrow> bytes \<Rightarrow> bytes \<Rightarrow> uuid \<Rightarrow> uuid \<Rightarrow> bytes \<Rightarrow> crypto_error + bytes" where
  "seal X key nonce deployment_id credential_id plaintext =
     (case cx_encrypt X key nonce (associated_data deployment_id credential_id) plaintext of
        None \<Rightarrow> Err CryptoError
      | Some ciphertext \<Rightarrow> Ok (ENVELOPE_VERSION # nonce @ ciphertext))"

definition open_envelope :: "aead \<Rightarrow> bytes \<Rightarrow> uuid \<Rightarrow> uuid \<Rightarrow> bytes \<Rightarrow> crypto_error + bytes" where
  "open_envelope X key deployment_id credential_id envelope =
     (if envelope = [] \<or> hd envelope \<noteq> ENVELOPE_VERSION \<or> length envelope \<le> 1 + NONCE_LENGTH then Err CryptoError
      else (case cx_decrypt X key (take NONCE_LENGTH (drop 1 envelope)) (associated_data deployment_id credential_id)
              (drop (1 + NONCE_LENGTH) envelope) of
          None \<Rightarrow> Err CryptoError
        | Some plaintext \<Rightarrow> Ok plaintext))"

text \<open>The serialised forms of a random key pair; \<open>None\<close> when the library fails to make one.\<close>

record ssh_keypair =
  kp_private_openssh :: bytes
  kp_public_openssh :: bytes
  kp_fingerprint :: bytes

record generated_credential =
  gc_public_key :: bytes
  gc_public_fingerprint :: bytes
  gc_envelope :: bytes

definition generate_credential ::
  "aead \<Rightarrow> bytes \<Rightarrow> bytes \<Rightarrow> ssh_keypair option \<Rightarrow> uuid \<Rightarrow> uuid \<Rightarrow> crypto_error + generated_credential" where
  "generate_credential X key nonce private_key deployment_id credential_id =
     r_bind (ok_or private_key CryptoError) (\<lambda>kp.
     r_bind (seal X key nonce deployment_id credential_id (kp_private_openssh kp)) (\<lambda>envelope.
     Ok \<lparr>gc_public_key = kp_public_openssh kp, gc_public_fingerprint = kp_fingerprint kp, gc_envelope = envelope\<rparr>))"

section \<open>Secrets\<close>

record base64 =
  b64_encode :: "bytes \<Rightarrow> bytes"
  b64_decode :: "bytes \<Rightarrow> bytes option"

definition base64_ok :: "base64 \<Rightarrow> bool" where
  "base64_ok B \<longleftrightarrow> (\<forall>x. b64_decode B (b64_encode B x) = Some x)"

datatype secret_format_error = SecretFormatError

abbreviation (input) API_KEY_PREFIX :: bytes where "API_KEY_PREFIX \<equiv> ''owlmux_sk_v1_''"

definition decode_canonical_32 :: "base64 \<Rightarrow> bytes \<Rightarrow> secret_format_error + bytes" where
  "decode_canonical_32 B value = (case b64_decode B value of
     None \<Rightarrow> Err SecretFormatError
   | Some decoded \<Rightarrow> if length decoded \<noteq> 32 \<or> b64_encode B decoded \<noteq> value then Err SecretFormatError else Ok decoded)"

definition api_key_parse :: "base64 \<Rightarrow> bytes \<Rightarrow> secret_format_error + bytes" where
  "api_key_parse B value = (case strip_prefix API_KEY_PREFIX value of
     None \<Rightarrow> Err SecretFormatError
   | Some payload \<Rightarrow> decode_canonical_32 B payload)"

definition api_key_verify :: "base64 \<Rightarrow> bytes \<Rightarrow> bytes \<Rightarrow> bool" where
  "api_key_verify B key candidate = (case api_key_parse B candidate of
     Inl _ \<Rightarrow> False
   | Inr parsed \<Rightarrow> key = parsed)"

lemma canonical_32:
  assumes "base64_ok B"
  shows "decode_canonical_32 B value = Ok key \<longleftrightarrow> length key = 32 \<and> value = b64_encode B key"
  using assms by (auto simp: decode_canonical_32_def base64_ok_def split: option.splits if_splits)

lemma api_key_spelling:
  assumes "base64_ok B" "length key = 32"
  shows "api_key_verify B key candidate = (candidate = API_KEY_PREFIX @ b64_encode B key)"
proof (cases "strip_prefix API_KEY_PREFIX candidate")
  case None
  then have "candidate \<noteq> API_KEY_PREFIX @ b64_encode B key" using strip_prefix_append [of API_KEY_PREFIX] by auto
  with None show ?thesis by (simp add: api_key_verify_def api_key_parse_def)
next
  case (Some payload)
  then have c: "candidate = API_KEY_PREFIX @ payload" by (simp add: strip_prefix_Some_iff)
  have "api_key_verify B key candidate \<longleftrightarrow> decode_canonical_32 B payload = Ok key"
    using Some by (auto simp: api_key_verify_def api_key_parse_def split: sum.split)
  then show ?thesis using assms(2) by (simp add: canonical_32 [OF assms(1)] c)
qed

section \<open>Operations of the API\<close>

record credential_summary =
  cs_ssh_credential_id :: uuid
  cs_name :: bytes
  cs_public_key :: bytes
  cs_fingerprint :: bytes
  cs_is_default :: bool
  cs_bound_machine_count :: nat
  cs_status :: credential_status

definition credential_summary_of :: "relay_tables \<Rightarrow> credential_row \<Rightarrow> credential_summary" where
  "credential_summary_of t c = \<lparr>cs_ssh_credential_id = cr_id c, cs_name = cr_name c, cs_public_key = cr_public_key c,
     cs_fingerprint = cr_fingerprint c, cs_is_default = (cr_id c = rt_default_credential t),
     cs_bound_machine_count = count_where (\<lambda>m. mc_credential_id m = cr_id c) (rt_machines t), cs_status = cr_status c\<rparr>"

definition list_credentials :: "relay_tables \<Rightarrow> credential_summary list" where
  "list_credentials t = map (credential_summary_of t) (take 256 (rt_credentials t))"

definition credential_by_id :: "uuid \<Rightarrow> relay_tables \<Rightarrow> api_error + credential_summary" where
  "credential_by_id credential_id t = (case List.find (\<lambda>c. cr_id c = credential_id) (rt_credentials t) of
     None \<Rightarrow> Err AP_NotFound
   | Some c \<Rightarrow> Ok (credential_summary_of t c))"

definition enforce_credential_limit :: "(api_error, unit) tx" where
  "enforce_credential_limit = sr_bind (tx_read rt_credentials) (\<lambda>rows.
     tx_require (length rows < 256) (AP_Conflict ''credential_limit''))"

text \<open>The table's own checks on a new row: unique id and name, and the length of what it stores.\<close>

definition credential_fits :: "(bytes \<Rightarrow> bytes) \<Rightarrow> uuid \<Rightarrow> bytes \<Rightarrow> generated_credential \<Rightarrow> relay_tables \<Rightarrow> bool" where
  "credential_fits lower credential_id name g t \<longleftrightarrow>
     \<not> list_ex (\<lambda>c. cr_id c = credential_id \<or> lower (cr_name c) = lower name) (rt_credentials t)
     \<and> length (gc_public_key g) \<in> {40..1024} \<and> length (gc_public_fingerprint g) \<in> {16..128}
     \<and> length (gc_envelope g) \<in> {42..16384}"

definition insert_credential :: "(bytes \<Rightarrow> bytes) \<Rightarrow> uuid \<Rightarrow> bytes \<Rightarrow> generated_credential \<Rightarrow> (api_error, unit) tx" where
  "insert_credential lower credential_id name g =
     sr_bind (tx_read id) (\<lambda>t.
     sr_bind (tx_require (credential_fits lower credential_id name g t) (AP_Conflict ''conflict'')) (\<lambda>_.
     tx_write (\<lambda>t. t\<lparr>rt_credentials := rt_credentials t @ [\<lparr>cr_id = credential_id, cr_name = name,
       cr_public_key = gc_public_key g, cr_fingerprint = gc_public_fingerprint g, cr_envelope = gc_envelope g,
       cr_status = CR_Active\<rparr>]\<rparr>)))"

definition new_summary :: "uuid \<Rightarrow> bytes \<Rightarrow> generated_credential \<Rightarrow> bool \<Rightarrow> credential_summary" where
  "new_summary credential_id name g is_default = \<lparr>cs_ssh_credential_id = credential_id, cs_name = name,
     cs_public_key = gc_public_key g, cs_fingerprint = gc_public_fingerprint g, cs_is_default = is_default,
     cs_bound_machine_count = 0, cs_status = CR_Active\<rparr>"

text \<open>\<open>generated\<close> is the outcome of \<open>generate_credential\<close> for the fresh credential id \<open>te_fresh\<close>.\<close>

definition create_credential ::
  "db_fate \<Rightarrow> (bytes \<Rightarrow> bytes) \<Rightarrow> tx_env \<Rightarrow> crypto_error + generated_credential \<Rightarrow> bytes \<Rightarrow> (api_error, credential_summary) tx" where
  "create_credential fate lower V generated name =
     sr_bind (sr_lift (validate_name name)) (\<lambda>_.
     sr_bind (sr_lift (map_err (\<lambda>_. AP_Internal) generated)) (\<lambda>g. api_transaction fate (
     sr_bind (lock_current_deployment V) (\<lambda>_.
     sr_bind enforce_credential_limit (\<lambda>_.
     sr_bind (insert_credential lower (te_fresh V) name g) (\<lambda>_.
     sr_bind (tx_audit ''ssh_credential'' None (Some (te_fresh V)) ''create'') (\<lambda>_.
     sr_return (new_summary (te_fresh V) name g False))))))))"

text \<open>After the commit the answer is read back in a query of its own; \<open>later\<close> is what that query sees,
  \<open>None\<close> when it fails.\<close>

definition rename_credential ::
  "db_fate \<Rightarrow> (bytes \<Rightarrow> bytes) \<Rightarrow> tx_env \<Rightarrow> uuid \<Rightarrow> bytes \<Rightarrow> relay_tables option \<Rightarrow> (api_error, credential_summary) tx" where
  "rename_credential fate lower V credential_id name later =
     sr_bind (sr_lift (validate_name name)) (\<lambda>_.
     sr_bind (api_transaction fate (
       sr_bind (lock_current_deployment V) (\<lambda>_.
       sr_bind (tx_read rt_credentials) (\<lambda>rows.
       sr_bind (tx_require (\<not> list_ex (\<lambda>c. cr_id c = credential_id) rows
           \<or> \<not> list_ex (\<lambda>c. cr_id c \<noteq> credential_id \<and> lower (cr_name c) = lower name) rows) (AP_Conflict ''conflict'')) (\<lambda>_.
       sr_bind (tx_require (list_ex (\<lambda>c. cr_id c = credential_id) rows) AP_NotFound) (\<lambda>_.
       sr_bind (tx_write (\<lambda>t. t\<lparr>rt_credentials := update_where (\<lambda>c. cr_id c = credential_id) (\<lambda>c. c\<lparr>cr_name := name\<rparr>)
           (rt_credentials t)\<rparr>)) (\<lambda>_.
       tx_audit ''ssh_credential'' None (Some credential_id) ''rename''))))))) (\<lambda>_.
     sr_lift (case later of None \<Rightarrow> Err AP_TemporarilyUnavailable | Some t \<Rightarrow> credential_by_id credential_id t)))"

definition set_default_credential :: "db_fate \<Rightarrow> tx_env \<Rightarrow> uuid \<Rightarrow> (api_error, unit) tx" where
  "set_default_credential fate V credential_id = api_transaction fate (
     sr_bind (lock_current_deployment V) (\<lambda>_.
     sr_bind (tx_read (credential_active credential_id)) (\<lambda>active.
     sr_bind (tx_require active AP_NotFound) (\<lambda>_.
     sr_bind (tx_write (\<lambda>t. t\<lparr>rt_default_credential := credential_id\<rparr>)) (\<lambda>_.
     tx_audit ''ssh_credential'' None (Some credential_id) ''set_default'')))))"

definition reset_default_credential ::
  "db_fate \<Rightarrow> (bytes \<Rightarrow> bytes) \<Rightarrow> tx_env \<Rightarrow> crypto_error + generated_credential \<Rightarrow> bytes \<Rightarrow> (api_error, credential_summary) tx" where
  "reset_default_credential fate lower V generated name =
     sr_bind (sr_lift (validate_name name)) (\<lambda>_.
     sr_bind (sr_lift (map_err (\<lambda>_. AP_Internal) generated)) (\<lambda>g. api_transaction fate (
     sr_bind (lock_current_deployment V) (\<lambda>_.
     sr_bind enforce_credential_limit (\<lambda>_.
     sr_bind (insert_credential lower (te_fresh V) name g) (\<lambda>_.
     sr_bind (tx_write (\<lambda>t. t\<lparr>rt_default_credential := te_fresh V\<rparr>)) (\<lambda>_.
     sr_bind (tx_audit ''ssh_credential'' None (Some (te_fresh V)) ''reset_default'') (\<lambda>_.
     sr_return (new_summary (te_fresh V) name g True)))))))))"

definition retire_credential :: "db_fate \<Rightarrow> tx_env \<Rightarrow> uuid \<Rightarrow> (api_error, unit) tx" where
  "retire_credential fate V credential_id = api_transaction fate (
     sr_bind (lock_current_deployment V) (\<lambda>_.
     sr_bind (tx_read id) (\<lambda>t.
     sr_bind (tx_require (list_ex (\<lambda>c. cr_id c = credential_id) (rt_credentials t)) AP_NotFound) (\<lambda>_.
     let unused = (\<lambda>c. cr_id c = credential_id \<and> cr_status c = CR_Active \<and> rt_default_credential t \<noteq> cr_id c
           \<and> \<not> list_ex (\<lambda>m. mc_credential_id m = cr_id c) (rt_machines t)) in
     sr_bind (tx_require (count_where unused (rt_credentials t) = 1) (AP_Conflict ''credential_in_use'')) (\<lambda>_.
     sr_bind (tx_write (\<lambda>t. t\<lparr>rt_credentials := update_where unused (\<lambda>c. c\<lparr>cr_status := CR_Retired\<rparr>) (rt_credentials t)\<rparr>)) (\<lambda>_.
     tx_audit ''ssh_credential'' None (Some credential_id) ''retire''))))))"

end
