(* ===== verification/Machine_System.thy ===== *)
theory Machine_System
  imports Machine_Lifecycle Credentials
begin

text \<open>
  The transactions of \<open>Relay_Db\<close> in any order, on any nodes, with any outcome of their commits. A run
  remembers the enrolments the nodes have accepted, since \<open>activate\<close> and \<open>fail_attempt\<close> are called with
  one of them.
\<close>

lemma tx_check_tables: "tx_check rd e s = (x, s') \<Longrightarrow> tx_tables s' = tx_tables s"
  by (auto simp: tx_check_def split: prod.splits)

section \<open>Steps\<close>

text \<open>\<open>minted\<close> tells which outcomes the generation of a key pair for a deployment and a credential id can
  have.\<close>

type_synonym mint = "uuid \<Rightarrow> uuid \<Rightarrow> crypto_error + generated_credential \<Rightarrow> bool"

definition tx_run :: "('e, 'a) tx \<Rightarrow> node_lease \<Rightarrow> relay_tables \<Rightarrow> ('e + 'a) \<times> relay_tables" where
  "tx_run tx n t = (case tx \<lparr>tx_lease = n, tx_tables = t\<rparr> of (r, s) \<Rightarrow> (r, tx_tables s))"

record relay_world =
  rw_tables :: relay_tables
  rw_accepted :: "(bytes \<times> accepted_enrollment) list"

inductive table_step :: "(bytes \<Rightarrow> bytes) \<Rightarrow> (bytes \<Rightarrow> bool) \<Rightarrow> (bytes \<Rightarrow> bytes) \<Rightarrow> mint \<Rightarrow> relay_world \<Rightarrow> relay_world \<Rightarrow> bool"
  for sha256 is_host lower minted where
  rs_accept: "tx_run (accept_token fate sha256 V token) n (rw_tables w) = (Ok ac, t) \<Longrightarrow>
    table_step sha256 is_host lower minted w (w\<lparr>rw_tables := t, rw_accepted := (token_digest sha256 token, ac) # rw_accepted w\<rparr>)"
| rs_accept_failed: "tx_run (accept_token fate sha256 V token) n (rw_tables w) = (Err e, t) \<Longrightarrow>
    table_step sha256 is_host lower minted w (w\<lparr>rw_tables := t\<rparr>)"
| rs_activate: "(d, ac) \<in> set (rw_accepted w) \<Longrightarrow> tx_run (activate fate is_host V ac relay_id key host) n (rw_tables w) = (r, t) \<Longrightarrow>
    table_step sha256 is_host lower minted w (w\<lparr>rw_tables := t\<rparr>)"
| rs_fail: "(d, ac) \<in> set (rw_accepted w) \<Longrightarrow> tx_run (fail_attempt fate V ac) n (rw_tables w) = (r, t) \<Longrightarrow>
    table_step sha256 is_host lower minted w (w\<lparr>rw_tables := t\<rparr>)"
| rs_recover: "tx_run (recover_expired_attempts fate V scope) n (rw_tables w) = (r, t) \<Longrightarrow>
    table_step sha256 is_host lower minted w (w\<lparr>rw_tables := t\<rparr>)"
| rs_create: "tx_run (create_machine fate lower V token digest input) n (rw_tables w) = (y, t) \<Longrightarrow>
    table_step sha256 is_host lower minted w (w\<lparr>rw_tables := t\<rparr>)"
| rs_rename: "tx_run (rename_machine fate lower V i alias) n (rw_tables w) = (z, t) \<Longrightarrow>
    table_step sha256 is_host lower minted w (w\<lparr>rw_tables := t\<rparr>)"
| rs_rebind: "tx_run (rebind_machine_credential fate V i credential) n (rw_tables w) = (z, t) \<Longrightarrow>
    table_step sha256 is_host lower minted w (w\<lparr>rw_tables := t\<rparr>)"
| rs_re_enroll: "tx_run (re_enroll_disabled_machine fate V i) n (rw_tables w) = (z, t) \<Longrightarrow>
    table_step sha256 is_host lower minted w (w\<lparr>rw_tables := t\<rparr>)"
| rs_issue: "tx_run (issue_transaction fate V token i digest) n (rw_tables w) = (z, t) \<Longrightarrow>
    table_step sha256 is_host lower minted w (w\<lparr>rw_tables := t\<rparr>)"
| rs_cancel: "tx_run (cancel_enrollment_token fate V i) n (rw_tables w) = (z, t) \<Longrightarrow>
    table_step sha256 is_host lower minted w (w\<lparr>rw_tables := t\<rparr>)"
| rs_transition: "lc = LC_Pending \<or> lc = LC_Disabled \<Longrightarrow>
    tx_run (commit_active_machine_transition fate V i lc action expected) n (rw_tables w) = (z, t) \<Longrightarrow>
    table_step sha256 is_host lower minted w (w\<lparr>rw_tables := t\<rparr>)"
| rs_create_credential: "minted (te_deployment_id V) (te_fresh V) g \<Longrightarrow>
    tx_run (create_credential fate lower V g name) n (rw_tables w) = (c, t) \<Longrightarrow>
    table_step sha256 is_host lower minted w (w\<lparr>rw_tables := t\<rparr>)"
| rs_reset_credential: "minted (te_deployment_id V) (te_fresh V) g \<Longrightarrow>
    tx_run (reset_default_credential fate lower V g name) n (rw_tables w) = (c, t) \<Longrightarrow>
    table_step sha256 is_host lower minted w (w\<lparr>rw_tables := t\<rparr>)"
| rs_rename_credential: "tx_run (rename_credential fate lower V i name later) n (rw_tables w) = (c, t) \<Longrightarrow>
    table_step sha256 is_host lower minted w (w\<lparr>rw_tables := t\<rparr>)"
| rs_default_credential: "tx_run (set_default_credential fate V i) n (rw_tables w) = (z, t) \<Longrightarrow>
    table_step sha256 is_host lower minted w (w\<lparr>rw_tables := t\<rparr>)"
| rs_retire_credential: "tx_run (retire_credential fate V i) n (rw_tables w) = (z, t) \<Longrightarrow>
    table_step sha256 is_host lower minted w (w\<lparr>rw_tables := t\<rparr>)"

inductive relay_step :: "(bytes \<Rightarrow> bytes) \<Rightarrow> (bytes \<Rightarrow> bool) \<Rightarrow> (bytes \<Rightarrow> bytes) \<Rightarrow> mint \<Rightarrow> relay_world \<Rightarrow> relay_world \<Rightarrow> bool"
  for sha256 is_host lower minted where
  rs_table: "table_step sha256 is_host lower minted w w' \<Longrightarrow> relay_step sha256 is_host lower minted w w'"
| rs_claim: "tx_run (claim_owner fate V i c g) n (rw_tables w) = (x, t) \<Longrightarrow>
    relay_step sha256 is_host lower minted w (w\<lparr>rw_tables := t\<rparr>)"
| rs_release: "tx_run (release_owner fate V i c e) n (rw_tables w) = (r, t) \<Longrightarrow>
    relay_step sha256 is_host lower minted w (w\<lparr>rw_tables := t\<rparr>)"

abbreviation relay_reach :: "(bytes \<Rightarrow> bytes) \<Rightarrow> (bytes \<Rightarrow> bool) \<Rightarrow> (bytes \<Rightarrow> bytes) \<Rightarrow> mint \<Rightarrow> relay_world \<Rightarrow> relay_world \<Rightarrow> bool" where
  "relay_reach sha256 is_host lower minted \<equiv> (relay_step sha256 is_host lower minted)\<^sup>*\<^sup>*"

definition empty_world :: "credential_row list \<Rightarrow> uuid \<Rightarrow> relay_world" where
  "empty_world cs c = \<lparr>rw_tables = \<lparr>rt_machines = [], rt_enrollments = [], rt_attempts = [], rt_bindings = [], rt_owners = [],
     rt_credentials = cs, rt_default_credential = c, rt_audit = []\<rparr>, rw_accepted = []\<rparr>"

section \<open>What every transaction keeps\<close>

definition spent :: "bytes \<Rightarrow> relay_tables \<Rightarrow> bool" where
  "spent d t \<longleftrightarrow> list_ex (\<lambda>e. en_token_digest e = d \<and> en_status e \<noteq> EN_Issued) (rt_enrollments t)"

definition keys_ok :: "relay_tables \<Rightarrow> bool" where
  "keys_ok t \<longleftrightarrow> distinct (map fst (attempt_keys t)) \<and> distinct (map (snd \<circ> snd) (enrollment_keys t)) \<and> distinct (map fst (enrollment_keys t))"

definition grows :: "relay_tables \<Rightarrow> relay_tables \<Rightarrow> bool" where
  "grows t t' \<longleftrightarrow> moves t t' \<and> keys_ok t' \<and> set (attempt_keys t) \<subseteq> set (attempt_keys t') \<and> (\<forall>d. spent d t \<longrightarrow> spent d t')"

lemma tables_ok_keys: "tables_ok t \<longleftrightarrow> (\<forall>i. \<exists>v. represents i t v) \<and> keys_ok t"
  by (simp add: tables_ok_def keys_ok_def attempt_keys_def enrollment_keys_def comp_def)

lemma grows_ok: "tables_ok t \<Longrightarrow> grows t t' \<Longrightarrow> tables_ok t'"
  unfolding tables_ok_keys grows_def moves_def by blast

lemma growsI:
  assumes "tables_ok t" "moves t t'" "attempt_keys t' = attempt_keys t" "enrollment_keys t' = enrollment_keys t" "\<And>d. spent d t \<Longrightarrow> spent d t'"
  shows "grows t t'"
  using assms by (simp add: grows_def tables_ok_keys keys_ok_def)

lemma grows_refl: "tables_ok t \<Longrightarrow> grows t t"
  by (rule growsI) (auto intro: moves_refl)

lemma keys_simps [simp]:
  "attempt_keys (t\<lparr>rt_audit := a\<rparr>) = attempt_keys t" "enrollment_keys (t\<lparr>rt_audit := a\<rparr>) = enrollment_keys t" "spent d (t\<lparr>rt_audit := a\<rparr>) = spent d t"
  "attempt_keys (t\<lparr>rt_machines := ms\<rparr>) = attempt_keys t" "enrollment_keys (t\<lparr>rt_machines := ms\<rparr>) = enrollment_keys t" "spent d (t\<lparr>rt_machines := ms\<rparr>) = spent d t"
  "attempt_keys (t\<lparr>rt_owners := os\<rparr>) = attempt_keys t" "enrollment_keys (t\<lparr>rt_owners := os\<rparr>) = enrollment_keys t" "spent d (t\<lparr>rt_owners := os\<rparr>) = spent d t"
  "attempt_keys (t\<lparr>rt_bindings := bs\<rparr>) = attempt_keys t" "enrollment_keys (t\<lparr>rt_bindings := bs\<rparr>) = enrollment_keys t" "spent d (t\<lparr>rt_bindings := bs\<rparr>) = spent d t"
  "attempt_keys (t\<lparr>rt_enrollments := es\<rparr>) = attempt_keys t" "enrollment_keys (t\<lparr>rt_attempts := as\<rparr>) = enrollment_keys t" "spent d (t\<lparr>rt_attempts := as\<rparr>) = spent d t"
  by (simp_all add: attempt_keys_def enrollment_keys_def spent_def)

lemma keys_updates [simp]:
  "attempt_keys (t\<lparr>rt_attempts := update_where p (\<lambda>a. a\<lparr>at_status := s\<rparr>) (rt_attempts t')\<rparr>) = attempt_keys t'"
  "enrollment_keys (t\<lparr>rt_enrollments := update_where q (\<lambda>e. e\<lparr>en_status := s'\<rparr>) (rt_enrollments t')\<rparr>) = enrollment_keys t'"
  by (simp_all add: attempt_keys_def enrollment_keys_def map_update_where)

lemma spent_rows:
  "list_ex (\<lambda>e. en_token_digest e = d \<and> en_status e \<noteq> EN_Issued) rows \<Longrightarrow> s \<noteq> EN_Issued \<Longrightarrow>
   list_ex (\<lambda>e. en_token_digest e = d \<and> en_status e \<noteq> EN_Issued) (update_where p (\<lambda>e. e\<lparr>en_status := s\<rparr>) rows)"
  by (induction rows) auto

lemma spent_now:
  "e \<in> set rows \<Longrightarrow> list_ex (\<lambda>x. en_token_digest x = en_token_digest e \<and> en_status x \<noteq> EN_Issued)
     (update_where (\<lambda>x. en_id x = en_id e) (\<lambda>x. x\<lparr>en_status := EN_Consumed\<rparr>) rows)"
  by (induction rows) auto

lemma spent_update:
  "spent d t \<Longrightarrow> s \<noteq> EN_Issued \<Longrightarrow> spent d (t'\<lparr>rt_enrollments := update_where p (\<lambda>e. e\<lparr>en_status := s\<rparr>) (rt_enrollments t)\<rparr>)"
  by (simp add: spent_def spent_rows)

lemma grows_audit [simp]: "grows t (t'\<lparr>rt_audit := a\<rparr>) = grows t t'"
  by (simp add: grows_def keys_ok_def)

section \<open>Each transaction grows the tables\<close>

lemma accept_grows:
  assumes ok: "tables_ok t" and e: "issued_enrollment now digest t = Some (e, m)"
    and fresh: "\<not> list_ex (\<lambda>a. at_id a = te_fresh V \<or> at_enrollment_id a = en_id e \<or> (at_machine_id a = mc_id m \<and> at_status a = AT_Verifying)) (rt_attempts t)"
  shows "grows t (accept_tables V e m n t) \<and> spent digest (accept_tables V e m n t)
    \<and> (te_fresh V, mc_id m, mc_route_revision m) \<in> set (attempt_keys (accept_tables V e m n t))"
proof -
  let ?t = "accept_tables V e m n t"
  have ks: "attempt_keys ?t = attempt_keys t @ [(te_fresh V, mc_id m, mc_route_revision m)]" "enrollment_keys ?t = enrollment_keys t"
    by (simp_all add: accept_tables_def attempt_keys_def enrollment_keys_def map_update_where)
  have "te_fresh V \<notin> fst ` set (attempt_keys t)" using fresh by (auto simp: list_ex_iff attempt_keys_def)
  with ok have "keys_ok ?t" by (simp add: keys_ok_def ks tables_ok_keys)
  moreover have "spent d ?t" if "spent d t" for d
    using that by (simp add: spent_def spent_rows accept_tables_def)
  moreover have "spent digest ?t"
    using spent_now [OF issued_enrollment_Some(1) [OF e]] issued_enrollment_Some(2) [OF e] by (simp add: spent_def accept_tables_def)
  ultimately show ?thesis using accept_moves [OF e fresh] ks by (auto simp: grows_def)
qed

lemma activate_grows:
  assumes ok: "tables_ok t" and "attempt_valid V ac n t" "count_where (pinnable ac h) (rt_machines t) = 1"
  shows "grows t (activate_tables V ac relay_id public_key h t)"
proof (rule growsI [OF ok])
  show "moves t (activate_tables V ac relay_id public_key h t)"
    using activate_moves [OF _ assms(2,3)] ok by (simp add: tables_ok_def)
qed (simp_all add: activate_tables_def)

lemma fail_one_grows:
  assumes "tables_ok t" "(attempt_id, i, g) \<in> set (attempt_keys t)" "unbound \<or> bound i g t"
  shows "grows t (fail_one attempt_id i g unbound t)"
proof (rule growsI [OF assms(1)])
  show "moves t (fail_one attempt_id i g unbound t)"
    using assms attempt_keys_known by (intro fail_one_moves) (auto simp: tables_ok_def)
qed (simp_all add: fail_one_keys(1), simp_all add: enrollment_keys_def spent_def fail_one_keys(3))

lemma fail_one_other:
  assumes "attempt_known attempt_id i g t" "j \<noteq> i"
  shows "same_view j t (fail_one attempt_id i g unbound t)"
  using assms by (auto simp: same_view_def fail_one_def Let_def views attempt_known_def intro!: filter_update_elsewhere)

lemma recover_one_audit: "\<exists>x. recover_one a t = (fail_one (at_id a) (at_machine_id a) (at_route_revision a)
    (\<not> bound (at_machine_id a) (at_route_revision a) t) t)\<lparr>rt_audit := x\<rparr>"
proof (cases "count_where (\<lambda>x. at_id x = at_id a \<and> at_status x = AT_Verifying) (rt_attempts t) = 1")
  case False
  then have "recover_one a t = fail_one (at_id a) (at_machine_id a) (at_route_revision a) (\<not> bound (at_machine_id a) (at_route_revision a) t) t"
    by (simp add: recover_one_def Let_def)
  then show ?thesis by (metis relay_tables.surjective relay_tables.update_convs(8))
qed (auto simp: recover_one_def Let_def)

lemma same_view_trans: "same_view i t u \<Longrightarrow> same_view i u v \<Longrightarrow> same_view i t v"
  by (simp add: same_view_def)

lemma same_view_audit [simp]: "same_view i t (t'\<lparr>rt_audit := a\<rparr>) = same_view i t t'"
  by (simp add: same_view_def)

lemma moves_then_same:
  assumes "moves t u" "moves u v" "\<And>i. same_view i t u \<or> same_view i u v"
  shows "moves t v"
  unfolding moves_def
proof (intro allI impI)
  fix i x assume x: "represents i t x"
  with assms(1) obtain y where y: "represents i u y" "machine_step x y" unfolding moves_def by blast
  from assms(3) [of i] show "\<exists>w. represents i v w \<and> machine_step x w"
  proof
    assume "same_view i t u"
    with x have "represents i u x" using same_view_represents by blast
    with assms(2) show ?thesis unfolding moves_def by blast
  next
    assume "same_view i u v"
    with y show ?thesis using same_view_represents by blast
  qed
qed

lemma recover_grows:
  assumes "tables_ok t" "\<forall>a \<in> set rows. a \<in> set (rt_attempts t)" "distinct (map at_machine_id rows)"
  shows "grows t (fold recover_one rows t) \<and> (\<forall>j. j \<notin> at_machine_id ` set rows \<longrightarrow> same_view j t (fold recover_one rows t))"
  using assms
proof (induction rows arbitrary: t)
  case Nil
  then show ?case by (simp add: grows_refl same_view_def)
next
  case (Cons a rows)
  let ?i = "at_machine_id a" and ?u = "recover_one a t"
  from recover_one_audit obtain x where u: "?u = (fail_one (at_id a) ?i (at_route_revision a) (\<not> bound ?i (at_route_revision a) t) t)\<lparr>rt_audit := x\<rparr>"
    by blast
  have key: "(at_id a, ?i, at_route_revision a) \<in> set (attempt_keys t)" using Cons.prems(2) by (auto simp: attempt_keys_def)
  then have g: "grows t ?u" unfolding u by (simp add: fail_one_grows Cons.prems(1))
  have known: "attempt_known (at_id a) ?i (at_route_revision a) t" using Cons.prems(1) key by (auto intro: attempt_keys_known simp: tables_ok_def)
  then have sv: "same_view j t ?u" if "j \<noteq> ?i" for j unfolding u using that by (simp add: fail_one_other)
  have rows: "b \<in> set (rt_attempts ?u)" if "b \<in> set rows" for b
  proof -
    have b: "b \<in> set (rt_attempts t)" using that Cons.prems(2) by simp
    have "at_machine_id b \<in> at_machine_id ` set rows" using that by simp
    with Cons.prems(3) have "at_machine_id b \<noteq> ?i" by auto
    with b known have "at_id b \<noteq> at_id a" by (auto simp: attempt_known_def)
    with b show ?thesis unfolding u by (auto simp: fail_one_def Let_def update_where_def)
  qed
  have IH: "grows ?u (fold recover_one rows ?u)" "\<And>j. j \<notin> at_machine_id ` set rows \<Longrightarrow> same_view j ?u (fold recover_one rows ?u)"
    using Cons.IH [OF grows_ok [OF Cons.prems(1) g]] rows Cons.prems(3) by auto
  have "moves t (fold recover_one rows ?u)"
  proof (rule moves_then_same)
    show "moves t ?u" "moves ?u (fold recover_one rows ?u)" using g IH(1) by (simp_all add: grows_def)
    show "same_view i t ?u \<or> same_view i ?u (fold recover_one rows ?u)" for i
      using sv IH(2) Cons.prems(3) by (cases "i = ?i") auto
  qed
  with g IH(1) have "grows t (fold recover_one rows ?u)" unfolding grows_def by blast
  with sv IH(2) show ?case by (auto intro: same_view_trans)
qed

lemma expired_distinct:
  assumes "tables_ok t"
  shows "distinct (map at_machine_id (expired_attempts now scope t)) \<and> set (expired_attempts now scope t) \<subseteq> set (rt_attempts t)"
proof -
  let ?rows = "expired_attempts now scope t"
  have "distinct (rt_attempts t)" using assms by (simp add: tables_ok_def distinct_map)
  then have d: "distinct ?rows" by (simp add: expired_attempts_def)
  have mem: "a \<in> set (rt_attempts t) \<and> at_status a = AT_Verifying" if "a \<in> set ?rows" for a
    using set_take_subset [of 128] that by (fastforce simp: expired_attempts_def)
  have "a = b" if "a \<in> set ?rows" "b \<in> set ?rows" "at_machine_id a = at_machine_id b" for a b
  proof -
    have "a \<in> set (live_attempts (at_machine_id a) t)" "b \<in> set (live_attempts (at_machine_id a) t)"
      using mem that by (simp_all add: live_attempts_def)
    moreover from this(1) have "live_attempts (at_machine_id a) t = [a]" by (rule live_attempt_phase [OF assms])
    ultimately show ?thesis by simp
  qed
  with d mem show ?thesis by (auto simp: distinct_map inj_on_def)
qed

lemma expired_grows: "tables_ok t \<Longrightarrow> grows t (fold recover_one (expired_attempts now scope t) t)"
  using expired_distinct [of t now scope] recover_grows [of t "expired_attempts now scope t"] by blast

text \<open>The enrolments of a machine may be cancelled and a new one inserted beside any move.\<close>

lemma cancel_keys [simp]:
  "attempt_keys (cancel_issued i t) = attempt_keys t" "enrollment_keys (cancel_issued i t) = enrollment_keys t"
  "moves t' (cancel_issued i t) = moves t' t" "machines_at j (cancel_issued i t) = machines_at j t"
  by (simp_all add: cancel_issued_def)

lemma cancel_spent: "spent d t \<Longrightarrow> spent d (cancel_issued i t)"
  by (simp add: cancel_issued_def spent_update)

lemma cancel_grows: "tables_ok t \<Longrightarrow> grows t (cancel_issued i t)"
  by (rule growsI) (auto intro: moves_refl cancel_spent)

definition enroll_tables :: "tx_env \<Rightarrow> uuid \<Rightarrow> uuid \<Rightarrow> bytes \<Rightarrow> relay_tables \<Rightarrow> relay_tables" where
  "enroll_tables V fresh i digest t = t\<lparr>rt_enrollments := rt_enrollments t @ [\<lparr>en_id = fresh, en_machine_id = i, en_token_digest = digest,
       en_expires_at = te_now V + TOKEN_TTL_SECONDS * NS, en_status = EN_Issued\<rparr>]\<rparr>"

lemma insert_enrollment_effect:
  assumes "insert_enrollment V fresh i digest s = (Ok x, s')"
  shows "s' = s\<lparr>tx_tables := enroll_tables V fresh i digest (tx_tables s)\<rparr>
    \<and> fresh \<notin> set (map fst (enrollment_keys (tx_tables s))) \<and> digest \<notin> set (map (snd \<circ> snd) (enrollment_keys (tx_tables s)))"
  using assms by (auto simp: insert_enrollment_def res_simps enroll_tables_def enrollment_keys_def list_ex_iff)

lemma enroll_grows:
  assumes "grows t t'" "fresh \<notin> set (map fst (enrollment_keys t'))" "digest \<notin> set (map (snd \<circ> snd) (enrollment_keys t'))"
  shows "grows t (enroll_tables V fresh i digest t')"
proof -
  have "enrollment_keys (enroll_tables V fresh i digest t') = enrollment_keys t' @ [(fresh, i, digest)]"
    "attempt_keys (enroll_tables V fresh i digest t') = attempt_keys t'" "moves t (enroll_tables V fresh i digest t') = moves t t'"
    by (simp_all add: enroll_tables_def enrollment_keys_def)
  moreover have "spent d (enroll_tables V fresh i digest t')" if "spent d t'" for d
    using that by (simp add: spent_def enroll_tables_def)
  ultimately show ?thesis using assms unfolding grows_def keys_ok_def by simp
qed

lemma tx_run_cases:
  assumes "tx_run (run_transaction e e' fate body) n t = (r, t')"
  obtains "t' = t" | a s where "body \<lparr>tx_lease = n, tx_tables = t\<rparr> = (Ok a, s)" "t' = tx_tables s"
  using assms run_transaction_tables [of e e' fate body "\<lparr>tx_lease = n, tx_tables = t\<rparr>"]
  by (fastforce simp: tx_run_def split: prod.splits)

text \<open>A claim and a release change the tables as their transaction does; a claim may add an audit record.\<close>

lemma claim_owner_run:
  assumes "tx_run (claim_owner fate V i c g) n t = (x, t')"
  obtains r u where "tx_run (run_transaction R_Unavailable R_Ambiguous fate (claim_body V i c g)) n t = (r, u)"
    "\<exists>a. t' = u\<lparr>rt_audit := a\<rparr>"
proof -
  have audit: "\<exists>a. u = u\<lparr>rt_audit := a\<rparr>" for u :: relay_tables
    by (metis relay_tables.surjective relay_tables.update_convs(8))
  from assms show thesis
    by (intro that [OF prod.collapse [symmetric]])
      (auto simp: tx_run_def claim_owner_def audit split: prod.splits sum.splits if_splits)
qed

lemma release_owner_run:
  "tx_run (release_owner fate V i c e) n t = (r, t') \<Longrightarrow>
     \<exists>r'. tx_run (run_transaction R_Unavailable R_Ambiguous fate (owner_release_body V i c e)) n t = (r', t')"
  by (auto simp: tx_run_def release_owner_def split: prod.splits sum.splits)

text \<open>A relation between the tables before and after is shown for a transaction by showing it for the body
  that succeeds: every other outcome leaves the tables as they were.\<close>

locale tx_relation =
  fixes R :: "relay_tables \<Rightarrow> relay_tables \<Rightarrow> bool"
  assumes same: "R t t"
begin

lemma run:
  assumes "tx_run (run_transaction e e' fate body) n t = (r, t')"
    and "\<And>a s. body \<lparr>tx_lease = n, tx_tables = t\<rparr> = (Ok a, s) \<Longrightarrow> R t (tx_tables s)"
  shows "R t t'"
  using assms(1) by (rule tx_run_cases) (use assms(2) same in auto)

lemma validated:
  assumes "tx_run (sr_bind (sr_lift v) tx) n t = (r, t')" "\<And>x r. v = Ok x \<Longrightarrow> tx_run (tx x) n t = (r, t') \<Longrightarrow> R t t'"
  shows "R t t'"
  using assms same by (cases v) (auto simp: tx_run_def res_simps sr_bind_def sr_lift_def split: prod.splits)

lemma answered:
  assumes "tx_run (sr_bind tx (\<lambda>_. sr_lift v)) n t = (r, t')" "\<And>r. tx_run tx n t = (r, t') \<Longrightarrow> R t t'"
  shows "R t t'"
  using assms by (auto simp: tx_run_def sr_bind_def sr_lift_def split: prod.splits sum.splits)

end

interpretation gr: tx_relation "\<lambda>t t'. tables_ok t \<longrightarrow> grows t t'"
  by unfold_locales (simp add: grows_refl)

lemma tx_run_grows:
  assumes "tx_run (run_transaction e e' fate body) n t = (r, t')" "tables_ok t"
    and "\<And>a s. body \<lparr>tx_lease = n, tx_tables = t\<rparr> = (Ok a, s) \<Longrightarrow> grows t (tx_tables s)"
  shows "grows t t'"
  using gr.run [OF assms(1)] assms(2,3) by blast

text \<open>The operations on credentials touch nothing else.\<close>

definition only_credentials :: "relay_tables \<Rightarrow> relay_tables \<Rightarrow> bool" where
  "only_credentials t t' \<longleftrightarrow> (\<exists>cs c a. t' = t\<lparr>rt_credentials := cs, rt_default_credential := c, rt_audit := a\<rparr>)"

interpretation oc: tx_relation only_credentials
  by unfold_locales (metis only_credentials_def relay_tables.surjective relay_tables.update_convs(6,7,8))

lemma insert_credential_Ok: "insert_credential lower i name g s = (Ok u, s') \<longleftrightarrow> credential_fits lower i name g (tx_tables s)
    \<and> s' = s\<lparr>tx_tables := (tx_tables s)\<lparr>rt_credentials := rt_credentials (tx_tables s) @ [\<lparr>cr_id = i, cr_name = name,
       cr_public_key = gc_public_key g, cr_fingerprint = gc_public_fingerprint g, cr_envelope = gc_envelope g, cr_status = CR_Active\<rparr>]\<rparr>\<rparr>"
  by (auto simp: insert_credential_def res_simps)

lemma only_credentialsI:
  assumes "rt_machines t' = rt_machines t" "rt_enrollments t' = rt_enrollments t" "rt_attempts t' = rt_attempts t"
    "rt_bindings t' = rt_bindings t" "rt_owners t' = rt_owners t"
  shows "only_credentials t t'"
  using assms unfolding only_credentials_def
  by (intro exI [of _ "rt_credentials t'"] exI [of _ "rt_default_credential t'"] exI [of _ "rt_audit t'"]) simp

lemmas credential_op_simps = enforce_credential_limit_def insert_credential_Ok Let_def

lemma credential_tx_only:
  "tx_run (create_credential fate lower V g name) n t = (c, t') \<Longrightarrow> only_credentials t t'"
  "tx_run (reset_default_credential fate lower V g name) n t = (c, t') \<Longrightarrow> only_credentials t t'"
  "tx_run (rename_credential fate lower V i name later) n t = (c, t') \<Longrightarrow> only_credentials t t'"
  "tx_run (set_default_credential fate V i) n t = (z, t') \<Longrightarrow> only_credentials t t'"
  "tx_run (retire_credential fate V i) n t = (z, t') \<Longrightarrow> only_credentials t t'"
proof -
  show "tx_run (create_credential fate lower V g name) n t = (c, t') \<Longrightarrow> only_credentials t t'"
    unfolding create_credential_def
    by (erule oc.validated, erule oc.validated, erule oc.run) (auto simp: res_simps credential_op_simps dest!: guards_Ok intro!: only_credentialsI)
  show "tx_run (reset_default_credential fate lower V g name) n t = (c, t') \<Longrightarrow> only_credentials t t'"
    unfolding reset_default_credential_def
    by (erule oc.validated, erule oc.validated, erule oc.run) (auto simp: res_simps credential_op_simps dest!: guards_Ok intro!: only_credentialsI)
  show "tx_run (rename_credential fate lower V i name later) n t = (c, t') \<Longrightarrow> only_credentials t t'"
    unfolding rename_credential_def
    by (erule oc.validated, erule oc.answered, erule oc.run) (auto simp: res_simps dest!: guards_Ok intro!: only_credentialsI)
  show "tx_run (set_default_credential fate V i) n t = (z, t') \<Longrightarrow> only_credentials t t'"
    unfolding set_default_credential_def by (erule oc.run) (auto simp: res_simps dest!: guards_Ok intro!: only_credentialsI)
  show "tx_run (retire_credential fate V i) n t = (z, t') \<Longrightarrow> only_credentials t t'"
    unfolding retire_credential_def by (erule oc.run) (auto simp: res_simps Let_def dest!: guards_Ok intro!: only_credentialsI)
qed

lemma machines_at_empty: "machines_at i t = [] \<longleftrightarrow> \<not> list_ex (\<lambda>m. mc_id m = i) (rt_machines t)"
  by (auto simp: machines_at_def filter_empty_conv list_ex_iff)

lemma create_grows:
  assumes "create_body lower V token digest input \<lparr>tx_lease = n, tx_tables = t\<rparr> = (Ok a, s)" "tables_ok t"
  shows "grows t (tx_tables s)"
proof -
  from assms(1) obtain cr u s1 where u: "machines_at (te_fresh V) t = []"
      "insert_enrollment V token (te_fresh V) digest s1 = (Ok (), u)"
      "tx_tables s1 = create_tables V \<lparr>mc_id = te_fresh V, mc_credential_id = cr, mc_alias = ci_alias input,
         mc_lifecycle = LC_Pending, mc_route_revision = 1, mc_credential_revision = 1, mc_target_account = ci_target_account input,
         mc_tmux_path = ci_tmux_path input, mc_tmux_socket = ci_tmux_socket_identity input, mc_host_identity = None\<rparr> t"
      "tx_tables s = (tx_tables u)\<lparr>rt_audit := rt_audit (tx_tables u) @ [audit ''machine'' (Some (te_fresh V)) None ''create'' ''success'']\<rparr>"
    unfolding create_body_def
    by (auto simp: res_simps Let_def machines_at_empty list_ex_iff create_tables_def dest!: guards_Ok)
  have "moves t (tx_tables s1)" unfolding u(3) by (rule create_moves) (simp_all add: u(1))
  then have "grows t (tx_tables s1)" by (intro growsI [OF assms(2)]) (simp_all add: u(3) create_tables_def)
  with insert_enrollment_effect [OF u(2)] show ?thesis
    by (auto simp: u(4) intro: enroll_grows)
qed

section \<open>Runs\<close>

definition world_ok :: "relay_world \<Rightarrow> bool" where
  "world_ok w \<longleftrightarrow> tables_ok (rw_tables w) \<and> distinct (map fst (rw_accepted w))
     \<and> (\<forall>(d, ac) \<in> set (rw_accepted w). spent d (rw_tables w)
          \<and> (ac_attempt_id ac, ac_machine_id ac, ac_route_revision ac) \<in> set (attempt_keys (rw_tables w)))"

lemma accept_token_cases:
  assumes "tx_run (accept_token fate sha256 V token) n t = (r, t')" "tables_ok t"
  shows "grows t t'" "r = Ok ac \<Longrightarrow> \<not> spent (token_digest sha256 token) t \<and> spent (token_digest sha256 token) t'
    \<and> (ac_attempt_id ac, ac_machine_id ac, ac_route_revision ac) \<in> set (attempt_keys t')"
proof -
  let ?body = "accept_body V (token_digest sha256 token)" and ?s = "\<lparr>tx_lease = n, tx_tables = t\<rparr>"
  have acc: "grows t (tx_tables s) \<and> \<not> spent (token_digest sha256 token) t \<and> spent (token_digest sha256 token) (tx_tables s)
      \<and> (ac_attempt_id a, ac_machine_id a, ac_route_revision a) \<in> set (attempt_keys (tx_tables s))" if "?body ?s = (Ok a, s)" for a s
    using that
  proof (rule accept_effect, goal_cases)
    case (1 e m)
    have iss: "issued_enrollment (te_now V) (token_digest sha256 token) t = Some (e, m)" using 1(1) by simp
    have "\<not> spent (token_digest sha256 token) t"
    proof
      assume "spent (token_digest sha256 token) t"
      then obtain e' where e': "e' \<in> set (rt_enrollments t)" "en_token_digest e' = token_digest sha256 token" "en_status e' \<noteq> EN_Issued"
        by (auto simp: spent_def list_ex_iff)
      with issued_enrollment_Some(1,2) [OF iss] assms(2) have "e' = e"
        unfolding tables_ok_def distinct_map inj_on_def by metis
      with e'(3) issued_enrollment_Some(3) [OF iss] show False by simp
    qed
    with accept_grows [OF assms(2) iss] 1 show ?case by simp
  qed
  have early: "t' = t \<and> \<not> is_ok r" if "\<not> starts_with ENROLLMENT_PREFIX token \<or> length token > 80"
    using assms(1) that by (auto simp: accept_token_def tx_run_def sr_leaf is_ok_def)
  show "grows t t'"
    using early assms acc grows_refl by (cases "\<not> starts_with ENROLLMENT_PREFIX token \<or> length token > 80")
      (auto simp: accept_token_def elim!: tx_run_grows)
  show "\<not> spent (token_digest sha256 token) t \<and> spent (token_digest sha256 token) t'
    \<and> (ac_attempt_id ac, ac_machine_id ac, ac_route_revision ac) \<in> set (attempt_keys t')" if "r = Ok ac"
  proof (cases "\<not> starts_with ENROLLMENT_PREFIX token \<or> length token > 80")
    case True
    with early that show ?thesis by (simp add: is_ok_def)
  next
    case False
    with assms(1) that obtain s where "?body ?s = (Ok ac, s)" "t' = tx_tables s"
      by (auto simp: accept_token_def tx_run_def run_transaction_def split: if_splits prod.splits sum.splits db_fate.splits)
    with acc show ?thesis by blast
  qed
qed

lemma relay_tx_grows:
  assumes ok: "tables_ok t"
  shows "tx_run (activate fate is_host V ac relay_id key host) n t = (r, t') \<Longrightarrow> grows t t'"
    "(ac_attempt_id ac, ac_machine_id ac, ac_route_revision ac) \<in> set (attempt_keys t) \<Longrightarrow>
       tx_run (fail_attempt fate V ac) n t = (r, t') \<Longrightarrow> grows t t'"
    "tx_run (recover_expired_attempts fate V scope) n t = (r, t') \<Longrightarrow> grows t t'"
    "tx_run (claim_owner fate V i c g) n t = (x, t') \<Longrightarrow> grows t t'"
    "tx_run (release_owner fate V i c e) n t = (r, t') \<Longrightarrow> grows t t'"
proof -
  show "tx_run (activate fate is_host V ac relay_id key host) n t = (r, t') \<Longrightarrow> grows t t'"
    using ok by (auto simp: activate_def elim!: tx_run_grows dest!: activate_effect) (metis One_nat_def activate_grows)
  show "(ac_attempt_id ac, ac_machine_id ac, ac_route_revision ac) \<in> set (attempt_keys t) \<Longrightarrow>
       tx_run (fail_attempt fate V ac) n t = (r, t') \<Longrightarrow> grows t t'"
    using ok by (auto simp: fail_attempt_def res_simps elim!: tx_run_grows dest!: guards_Ok intro!: fail_one_grows)
  show "tx_run (recover_expired_attempts fate V scope) n t = (r, t') \<Longrightarrow> grows t t'"
    using ok expired_grows by (auto simp: recover_expired_attempts_def recover_body_def res_simps elim!: tx_run_grows dest!: guards_Ok)
  have claim: "grows t (tx_tables s)" if "claim_body V i c g \<lparr>tx_lease = n, tx_tables = t\<rparr> = (Ok e, s)" for e s
    using that by (rule claim_effect) (use claim_moves in \<open>auto intro!: growsI [OF ok] simp: claim_tables_def\<close>)
  show "tx_run (claim_owner fate V i c g) n t = (x, t') \<Longrightarrow> grows t t'"
    using claim run_transaction_tables [of _ _ fate "claim_body V i c g" "\<lparr>tx_lease = n, tx_tables = t\<rparr>"] grows_refl [OF ok]
    by (fastforce simp: tx_run_def claim_owner_def split: prod.splits sum.splits if_splits)
  have release: "grows t (tx_tables s)" if "owner_release_body V i c e \<lparr>tx_lease = n, tx_tables = t\<rparr> = (Ok x, s)" for x s
    using release_effect [OF that] release_moves by (auto intro!: growsI [OF ok] simp: release_tables_def)
  show "tx_run (release_owner fate V i c e) n t = (r, t') \<Longrightarrow> grows t t'"
    using release run_transaction_tables [of _ _ fate "owner_release_body V i c e" "\<lparr>tx_lease = n, tx_tables = t\<rparr>"] grows_refl [OF ok]
    by (fastforce simp: tx_run_def release_owner_def split: prod.splits sum.splits)
qed

lemma edit_grows:
  assumes "tables_ok t" "\<And>m. mc_id (f m) = mc_id m \<and> mc_lifecycle (f m) = mc_lifecycle m \<and> mc_route_revision (f m) = mc_route_revision m
    \<and> mc_host_identity (f m) = mc_host_identity m"
  shows "grows t (t\<lparr>rt_machines := update_where p f (rt_machines t)\<rparr>)"
  using edit_moves [of f t p] assms by (intro growsI) auto

lemma api_tx_grows:
  assumes ok: "tables_ok t"
  shows "tx_run (create_machine fate lower V token digest input) n t = (y, t') \<Longrightarrow> grows t t'"
    "tx_run (rename_machine fate lower V i alias) n t = (z, t') \<Longrightarrow> grows t t'"
    "tx_run (rebind_machine_credential fate V i credential) n t = (z, t') \<Longrightarrow> grows t t'"
    "tx_run (re_enroll_disabled_machine fate V i) n t = (z, t') \<Longrightarrow> grows t t'"
    "tx_run (issue_transaction fate V token i digest) n t = (z, t') \<Longrightarrow> grows t t'"
    "tx_run (cancel_enrollment_token fate V i) n t = (z, t') \<Longrightarrow> grows t t'"
    "lc = LC_Pending \<or> lc = LC_Disabled \<Longrightarrow> tx_run (commit_active_machine_transition fate V i lc action expected) n t = (z, t') \<Longrightarrow> grows t t'"
proof -
  show "tx_run (create_machine fate lower V token digest input) n t = (y, t') \<Longrightarrow> grows t t'"
    unfolding create_machine_def using ok by (auto elim!: gr.validated [THEN mp] tx_run_grows intro: create_grows)
  show "tx_run (rename_machine fate lower V i alias) n t = (z, t') \<Longrightarrow> grows t t'"
    unfolding rename_machine_def using ok
    by (auto simp: res_simps elim!: gr.validated [THEN mp] tx_run_grows dest!: guards_Ok intro!: edit_grows)
  show "tx_run (rebind_machine_credential fate V i credential) n t = (z, t') \<Longrightarrow> grows t t'"
    unfolding rebind_machine_credential_def using ok
    by (auto simp: res_simps Let_def split: option.splits elim!: tx_run_grows dest!: guards_Ok intro!: edit_grows)
  show "tx_run (re_enroll_disabled_machine fate V i) n t = (z, t') \<Longrightarrow> grows t t'"
    unfolding re_enroll_disabled_machine_def using ok reopen_moves [of i t]
    by (auto simp: res_simps Let_def reopen_tables_def elim!: tx_run_grows dest!: guards_Ok intro!: growsI)
  show "tx_run (cancel_enrollment_token fate V i) n t = (z, t') \<Longrightarrow> grows t t'"
    unfolding cancel_enrollment_token_def using ok
    by (auto simp: res_simps elim!: tx_run_grows dest!: guards_Ok intro!: cancel_grows)
  show "tx_run (issue_transaction fate V token i digest) n t = (z, t') \<Longrightarrow> grows t t'"
    unfolding issue_transaction_def using ok cancel_grows [OF ok]
    by (auto simp: res_simps elim!: tx_run_grows dest!: guards_Ok insert_enrollment_effect intro!: enroll_grows)
  have "grows t (tx_tables s)" if "transition_body V i lc action expected \<lparr>tx_lease = n, tx_tables = t\<rparr> = (Ok x, s)" "lc = LC_Pending \<or> lc = LC_Disabled" for x s
    using that(1)
  proof (rule transition_effect, goal_cases)
    case (1 m ow nl a)
    have "moves t (retire_tables i lc (mc_route_revision m) t)" by (rule retire_moves) (use 1 that(2) in simp_all)
    then have "grows t (retire_tables i lc (mc_route_revision m) t)"
      by (rule growsI [OF ok]) (simp_all add: retire_tables_def spent_def spent_rows)
    with 1 show ?case by simp
  qed
  with ok show "lc = LC_Pending \<or> lc = LC_Disabled \<Longrightarrow> tx_run (commit_active_machine_transition fate V i lc action expected) n t = (z, t') \<Longrightarrow> grows t t'"
    unfolding commit_active_machine_transition_def by (auto elim!: tx_run_grows)
qed

lemma world_ok_grows:
  assumes "world_ok w" "grows (rw_tables w) t"
  shows "world_ok (w\<lparr>rw_tables := t\<rparr>)"
  using assms grows_ok [of "rw_tables w" t] by (fastforce simp: world_ok_def grows_def)

lemma credentials_grow:
  assumes "tables_ok t" "only_credentials t t'"
  shows "grows t t'"
proof (rule growsI [OF assms(1)])
  show "moves t t'" by (rule moves_none) (use assms(2) in \<open>auto simp: only_credentials_def same_view_def views\<close>)
qed (use assms(2) in \<open>auto simp: only_credentials_def attempt_keys_def enrollment_keys_def spent_def\<close>)

lemma table_step_ok:
  assumes "table_step sha256 is_host lower minted w w'" "world_ok w"
  shows "grows (rw_tables w) (rw_tables w') \<and> world_ok w'"
proof -
  have ok: "tables_ok (rw_tables w)" using assms(2) by (simp add: world_ok_def)
  from assms(1) show ?thesis
  proof cases
    case (rs_accept fate V token n ac t)
    note a = accept_token_cases [OF rs_accept(2) ok]
    from a(1) world_ok_grows [OF assms(2)] have "world_ok (w\<lparr>rw_tables := t\<rparr>)" by blast
    moreover have "token_digest sha256 token \<notin> fst ` set (rw_accepted w)"
      using a(2) assms(2) by (auto simp: world_ok_def)
    ultimately show ?thesis using a by (auto simp: rs_accept(1) world_ok_def)
  next
    case (rs_accept_failed fate V token n e t)
    with accept_token_cases(1) [OF rs_accept_failed(2) ok] world_ok_grows [OF assms(2)] show ?thesis by simp
  next
    case (rs_activate d ac fate V relay_id key host n r t)
    with relay_tx_grows(1) [OF ok rs_activate(3)] world_ok_grows [OF assms(2)] show ?thesis by simp
  next
    case (rs_fail d ac fate V n r t)
    then have "(ac_attempt_id ac, ac_machine_id ac, ac_route_revision ac) \<in> set (attempt_keys (rw_tables w))"
      using assms(2) by (auto simp: world_ok_def)
    with relay_tx_grows(2) [OF ok _ rs_fail(3)] world_ok_grows [OF assms(2)] rs_fail(1) show ?thesis by simp
  qed (use relay_tx_grows(3) [OF ok] api_tx_grows [OF ok] credentials_grow [OF ok credential_tx_only(1)] credentials_grow [OF ok credential_tx_only(2)]
      credentials_grow [OF ok credential_tx_only(3)] credentials_grow [OF ok credential_tx_only(4)] credentials_grow [OF ok credential_tx_only(5)] world_ok_grows [OF assms(2)] in \<open>auto\<close>)
qed

lemma relay_step_ok:
  assumes "relay_step sha256 is_host lower minted w w'" "world_ok w"
  shows "grows (rw_tables w) (rw_tables w') \<and> world_ok w'"
  using assms(1)
proof cases
  case rs_table
  from this assms(2) show ?thesis by (rule table_step_ok)
next
  case (rs_claim fate V i c g n x t)
  have "grows (rw_tables w) t" by (rule relay_tx_grows(4) [OF _ rs_claim(2)]) (use assms(2) in \<open>simp add: world_ok_def\<close>)
  with rs_claim(1) world_ok_grows [OF assms(2)] show ?thesis by simp
next
  case (rs_release fate V i c e n r t)
  have "grows (rw_tables w) t" by (rule relay_tx_grows(5) [OF _ rs_release(2)]) (use assms(2) in \<open>simp add: world_ok_def\<close>)
  with rs_release(1) world_ok_grows [OF assms(2)] show ?thesis by simp
qed

lemma represents_empty: "represents i (rw_tables (empty_world cs c)) None"
  by (simp add: represents_def empty_world_def views)

lemma empty_world_ok: "world_ok (empty_world cs c)"
proof -
  have "tables_ok (rw_tables (empty_world cs c))"
    unfolding tables_ok_def using represents_empty by (auto simp: empty_world_def)
  then show ?thesis by (simp add: world_ok_def empty_world_def)
qed

lemma relay_reach_ok: "relay_reach sha256 is_host lower minted w w' \<Longrightarrow> world_ok w \<Longrightarrow> world_ok w'"
  by (induction rule: rtranclp_induct) (auto dest: relay_step_ok)

lemma relay_step_moves:
  assumes "relay_step sha256 is_host lower minted w w'" "world_ok w" "represents i (rw_tables w) v"
  shows "\<exists>v'. represents i (rw_tables w') v' \<and> machine_step v v'"
  using relay_step_ok [OF assms(1,2)] assms(3) by (simp add: grows_def moves_def)

lemma relay_reach_le:
  assumes "relay_reach sha256 is_host lower minted w w'" "world_ok w" "represents i (rw_tables w) v"
  shows "\<exists>v'. represents i (rw_tables w') v' \<and> machine_le v v'"
  using assms(1)
proof (induction rule: rtranclp_induct)
  case base
  show ?case using assms(3) machine_le_refl by blast
next
  case (step y z)
  then obtain v1 where v1: "represents i (rw_tables y) v1" "machine_le v v1" by blast
  from relay_step_moves [OF step(2) relay_reach_ok [OF step(1) assms(2)] v1(1)] obtain v2
    where "represents i (rw_tables z) v2" "machine_step v1 v2" by blast
  with v1(2) machine_step_le machine_le_trans show ?case by blast
qed

section \<open>A run\<close>

text \<open>One machine is created, enrolled, bound to a Relay and claimed by the node of \<open>sample_system\<close>.\<close>

definition sample_env :: "uuid \<Rightarrow> tx_env" where
  "sample_env fresh = \<lparr>te_deployment_id = 1, te_now = 100, te_nodes = sy_db sample_system, te_clock = Ok 90, te_clock_again = Ok 90, te_fresh = fresh, te_audited = True\<rparr>"

definition sample_node :: node_lease where
  "sample_node = nd_lease (sy_nodes sample_system ! 0)"

definition sample_input :: create_machine_input where
  "sample_input = \<lparr>ci_alias = ''box'', ci_target_account = ''dev'', ci_tmux_path = ''/usr/bin/tmux'', ci_tmux_socket_identity = ''owlmux'',
     ci_ssh_credential_id = None\<rparr>"

definition sample_token :: bytes where
  "sample_token = ''owlmux_enroll_v1_abc''"

definition sample_accepted :: accepted_enrollment where
  "sample_accepted = \<lparr>ac_deployment_id = 1, ac_machine_id = 11, ac_attempt_id = 12, ac_route_revision = 1, ac_target_account = ''dev'', ac_host_identity = None\<rparr>"

definition sample_credential :: credential_row where
  "sample_credential = \<lparr>cr_id = 5, cr_name = ''default'', cr_public_key = ''pk'', cr_fingerprint = ''fp'', cr_envelope = ''env'', cr_status = CR_Active\<rparr>"

definition sample_sha :: "bytes \<Rightarrow> bytes" where
  "sample_sha token = ''d''"

definition sample_machine :: "lifecycle \<Rightarrow> bytes option \<Rightarrow> machine_row" where
  "sample_machine lc pin = \<lparr>mc_id = 11, mc_credential_id = 5, mc_alias = ''box'', mc_lifecycle = lc, mc_route_revision = 1,
     mc_credential_revision = 1, mc_target_account = ''dev'', mc_tmux_path = ''/usr/bin/tmux'', mc_tmux_socket = ''owlmux'',
     mc_host_identity = pin\<rparr>"

definition sample_created :: relay_tables where
  "sample_created = \<lparr>rt_machines = [sample_machine LC_Pending None],
     rt_enrollments = [\<lparr>en_id = 21, en_machine_id = 11, en_token_digest = ''d'', en_expires_at = 900000000100, en_status = EN_Issued\<rparr>],
     rt_attempts = [], rt_bindings = [],
     rt_owners = [\<lparr>ow_machine_id = 11, ow_connection_epoch = 0, ow_owner = None, ow_connection = None, ow_route_revision = 1\<rparr>],
     rt_credentials = [sample_credential], rt_default_credential = 5, rt_audit = [audit ''machine'' (Some 11) None ''create'' ''success'']\<rparr>"

definition sample_enrolled :: relay_tables where
  "sample_enrolled = sample_created\<lparr>rt_machines := [sample_machine LC_Verifying None],
     rt_enrollments := [\<lparr>en_id = 21, en_machine_id = 11, en_token_digest = ''d'', en_expires_at = 900000000100, en_status = EN_Consumed\<rparr>],
     rt_attempts := [\<lparr>at_id = 12, at_machine_id = 11, at_enrollment_id = 21, at_executing = 7, at_route_revision = 1, at_status = AT_Verifying,
       at_deadline = 120000000100\<rparr>],
     rt_audit := [audit ''machine'' (Some 11) None ''create'' ''success'', audit ''enrollment'' (Some 11) None ''accept_token'' ''success'']\<rparr>"

definition sample_bound :: relay_tables where
  "sample_bound = sample_enrolled\<lparr>rt_machines := [sample_machine LC_Verifying (Some ''host'')],
     rt_attempts := [\<lparr>at_id = 12, at_machine_id = 11, at_enrollment_id = 21, at_executing = 7, at_route_revision = 1, at_status = AT_Activated,
       at_deadline = 120000000100\<rparr>],
     rt_bindings := [\<lparr>bi_id = 13, bi_machine_id = 11, bi_relay_id = 31, bi_public_key = ''key'', bi_route_revision = 1, bi_status = BI_Active\<rparr>],
     rt_audit := rt_audit sample_enrolled @ [audit ''machine'' (Some 11) None ''pin_ssh_host_key'' ''success'', audit ''relay_binding'' (Some 11) None ''activate'' ''success'']\<rparr>"

definition sample_claimed :: relay_tables where
  "sample_claimed = sample_bound\<lparr>rt_machines := [sample_machine LC_Active (Some ''host'')],
     rt_owners := [\<lparr>ow_machine_id = 11, ow_connection_epoch = 1, ow_owner = Some 7, ow_connection = Some 41, ow_route_revision = 1\<rparr>],
     rt_audit := rt_audit sample_bound @ [audit ''machine_owner'' (Some 11) None ''claim'' ''success'']\<rparr>"

definition sample_world :: "relay_tables \<Rightarrow> relay_world" where
  "sample_world t = \<lparr>rw_tables = t, rw_accepted = [(''d'', sample_accepted)]\<rparr>"

lemmas sample_tables = credential_active_def sample_credential_def sample_created_def sample_enrolled_def sample_bound_def sample_claimed_def sample_machine_def sample_world_def

lemmas sample_defs = tx_run_def sample_env_def sample_node_def sample_system_def sample_lease_def sample_deployment_def
  run_transaction_def sr_leaf sr_bind_def tx_require_def tx_read_def tx_write_def tx_audit_def tx_check_def lease_check_def read_clock_def boot_now_def
  duration_ns_def deployment_matches_def node_row_current_def lock_deployment_def validate_node_def lock_current_deployment_def

lemma sample_valid: "validate_machine sample_input = Ok ()" "starts_with ENROLLMENT_PREFIX sample_token \<and> length sample_token \<le> 80"
  by code_simp+

lemma sample_run_create:
  "tx_run (create_machine DB_Commit id (sample_env 11) 21 ''d'' sample_input) sample_node (rw_tables (empty_world [sample_credential] 5)) = (Ok 11, sample_created)"
  unfolding create_machine_def sample_valid
  by (simp add: sr_lift_def create_body_def insert_enrollment_def sample_defs sample_tables sample_input_def empty_world_def Let_def)

lemma sample_run_accept:
  "tx_run (accept_token DB_Commit sample_sha (sample_env 12) sample_token) sample_node sample_created = (Ok sample_accepted, sample_enrolled)"
  using sample_valid(2)
  by (simp add: accept_token_def accept_body_def token_digest_def sample_sha_def issued_enrollment_def machine_of_def
      sample_defs sample_tables sample_accepted_def Let_def)

lemma sample_run_activate:
  "tx_run (activate DB_Commit (\<lambda>_. True) (sample_env 13) sample_accepted 31 ''key'' ''host'') sample_node sample_enrolled = (Ok (), sample_bound)"
  by (simp add: activate_def activate_body_def attempt_valid_def binding_conflict_def count_where_def machine_of_def
      sample_defs sample_tables sample_accepted_def Let_def)

lemma sample_run_claim:
  "tx_run (claim_owner DB_Commit (sample_env 14) 11 41 1) sample_node sample_bound = (Ok 1, sample_claimed)"
  by (simp add: claim_owner_def claim_body_def claimable_def owner_leased_def bound_def machine_of_def owner_of_def sample_defs sample_tables Let_def)

lemmas sample_runs = sample_run_create sample_run_accept sample_run_activate sample_run_claim

lemma sample_steps:
  "table_step sample_sha (\<lambda>_. True) id (\<lambda>_ _ _. True) (sample_world sample_enrolled) (sample_world sample_bound)"
  "relay_step sample_sha (\<lambda>_. True) id (\<lambda>_ _ _. True) (sample_world sample_bound) (sample_world sample_claimed)"
proof -
  have "table_step sample_sha (\<lambda>_. True) id (\<lambda>_ _ _. True) (sample_world sample_enrolled) ((sample_world sample_enrolled)\<lparr>rw_tables := sample_bound\<rparr>)"
    by (rule rs_activate [of "''d''" sample_accepted]) (use sample_runs(3) in \<open>simp_all add: sample_world_def\<close>)
  then show "table_step sample_sha (\<lambda>_. True) id (\<lambda>_ _ _. True) (sample_world sample_enrolled) (sample_world sample_bound)"
    by (simp add: sample_world_def)
  have "relay_step sample_sha (\<lambda>_. True) id (\<lambda>_ _ _. True) (sample_world sample_bound) ((sample_world sample_bound)\<lparr>rw_tables := sample_claimed\<rparr>)"
    by (rule rs_claim) (use sample_runs(4) in \<open>simp add: sample_world_def\<close>)
  then show "relay_step sample_sha (\<lambda>_. True) id (\<lambda>_ _ _. True) (sample_world sample_bound) (sample_world sample_claimed)"
    by (simp add: sample_world_def)
qed

lemma sample_enrolled_table_reach: "(table_step sample_sha (\<lambda>_. True) id (\<lambda>_ _ _. True))\<^sup>*\<^sup>* (empty_world [sample_credential] 5) (sample_world sample_enrolled)"
proof -
  let ?w0 = "empty_world [sample_credential] 5"
  have "table_step sample_sha (\<lambda>_. True) id (\<lambda>_ _ _. True) ?w0 (?w0\<lparr>rw_tables := sample_created\<rparr>)" by (rule rs_create [OF sample_runs(1)])
  moreover have "table_step sample_sha (\<lambda>_. True) id (\<lambda>_ _ _. True) (?w0\<lparr>rw_tables := sample_created\<rparr>)
      (?w0\<lparr>rw_tables := sample_created, rw_tables := sample_enrolled, rw_accepted := (token_digest sample_sha sample_token, sample_accepted) # rw_accepted ?w0\<rparr>)"
    using rs_accept [of DB_Commit sample_sha "sample_env 12" sample_token sample_node "?w0\<lparr>rw_tables := sample_created\<rparr>" sample_accepted sample_enrolled]
      sample_runs(2) by simp
  then have "table_step sample_sha (\<lambda>_. True) id (\<lambda>_ _ _. True) (?w0\<lparr>rw_tables := sample_created\<rparr>) (sample_world sample_enrolled)"
    by (simp add: sample_world_def empty_world_def token_digest_def sample_sha_def)
  ultimately show ?thesis by (meson rtranclp.rtrancl_into_rtrancl rtranclp.rtrancl_refl)
qed

lemma sample_table_reach: "(table_step sample_sha (\<lambda>_. True) id (\<lambda>_ _ _. True))\<^sup>*\<^sup>* (empty_world [sample_credential] 5) (sample_world sample_bound)"
  using sample_enrolled_table_reach sample_steps(1) by (rule rtranclp.rtrancl_into_rtrancl)

lemma table_reach: "(table_step sha256 is_host lower minted)\<^sup>*\<^sup>* w w' \<Longrightarrow> relay_reach sha256 is_host lower minted w w'"
  by (induction rule: rtranclp_induct) (auto intro: rs_table rtranclp.rtrancl_into_rtrancl)

lemmas sample_reach = table_reach [OF sample_table_reach]

lemmas sample_enrolled_reach = table_reach [OF sample_enrolled_table_reach]

lemma sample_claimed_reach: "relay_reach sample_sha (\<lambda>_. True) id (\<lambda>_ _ _. True) (empty_world [sample_credential] 5) (sample_world sample_claimed)"
  using sample_reach sample_steps(2) by (rule rtranclp.rtrancl_into_rtrancl)

lemma sample_represented:
  "represents 11 (rw_tables (sample_world sample_bound)) (Some \<lparr>ma_phase = P_Bound, ma_revision = 1, ma_pin = Some ''host'',
     ma_relay = Some (31, ''key''), ma_epoch = 0, ma_owner = None\<rparr>)"
  by (simp add: represents_def sample_tables views abs_machine_def owner_ok_def owner_pair_def)

section \<open>Properties\<close>

text \<open>C4. The transactions on machines, enrolments, Relay bindings and owners refine one state machine per
  machine: in every state reached by transactions of any nodes in any order and with any outcome of
  their commits, the rows of each machine determine its abstract state, and every further transaction
  takes every machine by one step of the abstract machine.\<close>

theorem transactions_refine_machine:
  assumes "relay_reach sha256 is_host lower minted (empty_world cs c) w"
  shows "\<exists>!v. represents i (rw_tables w) v \<and> (\<forall>w'. relay_step sha256 is_host lower minted w w' \<longrightarrow>
      (\<exists>v'. represents i (rw_tables w') v' \<and> machine_step v v'))"
proof -
  have ok: "world_ok w" by (rule relay_reach_ok [OF assms empty_world_ok])
  then obtain v where v: "represents i (rw_tables w) v" by (auto simp: world_ok_def tables_ok_def)
  show ?thesis
  proof (rule ex1I [of _ v])
    show "represents i (rw_tables w) v \<and> (\<forall>w'. relay_step sha256 is_host lower minted w w' \<longrightarrow>
        (\<exists>v'. represents i (rw_tables w') v' \<and> machine_step v v'))"
      using v relay_step_moves [OF _ ok v] by blast
  qed (use v represents_unique in blast)
qed

theorem transactions_refine_machine_witness:
  "\<exists>v v'. represents 11 sample_bound v \<and> represents 11 sample_claimed v' \<and> machine_step v v'"
proof -
  from ex1_implies_ex [OF transactions_refine_machine [OF sample_reach, of 11]] obtain v
    where "represents 11 (rw_tables (sample_world sample_bound)) v"
      "\<exists>v'. represents 11 (rw_tables (sample_world sample_claimed)) v' \<and> machine_step v v'"
    using sample_steps(2) by blast
  then show ?thesis by (auto simp: sample_world_def)
qed

text \<open>C5. Whatever transactions run between two moments of a machine's life, it still exists, a pinned SSH
  host key is unchanged, route revision and connection epoch have not decreased, a different owner has a
  larger epoch, and a trusted Relay is only replaced or dropped under a larger route revision.\<close>

theorem machine_history_monotone:
  assumes "relay_reach sha256 is_host lower minted (empty_world cs c) w" and "relay_reach sha256 is_host lower minted w w'"
    and "represents i (rw_tables w) (Some x)"
  shows "\<exists>y. represents i (rw_tables w') (Some y) \<and> (ma_pin x \<noteq> None \<longrightarrow> ma_pin y = ma_pin x)
    \<and> ma_revision x \<le> ma_revision y \<and> ma_epoch x \<le> ma_epoch y
    \<and> (ma_owner y \<noteq> ma_owner x \<and> ma_owner y \<noteq> None \<longrightarrow> ma_epoch x < ma_epoch y)
    \<and> (ma_relay x \<noteq> None \<and> ma_relay y \<noteq> ma_relay x \<longrightarrow> ma_revision x < ma_revision y)"
proof -
  from relay_reach_le [OF assms(2) relay_reach_ok [OF assms(1) empty_world_ok] assms(3)]
  obtain v where "represents i (rw_tables w') v" "machine_le (Some x) v" by blast
  then show ?thesis by (cases v) (auto simp: machine_le_def)
qed

theorem machine_history_monotone_witness:
  "\<exists>y. represents 11 sample_claimed (Some y) \<and> ma_pin y = Some ''host'' \<and> 1 \<le> ma_revision y"
  using machine_history_monotone [OF sample_reach r_into_rtranclp [of "relay_step sample_sha (\<lambda>_. True) id (\<lambda>_ _ _. True)", OF sample_steps(2)] sample_represented]
  by (auto simp: sample_world_def)

text \<open>C6. An enrolment token opens at most one enrolment attempt: over a whole run no two accepted
  enrolments come from tokens of the same digest, and the attempts have different ids.\<close>

theorem enrollment_token_single_use:
  assumes "relay_reach sha256 is_host lower minted (empty_world cs c) w"
  shows "distinct (map fst (rw_accepted w)) \<and> distinct (map at_id (rt_attempts (rw_tables w)))"
  using relay_reach_ok [OF assms empty_world_ok] by (simp add: world_ok_def tables_ok_def)

theorem enrollment_token_single_use_witness:
  "distinct (map fst (rw_accepted (sample_world sample_bound))) \<and> rw_accepted (sample_world sample_bound) \<noteq> []"
  using enrollment_token_single_use [OF sample_reach] by (simp add: sample_world_def)

text \<open>C28. After an enrolment is activated the machine row still says \<open>verifying\<close>, and no transaction other
  than the claim of an owner takes it out of this state: not the recovery of expired attempts, not a
  new token, not disabling.\<close>

theorem bound_machine_waits_for_owner:
  assumes "relay_reach sha256 is_host lower minted (empty_world cs c) w" and "represents i (rw_tables w) (Some x)" and "ma_phase x = P_Bound"
    and "relay_step sha256 is_host lower minted w w'"
  shows "map mc_lifecycle (machines_at i (rw_tables w)) = [LC_Verifying]
    \<and> (represents i (rw_tables w') (Some x)
       \<or> (\<exists>u. represents i (rw_tables w') (Some (x\<lparr>ma_phase := P_Active, ma_epoch := ma_epoch x + 1, ma_owner := Some u\<rparr>))))"
proof -
  from assms(2,3) have "map mc_lifecycle (machines_at i (rw_tables w)) = [LC_Verifying]"
    by (auto simp: represents_def abs_machine_def)
  moreover from relay_step_moves [OF assms(4) relay_reach_ok [OF assms(1) empty_world_ok] assms(2)]
  obtain v where v: "represents i (rw_tables w') v" "machine_step (Some x) v" by blast
  from v(2) v(1) assms(3) have "represents i (rw_tables w') (Some x)
       \<or> (\<exists>u. represents i (rw_tables w') (Some (x\<lparr>ma_phase := P_Active, ma_epoch := ma_epoch x + 1, ma_owner := Some u\<rparr>)))"
    by cases auto
  ultimately show ?thesis by blast
qed

theorem bound_machine_waits_for_owner_witness:
  "map mc_lifecycle (machines_at 11 sample_bound) = [LC_Verifying]"
  using bound_machine_waits_for_owner [OF sample_reach sample_represented _ sample_steps(2)] by (simp add: sample_world_def)

lemma transition_run_cases:
  assumes "commit_active_machine_transition fate V i lc action expected \<lparr>tx_lease = n, tx_tables = t\<rparr> = (r, s)"
  shows "(\<exists>u s1. transition_body V i lc action expected \<lparr>tx_lease = n, tx_tables = t\<rparr> = (Ok u, s1) \<and> tx_tables s1 = tx_tables s \<and> (\<not> is_ok r \<longrightarrow> r = Err AP_Ambiguous))
    \<or> tx_tables s = t \<and> \<not> is_ok r"
  using assms by (auto simp: commit_active_machine_transition_def run_transaction_def is_ok_def
      split: if_splits prod.splits sum.splits db_fate.splits)

lemma observed_committed:
  assumes "observe_machine_transition answered V i lc expected \<lparr>tx_lease = n, tx_tables = t\<rparr> = (Ok TO_Committed, s)"
  shows "\<exists>m ow. machine_of i t = Some m \<and> owner_of i t = Some ow \<and> mc_lifecycle m = lc \<and> mc_route_revision m = expected_revision expected + 1
    \<and> ow_owner ow = None"
  using assms
  by (auto simp: observe_machine_transition_def Let_def split: prod.splits sum.splits option.splits if_splits dest!: tx_check_tables)

text \<open>The machine left its route: it is in the given state at the next revision, owned by nobody.\<close>

definition left_route :: "uuid \<Rightarrow> lifecycle \<Rightarrow> int \<Rightarrow> relay_tables \<Rightarrow> bool" where
  "left_route i lc g t \<longleftrightarrow> (\<exists>m ow. machines_at i t = [m] \<and> owners_at i t = [ow] \<and> mc_lifecycle m = lc \<and> mc_route_revision m = g + 1
     \<and> ow_owner ow = None \<and> live_bindings i t = [])"

lemma left_routeI:
  assumes "represents i t v" and "m \<in> set (machines_at i t)" and "mc_lifecycle m = lc" and "mc_route_revision m = g + 1"
    and "lc = LC_Pending \<or> lc = LC_Disabled"
  shows "left_route i lc g t"
proof -
  from assms(1,2) obtain x p ow where "machines_at i t = [m]" "owners_at i t = [ow]" "phase_ok p m (live_bindings i t) (live_attempts i t)" "owner_ok p m ow"
    by (auto simp: represents_def split: option.splits)
  with assms(3-5) show ?thesis by (cases p) (auto simp: left_route_def owner_ok_def)
qed

lemma transition_leaves:
  assumes "world_ok w" and "lc = LC_Pending \<or> lc = LC_Disabled"
    and "transition_body V i lc action expected \<lparr>tx_lease = n, tx_tables = rw_tables w\<rparr> = (Ok u, s)"
  shows "world_ok (w\<lparr>rw_tables := tx_tables s\<rparr>) \<and> left_route i lc (expected_revision expected) (tx_tables s)"
proof -
  have run: "tx_run (commit_active_machine_transition DB_Commit V i lc action expected) n (rw_tables w) = (Ok u, tx_tables s)"
    using assms(3) by (simp add: tx_run_def commit_active_machine_transition_def run_transaction_def)
  then have "relay_step sha256 is_host lower minted w (w\<lparr>rw_tables := tx_tables s\<rparr>)" for sha256 is_host lower minted
    by (intro rs_table rs_transition [OF assms(2)])
  then have ok1: "world_ok (w\<lparr>rw_tables := tx_tables s\<rparr>)" using relay_step_ok assms(1) by blast
  then obtain v where v: "represents i (tx_tables s) v" by (auto simp: world_ok_def tables_ok_def)
  from assms(3) obtain m where m: "m \<in> set (rt_machines (rw_tables w))" "mc_id m = i" "mc_lifecycle m = LC_Active"
    "mc_route_revision m = expected_revision expected"
    "\<exists>a. tx_tables s = (retire_tables i lc (mc_route_revision m) (rw_tables w))\<lparr>rt_audit := a\<rparr>"
    by (rule transition_effect) auto
  have "m\<lparr>mc_lifecycle := lc, mc_route_revision := expected_revision expected + 1\<rparr> \<in> set (machines_at i (tx_tables s))"
    using m by (auto simp: machines_at_def retire_tables_def update_where_def intro!: image_eqI [of _ _ m])
  with left_routeI [OF v this _ _ assms(2)] ok1 show ?thesis by simp
qed

lemma left_route_stays:
  assumes "world_ok w" and "left_route i lc g (rw_tables w)" and "relay_reach sha256 is_host lower minted w w'"
  shows "\<exists>y. represents i (rw_tables w') (Some y) \<and> g < ma_revision y"
proof -
  from assms(1) obtain v where v: "represents i (rw_tables w) v" by (auto simp: world_ok_def tables_ok_def)
  with assms(2) obtain x where "v = Some x" "ma_revision x = g + 1"
    by (auto simp: left_route_def represents_def abs_machine_def split: option.splits)
  with relay_reach_le [OF assms(3,1)] v show ?thesis
    by (fastforce simp: machine_le_def split: option.splits)
qed

lemma beyond_revision:
  assumes "represents i t (Some y)" and "g < ma_revision y"
  shows "\<not> bound i g t" "\<exists>m. machine_of i t = Some m \<and> g < mc_route_revision m"
proof -
  from assms obtain p m ow where m: "machines_at i t = [m]" "phase_ok p m (live_bindings i t) (live_attempts i t)" "g < mc_route_revision m"
    by (auto simp: represents_def abs_machine_def)
  then show "\<exists>m. machine_of i t = Some m \<and> g < mc_route_revision m" by (simp add: machine_of_at)
  show "\<not> bound i g t"
  proof
    assume "bound i g t"
    then obtain b where "b \<in> set (live_bindings i t)" "bi_route_revision b = g" by (auto simp: bound_def list_ex_iff live_bindings_def)
    with m show False by (cases p) auto
  qed
qed

lemma not_aborted:
  assumes "machine_of i t = Some m" and "expected_revision expected < mc_route_revision m"
    and "observe_machine_transition answered V i lc expected \<lparr>tx_lease = n, tx_tables = t\<rparr> = (Ok seen, s)"
  shows "seen \<noteq> TO_Aborted"
  using assms
  by (auto simp: observe_machine_transition_def Let_def split: prod.splits sum.splits option.splits if_splits
      dest!: tx_check_tables)


definition sample_route :: route_identity where
  "sample_route = \<lparr>ri_route_revision = 1, ri_connection_epoch = 1, ri_connection_id = 41\<rparr>"


text \<open>Issuing a token first recovers the expired attempt of the machine: two transactions one after the other.\<close>

lemma issue_enrollment_reach:
  assumes "issue_enrollment_token fate' V' fate V token i digest \<lparr>tx_lease = n, tx_tables = rw_tables w\<rparr> = (z, s)"
  shows "relay_reach sha256 is_host lower minted w (w\<lparr>rw_tables := tx_tables s\<rparr>)"
proof -
  obtain r s1 where r: "recover_expired_attempts fate' V' (Some i) \<lparr>tx_lease = n, tx_tables = rw_tables w\<rparr> = (r, s1)" by fastforce
  have 1: "relay_step sha256 is_host lower minted w (w\<lparr>rw_tables := tx_tables s1\<rparr>)"
    by (intro rs_table rs_recover [where V = V' and scope = "Some i" and fate = fate' and n = n and r = r]) (simp add: tx_run_def r)
  show ?thesis
  proof (cases r)
    case (Inl e)
    with assms r 1 show ?thesis by (auto simp: issue_enrollment_token_def)
  next
    case (Inr u)
    have s1: "tx_run tx (tx_lease s1) (tx_tables s1) = (case tx s1 of (r, s) \<Rightarrow> (r, tx_tables s))" for tx :: "(api_error, unit) tx"
      by (cases s1) (simp add: tx_run_def)
    have "relay_step sha256 is_host lower minted (w\<lparr>rw_tables := tx_tables s1\<rparr>) (w\<lparr>rw_tables := tx_tables s1, rw_tables := tx_tables s\<rparr>)"
      by (intro rs_table rs_issue [where fate = fate and V = V and token = token and i = i and digest = digest and n = "tx_lease s1" and z = z])
        (use assms r Inr in \<open>simp add: s1 issue_enrollment_token_def\<close>)
    with 1 show ?thesis by (simp add: converse_rtranclp_into_rtranclp)
  qed
qed

lemma expired_single:
  assumes "live_attempts i t = [a]" "at_deadline a \<le> now"
  shows "expired_attempts now (Some i) t = [a]"
proof -
  have "filter (\<lambda>a. at_machine_id a = i \<and> at_status a = AT_Verifying \<and> at_deadline a \<le> now) (rt_attempts t)
      = filter (\<lambda>a. at_deadline a \<le> now) (live_attempts i t)"
    by (simp add: live_attempts_def filter_filter conj_ac)
  with assms show ?thesis by (simp add: expired_attempts_def)
qed

lemma expired_recovery:
  assumes "relay_reach sha256 is_host lower minted (empty_world cs c) w" and "represents i (rw_tables w) (Some x)" and "ma_phase x = P_Verifying"
    and "\<forall>a \<in> set (live_attempts i (rw_tables w)). at_deadline a \<le> te_now V"
    and "sr_bind (lock_deployment V) (\<lambda>_. validate_node V) \<lparr>tx_lease = n, tx_tables = rw_tables w\<rparr> = (Ok (), s)"
  shows "\<exists>t m. recover_expired_attempts DB_Commit V (Some i) \<lparr>tx_lease = n, tx_tables = rw_tables w\<rparr> = (Ok (), s\<lparr>tx_tables := t\<rparr>)
    \<and> represents i t (Some (x\<lparr>ma_phase := P_Pending\<rparr>)) \<and> machines_at i t = [m] \<and> mc_lifecycle m = LC_Pending
    \<and> rt_enrollments t = rt_enrollments (rw_tables w)"
proof -
  let ?t = "rw_tables w"
  have ok: "tables_ok ?t" using relay_reach_ok [OF assms(1) empty_world_ok] by (simp add: world_ok_def)
  from assms(2,3) obtain m r a where m: "machines_at i ?t = [m]" "owners_at i ?t = [r]" "live_attempts i ?t = [a]" "live_bindings i ?t = []"
      "mc_lifecycle m = LC_Verifying" "at_route_revision a = mc_route_revision m"
    by (auto simp: represents_def abs_machine_def)
  have a: "a \<in> set (live_attempts i ?t)" "m \<in> set (machines_at i ?t)" using m by simp_all
  then have a': "a \<in> set (rt_attempts ?t)" "at_machine_id a = i" "at_status a = AT_Verifying" "mc_id m = i" by (simp_all add: views)
  have rows: "expired_attempts (te_now V) (Some i) ?t = [a]" by (rule expired_single) (use m assms(4) in auto)
  let ?u = "recover_one a ?t"
  have rec: "recover_expired_attempts DB_Commit V (Some i) \<lparr>tx_lease = n, tx_tables = ?t\<rparr> = (Ok (), s\<lparr>tx_tables := ?u\<rparr>)"
    using assms(5) rows
    by (auto simp: recover_expired_attempts_def run_transaction_def recover_body_def res_simps sr_bind_def tx_read_def tx_write_def sr_leaf
        split: prod.splits sum.splits dest!: guards_Ok)
  then have run: "tx_run (recover_expired_attempts DB_Commit V (Some i)) n ?t = (Ok (), ?u)" by (simp add: tx_run_def)
  have "moves ?t ?u" using relay_tx_grows(3) [OF ok run] by (simp add: grows_def)
  with assms(2) obtain v where v: "represents i ?u v" "machine_step (Some x) v" unfolding moves_def by blast
  have "count_where (\<lambda>b. at_id b = at_id a \<and> at_status b = AT_Verifying) (rt_attempts ?t) = 1"
  proof -
    have "at_id b = at_id a \<and> at_status b = AT_Verifying \<longleftrightarrow> b = a" if "b \<in> set (rt_attempts ?t)" for b
      using distinct_same_id [OF _ that a'(1)] ok a'(3) by (auto simp: tables_ok_def)
    then show ?thesis using filter_single [OF _ a'(1)] ok by (simp add: count_where_def tables_ok_def distinct_map)
  qed
  moreover have "\<not> bound i (at_route_revision a) ?t" using m(4) bound_live by blast
  ultimately have now: "machines_at i ?u = [m\<lparr>mc_lifecycle := LC_Pending\<rparr>]"
    using m a' by (simp add: recover_one_def fail_one_def Let_def machines_at_def filter_update)
  from now v(1) have "map_option ma_phase v = Some P_Pending"
    by (auto simp: represents_def abs_machine_def split: option.splits) (case_tac p; simp)
  with v(2) assms(3) have "v = Some (x\<lparr>ma_phase := P_Pending\<rparr>)" by cases auto
  moreover have "rt_enrollments ?u = rt_enrollments ?t" by (simp add: recover_one_def fail_one_def Let_def)
  ultimately show ?thesis using rec v(1) now by (intro exI [of _ ?u]) simp
qed

text \<open>What the deployment lock of an API transaction answers does not depend on the tables.\<close>

lemma lock_current_tables:
  "lock_current_deployment V s = (r, s') \<Longrightarrow> lock_current_deployment V (s\<lparr>tx_tables := t\<rparr>) = (r, s'\<lparr>tx_tables := t\<rparr>)"
proof -
  let ?F = "\<lambda>s. s\<lparr>tx_tables := t\<rparr>"
  have bind: "sr_bind m f (?F s) = map_prod id ?F (sr_bind m f s)"
    if "\<And>s. m (?F s) = map_prod id ?F (m s)" and "\<And>a s. f a (?F s) = map_prod id ?F (f a s)"
    for m :: "(api_error, 'x) tx" and f :: "'x \<Rightarrow> (api_error, 'y) tx" and s
    by (simp add: sr_bind_def that split: prod.split sum.split)
  have "lock_current_deployment V (?F s) = map_prod id ?F (lock_current_deployment V s)"
    unfolding lock_current_deployment_def
    by (intro bind) (auto simp: tx_require_def tx_check_def sr_leaf split: prod.split)
  then show "lock_current_deployment V s = (r, s') \<Longrightarrow> lock_current_deployment V (?F s) = (r, ?F s')" by simp
qed

lemma issue_on_pending:
  assumes "lock_current_deployment V s = (Ok (), s')" and "tx_tables s = t" and "machines_at i t = [m]" and "mc_lifecycle m = LC_Pending"
    and "\<forall>e \<in> set (rt_enrollments t). en_id e \<noteq> token \<and> en_token_digest e \<noteq> digest"
  shows "\<exists>u. tx_run (issue_transaction DB_Commit V token i digest) (tx_lease s) t = (Ok (), u)
    \<and> rt_machines u = rt_machines t \<and> rt_owners u = rt_owners t \<and> rt_attempts u = rt_attempts t \<and> rt_bindings u = rt_bindings t
    \<and> \<lparr>en_id = token, en_machine_id = i, en_token_digest = digest, en_expires_at = te_now V + TOKEN_TTL_SECONDS * NS,
         en_status = EN_Issued\<rparr> \<in> set (rt_enrollments u)"
proof -
  have state: "\<lparr>tx_lease = tx_lease s, tx_tables = t\<rparr> = s" using assms(2) by simp
  have m: "machine_of i (tx_tables s') = Some m"
    using assms(1-3) guards_Ok(4) [OF assms(1)] by (simp add: machine_of_at)
  have fresh: "\<not> list_ex (\<lambda>e. en_id e = token \<or> en_token_digest e = digest \<or> en_machine_id e = i \<and> en_status e = EN_Issued)
      (rt_enrollments (cancel_issued i (tx_tables s')))"
    using assms(1,2,5) guards_Ok(4) [OF assms(1)] by (auto simp: cancel_issued_def update_where_def list_ex_iff)
  show ?thesis
    using assms(1,2,4) m fresh guards_Ok(4) [OF assms(1)]
    by (simp add: tx_run_def state issue_transaction_def run_transaction_def sr_bind_def tx_read_def tx_write_def tx_require_def
        tx_audit_def insert_enrollment_def sr_leaf) (simp add: cancel_issued_def)
qed

text \<open>C27. An enrolment that was abandoned does not block its machine: once the attempt's deadline has passed,
  issuing a new token on any node whose authority checks pass succeeds. Its first transaction recovers the
  expired attempt, which takes the machine back to pending, and its second one leaves a usable token of
  the given digest (an id and digest not used before).\<close>

theorem expired_attempt_recovered:
  assumes "relay_reach sha256 is_host lower minted (empty_world cs c) w" and "represents i (rw_tables w) (Some x)" and "ma_phase x = P_Verifying"
    and "\<forall>a \<in> set (live_attempts i (rw_tables w)). at_deadline a \<le> te_now V"
    and "sr_bind (lock_deployment V) (\<lambda>_. validate_node V) \<lparr>tx_lease = n, tx_tables = rw_tables w\<rparr> = (Ok (), s)"
    and "lock_current_deployment V' s = (Ok (), s')"
    and "\<forall>e \<in> set (rt_enrollments (rw_tables w)). en_id e \<noteq> token \<and> en_token_digest e \<noteq> digest"
  shows "\<exists>t. tx_run (issue_enrollment_token DB_Commit V DB_Commit V' token i digest) n (rw_tables w) = (Ok (), t)
    \<and> represents i t (Some (x\<lparr>ma_phase := P_Pending\<rparr>))
    \<and> \<lparr>en_id = token, en_machine_id = i, en_token_digest = digest, en_expires_at = te_now V' + TOKEN_TTL_SECONDS * NS,
         en_status = EN_Issued\<rparr> \<in> set (rt_enrollments t)"
proof -
  obtain t m where t: "recover_expired_attempts DB_Commit V (Some i) \<lparr>tx_lease = n, tx_tables = rw_tables w\<rparr> = (Ok (), s\<lparr>tx_tables := t\<rparr>)"
      "represents i t (Some (x\<lparr>ma_phase := P_Pending\<rparr>))" "machines_at i t = [m]" "mc_lifecycle m = LC_Pending"
      "rt_enrollments t = rt_enrollments (rw_tables w)"
    using expired_recovery [OF assms(1-5)] by blast
  obtain u where u: "tx_run (issue_transaction DB_Commit V' token i digest) (tx_lease s) t = (Ok (), u)"
      "rt_machines u = rt_machines t" "rt_owners u = rt_owners t" "rt_attempts u = rt_attempts t" "rt_bindings u = rt_bindings t"
      "\<lparr>en_id = token, en_machine_id = i, en_token_digest = digest, en_expires_at = te_now V' + TOKEN_TTL_SECONDS * NS,
         en_status = EN_Issued\<rparr> \<in> set (rt_enrollments u)"
    using issue_on_pending [OF lock_current_tables [OF assms(6), of t], of t i m token digest] t assms(7) by auto
  have "s\<lparr>tx_tables := t\<rparr> = \<lparr>tx_lease = tx_lease s, tx_tables = t\<rparr>" by simp
  with t(1) u(1) have "tx_run (issue_enrollment_token DB_Commit V DB_Commit V' token i digest) n (rw_tables w) = (Ok (), u)"
    by (simp add: tx_run_def issue_enrollment_token_def)
  moreover have "represents i u v = represents i t v" for v
    using u(2-5) by (cases v) (simp_all add: represents_def machines_at_def owners_at_def live_bindings_def live_attempts_def)
  ultimately show ?thesis using t(2) u(6) by blast
qed

definition sample_late_env :: tx_env where
  "sample_late_env = (sample_env 15)\<lparr>te_now := 120000000100, te_nodes := (sy_db sample_system)\<lparr>ld_nodes :=
     map (\<lambda>r. r\<lparr>nr_lease_until := 150000000000\<rparr>) (ld_nodes (sy_db sample_system))\<rparr>\<rparr>"

theorem expired_attempt_recovered_witness:
  "\<exists>t. tx_run (issue_enrollment_token DB_Commit sample_late_env DB_Commit sample_late_env 99 11 ''fresh digest'') sample_node sample_enrolled = (Ok (), t)
    \<and> represents 11 t (Some \<lparr>ma_phase = P_Pending, ma_revision = 1, ma_pin = None, ma_relay = None, ma_epoch = 0, ma_owner = None\<rparr>)"
proof -
  let ?x = "\<lparr>ma_phase = P_Verifying, ma_revision = 1, ma_pin = None, ma_relay = None, ma_epoch = 0, ma_owner = None\<rparr>"
  let ?guards = "sr_bind (lock_deployment sample_late_env) (\<lambda>_. validate_node sample_late_env) \<lparr>tx_lease = sample_node, tx_tables = sample_enrolled\<rparr>"
  let ?lock = "lock_current_deployment sample_late_env (snd ?guards)"
  have "represents 11 (rw_tables (sample_world sample_enrolled)) (Some ?x)"
    by (simp add: represents_def sample_tables views abs_machine_def owner_ok_def owner_pair_def)
  moreover have "\<forall>a \<in> set (live_attempts 11 (rw_tables (sample_world sample_enrolled))). at_deadline a \<le> te_now sample_late_env"
    by (simp add: sample_tables views sample_late_env_def sample_env_def)
  moreover have "?guards = (Ok (), snd ?guards)"
    by (simp add: sample_late_env_def sample_defs)
  moreover have "?lock = (Ok (), snd ?lock)"
    by (simp add: sample_late_env_def sample_defs lock_current_deployment_def)
  moreover have "\<forall>e \<in> set (rt_enrollments (rw_tables (sample_world sample_enrolled))). en_id e \<noteq> 99 \<and> en_token_digest e \<noteq> ''fresh digest''"
    by (simp add: sample_tables)
  ultimately show ?thesis
    using expired_attempt_recovered [OF sample_enrolled_reach, of 11 ?x sample_late_env sample_node "snd ?guards" sample_late_env "snd ?lock" 99 "''fresh digest''"]
    by (simp add: sample_world_def) blast
qed

end
