(* ===== verification/Owner_Exclusive.thy ===== *)
theory Owner_Exclusive
  imports Machine_System
begin

text \<open>
  The nodes of \<open>Node_Lease\<close> and the tables of \<open>Relay_Db\<close> together: a node claims machines and releases
  them with its own lease, against the membership rows and the clock of the same database. A claim is
  remembered from the successful \<open>claim_owner\<close> until the successful \<open>release_owner\<close>. Two nodes that are both
  authorised never hold the same machine at the same route revision.
\<close>

section \<open>Nodes and tables together\<close>

record claim_entry =
  cl_node :: uuid
  cl_machine :: uuid
  cl_revision :: int
  cl_connection :: uuid
  cl_epoch :: int

record owner_world =
  os_system :: system
  os_relay :: relay_world
  os_claims :: "claim_entry list"

definition env_now :: "system \<Rightarrow> node \<Rightarrow> tx_env \<Rightarrow> bool" where
  "env_now S nd V \<longleftrightarrow> te_nodes V = sy_db S \<and> te_now V = sy_clock S (sy_time S) \<and> honest (sy_time S) (nd_boot nd) (te_clock V)"

definition with_lease :: "nat \<Rightarrow> node_lease \<Rightarrow> system \<Rightarrow> system" where
  "with_lease k n S = S\<lparr>sy_nodes := (sy_nodes S)[k := (sy_nodes S ! k)\<lparr>nd_lease := n\<rparr>]\<rparr>"

inductive owner_step :: "(bytes \<Rightarrow> bytes) \<Rightarrow> (bytes \<Rightarrow> bool) \<Rightarrow> (bytes \<Rightarrow> bytes) \<Rightarrow> mint \<Rightarrow> owner_world \<Rightarrow> owner_world \<Rightarrow> bool"
  for sha256 is_host lower minted where
  os_node: "sys_step (os_system x) S \<Longrightarrow> owner_step sha256 is_host lower minted x (x\<lparr>os_system := S\<rparr>)"
| os_table: "table_step sha256 is_host lower minted (os_relay x) w \<Longrightarrow> owner_step sha256 is_host lower minted x (x\<lparr>os_relay := w\<rparr>)"
| os_claim: "k < length (sy_nodes (os_system x)) \<Longrightarrow> nd = sy_nodes (os_system x) ! k \<Longrightarrow> env_now (os_system x) nd V \<Longrightarrow>
    claim_owner fate V i c g \<lparr>tx_lease = nd_lease nd, tx_tables = rw_tables (os_relay x)\<rparr> = (r, s) \<Longrightarrow>
    owner_step sha256 is_host lower minted x (x\<lparr>os_system := with_lease k (tx_lease s) (os_system x),
      os_relay := (os_relay x)\<lparr>rw_tables := tx_tables s\<rparr>,
      os_claims := (case r of Inr e \<Rightarrow> \<lparr>cl_node = nl_incarnation_id (nd_lease nd), cl_machine = i, cl_revision = g, cl_connection = c, cl_epoch = e\<rparr>
          # os_claims x | Inl _ \<Rightarrow> os_claims x)\<rparr>)"
| os_release: "k < length (sy_nodes (os_system x)) \<Longrightarrow> nd = sy_nodes (os_system x) ! k \<Longrightarrow> env_now (os_system x) nd V \<Longrightarrow>
    release_owner fate V i c e \<lparr>tx_lease = nd_lease nd, tx_tables = rw_tables (os_relay x)\<rparr> = (r, s) \<Longrightarrow>
    owner_step sha256 is_host lower minted x (x\<lparr>os_system := with_lease k (tx_lease s) (os_system x),
      os_relay := (os_relay x)\<lparr>rw_tables := tx_tables s\<rparr>,
      os_claims := (if is_ok r then filter (\<lambda>cl. \<not> (cl_node cl = nl_incarnation_id (nd_lease nd) \<and> cl_machine cl = i
          \<and> cl_connection cl = c \<and> cl_epoch cl = e)) (os_claims x) else os_claims x)\<rparr>)"

abbreviation owner_reach :: "(bytes \<Rightarrow> bytes) \<Rightarrow> (bytes \<Rightarrow> bool) \<Rightarrow> (bytes \<Rightarrow> bytes) \<Rightarrow> mint \<Rightarrow> owner_world \<Rightarrow> owner_world \<Rightarrow> bool" where
  "owner_reach sha256 is_host lower minted \<equiv> (owner_step sha256 is_host lower minted)\<^sup>*\<^sup>*"

definition start_world :: "(nat \<Rightarrow> nat) \<Rightarrow> deployment_row \<Rightarrow> credential_row list \<Rightarrow> uuid \<Rightarrow> owner_world" where
  "start_world D d cs c = \<lparr>os_system = start_system D d, os_relay = empty_world cs c, os_claims = []\<rparr>"

section \<open>Owner rows under the other transactions\<close>

text \<open>Apart from claims and releases a transaction either keeps the owner row of a machine or raises its
  route revision.\<close>

definition owners_keep :: "relay_tables \<Rightarrow> relay_tables \<Rightarrow> bool" where
  "owners_keep t t' \<longleftrightarrow> (\<forall>i r. owners_at i t = [r] \<longrightarrow> owners_at i t' = [r]
     \<or> (\<exists>r'. owners_at i t' = [r'] \<and> ow_route_revision r < ow_route_revision r'))"

lemma owners_keep_eq: "rt_owners t' = rt_owners t \<Longrightarrow> owners_keep t t'"
  by (simp add: owners_keep_def owners_at_def)

interpretation keep: tx_relation owners_keep
  by unfold_locales (simp add: owners_keep_eq)

lemma fail_one_owners: "rt_owners (fail_one a i g u t) = rt_owners t"
  by (simp add: fail_one_def Let_def)

lemma recover_owners: "rt_owners (fold recover_one rows t) = rt_owners t"
proof (induction rows arbitrary: t)
  case (Cons a rows)
  have "rt_owners (recover_one a t) = rt_owners t" by (simp add: recover_one_def Let_def fail_one_owners)
  with Cons show ?case by simp
qed simp

lemma retire_keep: "owners_keep t (retire_tables i lc g t)"
  unfolding owners_keep_def
proof (intro allI impI)
  fix j r assume r: "owners_at j t = [r]"
  let ?p = "\<lambda>r. ow_machine_id r = i \<and> ow_route_revision r = g"
  let ?r = "if ?p r then r\<lparr>ow_owner := None, ow_connection := None, ow_route_revision := g + 1\<rparr> else r"
  have "owners_at j (retire_tables i lc g t) = [?r]" using r by (simp add: owners_at_def retire_tables_def filter_update)
  then show "owners_at j (retire_tables i lc g t) = [r]
      \<or> (\<exists>r'. owners_at j (retire_tables i lc g t) = [r'] \<and> ow_route_revision r < ow_route_revision r')"
    by (cases "?p r") auto
qed

lemma create_keep:
  assumes "create_body lower V token digest input \<lparr>tx_lease = n, tx_tables = t\<rparr> = (Ok a, s)"
  shows "owners_keep t (tx_tables s)"
proof -
  from assms have new: "rt_owners (tx_tables s) = rt_owners t @ [\<lparr>ow_machine_id = te_fresh V, ow_connection_epoch = 0, ow_owner = None,
         ow_connection = None, ow_route_revision = 1\<rparr>]" "owners_at (te_fresh V) t = []"
    by (auto simp: create_body_def res_simps Let_def enroll_tables_def owners_at_def filter_empty_conv list_ex_iff
        dest!: guards_Ok insert_enrollment_effect)
  have "owners_at j (tx_tables s) = [r]" if "owners_at j t = [r]" for j r
    using that new by (cases "j = te_fresh V") (auto simp: owners_at_def)
  then show ?thesis by (simp add: owners_keep_def)
qed

lemma relay_tx_keep:
  "tx_run (accept_token fate sha256 V token) n t = (ra, t') \<Longrightarrow> owners_keep t t'"
  "tx_run (activate fate is_host V ac relay_id key host) n t = (r, t') \<Longrightarrow> owners_keep t t'"
  "tx_run (fail_attempt fate V ac) n t = (r, t') \<Longrightarrow> owners_keep t t'"
  "tx_run (recover_expired_attempts fate V scope) n t = (r, t') \<Longrightarrow> owners_keep t t'"
proof -
  have acc: "owners_keep t (tx_tables s)" if "accept_body V (token_digest sha256 token) \<lparr>tx_lease = n, tx_tables = t\<rparr> = (Ok a, s)" for a s
    using that by (rule accept_effect) (auto simp: accept_tables_def intro!: owners_keep_eq)
  show "tx_run (accept_token fate sha256 V token) n t = (ra, t') \<Longrightarrow> owners_keep t t'"
  proof (cases "\<not> starts_with ENROLLMENT_PREFIX token \<or> length token > 80")
    case False
    assume "tx_run (accept_token fate sha256 V token) n t = (ra, t')"
    with False acc show ?thesis by (auto simp: accept_token_def elim!: keep.run)
  qed (auto simp: accept_token_def tx_run_def sr_leaf intro: owners_keep_eq)
  show "tx_run (activate fate is_host V ac relay_id key host) n t = (r, t') \<Longrightarrow> owners_keep t t'"
    unfolding activate_def by (erule keep.run) (auto simp: activate_tables_def dest!: activate_effect intro!: owners_keep_eq)
  show "tx_run (fail_attempt fate V ac) n t = (r, t') \<Longrightarrow> owners_keep t t'"
    unfolding fail_attempt_def by (erule keep.run) (auto simp: res_simps fail_one_owners dest!: guards_Ok intro!: owners_keep_eq)
  show "tx_run (recover_expired_attempts fate V scope) n t = (r, t') \<Longrightarrow> owners_keep t t'"
    unfolding recover_expired_attempts_def by (erule keep.run) (auto simp: recover_body_def res_simps recover_owners dest!: guards_Ok intro!: owners_keep_eq)
qed

lemma api_tx_keep:
  "tx_run (create_machine fate lower V token digest input) n t = (y, t') \<Longrightarrow> owners_keep t t'"
  "tx_run (rename_machine fate lower V i alias) n t = (z, t') \<Longrightarrow> owners_keep t t'"
  "tx_run (rebind_machine_credential fate V i credential) n t = (z, t') \<Longrightarrow> owners_keep t t'"
  "tx_run (re_enroll_disabled_machine fate V i) n t = (z, t') \<Longrightarrow> owners_keep t t'"
  "tx_run (issue_transaction fate V token i digest) n t = (z, t') \<Longrightarrow> owners_keep t t'"
  "tx_run (cancel_enrollment_token fate V i) n t = (z, t') \<Longrightarrow> owners_keep t t'"
  "tx_run (commit_active_machine_transition fate V i lc action expected) n t = (z, t') \<Longrightarrow> owners_keep t t'"
proof -
  show "tx_run (create_machine fate lower V token digest input) n t = (y, t') \<Longrightarrow> owners_keep t t'"
    unfolding create_machine_def by (auto elim!: keep.validated keep.run intro: create_keep)
  show "tx_run (rename_machine fate lower V i alias) n t = (z, t') \<Longrightarrow> owners_keep t t'"
    unfolding rename_machine_def by (erule keep.validated, erule keep.run) (auto simp: res_simps dest!: guards_Ok intro!: owners_keep_eq)
  show "tx_run (rebind_machine_credential fate V i credential) n t = (z, t') \<Longrightarrow> owners_keep t t'"
    unfolding rebind_machine_credential_def
    by (erule keep.run) (auto simp: res_simps Let_def split: option.splits dest!: guards_Ok intro!: owners_keep_eq)
  show "tx_run (re_enroll_disabled_machine fate V i) n t = (z, t') \<Longrightarrow> owners_keep t t'"
    unfolding re_enroll_disabled_machine_def by (erule keep.run) (auto simp: res_simps Let_def dest!: guards_Ok intro!: owners_keep_eq)
  show "tx_run (cancel_enrollment_token fate V i) n t = (z, t') \<Longrightarrow> owners_keep t t'"
    unfolding cancel_enrollment_token_def
    by (erule keep.run) (auto simp: res_simps cancel_issued_def dest!: guards_Ok intro!: owners_keep_eq)
  show "tx_run (issue_transaction fate V token i digest) n t = (z, t') \<Longrightarrow> owners_keep t t'"
    unfolding issue_transaction_def
    by (erule keep.run) (auto simp: res_simps cancel_issued_def enroll_tables_def dest!: guards_Ok insert_enrollment_effect intro!: owners_keep_eq)
  have "owners_keep t (tx_tables s)" if "transition_body V i lc action expected \<lparr>tx_lease = n, tx_tables = t\<rparr> = (Ok x, s)" for x s
    using that
  proof (rule transition_effect, goal_cases)
    case (1 m ow nl a)
    have "owners_keep t (tx_tables s) = owners_keep t (retire_tables i lc (mc_route_revision m) t)"
      using 1(7) by (simp add: owners_keep_def)
    then show ?case using retire_keep by simp
  qed
  then show "tx_run (commit_active_machine_transition fate V i lc action expected) n t = (z, t') \<Longrightarrow> owners_keep t t'"
    unfolding commit_active_machine_transition_def by (auto elim!: keep.run)
qed

lemma only_credentials_keep: "only_credentials t t' \<Longrightarrow> owners_keep t t'"
  by (auto simp: only_credentials_def intro!: owners_keep_eq)

lemmas credential_tx_keep = credential_tx_only [THEN only_credentials_keep]

lemma table_step_keep: "table_step sha256 is_host lower minted w w' \<Longrightarrow> owners_keep (rw_tables w) (rw_tables w')"
  by (induction rule: table_step.induct)
    (simp_all add: relay_tx_keep api_tx_keep credential_tx_keep)

section \<open>Node steps\<close>

definition node_inc :: "node \<Rightarrow> uuid" where
  "node_inc nd = nl_incarnation_id (nd_lease nd)"

lemma node_step_limit:
  assumes "node_step D \<tau> db nd db' nd'" "node_ok D \<tau> (ld_nodes db) nd" "\<not> registering (nd_phase nd)"
  shows "node_inc nd' = node_inc nd \<and> \<not> registering (nd_phase nd') \<and> (limit nd' \<le> limit nd \<or> \<tau> < limit nd)"
proof -
  have "\<not> registering (nd_phase nd')"
    using assms(1,3) by (induction rule: node_step.induct) (auto split: option.splits)
  with node_step_effect [OF assms(1,2)] assms(3) show ?thesis by (auto simp: step_effect_def node_inc_def lease_key_def)
qed

text \<open>A node that is still authorised after a step of the system was a node before it.\<close>

lemma sys_step_node:
  assumes "sys_step S T" "system_ok S" "nd \<in> set (sy_nodes S)" "\<not> registering (nd_phase nd)"
  shows "\<exists>nd' \<in> set (sy_nodes T). node_inc nd' = node_inc nd \<and> \<not> registering (nd_phase nd') \<and> sy_time S \<le> sy_time T
    \<and> (sy_time T < limit nd' \<longrightarrow> sy_time S < limit nd)"
  using assms
proof (induction rule: sys_step.induct)
  case (ss_node i S db' nd')
  show ?case
  proof (cases "nd = sy_nodes S ! i")
    case True
    have "node_ok (sy_clock S) (sy_time S) (ld_nodes (sy_db S)) nd" using ss_node.prems by (simp add: system_ok_def)
    with node_step_limit [OF ss_node.hyps(2)] ss_node.prems(3) True have "node_inc nd' = node_inc nd" "\<not> registering (nd_phase nd')"
      "sy_time S < limit nd' \<longrightarrow> sy_time S < limit nd" by auto
    then show ?thesis using ss_node.hyps(1) by (intro bexI [of _ nd']) (auto simp: set_update_memI)
  next
    case False
    with ss_node.prems(2) have "nd \<in> set ((sy_nodes S)[i := nd'])" by (metis in_set_conv_nth length_list_update nth_list_update_neq)
    then show ?thesis using ss_node.prems by (intro bexI [of _ nd]) auto
  qed
qed auto

text \<open>Checking and fencing a lease are steps of its node.\<close>

lemma with_lease_reachable:
  assumes "reachable S0 S" "k < length (sy_nodes S)" "honest (sy_time S) (nd_boot (sy_nodes S ! k)) rd"
    and "n = nd_lease (sy_nodes S ! k) \<or> n = snd (lease_check rd (nd_lease (sy_nodes S ! k)))"
  shows "reachable S0 (with_lease k n S) \<and> reachable S0 (with_lease k (lease_fence n) S)"
proof -
  let ?nd = "sy_nodes S ! k"
  have 1: "reachable S0 (with_lease k n S)"
    using assms(4)
  proof
    assume "n = nd_lease ?nd"
    then have "with_lease k n S = S" by (simp add: with_lease_def)
    with assms(1) show ?thesis by simp
  next
    assume "n = snd (lease_check rd (nd_lease ?nd))"
    then have "sys_step S (with_lease k n S)"
      using ss_node [OF assms(2) ns_check [OF assms(3)]] by (simp add: with_lease_def)
    with assms(1) show ?thesis by (rule reach_step)
  qed
  have "sys_step (with_lease k n S) (with_lease k (lease_fence n) S)"
    using ss_node [of k "with_lease k n S", OF _ ns_fence] assms(2) by (simp add: with_lease_def)
  with 1 show ?thesis by (blast intro: reach_step)
qed

lemma with_lease_node: "k < length (sy_nodes S) \<Longrightarrow> sy_nodes (with_lease k n S) ! k = (sy_nodes S ! k)\<lparr>nd_lease := n\<rparr>"
  by (simp add: with_lease_def)

section \<open>What a claim and a release do to the lease\<close>

definition keeps :: "('e, 'a) tx \<Rightarrow> bool" where
  "keeps tx \<longleftrightarrow> (\<forall>s. tx_lease (snd (tx s)) = tx_lease s)"

lemma keeps_intros [intro!]:
  "keeps (tx_require b e)" "keeps (tx_write f)" "keeps (tx_read h)" "keeps (tx_audit k i c a)" "keeps (sr_return x)" "keeps (sr_throw e)"
  "keeps (sr_gets g)"
  by (simp_all add: keeps_def tx_require_def tx_write_def tx_read_def tx_audit_def sr_leaf)

lemma keeps_bind [intro!]: "keeps m \<Longrightarrow> (\<And>a. keeps (f a)) \<Longrightarrow> keeps (sr_bind m f)"
  by (auto simp: keeps_def sr_bind_def split: prod.splits sum.splits) (metis snd_conv)+

lemma checked_body:
  assumes "sr_bind (lock_deployment V) (\<lambda>_. sr_bind (sr_bind (tx_check (te_clock V) R_Fenced) (\<lambda>_. check)) (\<lambda>_. rest)) s = (x, s')"
    and "keeps check" "keeps rest"
  shows "tx_lease s' = tx_lease s \<or> tx_lease s' = snd (lease_check (te_clock V) (tx_lease s))"
proof -
  have k: "tx_lease s2 = tx_lease s1" if "check s1 = (y, s2)" for s1 y s2 using assms(2) that by (metis keeps_def snd_conv)
  have r: "tx_lease s2 = tx_lease s1" if "rest s1 = (y, s2)" for s1 y s2 using assms(3) that by (metis keeps_def snd_conv)
  show ?thesis using assms(1)
    by (auto simp: sr_bind_def lock_deployment_def tx_require_def sr_leaf tx_check_def split: prod.splits sum.splits if_splits dest!: k r)
qed

lemma claim_body_lease:
  "claim_body V i c g s = (x, s') \<Longrightarrow> tx_lease s' = tx_lease s \<or> tx_lease s' = snd (lease_check (te_clock V) (tx_lease s))"
  unfolding claim_body_def validate_node_def by (erule checked_body) (auto split: option.split)

lemma release_body_lease:
  "owner_release_body V i c e s = (x, s') \<Longrightarrow> tx_lease s' = tx_lease s \<or> tx_lease s' = snd (lease_check (te_clock V) (tx_lease s))"
  unfolding owner_release_body_def validate_releasing_node_def by (erule checked_body) (auto simp: Let_def)

lemma run_transaction_lease:
  assumes "run_transaction e e' fate body s = (x, s')"
  shows "tx_lease s' = tx_lease s \<or> (\<exists>y s1. body s = (y, s1) \<and> tx_lease s' = tx_lease s1)"
  using assms by (auto simp: run_transaction_def split: if_splits prod.splits sum.splits db_fate.splits)

lemma run_transaction_ambiguous:
  assumes "run_transaction e e' fate body s = (Inl x, s')" "tx_tables s' \<noteq> tx_tables s"
  shows "x = e' \<and> (\<exists>a s1. body s = (Ok a, s1) \<and> tx_tables s' = tx_tables s1)"
  using assms by (auto simp: run_transaction_def split: if_splits prod.splits sum.splits db_fate.splits)

lemma claim_checked:
  assumes "claim_body V i c g s = (Ok e, s')"
  shows "nl_hard_deadline_ns (tx_lease s) \<noteq> 0"
  using assms
  by (auto simp: claim_body_def validate_node_def res_simps lock_deployment_def tx_check_def lease_check_def
      split: if_splits prod.splits sum.splits dest!: read_clock_frame)

text \<open>A claim that changes the tables found no leased owner; if it reports an error all the same, the node is
  fenced.\<close>

lemma audit_id: "t\<lparr>rt_audit := rt_audit t\<rparr> = t" for t :: relay_tables
  by simp

lemma claim_owner_cases:
  assumes "claim_owner fate V i c g \<lparr>tx_lease = n, tx_tables = t\<rparr> = (r, s)"
  shows "(\<exists>n1. (n1 = n \<or> n1 = snd (lease_check (te_clock V) n)) \<and> (tx_lease s = n1 \<or> tx_lease s = lease_fence n1))
    \<and> ((\<exists>a. tx_tables s = t\<lparr>rt_audit := a\<rparr>) \<and> \<not> is_ok r \<or>
       (\<exists>ow e a. claimable i g t = Some ow \<and> \<not> owner_leased (te_now V) (te_nodes V) ow \<and> e = ow_connection_epoch ow + 1
          \<and> tx_tables s = (claim_tables (nl_incarnation_id n) i c g e t)\<lparr>rt_audit := a\<rparr> \<and> nl_hard_deadline_ns n \<noteq> 0
          \<and> (r = Ok e \<or> \<not> is_ok r)))"
proof -
  let ?s = "\<lparr>tx_lease = n, tx_tables = t\<rparr>" and ?run = "run_transaction R_Unavailable R_Ambiguous fate (claim_body V i c g)"
  obtain x s1 where run: "?run ?s = (x, s1)" by fastforce
  have lease: "tx_lease s1 = n \<or> tx_lease s1 = snd (lease_check (te_clock V) n)"
    using run_transaction_lease [OF run] claim_body_lease [of V i c g ?s] by auto
  have s: "\<exists>a. tx_tables s = (tx_tables s1)\<lparr>rt_audit := a\<rparr>" "tx_lease s = tx_lease s1 \<or> tx_lease s = lease_fence (tx_lease s1)" "r = x"
    using assms run audit_id [of "tx_tables s1"] by (auto simp: claim_owner_def split: sum.splits if_splits intro: exI [of _ "rt_audit (tx_tables s1)"])
  have eff: "\<exists>ow a. claimable i g t = Some ow \<and> \<not> owner_leased (te_now V) (te_nodes V) ow \<and> e = ow_connection_epoch ow + 1
      \<and> tx_tables s2 = (claim_tables (nl_incarnation_id n) i c g e t)\<lparr>rt_audit := a\<rparr> \<and> nl_hard_deadline_ns n \<noteq> 0"
    if "claim_body V i c g ?s = (Ok e, s2)" for e s2
    using claim_effect [OF that] claim_checked [OF that] by (metis relay_tx.select_convs)
  have "tx_tables s1 = t \<and> \<not> is_ok x \<or> (\<exists>e s2. claim_body V i c g ?s = (Ok e, s2) \<and> tx_tables s1 = tx_tables s2 \<and> (x = Ok e \<or> \<not> is_ok x))"
    using run by (auto simp: run_transaction_def is_ok_def split: if_splits prod.splits sum.splits db_fate.splits)
  then consider "tx_tables s1 = t" "\<not> is_ok x"
    | e s2 where "claim_body V i c g ?s = (Ok e, s2)" "tx_tables s1 = tx_tables s2" "x = Ok e \<or> \<not> is_ok x" by blast
  then have "(\<exists>a. tx_tables s = t\<lparr>rt_audit := a\<rparr>) \<and> \<not> is_ok r \<or>
       (\<exists>ow e a. claimable i g t = Some ow \<and> \<not> owner_leased (te_now V) (te_nodes V) ow \<and> e = ow_connection_epoch ow + 1
          \<and> tx_tables s = (claim_tables (nl_incarnation_id n) i c g e t)\<lparr>rt_audit := a\<rparr> \<and> nl_hard_deadline_ns n \<noteq> 0
          \<and> (r = Ok e \<or> \<not> is_ok r))"
  proof cases
    case 1
    with s(1,3) show ?thesis by auto
  next
    case e: (2 e s2)
    from eff [OF e(1)] obtain ow a0 where ow: "claimable i g t = Some ow" "\<not> owner_leased (te_now V) (te_nodes V) ow" "e = ow_connection_epoch ow + 1"
      "tx_tables s2 = (claim_tables (nl_incarnation_id n) i c g e t)\<lparr>rt_audit := a0\<rparr>" "nl_hard_deadline_ns n \<noteq> 0" by blast
    from s(1) e(2) ow(4) obtain a where "tx_tables s = (claim_tables (nl_incarnation_id n) i c g e t)\<lparr>rt_audit := a\<rparr>" by auto
    with ow e(3) s(3) show ?thesis by blast
  qed
  with lease s(2) show ?thesis by blast
qed

lemma release_owner_cases:
  assumes "release_owner fate V i c e \<lparr>tx_lease = n, tx_tables = t\<rparr> = (r, s)"
  shows "(\<exists>n1. (n1 = n \<or> n1 = snd (lease_check (te_clock V) n)) \<and> (tx_lease s = n1 \<and> is_ok r \<or> tx_lease s = lease_fence n1 \<and> \<not> is_ok r))
    \<and> (tx_tables s = t \<or> (\<exists>a. tx_tables s = (release_tables (nl_incarnation_id n) i c e t)\<lparr>rt_audit := a\<rparr>))"
proof -
  let ?s = "\<lparr>tx_lease = n, tx_tables = t\<rparr>" and ?run = "run_transaction R_Unavailable R_Ambiguous fate (owner_release_body V i c e)"
  obtain x s1 where run: "?run ?s = (x, s1)" by fastforce
  have lease: "tx_lease s1 = n \<or> tx_lease s1 = snd (lease_check (te_clock V) n)"
    using run_transaction_lease [OF run] release_body_lease [of V i c e ?s] by auto
  have s: "tx_tables s = tx_tables s1" "tx_lease s = tx_lease s1 \<and> is_ok r \<or> tx_lease s = lease_fence (tx_lease s1) \<and> \<not> is_ok r"
    using assms run by (auto simp: release_owner_def split: sum.splits)
  from run_transaction_tables [OF run] have "tx_tables s1 = t \<or> (\<exists>a. tx_tables s1 = (release_tables (nl_incarnation_id n) i c e t)\<lparr>rt_audit := a\<rparr>)"
    using release_effect [of V i c e ?s] by fastforce
  with lease s show ?thesis by metis
qed

section \<open>The invariant\<close>

definition held :: "claim_entry \<Rightarrow> relay_tables \<Rightarrow> bool" where
  "held cl t \<longleftrightarrow> (\<exists>r. owners_at (cl_machine cl) t = [r] \<and> (cl_revision cl < ow_route_revision r
     \<or> cl_revision cl = ow_route_revision r \<and> ow_owner r = Some (cl_node cl) \<and> ow_connection r = Some (cl_connection cl)
       \<and> ow_connection_epoch r = cl_epoch cl))"

definition claim_ok :: "system \<Rightarrow> relay_tables \<Rightarrow> claim_entry \<Rightarrow> bool" where
  "claim_ok S t cl \<longleftrightarrow> (\<exists>nd \<in> set (sy_nodes S). node_inc nd = cl_node cl \<and> \<not> registering (nd_phase nd)
     \<and> (sy_time S < limit nd \<longrightarrow> held cl t))"

definition live_claim :: "system \<Rightarrow> claim_entry \<Rightarrow> bool" where
  "live_claim S cl \<longleftrightarrow> (\<exists>nd \<in> set (sy_nodes S). node_inc nd = cl_node cl \<and> sy_time S < limit nd)"

definition claims_exclusive :: "system \<Rightarrow> claim_entry list \<Rightarrow> bool" where
  "claims_exclusive S cls \<longleftrightarrow> (\<forall>a \<in> set cls. \<forall>b \<in> set cls. cl_machine a = cl_machine b \<and> cl_revision a = cl_revision b
     \<and> live_claim S a \<and> live_claim S b \<longrightarrow> a = b)"

definition owner_inv :: "(nat \<Rightarrow> nat) \<Rightarrow> deployment_row \<Rightarrow> owner_world \<Rightarrow> bool" where
  "owner_inv D d x \<longleftrightarrow> reachable (start_system D d) (os_system x) \<and> world_ok (os_relay x)
     \<and> (\<forall>cl \<in> set (os_claims x). claim_ok (os_system x) (rw_tables (os_relay x)) cl) \<and> claims_exclusive (os_system x) (os_claims x)"

lemma node_inc_unique: "system_ok S \<Longrightarrow> nd \<in> set (sy_nodes S) \<Longrightarrow> nd' \<in> set (sy_nodes S) \<Longrightarrow> node_inc nd = node_inc nd' \<Longrightarrow> nd = nd'"
  by (auto simp: system_ok_def nodes_distinct_def distinct_conv_nth in_set_conv_nth node_inc_def)

lemma live_claim_held: "system_ok S \<Longrightarrow> claim_ok S t cl \<Longrightarrow> live_claim S cl \<Longrightarrow> held cl t"
  unfolding claim_ok_def live_claim_def by (metis node_inc_unique)

lemma exclusive_back:
  assumes "claims_exclusive S cls" "\<And>cl. cl \<in> set cls \<Longrightarrow> live_claim T cl \<Longrightarrow> live_claim S cl" "set cls' \<subseteq> set cls"
  shows "claims_exclusive T cls'"
  using assms unfolding claims_exclusive_def by (meson subsetD)

lemma held_keep:
  assumes "owners_keep t t'" "held cl t"
  shows "held cl t'"
proof -
  from assms(2) obtain r where r: "owners_at (cl_machine cl) t = [r]" "cl_revision cl \<le> ow_route_revision r" by (auto simp: held_def)
  from assms(1) r(1) consider "owners_at (cl_machine cl) t' = [r]"
    | r' where "owners_at (cl_machine cl) t' = [r']" "ow_route_revision r < ow_route_revision r'" by (auto simp: owners_keep_def)
  then show ?thesis using assms(2) r by cases (auto simp: held_def)
qed

lemma claim_ok_audit [simp]: "held cl (t\<lparr>rt_audit := a\<rparr>) = held cl t" "claim_ok S (t\<lparr>rt_audit := a\<rparr>) cl = claim_ok S t cl"
  by (simp_all add: held_def claim_ok_def)

lemma claim_ok_keep: "claim_ok S t cl \<Longrightarrow> (held cl t \<Longrightarrow> held cl t') \<Longrightarrow> claim_ok S t' cl"
  unfolding claim_ok_def by blast

lemma claim_ok_sys: "sys_step S T \<Longrightarrow> system_ok S \<Longrightarrow> claim_ok S t cl \<Longrightarrow> claim_ok T t cl"
  unfolding claim_ok_def by (metis sys_step_node)

lemma live_claim_back:
  assumes "sys_step S T" "system_ok S" "system_ok T" "claim_ok S t cl" "live_claim T cl"
  shows "live_claim S cl"
proof -
  from assms(4) obtain nd where nd: "nd \<in> set (sy_nodes S)" "node_inc nd = cl_node cl" "\<not> registering (nd_phase nd)" by (auto simp: claim_ok_def)
  from sys_step_node [OF assms(1,2) nd(1,3)] obtain nd' where nd': "nd' \<in> set (sy_nodes T)" "node_inc nd' = node_inc nd"
    "sy_time T < limit nd' \<longrightarrow> sy_time S < limit nd" by blast
  from assms(5) obtain nd2 where "nd2 \<in> set (sy_nodes T)" "node_inc nd2 = cl_node cl" "sy_time T < limit nd2" by (auto simp: live_claim_def)
  with node_inc_unique [OF assms(3)] nd nd' show ?thesis unfolding live_claim_def by metis
qed

text \<open>Checking or fencing a lease only ends lives.\<close>

lemma with_lease_limit:
  assumes "n1 = nd_lease (sy_nodes S ! k) \<or> n1 = snd (lease_check rd (nd_lease (sy_nodes S ! k)))" "n = n1 \<or> n = lease_fence n1"
    "k < length (sy_nodes S)" "live_claim (with_lease k n S) cl"
  shows "live_claim S cl"
proof -
  let ?nd = "sy_nodes S ! k"
  have f: "nl_fenced (nd_lease ?nd) \<longrightarrow> nl_fenced n" "nl_hard_deadline_ns n = nl_hard_deadline_ns (nd_lease ?nd)" "lease_key n = lease_key (nd_lease ?nd)"
    using assms(1,2) lease_check_frame [OF surjective_pairing, of rd "nd_lease ?nd"] by (auto simp: lease_fence_def lease_key_def)
  have "limit (?nd\<lparr>nd_lease := n\<rparr>) \<le> limit ?nd" using f by (auto simp: limit_def Let_def lease_key_def split: phase.splits)
  moreover have "node_inc (?nd\<lparr>nd_lease := n\<rparr>) = node_inc ?nd" using f(3) by (simp add: node_inc_def lease_key_def)
  moreover from assms(4) obtain nd where "nd \<in> set ((sy_nodes S)[k := ?nd\<lparr>nd_lease := n\<rparr>])" "node_inc nd = cl_node cl" "sy_time S < limit nd"
    by (auto simp: live_claim_def with_lease_def)
  ultimately show ?thesis
    using assms(3) set_update_subset_insert [of "sy_nodes S" k "?nd\<lparr>nd_lease := n\<rparr>"] unfolding live_claim_def by fastforce
qed

lemma reachable_trans_claim:
  assumes "reachable S0 S" "k < length (sy_nodes S)" "honest (sy_time S) (nd_boot (sy_nodes S ! k)) rd" "system_ok S"
    and "n = nd_lease (sy_nodes S ! k) \<or> n = snd (lease_check rd (nd_lease (sy_nodes S ! k)))" "claim_ok S t cl"
  shows "claim_ok (with_lease k n S) t cl \<and> claim_ok (with_lease k (lease_fence n) S) t cl"
proof -
  let ?nd = "sy_nodes S ! k"
  have 1: "claim_ok (with_lease k n S) t cl \<and> system_ok (with_lease k n S)"
    using assms(5)
  proof
    assume "n = nd_lease ?nd"
    then have "with_lease k n S = S" by (simp add: with_lease_def)
    with assms(4,6) show ?thesis by simp
  next
    assume "n = snd (lease_check rd (nd_lease ?nd))"
    then have "with_lease k n S = S\<lparr>sy_db := sy_db S, sy_nodes := (sy_nodes S)[k := ?nd\<lparr>nd_lease := snd (lease_check rd (nd_lease ?nd))\<rparr>]\<rparr>"
      by (simp add: with_lease_def)
    moreover have "node_step (sy_clock S) (sy_time S) (sy_db S) ?nd (sy_db S) (?nd\<lparr>nd_lease := snd (lease_check rd (nd_lease ?nd))\<rparr>)"
      by (rule ns_check [OF assms(3)])
    ultimately show ?thesis using ss_node [OF assms(2)] system_ok_node [OF assms(4,2)] claim_ok_sys assms(4,6) by metis
  qed
  have "sys_step (with_lease k n S) (with_lease k (lease_fence n) S)"
    using ss_node [of k "with_lease k n S", OF _ ns_fence] assms(2) by (simp add: with_lease_def)
  with 1 claim_ok_sys show ?thesis by blast
qed

text \<open>An owner whose node may still be authorised has a lease in the database.\<close>

lemma limit_leased:
  assumes "system_ok S" "nd \<in> set (sy_nodes S)" "sy_time S < limit nd" "ow_owner ow = Some (node_inc nd)"
  shows "owner_leased (sy_clock S (sy_time S)) (sy_db S) ow"
proof -
  have "node_ok (sy_clock S) (sy_time S) (ld_nodes (sy_db S)) nd" using assms(1,2) by (simp add: system_ok_def)
  from limit_row [OF this assms(3)] assms(4) show ?thesis by (auto simp: owner_leased_def list_ex_iff node_inc_def)
qed

lemma claim_held:
  assumes "claimable i g t = Some ow" "owners_at i t = [r]" "e = ow_connection_epoch ow + 1"
  shows "owners_at i (claim_tables u i c g e t) = [r\<lparr>ow_connection_epoch := e, ow_owner := Some u, ow_connection := Some c\<rparr>]"
    "ow = r" "ow_route_revision r = g"
proof -
  from assms(2) have "r \<in> set (owners_at i t)" by simp
  then have "ow_machine_id r = i" by (simp add: owners_at_def)
  with assms(2) show "owners_at i (claim_tables u i c g e t) = [r\<lparr>ow_connection_epoch := e, ow_owner := Some u, ow_connection := Some c\<rparr>]"
    by (simp add: owners_at_def claim_tables_def filter_update)
  show "ow = r" "ow_route_revision r = g" using assms(1,2) by (auto simp: claimable_def owner_of_at split: option.splits if_splits)
qed

lemma claim_keeps_others:
  assumes "system_ok S" "claim_ok S t cl" "claimable i g t = Some ow" "\<not> owner_leased (sy_clock S (sy_time S)) (sy_db S) ow" "e = ow_connection_epoch ow + 1"
  shows "claim_ok S ((claim_tables u i c g e t)\<lparr>rt_audit := a\<rparr>) cl"
proof -
  from assms(2) obtain nd where nd: "nd \<in> set (sy_nodes S)" "node_inc nd = cl_node cl" "\<not> registering (nd_phase nd)"
    "sy_time S < limit nd \<longrightarrow> held cl t" by (auto simp: claim_ok_def)
  have "held cl ((claim_tables u i c g e t)\<lparr>rt_audit := a\<rparr>)" if live: "sy_time S < limit nd"
  proof (cases "cl_machine cl = i")
    case False
    with nd(4) live show ?thesis by (auto simp: held_def claim_tables_def owners_at_def filter_update_other)
  next
    case True
    with nd(4) live obtain r where r: "owners_at i t = [r]" "cl_revision cl < ow_route_revision r
     \<or> cl_revision cl = ow_route_revision r \<and> ow_owner r = Some (cl_node cl)" by (auto simp: held_def)
    note h = claim_held [OF assms(3) r(1) assms(5)]
    have "ow_owner r \<noteq> Some (cl_node cl)" using limit_leased [OF assms(1) nd(1) live, of r] assms(4) h(2) nd(2) by auto
    with r True h(1) show ?thesis by (simp add: held_def)
  qed
  with nd show ?thesis by (auto simp: claim_ok_def)
qed

lemma release_keeps_others:
  assumes "claim_ok S t cl" "\<not> (cl_node cl = u \<and> cl_machine cl = i \<and> cl_connection cl = c \<and> cl_epoch cl = e)"
  shows "claim_ok S ((release_tables u i c e t)\<lparr>rt_audit := a\<rparr>) cl"
  using assms(1)
proof (rule claim_ok_keep)
  assume "held cl t"
  then obtain r where r: "owners_at (cl_machine cl) t = [r]" "cl_revision cl < ow_route_revision r
     \<or> cl_revision cl = ow_route_revision r \<and> ow_owner r = Some (cl_node cl) \<and> ow_connection r = Some (cl_connection cl)
       \<and> ow_connection_epoch r = cl_epoch cl" by (auto simp: held_def)
  from r(1) have "r \<in> set (owners_at (cl_machine cl) t)" by simp
  then have id: "ow_machine_id r = cl_machine cl" by (simp add: owners_at_def)
  let ?hit = "ow_machine_id r = i \<and> ow_owner r = Some u \<and> ow_connection r = Some c \<and> ow_connection_epoch r = e"
  have "owners_at (cl_machine cl) ((release_tables u i c e t)\<lparr>rt_audit := a\<rparr>) = [if ?hit then r\<lparr>ow_owner := None, ow_connection := None\<rparr> else r]"
    using r(1) by (simp add: owners_at_def release_tables_def filter_update)
  with r assms(2) id show "held cl ((release_tables u i c e t)\<lparr>rt_audit := a\<rparr>)" by (cases ?hit) (auto simp: held_def)
qed

text \<open>The claims of a fenced node ask for nothing.\<close>

lemma claim_ok_fenced:
  assumes "claim_ok S t cl" "k < length (sy_nodes S)" "cl_node cl = node_inc (sy_nodes S ! k)" "nl_fenced (nd_lease (sy_nodes S ! k))" "system_ok S"
  shows "claim_ok S t' cl"
proof -
  from assms(1) obtain nd where nd: "nd \<in> set (sy_nodes S)" "node_inc nd = cl_node cl" "\<not> registering (nd_phase nd)" by (auto simp: claim_ok_def)
  then obtain j where j: "j < length (sy_nodes S)" "nd = sy_nodes S ! j" by (auto simp: in_set_conv_nth)
  have "j = k"
    using assms(2,3,5) j nd(2) by (auto simp: system_ok_def nodes_distinct_def distinct_conv_nth node_inc_def)
  then have "limit nd = 0" using assms(4) j by (simp add: limit_def Let_def)
  with nd show ?thesis by (auto simp: claim_ok_def)
qed

lemma new_claim_ok:
  assumes "world_ok w" "system_ok S" "k < length (sy_nodes S)" "claimable i g (rw_tables w) = Some ow" "e = ow_connection_epoch ow + 1"
    and "nl_hard_deadline_ns n0 \<noteq> 0" "nd_lease (sy_nodes S ! k) = n" "nl_incarnation_id n = u" "nl_hard_deadline_ns n = nl_hard_deadline_ns n0"
  shows "claim_ok S ((claim_tables u i c g e (rw_tables w))\<lparr>rt_audit := a\<rparr>)
    \<lparr>cl_node = u, cl_machine = i, cl_revision = g, cl_connection = c, cl_epoch = e\<rparr>"
proof -
  let ?nd = "sy_nodes S ! k"
  have "node_ok (sy_clock S) (sy_time S) (ld_nodes (sy_db S)) ?nd" using assms(2,3) by (simp add: system_ok_def)
  with assms(6,7,9) have "\<not> registering (nd_phase ?nd)" by (auto simp: node_ok_def)
  moreover from assms(1) obtain v where v: "represents i (rw_tables w) v" by (auto simp: world_ok_def tables_ok_def)
  have "owners_at i (rw_tables w) \<noteq> []" using assms(4) by (auto simp: claimable_def owner_of_at split: option.splits list.splits)
  with v obtain r where r: "owners_at i (rw_tables w) = [r]" by (auto simp: represents_def split: option.splits)
  note h = claim_held [OF assms(4) r assms(5)]
  ultimately show ?thesis using assms(3,7,8) h(1,3)
    by (auto simp: claim_ok_def held_def node_inc_def intro!: bexI [of _ ?nd])
qed

lemma lease_of_check:
  assumes "n1 = n \<or> n1 = snd (lease_check rd n)" "n' = n1 \<or> n' = lease_fence n1"
  shows "nl_incarnation_id n' = nl_incarnation_id n \<and> nl_hard_deadline_ns n' = nl_hard_deadline_ns n"
  using assms lease_check_frame [OF surjective_pairing, of rd n] by (auto simp: lease_key_def lease_fence_def)

lemma with_lease_simps [simp]:
  "sy_time (with_lease k n S) = sy_time S" "sy_clock (with_lease k n S) = sy_clock S" "sy_db (with_lease k n S) = sy_db S" "length (sy_nodes (with_lease k n S)) = length (sy_nodes S)"
  by (simp_all add: with_lease_def)

lemma world_ok_tables: "world_ok w \<Longrightarrow> tables_ok (rw_tables w)"
  by (simp add: world_ok_def)

lemma exclusive_Cons:
  assumes "claims_exclusive S cls" "\<And>b. b \<in> set cls \<Longrightarrow> cl_machine b = cl_machine a \<Longrightarrow> cl_revision b = cl_revision a \<Longrightarrow> live_claim S b \<Longrightarrow> False"
  shows "claims_exclusive S (a # cls)"
  using assms unfolding claims_exclusive_def by (metis set_ConsD)

lemma stale_when_claimed:
  assumes "system_ok S" "claimable i g t = Some ow" "\<not> owner_leased (sy_clock S (sy_time S)) (sy_db S) ow"
    and "claim_ok S t b" "cl_machine b = i" "cl_revision b = g" "live_claim S b"
  shows False
proof -
  from live_claim_held [OF assms(1,4,7)] assms(5,6) obtain r where r: "owners_at i t = [r]"
    "g < ow_route_revision r \<or> g = ow_route_revision r \<and> ow_owner r = Some (cl_node b)" by (auto simp: held_def)
  note h = claim_held(2,3) [OF assms(2) r(1) refl]
  from assms(7) obtain nd where "nd \<in> set (sy_nodes S)" "node_inc nd = cl_node b" "sy_time S < limit nd" by (auto simp: live_claim_def)
  with limit_leased [OF assms(1)] r h assms(3) show False by auto
qed

lemma owner_inv_claim:
  assumes inv: "owner_inv D d x" and k: "k < length (sy_nodes (os_system x))" "env_now (os_system x) (sy_nodes (os_system x) ! k) V"
    and cl: "claim_owner fate V i c g \<lparr>tx_lease = nd_lease (sy_nodes (os_system x) ! k), tx_tables = rw_tables (os_relay x)\<rparr> = (r, s)"
  shows "owner_inv D d (x\<lparr>os_system := with_lease k (tx_lease s) (os_system x), os_relay := (os_relay x)\<lparr>rw_tables := tx_tables s\<rparr>,
      os_claims := (case r of Inr e \<Rightarrow> \<lparr>cl_node = node_inc (sy_nodes (os_system x) ! k), cl_machine = i, cl_revision = g, cl_connection = c, cl_epoch = e\<rparr>
          # os_claims x | Inl _ \<Rightarrow> os_claims x)\<rparr>)"
proof -
  let ?S = "os_system x" and ?w = "os_relay x" and ?T = "with_lease k (tx_lease s) (os_system x)"
  let ?n = "nd_lease (sy_nodes ?S ! k)"
  have ok: "system_ok ?S" "world_ok ?w" "reachable (start_system D d) ?S" using inv reachable_ok by (auto simp: owner_inv_def)
  note cases = claim_owner_cases [OF cl]
  then obtain n1 where n1: "n1 = ?n \<or> n1 = snd (lease_check (te_clock V) ?n)" "tx_lease s = n1 \<or> tx_lease s = lease_fence n1" by blast
  have hon: "honest (sy_time ?S) (nd_boot (sy_nodes ?S ! k)) (te_clock V)" and V: "te_nodes V = sy_db ?S" "te_now V = sy_clock ?S (sy_time ?S)"
    using k(2) by (auto simp: env_now_def)
  have T: "reachable (start_system D d) ?T" using with_lease_reachable [OF ok(3) k(1) hon n1(1)] n1(2) by auto
  then have okT: "system_ok ?T" by (rule reachable_ok)
  have old: "claim_ok ?T (rw_tables ?w) c0" if "c0 \<in> set (os_claims x)" for c0
    using reachable_trans_claim [OF ok(3) k(1) hon ok(1) n1(1)] inv that n1(2) by (auto simp: owner_inv_def)
  have w: "world_ok (?w\<lparr>rw_tables := tx_tables s\<rparr>)"
    using world_ok_grows [OF ok(2)] relay_tx_grows(4) [OF world_ok_tables [OF ok(2)], of fate V i c g ?n r "tx_tables s"] cl by (simp add: tx_run_def)
  from cases consider a where "tx_tables s = (rw_tables ?w)\<lparr>rt_audit := a\<rparr>" "\<not> is_ok r"
    | ow e a where "claimable i g (rw_tables ?w) = Some ow" "\<not> owner_leased (te_now V) (te_nodes V) ow" "e = ow_connection_epoch ow + 1"
        "tx_tables s = (claim_tables (nl_incarnation_id ?n) i c g e (rw_tables ?w))\<lparr>rt_audit := a\<rparr>" "nl_hard_deadline_ns ?n \<noteq> 0" "r = Ok e \<or> \<not> is_ok r"
    by blast
  then have "\<forall>c0 \<in> set (case r of Inr e \<Rightarrow> \<lparr>cl_node = node_inc (sy_nodes ?S ! k), cl_machine = i, cl_revision = g, cl_connection = c, cl_epoch = e\<rparr>
          # os_claims x | Inl _ \<Rightarrow> os_claims x). claim_ok ?T (tx_tables s) c0"
  proof cases
    case 1
    then show ?thesis using old by (cases r) (auto simp: is_ok_def)
  next
    case (2 ow e a)
    have old': "claim_ok ?T (tx_tables s) c0" if "c0 \<in> set (os_claims x)" for c0
      unfolding 2(4) by (rule claim_keeps_others [OF okT old [OF that] 2(1) _ 2(3)]) (use 2(2) V in simp)
    note nl = lease_of_check [OF n1]
    have "claim_ok ?T (tx_tables s) \<lparr>cl_node = nl_incarnation_id ?n, cl_machine = i, cl_revision = g, cl_connection = c, cl_epoch = e\<rparr>"
      unfolding 2(4) by (rule new_claim_ok [OF ok(2) okT _ 2(1,3,5), where k = k and n = "tx_lease s"]) (use k(1) nl in \<open>simp_all add: with_lease_node\<close>)
    with old' 2(6) show ?thesis by (cases r) (auto simp: is_ok_def node_inc_def)
  qed
  moreover have ex: "claims_exclusive ?T (os_claims x)"
    by (rule exclusive_back [of ?S "os_claims x"]) (use inv with_lease_limit [OF n1 k(1)] in \<open>auto simp: owner_inv_def\<close>)
  moreover have none: "\<not> live_claim ?T b" if "is_ok r" and b: "b \<in> set (os_claims x)" "cl_machine b = i" "cl_revision b = g" for b
  proof
    assume lb: "live_claim ?T b"
    from cases that obtain ow where ow: "claimable i g (rw_tables ?w) = Some ow" "\<not> owner_leased (sy_clock ?S (sy_time ?S)) (sy_db ?S) ow"
      using V by (auto simp: is_ok_def)
    have "live_claim ?S b" by (rule with_lease_limit [OF n1 k(1) lb])
    moreover have "claim_ok ?S (rw_tables ?w) b" using inv b(1) by (simp add: owner_inv_def)
    ultimately show False using stale_when_claimed [OF ok(1) ow] b(2,3) by blast
  qed
  moreover have "claims_exclusive ?T (\<lparr>cl_node = node_inc (sy_nodes ?S ! k), cl_machine = i, cl_revision = g, cl_connection = c, cl_epoch = e\<rparr> # os_claims x)"
    if "r = Ok e" for e
    by (rule exclusive_Cons [OF ex]) (use none that in \<open>auto simp: is_ok_def\<close>)
  ultimately show ?thesis using T w by (cases r) (auto simp: owner_inv_def)
qed

lemma owner_inv_release:
  assumes inv: "owner_inv D d x" and k: "k < length (sy_nodes (os_system x))" "env_now (os_system x) (sy_nodes (os_system x) ! k) V"
    and rl: "release_owner fate V i c e \<lparr>tx_lease = nd_lease (sy_nodes (os_system x) ! k), tx_tables = rw_tables (os_relay x)\<rparr> = (r, s)"
  shows "owner_inv D d (x\<lparr>os_system := with_lease k (tx_lease s) (os_system x), os_relay := (os_relay x)\<lparr>rw_tables := tx_tables s\<rparr>,
      os_claims := (if is_ok r then filter (\<lambda>cl. \<not> (cl_node cl = node_inc (sy_nodes (os_system x) ! k) \<and> cl_machine cl = i
          \<and> cl_connection cl = c \<and> cl_epoch cl = e)) (os_claims x) else os_claims x)\<rparr>)"
proof -
  let ?S = "os_system x" and ?w = "os_relay x" and ?T = "with_lease k (tx_lease s) (os_system x)"
  let ?n = "nd_lease (sy_nodes ?S ! k)"
  have ok: "system_ok ?S" "world_ok ?w" "reachable (start_system D d) ?S" using inv reachable_ok by (auto simp: owner_inv_def)
  note cases = release_owner_cases [OF rl]
  then obtain n1 where n1: "n1 = ?n \<or> n1 = snd (lease_check (te_clock V) ?n)" "tx_lease s = n1 \<and> is_ok r \<or> tx_lease s = lease_fence n1 \<and> \<not> is_ok r"
    by blast
  have hon: "honest (sy_time ?S) (nd_boot (sy_nodes ?S ! k)) (te_clock V)" using k(2) by (simp add: env_now_def)
  have T: "reachable (start_system D d) ?T" using with_lease_reachable [OF ok(3) k(1) hon n1(1)] n1(2) by auto
  then have okT: "system_ok ?T" by (rule reachable_ok)
  have old: "claim_ok ?T (rw_tables ?w) c0" if "c0 \<in> set (os_claims x)" for c0
    using reachable_trans_claim [OF ok(3) k(1) hon ok(1) n1(1)] inv that n1(2) by (auto simp: owner_inv_def)
  have w: "world_ok (?w\<lparr>rw_tables := tx_tables s\<rparr>)"
    using world_ok_grows [OF ok(2)] relay_tx_grows(5) [OF world_ok_tables [OF ok(2)], of fate V i c e ?n r "tx_tables s"] rl by (simp add: tx_run_def)
  have inc: "nl_incarnation_id (tx_lease s) = nl_incarnation_id ?n" using lease_of_check [OF n1(1)] n1(2) by blast
  let ?mine = "\<lambda>cl. cl_node cl = node_inc (sy_nodes ?S ! k) \<and> cl_machine cl = i \<and> cl_connection cl = c \<and> cl_epoch cl = e"
  have "claim_ok ?T (tx_tables s) c0" if c0: "c0 \<in> set (os_claims x)" "is_ok r \<longrightarrow> \<not> ?mine c0" for c0
  proof (cases "?mine c0")
    case True
    with c0(2) n1(2) have "nl_fenced (tx_lease s)" by (auto simp: lease_fence_def)
    then show ?thesis
      using claim_ok_fenced [OF old [OF c0(1)] _ _ _ okT, of k "tx_tables s"] k(1) True inc by (simp add: with_lease_node node_inc_def)
  next
    case False
    with cases release_keeps_others [OF old [OF c0(1)], of "nl_incarnation_id ?n" i c e] show ?thesis
      using old [OF c0(1)] by (auto simp: node_inc_def)
  qed
  moreover have "claims_exclusive ?T cls" if "set cls \<subseteq> set (os_claims x)" for cls
    by (rule exclusive_back [of ?S "os_claims x"]) (use inv that with_lease_limit [OF n1(1) _ k(1)] n1(2) in \<open>auto simp: owner_inv_def\<close>)
  ultimately show ?thesis using T w by (auto simp: owner_inv_def)
qed

lemma owner_step_inv:
  assumes "owner_step sha256 is_host lower minted x y" "owner_inv D d x"
  shows "owner_inv D d y"
  using assms(1)
proof cases
  case (os_node S)
  have "system_ok (os_system x)" "reachable (start_system D d) S"
    using assms(2) os_node(2) reachable_ok by (auto simp: owner_inv_def intro: reach_step)
  moreover from this(2) have "system_ok S" by (rule reachable_ok)
  moreover have "claims_exclusive S (os_claims x)"
    by (rule exclusive_back [of "os_system x" "os_claims x"])
      (use assms(2) calculation live_claim_back [OF os_node(2)] in \<open>auto simp: owner_inv_def\<close>)
  ultimately show ?thesis using assms(2) claim_ok_sys [OF os_node(2)] unfolding os_node(1) by (simp add: owner_inv_def)
next
  case (os_table w)
  have "world_ok w" using table_step_ok [OF os_table(2)] assms(2) by (simp add: owner_inv_def)
  with assms(2) claim_ok_keep held_keep [OF table_step_keep [OF os_table(2)]] show ?thesis
    unfolding os_table(1) by (auto simp: owner_inv_def)
next
  case (os_claim k nd V fate i c g r s)
  from owner_inv_claim [OF assms(2) os_claim(2) os_claim(4,5) [unfolded os_claim(3)]] show ?thesis
    unfolding os_claim(1) os_claim(3) node_inc_def .
next
  case (os_release k nd V fate i c e r s)
  from owner_inv_release [OF assms(2) os_release(2) os_release(4,5) [unfolded os_release(3)]] show ?thesis
    unfolding os_release(1) os_release(3) node_inc_def .
qed

lemma owner_reach_inv:
  assumes "owner_reach sha256 is_host lower minted (start_world D d cs c) x"
  shows "owner_inv D d x"
  using assms
proof (induction rule: rtranclp_induct)
  case base
  show ?case by (simp add: owner_inv_def start_world_def empty_world_ok reach_init claims_exclusive_def)
qed (rule owner_step_inv)

section \<open>Properties\<close>

text \<open>C3. Across the whole cluster a machine has at most one acting owner: whatever registrations, renewals,
  expiries, drains, administrative transactions, claims and releases were interleaved, and however their
  commits ended, two nodes that are both authorised and hold claims on the same machine at the same route
  revision are the same node with the same connection, and the owner row of the database names it. The
  clock of the database may be adjusted as long as it gains no more than a node's safety margin within a
  lease; boot clocks count real time from any origin.\<close>

theorem machine_owner_exclusive:
  assumes "owner_reach sha256 is_host lower minted (start_world D d cs c) x"
    and "a \<in> set (os_claims x)" "b \<in> set (os_claims x)" "cl_machine a = cl_machine b" "cl_revision a = cl_revision b"
    and "authorised (os_system x) j" "cl_node a = nl_incarnation_id (nd_lease (sy_nodes (os_system x) ! j))"
    and "authorised (os_system x) k" "cl_node b = nl_incarnation_id (nd_lease (sy_nodes (os_system x) ! k))"
  shows "a = b \<and> (\<exists>r. owners_at (cl_machine a) (rw_tables (os_relay x)) = [r] \<and> (cl_revision a < ow_route_revision r
    \<or> cl_revision a = ow_route_revision r \<and> ow_owner r = Some (cl_node a) \<and> ow_connection r = Some (cl_connection a)
      \<and> ow_connection_epoch r = cl_epoch a))"
proof -
  have inv: "owner_inv D d x" by (rule owner_reach_inv [OF assms(1)])
  then have ok: "system_ok (os_system x)" using reachable_ok by (auto simp: owner_inv_def)
  have live: "live_claim (os_system x) cl" if "authorised (os_system x) l" "cl_node cl = nl_incarnation_id (nd_lease (sy_nodes (os_system x) ! l))" for cl l
    using authorised_limit [OF ok that(1)] that by (auto simp: live_claim_def node_inc_def authorised_def)
  have "a = b" using inv assms(2-5) live [OF assms(6,7)] live [OF assms(8,9)] by (auto simp: owner_inv_def claims_exclusive_def)
  moreover have "held a (rw_tables (os_relay x))"
    by (rule live_claim_held [OF ok _ live [OF assms(6,7)]]) (use inv assms(2) in \<open>simp add: owner_inv_def\<close>)
  ultimately show ?thesis by (simp add: held_def)
qed

definition sample_claim :: claim_entry where
  "sample_claim = \<lparr>cl_node = 7, cl_machine = 11, cl_revision = 1, cl_connection = 41, cl_epoch = 1\<rparr>"

lemma sample_claim_run:
  "claim_owner DB_Commit (sample_env 14) 11 41 1 \<lparr>tx_lease = sample_node, tx_tables = sample_bound\<rparr> = (Ok 1, \<lparr>tx_lease = sample_node, tx_tables = sample_claimed\<rparr>)"
  by (simp add: claim_owner_def claim_body_def claimable_def owner_leased_def bound_def machine_of_def owner_of_def sample_defs sample_tables Let_def)

lemma owner_reach_nodes:
  assumes "reachable S0 S"
  shows "owner_reach sha256 is_host lower minted (x\<lparr>os_system := S0\<rparr>) (x\<lparr>os_system := S\<rparr>)"
  using assms
proof (induction rule: reachable.induct)
  case (reach_step S T)
  have "owner_step sha256 is_host lower minted (x\<lparr>os_system := S\<rparr>) (x\<lparr>os_system := S, os_system := T\<rparr>)" by (rule os_node) (simp add: reach_step.hyps)
  with reach_step.IH show ?case by (simp add: rtranclp.rtrancl_into_rtrancl)
qed simp

lemma owner_reach_tables:
  assumes "(table_step sha256 is_host lower minted)\<^sup>*\<^sup>* w w'"
  shows "owner_reach sha256 is_host lower minted (x\<lparr>os_relay := w\<rparr>) (x\<lparr>os_relay := w'\<rparr>)"
  using assms
proof (induction rule: rtranclp_induct)
  case (step y z)
  have "owner_step sha256 is_host lower minted (x\<lparr>os_relay := y\<rparr>) (x\<lparr>os_relay := y, os_relay := z\<rparr>)" by (rule os_table) (simp add: step.hyps)
  with step.IH show ?case by (simp add: rtranclp.rtrancl_into_rtrancl)
qed simp

lemma sample_owner_reach:
  "owner_reach sample_sha (\<lambda>_. True) id (\<lambda>_ _ _. True) (start_world id sample_deployment [sample_credential] 5)
     \<lparr>os_system = sample_system, os_relay = sample_world sample_claimed, os_claims = [sample_claim]\<rparr>"
proof -
  let ?x = "\<lparr>os_system = sample_system, os_relay = sample_world sample_bound, os_claims = []\<rparr>"
  have "owner_reach sample_sha (\<lambda>_. True) id (\<lambda>_ _ _. True) (start_world id sample_deployment [sample_credential] 5) ?x"
    using owner_reach_nodes [OF sample_reachable(1), of sample_sha "\<lambda>_. True" id "\<lambda>_ _ _. True" "start_world id sample_deployment [sample_credential] 5"]
      owner_reach_tables [OF sample_table_reach, of "\<lparr>os_system = sample_system, os_relay = empty_world [sample_credential] 5, os_claims = []\<rparr>"]
    by (simp add: start_world_def)
  moreover have "owner_step sample_sha (\<lambda>_. True) id (\<lambda>_ _ _. True) ?x (?x\<lparr>os_system := with_lease 0 sample_node sample_system,
      os_relay := (sample_world sample_bound)\<lparr>rw_tables := sample_claimed\<rparr>, os_claims := [sample_claim]\<rparr>)"
    using os_claim [of 0 ?x _ "sample_env 14", OF _ refl _ , of DB_Commit 11 41 1 "Ok 1" "\<lparr>tx_lease = sample_node, tx_tables = sample_claimed\<rparr>"
      sample_sha "\<lambda>_. True" id "\<lambda>_ _ _. True"] sample_claim_run
    by (simp add: env_now_def sample_env_def honest_def sample_system_def sample_node_def sample_world_def sample_claim_def sample_lease_def)
  moreover have "with_lease 0 sample_node sample_system = sample_system" by (simp add: with_lease_def sample_node_def sample_system_def)
  ultimately show ?thesis by (simp add: sample_world_def)
qed

theorem machine_owner_exclusive_witness:
  "\<exists>r. owners_at 11 sample_claimed = [r] \<and> ow_route_revision r \<ge> 1"
proof -
  let ?x = "\<lparr>os_system = sample_system, os_relay = sample_world sample_claimed, os_claims = [sample_claim]\<rparr>"
  have "authorised (os_system ?x) 0" using sample_reachable(2) by simp
  moreover have "cl_node sample_claim = nl_incarnation_id (nd_lease (sy_nodes (os_system ?x) ! 0))"
    by (simp add: sample_claim_def sample_system_def sample_lease_def)
  ultimately have "\<exists>r. owners_at (cl_machine sample_claim) (rw_tables (os_relay ?x)) = [r] \<and> (cl_revision sample_claim < ow_route_revision r
    \<or> cl_revision sample_claim = ow_route_revision r)"
    using machine_owner_exclusive [OF sample_owner_reach, of sample_claim sample_claim 0 0] by auto
  then show ?thesis by (auto simp: sample_claim_def sample_world_def)
qed

end
