(* ===== verification/Custody.thy ===== *)
theory Custody
  imports Machine_System
begin

text \<open>
  The start-up of a deployment (\<open>storage.rs\<close>: \<open>initialize_or_validate\<close>, \<open>validate_credential_custody\<close>) and
  what the operations on credentials keep for it: the default credential and the credential of every
  machine are active, and every envelope opens under the encryption key of the deployment. A deployment
  that was initialised once therefore starts again after any history of transactions.
\<close>

section \<open>Start-up\<close>

datatype storage_error = ST_Unavailable | ST_Migration | ST_Invariant | ST_ConfigurationMismatch
  | ST_ConfigurationTransitionBlocked | ST_Custody | ST_Conflict | ST_Ambiguous | ST_NotFound

text \<open>What start-up uses of the configuration, and its inputs: the database clock and the random values of
  a new deployment.\<close>

record store_config =
  sg_epoch :: int
  sg_build_id :: bytes
  sg_profile :: bytes
  sg_proof :: "uuid \<Rightarrow> bytes option"
  sg_encryption_key :: bytes

record bootstrap_env =
  be_now :: nat
  be_deployment_id :: uuid
  be_credential_id :: uuid
  be_nonce :: bytes
  be_keypair :: "ssh_keypair option"

record store =
  st_nodes :: lease_db
  st_tables :: relay_tables

definition references_active :: "relay_tables \<Rightarrow> bool" where
  "references_active t \<longleftrightarrow>
     \<not> list_ex (\<lambda>c. cr_id c = rt_default_credential t \<and> cr_status c \<noteq> CR_Active) (rt_credentials t)
     \<and> \<not> list_ex (\<lambda>m. list_ex (\<lambda>c. cr_id c = mc_credential_id m \<and> cr_status c \<noteq> CR_Active) (rt_credentials t)) (rt_machines t)"

definition validate_credential_custody :: "aead \<Rightarrow> bytes \<Rightarrow> uuid \<Rightarrow> relay_tables \<Rightarrow> storage_error + unit" where
  "validate_credential_custody X key deployment_id t =
     (if \<not> references_active t then Err ST_Invariant
      else (let rows = take 257 (sort_key cr_id (filter (\<lambda>c. cr_status c = CR_Active) (rt_credentials t))) in
        if rows = [] \<or> length rows > 256 then Err ST_Invariant
        else r_bind (r_map (\<lambda>c. map_err (\<lambda>_. ST_Custody) (open_envelope X key deployment_id (cr_id c) (cr_envelope c))) rows)
          (\<lambda>_. Ok ())))"

definition validate_store :: "aead \<Rightarrow> store_config \<Rightarrow> bootstrap_env \<Rightarrow> deployment_row \<Rightarrow> store \<Rightarrow> storage_error + uuid \<times> store" where
  "validate_store X C E d st =
     (let deployment_id = dp_id d; expected_proof = sg_proof C deployment_id in
      r_bind (validate_credential_custody X (sg_encryption_key C) deployment_id (st_tables st)) (\<lambda>_.
      if dp_config_epoch d = sg_epoch C then
        (if dp_server_build_id d \<noteq> sg_build_id C \<or> dp_profile d \<noteq> sg_profile C \<or> dp_config_proof d \<noteq> expected_proof
         then Err ST_ConfigurationMismatch else Ok (deployment_id, st))
      else if sg_epoch C = dp_config_epoch d + 1 then
        (if list_ex (\<lambda>r. be_now E < nr_lease_until r) (ld_nodes (st_nodes st)) then Err ST_ConfigurationTransitionBlocked
         else Ok (deployment_id, st\<lparr>
           st_nodes := (st_nodes st)\<lparr>ld_deployment := Some (d\<lparr>dp_config_epoch := sg_epoch C, dp_server_build_id := sg_build_id C,
             dp_profile := sg_profile C, dp_config_proof := expected_proof\<rparr>)\<rparr>,
           st_tables := (st_tables st)\<lparr>rt_audit := rt_audit (st_tables st)
             @ [audit ''deployment'' None None ''configuration_transition'' ''success'']\<rparr>\<rparr>))
      else Err ST_ConfigurationMismatch))"

definition initialize_store :: "(bytes \<Rightarrow> bytes) \<Rightarrow> aead \<Rightarrow> store_config \<Rightarrow> bootstrap_env \<Rightarrow> store \<Rightarrow> storage_error + uuid \<times> store" where
  "initialize_store lower X C E st =
     (let deployment_id = be_deployment_id E; credential_id = be_credential_id E; t = st_tables st in
      r_bind (map_err (\<lambda>_. ST_Custody)
        (generate_credential X (sg_encryption_key C) (be_nonce E) (be_keypair E) deployment_id credential_id)) (\<lambda>g.
      if \<not> credential_fits lower credential_id ''Default'' g t then Err ST_Conflict
      else Ok (deployment_id, st\<lparr>
        st_nodes := (st_nodes st)\<lparr>ld_deployment := Some \<lparr>dp_id = deployment_id, dp_config_epoch = sg_epoch C,
          dp_server_build_id = sg_build_id C, dp_relay_protocol_version = 1, dp_profile = sg_profile C,
          dp_config_proof = sg_proof C deployment_id\<rparr>\<rparr>,
        st_tables := t\<lparr>rt_credentials := rt_credentials t @ [\<lparr>cr_id = credential_id, cr_name = ''Default'',
            cr_public_key = gc_public_key g, cr_fingerprint = gc_public_fingerprint g, cr_envelope = gc_envelope g,
            cr_status = CR_Active\<rparr>],
          rt_default_credential := credential_id,
          rt_audit := rt_audit t @ [audit ''deployment'' None None ''initialize'' ''success'',
            audit ''ssh_credential'' None (Some credential_id) ''create_default'' ''success'']\<rparr>\<rparr>)))"

definition initialize_or_validate ::
  "(bytes \<Rightarrow> bytes) \<Rightarrow> aead \<Rightarrow> store_config \<Rightarrow> db_fate \<Rightarrow> bootstrap_env \<Rightarrow> store \<Rightarrow> (storage_error + uuid) \<times> store" where
  "initialize_or_validate lower X C fate E st =
     (if fate = DB_Refused then (Err ST_Unavailable, st)
      else (case (case ld_deployment (st_nodes st) of
          Some d \<Rightarrow> validate_store X C E d st
        | None \<Rightarrow> initialize_store lower X C E st) of
        Inl e \<Rightarrow> (Err e, st)
      | Inr (deployment_id, st') \<Rightarrow> (case fate of
            DB_Commit \<Rightarrow> (Ok deployment_id, st')
          | DB_AckLost \<Rightarrow> (Err ST_Ambiguous, st')
          | _ \<Rightarrow> (Err ST_Ambiguous, st))))"

section \<open>Envelopes and secrets\<close>

lemma seal_open:
  assumes "aead_ok X" "length key = 32"
  shows "open_envelope X key d c envelope = Ok m \<longleftrightarrow> (\<exists>nonce. length nonce = 24 \<and> seal X key nonce d c m = Ok envelope)"
proof
  assume "open_envelope X key d c envelope = Ok m"
  then have e: "envelope = CHR 0x01 # take 24 (drop 1 envelope) @ drop 25 envelope" "length envelope > 25"
      "cx_decrypt X key (take 24 (drop 1 envelope)) (associated_data d c) (drop 25 envelope) = Some m"
    by (cases envelope; auto simp: open_envelope_def split: if_splits option.splits)+
  have n: "length (take 24 (drop 1 envelope)) = 24" using e(2) by simp
  with e(3) assms have "cx_encrypt X key (take 24 (drop 1 envelope)) (associated_data d c) m = Some (drop 25 envelope)"
    unfolding aead_ok_def by blast
  with e(1) n show "\<exists>nonce. length nonce = 24 \<and> seal X key nonce d c m = Ok envelope"
    by (metis (mono_tags, lifting) option.simps(5) seal_def)
next
  assume "\<exists>nonce. length nonce = 24 \<and> seal X key nonce d c m = Ok envelope"
  then obtain nonce cipher where n: "length nonce = 24" "envelope = CHR 0x01 # nonce @ cipher"
      "cx_encrypt X key nonce (associated_data d c) m = Some cipher"
    by (auto simp: seal_def split: option.splits)
  with assms have "cx_decrypt X key nonce (associated_data d c) cipher = Some m" "cipher \<noteq> []"
    unfolding aead_ok_def by blast+
  with n show "open_envelope X key d c envelope = Ok m" by (simp add: open_envelope_def)
qed

lemma generated_opens:
  assumes "aead_ok X" "length key = 32" "length nonce = 24" "generate_credential X key nonce kp d c = Ok g"
  shows "is_ok (open_envelope X key d c (gc_envelope g))"
proof -
  from assms(4) obtain k where "kp = Some k" "seal X key nonce d c (kp_private_openssh k) = Ok (gc_envelope g)"
    by (auto simp: generate_credential_def res_simps)
  with seal_open [OF assms(1,2)] assms(3) have "open_envelope X key d c (gc_envelope g) = Ok (kp_private_openssh k)" by blast
  then show ?thesis by simp
qed

lemma filter_unique_key:
  assumes "distinct (map f xs)" "x \<in> set xs" "f x = i"
  shows "filter (\<lambda>y. f y = i) xs = [x]"
  using assms by (induction xs) (auto simp: filter_empty_conv image_iff)

section \<open>What the transactions keep\<close>

definition machine_credentials :: "relay_tables \<Rightarrow> uuid set" where
  "machine_credentials t = mc_credential_id ` set (rt_machines t)"

definition custody_ok :: "aead \<Rightarrow> bytes \<Rightarrow> uuid \<Rightarrow> relay_tables \<Rightarrow> bool" where
  "custody_ok X key d t \<longleftrightarrow> distinct (map cr_id (rt_credentials t)) \<and> length (rt_credentials t) \<le> 256
     \<and> credential_active (rt_default_credential t) t \<and> (\<forall>i \<in> machine_credentials t. credential_active i t)
     \<and> (\<forall>c \<in> set (rt_credentials t). is_ok (open_envelope X key d (cr_id c) (cr_envelope c)))"

definition credential_frame :: "relay_tables \<Rightarrow> relay_tables \<Rightarrow> bool" where
  "credential_frame t t' \<longleftrightarrow> rt_credentials t' = rt_credentials t \<and> rt_default_credential t' = rt_default_credential t
     \<and> machine_credentials t' \<subseteq> machine_credentials t"

interpretation cf: tx_relation credential_frame
  by unfold_locales (simp add: credential_frame_def)

interpretation cu: tx_relation "\<lambda>t t'. custody_ok X key d t \<longrightarrow> custody_ok X key d t'" for X key d
  by unfold_locales simp

lemma custody_frame: "credential_frame t t' \<Longrightarrow> custody_ok X key d t \<Longrightarrow> custody_ok X key d t'"
  by (auto simp: credential_frame_def custody_ok_def credential_active_def)

lemma frame_tables:
  "rt_credentials t' = rt_credentials t \<Longrightarrow> rt_default_credential t' = rt_default_credential t \<Longrightarrow>
     rt_machines t' = rt_machines t \<Longrightarrow> credential_frame t t'"
  "rt_credentials t' = rt_credentials t \<Longrightarrow> rt_default_credential t' = rt_default_credential t \<Longrightarrow>
     rt_machines t' = update_where p f (rt_machines t) \<Longrightarrow> (\<And>m. mc_credential_id (f m) = mc_credential_id m) \<Longrightarrow> credential_frame t t'"
  by (auto simp: credential_frame_def machine_credentials_def update_where_def image_image)

lemma frame_trans: "credential_frame t u \<Longrightarrow> credential_frame u v \<Longrightarrow> credential_frame t v"
  by (auto simp: credential_frame_def)

lemma frame_audit [simp]: "credential_frame t (t'\<lparr>rt_audit := a\<rparr>) = credential_frame t t'"
  by (simp add: credential_frame_def machine_credentials_def)

lemma fail_one_frame: "credential_frame t (fail_one a i g u t)"
  by (cases "count_where (\<lambda>x. at_id x = a \<and> at_status x = AT_Verifying) (rt_attempts t) = 1 \<and> u")
    (auto simp: fail_one_def Let_def intro: frame_tables(1) frame_tables(2))

lemma recover_frame: "credential_frame t (fold recover_one rows t)"
proof (induction rows arbitrary: t)
  case (Cons a rows)
  from recover_one_audit obtain x where u: "recover_one a t = (fail_one (at_id a) (at_machine_id a) (at_route_revision a)
      (\<not> bound (at_machine_id a) (at_route_revision a) t) t)\<lparr>rt_audit := x\<rparr>" by blast
  have "credential_frame t (recover_one a t)"
    unfolding u by (simp add: fail_one_frame)
  with Cons show ?case by (auto intro: frame_trans)
qed (simp add: cf.same)

lemma relay_tx_frame:
  "tx_run (accept_token fate sha256 V token) n t = (ra, t') \<Longrightarrow> credential_frame t t'"
  "tx_run (activate fate is_host V ac relay_id key host) n t = (r, t') \<Longrightarrow> credential_frame t t'"
  "tx_run (fail_attempt fate V ac) n t = (r, t') \<Longrightarrow> credential_frame t t'"
  "tx_run (recover_expired_attempts fate V scope) n t = (r, t') \<Longrightarrow> credential_frame t t'"
  "tx_run (claim_owner fate V i c g) n t = (x, t') \<Longrightarrow> credential_frame t t'"
  "tx_run (release_owner fate V i c e) n t = (r, t') \<Longrightarrow> credential_frame t t'"
proof -
  have acc: "credential_frame t (tx_tables s)" if "accept_body V (token_digest sha256 token) \<lparr>tx_lease = n, tx_tables = t\<rparr> = (Ok a, s)" for a s
    using that by (rule accept_effect) (auto simp: accept_tables_def intro: frame_tables(2))
  show "tx_run (accept_token fate sha256 V token) n t = (ra, t') \<Longrightarrow> credential_frame t t'"
    using acc by (auto simp: accept_token_def tx_run_def sr_leaf intro: cf.same split: if_splits)
      (auto intro!: cf.run [OF _ acc] simp: tx_run_def)
  show "tx_run (activate fate is_host V ac relay_id key host) n t = (r, t') \<Longrightarrow> credential_frame t t'"
    unfolding activate_def by (erule cf.run) (auto simp: activate_tables_def dest!: activate_effect intro: frame_tables(2))
  show "tx_run (fail_attempt fate V ac) n t = (r, t') \<Longrightarrow> credential_frame t t'"
    unfolding fail_attempt_def by (erule cf.run) (auto simp: res_simps fail_one_frame dest!: guards_Ok)
  show "tx_run (recover_expired_attempts fate V scope) n t = (r, t') \<Longrightarrow> credential_frame t t'"
    unfolding recover_expired_attempts_def by (erule cf.run) (auto simp: recover_body_def res_simps recover_frame dest!: guards_Ok)
  have claim: "credential_frame t (tx_tables s)" if "claim_body V i c g \<lparr>tx_lease = n, tx_tables = t\<rparr> = (Ok e, s)" for e s
    using that by (rule claim_effect) (auto simp: claim_tables_def intro: frame_tables(2))
  show "tx_run (claim_owner fate V i c g) n t = (x, t') \<Longrightarrow> credential_frame t t'"
    by (erule claim_owner_run) (auto dest: cf.run [OF _ claim])
  show "tx_run (release_owner fate V i c e) n t = (r, t') \<Longrightarrow> credential_frame t t'"
    by (drule release_owner_run, erule exE, erule cf.run) (auto simp: release_tables_def dest!: release_effect intro: frame_tables(1))
qed

lemma api_tx_frame:
  "tx_run (rename_machine fate lower V i alias) n t = (z, t') \<Longrightarrow> credential_frame t t'"
  "tx_run (re_enroll_disabled_machine fate V i) n t = (z, t') \<Longrightarrow> credential_frame t t'"
  "tx_run (issue_transaction fate V token i digest) n t = (z, t') \<Longrightarrow> credential_frame t t'"
  "tx_run (cancel_enrollment_token fate V i) n t = (z, t') \<Longrightarrow> credential_frame t t'"
  "tx_run (commit_active_machine_transition fate V i lc action expected) n t = (z, t') \<Longrightarrow> credential_frame t t'"
proof -
  show "tx_run (rename_machine fate lower V i alias) n t = (z, t') \<Longrightarrow> credential_frame t t'"
    unfolding rename_machine_def by (erule cf.validated, erule cf.run) (auto simp: res_simps dest!: guards_Ok intro: frame_tables(2))
  show "tx_run (re_enroll_disabled_machine fate V i) n t = (z, t') \<Longrightarrow> credential_frame t t'"
    unfolding re_enroll_disabled_machine_def by (erule cf.run) (auto simp: res_simps Let_def dest!: guards_Ok intro: frame_tables(2))
  show "tx_run (cancel_enrollment_token fate V i) n t = (z, t') \<Longrightarrow> credential_frame t t'"
    unfolding cancel_enrollment_token_def by (erule cf.run) (auto simp: res_simps cancel_issued_def dest!: guards_Ok intro: frame_tables(1))
  show "tx_run (issue_transaction fate V token i digest) n t = (z, t') \<Longrightarrow> credential_frame t t'"
    unfolding issue_transaction_def
    by (erule cf.run) (auto simp: res_simps cancel_issued_def enroll_tables_def dest!: guards_Ok insert_enrollment_effect intro: frame_tables(1))
  have "credential_frame t (tx_tables s)" if "transition_body V i lc action expected \<lparr>tx_lease = n, tx_tables = t\<rparr> = (Ok x, s)" for x s
    using that by (rule transition_effect) (auto simp: retire_tables_def intro: frame_tables(2))
  then show "tx_run (commit_active_machine_transition fate V i lc action expected) n t = (z, t') \<Longrightarrow> credential_frame t t'"
    unfolding commit_active_machine_transition_def by (auto elim!: cf.run)
qed

text \<open>Creating and rebinding a machine point it to an active credential.\<close>

lemma custody_audit [simp]: "custody_ok X key d (t\<lparr>rt_audit := a\<rparr>) = custody_ok X key d t"
  by (simp add: custody_ok_def machine_credentials_def credential_active_def)

lemma custody_machines:
  assumes "custody_ok X key d t" "rt_credentials t' = rt_credentials t" "rt_default_credential t' = rt_default_credential t"
    "machine_credentials t' \<subseteq> insert i (machine_credentials t)" "credential_active i t"
  shows "custody_ok X key d t'"
  using assms by (auto simp: custody_ok_def credential_active_def)

lemma custody_rebind:
  assumes "custody_ok X key d t" "credential_active c t"
  shows "custody_ok X key d (t\<lparr>rt_machines := update_where p (\<lambda>r. r\<lparr>mc_credential_id := c, mc_credential_revision := v\<rparr>) (rt_machines t)\<rparr>)"
  using assms(1) by (rule custody_machines [where i = c]) (use assms(2) in \<open>auto simp: machine_credentials_def update_where_def\<close>)

lemma machine_tx_custody:
  assumes "custody_ok X key d t"
  shows "tx_run (create_machine fate lower V token digest input) n t = (y, t') \<Longrightarrow> custody_ok X key d t'"
    "tx_run (rebind_machine_credential fate V i credential) n t = (z, t') \<Longrightarrow> custody_ok X key d t'"
proof -
  have create: "custody_ok X key d (tx_tables s)" if "create_body lower V token digest input \<lparr>tx_lease = n, tx_tables = t\<rparr> = (Ok a, s)" for a s
    using that assms unfolding create_body_def
    by (auto simp: res_simps Let_def enroll_tables_def machine_credentials_def dest!: guards_Ok insert_enrollment_effect
        elim!: custody_machines)
  show "tx_run (create_machine fate lower V token digest input) n t = (y, t') \<Longrightarrow> custody_ok X key d t'"
    unfolding create_machine_def
    by (rule cu.validated [THEN mp, OF _ _ assms], assumption) (rule impI, erule cu.run [THEN mp, OF _ _ assms], simp add: create)
  show "tx_run (rebind_machine_credential fate V i credential) n t = (z, t') \<Longrightarrow> custody_ok X key d t'"
    unfolding rebind_machine_credential_def
    by (elim cu.run [THEN mp, OF _ _ assms]) (auto simp: res_simps Let_def custody_rebind split: option.splits dest!: guards_Ok)
qed

text \<open>A new credential is active and its envelope opens; retiring one leaves every reference active.\<close>

definition minted_by :: "aead \<Rightarrow> bytes \<Rightarrow> uuid \<Rightarrow> mint" where
  "minted_by X key d deployment_id credential_id g \<longleftrightarrow> deployment_id = d
     \<and> (\<exists>nonce kp. length nonce = 24 \<and> g = generate_credential X key nonce kp d credential_id)"

lemma custody_insert:
  assumes "custody_ok X key d t" "length (rt_credentials t) < 256" "credential_fits lower i name g t"
    "is_ok (open_envelope X key d i (gc_envelope g))" "c = rt_default_credential t \<or> c = i"
  shows "custody_ok X key d (t\<lparr>rt_credentials := rt_credentials t @ [\<lparr>cr_id = i, cr_name = name, cr_public_key = gc_public_key g,
       cr_fingerprint = gc_public_fingerprint g, cr_envelope = gc_envelope g, cr_status = CR_Active\<rparr>], rt_default_credential := c\<rparr>)"
  using assms by (auto simp: custody_ok_def credential_active_def machine_credentials_def credential_fits_def list_ex_iff)

lemma custody_insert_keep:
  assumes "custody_ok X key d t" "length (rt_credentials t) < 256" "credential_fits lower i name g t" "is_ok (open_envelope X key d i (gc_envelope g))"
  shows "custody_ok X key d (t\<lparr>rt_credentials := rt_credentials t @ [\<lparr>cr_id = i, cr_name = name, cr_public_key = gc_public_key g,
       cr_fingerprint = gc_public_fingerprint g, cr_envelope = gc_envelope g, cr_status = CR_Active\<rparr>]\<rparr>)"
  using custody_insert [OF assms, of "rt_default_credential t"] by simp

lemma custody_default: "custody_ok X key d t \<Longrightarrow> credential_active c t \<Longrightarrow> custody_ok X key d (t\<lparr>rt_default_credential := c\<rparr>)"
  by (simp add: custody_ok_def credential_active_def machine_credentials_def)

lemma custody_update:
  assumes "custody_ok X key d t" "\<And>c. cr_id (f c) = cr_id c \<and> cr_envelope (f c) = cr_envelope c"
    "\<And>c. p c \<Longrightarrow> cr_id c \<noteq> rt_default_credential t \<and> cr_id c \<notin> machine_credentials t \<or> cr_status (f c) = cr_status c"
  shows "custody_ok X key d (t\<lparr>rt_credentials := update_where p f (rt_credentials t)\<rparr>)"
proof -
  let ?t = "t\<lparr>rt_credentials := update_where p f (rt_credentials t)\<rparr>"
  have "map cr_id (update_where p f (rt_credentials t)) = map cr_id (rt_credentials t)"
    using assms(2) by (simp add: map_update_where)
  moreover have "credential_active i ?t" if "credential_active i t" "i = rt_default_credential t \<or> i \<in> machine_credentials t" for i
  proof -
    from that(1) obtain c where "c \<in> set (rt_credentials t)" "cr_id c = i" "cr_status c = CR_Active"
      by (auto simp: credential_active_def list_ex_iff)
    moreover from this assms(2) [of c] assms(3) [of c] that(2) have "cr_id (if p c then f c else c) = i \<and> cr_status (if p c then f c else c) = CR_Active"
      by auto
    moreover have "(if p c then f c else c) \<in> set (update_where p f (rt_credentials t))"
      using calculation(1) unfolding update_where_def set_map by (rule imageI)
    ultimately show ?thesis by (auto simp: credential_active_def list_ex_iff simp del: if_split_asm)
  qed
  moreover have "length (update_where p f (rt_credentials t)) = length (rt_credentials t)" by (simp add: update_where_def)
  moreover have "\<forall>c \<in> set (update_where p f (rt_credentials t)). is_ok (open_envelope X key d (cr_id c) (cr_envelope c))"
    using assms(1,2) by (auto simp: update_where_def custody_ok_def)
  ultimately show ?thesis using assms(1) by (auto simp: custody_ok_def machine_credentials_def)
qed

lemma credential_tx_custody:
  assumes lib: "aead_ok X" "length key = 32"
  shows "minted_by X key d (te_deployment_id V) (te_fresh V) g \<Longrightarrow>
      tx_run (create_credential fate lower V g name) n t = (c, t') \<Longrightarrow> custody_ok X key d t \<longrightarrow> custody_ok X key d t'"
    "minted_by X key d (te_deployment_id V) (te_fresh V) g \<Longrightarrow>
      tx_run (reset_default_credential fate lower V g name) n t = (c, t') \<Longrightarrow> custody_ok X key d t \<longrightarrow> custody_ok X key d t'"
    "tx_run (rename_credential fate lower V i name later) n t = (c, t') \<Longrightarrow> custody_ok X key d t \<longrightarrow> custody_ok X key d t'"
    "tx_run (set_default_credential fate V i) n t = (z, t') \<Longrightarrow> custody_ok X key d t \<longrightarrow> custody_ok X key d t'"
    "tx_run (retire_credential fate V i) n t = (z, t') \<Longrightarrow> custody_ok X key d t \<longrightarrow> custody_ok X key d t'"
proof -
  have opens: "is_ok (open_envelope X key d (te_fresh V) (gc_envelope x))"
    if "minted_by X key d (te_deployment_id V) (te_fresh V) g" "g = Ok x" for x
    using that generated_opens [OF lib] unfolding minted_by_def by metis
  show "custody_ok X key d t \<longrightarrow> custody_ok X key d t'"
    if g: "minted_by X key d (te_deployment_id V) (te_fresh V) g" and run: "tx_run (create_credential fate lower V g name) n t = (c, t')"
    using run unfolding create_credential_def
    by (elim cu.validated cu.run)
      (auto simp: res_simps credential_op_simps opens [OF g] dest!: guards_Ok intro!: custody_insert_keep)
  show "custody_ok X key d t \<longrightarrow> custody_ok X key d t'"
    if g: "minted_by X key d (te_deployment_id V) (te_fresh V) g" and run: "tx_run (reset_default_credential fate lower V g name) n t = (c, t')"
    using run unfolding reset_default_credential_def
    by (elim cu.validated cu.run)
      (auto simp: res_simps credential_op_simps opens [OF g] dest!: guards_Ok intro!: custody_insert)
  show "tx_run (rename_credential fate lower V i name later) n t = (c, t') \<Longrightarrow> custody_ok X key d t \<longrightarrow> custody_ok X key d t'"
    unfolding rename_credential_def
    by (elim cu.validated cu.answered cu.run) (auto simp: res_simps dest!: guards_Ok intro!: custody_update)
  show "tx_run (set_default_credential fate V i) n t = (z, t') \<Longrightarrow> custody_ok X key d t \<longrightarrow> custody_ok X key d t'"
    unfolding set_default_credential_def by (erule cu.run) (auto simp: res_simps custody_default dest!: guards_Ok)
  show "tx_run (retire_credential fate V i) n t = (z, t') \<Longrightarrow> custody_ok X key d t \<longrightarrow> custody_ok X key d t'"
    unfolding retire_credential_def
    by (erule cu.run) (auto simp: res_simps Let_def machine_credentials_def list_ex_iff dest!: guards_Ok intro!: custody_update, blast)
qed

lemma relay_step_custody:
  assumes "relay_step sha256 is_host lower (minted_by X key d) w w'" "aead_ok X" "length key = 32" "custody_ok X key d (rw_tables w)"
  shows "custody_ok X key d (rw_tables w')"
  using assms(1)
proof cases
  case rs_table
  note frames = relay_tx_frame(1-4) [THEN custody_frame] api_tx_frame [THEN custody_frame]
  from rs_table show ?thesis
    by cases (use assms(4) frames machine_tx_custody [OF assms(4)] credential_tx_custody [OF assms(2,3)] in auto)
qed (use relay_tx_frame(5,6) [THEN custody_frame] assms(4) in auto)

lemma relay_reach_custody:
  "relay_reach sha256 is_host lower (minted_by X key d) w w' \<Longrightarrow> aead_ok X \<Longrightarrow> length key = 32 \<Longrightarrow>
     custody_ok X key d (rw_tables w) \<Longrightarrow> custody_ok X key d (rw_tables w')"
  by (induction rule: rtranclp_induct) (auto dest: relay_step_custody)

lemma custody_validates:
  assumes "custody_ok X key d t"
  shows "validate_credential_custody X key d t = Ok ()"
proof -
  let ?active = "filter (\<lambda>c. cr_status c = CR_Active) (rt_credentials t)"
  let ?rows = "take 257 (sort_key cr_id ?active)"
  have same: "c = c'" if "c \<in> set (rt_credentials t)" "c' \<in> set (rt_credentials t)" "cr_id c = cr_id c'" for c c'
    using assms that by (auto simp: custody_ok_def distinct_map inj_on_def)
  have refs: "references_active t"
    using assms same unfolding references_active_def custody_ok_def machine_credentials_def credential_active_def list_ex_iff
    by (metis imageI)
  have "length ?active \<le> length (rt_credentials t)" by (rule length_filter_le)
  also have "\<dots> \<le> 256" using assms by (simp add: custody_ok_def)
  finally have "length ?active \<le> 256" .
  moreover have "?active \<noteq> []"
    using assms by (auto simp: custody_ok_def credential_active_def list_ex_iff filter_empty_conv)
  then have "sort_key cr_id ?active \<noteq> []" by (metis length_0_conv length_sort)
  moreover have "r_map (\<lambda>c. map_err (\<lambda>_. ST_Custody) (open_envelope X key d (cr_id c) (cr_envelope c))) rows
      = Ok (map (\<lambda>c. projr (open_envelope X key d (cr_id c) (cr_envelope c))) rows)" if "set rows \<subseteq> set (rt_credentials t)" for rows
    using that assms by (induction rows) (auto simp: custody_ok_def is_ok_iff)
  ultimately show ?thesis
    using refs set_take_subset [of 257 "sort_key cr_id ?active"] by (auto simp: validate_credential_custody_def Let_def)
qed

lemma initialized_custody:
  assumes "initialize_store lower X C E st = Ok (d, st')" "rt_credentials (st_tables st) = []" "rt_machines (st_tables st) = []"
    "aead_ok X" "length (sg_encryption_key C) = 32" "length (be_nonce E) = 24"
  shows "custody_ok X (sg_encryption_key C) d (st_tables st')"
  using assms generated_opens [OF assms(4-6)]
  by (auto simp: initialize_store_def Let_def res_simps custody_ok_def credential_active_def machine_credentials_def split: if_splits)

section \<open>Properties\<close>

definition empty_store :: "node_row list \<Rightarrow> store" where
  "empty_store nodes = \<lparr>st_nodes = \<lparr>ld_deployment = None, ld_nodes = nodes, ld_audit = []\<rparr>,
     st_tables = rw_tables (empty_world [] 0)\<rparr>"

lemma bootstrap_first:
  assumes "initialize_or_validate lower X C fate E (empty_store nodes) = (Ok d, st)"
  shows "initialize_store lower X C E (empty_store nodes) = Ok (d, st) \<and> fate = DB_Commit"
  using assms by (auto simp: initialize_or_validate_def empty_store_def split: if_splits sum.splits db_fate.splits)

lemma reachable_custody:
  assumes "aead_ok X" "length (sg_encryption_key C) = 32" "length (be_nonce E) = 24"
    "initialize_or_validate lower X C fate E (empty_store nodes) = (Ok d, st)"
    "relay_reach sha256 is_host lower (minted_by X (sg_encryption_key C) d) \<lparr>rw_tables = st_tables st, rw_accepted = []\<rparr> w"
  shows "custody_ok X (sg_encryption_key C) d (rw_tables w)"
  using initialized_custody [OF conjunct1 [OF bootstrap_first [OF assms(4)]] _ _ assms(1-3)] relay_reach_custody [OF assms(5) assms(1,2)]
  by (simp add: empty_store_def empty_world_def)

text \<open>C7. A machine never depends on a lost key: in a deployment initialised by \<open>initialize_or_validate\<close> and
  changed by any transactions on machines, Relays, owners and credentials, the default credential and the
  credential of every machine exist exactly once, are active, and their envelopes open to a private key
  under the encryption key of the deployment.\<close>

theorem credentials_stay_usable:
  assumes "aead_ok X" "length (sg_encryption_key C) = 32" "length (be_nonce E) = 24"
    "initialize_or_validate lower X C fate E (empty_store nodes) = (Ok d, st)"
    "relay_reach sha256 is_host lower (minted_by X (sg_encryption_key C) d) \<lparr>rw_tables = st_tables st, rw_accepted = []\<rparr> w"
    "i = rt_default_credential (rw_tables w) \<or> i \<in> mc_credential_id ` set (rt_machines (rw_tables w))"
  shows "\<exists>c. filter (\<lambda>c. cr_id c = i) (rt_credentials (rw_tables w)) = [c] \<and> cr_status c = CR_Active
    \<and> is_ok (open_envelope X (sg_encryption_key C) d i (cr_envelope c))"
proof -
  have ok: "custody_ok X (sg_encryption_key C) d (rw_tables w)" by (rule reachable_custody [OF assms(1-5)])
  then have "credential_active i (rw_tables w)" using assms(6) by (auto simp: custody_ok_def machine_credentials_def)
  then obtain c where c: "c \<in> set (rt_credentials (rw_tables w))" "cr_id c = i" "cr_status c = CR_Active"
    by (auto simp: credential_active_def list_ex_iff)
  have "filter (\<lambda>c. cr_id c = i) (rt_credentials (rw_tables w)) = [c]"
    using ok c filter_unique_key [of cr_id] by (auto simp: custody_ok_def)
  with ok c show ?thesis by (auto simp: custody_ok_def)
qed

text \<open>C8. A deployment always starts again: after any history of transactions, a node that starts with the
  configuration the deployment was initialised with passes the custody checks and is given the same
  deployment, which it leaves unchanged.\<close>

theorem deployment_restarts:
  assumes "aead_ok X" "length (sg_encryption_key C) = 32" "length (be_nonce E) = 24"
    "initialize_or_validate lower X C fate E (empty_store nodes) = (Ok d, st)"
    "relay_reach sha256 is_host lower (minted_by X (sg_encryption_key C) d) \<lparr>rw_tables = st_tables st, rw_accepted = []\<rparr> w"
    "ld_deployment db = ld_deployment (st_nodes st)"
  shows "initialize_or_validate lower X C DB_Commit E' \<lparr>st_nodes = db, st_tables = rw_tables w\<rparr>
    = (Ok d, \<lparr>st_nodes = db, st_tables = rw_tables w\<rparr>)"
proof -
  have row: "ld_deployment db = Some \<lparr>dp_id = d, dp_config_epoch = sg_epoch C, dp_server_build_id = sg_build_id C,
      dp_relay_protocol_version = 1, dp_profile = sg_profile C, dp_config_proof = sg_proof C d\<rparr>"
    using bootstrap_first [OF assms(4)] assms(6) by (auto simp: initialize_store_def Let_def res_simps split: if_splits)
  show ?thesis
    using custody_validates [OF reachable_custody [OF assms(1-5)]] row
    by (simp add: initialize_or_validate_def validate_store_def Let_def)
qed

text \<open>An envelope opens to a private key exactly if it is a seal of that key for the same deployment and
  credential under the same encryption key: the associated data determines both ids.\<close>

lemma envelope_opens_in_context:
  assumes "aead_ok X" "length key = 32"
  shows "(open_envelope X key d c envelope = Ok m \<longleftrightarrow> (\<exists>nonce. length nonce = 24 \<and> seal X key nonce d c m = Ok envelope))
    \<and> (associated_data d c = associated_data d' c' \<longleftrightarrow> d = d' \<and> c = c')"
  using seal_open [OF assms] by (simp add: associated_data_def)

text \<open>\<open>ApiKey::verify\<close> is equality with the one canonical spelling of the key: a candidate is accepted
  exactly if it is the prefix followed by the base64url text of the key.\<close>

lemma api_key_single_spelling:
  assumes "base64_ok B" "length key = 32"
  shows "api_key_verify B key candidate = (candidate = API_KEY_PREFIX @ b64_encode B key)"
  by (rule api_key_spelling [OF assms])

section \<open>Witnesses\<close>

definition sample_aead :: aead where
  "sample_aead = \<lparr>cx_encrypt = (\<lambda>k n a m. Some (k @ n @ a @ m)), cx_decrypt = (\<lambda>k n a c. strip_prefix (k @ n @ a) c)\<rparr>"

definition sample_base64 :: base64 where
  "sample_base64 = \<lparr>b64_encode = id, b64_decode = Some\<rparr>"

definition sample_store_config :: store_config where
  "sample_store_config = \<lparr>sg_epoch = 1, sg_build_id = ''build'', sg_profile = ''single_node'', sg_proof = (\<lambda>_. None),
     sg_encryption_key = replicate 32 (CHR ''e'')\<rparr>"

definition sample_bootstrap :: bootstrap_env where
  "sample_bootstrap = \<lparr>be_now = 0, be_deployment_id = 3, be_credential_id = 5, be_nonce = replicate 24 (CHR ''n''),
     be_keypair = Some \<lparr>kp_private_openssh = ''private'', kp_public_openssh = replicate 48 (CHR ''k''), kp_fingerprint = replicate 16 (CHR ''f'')\<rparr>\<rparr>"

definition sample_store :: store where
  "sample_store = snd (initialize_or_validate id sample_aead sample_store_config DB_Commit sample_bootstrap (empty_store []))"

lemma sample_aead_ok: "aead_ok sample_aead"
  by (auto simp: aead_ok_def sample_aead_def strip_prefix_Some_iff)

lemma sample_bootstraps:
  "initialize_or_validate id sample_aead sample_store_config DB_Commit sample_bootstrap (empty_store []) = (Ok 3, sample_store)"
proof -
  have "fst (initialize_or_validate id sample_aead sample_store_config DB_Commit sample_bootstrap (empty_store [])) = Ok 3"
    by (simp add: initialize_or_validate_def initialize_store_def Let_def generate_credential_def seal_def associated_data_def
        ENVELOPE_DOMAIN_def credential_fits_def empty_store_def empty_world_def sample_aead_def sample_store_config_def sample_bootstrap_def res_simps)
  then show ?thesis by (simp add: sample_store_def prod_eq_iff)
qed

lemma sample_lengths: "length (sg_encryption_key sample_store_config) = 32" "length (be_nonce sample_bootstrap) = 24"
  by (simp_all add: sample_store_config_def sample_bootstrap_def)

lemmas sample_start = sample_aead_ok sample_lengths sample_bootstraps rtranclp.rtrancl_refl

theorem credentials_stay_usable_witness:
  "\<exists>c. filter (\<lambda>c. cr_id c = rt_default_credential (st_tables sample_store)) (rt_credentials (st_tables sample_store)) = [c]
    \<and> cr_status c = CR_Active"
  using credentials_stay_usable [OF sample_start, of "rt_default_credential (st_tables sample_store)"]
  by auto

theorem deployment_restarts_witness:
  "fst (initialize_or_validate id sample_aead sample_store_config DB_Commit sample_bootstrap
     \<lparr>st_nodes = st_nodes sample_store, st_tables = st_tables sample_store\<rparr>) = Ok 3"
  using deployment_restarts [OF sample_start, of "st_nodes sample_store" sample_bootstrap] by simp

theorem envelope_opens_in_context_witness:
  "open_envelope sample_aead (replicate 32 (CHR ''e'')) 3 5 (CHR 0x01 # replicate 24 (CHR ''n'')
      @ replicate 32 (CHR ''e'') @ replicate 24 (CHR ''n'') @ associated_data 3 5 @ ''private'') = Ok ''private''"
  using envelope_opens_in_context [OF sample_aead_ok, of "replicate 32 (CHR ''e'')" 3 5 _ "''private''"]
  by (auto simp: seal_def sample_aead_def intro!: exI [of _ "replicate 24 (CHR ''n'')"])

theorem api_key_single_spelling_witness:
  "api_key_verify sample_base64 (replicate 32 (CHR ''k'')) (''owlmux_sk_v1_'' @ replicate 32 (CHR ''k''))"
  using api_key_single_spelling [of sample_base64 "replicate 32 (CHR ''k'')"] by (simp add: base64_ok_def sample_base64_def)

end
