(* ===== verification/Owner_Route.thy ===== *)
theory Owner_Route
  imports Machine_System
begin

text \<open>
  Finding the owner of a machine (\<open>owner.rs\<close>), presenting machines (\<open>api/mod.rs\<close>: \<open>list_machines\<close>,
  \<open>get_machine\<close>) and taking an active machine out of service (\<open>disable_machine\<close>, \<open>revoke_machine_relay\<close>,
  \<open>re_enroll_machine\<close>): the owner is quiesced first, the transition is committed and, if the commit was
  ambiguous, observed again. Other nodes act on the database between any two accesses.
\<close>

section \<open>Counters\<close>

record observability =
  ob_api_authenticated :: "64 word"
  ob_api_auth_rejections :: "64 word"
  ob_api_mutation_overloads :: "64 word"
  ob_owner_local :: "64 word"
  ob_owner_remote :: "64 word"
  ob_owner_absent :: "64 word"
  ob_owner_failures :: "64 word"

abbreviation owner_local :: "observability \<Rightarrow> observability" where "owner_local ob \<equiv> ob\<lparr>ob_owner_local := ob_owner_local ob + 1\<rparr>"
abbreviation owner_remote :: "observability \<Rightarrow> observability" where "owner_remote ob \<equiv> ob\<lparr>ob_owner_remote := ob_owner_remote ob + 1\<rparr>"
abbreviation owner_absent :: "observability \<Rightarrow> observability" where "owner_absent ob \<equiv> ob\<lparr>ob_owner_absent := ob_owner_absent ob + 1\<rparr>"
abbreviation owner_resolution_failed :: "observability \<Rightarrow> observability" where
  "owner_resolution_failed ob \<equiv> ob\<lparr>ob_owner_failures := ob_owner_failures ob + 1\<rparr>"

text \<open>A metric is presented as an integer that a JSON number holds exactly.\<close>

definition bounded_metric :: "64 word \<Rightarrow> 64 word" where
  "bounded_metric value = min value 9007199254740991"

section \<open>Resolving the owner\<close>

datatype owner_route = Local route_identity | Remote route_identity uuid bytes | Unowned int

datatype owner_error = OE_Unavailable | OE_Database | OE_Invariant | OE_Fenced | OE_Unreachable

text \<open>The rows the resolution query joins: the owner of an active machine at its current revision, and the
  node that holds it.\<close>

definition joined_owner :: "tx_env \<Rightarrow> node_lease \<Rightarrow> relay_tables \<Rightarrow> uuid \<Rightarrow> (owner_row \<times> node_row) option" where
  "joined_owner V n t machine_id = (case (machine_of machine_id t, owner_of machine_id t) of
     (Some m, Some ow) \<Rightarrow>
       if mc_lifecycle m = LC_Active \<and> ow_route_revision ow = mc_route_revision m \<and> 0 < ow_connection_epoch ow
          \<and> bound machine_id (mc_route_revision m) t
       then map_option (Pair ow) (List.find (\<lambda>r. Some (nr_incarnation_id r) = ow_owner ow \<and> node_row_current V n r) (ld_nodes (te_nodes V)))
       else None
   | _ \<Rightarrow> None)"

definition unowned_revision :: "tx_env \<Rightarrow> node_lease \<Rightarrow> relay_tables \<Rightarrow> uuid \<Rightarrow> int option" where
  "unowned_revision V n t machine_id = (case (machine_of machine_id t, owner_of machine_id t) of
     (Some m, Some ow) \<Rightarrow>
       if mc_lifecycle m = LC_Active \<and> ow_route_revision ow = mc_route_revision m \<and> bound machine_id (mc_route_revision m) t
          \<and> \<not> owner_valid V n ow
       then Some (mc_route_revision m) else None
   | _ \<Rightarrow> None)"

record resolver =
  rv_lease :: node_lease
  rv_obs :: observability

definition rv_failed :: "owner_error \<Rightarrow> (resolver, owner_error, 'a) sr" where
  "rv_failed e = sr_bind (sr_modify (\<lambda>s. s\<lparr>rv_obs := owner_resolution_failed (rv_obs s)\<rparr>)) (\<lambda>_. sr_throw e)"

definition rv_check :: "reading \<Rightarrow> (resolver, owner_error, unit) sr" where
  "rv_check rd s = (case lease_check rd (rv_lease s) of (r, n) \<Rightarrow>
     if is_ok r then (Ok (), s\<lparr>rv_lease := n\<rparr>) else rv_failed OE_Fenced (s\<lparr>rv_lease := n\<rparr>))"

text \<open>\<open>first\<close> and \<open>second\<close> are what the two queries see, \<open>None\<close> for a query that fails; \<open>late\<close> is the clock at
  the third lease check.\<close>

definition resolve ::
  "(tx_env \<times> relay_tables) option \<Rightarrow> (tx_env \<times> relay_tables) option \<Rightarrow> reading \<Rightarrow> reading \<Rightarrow> reading \<Rightarrow> uuid
     \<Rightarrow> (resolver, owner_error, owner_route) sr" where
  "resolve first_seen second_seen early between late machine_id =
     sr_bind (rv_check early) (\<lambda>_.
     case first_seen of
       None \<Rightarrow> rv_failed OE_Database
     | Some (V, t) \<Rightarrow>
         sr_bind (sr_gets rv_lease) (\<lambda>n.
         sr_bind (rv_check between) (\<lambda>_.
         case joined_owner V n t machine_id of
           None \<Rightarrow> (case second_seen of
               None \<Rightarrow> sr_throw OE_Database
             | Some (V', t') \<Rightarrow>
                 sr_bind (rv_check late) (\<lambda>_.
                 case unowned_revision V' n t' machine_id of
                   Some route_revision \<Rightarrow> sr_bind (sr_modify (\<lambda>s. s\<lparr>rv_obs := owner_absent (rv_obs s)\<rparr>)) (\<lambda>_. sr_return (Unowned route_revision))
                 | None \<Rightarrow> rv_failed OE_Unavailable))
         | Some (ow, r) \<Rightarrow> (case ow_connection ow of
               None \<Rightarrow> sr_throw OE_Invariant
             | Some connection_id \<Rightarrow>
                 (let route = \<lparr>ri_route_revision = ow_route_revision ow, ri_connection_epoch = ow_connection_epoch ow, ri_connection_id = connection_id\<rparr> in
                  if nr_incarnation_id r = nl_incarnation_id n then
                    sr_bind (sr_modify (\<lambda>s. s\<lparr>rv_obs := owner_local (rv_obs s)\<rparr>)) (\<lambda>_. sr_return (Local route))
                  else if nl_profile n \<noteq> ''clustered'' then sr_throw OE_Invariant
                  else (case nr_internal_wss_url r of
                      None \<Rightarrow> sr_throw OE_Invariant
                    | Some url \<Rightarrow> sr_bind (sr_modify (\<lambda>s. s\<lparr>rv_obs := owner_remote (rv_obs s)\<rparr>)) (\<lambda>_.
                        sr_return (Remote route (nr_incarnation_id r) url))))))))"

section \<open>Presenting machines\<close>

record machine_summary =
  ms_machine_id :: uuid
  ms_ssh_credential_id :: uuid
  ms_alias :: bytes
  ms_lifecycle :: lifecycle
  ms_reachability :: bytes

record machine_detail =
  md_summary :: machine_summary
  md_target_account :: bytes
  md_tmux_path :: bytes
  md_tmux_socket_identity :: bytes
  md_host_identity :: "bytes option"

definition machine_connected :: "tx_env \<Rightarrow> node_lease \<Rightarrow> relay_tables \<Rightarrow> machine_row \<Rightarrow> bool" where
  "machine_connected V n t m \<longleftrightarrow> bound (mc_id m) (mc_route_revision m) t \<and> list_ex (\<lambda>ow. ow_machine_id ow = mc_id m
     \<and> ow_route_revision ow = mc_route_revision m \<and> 0 < ow_connection_epoch ow \<and> owner_valid V n ow) (rt_owners t)"

definition machine_from_row :: "machine_row \<Rightarrow> bool \<Rightarrow> machine_summary" where
  "machine_from_row m connected = \<lparr>ms_machine_id = mc_id m, ms_ssh_credential_id = mc_credential_id m, ms_alias = mc_alias m,
     ms_lifecycle = mc_lifecycle m, ms_reachability = (if mc_lifecycle m = LC_Active
       then (if connected then ''reachable'' else ''temporarily_unavailable'') else ''unknown'')\<rparr>"

text \<open>Expired enrolment attempts are recovered first; \<open>seen\<close> is what the query that follows sees.\<close>

definition list_machines ::
  "db_fate \<Rightarrow> tx_env \<Rightarrow> (tx_env \<times> relay_tables) option \<Rightarrow> (api_error, machine_summary list) tx" where
  "list_machines fate V seen =
     sr_bind (sr_map_err (\<lambda>_. AP_TemporarilyUnavailable) (recover_expired_attempts fate V None)) (\<lambda>_.
     sr_bind (sr_gets tx_lease) (\<lambda>n. sr_lift (case seen of
       None \<Rightarrow> Err AP_TemporarilyUnavailable
     | Some (V', t) \<Rightarrow> Ok (map (\<lambda>m. machine_from_row m (machine_connected V' n t m)) (take 1024 (rt_machines t))))))"

definition get_machine ::
  "db_fate \<Rightarrow> tx_env \<Rightarrow> (tx_env \<times> relay_tables) option \<Rightarrow> uuid \<Rightarrow> (api_error, machine_detail) tx" where
  "get_machine fate V seen machine_id =
     sr_bind (sr_map_err (\<lambda>_. AP_TemporarilyUnavailable) (recover_expired_attempts fate V (Some machine_id))) (\<lambda>_.
     sr_bind (sr_gets tx_lease) (\<lambda>n. sr_lift (case seen of
       None \<Rightarrow> Err AP_TemporarilyUnavailable
     | Some (V', t) \<Rightarrow> (case machine_of machine_id t of
           None \<Rightarrow> Err AP_NotFound
         | Some m \<Rightarrow> Ok \<lparr>md_summary = machine_from_row m (machine_connected V' n t m), md_target_account = mc_target_account m,
             md_tmux_path = mc_tmux_path m, md_tmux_socket_identity = mc_tmux_socket m, md_host_identity = mc_host_identity m\<rparr>))))"

section \<open>Taking a machine out of service\<close>

record machine_host =
  mh_lease :: node_lease
  mh_tables :: relay_tables
  mh_registry :: relay_registry
  mh_obs :: observability

text \<open>What a transition meets: the environment of each of its database accesses and what other nodes did to
  the tables before it, whether its queries are answered, the fates of its commits, what the tunnel tasks did
  to the registry while it waited for their cleanup, and how the owner's node answers a remote request.\<close>

record transition_io =
  ti_env :: "nat \<Rightarrow> tx_env"
  ti_others :: "nat \<Rightarrow> relay_tables \<Rightarrow> relay_tables"
  ti_answered :: "nat \<Rightarrow> bool"
  ti_late :: reading
  ti_commit :: db_fate
  ti_release :: db_fate
  ti_tasks :: "relay_registry \<Rightarrow> relay_registry"
  ti_timed_out :: bool
  ti_cleaned :: reading
  ti_internal :: bool
  ti_prepared :: bool

type_synonym 'a host_op = "(machine_host, api_error, 'a) sr"

definition on_database :: "transition_io \<Rightarrow> nat \<Rightarrow> (api_error, 'a) tx \<Rightarrow> 'a host_op" where
  "on_database io k tx h = (case tx \<lparr>tx_lease = mh_lease h, tx_tables = ti_others io k (mh_tables h)\<rparr> of (r, s) \<Rightarrow>
     (r, h\<lparr>mh_lease := tx_lease s, mh_tables := tx_tables s\<rparr>))"

definition resolve_owner :: "transition_io \<Rightarrow> uuid \<Rightarrow> owner_route host_op" where
  "resolve_owner io machine_id h =
     (let t0 = ti_others io 0 (mh_tables h); t1 = ti_others io 1 t0;
          seen = (\<lambda>k t. if ti_answered io k then Some (ti_env io k, t) else None)
      in case resolve (seen 0 t0) (seen 1 t1) (te_clock (ti_env io 0)) (te_clock_again (ti_env io 0)) (ti_late io) machine_id
           \<lparr>rv_lease = mh_lease h, rv_obs = mh_obs h\<rparr> of (r, s) \<Rightarrow>
        (map_err (\<lambda>_. AP_TemporarilyUnavailable) r, h\<lparr>mh_lease := rv_lease s, mh_obs := rv_obs s, mh_tables := t1\<rparr>))"

text \<open>The registry fences the lease of the node; the fence is the node's.\<close>

definition with_registry :: "relay_registry \<Rightarrow> machine_host \<Rightarrow> machine_host" where
  "with_registry g h = h\<lparr>mh_registry := g, mh_lease := (if rg_hard_fenced g then lease_fence (mh_lease h) else mh_lease h)\<rparr>"

definition begin_local :: "transition_io \<Rightarrow> uuid \<Rightarrow> route_identity \<Rightarrow> machine_transition host_op" where
  "begin_local io machine_id route h =
     (case begin_machine_transition machine_id route (mh_registry h) of
        (None, g) \<Rightarrow> (Err AP_TemporarilyUnavailable, with_registry g h)
      | (Some (mt, handle, tokens), g) \<Rightarrow>
          (let g1 = ti_tasks io (close_dispatch handle g) in
           case lease_check (ti_cleaned io) (mh_lease h) of (ok, n) \<Rightarrow>
           let checked = \<not> ti_timed_out io \<and> cleanup_completed handle tokens g1; h1 = (if checked then h\<lparr>mh_lease := n\<rparr> else h) in
           case await_machine_transition (ti_timed_out io) (is_ok ok) mt handle tokens g1 of
             (None, g2) \<Rightarrow> (Err AP_TemporarilyUnavailable, with_registry g2 h1)
           | (Some mt', g2) \<Rightarrow> (Ok mt', with_registry g2 h1)))"

definition commit_and_settle ::
  "transition_io \<Rightarrow> uuid \<Rightarrow> lifecycle \<Rightarrow> bytes \<Rightarrow> owner_expectation \<Rightarrow> transition_completion host_op" where
  "commit_and_settle io machine_id lifecycle action expected =
     sr_bind (sr_try (on_database io 2 (commit_active_machine_transition (ti_commit io) (ti_env io 2) machine_id lifecycle action expected))) (\<lambda>result.
     on_database io 3 (settle_transition_commit (ti_answered io 3) (ti_env io 3) machine_id lifecycle expected result))"

definition finish_transition :: "transition_io \<Rightarrow> bool \<Rightarrow> machine_transition \<Rightarrow> machine_host \<Rightarrow> (relay_error + unit) \<times> machine_host" where
  "finish_transition io committed mt h =
     (let (released, h1) = (if committed then (Ok (), h)
        else (case release_owner (ti_release io) (ti_env io 4) (mt_machine_id mt) (ri_connection_id (mt_route mt)) (ri_connection_epoch (mt_route mt))
                \<lparr>tx_lease = mh_lease h, tx_tables = ti_others io 4 (mh_tables h)\<rparr> of (r, s) \<Rightarrow>
             (r, h\<lparr>mh_lease := tx_lease s, mh_tables := tx_tables s\<rparr>)))
      in case transition_finish committed released mt (mh_registry h1) of (r, g) \<Rightarrow> (r, with_registry g h1))"

text \<open>A failed completion on this node is only logged.\<close>

definition finish_local :: "transition_io \<Rightarrow> bool \<Rightarrow> machine_transition \<Rightarrow> unit host_op" where
  "finish_local io committed mt h = (Ok (), snd (finish_transition io committed mt h))"

definition local_transition :: "transition_io \<Rightarrow> uuid \<Rightarrow> lifecycle \<Rightarrow> bytes \<Rightarrow> route_identity \<Rightarrow> unit host_op" where
  "local_transition io machine_id lifecycle action route =
     sr_bind (begin_local io machine_id route) (\<lambda>mt.
     sr_bind (sr_gets (\<lambda>h. nl_incarnation_id (mh_lease h))) (\<lambda>me.
     sr_bind (commit_and_settle io machine_id lifecycle action (Exact me route)) (\<lambda>completion. case completion of
       TC_Committed \<Rightarrow> finish_local io True mt
     | TC_Aborted e \<Rightarrow> sr_bind (finish_local io False mt) (\<lambda>_. sr_throw e)
     | TC_Indeterminate e \<Rightarrow> sr_bind (sr_modify (\<lambda>h. with_registry (transition_hard_fence (mh_registry h)) h)) (\<lambda>_. sr_throw e))))"

definition completed :: "transition_completion \<Rightarrow> unit host_op" where
  "completed completion = (case completion of TC_Committed \<Rightarrow> sr_return () | TC_Aborted e \<Rightarrow> sr_throw e | TC_Indeterminate e \<Rightarrow> sr_throw e)"

text \<open>A remote owner is asked to quiesce the machine before the commit; telling it the outcome afterwards
  changes neither this node nor the answer. If the outcome is not told, the owner fences itself.\<close>

definition transition_active_machine :: "transition_io \<Rightarrow> uuid \<Rightarrow> lifecycle \<Rightarrow> bytes \<Rightarrow> unit host_op" where
  "transition_active_machine io machine_id lifecycle action =
     sr_bind (resolve_owner io machine_id) (\<lambda>owner. case owner of
       Local route \<Rightarrow> local_transition io machine_id lifecycle action route
     | Remote route incarnation_id url \<Rightarrow>
         if \<not> ti_internal io then sr_throw AP_TemporarilyUnavailable
         else if \<not> ti_prepared io then sr_throw AP_OwnerUnreachable
         else sr_bind (commit_and_settle io machine_id lifecycle action (Exact incarnation_id route)) completed
     | Unowned route_revision \<Rightarrow> sr_bind (commit_and_settle io machine_id lifecycle action (NoValidOwner route_revision)) completed)"

definition disable_machine :: "transition_io \<Rightarrow> uuid \<Rightarrow> unit host_op" where
  "disable_machine io machine_id = transition_active_machine io machine_id LC_Disabled ''disable''"

definition revoke_machine_relay :: "transition_io \<Rightarrow> uuid \<Rightarrow> unit host_op" where
  "revoke_machine_relay io machine_id = transition_active_machine io machine_id LC_Disabled ''revoke_relay''"

text \<open>\<open>seen\<close> is what the first query of \<open>re_enroll_machine\<close> sees.\<close>

definition re_enroll_machine :: "relay_tables option \<Rightarrow> transition_io \<Rightarrow> uuid \<Rightarrow> unit host_op" where
  "re_enroll_machine seen io machine_id = (case seen of
     None \<Rightarrow> sr_throw AP_TemporarilyUnavailable
   | Some t \<Rightarrow> (case map_option mc_lifecycle (machine_of machine_id t) of
         Some LC_Active \<Rightarrow> transition_active_machine io machine_id LC_Pending ''re_enroll''
       | Some LC_Disabled \<Rightarrow> on_database io 2 (re_enroll_disabled_machine (ti_commit io) (ti_env io 2) machine_id)
       | Some _ \<Rightarrow> sr_throw (AP_Conflict ''invalid_lifecycle'')
       | None \<Rightarrow> sr_throw AP_NotFound))"

section \<open>The answer and the revision\<close>

definition revision_of :: "uuid \<Rightarrow> relay_tables \<Rightarrow> int option" where
  "revision_of i t = map_option mc_route_revision (machine_of i t)"

definition at_revision :: "uuid \<Rightarrow> int \<Rightarrow> relay_tables \<Rightarrow> bool" where
  "at_revision i g t \<longleftrightarrow> tables_ok t \<and> revision_of i t = Some g"

text \<open>Other nodes may do anything to the tables but start a transition of the same machine.\<close>

definition uncontested :: "transition_io \<Rightarrow> uuid \<Rightarrow> bool" where
  "uncontested io i \<longleftrightarrow> (\<forall>k t. tables_ok t \<longrightarrow> tables_ok (ti_others io k t) \<and> revision_of i (ti_others io k t) = revision_of i t)"

lemma uncontested_at: "uncontested io i \<Longrightarrow> at_revision i g t \<Longrightarrow> at_revision i g (ti_others io k t)"
  by (simp add: uncontested_def at_revision_def)

lemma at_revision_machine: "at_revision i g t \<Longrightarrow> \<exists>m. machines_at i t = [m] \<and> machine_of i t = Some m \<and> mc_route_revision m = g"
proof -
  assume a: "at_revision i g t"
  then obtain v where "represents i t v" unfolding at_revision_def tables_ok_def by blast
  moreover from a obtain m where "machine_of i t = Some m" "mc_route_revision m = g" by (auto simp: at_revision_def revision_of_def)
  ultimately show ?thesis by (auto simp: represents_def machine_of_at split: option.splits list.splits)
qed

lemma wp_require [wp_simps]: "sr_wp (tx_require b e) Q R s = (if b then Q () s else R e s)"
  by (simp add: tx_require_def wp_simps)

lemma wp_tx [wp_simps]:
  "sr_wp (tx_read f) Q R s = Q (f (tx_tables s)) s"
  "sr_wp (tx_write g) Q R s = Q () (s\<lparr>tx_tables := g (tx_tables s)\<rparr>)"
  "sr_wp (tx_audit k m c a) Q R s = Q () (s\<lparr>tx_tables := (tx_tables s)\<lparr>rt_audit := rt_audit (tx_tables s) @ [audit k m c a ''success'']\<rparr>\<rparr>)"
  by (simp_all add: tx_read_def tx_write_def tx_audit_def wp_simps)

lemma wp_check: "Q () (s\<lparr>tx_lease := snd (lease_check rd (tx_lease s))\<rparr>) \<Longrightarrow> R e (s\<lparr>tx_lease := snd (lease_check rd (tx_lease s))\<rparr>) \<Longrightarrow>
    sr_wp (tx_check rd e) Q R s"
  by (auto simp: sr_wp_def tx_check_def split: prod.splits)

lemma transition_body_error:
  assumes "transition_body V i lc action expected s = (Err e, s')"
  shows "\<not> is_ambiguous e"
proof -
  have lock: "sr_wp (lock_current_deployment V) (\<lambda>_ _. True) (\<lambda>e _. \<not> is_ambiguous e) s" for s
    by (auto simp: lock_current_deployment_def wp_simps is_ambiguous_def intro!: wp_check)
  have "sr_wp (transition_body V i lc action expected) (\<lambda>_ _. True) (\<lambda>e _. \<not> is_ambiguous e) s"
    unfolding transition_body_def wp_bind
    by (rule sr_wp_mono [OF lock]) (auto simp: wp_simps wp_option is_ambiguous_def Let_def split: option.split)
  then show ?thesis using assms by (rule sr_wp_Err)
qed

lemma commit_revision:
  assumes "commit_active_machine_transition fate V i lc action expected s = (r, s')" "at_revision i g (tx_tables s)" "lc = LC_Pending \<or> lc = LC_Disabled"
  shows "if is_ok r then expected_revision expected = g \<and> at_revision i (g + 1) (tx_tables s')
    else if \<not> is_ambiguous (projl r) then tx_tables s' = tx_tables s
    else tx_tables s' = tx_tables s \<or> expected_revision expected = g \<and> at_revision i (g + 1) (tx_tables s')"
proof -
  let ?body = "transition_body V i lc action expected"
  have eff: "expected_revision expected = g \<and> at_revision i (g + 1) (tx_tables u)" if body: "?body s = (Ok x, u)" for x u
  proof -
    from at_revision_machine [OF assms(2)] obtain m where m: "machines_at i (tx_tables s) = [m]" "machine_of i (tx_tables s) = Some m" "mc_route_revision m = g"
      by blast
    have run: "tx_run (commit_active_machine_transition DB_Commit V i lc action expected) (tx_lease s) (tx_tables s) = (Ok x, tx_tables u)"
      using body by (cases s) (simp add: tx_run_def commit_active_machine_transition_def run_transaction_def)
    have ok: "tables_ok (tx_tables u)"
      using grows_ok api_tx_grows(7) [OF _ assms(3) run] assms(2) by (auto simp: at_revision_def)
    from body obtain m' a where m': "m' \<in> set (rt_machines (tx_tables s))" "mc_id m' = i" "mc_lifecycle m' = LC_Active"
        "mc_route_revision m' = expected_revision expected" "tx_tables u = (retire_tables i lc (mc_route_revision m') (tx_tables s))\<lparr>rt_audit := a\<rparr>"
      by (rule transition_effect) auto
    then have "m' \<in> set (machines_at i (tx_tables s))" by (simp add: machines_at_def)
    with m(1) have [simp]: "m' = m" by simp
    have "machines_at i (tx_tables u) = [m\<lparr>mc_lifecycle := lc, mc_route_revision := g + 1\<rparr>]"
      using m m' by (simp add: machines_at_def retire_tables_def filter_update)
    with ok m m' show ?thesis by (simp add: at_revision_def revision_of_def machine_of_at)
  qed
  show ?thesis
    using assms(1) eff transition_body_error
    by (cases "?body s"; cases "fst (?body s)"; cases fate)
      (auto simp: commit_active_machine_transition_def run_transaction_def is_ambiguous_def split: if_splits)
qed

lemma settle_revision:
  assumes "settle_transition_commit answered V i lc expected result s = (c, s')"
  shows "is_ok c \<and> tx_tables s' = tx_tables s \<and> (case projr c of
      TC_Committed \<Rightarrow> is_ok result \<or> is_ambiguous (projl result) \<and> revision_of i (tx_tables s) = Some (expected_revision expected + 1)
    | TC_Aborted e \<Rightarrow> \<not> is_ambiguous e \<and> \<not> is_ok result
        \<and> (is_ambiguous (projl result) \<longrightarrow> revision_of i (tx_tables s) = Some (expected_revision expected))
    | TC_Indeterminate e \<Rightarrow> is_ambiguous e)"
proof (cases result)
  case (Inl e)
  show ?thesis
  proof (cases "is_ambiguous e")
    case True
    with assms Inl obtain x where x: "observe_machine_transition answered V i lc expected s = (Ok x, s')"
        "c = Ok (case x of TO_Committed \<Rightarrow> TC_Committed | TO_Aborted \<Rightarrow> TC_Aborted AP_TemporarilyUnavailable | TO_Indeterminate \<Rightarrow> TC_Indeterminate e)"
      by (auto simp: settle_transition_commit_def sr_bind_def sr_leaf observe_machine_transition_def Let_def
          split: prod.splits sum.splits option.splits if_splits)
    have "tx_tables s' = tx_tables s \<and> (x = TO_Committed \<longrightarrow> revision_of i (tx_tables s) = Some (expected_revision expected + 1))
        \<and> (x = TO_Aborted \<longrightarrow> revision_of i (tx_tables s) = Some (expected_revision expected))"
      using x(1) by (auto simp: observe_machine_transition_def Let_def revision_of_def split: prod.splits sum.splits option.splits if_splits
          dest!: tx_check_tables)
    with x(2) True Inl show ?thesis by (cases x) (auto simp: is_ambiguous_def)
  qed (use assms Inl in \<open>auto simp: settle_transition_commit_def sr_leaf\<close>)
qed (use assms in \<open>auto simp: settle_transition_commit_def sr_leaf\<close>)

lemma commit_and_settle_wp:
  assumes "uncontested io i" "at_revision i g (mh_tables h)" "lc = LC_Pending \<or> lc = LC_Disabled" "expected_revision expected = g"
  shows "sr_wp (commit_and_settle io i lc action expected) (\<lambda>c h'. mh_registry h' = mh_registry h \<and> (case c of
      TC_Committed \<Rightarrow> at_revision i (g + 1) (mh_tables h')
    | TC_Aborted e \<Rightarrow> \<not> is_ambiguous e \<and> at_revision i g (mh_tables h')
    | TC_Indeterminate e \<Rightarrow> is_ambiguous e)) (\<lambda>_ _. False) h"
proof -
  let ?t2 = "ti_others io 2 (mh_tables h)"
  obtain r s where commit: "commit_active_machine_transition (ti_commit io) (ti_env io 2) i lc action expected
      \<lparr>tx_lease = mh_lease h, tx_tables = ?t2\<rparr> = (r, s)" by fastforce
  have at2: "at_revision i g ?t2" by (rule uncontested_at [OF assms(1,2)])
  note c = commit_revision [OF commit _ assms(3), of g, simplified, OF at2]
  let ?t3 = "ti_others io 3 (tx_tables s)"
  obtain c s' where settle: "settle_transition_commit (ti_answered io 3) (ti_env io 3) i lc expected r
      \<lparr>tx_lease = tx_lease s, tx_tables = ?t3\<rparr> = (c, s')" by fastforce
  note d = settle_revision [OF settle]
  have ok3: "tables_ok ?t3 \<and> revision_of i ?t3 = revision_of i (tx_tables s)"
    using c assms(1) at2 by (auto simp: at_revision_def uncontested_def split: if_splits)
  have "case projr c of TC_Committed \<Rightarrow> at_revision i (g + 1) (tx_tables s')
    | TC_Aborted e \<Rightarrow> \<not> is_ambiguous e \<and> at_revision i g (tx_tables s')
    | TC_Indeterminate e \<Rightarrow> is_ambiguous e"
    using c d ok3 at2 assms(4) by (cases r; cases "projr c") (auto simp: at_revision_def split: if_splits)
  moreover from d obtain x where "c = Ok x" by (cases c) simp_all
  moreover have "commit_and_settle io i lc action expected h = (c, h\<lparr>mh_lease := tx_lease s', mh_tables := tx_tables s'\<rparr>)"
    using commit settle by (cases r) (simp_all add: commit_and_settle_def sr_bind_def sr_try_def on_database_def)
  ultimately show ?thesis by (cases x) (simp_all add: sr_wp_def)
qed

lemma resolve_owner_wp:
  assumes "uncontested io i" "at_revision i g (mh_tables h)"
  shows "sr_wp (resolve_owner io i) (\<lambda>owner h'. at_revision i g (mh_tables h') \<and> mh_registry h' = mh_registry h \<and> (case owner of
      Local route \<Rightarrow> ri_route_revision route = g | Remote route _ _ \<Rightarrow> ri_route_revision route = g | Unowned revision \<Rightarrow> revision = g))
    (\<lambda>e h'. \<not> is_ambiguous e \<and> at_revision i g (mh_tables h') \<and> mh_registry h' = mh_registry h) h"
proof -
  have at0: "at_revision i g (ti_others io 0 (mh_tables h))" by (rule uncontested_at [OF assms])
  have at1: "at_revision i g (ti_others io 1 (ti_others io 0 (mh_tables h)))" by (rule uncontested_at [OF assms(1) at0])
  have joined: "ow_route_revision ow = g" if "joined_owner V n (ti_others io 0 (mh_tables h)) i = Some (ow, r)" for V n ow r
    using that at_revision_machine [OF at0] by (auto simp: joined_owner_def split: option.splits if_splits)
  have unowned: "v = g" if "unowned_revision V n (ti_others io 1 (ti_others io 0 (mh_tables h))) i = Some v" for V n v
    using that at_revision_machine [OF at1] by (auto simp: unowned_revision_def split: option.splits if_splits)
  have res: "case owner of Local route \<Rightarrow> ri_route_revision route = g | Remote route _ _ \<Rightarrow> ri_route_revision route = g | Unowned revision \<Rightarrow> revision = g"
    if "resolve (if b0 then Some (V0, ti_others io 0 (mh_tables h)) else None)
      (if b1 then Some (V1, ti_others io 1 (ti_others io 0 (mh_tables h))) else None) c0 c1 c2 i s = (Ok owner, s')" for b0 b1 V0 V1 c0 c1 c2 s owner s'
    using that
    by (auto simp: resolve_def res_simps Let_def rv_failed_def sr_leaf sr_bind_def dest!: joined unowned [unfolded One_nat_def]
        split: if_splits option.splits prod.splits sum.splits)
  let ?seen = "\<lambda>k t. if ti_answered io k then Some (ti_env io k, t) else None"
  obtain r s where r: "resolve (?seen 0 (ti_others io 0 (mh_tables h))) (?seen 1 (ti_others io 1 (ti_others io 0 (mh_tables h))))
      (te_clock (ti_env io 0)) (te_clock_again (ti_env io 0)) (ti_late io) i \<lparr>rv_lease = mh_lease h, rv_obs = mh_obs h\<rparr> = (r, s)"
    by fastforce
  then have "resolve_owner io i h = (map_err (\<lambda>_. AP_TemporarilyUnavailable) r,
      h\<lparr>mh_lease := rv_lease s, mh_obs := rv_obs s, mh_tables := ti_others io 1 (ti_others io 0 (mh_tables h))\<rparr>)"
    unfolding resolve_owner_def Let_def by (simp only: prod.case)
  with r at1 res show ?thesis by (cases r) (auto simp: sr_wp_def is_ambiguous_def)
qed

lemma release_revision:
  assumes "release_owner fate V i c e s = (r, s')" "at_revision i g (tx_tables s)"
  shows "at_revision i g (tx_tables s') \<and> (is_ok r \<or> nl_fenced (tx_lease s'))"
proof -
  have run: "tx_run (release_owner fate V i c e) (tx_lease s) (tx_tables s) = (r, tx_tables s')"
    using assms(1) by (cases s) (simp add: tx_run_def)
  have ok: "tables_ok (tx_tables s')" using relay_tx_grows(5) [OF _ run] assms(2) grows_ok by (auto simp: at_revision_def)
  from release_owner_run [OF run] obtain r' where r': "tx_run (run_transaction R_Unavailable R_Ambiguous fate (owner_release_body V i c e))
      (tx_lease s) (tx_tables s) = (r', tx_tables s')" by blast
  then have "rt_machines (tx_tables s') = rt_machines (tx_tables s)"
    by (rule tx_run_cases) (auto simp: release_tables_def dest!: release_effect)
  then have "machine_of i (tx_tables s') = machine_of i (tx_tables s)" by (simp add: machine_of_def)
  moreover have "is_ok r \<or> nl_fenced (tx_lease s')"
    using assms(1) by (auto simp: release_owner_def split: prod.splits sum.splits)
  ultimately show ?thesis using ok assms(2) by (simp add: at_revision_def revision_of_def)
qed

lemma with_registry_simps [simp]: "mh_tables (with_registry g h) = mh_tables h" "mh_registry (with_registry g h) = g"
  by (simp_all add: with_registry_def)

lemma with_registry_fenced: "rg_hard_fenced g \<or> nl_fenced (mh_lease h) \<Longrightarrow> nl_fenced (mh_lease (with_registry g h))"
  by (auto simp: with_registry_def)

text \<open>The registry tasks that run meanwhile leave the exit of the machine to the transition.\<close>

definition exit_kept_by_tasks :: "transition_io \<Rightarrow> uuid \<Rightarrow> bool" where
  "exit_kept_by_tasks io i \<longleftrightarrow> (\<forall>g. rg_owner_exits (ti_tasks io g) i = rg_owner_exits g i)"

definition settled :: "uuid \<Rightarrow> machine_host \<Rightarrow> bool" where
  "settled i h \<longleftrightarrow> rg_owner_exits (mh_registry h) i = None \<or> nl_fenced (mh_lease h)"

lemma begin_local_wp:
  assumes "exit_kept_by_tasks io i" "rg_owner_exits (mh_registry h) i = None"
  shows "sr_wp (begin_local io i route) (\<lambda>mt h'. mh_tables h' = mh_tables h \<and> mt_machine_id mt = i \<and> mt_route mt = route
      \<and> rg_owner_exits (mh_registry h') i = Some (Transitioning route))
    (\<lambda>e h'. \<not> is_ambiguous e \<and> mh_tables h' = mh_tables h \<and> settled i h') h"
  using assms
  by (auto simp: sr_wp_def begin_local_def begin_machine_transition_def begin_transition_def await_machine_transition_def drop_transition_def
      close_dispatch_def on_handle_def exit_kept_by_tasks_def is_ambiguous_def settled_def Let_def
      intro!: with_registry_fenced split: option.splits if_splits prod.splits sum.splits)

lemma finish_transition_settles:
  assumes "uncontested io i" "at_revision i g (mh_tables h)" "mt_machine_id mt = i" "rg_owner_exits (mh_registry h) i = Some (Transitioning (mt_route mt))"
    "finish_transition io committed mt h = (r', h')"
  shows "at_revision i g (mh_tables h') \<and> settled i h' \<and> (is_ok r' \<longrightarrow> rg_owner_exits (mh_registry h') i = None)"
proof -
  let ?r = "release_owner (ti_release io) (ti_env io 4) i (ri_connection_id (mt_route mt)) (ri_connection_epoch (mt_route mt))
    \<lparr>tx_lease = mh_lease h, tx_tables = ti_others io 4 (mh_tables h)\<rparr>"
  have at4: "at_revision i g (ti_others io 4 (mh_tables h))" by (rule uncontested_at [OF assms(1,2)])
  obtain r s where r: "?r = (r, s)" by fastforce
  from release_revision [OF r] at4 have rs: "at_revision i g (tx_tables s)" "is_ok r \<or> nl_fenced (tx_lease s)" by simp_all
  have clear: "rg_owner_exits (finish_machine_transition i (mt_route mt) (mh_registry h)) i = None"
    using assms(4) by (auto simp: finish_machine_transition_def close_dispatch_def on_handle_def Let_def split: option.split)
  show ?thesis
    using assms rs clear r
    by (auto simp: finish_transition_def transition_finish_def settled_def intro!: with_registry_fenced split: prod.splits if_splits)
qed

lemma finish_local_wp:
  assumes "uncontested io i" "at_revision i g (mh_tables h)" "mt_machine_id mt = i" "rg_owner_exits (mh_registry h) i = Some (Transitioning (mt_route mt))"
  shows "sr_wp (finish_local io committed mt) (\<lambda>_ h'. at_revision i g (mh_tables h') \<and> settled i h') (\<lambda>_ _. False) h"
  using finish_transition_settles [OF assms] by (cases "finish_transition io committed mt h") (simp add: sr_wp_def finish_local_def)

lemma local_transition_wp:
  assumes "uncontested io i" "at_revision i g (mh_tables h)" "lc = LC_Pending \<or> lc = LC_Disabled" "ri_route_revision route = g"
    "exit_kept_by_tasks io i" "rg_owner_exits (mh_registry h) i = None"
  shows "sr_wp (local_transition io i lc action route) (\<lambda>_ h'. at_revision i (g + 1) (mh_tables h') \<and> settled i h')
    (\<lambda>e h'. (is_ambiguous e \<or> at_revision i g (mh_tables h')) \<and> settled i h') h"
  unfolding local_transition_def wp_bind wp_gets
proof (rule sr_wp_mono [OF begin_local_wp [OF assms(5,6)]])
  fix mt :: machine_transition and h1 :: machine_host assume h1: "mh_tables h1 = mh_tables h \<and> mt_machine_id mt = i \<and> mt_route mt = route \<and> rg_owner_exits (mh_registry h1) i = Some (Transitioning route)"
  then have at1: "at_revision i g (mh_tables h1)" using assms(2) by simp
  show "sr_wp (commit_and_settle io i lc action (Exact (nl_incarnation_id (mh_lease h1)) route)) (\<lambda>c. sr_wp (case c of
         TC_Committed \<Rightarrow> finish_local io True mt
       | TC_Aborted e \<Rightarrow> sr_bind (finish_local io False mt) (\<lambda>_. sr_throw e)
       | TC_Indeterminate e \<Rightarrow> sr_bind (sr_modify (\<lambda>h. with_registry (transition_hard_fence (mh_registry h)) h)) (\<lambda>_. sr_throw e))
      (\<lambda>_ h'. at_revision i (g + 1) (mh_tables h') \<and> settled i h') (\<lambda>e h'. (is_ambiguous e \<or> at_revision i g (mh_tables h')) \<and> settled i h'))
      (\<lambda>e h'. (is_ambiguous e \<or> at_revision i g (mh_tables h')) \<and> settled i h') h1"
  proof (rule sr_wp_mono [OF commit_and_settle_wp [OF assms(1) at1 assms(3), of "Exact _ route"]], simp add: assms(4), goal_cases)
    case (1 c h2)
    show ?case
    proof (cases c)
      case TC_Committed
      then show ?thesis using 1 h1 by (auto intro!: sr_wp_mono [OF finish_local_wp [OF assms(1), of "g + 1"]])
    next
      case (TC_Aborted e)
      then show ?thesis using 1 h1 by (auto simp: wp_simps intro!: sr_wp_mono [OF finish_local_wp [OF assms(1), of g]])
    next
      case (TC_Indeterminate e)
      then show ?thesis using 1 by (auto simp: wp_simps settled_def transition_hard_fence_def intro!: with_registry_fenced)
    qed
  qed simp
qed (use assms(2) in simp)

lemma completed_wp:
  assumes "uncontested io i" "at_revision i g (mh_tables h)" "lc = LC_Pending \<or> lc = LC_Disabled" "expected_revision expected = g" "settled i h"
    "rg_owner_exits (mh_registry h) i = None"
  shows "sr_wp (sr_bind (commit_and_settle io i lc action expected) completed) (\<lambda>_ h'. at_revision i (g + 1) (mh_tables h') \<and> settled i h')
    (\<lambda>e h'. (is_ambiguous e \<or> at_revision i g (mh_tables h')) \<and> settled i h') h"
  unfolding wp_bind
  by (rule sr_wp_mono [OF commit_and_settle_wp [OF assms(1-4)]])
    (use assms(6) in \<open>auto simp: completed_def settled_def wp_simps split: transition_completion.splits\<close>)

lemma transition_wp:
  assumes "uncontested io i" "at_revision i g (mh_tables h)" "lc = LC_Pending \<or> lc = LC_Disabled"
    "exit_kept_by_tasks io i" "rg_owner_exits (mh_registry h) i = None"
  shows "sr_wp (transition_active_machine io i lc action) (\<lambda>_ h'. at_revision i (g + 1) (mh_tables h') \<and> settled i h')
    (\<lambda>e h'. (is_ambiguous e \<or> at_revision i g (mh_tables h')) \<and> settled i h') h"
  unfolding transition_active_machine_def wp_bind
proof (rule sr_wp_mono [OF resolve_owner_wp [OF assms(1,2)]], goal_cases)
  case (1 owner h1)
  then have h1: "at_revision i g (mh_tables h1)" "rg_owner_exits (mh_registry h1) i = None" "settled i h1"
    using assms(5) by (auto simp: settled_def)
  with 1 show ?case
    using local_transition_wp [OF assms(1) h1(1) assms(3) _ assms(4) h1(2)] completed_wp [OF assms(1) h1(1) assms(3) _ h1(3,2)]
    by (cases owner) (auto simp: wp_simps)
qed (use assms(5) in \<open>auto simp: settled_def\<close>)

lemma bound_revision:
  assumes "at_revision i g t" "bound i g' t"
  shows "g' = g"
proof -
  from at_revision_machine [OF assms(1)] obtain m where m: "machines_at i t = [m]" "mc_route_revision m = g" by blast
  from assms(1) obtain v where "represents i t v" by (auto simp: at_revision_def tables_ok_def)
  with m(1) obtain p where "phase_ok p m (live_bindings i t) (live_attempts i t)" by (auto elim: representsE)
  moreover from assms(2) obtain b where "b \<in> set (live_bindings i t)" "bi_route_revision b = g'"
    by (auto simp: bound_def list_ex_iff live_bindings_def)
  ultimately show ?thesis using m(2) by (cases p) auto
qed

section \<open>Properties\<close>

text \<open>The answer of a disable, revoke or re-enrol request tells what happened. While nobody else starts a
  transition of the machine, and whatever else other nodes do between its database accesses, a success means
  that the machine has moved on by exactly one route revision and its Relay is revoked; a failure that is not
  reported as ambiguous means that the revision is unchanged. In every case this node is left either without
  an exit in progress for the machine or fenced.\<close>

lemma transition_answer_honest:
  assumes "uncontested io i" "tables_ok (mh_tables h)" "revision_of i (mh_tables h) = Some g" "lc = LC_Pending \<or> lc = LC_Disabled"
    "exit_kept_by_tasks io i" "rg_owner_exits (mh_registry h) i = None"
    "transition_active_machine io i lc action h = (r, h')"
  shows "(case r of
      Inr _ \<Rightarrow> revision_of i (mh_tables h') = Some (g + 1) \<and> \<not> bound i g (mh_tables h')
    | Inl e \<Rightarrow> is_ambiguous e \<or> revision_of i (mh_tables h') = Some g)
    \<and> (rg_owner_exits (mh_registry h') i = None \<or> nl_fenced (mh_lease h'))"
proof -
  have "at_revision i g (mh_tables h)" using assms(2,3) by (simp add: at_revision_def)
  from transition_wp [OF assms(1) this assms(4-6), of action] assms(7) show ?thesis
    by (auto simp: sr_wp_def settled_def at_revision_def dest: bound_revision [rotated] split: sum.splits)
qed

text \<open>C9. What a machine is presented as agrees with how requests for it are routed: it is shown as reachable
  exactly if the resolution finds a node that owns it, and as temporarily unavailable exactly if the
  resolution finds it unowned at its current revision.\<close>

theorem presentation_matches_routing:
  assumes "tables_ok t" "machine_of i t = Some m"
  shows "(ms_reachability (machine_from_row m (machine_connected V n t m)) = ''reachable'' \<longleftrightarrow> joined_owner V n t i \<noteq> None)
    \<and> (ms_reachability (machine_from_row m (machine_connected V n t m)) = ''temporarily_unavailable''
        \<longleftrightarrow> unowned_revision V n t i = Some (mc_route_revision m))"
proof -
  from assms(1) obtain v where v: "represents i t v" by (auto simp: tables_ok_def)
  moreover from machine_of_SomeD [OF assms(2)] have "machines_at i t \<noteq> []" by auto
  ultimately obtain p m' r where r: "machines_at i t = [m']" "owners_at i t = [r]" "phase_ok p m' (live_bindings i t) (live_attempts i t)"
    "owner_ok p m' r" "mc_id m' = i" by (elim representsE) simp
  with assms(2) have [simp]: "m' = m" by (simp add: machine_of_at)
  have own: "owner_of i t = Some r" using r(2) by (simp add: owner_of_at)
  have mem: "ow \<in> set (rt_owners t) \<and> ow_machine_id ow = i \<longleftrightarrow> ow = r" for ow
    using arg_cong [OF r(2), of set] by (auto simp: owners_at_def)
  have "(\<exists>ow \<in> set (rt_owners t). ow_machine_id ow = i \<and> P ow) \<longleftrightarrow> P r" for P
    using mem [of r] by (auto dest: mem [THEN iffD1, OF conjI])
  then have conn: "machine_connected V n t m \<longleftrightarrow> bound i (mc_route_revision m) t \<and> ow_route_revision r = mc_route_revision m
      \<and> 0 < ow_connection_epoch r \<and> owner_valid V n r"
    using r(5) by (simp add: machine_connected_def list_ex_iff)
  have found: "List.find (\<lambda>x. Some (nr_incarnation_id x) = ow_owner r \<and> node_row_current V n x) (ld_nodes (te_nodes V)) \<noteq> None \<longleftrightarrow> owner_valid V n r"
    by (auto simp: owner_valid_def find_None_iff list_ex_iff)
  have valid: "0 < ow_connection_epoch r" if "owner_valid V n r"
    using that r(4) by (auto simp: owner_valid_def owner_ok_def list_ex_iff)
  have bnd: "bound i (mc_route_revision m) t" if "mc_lifecycle m = LC_Active"
    using that r(3) by (cases p) (auto simp: bound_def list_ex_iff live_bindings_def filter_eq_Cons_iff)
  have same: "ow_route_revision r = mc_route_revision m" using r(4) by (simp add: owner_ok_def)
  show ?thesis
    using conn found valid bnd same by (auto simp: machine_from_row_def joined_owner_def unowned_revision_def assms(2) own)
qed

section \<open>Witnesses\<close>

definition sample_io :: transition_io where
  "sample_io = \<lparr>ti_env = (\<lambda>_. sample_env 15), ti_others = (\<lambda>_ t. t), ti_answered = (\<lambda>_. True), ti_late = Ok 90, ti_commit = DB_Commit,
     ti_release = DB_Commit, ti_tasks = (\<lambda>g. g\<lparr>rg_handles := map (\<lambda>h. h\<lparr>th_cleanup_complete := True\<rparr>) (rg_handles g)\<rparr>),
     ti_timed_out = False, ti_cleaned = Ok 90, ti_internal = False, ti_prepared = False\<rparr>"

definition sample_host :: machine_host where
  "sample_host = \<lparr>mh_lease = sample_node, mh_tables = sample_claimed,
     mh_registry = registry_empty\<lparr>rg_tunnels := [(11, 0)], rg_handles := [tunnel_handle_new sample_route]\<rparr>,
     mh_obs = \<lparr>ob_api_authenticated = 0, ob_api_auth_rejections = 0, ob_api_mutation_overloads = 0, ob_owner_local = 0, ob_owner_remote = 0,
       ob_owner_absent = 0, ob_owner_failures = 0\<rparr>\<rparr>"

lemma sample_claimed_ok: "tables_ok sample_claimed"
  using relay_reach_ok [OF sample_claimed_reach empty_world_ok] by (simp add: world_ok_def sample_world_def)

lemma sample_resolves: "resolve_owner sample_io 11 sample_host =
    (Ok (Local sample_route), sample_host\<lparr>mh_obs := owner_local (mh_obs sample_host)\<rparr>)"
  by (simp add: resolve_owner_def resolve_def rv_check_def joined_owner_def machine_of_def owner_of_def bound_def
      sample_io_def sample_host_def sample_route_def sample_defs sample_tables Let_def)

lemma sample_begins: "\<exists>h. begin_local sample_io 11 sample_route (sample_host\<lparr>mh_obs := ob\<rparr>) = (Ok \<lparr>mt_machine_id = 11, mt_route = sample_route, mt_armed = True\<rparr>, h)
    \<and> mh_tables h = sample_claimed \<and> mh_lease h = sample_node"
  by (simp add: begin_local_def begin_machine_transition_def begin_transition_def await_machine_transition_def cleanup_completed_def close_dispatch_def
      on_handle_def registry_empty_def tunnel_handle_new_def with_registry_def sample_io_def sample_host_def sample_defs Let_def)

lemma sample_commits: "mh_tables h = sample_claimed \<Longrightarrow> mh_lease h = sample_node \<Longrightarrow>
    fst (commit_and_settle sample_io 11 LC_Disabled ''disable'' (Exact 7 sample_route) h) = Ok TC_Committed"
  by (simp add: commit_and_settle_def sr_try_def on_database_def commit_active_machine_transition_def settle_transition_commit_def transition_body_def
      sample_io_def sample_defs sample_tables sample_route_def count_where_def owner_of_def owner_matches_def cancel_issued_def Let_def)

lemma sample_transition: "fst (transition_active_machine sample_io 11 LC_Disabled ''disable'' sample_host) = Ok ()"
proof -
  from sample_begins obtain h where h: "begin_local sample_io 11 sample_route (sample_host\<lparr>mh_obs := owner_local (mh_obs sample_host)\<rparr>)
      = (Ok \<lparr>mt_machine_id = 11, mt_route = sample_route, mt_armed = True\<rparr>, h)" "mh_tables h = sample_claimed" "mh_lease h = sample_node" by blast
  have "nl_incarnation_id sample_node = 7" by (simp add: sample_node_def sample_system_def sample_lease_def)
  with h sample_commits [OF h(2,3)] show ?thesis
    by (cases "commit_and_settle sample_io 11 LC_Disabled ''disable'' (Exact 7 sample_route) h")
      (simp add: transition_active_machine_def local_transition_def sample_resolves sr_bind_def sr_gets_def finish_local_def transition_finish_def)
qed

theorem transition_answer_honest_witness:
  "revision_of 11 (mh_tables (snd (transition_active_machine sample_io 11 LC_Disabled ''disable'' sample_host))) = Some 2"
proof -
  have "uncontested sample_io 11" "exit_kept_by_tasks sample_io 11" "tables_ok (mh_tables sample_host)" "rg_owner_exits (mh_registry sample_host) 11 = None"
    by (simp_all add: uncontested_def exit_kept_by_tasks_def sample_io_def sample_host_def registry_empty_def sample_claimed_ok)
  moreover have "revision_of 11 (mh_tables sample_host) = Some 1" by (simp add: sample_host_def revision_of_def machine_of_def sample_tables)
  ultimately show ?thesis
    using transition_answer_honest [of sample_io 11 sample_host 1 LC_Disabled "''disable''" "Ok ()"] sample_transition
    by (cases "transition_active_machine sample_io 11 LC_Disabled ''disable'' sample_host") simp
qed

theorem presentation_matches_routing_witness:
  "ms_reachability (machine_from_row (sample_machine LC_Active (Some ''host'')) (machine_connected (sample_env 15) sample_node sample_claimed
     (sample_machine LC_Active (Some ''host'')))) = ''reachable''"
  using presentation_matches_routing [OF sample_claimed_ok, of 11 "sample_machine LC_Active (Some ''host'')" "sample_env 15" sample_node]
  by (simp add: machine_of_def joined_owner_def owner_of_def bound_def sample_defs sample_tables)

end
