(* ===== verification/Admission.thy ===== *)
theory Admission
  imports Owner_Route "HOL-Library.AList" "HOL-Library.Multiset"
begin

text \<open>
  The doors of the server: how many unauthenticated connections one source address may hold and start
  (\<open>service.rs\<close>: \<open>SourceAdmission\<close>), the semaphores behind it, the authentication of API requests
  (\<open>api/mod.rs\<close>: \<open>require_auth\<close>) and the upgrades of Relay and Browser connections (\<open>relay/mod.rs\<close>:
  \<open>enroll_upgrade\<close>, \<open>tunnel_upgrade\<close>; \<open>attachment.rs\<close>: \<open>upgrade\<close>, \<open>authenticate\<close>). Connections interleave freely:
  the permits they hold form a multiset beside the state of the doors.
\<close>

section \<open>Source admission\<close>

abbreviation (input) MAX_ADMISSION_SOURCES :: nat where "MAX_ADMISSION_SOURCES \<equiv> 4096"
abbreviation (input) MAX_PREAUTH_PER_SOURCE :: nat where "MAX_PREAUTH_PER_SOURCE \<equiv> 4"
abbreviation (input) MAX_PREAUTH_ATTEMPTS_PER_WINDOW :: nat where "MAX_PREAUTH_ATTEMPTS_PER_WINDOW \<equiv> 256"
abbreviation (input) ADMISSION_WINDOW :: nat where "ADMISSION_WINDOW \<equiv> 60000000000"

datatype ip_addr = V4 "32 word" | V6 "128 word"

record source_entry =
  se_active :: nat
  se_attempts :: nat
  se_expires_at :: nat

type_synonym source_entries = "(ip_addr \<times> source_entry) list"

text \<open>The clock is read and the entries are changed in one step; instants are nanoseconds.\<close>

definition retained :: "nat \<Rightarrow> source_entries \<Rightarrow> source_entries" where
  "retained now entries = filter (\<lambda>(_, entry). se_active entry \<noteq> 0 \<or> now < se_expires_at entry) entries"

definition try_acquire :: "nat \<Rightarrow> ip_addr \<Rightarrow> source_entries \<Rightarrow> bool \<times> source_entries" where
  "try_acquire now source entries0 =
     (let entries = retained now entries0 in
      if map_of entries source = None \<and> MAX_ADMISSION_SOURCES \<le> length entries then (False, entries)
      else let entry = (case map_of entries source of
                   Some entry \<Rightarrow> entry
                 | None \<Rightarrow> \<lparr>se_active = 0, se_attempts = 0, se_expires_at = now + ADMISSION_WINDOW\<rparr>);
               entry = (if se_active entry = 0 \<and> se_expires_at entry \<le> now
                   then entry\<lparr>se_attempts := 0, se_expires_at := now + ADMISSION_WINDOW\<rparr> else entry)
           in if MAX_PREAUTH_PER_SOURCE \<le> se_active entry \<or> MAX_PREAUTH_ATTEMPTS_PER_WINDOW \<le> se_attempts entry
              then (False, AList.update source entry entries)
              else (True, AList.update source (entry\<lparr>se_active := se_active entry + 1, se_attempts := se_attempts entry + 1\<rparr>) entries))"

definition drop_permit :: "ip_addr \<Rightarrow> source_entries \<Rightarrow> source_entries" where
  "drop_permit source entries = (case map_of entries source of
     Some entry \<Rightarrow> AList.update source (entry\<lparr>se_active := se_active entry - 1\<rparr>) entries
   | None \<Rightarrow> entries)"

section \<open>The doors\<close>

record doors =
  dr_sources :: source_entries
  dr_preauth :: nat
  dr_relays :: nat
  dr_attachments :: nat
  dr_mutations :: nat
  dr_lease :: node_lease
  dr_obs :: observability

definition doors_new :: "node_lease \<Rightarrow> observability \<Rightarrow> doors" where
  "doors_new n ob = \<lparr>dr_sources = [], dr_preauth = 64, dr_relays = 128, dr_attachments = 128, dr_mutations = 32, dr_lease = n, dr_obs = ob\<rparr>"

text \<open>Every door takes the permit of the source first and then one of the permits of all attempts; a permit
  that was taken is given back when its holder is dropped.\<close>

datatype preauth_refusal = PR_Source | PR_Attempts

definition preauth_enter :: "nat \<Rightarrow> ip_addr \<Rightarrow> (doors, preauth_refusal, unit) sr" where
  "preauth_enter now source d = (case try_acquire now source (dr_sources d) of
     (False, entries) \<Rightarrow> (Err PR_Source, d\<lparr>dr_sources := entries\<rparr>)
   | (True, entries) \<Rightarrow>
       if dr_preauth d = 0 then (Err PR_Attempts, d\<lparr>dr_sources := drop_permit source entries\<rparr>)
       else (Ok (), d\<lparr>dr_sources := entries, dr_preauth := dr_preauth d - 1\<rparr>))"

definition preauth_leave :: "ip_addr \<Rightarrow> doors \<Rightarrow> doors" where
  "preauth_leave source d = d\<lparr>dr_sources := drop_permit source (dr_sources d), dr_preauth := dr_preauth d + 1\<rparr>"

subsection \<open>The API\<close>

datatype http_method = M_GET | M_HEAD | M_Other

record http_request =
  hr_peer :: "ip_addr option"
  hr_authorization :: "bytes option"
  hr_method :: http_method

datatype api_answer = Forwarded http_request bool | Refused api_error

text \<open>\<open>HeaderValue::to_str\<close> accepts visible ASCII and the horizontal tab.\<close>

definition header_to_str :: "bytes \<Rightarrow> bytes option" where
  "header_to_str value = (if list_all (\<lambda>c. 32 \<le> ord c \<and> ord c < 127 \<or> ord c = 9) value then Some value else None)"

definition bearer :: "bytes option \<Rightarrow> bytes option" where
  "bearer header = Option.bind (Option.bind header header_to_str) (\<lambda>value.
     Option.bind (strip_prefix ''Bearer '' value) (\<lambda>value.
     if value \<noteq> [] \<and> \<not> chars_any char_is_whitespace value then Some value else None))"

definition require_auth_enter :: "nat \<Rightarrow> http_request \<Rightarrow> (doors, api_error, ip_addr) sr" where
  "require_auth_enter now request = (case hr_peer request of
     None \<Rightarrow> sr_throw AP_TemporarilyUnavailable
   | Some source \<Rightarrow> sr_bind (sr_map_err (\<lambda>_. AP_TemporarilyUnavailable) (preauth_enter now source)) (\<lambda>_. sr_return source))"

definition require_auth_verify :: "base64 \<Rightarrow> bytes \<Rightarrow> reading \<Rightarrow> ip_addr \<Rightarrow> http_request \<Rightarrow> doors \<Rightarrow> api_answer \<times> doors" where
  "require_auth_verify B key rd source request d =
     (case lease_check rd (dr_lease d) of (ok, n) \<Rightarrow>
      let d1 = preauth_leave source (d\<lparr>dr_lease := n\<rparr>); ob = dr_obs d in
      if \<not> is_ok ok then (Refused AP_TemporarilyUnavailable, d1)
      else let authenticated = (case bearer (hr_authorization request) of None \<Rightarrow> False | Some value \<Rightarrow> api_key_verify B key value);
               request = request\<lparr>hr_authorization := None\<rparr> in
        if \<not> authenticated
        then (Refused AP_Unauthenticated, d1\<lparr>dr_obs := ob\<lparr>ob_api_auth_rejections := ob_api_auth_rejections ob + 1\<rparr>\<rparr>)
        else let ob1 = ob\<lparr>ob_api_authenticated := ob_api_authenticated ob + 1\<rparr>; d2 = d1\<lparr>dr_obs := ob1\<rparr> in
          if hr_method request \<noteq> M_GET \<and> hr_method request \<noteq> M_HEAD
          then if dr_mutations d2 = 0
               then (Refused AP_TemporarilyUnavailable, d2\<lparr>dr_obs := ob1\<lparr>ob_api_mutation_overloads := ob_api_mutation_overloads ob1 + 1\<rparr>\<rparr>)
               else (Forwarded request True, d2\<lparr>dr_mutations := dr_mutations d2 - 1\<rparr>)
          else (Forwarded request False, d2))"

definition require_auth :: "base64 \<Rightarrow> bytes \<Rightarrow> nat \<Rightarrow> reading \<Rightarrow> http_request \<Rightarrow> doors \<Rightarrow> api_answer \<times> doors" where
  "require_auth B key now rd request d = (case require_auth_enter now request d of
     (Inl e, d1) \<Rightarrow> (Refused e, d1)
   | (Inr source, d1) \<Rightarrow> require_auth_verify B key rd source request d1)"

subsection \<open>Relay and Browser connections\<close>

datatype upgrade_answer = Upgraded | Too_Many_Requests | Service_Unavailable | Forbidden

definition refusal_status :: "preauth_refusal \<Rightarrow> upgrade_answer" where
  "refusal_status e = (case e of PR_Source \<Rightarrow> Too_Many_Requests | PR_Attempts \<Rightarrow> Service_Unavailable)"

definition relay_upgrade :: "nat \<Rightarrow> ip_addr \<Rightarrow> doors \<Rightarrow> upgrade_answer \<times> doors" where
  "relay_upgrade now source d = (case preauth_enter now source d of
     (Inl e, d1) \<Rightarrow> (refusal_status e, d1)
   | (Inr _, d1) \<Rightarrow> if dr_relays d1 = 0 then (Service_Unavailable, preauth_leave source d1)
       else (Upgraded, d1\<lparr>dr_relays := dr_relays d1 - 1\<rparr>))"

definition enroll_upgrade :: "nat \<Rightarrow> ip_addr \<Rightarrow> doors \<Rightarrow> upgrade_answer \<times> doors" where
  "enroll_upgrade = relay_upgrade"

definition tunnel_upgrade :: "nat \<Rightarrow> ip_addr \<Rightarrow> doors \<Rightarrow> upgrade_answer \<times> doors" where
  "tunnel_upgrade = relay_upgrade"

definition attachment_upgrade :: "bytes \<Rightarrow> nat \<Rightarrow> ip_addr \<Rightarrow> bytes option \<Rightarrow> doors \<Rightarrow> upgrade_answer \<times> doors" where
  "attachment_upgrade public_origin now source origin d =
     (if Option.bind origin header_to_str \<noteq> Some public_origin then (Forbidden, d)
      else (case preauth_enter now source d of
          (Inl e, d1) \<Rightarrow> (refusal_status e, d1)
        | (Inr _, d1) \<Rightarrow> (Upgraded, d1)))"

text \<open>The permit \<open>run_owner_attachment\<close> takes for an authenticated Browser connection and holds until its session
  ends; without one the connection is closed as overloaded.\<close>

definition attachment_admit :: "doors \<Rightarrow> bool \<times> doors" where
  "attachment_admit d = (if dr_attachments d = 0 then (False, d) else (True, d\<lparr>dr_attachments := dr_attachments d - 1\<rparr>))"

section \<open>Grants in a window\<close>

text \<open>A log of grants, each with the instant its entry was made and the instant of the grant. Entries of one
  source follow each other at a distance of a window at least, so a window meets at most two of them.\<close>

definition spaced :: "nat \<Rightarrow> nat \<Rightarrow> (nat \<times> nat) list \<Rightarrow> bool" where
  "spaced w cap log \<longleftrightarrow> (\<forall>(e, t) \<in> set log. e \<le> t)
     \<and> (\<forall>(e, t) \<in> set log. \<forall>(e', t') \<in> set log. e < e' \<longrightarrow> e + w \<le> e' \<and> t \<le> e')
     \<and> (\<forall>e. length (filter (\<lambda>x. fst x = e) log) \<le> cap)"

lemma spacedD:
  assumes "spaced w cap log" "(e, t) \<in> set log"
  shows "e \<le> t" "length (filter (\<lambda>x. fst x = e') log) \<le> cap" "(e', t') \<in> set log \<Longrightarrow> e < e' \<Longrightarrow> e + w \<le> e' \<and> t \<le> e'"
  using assms by (auto simp: spaced_def)

lemma length_filter_or: "length (filter (\<lambda>x. P x \<or> Q x) xs) \<le> length (filter P xs) + length (filter Q xs)"
  by (induction xs) auto

lemma length_filter_mono: "(\<And>x. x \<in> set xs \<Longrightarrow> P x \<Longrightarrow> Q x) \<Longrightarrow> length (filter P xs) \<le> length (filter Q xs)"
  by (induction xs) (simp_all add: le_SucI)

lemma spaced_window:
  assumes "spaced w cap log"
  shows "length (filter (\<lambda>(e, t). T \<le> t \<and> t < T + w) log) \<le> 2 * cap"
proof (cases "filter (\<lambda>(e, t). T \<le> t \<and> t < T + w) log = []")
  case False
  define E where "E = fst ` {x \<in> set log. T \<le> snd x \<and> snd x < T + w}"
  have E: "finite E" "E \<noteq> {}" using False by (auto simp: E_def filter_empty_conv)
  have two: "e = Min E \<or> e = Max E" if e: "e \<in> E" for e
  proof (rule ccontr)
    assume "\<not> (e = Min E \<or> e = Max E)"
    then have less: "Min E < e" "e < Max E" using E e by (simp_all add: order_le_neq_trans)
    obtain t0 t1 where t: "(Min E, t0) \<in> set log" "T \<le> t0" "(Max E, t1) \<in> set log" "t1 < T + w"
      using Min_in [OF E] Max_in [OF E] by (auto simp: E_def)
    obtain t2 where "(e, t2) \<in> set log" using e by (auto simp: E_def)
    then have "t0 \<le> e" "e + w \<le> Max E" "Max E \<le> t1"
      using spacedD(3) [OF assms t(1)] spacedD(3) [OF assms _ t(3)] spacedD(1) [OF assms t(3)] less by blast+
    with t(2,4) show False by simp
  qed
  have "length (filter (\<lambda>(e, t). T \<le> t \<and> t < T + w) log) \<le> length (filter (\<lambda>x. fst x = Min E \<or> fst x = Max E) log)"
    by (rule length_filter_mono) (use two in \<open>force simp: E_def\<close>)
  also have "\<dots> \<le> length (filter (\<lambda>x. fst x = Min E) log) + length (filter (\<lambda>x. fst x = Max E) log)"
    by (rule length_filter_or)
  also have "\<dots> \<le> 2 * cap" using assms by (auto simp: spaced_def mult_2 intro: add_mono)
  finally show ?thesis .
qed simp

text \<open>A grant at \<open>now\<close> of the entry made at \<open>e\<close> continues the log, if \<open>e\<close> is the newest entry or a window younger.\<close>

lemma spaced_Cons:
  assumes "spaced w cap log" "e \<le> now" "length (filter (\<lambda>x. fst x = e) log) < cap"
    "\<And>e' t'. (e', t') \<in> set log \<Longrightarrow> e' = e \<or> e' + w \<le> e \<and> t' \<le> e" "0 < w"
  shows "spaced w cap ((e, now) # log)"
  using assms by (fastforce simp: spaced_def)

section \<open>The entry of a source\<close>

text \<open>What holds of one source between any two operations: \<open>held\<close> is the number of its permits and \<open>log\<close> its
  grants, each with the instant its entry was made.\<close>

definition source_ok :: "nat \<Rightarrow> source_entry option \<Rightarrow> nat \<Rightarrow> (nat \<times> nat) list \<Rightarrow> bool" where
  "source_ok now entry held log \<longleftrightarrow> spaced ADMISSION_WINDOW MAX_PREAUTH_ATTEMPTS_PER_WINDOW log \<and> (\<forall>(e, t) \<in> set log. t \<le> now)
     \<and> (case entry of
         None \<Rightarrow> held = 0 \<and> (\<forall>(e, t) \<in> set log. e + ADMISSION_WINDOW \<le> now)
       | Some en \<Rightarrow> held = se_active en \<and> held \<le> MAX_PREAUTH_PER_SOURCE \<and> ADMISSION_WINDOW \<le> se_expires_at en
           \<and> se_expires_at en \<le> now + ADMISSION_WINDOW
           \<and> se_attempts en = length (filter (\<lambda>x. fst x = se_expires_at en - ADMISSION_WINDOW) log)
           \<and> (\<forall>(e, t) \<in> set log. e = se_expires_at en - ADMISSION_WINDOW
                \<or> e + ADMISSION_WINDOW \<le> se_expires_at en - ADMISSION_WINDOW \<and> t \<le> se_expires_at en - ADMISSION_WINDOW))"

lemma source_ok_later: "source_ok now entry held log \<Longrightarrow> now \<le> later \<Longrightarrow> source_ok later entry held log"
  by (cases entry) (fastforce simp: source_ok_def)+

lemma source_ok_unused: "source_ok now None 0 []"
  by (simp add: source_ok_def spaced_def)

lemma map_of_retained:
  "distinct (map fst entries) \<Longrightarrow> map_of (retained now entries) s =
     (case map_of entries s of Some e \<Rightarrow> if se_active e \<noteq> 0 \<or> now < se_expires_at e then Some e else None | None \<Rightarrow> None)"
  by (induction entries) (auto simp: retained_def map_of_eq_None_iff split: option.splits dest: map_of_SomeD)

lemma source_ok_retained:
  assumes "source_ok now (map_of entries s) held log" "distinct (map fst entries)"
  shows "source_ok now (map_of (retained now entries) s) held log"
  using assms(1) by (fastforce simp: map_of_retained [OF assms(2)] source_ok_def split: option.splits if_splits)

lemma length_update: "length (AList.update k v al) = (if map_of al k = None then length al + 1 else length al)"
  by (induction al) auto

lemma distinct_retained: "distinct (map fst entries) \<Longrightarrow> distinct (map fst (retained now entries))"
  by (simp add: retained_def distinct_map_filter)

text \<open>The branch of \<open>try_acquire\<close> that starts a new window for an idle entry is never taken: such an entry was
  dropped just before.\<close>

lemma try_acquire_cases:
  assumes "distinct (map fst entries0)" "try_acquire now source entries0 = (granted, entries')"
  defines "entries \<equiv> retained now entries0"
  shows "(\<not> granted \<and> (entries' = entries \<or> (\<exists>en. map_of entries source = Some en \<and> entries' = AList.update source en entries)))
    \<or> (granted \<and> (\<exists>en. (map_of entries source = Some en
            \<or> map_of entries source = None \<and> length entries < MAX_ADMISSION_SOURCES
              \<and> en = \<lparr>se_active = 0, se_attempts = 0, se_expires_at = now + ADMISSION_WINDOW\<rparr>)
        \<and> se_active en < MAX_PREAUTH_PER_SOURCE \<and> se_attempts en < MAX_PREAUTH_ATTEMPTS_PER_WINDOW
        \<and> entries' = AList.update source (en\<lparr>se_active := se_active en + 1, se_attempts := se_attempts en + 1\<rparr>) entries))"
proof -
  have live: "se_active en \<noteq> 0 \<or> now < se_expires_at en" if "map_of entries source = Some en" for en
    using that by (auto simp: entries_def map_of_retained [OF assms(1)] split: option.splits if_splits)
  show ?thesis
    using assms(2) live
    by (cases "map_of entries source") (auto simp: try_acquire_def Let_def simp flip: entries_def split: if_splits)
qed

definition entries_ok :: "nat \<Rightarrow> source_entries \<Rightarrow> (ip_addr \<Rightarrow> nat) \<Rightarrow> (ip_addr \<Rightarrow> (nat \<times> nat) list) \<Rightarrow> bool" where
  "entries_ok now entries held log \<longleftrightarrow> distinct (map fst entries) \<and> length entries \<le> MAX_ADMISSION_SOURCES
     \<and> (\<forall>s. source_ok now (map_of entries s) (held s) (log s))"

lemma length_retained: "length (retained now entries) \<le> length entries"
  by (simp add: retained_def)

lemma entries_ok_retained: "entries_ok now entries held log \<Longrightarrow> entries_ok now (retained now entries) held log"
  by (auto simp: entries_ok_def distinct_retained source_ok_retained intro: le_trans [OF length_retained])

lemma entries_ok_later: "entries_ok now entries held log \<Longrightarrow> now \<le> later \<Longrightarrow> entries_ok later entries held log"
  by (auto simp: entries_ok_def intro: source_ok_later)

lemma entries_ok_update:
  assumes "entries_ok now entries held log" "map_of entries s = None \<longrightarrow> length entries < MAX_ADMISSION_SOURCES"
    "source_ok now (Some en) h l"
  shows "entries_ok now (AList.update s en entries) (held(s := h)) (log(s := l))"
  using assms by (auto simp: entries_ok_def length_update distinct_update update_conv')

lemma source_ok_granted:
  assumes "source_ok now entry held log" "entry = Some en \<or> entry = None \<and> en = \<lparr>se_active = 0, se_attempts = 0, se_expires_at = now + ADMISSION_WINDOW\<rparr>"
    "se_active en < MAX_PREAUTH_PER_SOURCE" "se_attempts en < MAX_PREAUTH_ATTEMPTS_PER_WINDOW"
  shows "source_ok now (Some (en\<lparr>se_active := se_active en + 1, se_attempts := se_attempts en + 1\<rparr>)) (held + 1)
    ((se_expires_at en - ADMISSION_WINDOW, now) # log)"
proof -
  let ?e = "se_expires_at en - ADMISSION_WINDOW"
  have new: "e = ?e \<or> e + ADMISSION_WINDOW \<le> ?e \<and> t \<le> ?e" "t \<le> now" if "(e, t) \<in> set log" for e t
    using assms(1,2) that by (auto simp: source_ok_def)
  have none: "filter (\<lambda>x. fst x = ?e) log = []" if "entry = None"
    using assms(1,2) that by (fastforce simp: source_ok_def filter_empty_conv)
  have att: "se_attempts en = length (filter (\<lambda>x. fst x = ?e) log)"
    using assms(1,2) none by (auto simp: source_ok_def)
  have "spaced ADMISSION_WINDOW MAX_PREAUTH_ATTEMPTS_PER_WINDOW ((?e, now) # log)"
  proof (rule spaced_Cons)
    show "?e \<le> now" using assms(1,2) by (auto simp: source_ok_def)
  qed (use assms(1,4) att new in \<open>auto simp: source_ok_def\<close>)
  then show ?thesis using assms att new by (auto simp: source_ok_def)
qed

lemma try_acquire_ok:
  assumes "entries_ok now entries held log" "try_acquire now source entries = (granted, entries')"
  shows "if granted then \<exists>en. map_of entries' source = Some en
      \<and> entries_ok now entries' (held(source := held source + 1))
          (log(source := (se_expires_at en - ADMISSION_WINDOW, now) # log source))
    else entries_ok now entries' held log"
proof -
  let ?es = "retained now entries"
  have ok: "entries_ok now ?es held log" using assms(1) by (rule entries_ok_retained)
  then have at: "source_ok now (map_of ?es source) (held source) (log source)" by (simp add: entries_ok_def)
  from assms(1) have "distinct (map fst entries)" by (simp add: entries_ok_def)
  from try_acquire_cases [OF this assms(2)] show ?thesis
  proof (elim disjE conjE exE)
    fix en assume "\<not> granted" "map_of ?es source = Some en" "entries' = AList.update source en ?es"
    with ok show ?thesis by (simp add: update_triv)
  next
    fix en assume en: "granted" "se_active en < MAX_PREAUTH_PER_SOURCE" "se_attempts en < MAX_PREAUTH_ATTEMPTS_PER_WINDOW"
      "entries' = AList.update source (en\<lparr>se_active := se_active en + 1, se_attempts := se_attempts en + 1\<rparr>) ?es" "map_of ?es source = Some en"
    with entries_ok_update [OF ok _ source_ok_granted [OF at]] show ?thesis by (simp add: update_conv')
  next
    fix en assume en: "granted" "se_active en < MAX_PREAUTH_PER_SOURCE" "se_attempts en < MAX_PREAUTH_ATTEMPTS_PER_WINDOW"
      "entries' = AList.update source (en\<lparr>se_active := se_active en + 1, se_attempts := se_attempts en + 1\<rparr>) ?es" "map_of ?es source = None"
      "length ?es < MAX_ADMISSION_SOURCES" "en = \<lparr>se_active = 0, se_attempts = 0, se_expires_at = now + ADMISSION_WINDOW\<rparr>"
    with entries_ok_update [OF ok _ source_ok_granted [OF at, of en]] show ?thesis by (simp add: update_conv')
  qed (use ok in simp)
qed

lemma drop_permit_ok:
  assumes "entries_ok now entries held log" "0 < held source"
  shows "entries_ok now (drop_permit source entries) (held(source := held source - 1)) log"
proof -
  from assms have at: "source_ok now (map_of entries source) (held source) (log source)" by (simp add: entries_ok_def)
  with assms(2) obtain en where en: "map_of entries source = Some en" by (cases "map_of entries source") (auto simp: source_ok_def)
  then have "source_ok now (Some (en\<lparr>se_active := se_active en - 1\<rparr>)) (held source - 1) (log source)"
    using at by (auto simp: source_ok_def)
  from entries_ok_update [OF assms(1) _ this, of source] en show ?thesis by (simp add: drop_permit_def)
qed

section \<open>Connections at the doors\<close>

text \<open>A permit in use: of a connection that has not authenticated yet, of an API request whose key is being
  checked, of a Relay connection, of an authenticated Browser attachment on this node, and of a mutation in
  progress.\<close>

datatype ticket = T_Preauth ip_addr | T_Api ip_addr http_request | T_Relay | T_Attachment | T_Mutation

fun preauth_source :: "ticket \<Rightarrow> ip_addr option" where
  "preauth_source (T_Preauth s) = Some s"
| "preauth_source (T_Api s _) = Some s"
| "preauth_source _ = None"

record door_world =
  dw_doors :: doors
  dw_held :: "ticket multiset"
  dw_log :: "(ip_addr \<times> nat \<times> nat) list"
  dw_now :: nat

definition held_by :: "ip_addr \<Rightarrow> ticket multiset \<Rightarrow> nat" where
  "held_by s held = size (filter_mset (\<lambda>t. preauth_source t = Some s) held)"

definition grants_of :: "ip_addr \<Rightarrow> (ip_addr \<times> nat \<times> nat) list \<Rightarrow> (nat \<times> nat) list" where
  "grants_of s log = map snd (filter (\<lambda>x. fst x = s) log)"

definition logged :: "nat \<Rightarrow> ip_addr \<Rightarrow> doors \<Rightarrow> (ip_addr \<times> nat \<times> nat) list \<Rightarrow> (ip_addr \<times> nat \<times> nat) list" where
  "logged now source d log = (case try_acquire now source (dr_sources d) of
     (False, _) \<Rightarrow> log
   | (True, entries) \<Rightarrow> (source, (case map_of entries source of Some en \<Rightarrow> se_expires_at en - ADMISSION_WINDOW | None \<Rightarrow> now), now) # log)"

text \<open>The steps of all connections, in any order: \<open>now\<close> never decreases.\<close>

inductive door_step :: "base64 \<Rightarrow> bytes \<Rightarrow> bytes \<Rightarrow> door_world \<Rightarrow> door_world \<Rightarrow> bool" for B key public_origin where
  ds_api_enter: "dw_now w \<le> now \<Longrightarrow> require_auth_enter now request (dw_doors w) = (Ok source, d) \<Longrightarrow>
     door_step B key public_origin w
       (w\<lparr>dw_doors := d, dw_now := now, dw_log := logged now source (dw_doors w) (dw_log w), dw_held := add_mset (T_Api source request) (dw_held w)\<rparr>)"
| ds_api_refused: "dw_now w \<le> now \<Longrightarrow> hr_peer request = Some source \<Longrightarrow> require_auth_enter now request (dw_doors w) = (Err e, d) \<Longrightarrow>
     door_step B key public_origin w (w\<lparr>dw_doors := d, dw_now := now, dw_log := logged now source (dw_doors w) (dw_log w)\<rparr>)"
| ds_api_verify: "T_Api source request \<in># dw_held w \<Longrightarrow> require_auth_verify B key rd source request (dw_doors w) = (answer, d) \<Longrightarrow>
     held = dw_held w - {#T_Api source request#} \<Longrightarrow>
     door_step B key public_origin w
       (w\<lparr>dw_doors := d, dw_held := (case answer of Forwarded _ True \<Rightarrow> add_mset T_Mutation held | _ \<Rightarrow> held)\<rparr>)"
| ds_relay: "dw_now w \<le> now \<Longrightarrow> relay_upgrade now source (dw_doors w) = (answer, d) \<Longrightarrow>
     door_step B key public_origin w (w\<lparr>dw_doors := d, dw_now := now, dw_log := logged now source (dw_doors w) (dw_log w),
       dw_held := (if answer = Upgraded then {#T_Preauth source, T_Relay#} + dw_held w else dw_held w)\<rparr>)"
| ds_attachment: "dw_now w \<le> now \<Longrightarrow> attachment_upgrade public_origin now source origin (dw_doors w) = (answer, d) \<Longrightarrow>
     door_step B key public_origin w (w\<lparr>dw_doors := d, dw_now := now,
       dw_log := (if answer = Forbidden then dw_log w else logged now source (dw_doors w) (dw_log w)),
       dw_held := (if answer = Upgraded then add_mset (T_Preauth source) (dw_held w) else dw_held w)\<rparr>)"
| ds_leave: "T_Preauth source \<in># dw_held w \<Longrightarrow>
     door_step B key public_origin w (w\<lparr>dw_doors := preauth_leave source (dw_doors w), dw_held := dw_held w - {#T_Preauth source#}\<rparr>)"
| ds_attached: "attachment_admit (dw_doors w) = (admitted, d) \<Longrightarrow>
     door_step B key public_origin w (w\<lparr>dw_doors := d, dw_held := (if admitted then add_mset T_Attachment (dw_held w) else dw_held w)\<rparr>)"
| ds_attachment_end: "T_Attachment \<in># dw_held w \<Longrightarrow> d = (dw_doors w)\<lparr>dr_attachments := dr_attachments (dw_doors w) + 1\<rparr> \<Longrightarrow>
     door_step B key public_origin w (w\<lparr>dw_doors := d, dw_held := dw_held w - {#T_Attachment#}\<rparr>)"
| ds_relay_end: "T_Relay \<in># dw_held w \<Longrightarrow> d = (dw_doors w)\<lparr>dr_relays := dr_relays (dw_doors w) + 1\<rparr> \<Longrightarrow>
     door_step B key public_origin w (w\<lparr>dw_doors := d, dw_held := dw_held w - {#T_Relay#}\<rparr>)"
| ds_mutation_end: "T_Mutation \<in># dw_held w \<Longrightarrow> d = (dw_doors w)\<lparr>dr_mutations := dr_mutations (dw_doors w) + 1\<rparr> \<Longrightarrow>
     door_step B key public_origin w (w\<lparr>dw_doors := d, dw_held := dw_held w - {#T_Mutation#}\<rparr>)"

inductive door_reach :: "base64 \<Rightarrow> bytes \<Rightarrow> bytes \<Rightarrow> door_world \<Rightarrow> door_world \<Rightarrow> bool" for B key public_origin w0 where
  dr_start: "door_reach B key public_origin w0 w0"
| dr_step: "door_reach B key public_origin w0 w \<Longrightarrow> door_step B key public_origin w w' \<Longrightarrow> door_reach B key public_origin w0 w'"

lemma preauth_enter_ok:
  assumes "entries_ok now (dr_sources d) held (\<lambda>s. grants_of s log)" "preauth_enter now source d = (r, d')"
  shows "entries_ok now (dr_sources d') (if is_ok r then held(source := held source + 1) else held) (\<lambda>s. grants_of s (logged now source d log))"
    "dr_preauth d = (if is_ok r then dr_preauth d' + 1 else dr_preauth d')" "dr_relays d' = dr_relays d" "dr_attachments d' = dr_attachments d" "dr_mutations d' = dr_mutations d"
proof -
  obtain granted entries where t: "try_acquire now source (dr_sources d) = (granted, entries)" by fastforce
  note ok = try_acquire_ok [OF assms(1) t]
  have log: "(\<lambda>s. grants_of s ((source, x) # log)) = (\<lambda>s. grants_of s log)(source := x # grants_of source log)" for x
    by (auto simp: grants_of_def)
  have "entries_ok now (dr_sources d') (if is_ok r then held(source := held source + 1) else held) (\<lambda>s. grants_of s (logged now source d log))
    \<and> dr_preauth d = (if is_ok r then dr_preauth d' + 1 else dr_preauth d') \<and> dr_relays d' = dr_relays d \<and> dr_attachments d' = dr_attachments d \<and> dr_mutations d' = dr_mutations d"
  proof (cases granted)
    case True
    with ok obtain en where en: "map_of entries source = Some en" "entries_ok now entries (held(source := held source + 1))
        (\<lambda>s. grants_of s (logged now source d log))" by (auto simp: logged_def t log)
    from drop_permit_ok [OF en(2), of source] en(2) assms(2) True show ?thesis
      by (auto simp: preauth_enter_def t split: if_splits)
  next
    case False
    with ok assms(2) show ?thesis by (auto simp: preauth_enter_def logged_def t)
  qed
  then show "entries_ok now (dr_sources d') (if is_ok r then held(source := held source + 1) else held) (\<lambda>s. grants_of s (logged now source d log))"
    "dr_preauth d = (if is_ok r then dr_preauth d' + 1 else dr_preauth d')" "dr_relays d' = dr_relays d" "dr_attachments d' = dr_attachments d" "dr_mutations d' = dr_mutations d"
    by blast+
qed

lemma held_by_add: "(\<lambda>s. held_by s (add_mset t held)) =
    (case preauth_source t of None \<Rightarrow> \<lambda>s. held_by s held | Some source \<Rightarrow> (\<lambda>s. held_by s held)(source := held_by source held + 1))"
  by (auto simp: held_by_def split: option.split)

definition preauths :: "ticket multiset \<Rightarrow> nat" where
  "preauths held = size (filter_mset (\<lambda>t. preauth_source t \<noteq> None) held)"

lemma preauths_add [simp]: "preauths (add_mset t held) = (if preauth_source t = None then preauths held else preauths held + 1)"
  by (simp add: preauths_def)

text \<open>The count of the doors, for given permits: the form in which the steps use the invariant.\<close>

definition counted :: "nat \<Rightarrow> doors \<Rightarrow> ticket multiset \<Rightarrow> (ip_addr \<times> nat \<times> nat) list \<Rightarrow> bool" where
  "counted now d held log \<longleftrightarrow> entries_ok now (dr_sources d) (\<lambda>s. held_by s held) (\<lambda>s. grants_of s log)
     \<and> dr_preauth d + preauths held = 64 \<and> dr_relays d + count held T_Relay = 128
     \<and> dr_attachments d + count held T_Attachment = 128 \<and> dr_mutations d + count held T_Mutation = 32"

lemma counted_later: "counted now d held log \<Longrightarrow> now \<le> later \<Longrightarrow> counted later d held log"
  by (auto simp: counted_def intro: entries_ok_later)

lemma counted_enter:
  assumes "counted now d held log" "preauth_enter now source d = (r, d')" "preauth_source t = Some source"
  shows "counted now d' (if is_ok r then add_mset t held else held) (logged now source d log)"
  using preauth_enter_ok [OF _ assms(2), of _ log] assms(1,3)
  by (auto simp: counted_def held_by_add split: if_splits)

lemma counted_leave:
  assumes "counted now d (add_mset t held) log" "preauth_source t = Some source"
  shows "counted now (preauth_leave source d) held log"
proof -
  have "t \<noteq> T_Relay" "t \<noteq> T_Attachment" "t \<noteq> T_Mutation" "held_by source (add_mset t held) = held_by source held + 1" using assms(2) by (auto simp: held_by_def)
  with assms drop_permit_ok [of now "dr_sources d" "\<lambda>s. held_by s (add_mset t held)" "\<lambda>s. grants_of s log" source] show ?thesis
    by (auto simp: counted_def held_by_add preauth_leave_def fun_upd_idem)
qed

lemma counted_relay:
  "counted now d held log \<Longrightarrow> 0 < dr_relays d \<Longrightarrow> counted now (d\<lparr>dr_relays := dr_relays d - 1\<rparr>) (add_mset T_Relay held) log"
  by (auto simp: counted_def held_by_add)

lemma require_auth_enter_ok: "require_auth_enter now request d = (Ok source, d') \<longleftrightarrow> hr_peer request = Some source \<and> preauth_enter now source d = (Ok (), d')"
  by (auto simp: require_auth_enter_def sr_map_err_def sr_defs res_simps split: option.splits sum.splits prod.splits)

lemma require_auth_enter_refused:
  "hr_peer request = Some source \<Longrightarrow> require_auth_enter now request d = (Err e, d') \<Longrightarrow> \<exists>r. preauth_enter now source d = (Err r, d')"
  by (auto simp: require_auth_enter_def sr_map_err_def sr_defs map_err_def split: sum.splits prod.splits)

lemma counted_verify:
  assumes "counted now d (add_mset (T_Api source request) held) log" "require_auth_verify B key rd source request d = (answer, d')"
  shows "counted now d' (case answer of Forwarded _ True \<Rightarrow> add_mset T_Mutation held | _ \<Rightarrow> held) log"
proof -
  obtain ok n where n: "lease_check rd (dr_lease d) = (ok, n)" by fastforce
  have "counted now (d\<lparr>dr_lease := n\<rparr>) (add_mset (T_Api source request) held) log" using assms(1) by (simp add: counted_def)
  from counted_leave [OF this] have "counted now (preauth_leave source (d\<lparr>dr_lease := n\<rparr>)) held log" by simp
  with assms(2) show ?thesis
    by (auto simp: require_auth_verify_def n Let_def counted_def held_by_add preauth_leave_def split: if_splits)
qed

lemma counted_step:
  assumes "door_step B key public_origin w w'" "counted (dw_now w) (dw_doors w) (dw_held w) (dw_log w)"
  shows "counted (dw_now w') (dw_doors w') (dw_held w') (dw_log w')"
  using assms
proof (cases rule: door_step.cases)
  case (ds_api_enter now request source d)
  with counted_enter [OF counted_later [OF assms(2)], of now source "Ok ()" d "T_Api source request"] show ?thesis
    by (simp add: require_auth_enter_ok)
next
  case (ds_api_refused now request source e d)
  then obtain r where "preauth_enter now source (dw_doors w) = (Err r, d)" using require_auth_enter_refused by blast
  from counted_enter [OF counted_later [OF assms(2)] this, of "T_Preauth source"] ds_api_refused show ?thesis by simp
next
  case (ds_api_verify source request rd answer d held)
  with counted_verify [of "dw_now w" "dw_doors w" source request held "dw_log w"] assms(2) show ?thesis by simp
next
  case (ds_relay now source answer d)
  obtain r d1 where e: "preauth_enter now source (dw_doors w) = (r, d1)" by fastforce
  from counted_enter [OF counted_later [OF assms(2) ds_relay(2)] e, of "T_Preauth source"]
  have c: "counted now d1 (if is_ok r then add_mset (T_Preauth source) (dw_held w) else dw_held w) (logged now source (dw_doors w) (dw_log w))"
    by simp
  show ?thesis
  proof (cases r)
    case (Inl a)
    with c ds_relay(1,3) show ?thesis by (cases a) (simp_all add: relay_upgrade_def e refusal_status_def)
  next
    case (Inr u)
    with c counted_leave [of now d1 "T_Preauth source" "dw_held w" _ source] counted_relay [of now d1 "add_mset (T_Preauth source) (dw_held w)"] ds_relay(1,3)
    show ?thesis by (simp add: relay_upgrade_def e add_mset_commute split: if_splits)
  qed
next
  case (ds_attachment now source origin answer d)
  obtain r d1 where e: "preauth_enter now source (dw_doors w) = (r, d1)" by fastforce
  from counted_enter [OF counted_later [OF assms(2) ds_attachment(2)] e, of "T_Preauth source"] counted_later [OF assms(2) ds_attachment(2)] ds_attachment(1,3)
  show ?thesis by (cases r) (auto simp: attachment_upgrade_def e refusal_status_def split: preauth_refusal.splits if_splits)
next
  case (ds_leave source)
  with counted_leave [of "dw_now w" "dw_doors w" "T_Preauth source" "dw_held w - {#T_Preauth source#}"] assms(2) show ?thesis by simp
next
  case (ds_attached admitted d)
  with assms(2) show ?thesis by (auto simp: attachment_admit_def counted_def held_by_add split: if_splits)
next
  case (ds_attachment_end d)
  then obtain held where "dw_held w = add_mset T_Attachment held" by (metis insert_DiffM)
  with ds_attachment_end assms(2) show ?thesis by (simp add: counted_def held_by_add)
next
  case (ds_relay_end d)
  then obtain held where "dw_held w = add_mset T_Relay held" by (metis insert_DiffM)
  with ds_relay_end assms(2) show ?thesis by (simp add: counted_def held_by_add)
next
  case (ds_mutation_end d)
  then obtain held where "dw_held w = add_mset T_Mutation held" by (metis insert_DiffM)
  with ds_mutation_end assms(2) show ?thesis by (simp add: counted_def held_by_add)
qed

definition door_start :: "node_lease \<Rightarrow> observability \<Rightarrow> door_world" where
  "door_start n ob = \<lparr>dw_doors = doors_new n ob, dw_held = {#}, dw_log = [], dw_now = 0\<rparr>"

lemma counted_reach:
  assumes "door_reach B key public_origin (door_start n ob) w"
  shows "counted (dw_now w) (dw_doors w) (dw_held w) (dw_log w)"
  using assms
proof induction
  case dr_start
  show ?case by (simp add: door_start_def doors_new_def counted_def entries_ok_def held_by_def grants_of_def source_ok_unused preauths_def)
qed (rule counted_step)

section \<open>The key of the API\<close>

text \<open>The alphabet of base64url.\<close>

definition base64url_char :: "char \<Rightarrow> bool" where
  "base64url_char c \<longleftrightarrow> is_ascii_alphabetic c \<or> is_ascii_digit c \<or> c = CHR ''-'' \<or> c = CHR ''_''"

lemma no_whitespace: "list_all (\<lambda>c. 32 < ord c \<and> ord c < 127) s \<Longrightarrow> \<not> chars_any char_is_whitespace s"
  by (induction s) (auto simp: chars_any_def utf8_chars_ascii char_is_whitespace_def split: option.splits)

lemma base64url_visible: "base64url_char c \<Longrightarrow> 32 < ord c \<and> ord c < 127"
  by (auto simp: base64url_char_def is_ascii_alphabetic_def is_ascii_digit_def)

lemma bearer_accepts:
  assumes "base64_ok B" "length key = 32" "list_all base64url_char (b64_encode B key)"
  shows "(case bearer header of None \<Rightarrow> False | Some value \<Rightarrow> api_key_verify B key value)
    \<longleftrightarrow> header = Some (''Bearer '' @ API_KEY_PREFIX @ b64_encode B key)"
proof -
  let ?key = "API_KEY_PREFIX @ b64_encode B key"
  have visible: "32 < ord c \<and> ord c < 127" if "c \<in> set (b64_encode B key)" for c
    using assms(3) base64url_visible that by (simp add: list_all_iff)
  then have "header_to_str (''Bearer '' @ ?key) = Some (''Bearer '' @ ?key)"
    by (auto simp: header_to_str_def list_all_iff intro: less_imp_le)
  moreover have "\<not> chars_any char_is_whitespace ?key"
    by (rule no_whitespace) (use visible in \<open>simp add: list_all_iff\<close>)
  ultimately have "bearer (Some (''Bearer '' @ ?key)) = Some ?key" by (simp add: bearer_def del: append.simps(2))
  moreover have "header = Some (''Bearer '' @ v)" if "bearer header = Some v" for v
    using that by (auto simp: bearer_def header_to_str_def strip_prefix_Some_iff bind_eq_Some_conv split: if_splits)
  ultimately show ?thesis
    by (auto simp: api_key_spelling [OF assms(1,2)] split: option.splits)
qed

section \<open>Properties\<close>

text \<open>C14. However connections come and go, the doors keep their bounds and lose no permit: an address holds at
  most 4 permits of connections that have not authenticated yet, all addresses together at most 64, and at
  most 4096 addresses are remembered; the node serves at most 128 Relay connections, 128 authenticated
  Browser attachments and 32 mutations, whatever addresses they come from; and every permit that is not held
  is available.\<close>

theorem doors_stay_bounded:
  assumes "door_reach B key public_origin (door_start n ob) w"
  shows "held_by s (dw_held w) \<le> MAX_PREAUTH_PER_SOURCE \<and> length (dr_sources (dw_doors w)) \<le> MAX_ADMISSION_SOURCES
    \<and> dr_preauth (dw_doors w) + preauths (dw_held w) = 64 \<and> dr_relays (dw_doors w) + count (dw_held w) T_Relay = 128
    \<and> dr_attachments (dw_doors w) + count (dw_held w) T_Attachment = 128
    \<and> dr_mutations (dw_doors w) + count (dw_held w) T_Mutation = 32"
  using counted_reach [OF assms] by (auto simp: counted_def entries_ok_def source_ok_def split: option.splits dest: spec [of _ s])

text \<open>No address is granted more than twice the limit of a window within any minute, wherever the minute
  starts: at most two entries of an address meet it.\<close>

lemma source_attempt_rate:
  assumes "door_reach B key public_origin (door_start n ob) w"
  shows "length (filter (\<lambda>(source, _, t). source = s \<and> T \<le> t \<and> t < T + ADMISSION_WINDOW) (dw_log w)) \<le> 2 * MAX_PREAUTH_ATTEMPTS_PER_WINDOW"
proof -
  have "spaced ADMISSION_WINDOW MAX_PREAUTH_ATTEMPTS_PER_WINDOW (grants_of s (dw_log w))"
    using counted_reach [OF assms] by (auto simp: counted_def entries_ok_def source_ok_def)
  from spaced_window [OF this, of T] show ?thesis
    by (simp add: grants_of_def filter_map filter_filter o_def split_def conj_commute conj_left_commute)
qed

text \<open>A source has room: it is known with fewer than 4 permits in use and fewer than 256 grants in its window, or
  not known while fewer than 4096 addresses are; and one of the 64 permits of all sources is left.\<close>

definition has_room :: "nat \<Rightarrow> ip_addr \<Rightarrow> doors \<Rightarrow> bool" where
  "has_room now source d \<longleftrightarrow> 0 < dr_preauth d
     \<and> (let known = filter (\<lambda>(_, en). se_active en \<noteq> 0 \<or> now < se_expires_at en) (dr_sources d) in
        case map_of known source of
          None \<Rightarrow> length known < 4096
        | Some en \<Rightarrow> se_active en < 4 \<and> se_attempts en < 256)"

lemma preauth_enter_room:
  assumes "preauth_enter now source d = (r, d')"
  shows "is_ok r \<longleftrightarrow> has_room now source d" "is_ok r \<Longrightarrow> dr_lease d' = dr_lease d \<and> dr_mutations d' = dr_mutations d"
proof -
  define known where "known = retained now (dr_sources d)"
  then have k: "filter (\<lambda>(_, en). se_active en \<noteq> 0 \<or> now < se_expires_at en) (dr_sources d) = known" by (simp add: retained_def)
  have live: "se_active en \<noteq> 0 \<or> now < se_expires_at en" if "map_of known source = Some en" for en
    using map_of_SomeD [OF that] by (auto simp: known_def retained_def)
  have "fst (try_acquire now source (dr_sources d)) \<longleftrightarrow>
      (case map_of known source of None \<Rightarrow> length known < 4096 | Some en \<Rightarrow> se_active en < 4 \<and> se_attempts en < 256)"
    using live by (cases "map_of known source") (auto simp: try_acquire_def Let_def simp flip: known_def)
  then have room: "has_room now source d \<longleftrightarrow> 0 < dr_preauth d \<and> fst (try_acquire now source (dr_sources d))"
    unfolding has_room_def k Let_def by simp
  obtain granted entries where t: "try_acquire now source (dr_sources d) = (granted, entries)" by fastforce
  from assms show "is_ok r \<longleftrightarrow> has_room now source d"
    unfolding room by (cases granted) (auto simp: preauth_enter_def t split: if_splits)
  show "is_ok r \<Longrightarrow> dr_lease d' = dr_lease d \<and> dr_mutations d' = dr_mutations d"
    using assms by (auto simp: preauth_enter_def split: prod.splits bool.splits if_splits)
qed

text \<open>C15. What \<open>require_auth\<close> answers is decided exactly: it forwards a request if and only if the peer address is
  known, the source and the doors have room, the node's lease check passes, the request carries the one
  spelling of the API key, and, for anything but GET and HEAD, a mutation permit is left; it forwards it
  without the key. A missing or wrong key is answered as unauthenticated, everything else as temporarily
  unavailable.\<close>

theorem api_door_exact:
  assumes "base64_ok B" "length key = 32" "list_all base64url_char (b64_encode B key)"
  shows "fst (require_auth B key now rd request d) =
    (if hr_peer request = None \<or> \<not> has_room now (the (hr_peer request)) d then Refused AP_TemporarilyUnavailable
     else if \<not> is_ok (fst (lease_check rd (dr_lease d))) then Refused AP_TemporarilyUnavailable
     else if hr_authorization request \<noteq> Some (''Bearer '' @ API_KEY_PREFIX @ b64_encode B key) then Refused AP_Unauthenticated
     else if hr_method request \<in> {M_GET, M_HEAD} then Forwarded (request\<lparr>hr_authorization := None\<rparr>) False
     else if dr_mutations d = 0 then Refused AP_TemporarilyUnavailable
     else Forwarded (request\<lparr>hr_authorization := None\<rparr>) True)"
proof (cases "hr_peer request")
  case None
  then show ?thesis by (simp add: require_auth_def require_auth_enter_def sr_throw_def)
next
  case (Some source)
  obtain r d1 where e: "preauth_enter now source d = (r, d1)" by fastforce
  note room = preauth_enter_room [OF e]
  show ?thesis
  proof (cases r)
    case (Inl x)
    with room(1) Some e show ?thesis
      by (simp add: require_auth_def require_auth_enter_def sr_map_err_def sr_defs)
  next
    case (Inr u)
    with room have d1: "has_room now source d" "dr_lease d1 = dr_lease d" "dr_mutations d1 = dr_mutations d" by simp_all
    from Inr Some e have enter: "require_auth_enter now request d = (Ok source, d1)"
      by (simp add: require_auth_enter_def sr_map_err_def sr_defs)
    obtain ok n where n: "lease_check rd (dr_lease d) = (ok, n)" by fastforce
    show ?thesis
      using d1 n Some by (auto simp: require_auth_def enter require_auth_verify_def bearer_accepts [OF assms] preauth_leave_def Let_def)
  qed
qed

section \<open>Witnesses\<close>

definition sample_base64url :: base64 where
  "sample_base64url = \<lparr>b64_encode = (\<lambda>x. if length x = 32 then x @ replicate 11 CHR ''A'' else x @ x),
     b64_decode = (\<lambda>y. Some (if length y = 43 then take 32 y else take (length y div 2) y))\<rparr>"

lemma sample_base64url_ok: "base64_ok sample_base64url"
proof -
  have "2 * m \<noteq> (43 :: nat)" for m by presburger
  then show ?thesis by (auto simp: base64_ok_def sample_base64url_def mult_2 [symmetric])
qed

definition sample_key :: bytes where "sample_key = replicate 32 CHR ''k''"

definition sample_request :: http_request where
  "sample_request = \<lparr>hr_peer = Some (V4 1), hr_authorization = Some (''Bearer '' @ API_KEY_PREFIX @ b64_encode sample_base64url sample_key), hr_method = M_Other\<rparr>"

definition sample_doors :: doors where
  "sample_doors = (doors_new sample_node (mh_obs sample_host))\<lparr>dr_preauth := 63,
     dr_sources := [(V4 1, \<lparr>se_active = 1, se_attempts = 1, se_expires_at = 60000000090\<rparr>)]\<rparr>"

lemma sample_enters: "require_auth_enter 90 sample_request (doors_new sample_node (mh_obs sample_host)) = (Ok (V4 1), sample_doors)"
  by (simp add: require_auth_enter_def preauth_enter_def try_acquire_def retained_def sample_request_def sample_doors_def doors_new_def sr_map_err_def sr_defs)

lemma sample_door_reach:
  "door_reach sample_base64url sample_key ''o'' (door_start sample_node (mh_obs sample_host))
     \<lparr>dw_doors = sample_doors, dw_held = {#T_Api (V4 1) sample_request#}, dw_log = [(V4 1, 90, 90)], dw_now = 90\<rparr>"
  using dr_step [OF dr_start ds_api_enter [of "door_start sample_node (mh_obs sample_host)" 90 sample_request "V4 1" sample_doors sample_base64url sample_key "''o''"]]
    sample_enters
  by (simp add: door_start_def logged_def try_acquire_def retained_def doors_new_def)

theorem doors_stay_bounded_witness: "held_by (V4 1) {#T_Api (V4 1) sample_request#} \<le> MAX_PREAUTH_PER_SOURCE"
  using doors_stay_bounded [OF sample_door_reach, of "V4 1"] by simp

theorem source_attempt_rate_witness:
  "length (filter (\<lambda>(source, _, t). source = V4 1 \<and> 90 \<le> t \<and> t < 90 + ADMISSION_WINDOW) [(V4 1, 90, 90)]) \<le> 2 * MAX_PREAUTH_ATTEMPTS_PER_WINDOW"
  using source_attempt_rate [OF sample_door_reach, of "V4 1" 90] by simp

lemma sample_lease_ok: "\<exists>n. lease_check (Ok 90) sample_node = (Ok (), n)"
  by (simp add: sample_defs lease_check_def)

theorem api_door_exact_witness:
  "fst (require_auth sample_base64url sample_key 90 (Ok 90) sample_request (doors_new sample_node (mh_obs sample_host)))
     = Forwarded (sample_request\<lparr>hr_authorization := None\<rparr>) True"
proof -
  have "list_all base64url_char (b64_encode sample_base64url sample_key)"
    by (simp add: list_all_iff sample_base64url_def sample_key_def base64url_char_def is_ascii_alphabetic_def)
  moreover have "is_ok (fst (lease_check (Ok 90) (dr_lease (doors_new sample_node (mh_obs sample_host)))))"
    using sample_lease_ok by (auto simp: doors_new_def)
  ultimately show ?thesis
    using api_door_exact [OF sample_base64url_ok, of sample_key 90 "Ok 90" sample_request "doors_new sample_node (mh_obs sample_host)"]
    by (simp add: sample_key_def sample_request_def doors_new_def has_room_def)
qed

end
