(* ===== verification/Cluster.thy ===== *)
theory Cluster
  imports Owner_Route
begin

text \<open>
  The channel between two nodes of a cluster: the byte strings that are authenticated with the cluster key
  (\<open>cluster.rs\<close>), the handshake in which a node proves to the owner of a machine for which route it asks
  (\<open>internal.rs\<close>: \<open>connect_authenticated\<close>, \<open>accept_owner_connection\<close>), and the invalidation of a machine on
  its owner (\<open>handle_invalidation\<close>). HMAC-SHA256, base64, the JSON text of a message and the parts of a URL
  come from libraries and are parameters.
\<close>

section \<open>Transcripts\<close>

abbreviation (input) INTERNAL_CONTRACT_VERSION :: bytes where "INTERNAL_CONTRACT_VERSION \<equiv> ''owner.v1''"
abbreviation (input) INTERNAL_CONFIGURATION_VERSION :: bytes where "INTERNAL_CONFIGURATION_VERSION \<equiv> ''configuration.v1''"
abbreviation (input) INTERNAL_PATH :: bytes where "INTERNAL_PATH \<equiv> ''/internal/v1/owner''"
abbreviation (input) AUTH_TIMEOUT :: nat where "AUTH_TIMEOUT \<equiv> 5000000000"

definition INTERNAL_CONFIGURATION_DOMAIN :: bytes where
  "INTERNAL_CONFIGURATION_DOMAIN = ''owlmux:cluster-configuration:v1'' @ [CHR 0x00]"

definition OWNER_AUTH_DOMAIN :: bytes where
  "OWNER_AUTH_DOMAIN = ''owlmux:owner-wss-auth:v1'' @ [CHR 0x00]"

text \<open>A field is preceded by its length in four bytes; the code stops on a field of 4 GiB or more, and every
  field it appends is shorter.\<close>

definition append_field :: "bytes \<Rightarrow> bytes" where
  "append_field v = be_bytes 4 (length v) @ v"

datatype connection_class = CC_Attachment | CC_Control

definition class_label :: "connection_class \<Rightarrow> bytes" where
  "class_label c = (case c of CC_Attachment \<Rightarrow> ''attachment'' | CC_Control \<Rightarrow> ''control'')"

record configuration_input =
  cf_deployment_id :: uuid
  cf_config_epoch :: int
  cf_server_build_id :: bytes
  cf_api_key_digest :: bytes
  cf_encryption_key_digest :: bytes
  cf_public_origin :: bytes

definition configuration_transcript :: "configuration_input \<Rightarrow> bytes" where
  "configuration_transcript x = INTERNAL_CONFIGURATION_DOMAIN @ concat (map append_field
     [INTERNAL_CONFIGURATION_VERSION, uuid_bytes (cf_deployment_id x), i64_be_bytes (cf_config_epoch x), cf_server_build_id x,
      cf_api_key_digest x, cf_encryption_key_digest x, cf_public_origin x, ''exact'', ''3'', ''public.v1'', ''relay.v1'',
      INTERNAL_CONTRACT_VERSION, ''ssh-envelope.v1'', show_nat 5, show_nat 32768])"

definition configuration_proof :: "(bytes \<Rightarrow> bytes \<Rightarrow> bytes) \<Rightarrow> bytes \<Rightarrow> configuration_input \<Rightarrow> bytes" where
  "configuration_proof hmac key x = hmac key (configuration_transcript x)"

record owner_auth_context =
  oa_deployment_id :: uuid
  oa_config_epoch :: int
  oa_source :: uuid
  oa_destination :: uuid
  oa_machine_id :: uuid
  oa_route_revision :: int
  oa_connection_epoch :: int
  oa_class :: connection_class
  oa_challenge :: bytes
  oa_source_nonce :: bytes
  oa_trace_id :: uuid

definition owner_transcript :: "owner_auth_context \<Rightarrow> bytes" where
  "owner_transcript c = OWNER_AUTH_DOMAIN @ concat (map append_field
     [INTERNAL_CONTRACT_VERSION, class_label (oa_class c), uuid_bytes (oa_deployment_id c), i64_be_bytes (oa_config_epoch c),
      uuid_bytes (oa_source c), uuid_bytes (oa_destination c), uuid_bytes (oa_machine_id c), i64_be_bytes (oa_route_revision c),
      i64_be_bytes (oa_connection_epoch c), ''api_key_verified'', oa_challenge c, oa_source_nonce c, uuid_bytes (oa_trace_id c)])"

definition owner_response :: "(bytes \<Rightarrow> bytes \<Rightarrow> bytes) \<Rightarrow> bytes \<Rightarrow> owner_auth_context \<Rightarrow> bytes" where
  "owner_response hmac key c = hmac key (owner_transcript c)"

definition verify_owner_response :: "(bytes \<Rightarrow> bytes \<Rightarrow> bytes) \<Rightarrow> bytes \<Rightarrow> owner_auth_context \<Rightarrow> bytes \<Rightarrow> bool" where
  "verify_owner_response hmac key c candidate \<longleftrightarrow> candidate = hmac key (owner_transcript c)"

section \<open>Messages\<close>

record challenge_msg =
  ch_type :: bytes
  ch_protocol :: bytes
  ch_destination :: uuid
  ch_nonce :: bytes

record authenticate_msg =
  au_type :: bytes
  au_source :: uuid
  au_destination :: uuid
  au_machine_id :: uuid
  au_route_revision :: bytes
  au_connection_epoch :: bytes
  au_class :: bytes
  au_source_nonce :: bytes
  au_trace_id :: uuid
  au_response :: bytes

record finish_msg =
  fm_type :: bytes
  fm_committed :: bool

text \<open>The JSON text of a message. \<open>Accepted\<close>, \<open>InvalidationPrepare\<close> and \<open>InvalidationReady\<close> carry their type only.\<close>

record internal_codec =
  ic_show_challenge :: "challenge_msg \<Rightarrow> bytes option"
  ic_read_challenge :: "bytes \<Rightarrow> challenge_msg option"
  ic_show_authenticate :: "authenticate_msg \<Rightarrow> bytes option"
  ic_read_authenticate :: "bytes \<Rightarrow> authenticate_msg option"
  ic_show_type :: "bytes \<Rightarrow> bytes option"
  ic_read_type :: "bytes \<Rightarrow> bytes option"
  ic_show_finish :: "finish_msg \<Rightarrow> bytes option"
  ic_read_finish :: "bytes \<Rightarrow> finish_msg option"
  ic_show_result :: "bytes \<times> bytes \<Rightarrow> bytes option"
  ic_read_result :: "bytes \<Rightarrow> (bytes \<times> bytes) option"

definition send_json :: "bytes option \<Rightarrow> bool \<Rightarrow> owner_error + bytes" where
  "send_json encoded sent = (case encoded of
     None \<Rightarrow> Err OE_Invariant
   | Some text \<Rightarrow> if MAX_FRAME_BYTES < length text then Err OE_Invariant else if sent then Ok text else Err OE_Unreachable)"

definition receive_json :: "(bytes \<Rightarrow> 'm option) \<Rightarrow> socket_next \<Rightarrow> owner_error + 'm" where
  "receive_json read message = (case message of
     Next_Message (WS_Text text) \<Rightarrow> if MAX_FRAME_BYTES < length text then Err OE_Unreachable else ok_or (read text) OE_Unreachable
   | _ \<Rightarrow> Err OE_Unreachable)"

definition parse_epoch :: "bytes \<Rightarrow> owner_error + int" where
  "parse_epoch v = (case parse_i64 v of
     None \<Rightarrow> Err OE_Unreachable
   | Some parsed \<Rightarrow> if parsed \<le> 0 \<or> v \<noteq> show_int parsed then Err OE_Unreachable else Ok parsed)"

definition decode_32 :: "base64 \<Rightarrow> bytes \<Rightarrow> owner_error + bytes" where
  "decode_32 B v = (case b64_decode B v of
     None \<Rightarrow> Err OE_Unreachable
   | Some decoded \<Rightarrow> if length decoded \<noteq> 32 \<or> b64_encode B decoded \<noteq> v then Err OE_Unreachable else Ok decoded)"

definition parse_class :: "bytes \<Rightarrow> owner_error + connection_class" where
  "parse_class v = (if v = ''attachment'' then Ok CC_Attachment else if v = ''control'' then Ok CC_Control else Err OE_Unreachable)"

record url_parts =
  up_scheme :: bytes
  up_host :: "bytes option"
  up_path :: bytes
  up_query :: "bytes option"
  up_fragment :: "bytes option"
  up_username :: bytes
  up_password :: "bytes option"
  up_port :: "nat option"

definition validate_internal_url :: "url_parts option \<Rightarrow> owner_error + url_parts" where
  "validate_internal_url parsed = (case parsed of
     None \<Rightarrow> Err OE_Invariant
   | Some url \<Rightarrow>
       if up_scheme url \<noteq> ''wss'' \<or> up_host url = None \<or> up_path url \<noteq> INTERNAL_PATH \<or> up_query url \<noteq> None
          \<or> up_fragment url \<noteq> None \<or> up_username url \<noteq> [] \<or> up_password url \<noteq> None
       then Err OE_Invariant else Ok url)"

definition validate_upgrade :: "bytes \<Rightarrow> bytes option \<Rightarrow> bool" where
  "validate_upgrade path query \<longleftrightarrow> path = INTERNAL_PATH \<and> query = None"

section \<open>Asking the owner\<close>

text \<open>A node on the channel: its lease, its Relay registry and the permits left for each class of connection.\<close>

record internal_node =
  in_lease :: node_lease
  in_registry :: relay_registry
  in_attachments :: nat
  in_controls :: nat

record cluster_identity =
  ci_deployment_id :: uuid
  ci_key :: "bytes option"
  ci_hmac :: "bytes \<Rightarrow> bytes \<Rightarrow> bytes"
  ci_base64 :: base64
  ci_codec :: internal_codec

type_synonym 'a internal_op = "(internal_node, owner_error, 'a) sr"

definition in_check :: "owner_error \<Rightarrow> reading \<Rightarrow> unit internal_op" where
  "in_check e rd s = (case lease_check rd (in_lease s) of (r, n) \<Rightarrow> (if is_ok r then Ok () else Err e, s\<lparr>in_lease := n\<rparr>))"

definition reachable_if :: "bool \<Rightarrow> owner_error \<Rightarrow> unit internal_op" where
  "reachable_if ok e = (if ok then sr_return () else sr_throw e)"

text \<open>What a connection to the owner meets: the clock at its lease checks, the parsed URL, how far the
  dialling gets, and the two messages it receives.\<close>

record connect_io =
  co_clock :: reading
  co_url :: "url_parts option"
  co_dialled :: bool
  co_server_name :: bool
  co_upgraded :: bool
  co_challenge :: socket_next
  co_source_nonce :: bytes
  co_trace_id :: uuid
  co_sent :: bool
  co_accepted :: socket_next
  co_clock_again :: reading

definition authenticate_of :: "cluster_identity \<Rightarrow> owner_auth_context \<Rightarrow> bytes \<Rightarrow> authenticate_msg" where
  "authenticate_of K c key = \<lparr>au_type = ''owner.authenticate'', au_source = oa_source c, au_destination = oa_destination c,
     au_machine_id = oa_machine_id c, au_route_revision = show_int (oa_route_revision c), au_connection_epoch = show_int (oa_connection_epoch c),
     au_class = class_label (oa_class c), au_source_nonce = b64_encode (ci_base64 K) (oa_source_nonce c), au_trace_id = oa_trace_id c,
     au_response = b64_encode (ci_base64 K) (owner_response (ci_hmac K) key c)\<rparr>"

text \<open>The answer to the challenge: the context and the message that is sent for it.\<close>

definition answer_challenge ::
  "cluster_identity \<Rightarrow> connect_io \<Rightarrow> uuid \<Rightarrow> route_identity \<Rightarrow> uuid \<Rightarrow> connection_class \<Rightarrow> (owner_auth_context \<times> bytes) internal_op" where
  "answer_challenge K io machine_id route destination class =
     sr_bind (sr_lift (receive_json (ic_read_challenge (ci_codec K)) (co_challenge io))) (\<lambda>challenge.
     sr_bind (reachable_if (ch_protocol challenge = ''owner.v1'' \<and> ch_destination challenge = destination) OE_Unreachable) (\<lambda>_.
     sr_bind (sr_lift (decode_32 (ci_base64 K) (ch_nonce challenge))) (\<lambda>challenge_bytes.
     sr_bind (sr_gets in_lease) (\<lambda>n.
     let c = \<lparr>oa_deployment_id = ci_deployment_id K, oa_config_epoch = nl_config_epoch n, oa_source = nl_incarnation_id n,
       oa_destination = destination, oa_machine_id = machine_id, oa_route_revision = ri_route_revision route,
       oa_connection_epoch = ri_connection_epoch route, oa_class = class, oa_challenge = challenge_bytes,
       oa_source_nonce = co_source_nonce io, oa_trace_id = co_trace_id io\<rparr> in
     sr_bind (sr_lift (ok_or (ci_key K) OE_Invariant)) (\<lambda>key.
     sr_bind (sr_lift (send_json (ic_show_authenticate (ci_codec K) (authenticate_of K c key)) (co_sent io))) (\<lambda>text.
     sr_return (c, text)))))))"

definition connect_authenticated ::
  "cluster_identity \<Rightarrow> connect_io \<Rightarrow> uuid \<Rightarrow> route_identity \<Rightarrow> uuid \<Rightarrow> connection_class \<Rightarrow> (owner_auth_context \<times> bytes) internal_op" where
  "connect_authenticated K io machine_id route destination class =
     sr_bind (in_check OE_Fenced (co_clock io)) (\<lambda>_.
     sr_bind (sr_lift (validate_internal_url (co_url io))) (\<lambda>url.
     sr_bind (sr_lift (ok_or (up_host url) OE_Invariant)) (\<lambda>_.
     sr_bind (sr_lift (ok_or (up_port url) OE_Invariant)) (\<lambda>_.
     sr_bind (reachable_if (co_dialled io) OE_Unreachable) (\<lambda>_.
     sr_bind (reachable_if (co_server_name io) OE_Invariant) (\<lambda>_.
     sr_bind (reachable_if (co_upgraded io) OE_Unreachable) (\<lambda>_.
     sr_bind (answer_challenge K io machine_id route destination class) (\<lambda>answer.
     sr_bind (sr_lift (receive_json (ic_read_type (ci_codec K)) (co_accepted io))) (\<lambda>accepted.
     sr_bind (reachable_if (accepted = ''owner.accepted'') OE_Unreachable) (\<lambda>_.
     sr_bind (in_check OE_Fenced (co_clock_again io)) (\<lambda>_.
     sr_return answer)))))))))))"

section \<open>Being asked\<close>

record accept_io =
  ac_clock :: reading
  ac_upgraded :: bool
  ac_path :: bytes
  ac_query :: "bytes option"
  ac_started :: reading
  ac_challenge :: bytes
  ac_challenged :: bool
  ac_message :: socket_next
  ac_clock_before :: reading
  ac_seen :: "(tx_env \<times> relay_tables) option"
  ac_clock_after :: reading
  ac_finished :: reading
  ac_owner_seen :: "relay_tables option"
  ac_ready :: bool
  ac_sent :: bool

definition cluster_node_row :: "tx_env \<Rightarrow> deployment_row \<Rightarrow> uuid \<Rightarrow> node_row \<Rightarrow> bool" where
  "cluster_node_row V d i r \<longleftrightarrow> nr_incarnation_id r = i \<and> nr_state r = NodeServing \<and> nr_config_epoch r = dp_config_epoch d
     \<and> nr_server_build_id r = dp_server_build_id d \<and> te_now V < nr_lease_until r"

definition context_valid :: "cluster_identity \<Rightarrow> node_lease \<Rightarrow> owner_auth_context \<Rightarrow> tx_env \<times> relay_tables \<Rightarrow> bool" where
  "context_valid K n c seen = (case seen of (V, t) \<Rightarrow> (case ld_deployment (te_nodes V) of
     None \<Rightarrow> False
   | Some d \<Rightarrow> dp_id d = ci_deployment_id K \<and> dp_config_epoch d = nl_config_epoch n \<and> dp_server_build_id d = nl_build_id n
       \<and> dp_relay_protocol_version d = 1 \<and> dp_profile d = ''clustered'' \<and> dp_config_proof d = nl_config_proof n
       \<and> list_ex (cluster_node_row V d (oa_source c)) (ld_nodes (te_nodes V))
       \<and> list_ex (cluster_node_row V d (oa_destination c)) (ld_nodes (te_nodes V))
       \<and> list_ex (\<lambda>m. mc_id m = oa_machine_id c \<and> mc_lifecycle m = LC_Active \<and> mc_route_revision m = oa_route_revision c) (rt_machines t)
       \<and> list_ex (\<lambda>ow. ow_machine_id ow = oa_machine_id c \<and> ow_owner ow = Some (oa_destination c)
            \<and> ow_route_revision ow = oa_route_revision c \<and> ow_connection_epoch ow = oa_connection_epoch c) (rt_owners t)
       \<and> bound (oa_machine_id c) (oa_route_revision c) t))"

definition validate_context :: "cluster_identity \<Rightarrow> accept_io \<Rightarrow> owner_auth_context \<Rightarrow> unit internal_op" where
  "validate_context K io c =
     sr_bind (in_check OE_Fenced (ac_clock_before io)) (\<lambda>_.
     sr_bind (sr_lift (ok_or (ac_seen io) OE_Database)) (\<lambda>seen.
     sr_bind (sr_gets in_lease) (\<lambda>n.
     if \<not> context_valid K n c seen then sr_throw OE_Unavailable else in_check OE_Unavailable (ac_clock_after io))))"

definition resolve_connection_id :: "accept_io \<Rightarrow> owner_auth_context \<Rightarrow> owner_error + uuid" where
  "resolve_connection_id io c = r_bind (ok_or (ac_owner_seen io) OE_Database) (\<lambda>t.
     ok_or (Option.bind (List.find (\<lambda>ow. ow_machine_id ow = oa_machine_id c \<and> ow_owner ow = Some (oa_destination c)
        \<and> ow_route_revision ow = oa_route_revision c \<and> ow_connection_epoch ow = oa_connection_epoch c) (rt_owners t)) ow_connection) OE_Unavailable)"

definition resolve_current_route :: "accept_io \<Rightarrow> owner_auth_context \<Rightarrow> route_identity internal_op" where
  "resolve_current_route io c =
     sr_bind (sr_lift (resolve_connection_id io c)) (\<lambda>connection_id.
     sr_bind (sr_gets in_registry) (\<lambda>g.
     let route = \<lparr>ri_route_revision = oa_route_revision c, ri_connection_epoch = oa_connection_epoch c, ri_connection_id = connection_id\<rparr> in
     if is_current_route (ac_ready io) (oa_machine_id c) route g then sr_return route else sr_throw OE_Unavailable))"

definition acquire_class :: "connection_class \<Rightarrow> unit internal_op" where
  "acquire_class class s = (case class of
     CC_Attachment \<Rightarrow> if in_attachments s = 0 then (Err OE_Unavailable, s) else (Ok (), s\<lparr>in_attachments := in_attachments s - 1\<rparr>)
   | CC_Control \<Rightarrow> if in_controls s = 0 then (Err OE_Unavailable, s) else (Ok (), s\<lparr>in_controls := in_controls s - 1\<rparr>))"

definition release_class :: "connection_class \<Rightarrow> internal_node \<Rightarrow> internal_node" where
  "release_class class s = (case class of CC_Attachment \<Rightarrow> s\<lparr>in_attachments := in_attachments s + 1\<rparr> | CC_Control \<Rightarrow> s\<lparr>in_controls := in_controls s + 1\<rparr>)"

text \<open>The context a message claims, checked against this node and the cluster key.\<close>

definition check_authenticate :: "cluster_identity \<Rightarrow> bytes \<Rightarrow> authenticate_msg \<Rightarrow> node_lease \<Rightarrow> owner_error + owner_auth_context" where
  "check_authenticate K challenge m n =
     r_bind (parse_epoch (au_route_revision m)) (\<lambda>route_revision.
     r_bind (parse_epoch (au_connection_epoch m)) (\<lambda>connection_epoch.
     r_bind (parse_class (au_class m)) (\<lambda>class.
     r_bind (decode_32 (ci_base64 K) (au_source_nonce m)) (\<lambda>source_nonce.
     r_bind (decode_32 (ci_base64 K) (au_response m)) (\<lambda>response.
     let c = \<lparr>oa_deployment_id = ci_deployment_id K, oa_config_epoch = nl_config_epoch n, oa_source = au_source m,
       oa_destination = au_destination m, oa_machine_id = au_machine_id m, oa_route_revision = route_revision,
       oa_connection_epoch = connection_epoch, oa_class = class, oa_challenge = challenge, oa_source_nonce = source_nonce, oa_trace_id = au_trace_id m\<rparr> in
     r_bind (ok_or (ci_key K) OE_Invariant) (\<lambda>key.
     if au_type m \<noteq> ''owner.authenticate'' \<or> au_destination m \<noteq> nl_incarnation_id n \<or> \<not> verify_owner_response (ci_hmac K) key c response
     then Err OE_Unreachable else Ok c))))))"

definition within_auth_timeout :: "nat \<times> nat option \<Rightarrow> reading \<Rightarrow> owner_error + unit" where
  "within_auth_timeout start rd = (case boot_now rd (snd start) of
     (Inl _, _) \<Rightarrow> Err OE_Fenced
   | (Inr finished, _) \<Rightarrow> if finished < fst start \<or> AUTH_TIMEOUT \<le> finished - fst start then Err OE_Unreachable else Ok ())"

definition confirm_accepted :: "cluster_identity \<Rightarrow> accept_io \<Rightarrow> owner_auth_context \<Rightarrow> route_identity \<Rightarrow> (owner_auth_context \<times> route_identity) internal_op" where
  "confirm_accepted K io c route s = (case send_json (ic_show_type (ci_codec K) ''owner.accepted'') (ac_sent io) of
     Inl e \<Rightarrow> (Err e, release_class (oa_class c) s)
   | Inr _ \<Rightarrow> (Ok (c, route), s))"

text \<open>\<open>accept_owner_connection\<close> up to the message that accepts; what it accepted is the context and the route.\<close>

definition accept_owner_connection :: "cluster_identity \<Rightarrow> accept_io \<Rightarrow> (owner_auth_context \<times> route_identity) internal_op" where
  "accept_owner_connection K io =
     sr_bind (in_check OE_Fenced (ac_clock io)) (\<lambda>_.
     sr_bind (reachable_if (ac_upgraded io \<and> validate_upgrade (ac_path io) (ac_query io)) OE_Unreachable) (\<lambda>_.
     sr_bind (sr_lift (case boot_now (ac_started io) None of (Inl _, _) \<Rightarrow> Err OE_Fenced | (Inr now, seen) \<Rightarrow> Ok (now, seen))) (\<lambda>start.
     sr_bind (sr_gets in_lease) (\<lambda>n.
     sr_bind (sr_lift (send_json (ic_show_challenge (ci_codec K) \<lparr>ch_type = ''owner.challenge'', ch_protocol = ''owner.v1'',
        ch_destination = nl_incarnation_id n, ch_nonce = b64_encode (ci_base64 K) (ac_challenge io)\<rparr>) (ac_challenged io))) (\<lambda>_.
     sr_bind (sr_lift (receive_json (ic_read_authenticate (ci_codec K)) (ac_message io))) (\<lambda>m.
     sr_bind (sr_lift (check_authenticate K (ac_challenge io) m n)) (\<lambda>c.
     sr_bind (validate_context K io c) (\<lambda>_.
     sr_bind (sr_lift (within_auth_timeout start (ac_finished io))) (\<lambda>_.
     sr_bind (resolve_current_route io c) (\<lambda>route.
     sr_bind (acquire_class (oa_class c)) (\<lambda>_.
     confirm_accepted K io c route)))))))))))"

section \<open>Invalidating a machine on its owner\<close>

text \<open>What the owner meets while a requester takes the machine out of service: the messages of the requester,
  whether its own get through, and what its transition meets.\<close>

record invalidation_io =
  iv_prepare :: socket_next
  iv_ready_sent :: bool
  iv_finish :: socket_next
  iv_result_sent :: bool
  iv_transition :: transition_io

type_synonym 'a owner_op = "(machine_host, owner_error, 'a) sr"

definition fence_host :: "machine_host \<Rightarrow> machine_host" where
  "fence_host h = with_registry (transition_hard_fence (mh_registry h)) h"

definition invalidation_prepare :: "internal_codec \<Rightarrow> invalidation_io \<Rightarrow> uuid \<Rightarrow> route_identity \<Rightarrow> machine_transition owner_op" where
  "invalidation_prepare C io machine_id route =
     sr_bind (sr_lift (receive_json (ic_read_type C) (iv_prepare io))) (\<lambda>prepare.
     if prepare \<noteq> ''machine.invalidation.prepare'' then sr_throw OE_Unreachable
     else sr_bind (sr_map_err (\<lambda>_. OE_Unavailable) (begin_local (iv_transition io) machine_id route)) (\<lambda>mt.
     if \<not> is_ok (send_json (ic_show_type C ''machine.invalidation.ready'') (iv_ready_sent io))
     then sr_bind (sr_modify fence_host) (\<lambda>_. sr_throw OE_Unreachable)
     else sr_return mt))"

definition invalidation_finish :: "internal_codec \<Rightarrow> invalidation_io \<Rightarrow> machine_transition \<Rightarrow> unit owner_op" where
  "invalidation_finish C io mt =
     (case receive_json (ic_read_finish C) (iv_finish io) of
        Inl e \<Rightarrow> sr_bind (sr_modify fence_host) (\<lambda>_. sr_throw e)
      | Inr finish \<Rightarrow>
          if fm_type finish \<noteq> ''machine.invalidation.finish'' then sr_bind (sr_modify fence_host) (\<lambda>_. sr_throw OE_Unreachable)
          else sr_bind (sr_map_err (\<lambda>_. OE_Fenced) (finish_transition (iv_transition io) (fm_committed finish) mt)) (\<lambda>_.
            sr_bind (sr_lift (send_json (ic_show_result C (''machine.invalidation.result'', if fm_committed finish then ''completed'' else ''aborted'')) (iv_result_sent io)))
              (\<lambda>_. sr_return ())))"

definition handle_invalidation :: "internal_codec \<Rightarrow> invalidation_io \<Rightarrow> uuid \<Rightarrow> route_identity \<Rightarrow> unit owner_op" where
  "handle_invalidation C io machine_id route = sr_bind (invalidation_prepare C io machine_id route) (invalidation_finish C io)"

text \<open>\<open>RemoteTransition::finish\<close>: whether the requester learns that the owner completed.\<close>

definition remote_finish :: "internal_codec \<Rightarrow> bool \<Rightarrow> bool \<Rightarrow> socket_next \<Rightarrow> owner_error + unit" where
  "remote_finish C committed sent answer =
     r_bind (send_json (ic_show_finish C \<lparr>fm_type = ''machine.invalidation.finish'', fm_committed = committed\<rparr>) sent) (\<lambda>_.
     r_bind (receive_json (ic_read_result C) answer) (\<lambda>(message_type, outcome).
     if message_type \<noteq> ''machine.invalidation.result'' \<or> outcome \<noteq> (if committed then ''completed'' else ''aborted'')
     then Err OE_Unreachable else Ok ()))"

text \<open>\<open>prepare_invalidation\<close> after the connection is authenticated.\<close>

definition prepare_invalidation :: "internal_codec \<Rightarrow> bool \<Rightarrow> socket_next \<Rightarrow> owner_error + unit" where
  "prepare_invalidation C sent answer =
     r_bind (send_json (ic_show_type C ''machine.invalidation.prepare'') sent) (\<lambda>_.
     r_bind (receive_json (ic_read_type C) answer) (\<lambda>ready.
     if ready \<noteq> ''machine.invalidation.ready'' then Err OE_Unreachable else Ok ()))"

section \<open>A transition across two nodes\<close>

text \<open>The requester \<open>h\<close> and the owner \<open>o\<close> work on the same tables. The channel is TLS: a message arrives as it was
  sent or not at all. The requester commits only after the owner's ready message arrived.\<close>

record remote_io =
  rm_request :: transition_io
  rm_owner :: invalidation_io
  rm_ready_arrives :: bool
  rm_finish_arrives :: bool

definition finish_message :: "internal_codec \<Rightarrow> transition_completion \<Rightarrow> bool \<Rightarrow> socket_next" where
  "finish_message C completion arrives = (case (if arrives then (case completion of
       TC_Committed \<Rightarrow> ic_show_finish C \<lparr>fm_type = ''machine.invalidation.finish'', fm_committed = True\<rparr>
     | TC_Aborted _ \<Rightarrow> ic_show_finish C \<lparr>fm_type = ''machine.invalidation.finish'', fm_committed = False\<rparr>
     | TC_Indeterminate _ \<Rightarrow> None) else None) of
       None \<Rightarrow> Next_Closed | Some text \<Rightarrow> Next_Message (WS_Text text))"

definition remote_transition ::
  "internal_codec \<Rightarrow> remote_io \<Rightarrow> uuid \<Rightarrow> lifecycle \<Rightarrow> bytes \<Rightarrow> uuid \<Rightarrow> route_identity \<Rightarrow> machine_host \<Rightarrow> machine_host
     \<Rightarrow> (api_error + unit) \<times> machine_host \<times> machine_host" where
  "remote_transition C io machine_id lifecycle action incarnation_id route h ow =
     (case invalidation_prepare C (rm_owner io) machine_id route ow of
        (Inl _, ow1) \<Rightarrow> (Err AP_OwnerUnreachable, h, ow1)
      | (Inr mt, ow1) \<Rightarrow>
          if \<not> rm_ready_arrives io
          then (Err AP_OwnerUnreachable, h, snd (invalidation_finish C (rm_owner io\<lparr>iv_finish := Next_Closed\<rparr>) mt ow1))
          else (case commit_and_settle (rm_request io) machine_id lifecycle action (Exact incarnation_id route) h of
              (Inl e, h1) \<Rightarrow> (Err e, h1, snd (invalidation_finish C (rm_owner io\<lparr>iv_finish := Next_Closed\<rparr>) mt ow1))
            | (Inr completion, h1) \<Rightarrow>
                (let ow2 = snd (invalidation_finish C (rm_owner io\<lparr>iv_finish := finish_message C completion (rm_finish_arrives io)\<rparr>) mt
                       (ow1\<lparr>mh_tables := mh_tables h1\<rparr>))
                 in (fst (completed completion h1), h1\<lparr>mh_tables := mh_tables ow2\<rparr>, ow2))))"

section \<open>Transcripts determine their fields\<close>

lemma append_field_inject:
  assumes "length v < 2 ^ 32" "length w < 2 ^ 32" "append_field v @ r = append_field w @ q"
  shows "v = w \<and> r = q"
proof -
  from assms(3) have "be_bytes 4 (length v) = be_bytes 4 (length w)" "v @ r = w @ q" by (simp_all add: append_field_def)
  with assms(1,2) show ?thesis by (simp add: be_bytes_inject)
qed

lemma framed_inject:
  assumes "list_all (\<lambda>x. length x < 2 ^ 32) xs" "list_all (\<lambda>x. length x < 2 ^ 32) ys" "length xs = length ys"
    "concat (map append_field xs) = concat (map append_field ys)"
  shows "xs = ys"
  using assms(3,1,2,4)
proof (induction xs ys rule: list_induct2)
  case (Cons x xs y ys)
  then show ?case using append_field_inject [of x y] by simp
qed simp

definition context_wf :: "owner_auth_context \<Rightarrow> bool" where
  "context_wf c \<longleftrightarrow> is_i64 (oa_config_epoch c) \<and> is_i64 (oa_route_revision c) \<and> is_i64 (oa_connection_epoch c)
     \<and> length (oa_challenge c) = 32 \<and> length (oa_source_nonce c) = 32"

lemma class_label_inject [simp]: "class_label a = class_label b \<longleftrightarrow> a = b"
  by (cases a; cases b) (simp_all add: class_label_def)

lemma length_class_label: "length (class_label a) < 4294967296"
  by (cases a) (simp_all add: class_label_def)

lemma owner_transcript_inject:
  assumes "context_wf c" "context_wf c'" "owner_transcript c = owner_transcript c'"
  shows "c = c'"
proof -
  let ?f = "\<lambda>c. [INTERNAL_CONTRACT_VERSION, class_label (oa_class c), uuid_bytes (oa_deployment_id c), i64_be_bytes (oa_config_epoch c),
      uuid_bytes (oa_source c), uuid_bytes (oa_destination c), uuid_bytes (oa_machine_id c), i64_be_bytes (oa_route_revision c),
      i64_be_bytes (oa_connection_epoch c), ''api_key_verified'', oa_challenge c, oa_source_nonce c, uuid_bytes (oa_trace_id c)]"
  have "?f c = ?f c'"
    by (rule framed_inject) (use assms in \<open>simp_all add: owner_transcript_def context_wf_def length_class_label\<close>)
  with assms(1,2) show ?thesis by (simp add: context_wf_def i64_be_bytes_inject)
qed

lemma domains_differ: "owner_transcript c \<noteq> configuration_transcript x"
  by (simp add: owner_transcript_def configuration_transcript_def OWNER_AUTH_DOMAIN_def INTERNAL_CONFIGURATION_DOMAIN_def)

definition input_wf :: "configuration_input \<Rightarrow> bool" where
  "input_wf x \<longleftrightarrow> is_i64 (cf_config_epoch x) \<and> length (cf_server_build_id x) < 2 ^ 32 \<and> length (cf_api_key_digest x) = 32
     \<and> length (cf_encryption_key_digest x) = 32 \<and> length (cf_public_origin x) < 2 ^ 32"

lemma configuration_transcript_inject:
  assumes "input_wf x" "input_wf y" "configuration_transcript x = configuration_transcript y"
  shows "x = y"
proof -
  let ?f = "\<lambda>x. [INTERNAL_CONFIGURATION_VERSION, uuid_bytes (cf_deployment_id x), i64_be_bytes (cf_config_epoch x), cf_server_build_id x,
      cf_api_key_digest x, cf_encryption_key_digest x, cf_public_origin x, ''exact'', ''3'', ''public.v1'', ''relay.v1'',
      INTERNAL_CONTRACT_VERSION, ''ssh-envelope.v1'', show_nat 5, show_nat 32768]"
  have "length (show_nat 5) < 4294967296" "length (show_nat 32768) < 4294967296"
    using show_nat_length [of 5 1] show_nat_length [of 32768 5] by (simp_all del: show_nat.simps)
  then have "?f x = ?f y"
    by (intro framed_inject) (use assms in \<open>simp_all add: configuration_transcript_def input_wf_def del: show_nat.simps\<close>)
  with assms(1,2) show ?thesis by (simp add: input_wf_def i64_be_bytes_inject)
qed

section \<open>Reading a message back\<close>

lemma parse_epoch_iff: "parse_epoch v = Ok r \<longleftrightarrow> 0 < r \<and> r < 2 ^ 63 \<and> v = show_int r"
  using parse_i64_show_int [of r] parse_i64_bound [of v]
  by (auto simp: parse_epoch_def split: option.splits if_splits)

lemma decode_32_iff: "base64_ok B \<Longrightarrow> decode_32 B v = Ok x \<longleftrightarrow> length x = 32 \<and> v = b64_encode B x"
  by (auto simp: decode_32_def base64_ok_def split: option.splits if_splits)

lemma parse_class_label: "parse_class (class_label c) = Ok c"
  by (cases c) (simp_all add: parse_class_def class_label_def)

lemma parse_class_Ok: "parse_class v = Ok c \<Longrightarrow> v = class_label c"
  by (auto simp: parse_class_def class_label_def split: if_splits)

lemma check_authenticate_Ok:
  assumes "base64_ok (ci_base64 K)" "check_authenticate K challenge m n = Ok c"
  shows "\<exists>key. ci_key K = Some key \<and> m = authenticate_of K c key \<and> oa_challenge c = challenge \<and> oa_deployment_id c = ci_deployment_id K
    \<and> oa_config_epoch c = nl_config_epoch n \<and> oa_destination c = nl_incarnation_id n \<and> length (oa_source_nonce c) = 32
    \<and> 0 < oa_route_revision c \<and> oa_route_revision c < 2 ^ 63 \<and> 0 < oa_connection_epoch c \<and> oa_connection_epoch c < 2 ^ 63"
  using assms(2)
  by (auto simp: check_authenticate_def res_simps parse_epoch_iff decode_32_iff [OF assms(1)] verify_owner_response_def owner_response_def
      authenticate_of_def Let_def dest!: parse_class_Ok split: if_splits)

lemma check_authenticate_honest:
  assumes "base64_ok (ci_base64 K)" "ci_key K = Some key" "length (owner_response (ci_hmac K) key c) = 32" "length (oa_source_nonce c) = 32"
    "oa_deployment_id c = ci_deployment_id K" "oa_config_epoch c = nl_config_epoch n" "oa_destination c = nl_incarnation_id n"
    "0 < oa_route_revision c" "oa_route_revision c < 2 ^ 63" "0 < oa_connection_epoch c" "oa_connection_epoch c < 2 ^ 63"
  shows "check_authenticate K (oa_challenge c) (authenticate_of K c key) n = Ok c"
proof -
  have p: "parse_epoch (show_int (oa_route_revision c)) = Ok (oa_route_revision c)"
    "parse_epoch (show_int (oa_connection_epoch c)) = Ok (oa_connection_epoch c)"
    "decode_32 (ci_base64 K) (b64_encode (ci_base64 K) (oa_source_nonce c)) = Ok (oa_source_nonce c)"
    "decode_32 (ci_base64 K) (b64_encode (ci_base64 K) (owner_response (ci_hmac K) key c)) = Ok (owner_response (ci_hmac K) key c)"
    using assms by (simp_all add: parse_epoch_iff decode_32_iff)
  have c: "\<lparr>oa_deployment_id = ci_deployment_id K, oa_config_epoch = nl_config_epoch n, oa_source = oa_source c,
      oa_destination = nl_incarnation_id n, oa_machine_id = oa_machine_id c, oa_route_revision = oa_route_revision c,
      oa_connection_epoch = oa_connection_epoch c, oa_class = oa_class c, oa_challenge = oa_challenge c, oa_source_nonce = oa_source_nonce c,
      oa_trace_id = oa_trace_id c\<rparr> = c" using assms(5-7) by (cases c) simp
  show ?thesis
    unfolding check_authenticate_def authenticate_of_def
    by (simp add: p [unfolded owner_response_def] parse_class_label assms(2,7) Let_def c verify_owner_response_def owner_response_def)
qed

section \<open>What an accepted connection stands for\<close>

lemma in_check_Ok: "in_check e rd s = (Ok u, s') \<Longrightarrow> in_registry s' = in_registry s \<and> nl_incarnation_id (in_lease s') = nl_incarnation_id (in_lease s)
    \<and> nl_config_epoch (in_lease s') = nl_config_epoch (in_lease s)"
  by (auto simp: in_check_def lease_check_def read_clock_def lease_fence_def split: prod.splits sum.splits if_splits)

lemma reachable_if_Ok: "reachable_if b e s = (Ok u, s') \<longleftrightarrow> b \<and> s' = s"
  by (auto simp: reachable_if_def sr_leaf)

lemma lift_Ok: "sr_lift r s = (Ok a, s') \<longleftrightarrow> r = Ok a \<and> s' = s"
  by (auto simp: sr_lift_def)

lemma gets_Ok: "sr_gets f s = (Ok a, s') \<longleftrightarrow> a = f s \<and> s' = s"
  by (auto simp: sr_gets_def)

lemmas channel_steps = sr_bind_eq_Ok reachable_if_Ok lift_Ok gets_Ok

lemma validate_context_Ok:
  assumes "validate_context K io c s = (Ok u, s')"
  shows "(\<exists>n seen. ac_seen io = Some seen \<and> context_valid K n c seen) \<and> in_registry s' = in_registry s"
  using assms by (auto simp: validate_context_def channel_steps res_simps sr_throw_def dest!: in_check_Ok split: if_splits)

lemma resolve_current_route_Ok:
  assumes "resolve_current_route io c s = (Ok route, s')"
  shows "is_current_route (ac_ready io) (oa_machine_id c) route (in_registry s) \<and> ri_route_revision route = oa_route_revision c
    \<and> ri_connection_epoch route = oa_connection_epoch c \<and> s' = s"
  using assms by (auto simp: resolve_current_route_def channel_steps sr_leaf Let_def split: if_splits)

lemma confirm_accepted_Ok: "confirm_accepted K io c route s = (Ok x, s') \<Longrightarrow> x = (c, route)"
  by (auto simp: confirm_accepted_def split: sum.splits)

lemma accept_Ok:
  assumes "accept_owner_connection K io s = (Ok (c, route), s')"
  shows "\<exists>m n. receive_json (ic_read_authenticate (ci_codec K)) (ac_message io) = Ok m \<and> check_authenticate K (ac_challenge io) m n = Ok c
    \<and> nl_incarnation_id n = nl_incarnation_id (in_lease s) \<and> nl_config_epoch n = nl_config_epoch (in_lease s)
    \<and> (\<exists>n seen. ac_seen io = Some seen \<and> context_valid K n c seen)
    \<and> is_current_route (ac_ready io) (oa_machine_id c) route (in_registry s) \<and> ri_route_revision route = oa_route_revision c
    \<and> ri_connection_epoch route = oa_connection_epoch c"
proof -
  from assms obtain s1 m s2 s3 c' route' where *: "in_check OE_Fenced (ac_clock io) s = (Ok (), s1)"
    "receive_json (ic_read_authenticate (ci_codec K)) (ac_message io) = Ok m" "check_authenticate K (ac_challenge io) m (in_lease s1) = Ok c'"
    "validate_context K io c' s1 = (Ok (), s2)" "resolve_current_route io c' s2 = (Ok route', s3)" "c' = c" "route' = route"
    unfolding accept_owner_connection_def channel_steps by (auto dest!: confirm_accepted_Ok)
  note * = * [unfolded *(6,7)]
  from in_check_Ok [OF *(1)] validate_context_Ok [OF *(4)] resolve_current_route_Ok [OF *(5)] *(2,3) show ?thesis by auto
qed

section \<open>The owner during a transition\<close>

lemma fence_host_settled: "settled i (fence_host h)"
  by (auto simp: settled_def fence_host_def transition_hard_fence_def intro!: with_registry_fenced)

lemma fence_host_tables [simp]: "mh_tables (fence_host h) = mh_tables h"
  by (simp add: fence_host_def)

lemma fence_host_fenced [simp]: "nl_fenced (mh_lease (fence_host h))"
  by (auto simp: fence_host_def transition_hard_fence_def intro!: with_registry_fenced)

lemma invalidation_prepare_wp:
  assumes "exit_kept_by_tasks (iv_transition io) i" "rg_owner_exits (mh_registry h) i = None"
  shows "sr_wp (invalidation_prepare C io i route) (\<lambda>mt h'. mh_tables h' = mh_tables h \<and> mt_machine_id mt = i \<and> mt_route mt = route
      \<and> rg_owner_exits (mh_registry h') i = Some (Transitioning route))
    (\<lambda>e h'. mh_tables h' = mh_tables h \<and> settled i h') h"
proof -
  have "sr_wp (sr_map_err (\<lambda>_. OE_Unavailable) (begin_local (iv_transition io) i route)) (\<lambda>mt h'. mh_tables h' = mh_tables h \<and> mt_machine_id mt = i
      \<and> mt_route mt = route \<and> rg_owner_exits (mh_registry h') i = Some (Transitioning route))
    (\<lambda>e h'. mh_tables h' = mh_tables h \<and> settled i h') h"
    using begin_local_wp [OF assms, of route] by (auto simp: sr_wp_def sr_map_err_def map_err_def split: sum.splits prod.splits)
  then show ?thesis
    unfolding invalidation_prepare_def
    using assms(2)
    by (auto simp: wp_simps settled_def fence_host_settled intro!: wp_lift elim!: sr_wp_mono)
qed

lemma invalidation_finish_settles:
  assumes "uncontested (iv_transition io) i" "at_revision i g (mh_tables h)" "mt_machine_id mt = i"
    "rg_owner_exits (mh_registry h) i = Some (Transitioning (mt_route mt))" "invalidation_finish C io mt h = (r, h')"
  shows "at_revision i g (mh_tables h') \<and> settled i h'"
    and "\<not> nl_fenced (mh_lease h') \<Longrightarrow> \<exists>finish. receive_json (ic_read_finish C) (iv_finish io) = Ok finish"
proof -
  have "finish_transition (iv_transition io) b mt h = (r', h'') \<Longrightarrow> at_revision i g (mh_tables h'') \<and> settled i h''" for b r' h''
    using finish_transition_settles [OF assms(1-4)] by blast
  then show "at_revision i g (mh_tables h') \<and> settled i h'"
    using assms(2,5) fence_host_settled
    by (auto simp: invalidation_finish_def sr_bind_def sr_map_err_def sr_leaf map_err_def split: sum.splits if_splits prod.splits)
  show "\<exists>finish. receive_json (ic_read_finish C) (iv_finish io) = Ok finish" if "\<not> nl_fenced (mh_lease h')"
    using assms(5) that by (auto simp: invalidation_finish_def sr_bind_def sr_leaf split: sum.splits)
qed

lemma invalidation_closed: "iv_finish io = Next_Closed \<Longrightarrow> invalidation_finish C io mt h = (Err OE_Unreachable, fence_host h)"
  by (simp add: invalidation_finish_def receive_json_def sr_bind_def sr_leaf)

lemma remote_finish_step:
  assumes "uncontested (iv_transition io) i" "mt_machine_id mt = i" "rg_owner_exits (mh_registry ow) i = Some (Transitioning (mt_route mt))"
    "case completion of TC_Committed \<Rightarrow> at_revision i (g + 1) (mh_tables ow) | TC_Aborted e \<Rightarrow> \<not> is_ambiguous e \<and> at_revision i g (mh_tables ow)
      | TC_Indeterminate e \<Rightarrow> is_ambiguous e"
    "invalidation_finish C (io\<lparr>iv_finish := finish_message C completion arrives\<rparr>) mt ow = (r, ow')"
  shows "settled i ow'
    \<and> (case completion of TC_Committed \<Rightarrow> at_revision i (g + 1) (mh_tables ow') | TC_Aborted e \<Rightarrow> \<not> is_ambiguous e \<and> at_revision i g (mh_tables ow')
      | TC_Indeterminate e \<Rightarrow> is_ambiguous e \<and> nl_fenced (mh_lease ow'))"
proof (cases completion)
  case TC_Committed
  with invalidation_finish_settles(1) [of "io\<lparr>iv_finish := finish_message C completion arrives\<rparr>" i "g + 1", OF _ _ assms(2,3,5)] assms(1,4)
  show ?thesis by simp
next
  case (TC_Aborted e)
  with invalidation_finish_settles(1) [of "io\<lparr>iv_finish := finish_message C completion arrives\<rparr>" i g, OF _ _ assms(2,3,5)] assms(1,4)
  show ?thesis by simp
next
  case (TC_Indeterminate e)
  then have "finish_message C completion arrives = Next_Closed" by (simp add: finish_message_def)
  with assms(4,5) TC_Indeterminate show ?thesis by (auto simp: invalidation_closed fence_host_settled)
qed

lemma remote_transition_cases:
  assumes "uncontested (rm_request io) i" "uncontested (iv_transition (rm_owner io)) i" "exit_kept_by_tasks (iv_transition (rm_owner io)) i"
    "rg_owner_exits (mh_registry ow) i = None" "mh_tables ow = mh_tables h" "at_revision i g (mh_tables h)" "lc = LC_Pending \<or> lc = LC_Disabled"
    "ri_route_revision route = g" "remote_transition C io i lc action incarnation_id route h ow = (r, h', ow')"
  shows "settled i ow' \<and> (case r of Inr _ \<Rightarrow> at_revision i (g + 1) (mh_tables h')
    | Inl e \<Rightarrow> (is_ambiguous e \<longrightarrow> nl_fenced (mh_lease ow')) \<and> (is_ambiguous e \<or> at_revision i g (mh_tables h')))"
proof -
  obtain x ow1 where prep: "invalidation_prepare C (rm_owner io) i route ow = (x, ow1)" by fastforce
  note p = invalidation_prepare_wp [OF assms(3,4), of C route, unfolded sr_wp_def prep, simplified]
  show ?thesis
  proof (cases x)
    case (Inl e)
    with p assms(6,9) show ?thesis by (auto simp: remote_transition_def prep is_ambiguous_def)
  next
    case (Inr mt)
    with p assms(5) have mt: "mt_machine_id mt = i" "mt_route mt = route" "rg_owner_exits (mh_registry ow1) i = Some (Transitioning (mt_route mt))" by simp_all
    obtain c h1 where commit: "commit_and_settle (rm_request io) i lc action (Exact incarnation_id route) h = (c, h1)" by fastforce
    note w = commit_and_settle_wp [OF assms(1,6,7), of "Exact incarnation_id route" action, unfolded sr_wp_def commit, simplified]
    then obtain completion where completion: "c = Ok completion" using assms(8) by (cases c) simp_all
    obtain y ow2 where fin: "invalidation_finish C (rm_owner io\<lparr>iv_finish := finish_message C completion (rm_finish_arrives io)\<rparr>) mt
        (ow1\<lparr>mh_tables := mh_tables h1\<rparr>) = (y, ow2)" by fastforce
    have f: "settled i ow2 \<and> (case completion of TC_Committed \<Rightarrow> at_revision i (g + 1) (mh_tables ow2)
        | TC_Aborted e \<Rightarrow> \<not> is_ambiguous e \<and> at_revision i g (mh_tables ow2) | TC_Indeterminate e \<Rightarrow> is_ambiguous e \<and> nl_fenced (mh_lease ow2))"
      by (rule remote_finish_step [OF assms(2) mt(1) _ _ fin]) (use mt(3) w assms(8) completion in \<open>auto split: transition_completion.splits\<close>)
    show ?thesis
    proof (cases "rm_ready_arrives io")
      case False
      with assms(6,9) Inr show ?thesis
        by (auto simp: remote_transition_def prep invalidation_closed fence_host_settled is_ambiguous_def)
    next
      case True
      with assms(9) Inr completion fin have "r = fst (completed completion h1)" "ow' = ow2" "mh_tables h' = mh_tables ow2"
        by (auto simp: remote_transition_def prep commit Let_def)
      with f show ?thesis by (cases completion) (auto simp: completed_def sr_leaf)
    qed
  qed
qed

section \<open>Properties\<close>

text \<open>What a node authenticates with the cluster key determines what it stands for: the transcript of an
  owner request determines all of its eleven values, the transcript of a configuration all of its six, and
  no transcript of one kind is one of the other.\<close>

lemma transcripts_bind_context:
  assumes "context_wf c" "context_wf c'" "input_wf x" "input_wf x'"
  shows "(owner_transcript c = owner_transcript c' \<longleftrightarrow> c = c') \<and> (configuration_transcript x = configuration_transcript x' \<longleftrightarrow> x = x')
    \<and> owner_transcript c \<noteq> configuration_transcript x"
  using owner_transcript_inject [OF assms(1,2)] configuration_transcript_inject [OF assms(3,4)] domains_differ by blast

text \<open>C12. An owner accepts a connection only for a request that a holder of the cluster key made to it. The
  message it accepted is the very one \<open>connect_authenticated\<close> sends for the accepted context: its response is the
  authentication code of the cluster key over that context, and it is the response for no other context
  unless the code collides. The context carries the challenge this owner just sent, this node as the
  destination and this deployment and configuration epoch; the database names this node the owner of the
  machine at its revision and epoch, with a live binding, and the route is the one the node serves now.\<close>

theorem accepted_request_is_genuine:
  assumes "accept_owner_connection K io s = (Ok (c, route), s')" "base64_ok (ci_base64 K)"
    "length (ac_challenge io) = 32" "is_i64 (nl_config_epoch (in_lease s))"
  shows "\<exists>key. ci_key K = Some key
    \<and> receive_json (ic_read_authenticate (ci_codec K)) (ac_message io) = Ok (authenticate_of K c key)
    \<and> (\<forall>c'. context_wf c' \<and> au_response (authenticate_of K c key) = b64_encode (ci_base64 K) (owner_response (ci_hmac K) key c') \<longrightarrow>
         c' = c \<or> owner_transcript c' \<noteq> owner_transcript c \<and> ci_hmac K key (owner_transcript c') = ci_hmac K key (owner_transcript c))
    \<and> oa_challenge c = ac_challenge io \<and> oa_destination c = nl_incarnation_id (in_lease s)
    \<and> oa_deployment_id c = ci_deployment_id K \<and> oa_config_epoch c = nl_config_epoch (in_lease s)
    \<and> (\<exists>V t. ac_seen io = Some (V, t) \<and> list_ex (\<lambda>ow. ow_machine_id ow = oa_machine_id c \<and> ow_owner ow = Some (nl_incarnation_id (in_lease s))
         \<and> ow_route_revision ow = ri_route_revision route \<and> ow_connection_epoch ow = ri_connection_epoch route) (rt_owners t)
         \<and> bound (oa_machine_id c) (ri_route_revision route) t)
    \<and> is_current_route (ac_ready io) (oa_machine_id c) route (in_registry s)"
proof -
  from accept_Ok [OF assms(1)] obtain m n n' V t where *: "receive_json (ic_read_authenticate (ci_codec K)) (ac_message io) = Ok m"
    "check_authenticate K (ac_challenge io) m n = Ok c" "nl_incarnation_id n = nl_incarnation_id (in_lease s)"
    "nl_config_epoch n = nl_config_epoch (in_lease s)" "ac_seen io = Some (V, t)" "context_valid K n' c (V, t)"
    "is_current_route (ac_ready io) (oa_machine_id c) route (in_registry s)" "ri_route_revision route = oa_route_revision c"
    "ri_connection_epoch route = oa_connection_epoch c" by auto
  from check_authenticate_Ok [OF assms(2) *(2)] obtain key where m: "ci_key K = Some key" "m = authenticate_of K c key"
    "oa_challenge c = ac_challenge io" "oa_deployment_id c = ci_deployment_id K" "oa_config_epoch c = nl_config_epoch n"
    "oa_destination c = nl_incarnation_id n" "length (oa_source_nonce c) = 32"
    "0 < oa_route_revision c" "oa_route_revision c < 2 ^ 63" "0 < oa_connection_epoch c" "oa_connection_epoch c < 2 ^ 63" by blast
  have wf: "context_wf c" using m assms(3,4) *(4) by (simp add: context_wf_def is_i64_def)
  have "c' = c \<or> owner_transcript c' \<noteq> owner_transcript c \<and> ci_hmac K key (owner_transcript c') = ci_hmac K key (owner_transcript c)"
    if "context_wf c'" "au_response (authenticate_of K c key) = b64_encode (ci_base64 K) (owner_response (ci_hmac K) key c')" for c'
  proof -
    have "owner_response (ci_hmac K) key c = owner_response (ci_hmac K) key c'"
      using assms(2) that(2) by (auto simp: authenticate_of_def base64_ok_def dest: arg_cong [of _ _ "b64_decode (ci_base64 K)"])
    with owner_transcript_inject [OF that(1) wf] show ?thesis by (auto simp: owner_response_def)
  qed
  with m * show ?thesis by (auto simp: context_valid_def split: option.splits)
qed

text \<open>An honest request passes: the owner reads back the context from the message that \<open>connect_authenticated\<close>
  sends for it, whatever route, class and nonces it was made with.\<close>

lemma honest_request_read_back:
  assumes "answer_challenge K io i route destination class s = (Ok (c, text), s')" "base64_ok (ci_base64 K)"
    "\<forall>m t. ic_show_authenticate (ci_codec K) m = Some t \<longrightarrow> ic_read_authenticate (ci_codec K) t = Some m"
    "\<forall>k x. length (ci_hmac K k x) = 32" "length (co_source_nonce io) = 32" "0 < ri_route_revision route" "ri_route_revision route < 2 ^ 63"
    "0 < ri_connection_epoch route" "ri_connection_epoch route < 2 ^ 63" "nl_incarnation_id n = destination" "nl_config_epoch n = nl_config_epoch (in_lease s)"
  shows "r_bind (receive_json (ic_read_authenticate (ci_codec K)) (Next_Message (WS_Text text))) (\<lambda>m. check_authenticate K (oa_challenge c) m n) = Ok c
    \<and> oa_machine_id c = i \<and> oa_route_revision c = ri_route_revision route \<and> oa_connection_epoch c = ri_connection_epoch route \<and> oa_class c = class"
proof -
  from assms(1) obtain key where c: "ci_key K = Some key" "send_json (ic_show_authenticate (ci_codec K) (authenticate_of K c key)) (co_sent io) = Ok text"
    "oa_deployment_id c = ci_deployment_id K" "oa_config_epoch c = nl_config_epoch (in_lease s)" "oa_destination c = destination" "oa_machine_id c = i"
    "oa_route_revision c = ri_route_revision route" "oa_connection_epoch c = ri_connection_epoch route" "oa_class c = class" "oa_source_nonce c = co_source_nonce io"
    by (auto simp: answer_challenge_def channel_steps res_simps Let_def sr_return_def)
  from c(2) assms(3) have "receive_json (ic_read_authenticate (ci_codec K)) (Next_Message (WS_Text text)) = Ok (authenticate_of K c key)"
    by (auto simp: send_json_def receive_json_def split: option.splits if_splits)
  moreover have "check_authenticate K (oa_challenge c) (authenticate_of K c key) n = Ok c"
    by (rule check_authenticate_honest [OF assms(2) c(1)]) (use assms c in \<open>simp_all add: owner_response_def\<close>)
  ultimately show ?thesis using c by simp
qed

text \<open>A transition that one node requests of another ends the same way for both: a success means that the
  machine moved on by one revision, a failure that is not ambiguous that it did not, and in every case,
  wherever the connection breaks, the owner is left without an exit in progress or fenced; after an
  ambiguous answer it is fenced.\<close>

lemma remote_transition_consistent:
  assumes "uncontested (rm_request io) i" "uncontested (iv_transition (rm_owner io)) i" "exit_kept_by_tasks (iv_transition (rm_owner io)) i"
    "rg_owner_exits (mh_registry ow) i = None" "mh_tables ow = mh_tables h" "tables_ok (mh_tables h)" "revision_of i (mh_tables h) = Some g"
    "lc = LC_Pending \<or> lc = LC_Disabled" "ri_route_revision route = g" "remote_transition C io i lc action incarnation_id route h ow = (r, h', ow')"
  shows "(rg_owner_exits (mh_registry ow') i = None \<or> nl_fenced (mh_lease ow')) \<and> (case r of
      Inr _ \<Rightarrow> revision_of i (mh_tables h') = Some (g + 1)
    | Inl e \<Rightarrow> if is_ambiguous e then nl_fenced (mh_lease ow') else revision_of i (mh_tables h') = Some g)"
proof -
  have "at_revision i g (mh_tables h)" using assms(6,7) by (simp add: at_revision_def)
  from remote_transition_cases [OF assms(1-5) this assms(8-10)] show ?thesis
    by (auto simp: settled_def at_revision_def split: sum.splits)
qed

section \<open>Witnesses\<close>

definition sample_context :: owner_auth_context where
  "sample_context = \<lparr>oa_deployment_id = 1, oa_config_epoch = 2, oa_source = 8, oa_destination = 7, oa_machine_id = 11, oa_route_revision = 1,
     oa_connection_epoch = 1, oa_class = CC_Control, oa_challenge = replicate 32 CHR ''c'', oa_source_nonce = replicate 32 CHR ''s'', oa_trace_id = 9\<rparr>"

definition sample_configuration :: configuration_input where
  "sample_configuration = \<lparr>cf_deployment_id = 1, cf_config_epoch = 2, cf_server_build_id = ''b'', cf_api_key_digest = replicate 32 CHR ''a'',
     cf_encryption_key_digest = replicate 32 CHR ''e'', cf_public_origin = ''o''\<rparr>"

lemma sample_wf: "context_wf sample_context" "context_wf (sample_context\<lparr>oa_route_revision := 2\<rparr>)" "input_wf sample_configuration"
  "input_wf (sample_configuration\<lparr>cf_config_epoch := 3\<rparr>)"
  by (simp_all add: context_wf_def input_wf_def sample_context_def sample_configuration_def is_i64_def)

theorem transcripts_bind_context_witness:
  "owner_transcript sample_context \<noteq> owner_transcript (sample_context\<lparr>oa_route_revision := 2\<rparr>)
    \<and> configuration_transcript sample_configuration \<noteq> configuration_transcript (sample_configuration\<lparr>cf_config_epoch := 3\<rparr>)"
  using transcripts_bind_context [OF sample_wf] by (simp add: sample_context_def sample_configuration_def)

definition sample_key_mac :: "bytes \<Rightarrow> bytes \<Rightarrow> bytes" where
  "sample_key_mac k x = take 32 (rev x @ replicate 32 CHR ''x'')"

definition sample_b64 :: base64 where
  "sample_b64 = \<lparr>b64_encode = (\<lambda>x. x), b64_decode = Some\<rparr>"

definition sample_auth :: authenticate_msg where
  "sample_auth = \<lparr>au_type = ''owner.authenticate'', au_source = 8, au_destination = 7, au_machine_id = 11, au_route_revision = ''1'',
     au_connection_epoch = ''1'', au_class = ''control'', au_source_nonce = replicate 32 CHR ''s'', au_trace_id = 9,
     au_response = sample_key_mac ''k'' (owner_transcript sample_context)\<rparr>"

definition sample_challenge :: challenge_msg where
  "sample_challenge = \<lparr>ch_type = ''owner.challenge'', ch_protocol = ''owner.v1'', ch_destination = 7, ch_nonce = replicate 32 CHR ''c''\<rparr>"

definition sample_codec :: internal_codec where
  "sample_codec = \<lparr>ic_show_challenge = (\<lambda>m. Some ''c''), ic_read_challenge = (\<lambda>t. Some sample_challenge),
     ic_show_authenticate = (\<lambda>m. if m = sample_auth then Some ''m'' else None), ic_read_authenticate = (\<lambda>t. Some sample_auth),
     ic_show_type = Some, ic_read_type = Some, ic_show_finish = (\<lambda>m. Some (if fm_committed m then ''t'' else ''f'')),
     ic_read_finish = (\<lambda>t. Some \<lparr>fm_type = ''machine.invalidation.finish'', fm_committed = (t = ''t'')\<rparr>),
     ic_show_result = (\<lambda>m. Some (snd m)), ic_read_result = (\<lambda>t. Some (''machine.invalidation.result'', t))\<rparr>"

definition sample_identity :: cluster_identity where
  "sample_identity = \<lparr>ci_deployment_id = 1, ci_key = Some ''k'', ci_hmac = sample_key_mac, ci_base64 = sample_b64, ci_codec = sample_codec\<rparr>"

definition sample_member :: "uuid \<Rightarrow> node_lease" where
  "sample_member i = sample_node\<lparr>nl_incarnation_id := i, nl_config_epoch := 2, nl_build_id := ''b'', nl_config_proof := Some ''p'', nl_profile := ''clustered''\<rparr>"

definition sample_cluster_env :: tx_env where
  "sample_cluster_env = (sample_env 15)\<lparr>te_nodes := \<lparr>
     ld_deployment = Some \<lparr>dp_id = 1, dp_config_epoch = 2, dp_server_build_id = ''b'', dp_relay_protocol_version = 1, dp_profile = ''clustered'', dp_config_proof = Some ''p''\<rparr>,
     ld_nodes = map (\<lambda>i. \<lparr>nr_incarnation_id = i, nr_display_name = None, nr_state = NodeServing, nr_config_epoch = 2, nr_server_build_id = ''b'',
       nr_internal_wss_url = None, nr_lease_until = 200\<rparr>) [7, 8], ld_audit = []\<rparr>\<rparr>"

definition sample_accept :: accept_io where
  "sample_accept = \<lparr>ac_clock = Ok 90, ac_upgraded = True, ac_path = INTERNAL_PATH, ac_query = None, ac_started = Ok 90, ac_challenge = replicate 32 CHR ''c'',
     ac_challenged = True, ac_message = Next_Message (WS_Text ''m''), ac_clock_before = Ok 90, ac_seen = Some (sample_cluster_env, sample_claimed),
     ac_clock_after = Ok 90, ac_finished = Ok 91, ac_owner_seen = Some sample_claimed, ac_ready = True, ac_sent = True\<rparr>"

definition sample_owner :: internal_node where
  "sample_owner = \<lparr>in_lease = sample_member 7, in_registry = mh_registry sample_host, in_attachments = 128, in_controls = 8\<rparr>"

lemma sample_identity_simps [simp]:
  "ci_deployment_id sample_identity = 1" "ci_key sample_identity = Some ''k''" "ci_hmac sample_identity = sample_key_mac"
  "ci_base64 sample_identity = sample_b64" "ci_codec sample_identity = sample_codec"
  by (simp_all add: sample_identity_def)

lemma sample_context_simps [simp]:
  "oa_deployment_id sample_context = 1" "oa_config_epoch sample_context = 2" "oa_source sample_context = 8" "oa_destination sample_context = 7"
  "oa_machine_id sample_context = 11" "oa_route_revision sample_context = 1" "oa_connection_epoch sample_context = 1" "oa_class sample_context = CC_Control"
  "oa_challenge sample_context = replicate 32 CHR ''c''" "oa_source_nonce sample_context = replicate 32 CHR ''s''" "oa_trace_id sample_context = 9"
  by (simp_all add: sample_context_def)

lemma sample_b64_ok: "base64_ok sample_b64"
  by (simp add: base64_ok_def sample_b64_def)

lemma sample_mac_length [simp]: "length (sample_key_mac k x) = 32"
  by (simp add: sample_key_mac_def)

lemma sample_epoch: "show_int 1 = ''1''"
  by code_simp

lemma sample_auth_of: "authenticate_of sample_identity sample_context ''k'' = sample_auth"
  by (simp add: authenticate_of_def sample_auth_def sample_b64_def class_label_def owner_response_def sample_epoch)

lemma sample_checked: "nl_incarnation_id n = 7 \<Longrightarrow> nl_config_epoch n = 2 \<Longrightarrow> check_authenticate sample_identity (replicate 32 CHR ''c'') sample_auth n = Ok sample_context"
  using check_authenticate_honest [of sample_identity "''k''" sample_context n] sample_b64_ok by (simp add: sample_auth_of owner_response_def)

lemma sample_accepts: "fst (accept_owner_connection sample_identity sample_accept sample_owner) = Ok (sample_context, sample_route)"
  by (simp add: accept_owner_connection_def in_check_def reachable_if_def validate_upgrade_def send_json_def receive_json_def sample_checked
      validate_context_def context_valid_def cluster_node_row_def resolve_current_route_def resolve_connection_id_def is_current_route_def acquire_class_def
      confirm_accepted_def within_auth_timeout_def sample_accept_def sample_owner_def sample_member_def sample_cluster_env_def sample_codec_def
      sample_host_def sample_route_def tunnel_handle_new_def bound_def sample_defs sample_tables Let_def)

theorem accepted_request_is_genuine_witness:
  "receive_json (ic_read_authenticate (ci_codec sample_identity)) (ac_message sample_accept) = Ok (authenticate_of sample_identity sample_context ''k'')
    \<and> oa_challenge sample_context = ac_challenge sample_accept \<and> oa_destination sample_context = nl_incarnation_id (in_lease sample_owner)
    \<and> is_current_route True 11 sample_route (in_registry sample_owner)"
proof -
  obtain s' where a: "accept_owner_connection sample_identity sample_accept sample_owner = (Ok (sample_context, sample_route), s')"
    using sample_accepts by (metis prod.collapse)
  have "length (ac_challenge sample_accept) = 32" "is_i64 (nl_config_epoch (in_lease sample_owner))" "ac_ready sample_accept"
    by (simp_all add: sample_accept_def sample_owner_def sample_member_def is_i64_def)
  then show ?thesis using accepted_request_is_genuine [OF a] sample_b64_ok by simp
qed

definition sample_connect :: connect_io where
  "sample_connect = \<lparr>co_clock = Ok 90, co_url = None, co_dialled = True, co_server_name = True, co_upgraded = True, co_challenge = Next_Message (WS_Text ''c''),
     co_source_nonce = replicate 32 CHR ''s'', co_trace_id = 9, co_sent = True, co_accepted = Next_Message (WS_Text ''owner.accepted''), co_clock_again = Ok 90\<rparr>"

definition sample_requester :: internal_node where
  "sample_requester = \<lparr>in_lease = sample_member 8, in_registry = registry_empty, in_attachments = 128, in_controls = 8\<rparr>"

lemma sample_answers: "answer_challenge sample_identity sample_connect 11 sample_route 7 CC_Control sample_requester = (Ok (sample_context, ''m''), sample_requester)"
proof -
  have c: "\<lparr>oa_deployment_id = 1, oa_config_epoch = 2, oa_source = 8, oa_destination = 7, oa_machine_id = 11, oa_route_revision = 1,
      oa_connection_epoch = 1, oa_class = CC_Control, oa_challenge = replicate 32 CHR ''c'', oa_source_nonce = replicate 32 CHR ''s'', oa_trace_id = 9\<rparr> = sample_context"
    by (simp add: sample_context_def)
  have d: "decode_32 sample_b64 (replicate 32 CHR ''c'') = Ok (replicate 32 CHR ''c'')"
    by (simp add: decode_32_def sample_b64_def)
  show ?thesis
    by (simp add: answer_challenge_def sr_bind_def sr_leaf receive_json_def reachable_if_def send_json_def sample_connect_def sample_requester_def sample_codec_def
        sample_challenge_def sample_member_def sample_route_def d c sample_auth_of Let_def)
qed

theorem honest_request_read_back_witness:
  "r_bind (receive_json (ic_read_authenticate sample_codec) (Next_Message (WS_Text ''m''))) (\<lambda>m. check_authenticate sample_identity (replicate 32 CHR ''c'') m (sample_member 7))
     = Ok sample_context"
  using honest_request_read_back [OF sample_answers, of "sample_member 7"] sample_b64_ok
  by (simp add: sample_codec_def sample_connect_def sample_requester_def sample_member_def sample_route_def)

definition sample_remote :: remote_io where
  "sample_remote = \<lparr>rm_request = sample_io, rm_owner = \<lparr>iv_prepare = Next_Message (WS_Text ''machine.invalidation.prepare''), iv_ready_sent = True,
     iv_finish = Next_Closed, iv_result_sent = True, iv_transition = sample_io\<rparr>, rm_ready_arrives = True, rm_finish_arrives = True\<rparr>"

lemma sample_remote_succeeds: "is_ok (fst (remote_transition sample_codec sample_remote 11 LC_Disabled ''disable'' 7 sample_route sample_host sample_host))"
proof -
  have "sample_host\<lparr>mh_obs := mh_obs sample_host\<rparr> = sample_host" by simp
  with sample_begins [of "mh_obs sample_host"] obtain mt ow1 where b: "begin_local sample_io 11 sample_route sample_host = (Ok mt, ow1)" by metis
  have c: "fst (commit_and_settle sample_io 11 LC_Disabled ''disable'' (Exact 7 sample_route) sample_host) = Ok TC_Committed"
    by (rule sample_commits) (simp_all add: sample_host_def)
  obtain h1 where "commit_and_settle sample_io 11 LC_Disabled ''disable'' (Exact 7 sample_route) sample_host = (Ok TC_Committed, h1)"
    using c by (metis prod.collapse)
  then show ?thesis
    by (simp add: remote_transition_def invalidation_prepare_def sample_remote_def receive_json_def send_json_def sample_codec_def sr_bind_def sr_leaf sr_map_err_def b
        completed_def Let_def)
qed

theorem remote_transition_consistent_witness:
  "revision_of 11 (mh_tables (fst (snd (remote_transition sample_codec sample_remote 11 LC_Disabled ''disable'' 7 sample_route sample_host sample_host)))) = Some 2"
proof -
  have h: "uncontested sample_io 11" "exit_kept_by_tasks sample_io 11" "tables_ok (mh_tables sample_host)" "rg_owner_exits (mh_registry sample_host) 11 = None"
    by (simp_all add: uncontested_def exit_kept_by_tasks_def sample_io_def sample_host_def registry_empty_def sample_claimed_ok)
  have g: "revision_of 11 (mh_tables sample_host) = Some 1" "ri_route_revision sample_route = 1"
    by (simp_all add: sample_host_def revision_of_def machine_of_def sample_tables sample_route_def)
  obtain r h' ow' where r: "remote_transition sample_codec sample_remote 11 LC_Disabled ''disable'' 7 sample_route sample_host sample_host = (r, h', ow')"
    by (metis prod.collapse)
  with sample_remote_succeeds remote_transition_consistent [OF _ _ _ _ _ _ _ _ _ r, of 1] h g show ?thesis
    by (auto simp: sample_remote_def is_ok_iff)
qed

end
