(* ===== verification/Relay_Agent.thy ===== *)
theory Relay_Agent
  imports Relay_Client Credentials
begin

text \<open>
  The Relay program around its tunnel (\<open>crates/owlmux-relay/src/main.rs\<close> and \<open>state.rs\<close>): its options, its
  state file, its enrolment with the questions it puts to the operator, and the authentication of a tunnel.
  Keys and signatures, JSON, base64 and the reading of an OpenSSH public key are parameters; what the file
  system, the terminal and the socket answer are inputs.
\<close>

section \<open>The state file\<close>

record relay_state =
  ry_protocol :: nat
  ry_relay_id :: uuid
  ry_secret_key :: bytes
  ry_target_account :: bytes
  ry_deployment_id :: "uuid option"
  ry_machine_id :: "uuid option"
  ry_route_revision :: "int option"

datatype state_error = SE_Io | SE_Invalid | SE_UnsafePermissions

record agent_lib =
  gl_base64 :: base64
  gl_show_state :: "relay_state \<Rightarrow> bytes option"
  gl_read_state :: "bytes \<Rightarrow> relay_state option"
  gl_public_key :: "bytes \<Rightarrow> bytes"
  gl_sign :: "bytes \<Rightarrow> bytes \<Rightarrow> bytes"
  gl_openssh :: "bytes \<Rightarrow> (bool \<times> bytes) option"

text \<open>A file: whether it is a regular file that is no symbolic link, its mode and its content.\<close>

record state_file =
  sf_regular :: bool
  sf_mode :: nat
  sf_bytes :: bytes

definition validate_account :: "bytes \<Rightarrow> state_error + unit" where
  "validate_account account =
     (if account = [] \<or> 64 < length account \<or> chars_any (\<lambda>c. char_is_whitespace c \<or> char_is_control c) account then Err SE_Invalid else Ok ())"

definition signing_key :: "agent_lib \<Rightarrow> relay_state \<Rightarrow> state_error + bytes" where
  "signing_key L st = r_bind (ok_or (b64_decode (gl_base64 L) (ry_secret_key st)) SE_Invalid) (\<lambda>decoded.
     if length decoded \<noteq> 32 \<or> b64_encode (gl_base64 L) decoded \<noteq> ry_secret_key st then Err SE_Invalid else Ok decoded)"

definition state_load :: "agent_lib \<Rightarrow> bool \<Rightarrow> state_file option \<Rightarrow> state_error + relay_state" where
  "state_load L readable file =
     r_bind (ok_or file SE_Io) (\<lambda>f.
     if \<not> sf_regular f \<or> sf_mode f mod 512 \<noteq> 384 then Err SE_UnsafePermissions
     else if \<not> readable then Err SE_Io
     else if 16384 < length (sf_bytes f) then Err SE_Invalid
     else r_bind (ok_or (gl_read_state L (sf_bytes f)) SE_Invalid) (\<lambda>st.
       if ry_protocol st \<noteq> 1 then Err SE_Invalid
       else r_bind (validate_account (ry_target_account st)) (\<lambda>_. r_bind (signing_key L st) (\<lambda>_. Ok st))))"

text \<open>What writing the file meets: the directory (\<open>None\<close> when it does not exist and is made, if it can be), and
  which of the operations succeed.\<close>

record persist_io =
  pi_parent :: "(bool \<times> nat) option"
  pi_made :: bool
  pi_written :: bool
  pi_renamed :: bool
  pi_synced :: bool

definition state_persist :: "agent_lib \<Rightarrow> persist_io \<Rightarrow> relay_state \<Rightarrow> state_file option \<Rightarrow> (state_error + unit) \<times> state_file option" where
  "state_persist L io st file =
     (let (directory, mode) = (case pi_parent io of Some d \<Rightarrow> d | None \<Rightarrow> (True, 448)) in
      if pi_parent io = None \<and> \<not> pi_made io then (Err SE_Io, file)
      else if \<not> directory \<or> mode mod 64 \<noteq> 0 then (Err SE_UnsafePermissions, file)
      else (case gl_show_state L st of
          None \<Rightarrow> (Err SE_Invalid, file)
        | Some encoded \<Rightarrow>
            if \<not> pi_written io \<or> \<not> pi_renamed io then (Err SE_Io, file)
            else (if pi_synced io then Ok () else Err SE_Io, Some \<lparr>sf_regular = True, sf_mode = 384, sf_bytes = encoded\<rparr>)))"

definition load_or_create :: "agent_lib \<Rightarrow> bool \<Rightarrow> persist_io \<Rightarrow> bytes \<Rightarrow> uuid \<Rightarrow> bytes \<Rightarrow> state_file option \<Rightarrow> (state_error + relay_state) \<times> state_file option" where
  "load_or_create L readable io account fresh secret file =
     (if file \<noteq> None
      then (r_bind (state_load L readable file) (\<lambda>st. if ry_target_account st \<noteq> account then Err SE_Invalid else Ok st), file)
      else (case validate_account account of
          Inl e \<Rightarrow> (Err e, file)
        | Inr _ \<Rightarrow> (let st = \<lparr>ry_protocol = 1, ry_relay_id = fresh, ry_secret_key = b64_encode (gl_base64 L) secret, ry_target_account = account,
                         ry_deployment_id = None, ry_machine_id = None, ry_route_revision = None\<rparr> in
            case state_persist L io st file of (r, file') \<Rightarrow> (r_bind r (\<lambda>_. Ok st), file'))))"

definition reset_identity :: "agent_lib \<Rightarrow> persist_io \<Rightarrow> uuid \<Rightarrow> bytes \<Rightarrow> relay_state \<Rightarrow> state_file option \<Rightarrow> (state_error + unit) \<times> relay_state \<times> state_file option" where
  "reset_identity L io fresh secret st file =
     (let st' = st\<lparr>ry_relay_id := fresh, ry_secret_key := b64_encode (gl_base64 L) secret, ry_deployment_id := None, ry_machine_id := None,
        ry_route_revision := None\<rparr>
      in case state_persist L io st' file of (r, file') \<Rightarrow> (r, st', file'))"

section \<open>Options\<close>

datatype agent_command = Cmd_Start | Cmd_Enroll | Cmd_Run | Cmd_Reset

definition validate_command_options :: "agent_command \<Rightarrow> bytes option \<Rightarrow> bytes option \<Rightarrow> bool \<Rightarrow> bytes option \<Rightarrow> bytes + unit" where
  "validate_command_options command server account confirm_ready expected = (case command of
     Cmd_Start \<Rightarrow> if server = None then Err ''--server is required for start'' else Ok ()
   | Cmd_Enroll \<Rightarrow> if server = None then Err ''--server is required for enrollment''
       else if account = None then Err ''--account is required for enrollment'' else Ok ()
   | Cmd_Run \<Rightarrow> if server = None then Err ''--server is required for run''
       else if account \<noteq> None \<or> confirm_ready \<or> expected \<noteq> None then Err ''run accepts only --server and --state'' else Ok ()
   | Cmd_Reset \<Rightarrow> if server \<noteq> None \<or> account \<noteq> None \<or> confirm_ready \<or> expected \<noteq> None then Err ''reset accepts only --state'' else Ok ())"

record agent_options =
  go_command :: agent_command
  go_server :: "bytes option"
  go_state_path :: bytes
  go_account :: "bytes option"
  go_confirm_ready :: bool
  go_expected :: "bytes option"

definition command_of :: "bytes \<Rightarrow> agent_command option" where
  "command_of a = (if a = ''start'' then Some Cmd_Start else if a = ''enroll'' then Some Cmd_Enroll
     else if a = ''run'' then Some Cmd_Run else if a = ''reset'' then Some Cmd_Reset else None)"

record option_values =
  ov_server :: "bytes option"
  ov_state_path :: "bytes option"
  ov_account :: "bytes option"
  ov_confirm_ready :: bool
  ov_expected :: "bytes option"

fun parse_option_values :: "bytes list \<Rightarrow> option_values \<Rightarrow> bytes + option_values" where
  "parse_option_values [] v = Ok v"
| "parse_option_values (argument # rest) v =
     (if argument = ''--confirm-ready'' then parse_option_values rest (v\<lparr>ov_confirm_ready := True\<rparr>)
      else (case rest of
          [] \<Rightarrow> Err ''option value is missing''
        | x # more_arguments \<Rightarrow>
            if argument = ''--server'' then parse_option_values more_arguments (v\<lparr>ov_server := Some x\<rparr>)
            else if argument = ''--state'' then parse_option_values more_arguments (v\<lparr>ov_state_path := Some x\<rparr>)
            else if argument = ''--account'' then parse_option_values more_arguments (v\<lparr>ov_account := Some x\<rparr>)
            else if argument = ''--expected-host-key-sha256'' then parse_option_values more_arguments (v\<lparr>ov_expected := Some x\<rparr>)
            else Err (''unknown option: '' @ argument)))"

definition trim_end_char :: "char \<Rightarrow> bytes \<Rightarrow> bytes" where
  "trim_end_char c s = rev (dropWhile (\<lambda>x. x = c) (rev s))"

text \<open>\<open>parse_options\<close> on the arguments after the program name; \<open>--version\<close>, \<open>--help\<close> and no
  argument print and leave the process, and are outside its domain.\<close>

definition parse_options :: "bytes list \<Rightarrow> bytes + agent_options" where
  "parse_options arguments =
     r_bind (ok_or (case arguments of [] \<Rightarrow> None | a # _ \<Rightarrow> command_of a) ''expected start, enroll, run, or reset'') (\<lambda>command.
     r_bind (parse_option_values (tl arguments) \<lparr>ov_server = None, ov_state_path = None, ov_account = None, ov_confirm_ready = False, ov_expected = None\<rparr>) (\<lambda>v.
     if (case ov_server v of None \<Rightarrow> False | Some s \<Rightarrow>
          (\<not> starts_with ''ws://'' s \<and> \<not> starts_with ''wss://'' s) \<or> CHR ''?'' \<in> set s \<or> CHR ''#'' \<in> set s)
     then Err ''--server must be a ws:// or wss:// origin''
     else r_bind (validate_command_options command (ov_server v) (ov_account v) (ov_confirm_ready v) (ov_expected v)) (\<lambda>_.
     r_bind (ok_or (ov_state_path v) ''--state is required'') (\<lambda>path.
     Ok \<lparr>go_command = command, go_server = map_option (trim_end_char CHR ''/'') (ov_server v), go_state_path = path, go_account = ov_account v,
         go_confirm_ready = ov_confirm_ready v, go_expected = ov_expected v\<rparr>))))"

section \<open>What the operator confirms\<close>

text \<open>A terminal is \<open>None\<close> when standard input is not one; a line that cannot be read is \<open>Some None\<close>.\<close>

type_synonym terminal = "bytes option option"

definition confirm_target_authorization :: "terminal \<Rightarrow> bool \<Rightarrow> relay_server_frame \<Rightarrow> relay_client_error + unit" where
  "confirm_target_authorization tty confirmed frame = (case frame of
     RS_Credential _ _ _ _ \<Rightarrow>
       if confirmed then Ok ()
       else (case tty of
           None \<Rightarrow> Err (RE_State ''target authorization confirmation requires --confirm-ready in non-interactive mode'')
         | Some None \<Rightarrow> Err RE_Input
         | Some (Some response) \<Rightarrow>
             if str_trim response \<in> {''y'', ''Y'', ''yes'', ''YES''} then Ok () else Err (RE_State ''target authorization was not confirmed''))
   | _ \<Rightarrow> Err RE_Protocol)"

definition is_exact_yes :: "bytes \<Rightarrow> bool" where
  "is_exact_yes response \<longleftrightarrow> response \<in> {''yes'', ''yes'' @ [CHR 0x0A], ''yes'' @ [CHR 0x0D, CHR 0x0A]}"

definition confirm_host_key :: "agent_lib \<Rightarrow> terminal \<Rightarrow> bytes \<Rightarrow> bytes \<Rightarrow> bytes option \<Rightarrow> relay_client_error + unit" where
  "confirm_host_key L tty host_identity advertised expected = (case ascii_fields host_identity [] of
     [algorithm, encoded_key] \<Rightarrow>
       if algorithm @ '' '' @ encoded_key \<noteq> host_identity then Err RE_Protocol
       else (case gl_openssh L host_identity of
           None \<Rightarrow> Err RE_Protocol
         | Some (ed25519, fingerprint) \<Rightarrow>
             if \<not> ed25519 then Err RE_Protocol
             else if fingerprint \<noteq> advertised then Err RE_Protocol
             else (case expected of
                 Some x \<Rightarrow> if x \<noteq> fingerprint then Err (RE_State ''discovered SSH host-key fingerprint does not match the expected fingerprint'') else Ok ()
               | None \<Rightarrow> (case tty of
                     None \<Rightarrow> Err (RE_State ''SSH host-key confirmation requires --expected-host-key-sha256 in non-interactive mode'')
                   | Some None \<Rightarrow> Err RE_Input
                   | Some (Some response) \<Rightarrow> if is_exact_yes response then Ok () else Err (RE_State ''SSH host key was not accepted''))))
   | _ \<Rightarrow> Err RE_Protocol)"

definition read_token :: "bytes option \<Rightarrow> relay_client_error + bytes" where
  "read_token given = r_bind (ok_or given RE_Input) (\<lambda>s.
     let token = rev (dropWhile (\<lambda>c. c = CHR 0x0D \<or> c = CHR 0x0A) (rev s)) in
     if \<not> from_utf8_ok s \<or> \<not> starts_with ENROLLMENT_PREFIX token \<or> 80 < length token then Err RE_Input else Ok token)"

section \<open>Talking to the Server\<close>

text \<open>The program with its socket: what will be received, what was sent, and how often the file was written.\<close>

record agent =
  ag_state :: relay_state
  ag_file :: "state_file option"
  ag_inbox :: "socket_next list"
  ag_sent :: "relay_client_frame list"
  ag_writes :: nat

text \<open>\<open>ge_send_ok\<close> tells whether the frame with that number gets through; an empty inbox is a deadline that passes.\<close>

record agent_env =
  ge_lib :: agent_lib
  ge_codec :: relay_codec
  ge_send_ok :: "nat \<Rightarrow> bool"
  ge_persist :: "nat \<Rightarrow> persist_io"
  ge_token :: "bytes option"
  ge_connected :: bool
  ge_target_tty :: terminal
  ge_host_tty :: terminal
  ge_target_connects :: "nat \<Rightarrow> bool"
  ge_write_ok :: "nat \<Rightarrow> bool"

type_synonym 'a agent_op = "(agent, relay_client_error, 'a) sr"

definition agent_send :: "agent_env \<Rightarrow> relay_client_frame \<Rightarrow> unit agent_op" where
  "agent_send G frame a = (case rc_show_client (ge_codec G) frame of
     None \<Rightarrow> (Err RE_Protocol, a)
   | Some encoded \<Rightarrow>
       if length encoded > MAX_FRAME_BYTES then (Err RE_Protocol, a)
       else if \<not> ge_send_ok G (length (ag_sent a)) then (Err RE_Transport, a)
       else (Ok (), a\<lparr>ag_sent := ag_sent a @ [frame]\<rparr>))"

definition decode_next :: "relay_codec \<Rightarrow> socket_next \<Rightarrow> relay_client_error + relay_server_frame" where
  "decode_next E message = (case message of Next_Message m \<Rightarrow> client_decode_frame E m | _ \<Rightarrow> Err RE_Transport)"

definition agent_receive :: "agent_env \<Rightarrow> relay_server_frame agent_op" where
  "agent_receive G a = (case ag_inbox a of
     [] \<Rightarrow> (Err RE_Transport, a)
   | message # rest \<Rightarrow> (decode_next (ge_codec G) message, a\<lparr>ag_inbox := rest\<rparr>))"

definition agent_persist :: "agent_env \<Rightarrow> unit agent_op" where
  "agent_persist G a = (case state_persist (ge_lib G) (ge_persist G (ag_writes a)) (ag_state a) (ag_file a) of
     (r, file) \<Rightarrow> (map_err (\<lambda>_. RE_StateFile) r, a\<lparr>ag_file := file, ag_writes := ag_writes a + 1\<rparr>))"

definition client_decode_32 :: "base64 \<Rightarrow> bytes \<Rightarrow> relay_client_error + bytes" where
  "client_decode_32 B v = r_bind (ok_or (b64_decode B v) RE_Protocol) (\<lambda>decoded.
     if length decoded \<noteq> 32 \<or> b64_encode B decoded \<noteq> v then Err RE_Protocol else Ok decoded)"

definition receive_challenge :: "agent_env \<Rightarrow> (challenge_purpose \<times> bytes) agent_op" where
  "receive_challenge G = sr_bind (agent_receive G) (\<lambda>frame. case frame of
     RS_Challenge purpose nonce \<Rightarrow> sr_bind (sr_lift (client_decode_32 (gl_base64 (ge_lib G)) nonce)) (\<lambda>bs. sr_return (purpose, bs))
   | RS_Error code _ \<Rightarrow> sr_throw (RE_Remote code)
   | _ \<Rightarrow> sr_throw RE_Protocol)"

definition send_signature ::
  "agent_env \<Rightarrow> bytes \<Rightarrow> challenge_purpose \<Rightarrow> uuid \<Rightarrow> uuid \<Rightarrow> uuid \<Rightarrow> uuid option \<Rightarrow> int \<Rightarrow> bytes \<Rightarrow> unit agent_op" where
  "send_signature G key purpose deployment_id machine_id relay_id connection_id route_revision nonce =
     agent_send G (RC_Signature (b64_encode (gl_base64 (ge_lib G))
       (gl_sign (ge_lib G) key (signature_message purpose deployment_id machine_id relay_id connection_id route_revision nonce))))"

subsection \<open>Enrolment\<close>

text \<open>The stream of the enrolment: the target that is open, if one is, the next stream, whether the operator
  confirmed a host key, and the bytes that went to the targets.\<close>

record enroll_stream =
  xs_target :: "nat option"
  xs_next :: nat
  xs_confirmed :: bool
  xs_to_target :: "(nat \<times> bytes) list"

datatype stream_event = EV_Frame socket_next | EV_Outbound relay_client_frame

definition stream_of :: "relay_client_frame \<Rightarrow> nat option" where
  "stream_of frame = (case frame of RC_StreamData s _ \<Rightarrow> Some s | RC_StreamHalfClosed s \<Rightarrow> Some s | RC_StreamClosed s _ \<Rightarrow> Some s | _ \<Rightarrow> None)"

definition enroll_write :: "agent_env \<Rightarrow> nat \<Rightarrow> bytes \<Rightarrow> enroll_stream \<Rightarrow> enroll_stream agent_op" where
  "enroll_write G stream_id data x =
     sr_bind (sr_lift (ok_or (rc_b64_decode (ge_codec G) data) RE_Protocol)) (\<lambda>decoded.
     if length decoded > MAX_DATA_BYTES then sr_throw RE_Protocol
     else if \<not> ge_write_ok G (length (xs_to_target x)) then sr_throw RE_Transport
     else sr_return (x\<lparr>xs_to_target := xs_to_target x @ [(stream_id, decoded)]\<rparr>))"

text \<open>One frame of the Server; \<open>None\<close> when the enrolment is activated.\<close>

definition enroll_frame :: "agent_env \<Rightarrow> bytes option \<Rightarrow> relay_server_frame \<Rightarrow> enroll_stream \<Rightarrow> enroll_stream option agent_op" where
  "enroll_frame G expected frame x = (case frame of
     RS_OpenStream stream_id \<Rightarrow>
       if xs_target x = None \<and> stream_id = xs_next x \<and> stream_id \<le> 2
       then if \<not> ge_target_connects G stream_id then sr_throw RE_Transport
         else sr_bind (agent_send G (RC_StreamOpened stream_id)) (\<lambda>_. sr_return (Some (x\<lparr>xs_target := Some stream_id, xs_next := xs_next x + 1\<rparr>)))
       else sr_throw RE_Protocol
   | RS_StreamData stream_id data \<Rightarrow>
       if xs_target x \<noteq> Some stream_id then sr_throw RE_Protocol
       else sr_bind (enroll_write G stream_id data x) (\<lambda>x'. sr_return (Some x'))
   | RS_StreamHalfClosed stream_id \<Rightarrow> if xs_target x \<noteq> Some stream_id then sr_throw RE_Protocol else sr_return (Some x)
   | RS_StreamClosed stream_id _ \<Rightarrow>
       if xs_target x \<noteq> Some stream_id then sr_throw RE_Protocol
       else sr_bind (agent_send G (RC_StreamClosed stream_id CR_Eof)) (\<lambda>_. sr_return (Some (x\<lparr>xs_target := None\<rparr>)))
   | RS_HostKey host_identity fingerprint \<Rightarrow>
       if xs_target x = None \<and> xs_next x = 2 \<and> \<not> xs_confirmed x
       then sr_bind (sr_lift (confirm_host_key (ge_lib G) (ge_host_tty G) host_identity fingerprint expected)) (\<lambda>_.
         sr_bind (agent_send G (RC_HostKeyAccepted host_identity)) (\<lambda>_. sr_return (Some (x\<lparr>xs_confirmed := True\<rparr>))))
       else sr_throw RE_Protocol
   | RS_Activated route_revision \<Rightarrow>
       if xs_target x = None
       then sr_bind (sr_modify (\<lambda>a. a\<lparr>ag_state := (ag_state a)\<lparr>ry_route_revision := Some route_revision\<rparr>\<rparr>)) (\<lambda>_.
         sr_bind (agent_persist G) (\<lambda>_. sr_return None))
       else sr_throw RE_Protocol
   | RS_Ping nonce \<Rightarrow> sr_bind (agent_send G (RC_Pong nonce)) (\<lambda>_. sr_return (Some x))
   | RS_Error code _ \<Rightarrow> sr_throw (RE_Remote code)
   | _ \<Rightarrow> sr_throw RE_Protocol)"

definition enroll_outbound :: "agent_env \<Rightarrow> relay_client_frame \<Rightarrow> enroll_stream \<Rightarrow> enroll_stream option agent_op" where
  "enroll_outbound G frame x = (case stream_of frame of
     None \<Rightarrow> sr_throw RE_Protocol
   | Some stream_id \<Rightarrow> if xs_target x = Some stream_id then sr_bind (agent_send G frame) (\<lambda>_. sr_return (Some x)) else sr_return (Some x))"

text \<open>The loop over what becomes ready; after the last event the deadline of 45 seconds passes.\<close>

fun enrollment_stream :: "agent_env \<Rightarrow> bytes option \<Rightarrow> stream_event list \<Rightarrow> enroll_stream \<Rightarrow> unit agent_op" where
  "enrollment_stream G expected [] x = sr_throw RE_Transport"
| "enrollment_stream G expected (event # events) x =
     sr_bind (case event of
         EV_Frame message \<Rightarrow> sr_bind (sr_lift (decode_next (ge_codec G) message)) (\<lambda>frame. enroll_frame G expected frame x)
       | EV_Outbound frame \<Rightarrow> enroll_outbound G frame x)
     (\<lambda>next. case next of None \<Rightarrow> sr_return () | Some x' \<Rightarrow> enrollment_stream G expected events x')"

text \<open>The first part of \<open>enroll\<close>: the token is accepted and what it stands for is written to the file.\<close>

definition enroll_accepted :: "agent_env \<Rightarrow> (uuid \<times> uuid \<times> int) agent_op" where
  "enroll_accepted G =
     sr_bind (sr_gets ag_state) (\<lambda>st.
     if ry_route_revision st \<noteq> None then sr_throw (RE_State ''Relay is already enrolled'')
     else sr_bind (sr_lift (read_token (ge_token G))) (\<lambda>token.
     if \<not> ge_connected G then sr_throw RE_Transport
     else sr_bind (agent_send G (RC_Token token)) (\<lambda>_.
     sr_bind (agent_receive G) (\<lambda>frame. case frame of
       RS_Accepted deployment_id machine_id attempt_id route_revision \<Rightarrow>
         sr_bind (sr_modify (\<lambda>a. a\<lparr>ag_state := (ag_state a)\<lparr>ry_deployment_id := Some deployment_id, ry_machine_id := Some machine_id,
            ry_route_revision := Some route_revision\<rparr>\<rparr>)) (\<lambda>_.
         sr_bind (agent_persist G) (\<lambda>_. sr_return (deployment_id, machine_id, route_revision)))
     | RS_Error code _ \<Rightarrow> sr_throw (RE_Remote code)
     | _ \<Rightarrow> sr_throw RE_Protocol))))"

definition enroll_proof :: "agent_env \<Rightarrow> bool \<Rightarrow> uuid \<times> uuid \<times> int \<Rightarrow> unit agent_op" where
  "enroll_proof G confirm_ready ids = (case ids of (deployment_id, machine_id, route_revision) \<Rightarrow>
     sr_bind (sr_gets ag_state) (\<lambda>st.
     sr_bind (sr_lift (map_err (\<lambda>_. RE_StateFile) (signing_key (ge_lib G) st))) (\<lambda>key.
     sr_bind (agent_send G (RC_Setup VERSION (ry_relay_id st) (b64_encode (gl_base64 (ge_lib G)) (gl_public_key (ge_lib G) key)) ''127.0.0.1:22'' (ry_target_account st))) (\<lambda>_.
     sr_bind (agent_receive G) (\<lambda>credential.
     sr_bind (sr_lift (confirm_target_authorization (ge_target_tty G) confirm_ready credential)) (\<lambda>_.
     sr_bind (agent_send G RC_Ready) (\<lambda>_.
     sr_bind (receive_challenge G) (\<lambda>(purpose, nonce).
     if purpose \<noteq> CP_Enrollment then sr_throw RE_Protocol
     else send_signature G key purpose deployment_id machine_id (ry_relay_id st) None route_revision nonce))))))))"

subsection \<open>The tunnel\<close>

text \<open>\<open>open_tunnel\<close>: the connection epoch the Server answers with.\<close>

definition open_tunnel :: "agent_env \<Rightarrow> bool \<Rightarrow> uuid \<Rightarrow> int agent_op" where
  "open_tunnel G connected connection_id =
     sr_bind (sr_gets ag_state) (\<lambda>st. case (ry_deployment_id st, ry_machine_id st, ry_route_revision st) of
       (Some deployment_id, Some machine_id, Some route_revision) \<Rightarrow>
         sr_bind (sr_lift (map_err (\<lambda>_. RE_StateFile) (signing_key (ge_lib G) st))) (\<lambda>key.
         if \<not> connected then sr_throw RE_Transport
         else sr_bind (agent_send G (RC_TunnelHello VERSION deployment_id machine_id (ry_relay_id st) connection_id route_revision)) (\<lambda>_.
         sr_bind (receive_challenge G) (\<lambda>(purpose, nonce).
         if purpose \<noteq> CP_Tunnel then sr_throw RE_Protocol
         else sr_bind (send_signature G key purpose deployment_id machine_id (ry_relay_id st) (Some connection_id) route_revision nonce) (\<lambda>_.
         sr_bind (agent_receive G) (\<lambda>frame. case frame of
           RS_TunnelEstablished connection_epoch \<Rightarrow> sr_return connection_epoch
         | RS_Error code _ \<Rightarrow> sr_throw (RE_Remote code)
         | _ \<Rightarrow> sr_throw RE_Protocol)))))
     | _ \<Rightarrow> sr_throw (RE_State ''Relay enrollment is incomplete''))"

definition confirm_enrollment :: "agent_env \<Rightarrow> bool \<Rightarrow> uuid \<Rightarrow> unit agent_op" where
  "confirm_enrollment G connected connection_id = sr_bind (open_tunnel G connected connection_id) (\<lambda>_. sr_return ())"

text \<open>\<open>enroll\<close>: a lost connection during the proof may follow the activation, so the tunnel decides.\<close>

definition enroll :: "agent_env \<Rightarrow> bool \<Rightarrow> bytes option \<Rightarrow> stream_event list \<Rightarrow> socket_next list \<Rightarrow> bool \<Rightarrow> uuid \<Rightarrow> unit agent_op" where
  "enroll G confirm_ready expected events tunnel_inbox connected connection_id =
     sr_bind (enroll_accepted G) (\<lambda>ids.
     sr_bind (enroll_proof G confirm_ready ids) (\<lambda>_.
     sr_bind (sr_try (enrollment_stream G expected events \<lparr>xs_target = None, xs_next = 1, xs_confirmed = False, xs_to_target = []\<rparr>)) (\<lambda>r.
     if is_ok r \<or> r = Err RE_Transport
     then sr_bind (sr_modify (\<lambda>a. a\<lparr>ag_inbox := tunnel_inbox\<rparr>)) (\<lambda>_. confirm_enrollment G connected connection_id)
     else sr_lift r)))"

text \<open>Whether \<open>start\<close> enrols before it runs.\<close>

definition start_enrolls :: "relay_state \<Rightarrow> bool" where
  "start_enrolls st \<longleftrightarrow> ry_deployment_id st = None \<or> ry_machine_id st = None \<or> ry_route_revision st = None"

section \<open>The file survives\<close>

definition lib_ok :: "agent_lib \<Rightarrow> bool" where
  "lib_ok L \<longleftrightarrow> base64_ok (gl_base64 L) \<and> (\<forall>st t. gl_show_state L st = Some t \<longrightarrow> gl_read_state L t = Some st)"

lemma state_persist_cases:
  assumes "state_persist L io st file = (r, file')"
  shows "(file' = file \<and> \<not> is_ok r) \<or> (\<exists>t. gl_show_state L st = Some t \<and> file' = Some \<lparr>sf_regular = True, sf_mode = 384, sf_bytes = t\<rparr>)"
  using assms by (auto simp: state_persist_def Let_def split: option.splits if_splits prod.splits)

definition complete :: "relay_state \<Rightarrow> bool" where
  "complete st \<longleftrightarrow> ry_deployment_id st \<noteq> None \<and> ry_machine_id st \<noteq> None \<and> ry_route_revision st \<noteq> None"

text \<open>The state that counts as enrolled, in memory and in the file.\<close>

definition written :: "agent_lib \<Rightarrow> agent \<Rightarrow> bool" where
  "written L a \<longleftrightarrow> complete (ag_state a) \<and> (\<exists>st t. complete st \<and> gl_show_state L st = Some t
     \<and> ag_file a = Some \<lparr>sf_regular = True, sf_mode = 384, sf_bytes = t\<rparr>)"

lemma agent_send_keeps: "(\<And>a. P a \<Longrightarrow> P (a\<lparr>ag_sent := ag_sent a @ [f]\<rparr>)) \<Longrightarrow> sr_keeps P (agent_send G f)"
  by (rule sr_keepsI) (auto simp: agent_send_def split: option.split)

lemma agent_receive_keeps: "(\<And>a i. P a \<Longrightarrow> P (a\<lparr>ag_inbox := i\<rparr>)) \<Longrightarrow> sr_keeps P (agent_receive G)"
  by (rule sr_keepsI) (auto simp: agent_receive_def split: list.split)

lemma agent_persist_keeps:
  assumes "\<And>a n. P a \<Longrightarrow> P (a\<lparr>ag_writes := n\<rparr>)"
    "\<And>a t n. P a \<Longrightarrow> gl_show_state (ge_lib G) (ag_state a) = Some t \<Longrightarrow> P (a\<lparr>ag_file := Some \<lparr>sf_regular = True, sf_mode = 384, sf_bytes = t\<rparr>, ag_writes := n\<rparr>)"
  shows "sr_keeps P (agent_persist G)"
proof (rule sr_keepsI)
  fix a :: agent assume P: "P a"
  obtain r f where p: "state_persist (ge_lib G) (ge_persist G (ag_writes a)) (ag_state a) (ag_file a) = (r, f)" by fastforce
  have "a\<lparr>ag_file := ag_file a, ag_writes := n\<rparr> = a\<lparr>ag_writes := n\<rparr>" for n by simp
  with state_persist_cases [OF p] assms(1) [OF P] assms(2) [OF P] show "P (snd (agent_persist G a))"
    by (auto simp: agent_persist_def p)
qed

lemma written_steps:
  "sr_keeps (written L) (agent_send G f)" "sr_keeps (written L) (agent_receive G)" "sr_keeps (written (ge_lib G)) (agent_persist G)"
  by (rule agent_send_keeps agent_receive_keeps agent_persist_keeps; force simp: written_def)+

lemma written_frame: "sr_keeps (written (ge_lib G)) (enroll_frame G expected frame x)"
  unfolding enroll_frame_def enroll_write_def
  by (cases frame) (auto intro!: sr_rules written_steps sr_keeps_modify simp: written_def complete_def)

lemma written_outbound: "sr_keeps (written (ge_lib G)) (enroll_outbound G frame x)"
  unfolding enroll_outbound_def by (intro sr_rules written_steps)

lemma written_stream: "sr_keeps (written (ge_lib G)) (enrollment_stream G expected events x)"
proof (induction events arbitrary: x)
  case (Cons event events)
  have "sr_keeps (written (ge_lib G)) (case event of
         EV_Frame message \<Rightarrow> sr_bind (sr_lift (decode_next (ge_codec G) message)) (\<lambda>frame. enroll_frame G expected frame x)
       | EV_Outbound frame \<Rightarrow> enroll_outbound G frame x)"
    by (cases event) (auto intro!: sr_rules written_frame written_outbound)
  then show ?case by (auto intro!: sr_rules Cons.IH)
qed (auto intro: sr_rules)

lemma written_challenge: "sr_keeps (written (ge_lib G)) (receive_challenge G)"
  unfolding receive_challenge_def
  by (intro sr_keeps_bind written_steps) (auto intro!: sr_rules split: relay_server_frame.split)

lemma written_tunnel: "sr_keeps (written (ge_lib G)) (open_tunnel G connected c)"
  unfolding open_tunnel_def send_signature_def
  by (intro sr_keeps_bind) (auto intro!: sr_rules written_steps written_challenge split: option.split prod.split relay_server_frame.split)

lemma written_proof: "sr_keeps (written (ge_lib G)) (enroll_proof G confirm ids)"
  unfolding enroll_proof_def send_signature_def
  by (cases ids) (auto intro!: sr_rules written_steps written_challenge split: prod.split)

lemma agent_persist_Ok:
  assumes "agent_persist G a = (Ok u, a')"
  shows "ag_state a' = ag_state a \<and> (\<exists>t. gl_show_state (ge_lib G) (ag_state a) = Some t \<and> ag_file a' = Some \<lparr>sf_regular = True, sf_mode = 384, sf_bytes = t\<rparr>)"
  using assms by (auto simp: agent_persist_def res_simps split: prod.splits dest!: state_persist_cases)

lemma enroll_accepted_writes:
  assumes "enroll_accepted G a = (Ok ids, a')"
  shows "written (ge_lib G) a'"
proof -
  from assms obtain frame b where b: "(case frame of RS_Accepted deployment_id machine_id attempt_id route_revision \<Rightarrow>
         sr_bind (sr_modify (\<lambda>a. a\<lparr>ag_state := (ag_state a)\<lparr>ry_deployment_id := Some deployment_id, ry_machine_id := Some machine_id,
            ry_route_revision := Some route_revision\<rparr>\<rparr>)) (\<lambda>_.
         sr_bind (agent_persist G) (\<lambda>_. sr_return (deployment_id, machine_id, route_revision)))
     | RS_Error code _ \<Rightarrow> sr_throw (RE_Remote code)
     | _ \<Rightarrow> sr_throw RE_Protocol) b = (Ok ids, a')"
    unfolding enroll_accepted_def by (auto simp: res_simps sr_leaf split: if_splits)
  then obtain d m v where *: "agent_persist G (b\<lparr>ag_state := (ag_state b)\<lparr>ry_deployment_id := Some d, ry_machine_id := Some m, ry_route_revision := Some v\<rparr>\<rparr>) = (Ok (), a')"
    by (cases frame) (auto simp: res_simps sr_leaf)
  have "complete ((ag_state b)\<lparr>ry_deployment_id := Some d, ry_machine_id := Some m, ry_route_revision := Some v\<rparr>)" by (simp add: complete_def)
  with agent_persist_Ok [OF *] show ?thesis by (auto simp: written_def)
qed

lemma enroll_written:
  assumes "enroll_accepted G a = (Ok ids, a1)" "enroll G confirm expected events inbox connected c a = (r, a')"
  shows "written (ge_lib G) a'"
proof -
  have "sr_keeps (written (ge_lib G)) (sr_bind (enroll_proof G confirm ids) (\<lambda>_.
     sr_bind (sr_try (enrollment_stream G expected events \<lparr>xs_target = None, xs_next = 1, xs_confirmed = False, xs_to_target = []\<rparr>)) (\<lambda>r.
     if is_ok r \<or> r = Err RE_Transport
     then sr_bind (sr_modify (\<lambda>a. a\<lparr>ag_inbox := inbox\<rparr>)) (\<lambda>_. confirm_enrollment G connected c) else sr_lift r)))"
    unfolding confirm_enrollment_def
    by (intro sr_rules written_proof written_stream written_tunnel sr_keeps_modify) (simp add: written_def)
  from sr_keepsD [OF this enroll_accepted_writes [OF assms(1)]] assms(2) show ?thesis
    unfolding enroll_def by (simp add: sr_bind_Ok_step [where m = "enroll_accepted G" and s = a, OF assms(1)])
qed

section \<open>What the Relay vouches for\<close>

text \<open>The operator trusts a host key when it is an Ed25519 key in canonical form and either its fingerprint is the one given
  on the command line or, if none was given, the line typed at the terminal is exactly \<open>yes\<close>.\<close>

definition operator_trusts_key :: "agent_env \<Rightarrow> bytes option \<Rightarrow> bytes \<Rightarrow> bool" where
  "operator_trusts_key G expected host_identity \<longleftrightarrow> (\<exists>algorithm key fingerprint. host_identity = algorithm @ '' '' @ key
     \<and> gl_openssh (ge_lib G) host_identity = Some (True, fingerprint)
     \<and> (case expected of
         Some x \<Rightarrow> x = fingerprint
       | None \<Rightarrow> \<exists>eol \<in> {[], [CHR 0x0A], [CHR 0x0D, CHR 0x0A]}. ge_host_tty G = Some (Some (''yes'' @ eol))))"

definition operator_confirms_target :: "agent_env \<Rightarrow> bool \<Rightarrow> bool" where
  "operator_confirms_target G confirm \<longleftrightarrow> confirm
     \<or> (\<exists>line. ge_target_tty G = Some (Some line) \<and> str_trim line \<in> {''y'', ''Y'', ''yes'', ''YES''})"

text \<open>A frame the enrolment may send, for the state it starts with: it accepts only a key the operator trusts, declares the target
  ready only when the operator confirmed it, and signs only challenges of 32 bytes, with its own key and in its own name.\<close>

definition warranted :: "agent_env \<Rightarrow> bool \<Rightarrow> bytes option \<Rightarrow> relay_state \<Rightarrow> relay_client_frame \<Rightarrow> bool" where
  "warranted G confirm expected st frame = (case frame of
     RC_HostKeyAccepted host_identity \<Rightarrow> operator_trusts_key G expected host_identity
   | RC_Ready \<Rightarrow> operator_confirms_target G confirm
   | RC_Signature signature \<Rightarrow> \<exists>key purpose d m c v nonce. signing_key (ge_lib G) st = Ok key \<and> signature = b64_encode (gl_base64 (ge_lib G))
         (gl_sign (ge_lib G) key (signature_message purpose d m (ry_relay_id st) c v nonce)) \<and> (purpose = CP_Tunnel \<longleftrightarrow> c \<noteq> None) \<and> length nonce = 32
   | _ \<Rightarrow> True)"

definition same_identity :: "relay_state \<Rightarrow> relay_state \<Rightarrow> bool" where
  "same_identity st st' \<longleftrightarrow> ry_secret_key st' = ry_secret_key st \<and> ry_relay_id st' = ry_relay_id st"

abbreviation vouched :: "agent_env \<Rightarrow> bool \<Rightarrow> bytes option \<Rightarrow> relay_state \<Rightarrow> agent \<Rightarrow> bool" where
  "vouched G confirm expected st \<equiv> \<lambda>a. list_all (warranted G confirm expected st) (ag_sent a) \<and> same_identity st (ag_state a)"

lemma confirmed_target: "confirm_target_authorization (ge_target_tty G) confirm credential = Ok u \<Longrightarrow> operator_confirms_target G confirm"
  by (auto simp: confirm_target_authorization_def operator_confirms_target_def split: relay_server_frame.splits if_splits option.splits)

lemma confirmed_key:
  assumes "confirm_host_key (ge_lib G) (ge_host_tty G) host_identity fingerprint expected = Ok u"
  shows "operator_trusts_key G expected host_identity"
proof -
  from assms obtain algorithm key where "host_identity = algorithm @ '' '' @ key" "gl_openssh (ge_lib G) host_identity = Some (True, fingerprint)"
    and "case expected of Some x \<Rightarrow> x = fingerprint | None \<Rightarrow> \<exists>line. ge_host_tty G = Some (Some line) \<and> is_exact_yes line"
    by (auto simp: confirm_host_key_def split: list.splits if_splits option.splits prod.splits)
  then show ?thesis
    unfolding operator_trusts_key_def is_exact_yes_def by (intro exI [of _ algorithm] exI [of _ key] exI [of _ fingerprint]) (auto split: option.splits)
qed

lemma vouched_send: "warranted G confirm expected st f \<Longrightarrow> sr_keeps (vouched G confirm expected st) (agent_send G f)"
  by (rule agent_send_keeps) simp

lemma vouched_steps:
  "sr_keeps (vouched G confirm expected st) (agent_receive G)" "sr_keeps (vouched G confirm expected st) (agent_persist G)"
  "sr_keeps (vouched G confirm expected st) (sr_modify (\<lambda>a. a\<lparr>ag_inbox := i\<rparr>))"
  "sr_keeps (vouched G confirm expected st) (sr_modify (\<lambda>a. a\<lparr>ag_state := (ag_state a)\<lparr>ry_route_revision := v\<rparr>\<rparr>))"
  "sr_keeps (vouched G confirm expected st) (sr_modify (\<lambda>a. a\<lparr>ag_state := (ag_state a)\<lparr>ry_deployment_id := d, ry_machine_id := m, ry_route_revision := v\<rparr>\<rparr>))"
  by (rule agent_receive_keeps agent_persist_keeps sr_keeps_modify; simp add: same_identity_def)+

lemma vouched_state:
  "(\<And>st'. same_identity st st' \<Longrightarrow> sr_keeps (vouched G confirm expected st) (f st')) \<Longrightarrow>
     sr_keeps (vouched G confirm expected st) (sr_bind (sr_gets ag_state) f)"
  by (auto simp: sr_keeps_def sr_bind_def sr_gets_def)

lemma client_decode_32_length: "client_decode_32 B v = Ok n \<Longrightarrow> length n = 32"
  by (auto simp: client_decode_32_def res_simps split: if_splits)

lemma challenge_length: "sr_yields (\<lambda>x. length (snd x) = 32) (receive_challenge G)"
proof (rule sr_yieldsI)
  fix s x t assume "receive_challenge G s = (Ok x, t)"
  then obtain frame u where "(case frame of
     RS_Challenge purpose nonce \<Rightarrow> sr_bind (sr_lift (client_decode_32 (gl_base64 (ge_lib G)) nonce)) (\<lambda>bs. sr_return (purpose, bs))
   | RS_Error code _ \<Rightarrow> sr_throw (RE_Remote code)
   | _ \<Rightarrow> sr_throw RE_Protocol) u = (Ok x, t)"
    unfolding receive_challenge_def sr_bind_eq_Ok by blast
  then show "length (snd x) = 32" by (cases frame) (auto simp: res_simps sr_leaf dest!: client_decode_32_length)
qed

lemma vouched_challenge: "sr_keeps (vouched G confirm expected st) (receive_challenge G)"
  unfolding receive_challenge_def
  by (intro sr_keeps_bind vouched_steps) (auto intro!: sr_rules split: relay_server_frame.split)

lemma vouched_signature:
  assumes "length nonce = 32" "purpose = CP_Tunnel \<longleftrightarrow> c \<noteq> None" "same_identity st st'" "signing_key (ge_lib G) st' = Ok key"
  shows "sr_keeps (vouched G confirm expected st) (send_signature G key purpose d m (ry_relay_id st') c v nonce)"
proof -
  from assms(3,4) have "signing_key (ge_lib G) st = Ok key" "ry_relay_id st' = ry_relay_id st" by (simp_all add: signing_key_def same_identity_def)
  with assms(1,2) show ?thesis
    unfolding send_signature_def
    by (intro vouched_send) (simp add: warranted_def, intro exI [of _ key] exI [of _ purpose] exI [of _ d] exI [of _ m] exI [of _ c] exI [of _ v] exI [of _ nonce], simp)
qed

lemma vouched_accepted: "sr_keeps (vouched G confirm expected st) (enroll_accepted G)"
  unfolding enroll_accepted_def
  by (intro sr_rules vouched_steps vouched_send) (auto simp: warranted_def intro!: sr_rules vouched_steps split: relay_server_frame.split)

lemma vouched_proof: "sr_keeps (vouched G confirm expected st) (enroll_proof G confirm ids)"
  unfolding enroll_proof_def
  by (cases ids)
    (auto intro!: vouched_state sr_keeps_bind_lift sr_rules vouched_steps vouched_send sr_keeps_bind_yields [OF vouched_challenge challenge_length] vouched_signature
      simp: warranted_def map_err_eq_Ok dest: confirmed_target split: prod.split)

lemma vouched_frame: "sr_keeps (vouched G confirm expected st) (enroll_frame G expected frame x)"
  unfolding enroll_frame_def enroll_write_def
  by (cases frame) (auto intro!: sr_keeps_bind_lift sr_rules vouched_steps vouched_send simp: warranted_def dest: confirmed_key)

lemma vouched_outbound: "sr_keeps (vouched G confirm expected st) (enroll_outbound G frame x)"
  unfolding enroll_outbound_def
  by (cases frame) (auto intro!: sr_rules vouched_send simp: stream_of_def warranted_def)

lemma vouched_stream: "sr_keeps (vouched G confirm expected st) (enrollment_stream G expected events x)"
proof (induction events arbitrary: x)
  case (Cons event events)
  have "sr_keeps (vouched G confirm expected st) (case event of
         EV_Frame message \<Rightarrow> sr_bind (sr_lift (decode_next (ge_codec G) message)) (\<lambda>frame. enroll_frame G expected frame x)
       | EV_Outbound frame \<Rightarrow> enroll_outbound G frame x)"
    by (cases event) (auto intro!: sr_rules vouched_frame vouched_outbound)
  then show ?case by (auto intro!: sr_rules Cons.IH)
qed (auto intro: sr_rules)

lemma vouched_tunnel: "sr_keeps (vouched G confirm expected st) (open_tunnel G connected c)"
  unfolding open_tunnel_def
  by (rule vouched_state) (auto intro!: sr_keeps_bind_lift sr_rules vouched_steps vouched_send sr_keeps_bind_yields [OF vouched_challenge challenge_length] vouched_signature
      simp: warranted_def map_err_eq_Ok split: option.split prod.split relay_server_frame.split)

lemma vouched_enroll: "sr_keeps (vouched G confirm expected st) (enroll G confirm expected events inbox connected c)"
  unfolding enroll_def confirm_enrollment_def
  by (intro sr_rules vouched_accepted vouched_proof vouched_stream vouched_steps vouched_tunnel)

section \<open>Properties\<close>

text \<open>The state file is written all or nothing: after a successful write it loads to the state that was
  written, and after a failed one it is either the file from before or loads to that state.\<close>

lemma state_file_round_trip:
  assumes "lib_ok L" "state_persist L io st before = (r, after)" "ry_protocol st = 1" "validate_account (ry_target_account st) = Ok ()"
    "signing_key L st = Ok key" "\<forall>t. gl_show_state L st = Some t \<longrightarrow> length t \<le> 16384"
  shows "state_load L True after = Ok st \<or> (\<not> is_ok r \<and> after = before)"
  using state_persist_cases [OF assms(2)] assms(1,3-6) by (auto simp: state_load_def lib_ok_def)

text \<open>C25. During its enrolment a Relay sends nothing the operator did not stand behind, whatever the Server sends it. It declares
  the target ready only if \<open>--confirm-ready\<close> was given or the operator typed \<open>y\<close> or \<open>yes\<close> at a terminal; it accepts only
  an Ed25519 host key whose fingerprint is the one given with \<open>--expected-host-key-sha256\<close> or, without that option, after
  the operator typed exactly \<open>yes\<close>; and it signs only challenges of 32 bytes, with its own key, in its own name and with a
  connection exactly for the tunnel purpose.\<close>

theorem relay_vouches_only_for_confirmed:
  assumes "enroll G confirm expected events inbox connected c a = (r, a')" "ag_sent a = []" "frame \<in> set (ag_sent a')"
  shows "warranted G confirm expected (ag_state a) frame"
  using sr_keepsD [OF vouched_enroll [where st = "ag_state a"] _ assms(1)] assms(2,3) by (simp add: list_all_iff same_identity_def)

text \<open>C26. An enrolment that fails after its token was accepted cannot be tried again: the route revision is
  already in the file, so \<open>enroll\<close> refuses the Relay as enrolled and \<open>start\<close> does not enrol it, whatever
  token it is given, until its identity is reset.\<close>

theorem failed_enrollment_cannot_be_retried:
  assumes "lib_ok (ge_lib G)" "enroll_accepted G a = (Ok ids, a1)" "enroll G confirm expected events inbox connected c a = (Err e, a')"
    "state_load (ge_lib G) readable (ag_file a') = Ok st"
  shows "\<not> start_enrolls st
    \<and> fst (enroll G' confirm' expected' events' inbox' connected' c' (a'\<lparr>ag_state := st\<rparr>)) = Err (RE_State ''Relay is already enrolled'')"
proof -
  from enroll_written [OF assms(2,3)] assms(1,4) have "complete st"
    by (auto simp: written_def state_load_def lib_ok_def res_simps split: if_splits)
  then show ?thesis
    by (auto simp: complete_def start_enrolls_def enroll_def enroll_accepted_def sr_bind_def sr_leaf)
qed

section \<open>Witnesses\<close>

definition sample_relay_state :: relay_state where
  "sample_relay_state = \<lparr>ry_protocol = 1, ry_relay_id = 5, ry_secret_key = replicate 32 CHR ''k'', ry_target_account = ''u'',
     ry_deployment_id = Some 1, ry_machine_id = Some 11, ry_route_revision = Some 1\<rparr>"

definition sample_lib :: agent_lib where
  "sample_lib = \<lparr>gl_base64 = \<lparr>b64_encode = (\<lambda>x. x), b64_decode = Some\<rparr>, gl_show_state = (\<lambda>st. if st = sample_relay_state then Some ''s'' else None),
     gl_read_state = (\<lambda>t. Some sample_relay_state), gl_public_key = (\<lambda>k. k), gl_sign = (\<lambda>k m. k @ m),
     gl_openssh = (\<lambda>h. Some (True, ''SHA256:f''))\<rparr>"

definition sample_persist :: persist_io where
  "sample_persist = \<lparr>pi_parent = Some (True, 448), pi_made = True, pi_written = True, pi_renamed = True, pi_synced = True\<rparr>"

definition sample_relay_codec :: relay_codec where
  "sample_relay_codec = \<lparr>rc_b64_encode = (\<lambda>x. x), rc_b64_decode = Some, rc_show_server = (\<lambda>_. None),
     rc_read_server = (\<lambda>t. if t = ''h'' then Some (RS_HostKey ''ssh-ed25519 k'' ''SHA256:f'') else if t = ''c'' then Some (RS_Credential 3 ''n'' ''p'' ''f'')
       else if t = ''n'' then Some (RS_Challenge CP_Enrollment (replicate 32 CHR ''n'')) else if t = ''o'' then Some (RS_OpenStream 1)
       else if t = ''x'' then Some (RS_StreamClosed 1 CR_Eof) else Some (RS_Accepted 1 11 31 1)),
     rc_show_client = (\<lambda>_. Some ''f''), rc_read_client = (\<lambda>_. None)\<rparr>"

definition sample_agent_env :: agent_env where
  "sample_agent_env = \<lparr>ge_lib = sample_lib, ge_codec = sample_relay_codec, ge_send_ok = (\<lambda>_. True), ge_persist = (\<lambda>_. sample_persist),
     ge_token = Some ''owlmux_enroll_v1_t'', ge_connected = True, ge_target_tty = Some (Some ''yes''), ge_host_tty = Some (Some ''yes''),
     ge_target_connects = (\<lambda>_. True), ge_write_ok = (\<lambda>_. True)\<rparr>"

definition sample_text :: "bytes \<Rightarrow> socket_next" where
  "sample_text t = Next_Message (WS_Text t)"

definition sample_agent :: agent where
  "sample_agent = \<lparr>ag_state = sample_relay_state\<lparr>ry_deployment_id := None, ry_machine_id := None, ry_route_revision := None\<rparr>, ag_file = None,
     ag_inbox = map sample_text [''a'', ''c'', ''n''], ag_sent = [], ag_writes = 0\<rparr>"

definition sample_events :: "stream_event list" where
  "sample_events = map (EV_Frame \<circ> sample_text) [''o'', ''x'', ''h'']"

lemma sample_lib_ok: "lib_ok sample_lib"
  by (simp add: lib_ok_def base64_ok_def sample_lib_def)

theorem state_file_round_trip_witness:
  "state_load sample_lib True (snd (state_persist sample_lib sample_persist sample_relay_state None)) = Ok sample_relay_state"
proof -
  have p: "state_persist sample_lib sample_persist sample_relay_state None = (Ok (), Some \<lparr>sf_regular = True, sf_mode = 384, sf_bytes = ''s''\<rparr>)"
    by (simp add: state_persist_def sample_persist_def sample_lib_def)
  have "validate_account (ry_target_account sample_relay_state) = Ok ()" by code_simp
  moreover have "signing_key sample_lib sample_relay_state = Ok (replicate 32 CHR ''k'')"
    by (simp add: signing_key_def sample_lib_def sample_relay_state_def)
  moreover have "ry_protocol sample_relay_state = 1" by (simp add: sample_relay_state_def)
  moreover have "\<forall>t. gl_show_state sample_lib sample_relay_state = Some t \<longrightarrow> length t \<le> 16384" by (simp add: sample_lib_def)
  ultimately show ?thesis using state_file_round_trip [OF sample_lib_ok p] by (simp add: p)
qed

lemma sample_accepted_by_relay: "fst (enroll_accepted sample_agent_env sample_agent) = Ok (1, 11, 1)"
  by code_simp

lemma sample_enroll_fails:
  "fst (enroll sample_agent_env False None sample_events [] False 41 sample_agent) = Err RE_Transport
    \<and> RC_HostKeyAccepted ''ssh-ed25519 k'' \<in> set (ag_sent (snd (enroll sample_agent_env False None sample_events [] False 41 sample_agent)))"
  by code_simp

theorem relay_vouches_only_for_confirmed_witness:
  "warranted sample_agent_env False None (ag_state sample_agent) (RC_HostKeyAccepted ''ssh-ed25519 k'')"
proof -
  have "ag_sent sample_agent = []" by (simp add: sample_agent_def)
  with sample_enroll_fails relay_vouches_only_for_confirmed show ?thesis by (metis prod.collapse)
qed

lemma sample_left_in_file:
  "state_load sample_lib True (ag_file (snd (enroll sample_agent_env False None sample_events [] False 41 sample_agent))) = Ok sample_relay_state"
  by code_simp

theorem failed_enrollment_cannot_be_retried_witness:
  "\<not> start_enrolls sample_relay_state"
proof -
  let ?e = "enroll sample_agent_env False None sample_events [] False 41 sample_agent"
  have a: "enroll_accepted sample_agent_env sample_agent = (Ok (1, 11, 1), snd (enroll_accepted sample_agent_env sample_agent))" "?e = (Err RE_Transport, snd ?e)"
    using sample_accepted_by_relay sample_enroll_fails by (metis prod.collapse)+
  have "lib_ok (ge_lib sample_agent_env)" "state_load (ge_lib sample_agent_env) True (ag_file (snd ?e)) = Ok sample_relay_state"
    using sample_lib_ok sample_left_in_file by (simp_all add: sample_agent_env_def)
  from failed_enrollment_cannot_be_retried [OF this(1) a this(2)] show ?thesis by blast
qed

end
