(* ===== verification/Enrollment.thy ===== *)
theory Enrollment
  imports Machine_System
begin

text \<open>
  The Server side of a Relay's connection before its tunnel runs (\<open>relay/mod.rs\<close>): the enrolment from the token
  to the activation (\<open>enrollment\<close>, \<open>continue_enrollment\<close>, \<open>resolve_enrollment_host_identity\<close>, the provisional SSH
  streams) and the authentication and claim of a tunnel (\<open>tunnel\<close>). The transactions are those of the owner
  database; Ed25519, JSON and base64 are parameters, and the outcomes of the SSH operations that run over a
  provisional stream are inputs.
\<close>

section \<open>The connection\<close>

record relay_session =
  es_lease :: node_lease
  es_tables :: relay_tables
  es_inbox :: "socket_next list"
  es_received :: "relay_client_frame list"
  es_sent :: "relay_server_frame list"

text \<open>\<open>ee_send_ok\<close> tells whether the frame with that number gets through, \<open>ee_others\<close> what other nodes did to the
  tables before an access; an empty inbox is a deadline that passes.\<close>

record enroll_env =
  ee_codec :: relay_codec
  ee_base64 :: base64
  ee_verify :: "bytes \<Rightarrow> bytes \<Rightarrow> bytes \<Rightarrow> bool option"
  ee_sha256 :: "bytes \<Rightarrow> bytes"
  ee_is_host :: "bytes \<Rightarrow> bool"
  ee_send_ok :: "nat \<Rightarrow> bool"
  ee_write_ok :: "nat \<Rightarrow> bool"
  ee_clock :: reading
  ee_clock_credential :: reading
  ee_tx :: "nat \<Rightarrow> tx_env"
  ee_fate :: "nat \<Rightarrow> db_fate"
  ee_others :: "nat \<Rightarrow> relay_tables \<Rightarrow> relay_tables"
  ee_credential_read :: bool
  ee_nonce :: bytes
  ee_in_time :: bool

type_synonym 'a enroll_op = "(relay_session, relay_error, 'a) sr"

definition es_check :: "reading \<Rightarrow> unit enroll_op" where
  "es_check rd s = (case lease_check rd (es_lease s) of (r, n) \<Rightarrow> (if is_ok r then Ok () else Err R_Fenced, s\<lparr>es_lease := n\<rparr>))"

definition es_decode :: "relay_codec \<Rightarrow> socket_next \<Rightarrow> relay_error + relay_client_frame" where
  "es_decode E message = (case message of
     Next_Closed \<Rightarrow> Err R_Unavailable
   | Next_Error \<Rightarrow> Err R_Protocol
   | Next_Message WS_Other \<Rightarrow> Err R_Protocol
   | Next_Message (WS_Text text) \<Rightarrow> if length text > MAX_FRAME_BYTES then Err R_Protocol else ok_or (rc_read_client E text) R_Protocol)"

definition es_receive :: "enroll_env \<Rightarrow> relay_client_frame enroll_op" where
  "es_receive E s = (case es_inbox s of
     [] \<Rightarrow> (Err R_Protocol, s)
   | message # rest \<Rightarrow> (case es_decode (ee_codec E) message of
         Inl e \<Rightarrow> (Err e, s\<lparr>es_inbox := rest\<rparr>)
       | Inr frame \<Rightarrow> (Ok frame, s\<lparr>es_inbox := rest, es_received := es_received s @ [frame]\<rparr>)))"

definition es_send :: "enroll_env \<Rightarrow> relay_server_frame \<Rightarrow> unit enroll_op" where
  "es_send E frame s = (case rc_show_server (ee_codec E) frame of
     None \<Rightarrow> (Err R_Protocol, s)
   | Some _ \<Rightarrow> if ee_send_ok E (length (es_sent s)) then (Ok (), s\<lparr>es_sent := es_sent s @ [frame]\<rparr>) else (Err R_Unavailable, s))"

definition relay_error_code :: "relay_error \<Rightarrow> bytes" where
  "relay_error_code e = (case e of
     R_InvalidToken \<Rightarrow> ''invalid_token''
   | R_InvalidState \<Rightarrow> ''invalid_state''
   | R_Conflict \<Rightarrow> ''invalid_state''
   | R_ProofFailed \<Rightarrow> ''proof_failed''
   | R_Protocol \<Rightarrow> ''protocol_error''
   | R_OwnerConflict \<Rightarrow> ''owner_conflict''
   | _ \<Rightarrow> ''temporarily_unavailable'')"

definition relay_error_message :: "relay_error \<Rightarrow> bytes" where
  "relay_error_message e = (case e of
     R_InvalidToken \<Rightarrow> ''Enrollment token is invalid or expired.''
   | R_InvalidState \<Rightarrow> ''Relay or Machine state is invalid.''
   | R_Conflict \<Rightarrow> ''Relay or Machine state is invalid.''
   | R_ProofFailed \<Rightarrow> ''Relay identity or SSH access proof failed.''
   | R_Protocol \<Rightarrow> ''Relay protocol frame is invalid.''
   | R_OwnerConflict \<Rightarrow> ''Machine already has a valid owner.''
   | _ \<Rightarrow> ''Relay service is temporarily unavailable.'')"

definition es_error :: "enroll_env \<Rightarrow> relay_error \<Rightarrow> 'a enroll_op" where
  "es_error E e = sr_bind (sr_try (es_send E (RS_Error (relay_error_code e) (relay_error_message e)))) (\<lambda>_ :: relay_error + unit. sr_throw e)"

definition es_tx :: "enroll_env \<Rightarrow> nat \<Rightarrow> (relay_error, 'a) tx \<Rightarrow> 'a enroll_op" where
  "es_tx E k tx s = (case tx \<lparr>tx_lease = es_lease s, tx_tables = ee_others E k (es_tables s)\<rparr> of (r, u) \<Rightarrow>
     (r, s\<lparr>es_lease := tx_lease u, es_tables := tx_tables u\<rparr>))"

definition server_decode_32 :: "base64 \<Rightarrow> bytes \<Rightarrow> relay_error + bytes" where
  "server_decode_32 B v = r_bind (ok_or (b64_decode B v) R_Protocol) (\<lambda>decoded.
     if length decoded \<noteq> 32 \<or> b64_encode B decoded \<noteq> v then Err R_Protocol else Ok decoded)"

definition decode_signature :: "base64 \<Rightarrow> bytes \<Rightarrow> relay_error + bytes" where
  "decode_signature B v = r_bind (ok_or (b64_decode B v) R_Protocol) (\<lambda>decoded. if length decoded \<noteq> 64 then Err R_Protocol else Ok decoded)"

text \<open>\<open>None\<close> stands for bytes that are no public key.\<close>

definition verify_signature :: "(bytes \<Rightarrow> bytes \<Rightarrow> bytes \<Rightarrow> bool option) \<Rightarrow> bytes \<Rightarrow> bytes \<Rightarrow> bytes \<Rightarrow> relay_error + unit" where
  "verify_signature verify public_key signature message = (case verify public_key signature message of
     None \<Rightarrow> Err R_Protocol
   | Some ok \<Rightarrow> if ok then Ok () else Err R_ProofFailed)"

section \<open>Provisional streams\<close>

text \<open>What becomes ready while an SSH operation runs over a provisional stream: its result (\<open>None\<close> for a failure), a
  frame of the task that reads its transport, or a message of the Relay.\<close>

datatype 'r provisional_event = PV_Done "'r option" | PV_Outbound relay_server_frame | PV_Message socket_next

definition open_provisional_stream :: "enroll_env \<Rightarrow> nat \<Rightarrow> unit enroll_op" where
  "open_provisional_stream E stream_id =
     sr_bind (es_send E (RS_OpenStream stream_id)) (\<lambda>_.
     sr_bind (es_receive E) (\<lambda>frame. if frame = RC_StreamOpened stream_id then sr_return () else sr_throw R_ProofFailed))"

definition provisional_write :: "enroll_env \<Rightarrow> bytes \<Rightarrow> bool \<Rightarrow> relay_error + unit" where
  "provisional_write E data ok = r_bind (ok_or (b64_decode (ee_base64 E) data) R_Protocol) (\<lambda>decoded.
     if length decoded > MAX_DATA_BYTES then Err R_Protocol else if ok then Ok () else Err R_Unavailable)"

fun provisional_loop :: "enroll_env \<Rightarrow> nat \<Rightarrow> nat \<Rightarrow> 'r provisional_event list \<Rightarrow> (relay_error + 'r) enroll_op" where
  "provisional_loop E stream_id k [] = sr_throw R_Protocol"
| "provisional_loop E stream_id k (event # events) = (case event of
     PV_Done r \<Rightarrow> sr_return (ok_or r R_ProofFailed)
   | PV_Outbound frame \<Rightarrow> sr_bind (es_send E frame) (\<lambda>_. provisional_loop E stream_id (k + 1) events)
   | PV_Message message \<Rightarrow> sr_bind (sr_lift (es_decode (ee_codec E) message)) (\<lambda>frame. case frame of
       RC_StreamData received data \<Rightarrow> if received = stream_id
         then sr_bind (sr_lift (provisional_write E data (ee_write_ok E k))) (\<lambda>_. provisional_loop E stream_id (k + 1) events)
         else sr_return (Err R_Protocol)
     | RC_StreamHalfClosed received \<Rightarrow> if received = stream_id
         then (if ee_write_ok E k then provisional_loop E stream_id (k + 1) events else sr_throw R_Unavailable)
         else sr_return (Err R_Protocol)
     | RC_StreamClosed received _ \<Rightarrow> if received = stream_id
         then (if ee_write_ok E k then provisional_loop E stream_id (k + 1) events else sr_throw R_Unavailable)
         else sr_return (Err R_Protocol)
     | _ \<Rightarrow> sr_return (Err R_Protocol)))"

text \<open>After the stream is closed, its remaining frames are read until the Relay closes it too.\<close>

fun provisional_drain :: "relay_codec \<Rightarrow> nat \<Rightarrow> socket_next list \<Rightarrow> (relay_error + unit) \<times> socket_next list" where
  "provisional_drain E stream_id [] = (Err R_Protocol, [])"
| "provisional_drain E stream_id (message # rest) = (case es_decode E message of
     Inl e \<Rightarrow> (Err e, rest)
   | Inr (RC_StreamClosed received _) \<Rightarrow> if received = stream_id then (Ok (), rest) else (Err R_Protocol, rest)
   | Inr (RC_StreamData received _) \<Rightarrow> if received = stream_id then provisional_drain E stream_id rest else (Err R_Protocol, rest)
   | Inr (RC_StreamHalfClosed received) \<Rightarrow> if received = stream_id then provisional_drain E stream_id rest else (Err R_Protocol, rest)
   | Inr _ \<Rightarrow> (Err R_Protocol, rest))"

definition es_drain :: "enroll_env \<Rightarrow> nat \<Rightarrow> unit enroll_op" where
  "es_drain E stream_id s = (case provisional_drain (ee_codec E) stream_id (es_inbox s) of (r, rest) \<Rightarrow> (r, s\<lparr>es_inbox := rest\<rparr>))"

definition run_provisional_stream :: "enroll_env \<Rightarrow> nat \<Rightarrow> 'r provisional_event list \<Rightarrow> 'r enroll_op" where
  "run_provisional_stream E stream_id events =
     sr_bind (provisional_loop E stream_id 0 events) (\<lambda>result.
     sr_bind (es_send E (RS_StreamClosed stream_id CR_Eof)) (\<lambda>_.
     sr_bind (es_drain E stream_id) (\<lambda>_. sr_lift result)))"

section \<open>Enrolment\<close>

text \<open>What the SSH operations of one enrolment give: a discovered host key with its fingerprint, and the proof of
  access with the machine's credential, which depends on the host key it is run against.\<close>

record ssh_script =
  sc_discovery :: "(bytes \<times> bytes) provisional_event list"
  sc_proof :: "bytes \<Rightarrow> unit provisional_event list"

definition es_audit :: "bytes \<Rightarrow> bytes \<Rightarrow> bytes \<Rightarrow> uuid \<Rightarrow> bool \<Rightarrow> unit enroll_op" where
  "es_audit action good bad machine_id ok = sr_modify (\<lambda>s. s\<lparr>es_tables := (es_tables s)\<lparr>rt_audit := rt_audit (es_tables s)
     @ [audit ''machine'' (Some machine_id) None action (if ok then good else bad)]\<rparr>\<rparr>)"

definition resolve_enrollment_host_identity :: "enroll_env \<Rightarrow> ssh_script \<Rightarrow> accepted_enrollment \<Rightarrow> (bytes \<times> nat) enroll_op" where
  "resolve_enrollment_host_identity E script ac = (case ac_host_identity ac of
     Some host_identity \<Rightarrow> if \<not> ee_is_host E host_identity then sr_throw R_InvalidState else sr_return (host_identity, 1)
   | None \<Rightarrow>
       sr_bind (open_provisional_stream E 1) (\<lambda>_.
       sr_bind (sr_try (run_provisional_stream E 1 (sc_discovery script))) (\<lambda>discovery.
       sr_bind (es_audit ''ssh_discover_host_key'' ''success'' ''rejected'' (ac_machine_id ac) (is_ok discovery)) (\<lambda>_.
       sr_bind (sr_lift discovery) (\<lambda>(public_key, fingerprint).
       sr_bind (es_send E (RS_HostKey public_key fingerprint)) (\<lambda>_.
       sr_bind (es_receive E) (\<lambda>frame.
       if frame = RC_HostKeyAccepted public_key then sr_return (public_key, 2) else es_error E R_InvalidState)))))))"

definition enrollment_credential :: "enroll_env \<Rightarrow> accepted_enrollment \<Rightarrow> relay_server_frame enroll_op" where
  "enrollment_credential E ac =
     sr_bind (sr_modify (\<lambda>s. s\<lparr>es_tables := ee_others E 1 (es_tables s)\<rparr>)) (\<lambda>_.
     sr_bind (sr_gets es_tables) (\<lambda>t.
     if \<not> ee_credential_read E then sr_throw R_Unavailable
     else (case List.find (\<lambda>m. mc_id m = ac_machine_id ac \<and> mc_lifecycle m = LC_Verifying \<and> mc_route_revision m = ac_route_revision ac) (rt_machines t) of
         None \<Rightarrow> sr_throw R_InvalidState
       | Some m \<Rightarrow> (case List.find (\<lambda>c. cr_id c = mc_credential_id m \<and> cr_status c = CR_Active) (rt_credentials t) of
             None \<Rightarrow> sr_throw R_InvalidState
           | Some c \<Rightarrow> sr_bind (es_check (ee_clock_credential E)) (\<lambda>_.
               sr_return (RS_Credential (cr_id c) (cr_name c) (cr_public_key c) (cr_fingerprint c)))))))"

text \<open>The frames up to the signature: the identity of the Relay and its key, proven for this connection's nonce.\<close>

definition prove_relay :: "enroll_env \<Rightarrow> accepted_enrollment \<Rightarrow> (uuid \<times> bytes) enroll_op" where
  "prove_relay E ac =
     sr_bind (es_send E (RS_Accepted (ac_deployment_id ac) (ac_machine_id ac) (ac_attempt_id ac) (ac_route_revision ac))) (\<lambda>_.
     sr_bind (es_receive E) (\<lambda>setup. case setup of
       RC_Setup protocol relay_id public_key endpoint observed_account \<Rightarrow>
         if protocol = VERSION \<and> endpoint = ''127.0.0.1:22'' \<and> observed_account = ac_target_account ac then
           sr_bind (sr_lift (server_decode_32 (ee_base64 E) public_key)) (\<lambda>key.
           sr_bind (enrollment_credential E ac) (\<lambda>credential.
           sr_bind (es_send E credential) (\<lambda>_.
           sr_bind (es_receive E) (\<lambda>ready.
           if ready \<noteq> RC_Ready then es_error E R_Protocol
           else sr_bind (es_send E (RS_Challenge CP_Enrollment (b64_encode (ee_base64 E) (ee_nonce E)))) (\<lambda>_.
           sr_bind (es_receive E) (\<lambda>answer. case answer of
             RC_Signature text \<Rightarrow>
               sr_bind (sr_lift (decode_signature (ee_base64 E) text)) (\<lambda>signature.
               sr_bind (sr_lift (verify_signature (ee_verify E) key signature
                 (signature_message CP_Enrollment (ac_deployment_id ac) (ac_machine_id ac) relay_id None (ac_route_revision ac) (ee_nonce E)))) (\<lambda>_.
               sr_return (relay_id, key)))
           | _ \<Rightarrow> es_error E R_Protocol))))))
         else es_error E R_InvalidState
     | _ \<Rightarrow> es_error E R_InvalidState))"

definition continue_enrollment :: "enroll_env \<Rightarrow> ssh_script \<Rightarrow> accepted_enrollment \<Rightarrow> unit enroll_op" where
  "continue_enrollment E script ac =
     sr_bind (prove_relay E ac) (\<lambda>(relay_id, public_key).
     sr_bind (resolve_enrollment_host_identity E script ac) (\<lambda>(host_identity, stream_id).
     sr_bind (open_provisional_stream E stream_id) (\<lambda>_.
     sr_bind (sr_try (run_provisional_stream E stream_id (sc_proof script host_identity))) (\<lambda>proof.
     sr_bind (es_audit ''ssh_verify_access'' ''success'' ''rejected'' (ac_machine_id ac) (is_ok proof)) (\<lambda>_.
     sr_bind (sr_lift proof) (\<lambda>_.
     sr_bind (es_tx E 2 (activate (ee_fate E 2) (ee_is_host E) (ee_tx E 2) ac relay_id public_key host_identity)) (\<lambda>_.
     es_send E (RS_Activated (ac_route_revision ac)))))))))"

text \<open>\<open>enrollment\<close>. Its deadline may cut the part after the acceptance anywhere: then the inputs end there and the
  result is \<open>InvalidState\<close>. A failure of \<open>fail_attempt\<close> is ignored.\<close>

definition enrollment :: "enroll_env \<Rightarrow> ssh_script \<Rightarrow> unit enroll_op" where
  "enrollment E script =
     sr_bind (es_check (ee_clock E)) (\<lambda>_.
     sr_bind (es_receive E) (\<lambda>frame. case frame of
       RC_Token token \<Rightarrow>
         sr_bind (es_tx E 0 (accept_token (ee_fate E 0) (ee_sha256 E) (ee_tx E 0) token)) (\<lambda>ac.
         sr_bind (sr_try (continue_enrollment E script ac)) (\<lambda>r.
         let result = (if ee_in_time E then r else Err R_InvalidState) in
         if is_ok result then sr_return ()
         else sr_bind (sr_try (es_tx E 3 (fail_attempt (ee_fate E 3) (ee_tx E 3) ac))) (\<lambda>_ :: relay_error + unit. sr_lift result)))
     | _ \<Rightarrow> es_error E R_Protocol))"

section \<open>A tunnel\<close>

text \<open>The part of \<open>tunnel\<close> before the claim: who the Relay is, and the connection it asks for.\<close>

definition authenticate_tunnel :: "enroll_env \<Rightarrow> bool \<Rightarrow> (uuid \<times> uuid \<times> int) enroll_op" where
  "authenticate_tunnel E binding_read =
     sr_bind (es_check (ee_clock E)) (\<lambda>_.
     sr_bind (es_receive E) (\<lambda>hello. case hello of
       RC_TunnelHello protocol deployment_id machine_id relay_id connection_id route_revision \<Rightarrow>
         if protocol \<noteq> VERSION then es_error E R_Protocol
         else sr_bind (sr_modify (\<lambda>s. s\<lparr>es_tables := ee_others E 0 (es_tables s)\<rparr>)) (\<lambda>_.
         sr_bind (sr_gets es_tables) (\<lambda>t.
         if \<not> binding_read then sr_throw R_Unavailable
         else sr_bind (sr_lift (binding_key machine_id relay_id route_revision t)) (\<lambda>public_key.
         if deployment_id \<noteq> te_deployment_id (ee_tx E 0) then es_error E R_InvalidState
         else sr_bind (es_send E (RS_Challenge CP_Tunnel (b64_encode (ee_base64 E) (ee_nonce E)))) (\<lambda>_.
         sr_bind (es_receive E) (\<lambda>answer. case answer of
           RC_Signature text \<Rightarrow>
             sr_bind (sr_lift (decode_signature (ee_base64 E) text)) (\<lambda>signature.
             sr_bind (sr_lift (verify_signature (ee_verify E) public_key signature
               (signature_message CP_Tunnel deployment_id machine_id relay_id (Some connection_id) route_revision (ee_nonce E)))) (\<lambda>_.
             sr_return (machine_id, connection_id, route_revision)))
         | _ \<Rightarrow> es_error E R_Protocol)))))
     | _ \<Rightarrow> es_error E R_Protocol))"

section \<open>What a step that succeeds has seen\<close>

lemma es_error_fails [simp]: "es_error E e s \<noteq> (Ok a, s')"
  by (auto simp: es_error_def res_simps sr_leaf)

lemma es_check_Ok: "es_check rd s = (Ok u, s') \<Longrightarrow> es_received s' = es_received s \<and> es_tables s' = es_tables s \<and> es_sent s' = es_sent s"
  by (auto simp: es_check_def split: prod.splits if_splits)

lemma es_receive_Ok:
  "es_receive E s = (Ok frame, s') \<Longrightarrow> es_received s' = es_received s @ [frame] \<and> es_tables s' = es_tables s \<and> es_sent s' = es_sent s"
  by (auto simp: es_receive_def split: list.splits sum.splits)

lemma es_send_Ok:
  "es_send E frame s = (Ok u, s') \<Longrightarrow> es_received s' = es_received s \<and> es_tables s' = es_tables s \<and> es_sent s' = es_sent s @ [frame]"
  by (auto simp: es_send_def split: option.splits if_splits)

lemma es_tx_Ok:
  assumes "es_tx E k tx s = (Ok a, s')"
  shows "\<exists>u. tx \<lparr>tx_lease = es_lease s, tx_tables = ee_others E k (es_tables s)\<rparr> = (Ok a, u) \<and> es_tables s' = tx_tables u
    \<and> es_received s' = es_received s \<and> es_sent s' = es_sent s"
  using assms by (auto simp: es_tx_def split: prod.splits)

lemmas es_steps = es_check_Ok es_receive_Ok es_send_Ok es_tx_Ok

lemma verified_signature: "verify_signature verify key signature message = Ok u \<Longrightarrow> verify key signature message = Some True"
  by (auto simp: verify_signature_def split: option.splits if_splits)

lemma enrollment_credential_Ok: "enrollment_credential E ac s = (Ok f, s') \<Longrightarrow> es_received s' = es_received s"
  by (auto simp: enrollment_credential_def res_simps sr_leaf dest!: es_check_Ok split: if_splits option.splits)

text \<open>A frame of another kind than the one expected is answered with an error.\<close>

lemma expected_frame:
  "(case frame of RC_Token token \<Rightarrow> f token | _ \<Rightarrow> es_error E e) s = (Ok a, s') \<longleftrightarrow> (\<exists>token. frame = RC_Token token \<and> f token s = (Ok a, s'))"
  "(case frame of RC_Setup p r k h q \<Rightarrow> g p r k h q | _ \<Rightarrow> es_error E e) s = (Ok a, s')
     \<longleftrightarrow> (\<exists>p r k h q. frame = RC_Setup p r k h q \<and> g p r k h q s = (Ok a, s'))"
  "(case frame of RC_Signature text \<Rightarrow> f text | _ \<Rightarrow> es_error E e) s = (Ok a, s') \<longleftrightarrow> (\<exists>text. frame = RC_Signature text \<and> f text s = (Ok a, s'))"
  "(case frame of RC_TunnelHello p d m r c v \<Rightarrow> h p d m r c v | _ \<Rightarrow> es_error E e) s = (Ok a, s')
     \<longleftrightarrow> (\<exists>p d m r c v. frame = RC_TunnelHello p d m r c v \<and> h p d m r c v s = (Ok a, s'))"
  by (cases frame; simp)+

lemma guarded_error:
  "(if b then f else es_error E e) s = (Ok a, s') \<longleftrightarrow> b \<and> f s = (Ok a, s')"
  "(if b then es_error E e else f) s = (Ok a, s') \<longleftrightarrow> \<not> b \<and> f s = (Ok a, s')"
  by simp_all

lemma prove_relay_Ok:
  assumes "prove_relay E ac s = (Ok (relay_id, key), s')"
  shows "\<exists>key_text text signature. es_received s' = es_received s
      @ [RC_Setup VERSION relay_id key_text ''127.0.0.1:22'' (ac_target_account ac), RC_Ready, RC_Signature text]
    \<and> server_decode_32 (ee_base64 E) key_text = Ok key \<and> decode_signature (ee_base64 E) text = Ok signature
    \<and> ee_verify E key signature (signature_message CP_Enrollment (ac_deployment_id ac) (ac_machine_id ac) relay_id None (ac_route_revision ac) (ee_nonce E)) = Some True"
  using assms
  by (auto simp: prove_relay_def res_simps sr_leaf expected_frame guarded_error
      dest!: es_send_Ok es_receive_Ok enrollment_credential_Ok verified_signature)

lemma provisional_frame:
  "(case frame of RC_StreamData received data \<Rightarrow> f received data | RC_StreamHalfClosed received \<Rightarrow> g received
     | RC_StreamClosed received reason \<Rightarrow> h received reason | _ \<Rightarrow> sr_return (Err R_Protocol)) s = (Ok (Ok r), s')
   \<longleftrightarrow> (\<exists>received data. frame = RC_StreamData received data \<and> f received data s = (Ok (Ok r), s'))
     \<or> (\<exists>received. frame = RC_StreamHalfClosed received \<and> g received s = (Ok (Ok r), s'))
     \<or> (\<exists>received reason. frame = RC_StreamClosed received reason \<and> h received reason s = (Ok (Ok r), s'))"
  by (cases frame) (simp_all add: sr_leaf)

lemma provisional_loop_Ok:
  "provisional_loop E stream_id k events s = (Ok (Ok r), s') \<Longrightarrow>
     PV_Done (Some r) \<in> set events \<and> es_received s' = es_received s \<and> es_tables s' = es_tables s"
proof (induction events arbitrary: k s)
  case (Cons event events)
  show ?case
  proof (cases event)
    case (PV_Done x)
    with Cons.prems show ?thesis by (cases x) (auto simp: sr_leaf)
  next
    case (PV_Outbound frame)
    with Cons show ?thesis by (fastforce simp: res_simps dest!: es_send_Ok)
  next
    case (PV_Message message)
    with Cons.prems obtain k' where "provisional_loop E stream_id k' events s = (Ok (Ok r), s')"
      by (auto simp: res_simps sr_leaf provisional_frame split: if_splits)
    with Cons.IH show ?thesis by auto
  qed
qed (simp add: sr_leaf)

lemma run_provisional_stream_Ok:
  assumes "run_provisional_stream E stream_id events s = (Ok r, s')"
  shows "PV_Done (Some r) \<in> set events \<and> es_received s' = es_received s \<and> es_tables s' = es_tables s"
proof -
  from assms obtain u v where "provisional_loop E stream_id 0 events s = (Ok (Ok r), u)"
    "es_send E (RS_StreamClosed stream_id CR_Eof) u = (Ok (), v)" "es_drain E stream_id v = (Ok (), s')"
    by (auto simp: run_provisional_stream_def res_simps sr_leaf)
  then show ?thesis
    by (auto simp: es_drain_def dest!: provisional_loop_Ok es_send_Ok split: prod.splits)
qed

lemma open_provisional_stream_Ok:
  "open_provisional_stream E stream_id s = (Ok u, s') \<Longrightarrow>
     es_received s' = es_received s @ [RC_StreamOpened stream_id] \<and> es_tables s' = es_tables s"
  by (auto simp: open_provisional_stream_def res_simps sr_leaf dest!: es_send_Ok es_receive_Ok split: if_splits)

lemma es_audit_Ok: "es_audit action good bad i ok s = (r, s') \<Longrightarrow> es_received s' = es_received s \<and> rt_bindings (es_tables s') = rt_bindings (es_tables s)"
  by (auto simp: es_audit_def sr_leaf)

lemma host_identity_Ok:
  assumes "resolve_enrollment_host_identity E script ac s = (Ok (host, stream_id), s')"
  shows "(case ac_host_identity ac of
      Some pinned \<Rightarrow> host = pinned \<and> stream_id = 1 \<and> ee_is_host E host \<and> es_received s' = es_received s
    | None \<Rightarrow> (\<exists>fingerprint. PV_Done (Some (host, fingerprint)) \<in> set (sc_discovery script)) \<and> stream_id = 2
        \<and> es_received s' = es_received s @ [RC_StreamOpened 1, RC_HostKeyAccepted host])"
proof (cases "ac_host_identity ac")
  case None
  with assms show ?thesis
    by (auto simp: resolve_enrollment_host_identity_def res_simps sr_leaf guarded_error sr_try_Ok split: prod.splits
        dest!: open_provisional_stream_Ok run_provisional_stream_Ok es_audit_Ok es_send_Ok es_receive_Ok)
qed (use assms in \<open>auto simp: resolve_enrollment_host_identity_def sr_leaf split: if_splits\<close>)

lemma activate_Ok:
  assumes "activate fate is_host V ac relay_id public_key h s = (Ok u, s')"
  shows "is_host h \<and> (\<exists>b. b \<in> set (rt_bindings (tx_tables s')) \<and> bi_machine_id b = ac_machine_id ac \<and> bi_relay_id b = relay_id
    \<and> bi_public_key b = public_key \<and> bi_route_revision b = ac_route_revision ac \<and> bi_status b = BI_Active)"
  using assms by (auto simp: activate_def run_transaction_def activate_tables_def split: db_fate.splits prod.splits sum.splits if_splits dest!: activate_effect)

section \<open>Activation and authentication\<close>

lemma continue_enrollment_Ok:
  assumes "continue_enrollment E script ac s = (Ok u, s')"
  shows "\<exists>relay_id key host s1 s2 stream_id. prove_relay E ac s = (Ok (relay_id, key), s1)
    \<and> resolve_enrollment_host_identity E script ac s1 = (Ok (host, stream_id), s2)
    \<and> es_received s' = es_received s2 @ [RC_StreamOpened stream_id] \<and> PV_Done (Some ()) \<in> set (sc_proof script host) \<and> ee_is_host E host
    \<and> (\<exists>b. b \<in> set (rt_bindings (es_tables s')) \<and> bi_machine_id b = ac_machine_id ac \<and> bi_relay_id b = relay_id
        \<and> bi_public_key b = key \<and> bi_route_revision b = ac_route_revision ac \<and> bi_status b = BI_Active)
    \<and> last (es_sent s') = RS_Activated (ac_route_revision ac)"
  using assms unfolding continue_enrollment_def
  by (auto simp: res_simps sr_leaf sr_try_Ok split: prod.splits
      dest!: open_provisional_stream_Ok run_provisional_stream_Ok es_audit_Ok es_send_Ok es_tx_Ok activate_Ok)

text \<open>A sample connection: the machine of the sample tables is enrolled by a Relay that discovers its host key.\<close>

definition sample_key :: bytes where "sample_key = replicate 32 CHR ''k''"

definition sample_signature :: bytes where "sample_signature = sample_key @ sample_key"

definition sample_read :: "bytes \<Rightarrow> relay_client_frame option" where
  "sample_read text = (if text = ''token'' then Some (RC_Token sample_token)
     else if text = ''setup'' then Some (RC_Setup VERSION 31 sample_key ''127.0.0.1:22'' ''dev'')
     else if text = ''ready'' then Some RC_Ready
     else if text = ''signature'' then Some (RC_Signature sample_signature)
     else if text = ''opened 1'' then Some (RC_StreamOpened 1)
     else if text = ''closed 1'' then Some (RC_StreamClosed 1 CR_Eof)
     else if text = ''host key'' then Some (RC_HostKeyAccepted ''host'')
     else if text = ''opened 2'' then Some (RC_StreamOpened 2)
     else if text = ''closed 2'' then Some (RC_StreamClosed 2 CR_Eof)
     else if text = ''hello'' then Some (RC_TunnelHello VERSION (te_deployment_id (sample_env 12)) 11 31 41 1) else None)"

definition sample_connection :: enroll_env where
  "sample_connection = \<lparr>
     ee_codec = \<lparr>rc_b64_encode = id, rc_b64_decode = Some, rc_show_server = (\<lambda>_. Some []), rc_read_server = (\<lambda>_. None),
       rc_show_client = (\<lambda>_. None), rc_read_client = sample_read\<rparr>,
     ee_base64 = \<lparr>b64_encode = id, b64_decode = Some\<rparr>, ee_verify = (\<lambda>key signature message. Some (signature = key @ key)),
     ee_sha256 = sample_sha, ee_is_host = (\<lambda>_. True), ee_send_ok = (\<lambda>_. True), ee_write_ok = (\<lambda>_. True),
     ee_clock = Ok 90, ee_clock_credential = Ok 90, ee_tx = (\<lambda>k. sample_env (12 + of_nat k)), ee_fate = (\<lambda>_. DB_Commit),
     ee_others = (\<lambda>_. id), ee_credential_read = True, ee_nonce = sample_key, ee_in_time = True\<rparr>"

definition sample_session :: "relay_tables \<Rightarrow> bytes list \<Rightarrow> relay_session" where
  "sample_session t texts = \<lparr>es_lease = sample_node, es_tables = t, es_inbox = map (\<lambda>text. Next_Message (WS_Text text)) texts,
     es_received = [], es_sent = []\<rparr>"

definition sample_script :: ssh_script where
  "sample_script = \<lparr>sc_discovery = [PV_Done (Some (''host'', ''fingerprint''))], sc_proof = (\<lambda>host. [PV_Done (if host = ''host'' then Some () else None)])\<rparr>"

definition sample_enrolment :: relay_session where
  "sample_enrolment = sample_session sample_created
     [''token'', ''setup'', ''ready'', ''signature'', ''opened 1'', ''closed 1'', ''host key'', ''opened 2'', ''closed 2'']"

text \<open>How the sample connection answers each operation.\<close>

lemma sample_check: "es_lease s = sample_node \<Longrightarrow> es_check (Ok 90) s = (Ok (), s)"
  by (cases s) (simp add: es_check_def sample_defs is_ok_def)

lemma sample_send: "es_send sample_connection frame s = (Ok (), s\<lparr>es_sent := es_sent s @ [frame]\<rparr>)"
  by (simp add: es_send_def sample_connection_def)

lemma sample_receive:
  assumes "es_inbox s = Next_Message (WS_Text text) # rest" "length text < 10" "sample_read text = Some frame"
  shows "es_receive sample_connection s = (Ok frame, s\<lparr>es_inbox := rest, es_received := es_received s @ [frame]\<rparr>)"
  using assms by (simp add: es_receive_def es_decode_def sample_connection_def)

lemma sample_token_accepted: "accept_token DB_Commit sample_sha (sample_env 12) sample_token \<lparr>tx_lease = sample_node, tx_tables = sample_created\<rparr>
    = (Ok sample_accepted, \<lparr>tx_lease = sample_node, tx_tables = sample_enrolled\<rparr>)"
  using sample_valid(2)
  by (simp add: accept_token_def accept_body_def token_digest_def sample_sha_def issued_enrollment_def machine_of_def
      sample_defs sample_tables sample_accepted_def Let_def)

lemma sample_activates:
  "fst (activate DB_Commit (\<lambda>_. True) (sample_env 14) sample_accepted 31 sample_key ''host'' \<lparr>tx_lease = sample_node, tx_tables = sample_enrolled\<lparr>rt_audit := a\<rparr>\<rparr>) = Ok ()"
  by (simp add: activate_def activate_body_def attempt_valid_def binding_conflict_def count_where_def machine_of_def
      sample_defs sample_tables sample_accepted_def Let_def)

lemma sample_fields:
  "ee_clock sample_connection = Ok 90" "ee_clock_credential sample_connection = Ok 90" "ee_fate sample_connection k = DB_Commit"
  "ee_tx sample_connection k = sample_env (12 + of_nat k)" "ee_others sample_connection k = id" "ee_sha256 sample_connection = sample_sha"
  "ee_is_host sample_connection = (\<lambda>_. True)" "ee_in_time sample_connection" "ee_credential_read sample_connection"
  "ee_base64 sample_connection = \<lparr>b64_encode = id, b64_decode = Some\<rparr>" "ee_verify sample_connection key signature message = Some (signature = key @ key)"
  "ac_target_account sample_accepted = ''dev''" "ac_host_identity sample_accepted = None"
  by (simp_all add: sample_connection_def sample_accepted_def)

lemma sample_frames:
  "sample_read ''token'' = Some (RC_Token sample_token)" "sample_read ''setup'' = Some (RC_Setup VERSION 31 sample_key ''127.0.0.1:22'' ''dev'')"
  "sample_read ''ready'' = Some RC_Ready" "sample_read ''signature'' = Some (RC_Signature sample_signature)"
  "sample_read ''opened 1'' = Some (RC_StreamOpened 1)" "sample_read ''closed 1'' = Some (RC_StreamClosed 1 CR_Eof)"
  "sample_read ''host key'' = Some (RC_HostKeyAccepted ''host'')" "sample_read ''opened 2'' = Some (RC_StreamOpened 2)"
  "sample_read ''closed 2'' = Some (RC_StreamClosed 2 CR_Eof)"
  "sample_read ''hello'' = Some (RC_TunnelHello VERSION 1 11 31 41 1)"
  by (simp_all add: sample_read_def sample_env_def)

lemmas sample_moves = sr_bind_def sr_leaf sr_try_def sample_check sample_send sample_receive sample_fields sample_frames is_ok_def

lemma sample_proves:
  assumes "es_lease s = sample_node" "es_tables s = sample_enrolled"
    and "es_inbox s = map (\<lambda>text. Next_Message (WS_Text text)) (''setup'' # ''ready'' # ''signature'' # texts)"
  shows "\<exists>received sent. prove_relay sample_connection sample_accepted s
    = (Ok (31, sample_key), s\<lparr>es_inbox := map (\<lambda>text. Next_Message (WS_Text text)) texts, es_received := received, es_sent := sent\<rparr>)"
proof -
  obtain frame where credential: "\<And>s :: relay_session. es_lease s = sample_node \<Longrightarrow> es_tables s = sample_enrolled
      \<Longrightarrow> enrollment_credential sample_connection sample_accepted s = (Ok frame, s)"
    by (simp add: enrollment_credential_def sample_moves sample_tables sample_accepted_def)
  have key: "server_decode_32 \<lparr>b64_encode = id, b64_decode = Some\<rparr> sample_key = Ok sample_key"
    "decode_signature \<lparr>b64_encode = id, b64_decode = Some\<rparr> sample_signature = Ok (sample_key @ sample_key)"
    by (simp_all add: server_decode_32_def decode_signature_def sample_signature_def sample_key_def)
  show ?thesis unfolding prove_relay_def
    using assms by (cases s) (simp add: sample_moves credential key verify_signature_def sample_fields)
qed

lemma sample_opens:
  assumes "es_inbox s = Next_Message (WS_Text msg) # rest" "length msg < 10" "sample_read msg = Some (RC_StreamOpened k)"
  shows "open_provisional_stream sample_connection k s
    = (Ok (), s\<lparr>es_inbox := rest, es_received := es_received s @ [RC_StreamOpened k], es_sent := es_sent s @ [RS_OpenStream k]\<rparr>)"
  using assms by (simp add: open_provisional_stream_def sample_moves)

lemma sample_runs_stream:
  assumes "es_inbox s = Next_Message (WS_Text msg) # rest" "length msg < 10" "sample_read msg = Some (RC_StreamClosed k reason)"
  shows "run_provisional_stream sample_connection k [PV_Done (Some r)] s = (Ok r, s\<lparr>es_inbox := rest, es_sent := es_sent s @ [RS_StreamClosed k CR_Eof]\<rparr>)"
  using assms by (simp add: run_provisional_stream_def es_drain_def es_decode_def sample_moves) (simp add: sample_connection_def sr_lift_def)

lemma sample_discovers:
  assumes "es_inbox s = map (\<lambda>text. Next_Message (WS_Text text)) (''opened 1'' # ''closed 1'' # ''host key'' # texts)" "es_tables s = sample_enrolled"
  shows "\<exists>received sent a. resolve_enrollment_host_identity sample_connection sample_script sample_accepted s = (Ok (''host'', 2),
    s\<lparr>es_inbox := map (\<lambda>text. Next_Message (WS_Text text)) texts, es_tables := sample_enrolled\<lparr>rt_audit := a\<rparr>, es_received := received, es_sent := sent\<rparr>)"
  using assms by (cases s) (auto simp: resolve_enrollment_host_identity_def sample_moves sample_opens sample_runs_stream sample_script_def es_audit_def)

lemma sample_enrolment_succeeds: "fst (enrollment sample_connection sample_script sample_enrolment) = Ok ()"
proof -
  let ?inbox = "map (\<lambda>text. Next_Message (WS_Text text))"
  let ?s = "sample_enrolment\<lparr>es_inbox := tl (es_inbox sample_enrolment), es_received := [RC_Token sample_token]\<rparr>"
  have start: "es_tx sample_connection 0 (accept_token DB_Commit sample_sha (sample_env 12) sample_token) ?s = (Ok sample_accepted, ?s\<lparr>es_tables := sample_enrolled\<rparr>)"
    using sample_token_accepted by (simp add: es_tx_def sample_fields sample_enrolment_def sample_session_def)
  obtain r1 x1 where p: "prove_relay sample_connection sample_accepted (?s\<lparr>es_tables := sample_enrolled\<rparr>)
    = (Ok (31, sample_key), ?s\<lparr>es_tables := sample_enrolled, es_inbox := ?inbox [''opened 1'', ''closed 1'', ''host key'', ''opened 2'', ''closed 2''], es_received := r1, es_sent := x1\<rparr>)"
    using sample_proves [of "?s\<lparr>es_tables := sample_enrolled\<rparr>" "[''opened 1'', ''closed 1'', ''host key'', ''opened 2'', ''closed 2'']"]
    by (auto simp: sample_enrolment_def sample_session_def)
  let ?s1 = "?s\<lparr>es_tables := sample_enrolled, es_inbox := ?inbox [''opened 1'', ''closed 1'', ''host key'', ''opened 2'', ''closed 2''], es_received := r1, es_sent := x1\<rparr>"
  obtain r2 x2 a where d: "resolve_enrollment_host_identity sample_connection sample_script sample_accepted ?s1
    = (Ok (''host'', 2), ?s1\<lparr>es_inbox := ?inbox [''opened 2'', ''closed 2''], es_tables := sample_enrolled\<lparr>rt_audit := a\<rparr>, es_received := r2, es_sent := x2\<rparr>)"
    using sample_discovers [of ?s1 "[''opened 2'', ''closed 2'']"] by auto
  let ?tx = "es_tx sample_connection 2 (activate DB_Commit (\<lambda>_. True) (sample_env 14) sample_accepted 31 sample_key ''host'')"
  have tail: "fst (sr_bind ?tx (\<lambda>_. es_send sample_connection frame) s) = Ok ()"
    if "es_lease s = sample_node" "es_tables s = sample_enrolled\<lparr>rt_audit := b\<rparr>" for s b frame
    using that sample_activates [of b] by (auto simp: sr_bind_def sample_send es_tx_def sample_fields split: prod.splits)
  let ?s2 = "?s1\<lparr>es_inbox := ?inbox [''opened 2'', ''closed 2''], es_tables := sample_enrolled\<lparr>rt_audit := a\<rparr>, es_received := r2, es_sent := x2\<rparr>"
  have o: "open_provisional_stream sample_connection 2 ?s2
    = (Ok (), ?s2\<lparr>es_inbox := ?inbox [''closed 2''], es_received := r2 @ [RC_StreamOpened 2], es_sent := x2 @ [RS_OpenStream 2]\<rparr>)"
    by (simp add: sample_opens [where msg = "''opened 2''"] sample_frames)
  let ?s3 = "?s2\<lparr>es_inbox := ?inbox [''closed 2''], es_received := r2 @ [RC_StreamOpened 2], es_sent := x2 @ [RS_OpenStream 2]\<rparr>"
  have r: "run_provisional_stream sample_connection 2 (sc_proof sample_script ''host'') ?s3
    = (Ok (), ?s3\<lparr>es_inbox := [], es_sent := x2 @ [RS_OpenStream 2, RS_StreamClosed 2 CR_Eof]\<rparr>)"
    by (simp add: sample_script_def sample_runs_stream [where msg = "''closed 2''" and reason = CR_Eof] sample_frames)
  have "es_lease ?s1 = sample_node" by (simp add: sample_enrolment_def sample_session_def)
  then have "fst (continue_enrollment sample_connection sample_script sample_accepted (?s\<lparr>es_tables := sample_enrolled\<rparr>)) = Ok ()"
    unfolding continue_enrollment_def
    by (simp only: sr_bind_def p d o r sr_try_def prod.case sum.case)
      (simp add: es_audit_def sr_leaf sample_fields is_ok_def tail [unfolded sr_bind_def])
  then obtain z where "continue_enrollment sample_connection sample_script sample_accepted (?s\<lparr>es_tables := sample_enrolled\<rparr>) = (Ok (), z)"
    by (metis prod.collapse)
  with start show ?thesis
    by (simp add: enrollment_def sample_moves sample_enrolment_def sample_session_def Let_def)
qed

text \<open>C10. An enrolment succeeds only after every proof: the Relay sent the token that the database accepted, then a setup
  for the machine's own account and the loopback SSH endpoint, \<open>ready\<close>, and a signature for this connection's nonce
  and route that verifies under the key of the setup; the host key is the pinned one, or it was discovered and the Relay
  confirmed it by name; SSH access with the machine's credential was proved against that key; and then the machine is
  bound to exactly this Relay and key.\<close>

theorem activation_needs_every_proof:
  assumes "enrollment E script s = (Ok (), s')" and "es_received s = []"
  shows "\<exists>token ac n relay_id key_text key text signature host b.
    fst (accept_token (ee_fate E 0) (ee_sha256 E) (ee_tx E 0) token \<lparr>tx_lease = n, tx_tables = ee_others E 0 (es_tables s)\<rparr>) = Ok ac
    \<and> es_received s' = [RC_Token token, RC_Setup VERSION relay_id key_text ''127.0.0.1:22'' (ac_target_account ac), RC_Ready, RC_Signature text]
        @ (if ac_host_identity ac = None then [RC_StreamOpened 1, RC_HostKeyAccepted host, RC_StreamOpened 2] else [RC_StreamOpened 1])
    \<and> server_decode_32 (ee_base64 E) key_text = Ok key \<and> decode_signature (ee_base64 E) text = Ok signature
    \<and> ee_verify E key signature (signature_message CP_Enrollment (ac_deployment_id ac) (ac_machine_id ac) relay_id None (ac_route_revision ac) (ee_nonce E)) = Some True
    \<and> (ac_host_identity ac = Some host
        \<or> ac_host_identity ac = None \<and> (\<exists>fingerprint. PV_Done (Some (host, fingerprint)) \<in> set (sc_discovery script)))
    \<and> ee_is_host E host \<and> PV_Done (Some ()) \<in> set (sc_proof script host)
    \<and> b \<in> set (rt_bindings (es_tables s')) \<and> bi_machine_id b = ac_machine_id ac \<and> bi_relay_id b = relay_id
        \<and> bi_public_key b = key \<and> bi_route_revision b = ac_route_revision ac \<and> bi_status b = BI_Active
    \<and> last (es_sent s') = RS_Activated (ac_route_revision ac)"
proof -
  from assms(1) obtain s0 token s1 ac s2 where run: "es_check (ee_clock E) s = (Ok (), s0)" "es_receive E s0 = (Ok (RC_Token token), s1)"
    "es_tx E 0 (accept_token (ee_fate E 0) (ee_sha256 E) (ee_tx E 0) token) s1 = (Ok ac, s2)" "continue_enrollment E script ac s2 = (Ok (), s')"
    by (auto simp: enrollment_def res_simps expected_frame sr_try_Ok sr_leaf Let_def is_ok_def split: if_splits sum.splits)
  from run(1-3) assms(2) have seen: "es_received s2 = [RC_Token token]"
    "\<exists>n. fst (accept_token (ee_fate E 0) (ee_sha256 E) (ee_tx E 0) token \<lparr>tx_lease = n, tx_tables = ee_others E 0 (es_tables s)\<rparr>) = Ok ac"
    by (auto dest!: es_check_Ok es_receive_Ok es_tx_Ok) (metis fst_conv)
  from continue_enrollment_Ok [OF run(4)] obtain relay_id key host s3 s4 stream_id where c: "prove_relay E ac s2 = (Ok (relay_id, key), s3)"
    "resolve_enrollment_host_identity E script ac s3 = (Ok (host, stream_id), s4)" "es_received s' = es_received s4 @ [RC_StreamOpened stream_id]"
    "PV_Done (Some ()) \<in> set (sc_proof script host)" "ee_is_host E host" "last (es_sent s') = RS_Activated (ac_route_revision ac)"
    "\<exists>b. b \<in> set (rt_bindings (es_tables s')) \<and> bi_machine_id b = ac_machine_id ac \<and> bi_relay_id b = relay_id
        \<and> bi_public_key b = key \<and> bi_route_revision b = ac_route_revision ac \<and> bi_status b = BI_Active"
    by blast
  from host_identity_Ok [OF c(2)] have host: "es_received s4 @ [RC_StreamOpened stream_id] = es_received s3
      @ (if ac_host_identity ac = None then [RC_StreamOpened 1, RC_HostKeyAccepted host, RC_StreamOpened 2] else [RC_StreamOpened 1])"
    "ac_host_identity ac = Some host \<or> ac_host_identity ac = None \<and> (\<exists>fingerprint. PV_Done (Some (host, fingerprint)) \<in> set (sc_discovery script))"
    by (auto split: option.splits)
  from prove_relay_Ok [OF c(1)] obtain key_text sig_text signature where p: "es_received s3 = es_received s2
      @ [RC_Setup VERSION relay_id key_text ''127.0.0.1:22'' (ac_target_account ac), RC_Ready, RC_Signature sig_text]"
    "server_decode_32 (ee_base64 E) key_text = Ok key" "decode_signature (ee_base64 E) sig_text = Ok signature"
    "ee_verify E key signature (signature_message CP_Enrollment (ac_deployment_id ac) (ac_machine_id ac) relay_id None (ac_route_revision ac) (ee_nonce E)) = Some True"
    by blast
  from c(3) host(1) p(1) seen(1) have "es_received s' = [RC_Token token, RC_Setup VERSION relay_id key_text ''127.0.0.1:22'' (ac_target_account ac), RC_Ready, RC_Signature sig_text]
        @ (if ac_host_identity ac = None then [RC_StreamOpened 1, RC_HostKeyAccepted host, RC_StreamOpened 2] else [RC_StreamOpened 1])"
    by simp
  with seen(2) p(2-4) host(2) c(4-7) show ?thesis by blast
qed

theorem activation_needs_every_proof_witness:
  "fst (enrollment sample_connection sample_script sample_enrolment) = Ok ()
   \<and> (\<exists>b. b \<in> set (rt_bindings (es_tables (snd (enrollment sample_connection sample_script sample_enrolment)))) \<and> bi_status b = BI_Active)"
proof -
  note ok = sample_enrolment_succeeds
  then have run: "enrollment sample_connection sample_script sample_enrolment = (Ok (), snd (enrollment sample_connection sample_script sample_enrolment))"
    by (simp add: prod_eq_iff)
  have "es_received sample_enrolment = []" by (simp add: sample_enrolment_def sample_session_def)
  from activation_needs_every_proof [OF run this] ok show ?thesis by blast
qed

text \<open>C11. A tunnel is authenticated only as a Relay the machine is bound to: there is an active binding of the machine at the
  route revision that was asked for, and the Relay signed this connection's identity and nonce with that binding's key.\<close>

theorem tunnel_needs_binding_key:
  assumes "authenticate_tunnel E binding_read s = (Ok (machine_id, connection_id, route_revision), s')"
  shows "\<exists>b signature. b \<in> set (rt_bindings (es_tables s')) \<and> bi_machine_id b = machine_id \<and> bi_route_revision b = route_revision
    \<and> bi_status b = BI_Active \<and> length (bi_public_key b) = 32
    \<and> ee_verify E (bi_public_key b) signature (signature_message CP_Tunnel (te_deployment_id (ee_tx E 0)) machine_id (bi_relay_id b)
        (Some connection_id) route_revision (ee_nonce E)) = Some True"
proof -
  from assms obtain relay_id s0 s2 key sig_text signature where run: "binding_key machine_id relay_id route_revision (ee_others E 0 (es_tables s0)) = Ok key"
    "es_send E (RS_Challenge CP_Tunnel (b64_encode (ee_base64 E) (ee_nonce E))) (s0\<lparr>es_tables := ee_others E 0 (es_tables s0)\<rparr>) = (Ok (), s2)" "es_receive E s2 = (Ok (RC_Signature sig_text), s')"
    "ee_verify E key signature (signature_message CP_Tunnel (te_deployment_id (ee_tx E 0)) machine_id relay_id (Some connection_id) route_revision (ee_nonce E)) = Some True"
    by (auto simp: authenticate_tunnel_def res_simps expected_frame guarded_error sr_leaf split: if_splits dest!: verified_signature)
  from run(2,3) have "es_tables s' = ee_others E 0 (es_tables s0)" by (auto dest!: es_send_Ok es_receive_Ok)
  moreover from run(1) obtain b where "b \<in> set (rt_bindings (ee_others E 0 (es_tables s0)))" "bi_machine_id b = machine_id" "bi_relay_id b = relay_id"
    "bi_route_revision b = route_revision" "bi_status b = BI_Active" "bi_public_key b = key" "length key = 32"
    by (auto simp: binding_key_def split: option.splits if_splits dest!: find_SomeD)
  ultimately show ?thesis using run(4) by (intro exI [of _ b] exI [of _ signature]) simp
qed

definition sample_tunnel :: relay_session where
  "sample_tunnel = sample_session (sample_enrolled\<lparr>rt_bindings := [\<lparr>bi_id = 14, bi_machine_id = 11, bi_relay_id = 31, bi_public_key = sample_key,
     bi_route_revision = 1, bi_status = BI_Active\<rparr>]\<rparr>) [''hello'', ''signature'']"

theorem tunnel_needs_binding_key_witness:
  "fst (authenticate_tunnel sample_connection True sample_tunnel) = Ok (11, 41, 1)
   \<and> (\<exists>b. b \<in> set (rt_bindings (es_tables (snd (authenticate_tunnel sample_connection True sample_tunnel)))) \<and> bi_status b = BI_Active)"
proof -
  have ok: "fst (authenticate_tunnel sample_connection True sample_tunnel) = Ok (11, 41, 1)"
    by (simp add: authenticate_tunnel_def sample_moves sample_tunnel_def sample_session_def binding_key_def sample_key_def sample_env_def
        decode_signature_def verify_signature_def sample_signature_def)
  then have "authenticate_tunnel sample_connection True sample_tunnel = (Ok (11, 41, 1), snd (authenticate_tunnel sample_connection True sample_tunnel))"
    by (simp add: prod_eq_iff)
  from tunnel_needs_binding_key [OF this] ok show ?thesis by blast
qed

end
