(* ===== verification/Ssh_Runtime.thy ===== *)
theory Ssh_Runtime
  imports Contracts "HOL-Library.AList" "HOL-Library.Sublist"
begin

text \<open>
  The private runtime directory of the SSH operations (\<open>ssh.rs\<close>: \<open>SshRuntime\<close>, \<open>ChildDirectory\<close> and the functions that
  validate and clean what an earlier process left behind). The directory tree below the runtime root is an association
  list from paths to entries, and each system call the code makes is an operation on it. A fault oracle says which calls
  fail; since an operation that is cut off has the effects of its first calls only, the faults also stand for a process
  that dies at any point. Parsing and printing UUIDs is library code and a parameter.
\<close>

unbundle bit_operations_syntax

section \<open>The directory tree\<close>

abbreviation (input) o777 :: "32 word" where "o777 \<equiv> 0x1FF"
abbreviation (input) o700 :: "32 word" where "o700 \<equiv> 0x1C0"
abbreviation (input) o600 :: "32 word" where "o600 \<equiv> 0x180"

type_synonym path = "bytes list"

record inode =
  im_uid :: nat
  im_mode :: "32 word"
  im_nlink :: nat

datatype fs_entry = FS_Dir inode | FS_File inode bytes | FS_Link bool | FS_Other inode

type_synonym fs = "(path \<times> fs_entry) list"

datatype fs_call = Call_Mkdir | Call_Chmod | Call_Stat | Call_Open | Call_List | Call_Entry | Call_Unlink | Call_Rmdir | Call_Write | Call_Sync

text \<open>\<open>fe_fails\<close> says which calls fail, \<open>fe_written\<close> how much of a file is on disk when its write fails.\<close>

record fs_env =
  fe_fails :: "fs_call \<Rightarrow> path \<Rightarrow> bool"
  fe_written :: "path \<Rightarrow> nat"
  fe_uid :: nat
  fe_umask :: "32 word"

record uuid_text =
  ut_parse :: "bytes \<Rightarrow> uuid option"
  ut_show :: "uuid \<Rightarrow> bytes"

text \<open>\<open>sd_locked\<close>: some live process holds the lock of the root; \<open>sd_permits\<close>: the free permits of \<open>child_limit\<close>.\<close>

record ssh_disk =
  sd_fs :: fs
  sd_locked :: bool
  sd_permits :: nat

type_synonym ('z, 'a) disk_op = "('z ssh_disk_scheme, ssh_error, 'a) sr"

definition names_in :: "path \<Rightarrow> fs \<Rightarrow> bytes list" where
  "names_in p fs = map (\<lambda>(q, _). last q) (filter (\<lambda>(q, _). q \<noteq> [] \<and> butlast q = p) fs)"

definition is_dir :: "fs_entry \<Rightarrow> bool" where
  "is_dir e \<longleftrightarrow> (case e of FS_Dir _ \<Rightarrow> True | _ \<Rightarrow> False)"

definition call_fails :: "fs_env \<Rightarrow> fs_call \<Rightarrow> path \<Rightarrow> ('z, unit) disk_op" where
  "call_fails V c p = (if fe_fails V c p then sr_throw Ssh_Custody else sr_return ())"

definition sys_stat :: "fs_env \<Rightarrow> path \<Rightarrow> ('z, fs_entry) disk_op" where
  "sys_stat V p = sr_bind (call_fails V Call_Stat p) (\<lambda>_. sr_bind (sr_gets sd_fs) (\<lambda>fs. sr_lift (ok_or (map_of fs p) Ssh_Custody)))"

definition sys_list :: "fs_env \<Rightarrow> path \<Rightarrow> ('z, bytes list) disk_op" where
  "sys_list V p = sr_bind (call_fails V Call_List p) (\<lambda>_. sr_gets (\<lambda>s. names_in p (sd_fs s)))"

definition sys_put :: "path \<Rightarrow> fs_entry \<Rightarrow> ('z, unit) disk_op" where
  "sys_put p e = sr_modify (\<lambda>s. s\<lparr>sd_fs := AList.update p e (sd_fs s)\<rparr>)"

definition sys_drop :: "path \<Rightarrow> ('z, unit) disk_op" where
  "sys_drop p = sr_modify (\<lambda>s. s\<lparr>sd_fs := AList.delete p (sd_fs s)\<rparr>)"

text \<open>Something can be created at a path that is free, in a directory.\<close>

definition creatable :: "path \<Rightarrow> fs \<Rightarrow> bool" where
  "creatable p fs \<longleftrightarrow> map_of fs p = None \<and> (p \<noteq> [] \<longrightarrow> (case map_of fs (butlast p) of Some e \<Rightarrow> is_dir e | None \<Rightarrow> False))"

definition sys_mkdir :: "fs_env \<Rightarrow> path \<Rightarrow> ('z, unit) disk_op" where
  "sys_mkdir V p = sr_bind (call_fails V Call_Mkdir p) (\<lambda>_. sr_bind (sr_gets sd_fs) (\<lambda>fs.
     if \<not> creatable p fs then sr_throw Ssh_Custody
     else sys_put p (FS_Dir \<lparr>im_uid = fe_uid V, im_mode = o777 AND NOT (fe_umask V), im_nlink = 2\<rparr>)))"

definition sys_chmod :: "fs_env \<Rightarrow> path \<Rightarrow> 32 word \<Rightarrow> ('z, unit) disk_op" where
  "sys_chmod V p mode = sr_bind (call_fails V Call_Chmod p) (\<lambda>_. sr_bind (sr_gets sd_fs) (\<lambda>fs. case map_of fs p of
     Some (FS_Dir i) \<Rightarrow> sys_put p (FS_Dir (i\<lparr>im_mode := mode\<rparr>))
   | Some (FS_File i b) \<Rightarrow> sys_put p (FS_File (i\<lparr>im_mode := mode\<rparr>) b)
   | _ \<Rightarrow> sr_throw Ssh_Custody))"

definition sys_unlink :: "fs_env \<Rightarrow> path \<Rightarrow> ('z, unit) disk_op" where
  "sys_unlink V p = sr_bind (call_fails V Call_Unlink p) (\<lambda>_. sr_bind (sr_gets sd_fs) (\<lambda>fs. case map_of fs p of
     None \<Rightarrow> sr_throw Ssh_Custody
   | Some e \<Rightarrow> if is_dir e then sr_throw Ssh_Custody else sys_drop p))"

definition sys_rmdir :: "fs_env \<Rightarrow> path \<Rightarrow> ('z, unit) disk_op" where
  "sys_rmdir V p = sr_bind (call_fails V Call_Rmdir p) (\<lambda>_. sr_bind (sr_gets sd_fs) (\<lambda>fs. case map_of fs p of
     None \<Rightarrow> sr_throw Ssh_Custody
   | Some e \<Rightarrow> if \<not> is_dir e \<or> names_in p fs \<noteq> [] then sr_throw Ssh_Custody else sys_drop p))"

definition write_exclusive :: "fs_env \<Rightarrow> path \<Rightarrow> bytes \<Rightarrow> 32 word \<Rightarrow> ('z, unit) disk_op" where
  "write_exclusive V p content mode = sr_bind (call_fails V Call_Open p) (\<lambda>_. sr_bind (sr_gets sd_fs) (\<lambda>fs.
     if \<not> creatable p fs then sr_throw Ssh_Custody
     else (let file = FS_File \<lparr>im_uid = fe_uid V, im_mode = mode AND NOT (fe_umask V), im_nlink = 1\<rparr> in
       sr_bind (sys_put p (file (if fe_fails V Call_Write p then take (fe_written V p) content else content))) (\<lambda>_.
       sr_bind (call_fails V Call_Write p) (\<lambda>_. call_fails V Call_Sync p)))))"

section \<open>Validation\<close>

definition mode_is :: "inode \<Rightarrow> 32 word \<Rightarrow> bool" where
  "mode_is i mode \<longleftrightarrow> im_mode i AND o777 = mode"

definition directory_ok :: "nat \<Rightarrow> fs_entry \<Rightarrow> bool" where
  "directory_ok uid e \<longleftrightarrow> (case e of FS_Dir i \<Rightarrow> im_uid i = uid \<and> mode_is i o700 | _ \<Rightarrow> False)"

definition validate_directory :: "fs_env \<Rightarrow> nat \<Rightarrow> path \<Rightarrow> ('z, unit) disk_op" where
  "validate_directory V uid p = sr_bind (sys_stat V p) (\<lambda>e. if directory_ok uid e then sr_return () else sr_throw Ssh_Custody)"

definition regular_ok :: "nat \<Rightarrow> fs_entry \<Rightarrow> bool" where
  "regular_ok uid e \<longleftrightarrow> (case e of FS_File i _ \<Rightarrow> im_uid i = uid \<and> im_nlink i = 1 \<and> mode_is i o600 | _ \<Rightarrow> False)"

definition validate_regular_file :: "nat \<Rightarrow> fs_entry \<Rightarrow> ssh_error + unit" where
  "validate_regular_file uid e = (if regular_ok uid e then Ok () else Err Ssh_Custody)"

definition validate_scoped_name :: "uuid_text \<Rightarrow> bytes \<Rightarrow> bytes \<Rightarrow> ssh_error + unit" where
  "validate_scoped_name U name scope = r_bind (ok_or (strip_prefix scope name) Ssh_Custody) (\<lambda>v.
     r_bind (ok_or (ut_parse U v) Ssh_Custody) (\<lambda>i. if ut_show U i \<noteq> v then Err Ssh_Custody else Ok ()))"

section \<open>Cleaning\<close>

fun sr_each :: "('a \<Rightarrow> ('s, 'e, unit) sr) \<Rightarrow> 'a list \<Rightarrow> ('s, 'e, unit) sr" where
  "sr_each f [] = sr_return ()"
| "sr_each f (x # xs) = sr_bind (f x) (\<lambda>_. sr_each f xs)"

definition cleanup_file :: "fs_env \<Rightarrow> nat \<Rightarrow> path \<Rightarrow> bytes \<Rightarrow> ('z, unit) disk_op" where
  "cleanup_file V uid p name =
     sr_bind (call_fails V Call_Entry (p @ [name])) (\<lambda>_.
     if name \<noteq> ''identity'' \<and> name \<noteq> ''known_hosts'' then sr_throw Ssh_Custody
     else sr_bind (sys_stat V (p @ [name])) (\<lambda>e.
       sr_bind (sr_lift (validate_regular_file uid e)) (\<lambda>_. sys_unlink V (p @ [name]))))"

definition cleanup_child_directory :: "fs_env \<Rightarrow> nat \<Rightarrow> path \<Rightarrow> ('z, unit) disk_op" where
  "cleanup_child_directory V uid p =
     sr_bind (validate_directory V uid p) (\<lambda>_.
     sr_bind (sys_list V p) (\<lambda>names.
     sr_bind (sr_each (cleanup_file V uid p) names) (\<lambda>_. sys_rmdir V p)))"

text \<open>An entry whose name is a scoped UUID is cleaned by the next level.\<close>

definition cleanup_scoped ::
  "fs_env \<Rightarrow> uuid_text \<Rightarrow> bytes \<Rightarrow> (path \<Rightarrow> ('z, unit) disk_op) \<Rightarrow> path \<Rightarrow> bytes \<Rightarrow> ('z, unit) disk_op" where
  "cleanup_scoped V U scope clean p name =
     (if \<not> from_utf8_ok name then sr_throw Ssh_Custody
      else sr_bind (sr_lift (validate_scoped_name U name scope)) (\<lambda>_. clean (p @ [name])))"

definition cleanup_instance_directory :: "fs_env \<Rightarrow> uuid_text \<Rightarrow> nat \<Rightarrow> path \<Rightarrow> ('z, unit) disk_op" where
  "cleanup_instance_directory V U uid p =
     sr_bind (validate_directory V uid p) (\<lambda>_.
     sr_bind (sys_list V p) (\<lambda>names.
     sr_bind (sr_each (\<lambda>name. sr_bind (call_fails V Call_Entry (p @ [name])) (\<lambda>_.
       cleanup_scoped V U ''child-'' (cleanup_child_directory V uid) p name)) names) (\<lambda>_. sys_rmdir V p)))"

definition scavenge_runtime_root :: "fs_env \<Rightarrow> uuid_text \<Rightarrow> nat \<Rightarrow> ('z, unit) disk_op" where
  "scavenge_runtime_root V U uid =
     sr_bind (sys_list V []) (\<lambda>names.
     sr_each (\<lambda>name. sr_bind (call_fails V Call_Entry [name]) (\<lambda>_.
       if name = ''.lock'' then sr_return ()
       else cleanup_scoped V U ''instance-'' (cleanup_instance_directory V U uid) [] name)) names)"

section \<open>The runtime\<close>

text \<open>Opening the lock file creates it when it is missing; a link is not followed and a directory cannot be written.\<close>

definition open_lock :: "fs_env \<Rightarrow> ('z, unit) disk_op" where
  "open_lock V =
     sr_bind (call_fails V Call_Open [''.lock'']) (\<lambda>_.
     sr_bind (sr_gets sd_fs) (\<lambda>fs. case map_of fs [''.lock''] of
         None \<Rightarrow> sys_put [''.lock''] (FS_File \<lparr>im_uid = fe_uid V, im_mode = o600 AND NOT (fe_umask V), im_nlink = 1\<rparr> [])
       | Some (FS_File _ _) \<Rightarrow> sr_return ()
       | Some _ \<Rightarrow> sr_throw Ssh_Custody))"

definition lock_runtime_root :: "fs_env \<Rightarrow> nat \<Rightarrow> ('z, unit) disk_op" where
  "lock_runtime_root V uid =
     sr_bind (open_lock V) (\<lambda>_.
     sr_bind (sys_stat V [''.lock'']) (\<lambda>e.
     sr_bind (sr_lift (validate_regular_file uid e)) (\<lambda>_.
     sr_bind (sr_gets sd_locked) (\<lambda>held.
     if held then sr_throw Ssh_Custody else sr_modify (\<lambda>s. s\<lparr>sd_locked := True\<rparr>)))))"

record ssh_runtime =
  rt_instance_dir :: path
  rt_owner_uid :: nat

definition scoped_name :: "uuid_text \<Rightarrow> bytes \<Rightarrow> uuid \<Rightarrow> bytes" where
  "scoped_name U scope i = scope @ ut_show U i"

definition make_directory :: "fs_env \<Rightarrow> nat \<Rightarrow> path \<Rightarrow> ('z, unit) disk_op" where
  "make_directory V uid p =
     sr_bind (sys_mkdir V p) (\<lambda>_. sr_bind (sys_chmod V p o700) (\<lambda>_. validate_directory V uid p))"

text \<open>What follows the lock in \<open>create\<close>; if it fails, the lock is dropped with its file.\<close>

definition create_locked :: "fs_env \<Rightarrow> uuid_text \<Rightarrow> uuid \<Rightarrow> nat \<Rightarrow> ('z, ssh_runtime) disk_op" where
  "create_locked V U fresh uid =
     sr_bind (scavenge_runtime_root V U uid) (\<lambda>_.
     sr_bind (make_directory V uid [scoped_name U ''instance-'' fresh]) (\<lambda>_.
     sr_bind (sr_modify (\<lambda>s. s\<lparr>sd_permits := 32\<rparr>)) (\<lambda>_.
     sr_return \<lparr>rt_instance_dir = [scoped_name U ''instance-'' fresh], rt_owner_uid = uid\<rparr>)))"

definition root_exists :: "fs \<Rightarrow> bool" where
  "root_exists fs \<longleftrightarrow> (case map_of fs [] of None \<Rightarrow> False | Some (FS_Link resolves) \<Rightarrow> resolves | Some _ \<Rightarrow> True)"

definition prepare_root :: "fs_env \<Rightarrow> ('z, unit) disk_op" where
  "prepare_root V = sr_bind (sr_gets sd_fs) (\<lambda>fs.
     if root_exists fs then sr_return () else sr_bind (sys_mkdir V []) (\<lambda>_. sys_chmod V [] o700))"

definition runtime_create :: "fs_env \<Rightarrow> uuid_text \<Rightarrow> uuid \<Rightarrow> ('z, ssh_runtime) disk_op" where
  "runtime_create V U fresh =
     sr_bind (prepare_root V) (\<lambda>_.
     sr_bind (sys_stat V []) (\<lambda>e. case e of
       FS_Dir i \<Rightarrow>
         if \<not> mode_is i o700 then sr_throw Ssh_Custody
         else sr_bind (lock_runtime_root V (im_uid i)) (\<lambda>_.
           sr_bind (sr_try (create_locked V U fresh (im_uid i))) (\<lambda>r.
           sr_bind (if is_ok r then sr_return () else sr_modify (\<lambda>s. s\<lparr>sd_locked := False\<rparr>)) (\<lambda>_. sr_lift r)))
     | _ \<Rightarrow> sr_throw Ssh_Custody))"

text \<open>Dropping the runtime cleans its directory, then releases the lock.\<close>

definition runtime_drop :: "fs_env \<Rightarrow> uuid_text \<Rightarrow> ssh_runtime \<Rightarrow> ('z, unit) disk_op" where
  "runtime_drop V U rt =
     sr_bind (sr_try (cleanup_instance_directory V U (rt_owner_uid rt) (rt_instance_dir rt))) (\<lambda>_ :: ssh_error + unit.
     sr_modify (\<lambda>s. s\<lparr>sd_locked := False\<rparr>))"

definition child_dir :: "fs_env \<Rightarrow> uuid_text \<Rightarrow> uuid \<Rightarrow> ssh_runtime \<Rightarrow> ('z, path) disk_op" where
  "child_dir V U fresh rt =
     sr_bind (sr_gets sd_permits) (\<lambda>permits.
     if permits = 0 then sr_throw Ssh_Unavailable
     else (let p = rt_instance_dir rt @ [scoped_name U ''child-'' fresh] in
       sr_bind (make_directory V (rt_owner_uid rt) p) (\<lambda>_.
       sr_bind (sr_modify (\<lambda>s. s\<lparr>sd_permits := permits - 1\<rparr>)) (\<lambda>_. sr_return p))))"

definition child_drop :: "fs_env \<Rightarrow> ssh_runtime \<Rightarrow> path \<Rightarrow> ('z, unit) disk_op" where
  "child_drop V rt p =
     sr_bind (sr_try (cleanup_child_directory V (rt_owner_uid rt) p)) (\<lambda>_ :: ssh_error + unit.
     sr_modify (\<lambda>s. s\<lparr>sd_permits := sd_permits s + 1\<rparr>))"

section \<open>Steps of the operations\<close>

lemma call_fails_eq: "call_fails V c p s = (if fe_fails V c p then (Err Ssh_Custody, s) else (Ok (), s))"
  by (simp add: call_fails_def sr_leaf)

lemmas disk_calls = call_fails_eq sys_stat_def sys_list_def sys_put_def sys_drop_def sys_mkdir_def sys_chmod_def sys_unlink_def sys_rmdir_def
  write_exclusive_def validate_directory_def validate_regular_file_def ok_or_def

lemma sr_keeps_each [sr_rules]: "(\<And>x. sr_keeps P (f x)) \<Longrightarrow> sr_keeps P (sr_each f xs)"
  by (induction xs) (auto intro: sr_rules)

lemma each_reaches:
  assumes "\<And>x. sr_keeps P (f x)" "sr_each f xs s = (Ok u, s')" "P s" "x \<in> set xs"
  shows "\<exists>t t'. P t \<and> f x t = (Ok (), t')"
  using assms(2-4)
proof (induction xs arbitrary: s)
  case (Cons y ys)
  from Cons.prems(1) obtain t where t: "f y s = (Ok (), t)" "sr_each f ys t = (Ok u, s')" by (auto simp: res_simps)
  with assms(1) Cons.prems(2) have "P t" by (metis sr_keepsD)
  with t Cons show ?case by auto
qed simp

section \<open>What cleaning leaves alone\<close>

text \<open>What cleaning may remove: a private directory of the owner under a name the runtime gives, at the level it gives it, and
  in a child directory a private file of the owner with one link, under one of the two names the runtime writes. Links,
  other files and directories, other names, owners and modes, the root and the lock file are not among them.\<close>

definition own_name :: "uuid_text \<Rightarrow> bytes \<Rightarrow> bytes \<Rightarrow> bool" where
  "own_name U scope name \<longleftrightarrow> (\<exists>i. name = scope @ ut_show U i)"

definition private_directory :: "nat \<Rightarrow> fs_entry \<Rightarrow> bool" where
  "private_directory uid e \<longleftrightarrow> (\<exists>i. e = FS_Dir i \<and> im_uid i = uid \<and> im_mode i AND o777 = o700)"

definition private_file :: "nat \<Rightarrow> fs_entry \<Rightarrow> bool" where
  "private_file uid e \<longleftrightarrow> (\<exists>i content. e = FS_File i content \<and> im_uid i = uid \<and> im_nlink i = 1 \<and> im_mode i AND o777 = o600)"

fun removable :: "uuid_text \<Rightarrow> nat \<Rightarrow> path \<Rightarrow> fs_entry \<Rightarrow> bool" where
  "removable U uid [x] e \<longleftrightarrow> own_name U ''instance-'' x \<and> private_directory uid e"
| "removable U uid [x, y] e \<longleftrightarrow> own_name U ''instance-'' x \<and> own_name U ''child-'' y \<and> private_directory uid e"
| "removable U uid [x, y, z] e \<longleftrightarrow> own_name U ''instance-'' x \<and> own_name U ''child-'' y \<and> z \<in> {''identity'', ''known_hosts''} \<and> private_file uid e"
| "removable U uid _ e \<longleftrightarrow> False"

abbreviation holds_entry :: "path \<Rightarrow> fs_entry \<Rightarrow> 'z ssh_disk_scheme \<Rightarrow> bool" where
  "holds_entry q e s \<equiv> map_of (sd_fs s) q = Some e"

lemma validated_entries:
  "directory_ok uid e \<longleftrightarrow> private_directory uid e" "regular_ok uid e \<longleftrightarrow> private_file uid e"
  by (auto simp: directory_ok_def private_directory_def regular_ok_def private_file_def mode_is_def split: fs_entry.splits)

lemma validated_name: "validate_scoped_name U name scope = Ok () \<Longrightarrow> own_name U scope name"
  by (auto simp: validate_scoped_name_def own_name_def res_simps strip_prefix_Some_iff split: if_splits)

lemma keeps_reads [sr_rules]:
  "sr_keeps (holds_entry q e) (call_fails V c p)" "sr_keeps (holds_entry q e) (sys_stat V p)" "sr_keeps (holds_entry q e) (sys_list V p)"
  "sr_keeps (holds_entry q e) (validate_directory V uid p)"
  by (auto simp: sr_keeps_def disk_calls sr_leaf sr_bind_def split: option.splits)

lemma keeps_removals:
  "p \<noteq> q \<Longrightarrow> sr_keeps (holds_entry q e) (sys_unlink V p)" "p \<noteq> q \<or> \<not> is_dir e \<Longrightarrow> sr_keeps (holds_entry q e) (sys_rmdir V p)"
  by (auto simp: sr_keeps_def disk_calls sr_leaf sr_bind_def delete_conv' split: option.splits)

lemma keeps_cleanup_file:
  assumes "own_name U ''instance-'' x" "own_name U ''child-'' y" "\<not> removable U uid q e"
  shows "sr_keeps (holds_entry q e) (cleanup_file V uid [x, y] name)"
proof (rule sr_keepsI)
  fix s :: "'a ssh_disk_scheme" assume h: "holds_entry q e s"
  show "holds_entry q e (snd (cleanup_file V uid [x, y] name s))"
  proof (cases "q = [x, y] @ [name]")
    case True
    with assms have "name \<notin> {''identity'', ''known_hosts''} \<or> \<not> regular_ok uid e" by (simp add: validated_entries)
    with True h show ?thesis by (auto simp: cleanup_file_def disk_calls sr_leaf sr_bind_def)
  next
    case False
    then have "sr_keeps (holds_entry q e) (cleanup_file V uid [x, y] name :: ('a, unit) disk_op)"
      unfolding cleanup_file_def by (intro sr_rules keeps_removals) simp
    with h show ?thesis by (simp add: sr_keeps_def)
  qed
qed

lemma keeps_removal:
  assumes "q = p \<Longrightarrow> \<not> directory_ok uid e" "\<And>name. sr_keeps (holds_entry q e) (f name)"
  shows "sr_keeps (holds_entry q e) (sr_bind (validate_directory V uid p) (\<lambda>_. sr_bind (sys_list V p) (\<lambda>names.
    sr_bind (sr_each f names) (\<lambda>_. sys_rmdir V p))))"
proof (cases "q = p")
  case True
  show ?thesis
    using assms(1) [OF True] True by (auto simp: sr_keeps_def disk_calls sr_leaf sr_bind_def)
next
  case False
  then show ?thesis by (intro sr_rules assms(2) keeps_removals) simp
qed

lemma keeps_cleanup_child:
  assumes "own_name U ''instance-'' x" "own_name U ''child-'' y" "\<not> removable U uid q e"
  shows "sr_keeps (holds_entry q e) (cleanup_child_directory V uid [x, y])"
  unfolding cleanup_child_directory_def
  by (intro keeps_removal keeps_cleanup_file [OF assms]) (use assms in \<open>auto simp: validated_entries\<close>)

lemma keeps_scoped:
  "(own_name U scope name \<Longrightarrow> sr_keeps P (clean (p @ [name]))) \<Longrightarrow> sr_keeps P (cleanup_scoped V U scope clean p name)"
  unfolding cleanup_scoped_def by (intro sr_keeps_if sr_keeps_throw sr_keeps_bind_lift) (auto dest: validated_name)

lemma keeps_cleanup_instance:
  assumes "own_name U ''instance-'' x" "\<not> removable U uid q e"
  shows "sr_keeps (holds_entry q e) (cleanup_instance_directory V U uid [x])"
proof -
  have "sr_keeps (holds_entry q e) (sr_bind (call_fails V Call_Entry ([x] @ [name])) (\<lambda>_.
      cleanup_scoped V U ''child-'' (cleanup_child_directory V uid) [x] name))" for name
    by (intro sr_rules keeps_scoped) (use keeps_cleanup_child [OF assms(1) _ assms(2)] in simp)
  then show ?thesis
    unfolding cleanup_instance_directory_def by (intro keeps_removal) (use assms in \<open>auto simp: validated_entries\<close>)
qed

lemma keeps_scavenge:
  assumes "\<not> removable U uid q e"
  shows "sr_keeps (holds_entry q e) (scavenge_runtime_root V U uid)"
  unfolding scavenge_runtime_root_def
  by (intro sr_rules keeps_scoped) (use keeps_cleanup_instance [OF _ assms] in simp)

lemma keeps_make_directory:
  "sr_keeps (holds_entry q e) (make_directory V uid p)"
proof (rule sr_keepsI)
  fix s :: "'a ssh_disk_scheme" assume h: "holds_entry q e s"
  show "holds_entry q e (snd (make_directory V uid p s))"
  proof (cases "creatable p (sd_fs s) \<and> \<not> fe_fails V Call_Mkdir p")
    case True
    with h have "p \<noteq> q" by (auto simp: creatable_def)
    with h True show ?thesis
      by (auto simp: make_directory_def sr_bind_def disk_calls sr_leaf update_conv' split: option.splits fs_entry.splits)
  next
    case False
    with h show ?thesis by (auto simp: make_directory_def sr_bind_def disk_calls sr_leaf)
  qed
qed

lemma keeps_prepare_root: "sr_keeps (holds_entry q e) (prepare_root V)"
proof (rule sr_keepsI)
  fix s :: "'a ssh_disk_scheme" assume h: "holds_entry q e s"
  show "holds_entry q e (snd (prepare_root V s))"
  proof (cases "creatable [] (sd_fs s) \<and> \<not> fe_fails V Call_Mkdir []")
    case True
    with h have "q \<noteq> []" by (auto simp: creatable_def)
    with h True show ?thesis
      by (auto simp: prepare_root_def sr_bind_def disk_calls sr_leaf update_conv' split: option.splits fs_entry.splits)
  next
    case False
    with h show ?thesis by (auto simp: prepare_root_def sr_bind_def disk_calls sr_leaf)
  qed
qed

lemma keeps_flags [sr_rules]:
  "sr_keeps (holds_entry q e) (sr_modify (\<lambda>s. s\<lparr>sd_locked := b\<rparr>))" "sr_keeps (holds_entry q e) (sr_modify (\<lambda>s. s\<lparr>sd_permits := n\<rparr>))"
  "sr_keeps (holds_entry q e) (sr_modify (\<lambda>s. s\<lparr>sd_permits := sd_permits s + 1\<rparr>))"
  by (simp_all add: sr_keeps_def sr_leaf)

lemma keeps_lock: "sr_keeps (holds_entry q e) (lock_runtime_root V uid)"
proof -
  have "sr_keeps (holds_entry q e) (open_lock V :: ('a, unit) disk_op)"
    by (auto simp: sr_keeps_def open_lock_def sr_bind_def call_fails_eq sys_put_def sr_leaf update_conv' split: option.splits fs_entry.splits)
  then show ?thesis unfolding lock_runtime_root_def by (intro sr_rules)
qed

lemma keeps_create_locked: "\<not> removable U uid q e \<Longrightarrow> sr_keeps (holds_entry q e) (create_locked V U fresh uid)"
  unfolding create_locked_def by (intro sr_rules keeps_make_directory keeps_scavenge)

lemma sr_keeps_entry: "(\<And>i. sr_keeps P (f i)) \<Longrightarrow> sr_keeps P (case e of FS_Dir i \<Rightarrow> f i | _ \<Rightarrow> sr_throw Ssh_Custody)"
  by (cases e) (simp_all add: sr_rules)

lemma sr_keeps_snd: "sr_keeps P m \<Longrightarrow> P s \<Longrightarrow> P (snd (m s))"
  by (simp add: sr_keeps_def)

lemma snd_bind: "(\<And>a t. m s = (Ok a, t) \<Longrightarrow> P (snd (f a t))) \<Longrightarrow> (\<And>e t. m s = (Err e, t) \<Longrightarrow> P t) \<Longrightarrow> P (snd (sr_bind m f s))"
  by (auto simp: sr_bind_def split: prod.splits sum.splits)

lemma sys_stat_Ok: "sys_stat V p s = (Ok e, t) \<longleftrightarrow> \<not> fe_fails V Call_Stat p \<and> map_of (sd_fs s) p = Some e \<and> t = s"
  by (auto simp: disk_calls sr_leaf sr_bind_def split: option.splits)

text \<open>The owner is the owner of the root, which is the process itself if it has to create the root.\<close>

definition root_uid :: "fs_env \<Rightarrow> fs \<Rightarrow> nat" where
  "root_uid V fs = (case map_of fs [] of Some (FS_Dir i) \<Rightarrow> im_uid i | _ \<Rightarrow> fe_uid V)"

lemma root_uid_prepared: "sr_keeps (\<lambda>s. root_uid V (sd_fs s) = uid) (prepare_root V)"
  by (auto simp: sr_keeps_def prepare_root_def sr_bind_def disk_calls sr_leaf root_uid_def creatable_def update_conv'
      split: option.splits fs_entry.splits)

lemma keeps_create:
  assumes "holds_entry q e s" "\<not> removable U (root_uid V (sd_fs s)) q e"
  shows "holds_entry q e (snd (runtime_create V U fresh s))"
proof -
  let ?uid = "root_uid V (sd_fs s)"
  have rest: "sr_keeps (holds_entry q e) (sr_bind (lock_runtime_root V (im_uid i)) (\<lambda>_.
      sr_bind (sr_try (create_locked V U fresh (im_uid i))) (\<lambda>r.
      sr_bind (if is_ok r then sr_return () else sr_modify (\<lambda>s. s\<lparr>sd_locked := False\<rparr>)) (\<lambda>_. sr_lift r))))" if "im_uid i = ?uid" for i
    unfolding that by (intro sr_rules keeps_lock keeps_create_locked assms(2))
  show ?thesis
    unfolding runtime_create_def
  proof (rule snd_bind [where P = "holds_entry q e"])
    fix u t assume t: "prepare_root V s = (Ok u, t)"
    have h: "holds_entry q e t" by (rule sr_keepsD [where P = "holds_entry q e", OF keeps_prepare_root assms(1) t])
    have "root_uid V (sd_fs t) = ?uid" by (rule sr_keepsD [where P = "\<lambda>s. root_uid V (sd_fs s) = ?uid", OF root_uid_prepared refl t])
    then have uid: "im_uid i = ?uid" if "map_of (sd_fs t) [] = Some (FS_Dir i)" for i using that by (simp add: root_uid_def)
    show "holds_entry q e (snd (sr_bind (sys_stat V []) (\<lambda>x. case x of
       FS_Dir i \<Rightarrow>
         if \<not> mode_is i o700 then sr_throw Ssh_Custody
         else sr_bind (lock_runtime_root V (im_uid i)) (\<lambda>_.
           sr_bind (sr_try (create_locked V U fresh (im_uid i))) (\<lambda>r.
           sr_bind (if is_ok r then sr_return () else sr_modify (\<lambda>s. s\<lparr>sd_locked := False\<rparr>)) (\<lambda>_. sr_lift r)))
     | _ \<Rightarrow> sr_throw Ssh_Custody) t))"
      by (rule snd_bind [where P = "holds_entry q e" and m = "sys_stat V []"])
        (use h in \<open>auto simp: sys_stat_Ok sr_throw_def split: fs_entry.splits dest: uid intro: sr_keeps_snd [where P = "holds_entry q e", OF rest]
           sr_keepsD [where P = "holds_entry q e", OF keeps_reads(2)]\<close>)
  qed (rule sr_keepsD [where P = "holds_entry q e", OF keeps_prepare_root assms(1)])
qed

lemma keeps_drop:
  assumes "own_name U ''instance-'' x" "rt_instance_dir rt = [x]" "\<not> removable U (rt_owner_uid rt) q e"
  shows "sr_keeps (holds_entry q e) (runtime_drop V U rt)"
  unfolding runtime_drop_def assms(2) by (intro sr_rules keeps_cleanup_instance assms)

text \<open>C23. Starting and stopping the SSH runtime never removes or changes anything it would not have made itself, whatever is
  in the root and whichever system calls fail. An entry survives both, unless it is a private directory of the root's owner
  under a generated name at its level, or a private single-link file of that owner called \<open>identity\<close> or \<open>known_hosts\<close> inside
  such directories: links, hard links, other owners, modes, names or places, and the lock file, stay as they are.\<close>

theorem foreign_entries_survive:
  assumes "map_of (sd_fs s) q = Some e"
    and "rt_instance_dir rt = [scoped_name U ''instance-'' f]"
  shows "(\<not> removable U (root_uid V (sd_fs s)) q e \<longrightarrow> map_of (sd_fs (snd (runtime_create V U fresh s))) q = Some e)
    \<and> (\<not> removable U (rt_owner_uid rt) q e \<longrightarrow> map_of (sd_fs (snd (runtime_drop V U rt s))) q = Some e)"
proof (intro conjI impI)
  show "\<not> removable U (root_uid V (sd_fs s)) q e \<Longrightarrow> map_of (sd_fs (snd (runtime_create V U fresh s))) q = Some e"
    by (rule keeps_create [OF assms(1)])
  have "own_name U ''instance-'' (scoped_name U ''instance-'' f)" by (auto simp: own_name_def scoped_name_def)
  from sr_keeps_snd [where P = "holds_entry q e", OF keeps_drop [OF this assms(2)] assms(1)]
  show "\<not> removable U (rt_owner_uid rt) q e \<Longrightarrow> map_of (sd_fs (snd (runtime_drop V U rt s))) q = Some e" .
qed

text \<open>A symbolic link in the place of an identity file stays, although everything around it is the runtime's own.\<close>

theorem foreign_entries_survive_witness:
  "map_of (sd_fs (snd (runtime_create \<lparr>fe_fails = (\<lambda>_ _. False), fe_written = (\<lambda>_. 0), fe_uid = 5, fe_umask = 0x3F\<rparr>
       \<lparr>ut_parse = (\<lambda>_. Some 7), ut_show = (\<lambda>_. ''7'')\<rparr> 8
     \<lparr>sd_fs = [([], FS_Dir \<lparr>im_uid = 5, im_mode = o700, im_nlink = 2\<rparr>), ([''instance-7''], FS_Dir \<lparr>im_uid = 5, im_mode = o700, im_nlink = 2\<rparr>),
        ([''instance-7'', ''child-7''], FS_Dir \<lparr>im_uid = 5, im_mode = o700, im_nlink = 2\<rparr>),
        ([''instance-7'', ''child-7'', ''identity''], FS_Link True)],
       sd_locked = False, sd_permits = 0\<rparr>))) [''instance-7'', ''child-7'', ''identity''] = Some (FS_Link True)"
  using foreign_entries_survive [of "\<lparr>sd_fs = [([], FS_Dir \<lparr>im_uid = 5, im_mode = o700, im_nlink = 2\<rparr>),
      ([''instance-7''], FS_Dir \<lparr>im_uid = 5, im_mode = o700, im_nlink = 2\<rparr>), ([''instance-7'', ''child-7''], FS_Dir \<lparr>im_uid = 5, im_mode = o700, im_nlink = 2\<rparr>),
      ([''instance-7'', ''child-7'', ''identity''], FS_Link True)], sd_locked = False, sd_permits = 0\<rparr>"
    "[''instance-7'', ''child-7'', ''identity'']" "FS_Link True" "\<lparr>rt_instance_dir = [''instance-7''], rt_owner_uid = 5\<rparr>"
    "\<lparr>ut_parse = (\<lambda>_. Some 7), ut_show = (\<lambda>_. ''7'')\<rparr>" 7]
  by (simp add: private_file_def scoped_name_def)

text \<open>A directory below the root that is not private is never taken away, whoever owns it.\<close>

lemma open_directory: "\<not> mode_is i o700 \<Longrightarrow> \<not> removable U uid [name] (FS_Dir i)"
  by (simp add: private_directory_def mode_is_def)

lemma scavenge_rejects:
  fixes s :: "'z ssh_disk_scheme"
  assumes "holds_entry [name] (FS_Dir i) s" "\<not> mode_is i o700" "name \<noteq> ''.lock''"
  shows "fst (scavenge_runtime_root V U uid s) \<noteq> Ok ()"
proof
  assume ok: "fst (scavenge_runtime_root V U uid s) = Ok ()"
  let ?e = "FS_Dir i"
  let ?f = "\<lambda>name. sr_bind (call_fails V Call_Entry [name]) (\<lambda>_. if name = ''.lock'' then sr_return ()
       else cleanup_scoped V U ''instance-'' (cleanup_instance_directory V U uid) [] name)"
  from ok obtain s' where run: "sr_each ?f (names_in [] (sd_fs s)) s = (Ok (), s')"
    by (cases "scavenge_runtime_root V U uid s")
      (auto simp: scavenge_runtime_root_def res_simps sys_list_def call_fails_eq sr_leaf split: if_splits)
  have name: "name \<in> set (names_in [] (sd_fs s))"
    using assms(1) by (force simp: names_in_def dest: map_of_SomeD)
  have "sr_keeps (holds_entry [name] ?e) (?f n)" for n
    by (intro sr_rules keeps_scoped) (use keeps_cleanup_instance [OF _ open_directory [OF assms(2)]] in simp)
  from each_reaches [OF this run assms(1) name] obtain t t' :: "'z ssh_disk_scheme" where t: "holds_entry [name] ?e t" "?f name t = (Ok (), t')" by blast
  with assms(3) have "fst (cleanup_instance_directory V U uid [name] t) = Ok ()"
    by (auto simp: res_simps call_fails_eq cleanup_scoped_def sr_leaf split: if_splits)
  with t(1) assms(2) show False
    by (cases "fe_fails V Call_Stat [name]") (auto simp: cleanup_instance_directory_def sr_bind_def disk_calls sr_leaf directory_ok_def)
qed

lemma directory_case_Ok:
  "(case e of FS_Dir i \<Rightarrow> f i | _ \<Rightarrow> sr_throw Ssh_Custody) s = (Ok a, s') \<longleftrightarrow> (\<exists>i. e = FS_Dir i \<and> f i s = (Ok a, s'))"
  by (cases e) (simp_all add: sr_throw_def)

lemma runtime_create_Ok:
  "runtime_create V U fresh s = (Ok rt, s') \<longleftrightarrow> (\<exists>t u i v. prepare_root V s = (Ok (), t) \<and> sys_stat V [] t = (Ok (FS_Dir i), u)
     \<and> mode_is i o700 \<and> lock_runtime_root V (im_uid i) u = (Ok (), v) \<and> create_locked V U fresh (im_uid i) v = (Ok rt, s'))"
  by (simp add: runtime_create_def res_simps directory_case_Ok sr_leaf is_ok_def sr_try_Ok) blast

lemma create_rejects:
  fixes s :: "'z ssh_disk_scheme"
  assumes "holds_entry [name] (FS_Dir i) s" "\<not> mode_is i o700" "name \<noteq> ''.lock''"
  shows "\<exists>err s'. runtime_create V U fresh s = (Err err, s') \<and> holds_entry [name] (FS_Dir i) s'"
proof -
  obtain r s' where run: "runtime_create V U fresh s = (r, s')" by fastforce
  have "holds_entry [name] (FS_Dir i) s'" using keeps_create [OF assms(1) open_directory [OF assms(2)]] run by (metis snd_conv)
  moreover have "r \<noteq> Ok rt" for rt
  proof
    assume "r = Ok rt"
    with run obtain t u j v where steps: "prepare_root V s = (Ok (), t)" "sys_stat V [] t = (Ok (FS_Dir j), u)"
      "lock_runtime_root V (im_uid j) u = (Ok (), v)" "create_locked V U fresh (im_uid j) v = (Ok rt, s')"
      by (auto simp: runtime_create_Ok)
    note k = sr_keepsD [where P = "holds_entry [name] (FS_Dir i)"]
    from steps assms(1) have "holds_entry [name] (FS_Dir i) v"
      by (blast intro: k [OF keeps_lock _ steps(3)] k [OF keeps_reads(2) _ steps(2)] k [OF keeps_prepare_root _ steps(1)])
    with steps(4) scavenge_rejects [OF _ assms(2,3), of v V U "im_uid j"] show False
      by (auto simp: create_locked_def res_simps)
  qed
  ultimately show ?thesis using run by (cases r) auto
qed

lemma scoped_not_lock: "scoped_name U ''instance-'' i \<noteq> ''.lock''"
  by (simp add: scoped_name_def)

definition sample_uuid_text :: uuid_text where
  "sample_uuid_text = \<lparr>
     ut_parse = (\<lambda>v. if v = ''7'' then Some 7 else if v = ''8'' then Some 8 else map_option of_nat (parse_unsigned 128 (tl v))),
     ut_show = (\<lambda>i. if i = 7 then ''7'' else if i = 8 then ''8'' else CHR ''u'' # show_nat (unat i))\<rparr>"

definition sample_disk_env :: "32 word \<Rightarrow> fs_call set \<Rightarrow> fs_env" where
  "sample_disk_env umask failing = \<lparr>fe_fails = (\<lambda>c p. c \<in> failing \<and> p \<noteq> []), fe_written = (\<lambda>_. 0), fe_uid = 5, fe_umask = umask\<rparr>"

definition sample_blank :: ssh_disk where
  "sample_blank = \<lparr>sd_fs = [], sd_locked = False, sd_permits = 0\<rparr>"

section \<open>The shape of the tree\<close>

definition scoped :: "uuid_text \<Rightarrow> bytes \<Rightarrow> bytes \<Rightarrow> bool" where
  "scoped U scope name \<longleftrightarrow> from_utf8_ok name \<and> validate_scoped_name U name scope = Ok ()"

fun entry_ok :: "uuid_text \<Rightarrow> nat \<Rightarrow> path \<Rightarrow> fs_entry \<Rightarrow> bool" where
  "entry_ok U uid [] e \<longleftrightarrow> directory_ok uid e"
| "entry_ok U uid [x] e \<longleftrightarrow> (x = ''.lock'' \<and> regular_ok uid e) \<or> (scoped U ''instance-'' x \<and> directory_ok uid e)"
| "entry_ok U uid [x, y] e \<longleftrightarrow> scoped U ''child-'' y \<and> directory_ok uid e"
| "entry_ok U uid [x, y, z] e \<longleftrightarrow> (z = ''identity'' \<or> z = ''known_hosts'') \<and> regular_ok uid e"
| "entry_ok U uid _ e \<longleftrightarrow> False"

definition has_parent :: "fs \<Rightarrow> path \<Rightarrow> bool" where
  "has_parent fs q \<longleftrightarrow> q = [] \<or> (\<exists>d. map_of fs (butlast q) = Some d \<and> is_dir d)"

definition tree_ok :: "uuid_text \<Rightarrow> nat \<Rightarrow> fs \<Rightarrow> bool" where
  "tree_ok U uid fs \<longleftrightarrow> distinct (map fst fs) \<and> (\<forall>q e. map_of fs q = Some e \<longrightarrow> entry_ok U uid q e \<and> has_parent fs q)"

lemma tree_okD:
  assumes "tree_ok U uid fs"
  shows "distinct (map fst fs)" "map_of fs q = Some e \<Longrightarrow> entry_ok U uid q e" "map_of fs q = Some e \<Longrightarrow> has_parent fs q"
  using assms by (auto simp: tree_ok_def)

lemma directory_is_dir: "directory_ok uid e \<Longrightarrow> is_dir e" "regular_ok uid e \<Longrightarrow> \<not> is_dir e"
  by (auto simp: directory_ok_def regular_ok_def is_dir_def split: fs_entry.splits)

lemma lock_not_scoped: "\<not> scoped U ''instance-'' ''.lock''"
  by (simp add: scoped_def validate_scoped_name_def strip_prefix_def starts_with_def ok_or_def r_bind_def)

lemma in_names: "x \<in> set (names_in p fs) \<longleftrightarrow> (\<exists>e. map_of fs (p @ [x]) = Some e)"
proof -
  have "x \<in> set (names_in p fs) \<longleftrightarrow> p @ [x] \<in> fst ` set fs"
    by (force simp: names_in_def dest: append_butlast_last_id)
  then show ?thesis by (metis map_of_eq_None_iff not_None_eq)
qed

lemma distinct_names:
  assumes "distinct (map fst fs)" shows "distinct (names_in p fs)"
proof -
  let ?fs = "filter (\<lambda>(q, _). q \<noteq> [] \<and> butlast q = p) fs"
  have "inj_on last (fst ` set ?fs)"
    by (rule inj_onI) (clarsimp, metis append_butlast_last_id)
  moreover from assms have "distinct (map fst ?fs)" by (simp add: distinct_map_filter)
  ultimately have "distinct (map last (map fst ?fs))" by (subst distinct_map) simp
  then show ?thesis by (simp add: names_in_def case_prod_unfold comp_def)
qed

lemma tree_ok_put:
  assumes ok: "tree_ok U uid fs" and e: "entry_ok U uid q e" and parent: "has_parent fs q" and kind: "\<And>d. map_of fs q = Some d \<Longrightarrow> is_dir d \<Longrightarrow> is_dir e"
  shows "tree_ok U uid (AList.update q e fs)"
proof -
  have parents: "has_parent (AList.update q e fs) r" if "has_parent fs r" for r
    using that kind by (auto simp: has_parent_def update_conv')
  with ok e parent show ?thesis
    by (auto simp: tree_ok_def update_conv' distinct_update split: if_splits)
qed

lemma tree_ok_drop:
  assumes ok: "tree_ok U uid fs" and "\<And>x. map_of fs (q @ [x]) = None"
  shows "tree_ok U uid (AList.delete q fs)"
proof -
  have "has_parent (AList.delete q fs) r" if "has_parent fs r" "map_of fs r = Some e" for r e
    using that assms(2) [of "last r"] by (cases r rule: rev_cases) (auto simp: has_parent_def delete_conv')
  with ok show ?thesis by (auto simp: tree_ok_def delete_conv' distinct_delete split: if_splits)
qed

lemma no_names: "names_in q fs = [] \<Longrightarrow> map_of fs (q @ [x]) = None"
  by (metis empty_iff empty_set in_names not_None_eq)

lemma file_no_children:
  "tree_ok U uid fs \<Longrightarrow> map_of fs q = Some e \<Longrightarrow> \<not> is_dir e \<Longrightarrow> map_of fs (q @ [x]) = None"
  using tree_okD(3) [of U uid fs "q @ [x]"] by (cases "map_of fs (q @ [x])") (auto simp: has_parent_def)

text \<open>A mask that leaves a private file its mode, and one under which new directories too are private from the start.\<close>

definition file_mask :: "fs_env \<Rightarrow> bool" where
  "file_mask V \<longleftrightarrow> (o600 AND NOT (fe_umask V)) AND o777 = o600"

definition private_mask :: "fs_env \<Rightarrow> bool" where
  "private_mask V \<longleftrightarrow> (o777 AND NOT (fe_umask V)) AND o777 = o700 \<and> file_mask V"

lemma private_file_mask: "private_mask V \<Longrightarrow> file_mask V"
  by (simp add: private_mask_def)

abbreviation keeps_tree :: "uuid_text \<Rightarrow> nat \<Rightarrow> 'z ssh_disk_scheme \<Rightarrow> bool" where
  "keeps_tree U uid s \<equiv> tree_ok U uid (sd_fs s)"

lemma tree_reads [sr_rules]:
  "sr_keeps (keeps_tree U uid) (call_fails V c p)" "sr_keeps (keeps_tree U uid) (sys_stat V p)" "sr_keeps (keeps_tree U uid) (sys_list V p)"
  "sr_keeps (keeps_tree U uid) (validate_directory V uid' p)"
  by (auto simp: sr_keeps_def disk_calls sr_leaf sr_bind_def split: option.splits)

lemma tree_removals [sr_rules]: "sr_keeps (keeps_tree U uid) (sys_unlink V p)" "sr_keeps (keeps_tree U uid) (sys_rmdir V p)"
  by (auto simp: sr_keeps_def disk_calls sr_leaf sr_bind_def split: option.splits intro!: tree_ok_drop dest: file_no_children no_names)

definition dir_path :: "uuid_text \<Rightarrow> nat \<Rightarrow> path \<Rightarrow> bool" where
  "dir_path U uid p \<longleftrightarrow> (\<forall>e. entry_ok U uid p e = directory_ok uid e)"

lemma dir_paths: "dir_path U uid []" "scoped U ''instance-'' x \<Longrightarrow> dir_path U uid [x]" "scoped U ''child-'' y \<Longrightarrow> dir_path U uid [x, y]"
  using lock_not_scoped [of U] by (auto simp: dir_path_def)

lemma tree_mkdir:
  assumes "private_mask V" "fe_uid V = uid" "dir_path U uid p"
  shows "sr_keeps (keeps_tree U uid) (sys_mkdir V p)"
proof (rule sr_keepsI)
  fix s :: "'a ssh_disk_scheme" assume ok: "keeps_tree U uid s"
  let ?e = "FS_Dir \<lparr>im_uid = fe_uid V, im_mode = o777 AND NOT (fe_umask V), im_nlink = 2\<rparr>"
  have e: "entry_ok U uid p ?e" using assms by (simp add: dir_path_def directory_ok_def private_mask_def mode_is_def)
  have "tree_ok U uid (AList.update p ?e (sd_fs s))" if "creatable p (sd_fs s)"
    using that by (intro tree_ok_put [OF ok e]) (auto simp: creatable_def has_parent_def split: option.splits)
  with ok show "keeps_tree U uid (snd (sys_mkdir V p s))"
    by (simp add: sys_mkdir_def call_fails_eq sys_put_def sr_leaf sr_bind_def)
qed

lemma tree_chmod:
  assumes "dir_path U uid p"
  shows "sr_keeps (keeps_tree U uid) (sys_chmod V p o700)"
proof (rule sr_keepsI)
  fix s :: "'a ssh_disk_scheme" assume ok: "keeps_tree U uid s"
  have "keeps_tree U uid (s\<lparr>sd_fs := AList.update p (FS_Dir (i\<lparr>im_mode := o700\<rparr>)) (sd_fs s)\<rparr>)" if "map_of (sd_fs s) p = Some (FS_Dir i)" for i
  proof -
    from tree_okD(2,3) [OF ok that] assms have "im_uid i = uid" "has_parent (sd_fs s) p" by (simp_all add: dir_path_def directory_ok_def)
    with assms show ?thesis
      by simp (intro tree_ok_put [OF ok], simp_all add: dir_path_def directory_ok_def is_dir_def mode_is_def)
  qed
  moreover have "map_of (sd_fs s) p \<noteq> Some (FS_File i b)" for i b
    using tree_okD(2) [OF ok, of p "FS_File i b"] assms by (auto simp: dir_path_def directory_ok_def)
  ultimately show "keeps_tree U uid (snd (sys_chmod V p o700 s))"
    using ok by (auto simp: disk_calls sr_leaf sr_bind_def split: option.splits fs_entry.splits)
qed

lemma tree_make_directory:
  "private_mask V \<Longrightarrow> fe_uid V = uid \<Longrightarrow> dir_path U uid p \<Longrightarrow> sr_keeps (keeps_tree U uid) (make_directory V uid p)"
  unfolding make_directory_def by (intro sr_rules tree_mkdir tree_chmod)

lemma tree_write:
  assumes "file_mask V" "fe_uid V = uid" "name = ''identity'' \<or> name = ''known_hosts''"
  shows "sr_keeps (keeps_tree U uid) (write_exclusive V [x, y, name] content o600)"
  using assms
  by (auto simp: sr_keeps_def disk_calls sr_leaf sr_bind_def creatable_def has_parent_def regular_ok_def file_mask_def mode_is_def Let_def
      split: option.splits intro!: tree_ok_put)

lemma tree_cleanup [sr_rules]:
  "sr_keeps (keeps_tree U uid) (cleanup_file V uid' p name)" "sr_keeps (keeps_tree U uid) (cleanup_child_directory V uid' p)"
  "sr_keeps (keeps_tree U uid) (cleanup_instance_directory V U' uid' p)" "sr_keeps (keeps_tree U uid) (scavenge_runtime_root V U' uid')"
  unfolding cleanup_file_def cleanup_child_directory_def cleanup_instance_directory_def cleanup_scoped_def scavenge_runtime_root_def
  by (intro sr_rules)+

text \<open>What the code relies on of the UUID library: a printed UUID is ASCII text that parses back.\<close>

definition uuid_text_ok :: "uuid_text \<Rightarrow> bool" where
  "uuid_text_ok U \<longleftrightarrow> (\<forall>i. ut_parse U (ut_show U i) = Some i \<and> (\<forall>c \<in> set (ut_show U i). ord c < 128))"

lemma ascii_utf8: "\<forall>c \<in> set v. ord c < 128 \<Longrightarrow> from_utf8_ok v"
  by (induction v) (auto simp: from_utf8_ok_def utf8_chars_ascii)

lemma fresh_scoped: "uuid_text_ok U \<Longrightarrow> scoped U ''instance-'' (scoped_name U ''instance-'' i)" "uuid_text_ok U \<Longrightarrow> scoped U ''child-'' (scoped_name U ''child-'' i)"
  by (auto simp: scoped_def scoped_name_def validate_scoped_name_def strip_prefix_def starts_with_def ok_or_def r_bind_def uuid_text_ok_def intro!: ascii_utf8)

lemma tree_flags [sr_rules]:
  "sr_keeps (keeps_tree U uid) (sr_modify (\<lambda>s. s\<lparr>sd_locked := b\<rparr>))" "sr_keeps (keeps_tree U uid) (sr_modify (\<lambda>s. s\<lparr>sd_permits := n\<rparr>))"
  "sr_keeps (keeps_tree U uid) (sr_modify (\<lambda>s. s\<lparr>sd_permits := sd_permits s + 1\<rparr>))"
  by (simp_all add: sr_keeps_def sr_leaf)

lemma keeps_after: "P (snd (m s)) \<Longrightarrow> (\<And>a. sr_keeps P (f a)) \<Longrightarrow> P (snd (sr_bind m f s))"
  by (auto simp: sr_bind_def sr_keeps_def split: prod.splits sum.splits)

lemma tree_lock:
  assumes "file_mask V" "fe_uid V = uid" "keeps_tree U uid s" "map_of (sd_fs s) [] = Some (FS_Dir i)"
  shows "keeps_tree U uid (snd (lock_runtime_root V uid' s))"
proof -
  let ?e = "FS_File \<lparr>im_uid = fe_uid V, im_mode = o600 AND NOT (fe_umask V), im_nlink = 1\<rparr> []"
  have "tree_ok U uid (AList.update [''.lock''] ?e (sd_fs s))" if "map_of (sd_fs s) [''.lock''] = None"
    using assms that by (intro tree_ok_put) (simp_all add: regular_ok_def file_mask_def mode_is_def has_parent_def is_dir_def)
  with assms(3) have "keeps_tree U uid (snd (open_lock V s))"
    by (auto simp: open_lock_def call_fails_eq sys_put_def sr_leaf sr_bind_def split: option.splits fs_entry.splits)
  then show ?thesis
    unfolding lock_runtime_root_def by (rule keeps_after) (intro sr_rules)
qed

lemma tree_create:
  assumes "private_mask V" "uuid_text_ok U" "fe_uid V = uid"
  shows "sr_keeps (keeps_tree U uid) (runtime_create V U fresh)"
proof (rule sr_keepsI)
  fix s :: "'a ssh_disk_scheme" assume ok: "keeps_tree U uid s"
  note made = tree_make_directory [OF assms(1,3) dir_paths(2) [OF fresh_scoped(1) [OF assms(2)]]]
  have root: "sr_keeps (keeps_tree U uid) (prepare_root V :: ('a, unit) disk_op)"
    unfolding prepare_root_def by (intro sr_rules tree_mkdir tree_chmod assms dir_paths)
  have locked: "sr_keeps (keeps_tree U uid) (sr_bind (sr_try (create_locked V U fresh uid)) (\<lambda>r.
      sr_bind (if is_ok r then sr_return () else sr_modify (\<lambda>s. s\<lparr>sd_locked := False\<rparr>)) (\<lambda>_. sr_lift r)) :: ('a, ssh_runtime) disk_op)"
    unfolding create_locked_def by (intro sr_rules made)
  have after: "keeps_tree U uid (snd (sr_bind (lock_runtime_root V (im_uid i)) (\<lambda>_.
      sr_bind (sr_try (create_locked V U fresh (im_uid i))) (\<lambda>r.
      sr_bind (if is_ok r then sr_return () else sr_modify (\<lambda>s. s\<lparr>sd_locked := False\<rparr>)) (\<lambda>_. sr_lift r))) t))"
    if t: "keeps_tree U uid t" "map_of (sd_fs t) [] = Some (FS_Dir i)" for t :: "'a ssh_disk_scheme" and i
  proof -
    from tree_okD(2) [OF t] have "im_uid i = uid" by (simp add: directory_ok_def)
    moreover have "keeps_tree U uid t'" if "lock_runtime_root V (im_uid i) t = (r, t')" for r t'
      using tree_lock [OF private_file_mask [OF assms(1)] assms(3) t, of "im_uid i"] that by simp
    ultimately show ?thesis
      using locked by (intro snd_bind [where P = "keeps_tree U uid" and m = "lock_runtime_root V (im_uid i)"]) (auto simp: sr_keeps_def)
  qed
  show "keeps_tree U uid (snd (runtime_create V U fresh s))"
    unfolding runtime_create_def
  proof (rule snd_bind [where P = "keeps_tree U uid"])
    fix u t assume "prepare_root V s = (Ok u, t)"
    then have t: "keeps_tree U uid t" by (rule sr_keepsD [where P = "keeps_tree U uid", OF root ok])
    then show "keeps_tree U uid (snd (sr_bind (sys_stat V []) (\<lambda>e. case e of
       FS_Dir i \<Rightarrow>
         if \<not> mode_is i o700 then sr_throw Ssh_Custody
         else sr_bind (lock_runtime_root V (im_uid i)) (\<lambda>_.
           sr_bind (sr_try (create_locked V U fresh (im_uid i))) (\<lambda>r.
           sr_bind (if is_ok r then sr_return () else sr_modify (\<lambda>s. s\<lparr>sd_locked := False\<rparr>)) (\<lambda>_. sr_lift r)))
     | _ \<Rightarrow> sr_throw Ssh_Custody) t))"
      by (rule_tac snd_bind [where P = "keeps_tree U uid" and m = "sys_stat V []"])
        (auto simp: sys_stat_Ok after sr_throw_def split: fs_entry.splits dest: sr_keepsD [where P = "keeps_tree U uid", OF tree_reads(2)])
  qed (rule sr_keepsD [where P = "keeps_tree U uid", OF root ok])
qed

section \<open>Cleaning succeeds\<close>

definition quiet :: "fs_env \<Rightarrow> bool" where
  "quiet V \<longleftrightarrow> (\<forall>c p. \<not> fe_fails V c p)"

text \<open>Only changes of a mode may fail.\<close>

definition steady :: "fs_env \<Rightarrow> bool" where
  "steady V \<longleftrightarrow> (\<forall>c p. fe_fails V c p \<longrightarrow> c = Call_Chmod)"

lemma steadyD: "steady V \<Longrightarrow> c \<noteq> Call_Chmod \<Longrightarrow> \<not> fe_fails V c p"
  by (auto simp: steady_def)

lemma quiet_steady: "quiet V \<Longrightarrow> steady V"
  by (simp add: quiet_def steady_def)

text \<open>The tree without what lies at or below the given paths.\<close>

definition prune :: "path set \<Rightarrow> fs \<Rightarrow> fs" where
  "prune Q fs = filter (\<lambda>(r, _). \<not> (\<exists>q \<in> Q. prefix q r)) fs"

lemma map_of_prune: "map_of (prune Q fs) r = (if \<exists>q \<in> Q. prefix q r then None else map_of fs r)"
  unfolding prune_def by (induction fs) auto

lemma prune_prune: "prune Q (prune R fs) = prune (Q \<union> R) fs"
  by (auto simp: prune_def intro!: filter_cong)

lemma prune_covered: "(\<And>q. q \<in> Q \<Longrightarrow> prefix p q) \<Longrightarrow> prune ({p} \<union> Q) fs = prune {p} fs"
  unfolding prune_def by (intro filter_cong) (auto dest: prefix_order.order_trans)

lemma prune_empty [simp]: "prune {} fs = fs"
  by (simp add: prune_def)

lemma tree_ok_prune:
  assumes "tree_ok U uid fs" "[] \<notin> Q"
  shows "tree_ok U uid (prune Q fs)"
proof -
  have "prefix q (butlast r) \<Longrightarrow> prefix q r" for q r :: path
    by (metis prefix_order.order_trans prefixeq_butlast)
  with assms show ?thesis
    by (auto simp: tree_ok_def map_of_prune has_parent_def prune_def distinct_map_filter split: if_splits) blast+
qed

lemma delete_prune:
  assumes "distinct (map fst fs)" "\<And>r. prefix q r \<Longrightarrow> r \<noteq> q \<Longrightarrow> map_of fs r = None"
  shows "AList.delete q fs = prune {q} fs"
proof -
  have "prefix q r \<longleftrightarrow> r = q" if "(r, e) \<in> set fs" for r e
    using that assms by (metis map_of_is_SomeI option.distinct(1) prefix_order.refl)
  then show ?thesis by (auto simp: prune_def AList.delete_eq intro!: filter_cong)
qed

text \<open>Cleaning the entries of a directory one after the other, each of which goes with all that is below it.\<close>

lemma each_prunes:
  assumes step: "\<And>n t. tree_ok U uid (sd_fs t) \<Longrightarrow> map_of (sd_fs t) (p @ [n]) \<noteq> None \<Longrightarrow>
      f n t = (Ok (), t\<lparr>sd_fs := prune (if n \<in> skip then {} else {p @ [n]}) (sd_fs t)\<rparr>)"
  shows "tree_ok U uid (sd_fs s) \<Longrightarrow> distinct names \<Longrightarrow> (\<And>n. n \<in> set names \<Longrightarrow> map_of (sd_fs s) (p @ [n]) \<noteq> None) \<Longrightarrow>
    sr_each f names s = (Ok (), s\<lparr>sd_fs := prune ((\<lambda>n. p @ [n]) ` (set names - skip)) (sd_fs s)\<rparr>)"
proof (induction names arbitrary: s)
  case Nil
  then show ?case by (simp add: sr_return_def)
next
  case (Cons n names)
  let ?Q = "if n \<in> skip then {} else {p @ [n]}"
  let ?t = "s\<lparr>sd_fs := prune ?Q (sd_fs s)\<rparr>"
  have "sr_each f names ?t = (Ok (), ?t\<lparr>sd_fs := prune ((\<lambda>n. p @ [n]) ` (set names - skip)) (sd_fs ?t)\<rparr>)"
    using Cons.prems by (intro Cons.IH) (auto intro!: tree_ok_prune simp: map_of_prune)
  moreover have "(\<lambda>n. p @ [n]) ` (set names - skip) \<union> ?Q = (\<lambda>n. p @ [n]) ` (set (n # names) - skip)" by auto
  ultimately show ?case
    using step [OF Cons.prems(1) Cons.prems(3), of n] by (simp add: sr_bind_Ok_step prune_prune)
qed

lemma ancestors:
  assumes "tree_ok U uid fs" shows "map_of fs r = Some e \<Longrightarrow> prefix q r \<Longrightarrow> \<exists>d. map_of fs q = Some d"
proof (induction r arbitrary: e rule: rev_induct)
  case (snoc x r)
  with tree_okD(3) [OF assms snoc.prems(1)] show ?case by (auto simp: has_parent_def)
qed simp

lemma removal_prunes:
  assumes "steady V" "tree_ok U uid (sd_fs s)" "map_of (sd_fs s) p = Some e" "directory_ok uid e" "p \<noteq> []"
    and step: "\<And>n t. tree_ok U uid (sd_fs t) \<Longrightarrow> map_of (sd_fs t) (p @ [n]) \<noteq> None \<Longrightarrow> f n t = (Ok (), t\<lparr>sd_fs := prune {p @ [n]} (sd_fs t)\<rparr>)"
  shows "sr_bind (validate_directory V uid p) (\<lambda>_. sr_bind (sys_list V p) (\<lambda>names.
    sr_bind (sr_each f names) (\<lambda>_. sys_rmdir V p))) s = (Ok (), s\<lparr>sd_fs := prune {p} (sd_fs s)\<rparr>)"
proof -
  let ?names = "names_in p (sd_fs s)"
  let ?fs = "prune ((\<lambda>n. p @ [n]) ` set ?names) (sd_fs s)"
  have each: "sr_each f ?names s = (Ok (), s\<lparr>sd_fs := ?fs\<rparr>)"
    using each_prunes [where f = f and p = p and U = U and uid = uid and skip = "{}" and s = s and names = ?names] step assms(2)
    by (auto simp: distinct_names tree_okD(1) in_names)
  have ok: "tree_ok U uid ?fs" using assms(2) by (rule tree_ok_prune) auto
  have gone: "map_of ?fs (p @ [x]) = None" for x by (auto simp: map_of_prune in_names)
  have here: "map_of ?fs p = Some e" using assms(3) by (auto simp: map_of_prune)
  have "map_of ?fs r = None" if "prefix p r" "r \<noteq> p" for r
  proof (rule ccontr)
    from that obtain zs where zs: "r = p @ zs" "zs \<noteq> []" by (auto simp: prefix_def)
    then obtain x rest where r: "r = p @ x # rest" by (cases zs) auto
    then have "prefix (p @ [x]) r" by simp
    moreover assume "map_of ?fs r \<noteq> None"
    ultimately show False using ancestors [OF ok, of r] gone [of x] by fastforce
  qed
  then have "AList.delete p ?fs = prune {p} ?fs" by (rule delete_prune [OF tree_okD(1) [OF ok]])
  moreover have "prune {p} ?fs = prune {p} (sd_fs s)" unfolding prune_prune by (rule prune_covered) auto
  moreover have "names_in p ?fs = []" using gone by (metis in_names list.set_intros(1) neq_Nil_conv option.distinct(1))
  ultimately show ?thesis
    using assms(1,3,4) here each directory_is_dir(1) [OF assms(4)]
    by (simp add: sr_bind_def disk_calls steadyD sr_leaf)
qed

lemma file_cleaned:
  assumes "steady V" "tree_ok U uid (sd_fs t)" "map_of (sd_fs t) ([x, y] @ [n]) \<noteq> None"
  shows "cleanup_file V uid [x, y] n t = (Ok (), t\<lparr>sd_fs := prune {[x, y] @ [n]} (sd_fs t)\<rparr>)"
proof -
  from assms(3) obtain e where e: "map_of (sd_fs t) [x, y, n] = Some e" by auto
  from tree_okD(2) [OF assms(2) e] have n: "n = ''identity'' \<or> n = ''known_hosts''" "regular_ok uid e" by auto
  have "map_of (sd_fs t) r = None" if "prefix [x, y, n] r" "r \<noteq> [x, y, n]" for r
  proof -
    from that obtain zs where "r = x # y # n # zs" "zs \<noteq> []" by (auto simp: prefix_def)
    then show ?thesis using tree_okD(2) [OF assms(2), of r] by (cases zs; cases "map_of (sd_fs t) r") auto
  qed
  then have "AList.delete [x, y, n] (sd_fs t) = prune {[x, y, n]} (sd_fs t)" by (intro delete_prune tree_okD(1) [OF assms(2)])
  with e n assms(1) directory_is_dir(2) [OF n(2)] show ?thesis
    by (auto simp: cleanup_file_def disk_calls steadyD sr_bind_def sr_leaf)
qed

lemma child_cleaned:
  assumes "steady V" "tree_ok U uid (sd_fs t)" "map_of (sd_fs t) [x, y] \<noteq> None"
  shows "cleanup_child_directory V uid [x, y] t = (Ok (), t\<lparr>sd_fs := prune {[x, y]} (sd_fs t)\<rparr>)"
proof -
  from assms(3) obtain e where e: "map_of (sd_fs t) [x, y] = Some e" by auto
  with tree_okD(2) [OF assms(2) e] show ?thesis
    unfolding cleanup_child_directory_def by (intro removal_prunes [OF assms(1,2) e] file_cleaned [OF assms(1)]) auto
qed

lemma instance_cleaned:
  assumes "steady V" "tree_ok U uid (sd_fs t)" "map_of (sd_fs t) [x] \<noteq> None" "x \<noteq> ''.lock''"
  shows "cleanup_instance_directory V U uid [x] t = (Ok (), t\<lparr>sd_fs := prune {[x]} (sd_fs t)\<rparr>)"
proof -
  from assms(3) obtain e where e: "map_of (sd_fs t) [x] = Some e" by auto
  have step: "sr_bind (call_fails V Call_Entry ([x] @ [n])) (\<lambda>_. cleanup_scoped V U ''child-'' (cleanup_child_directory V uid) [x] n) t'
      = (Ok (), t'\<lparr>sd_fs := prune {[x] @ [n]} (sd_fs t')\<rparr>)"
    if t': "tree_ok U uid (sd_fs t')" "map_of (sd_fs t') ([x] @ [n]) \<noteq> None" for n and t' :: "'a ssh_disk_scheme"
  proof -
    from t' obtain d where d: "map_of (sd_fs t') [x, n] = Some d" by auto
    from tree_okD(2) [OF t'(1) d] have "scoped U ''child-'' n" by simp
    with child_cleaned [OF assms(1) t'(1), of x n] d assms(1) show ?thesis
      by (simp add: sr_bind_def call_fails_eq steadyD cleanup_scoped_def scoped_def sr_leaf)
  qed
  from tree_okD(2) [OF assms(2) e] assms(4) have "directory_ok uid e" by simp
  then show ?thesis
    unfolding cleanup_instance_directory_def by (intro removal_prunes [OF assms(1,2) e] step) simp_all
qed

lemma scavenged:
  assumes "steady V" "tree_ok U uid (sd_fs s)"
  shows "scavenge_runtime_root V U uid s
    = (Ok (), s\<lparr>sd_fs := prune ((\<lambda>n. [n]) ` (set (names_in [] (sd_fs s)) - {''.lock''})) (sd_fs s)\<rparr>)"
proof -
  let ?f = "\<lambda>name. sr_bind (call_fails V Call_Entry [name]) (\<lambda>_. if name = ''.lock'' then sr_return ()
       else cleanup_scoped V U ''instance-'' (cleanup_instance_directory V U uid) [] name) :: ('a, unit) disk_op"
  have step: "?f n t = (Ok (), t\<lparr>sd_fs := prune (if n \<in> {''.lock''} then {} else {[] @ [n]}) (sd_fs t)\<rparr>)"
    if t: "tree_ok U uid (sd_fs t)" "map_of (sd_fs t) ([] @ [n]) \<noteq> None" for n and t :: "'a ssh_disk_scheme"
  proof (cases "n = ''.lock''")
    case True
    with assms(1) show ?thesis by (simp add: sr_bind_def call_fails_eq steadyD sr_leaf)
  next
    case False
    from t obtain d where d: "map_of (sd_fs t) [n] = Some d" by auto
    from tree_okD(2) [OF t(1) d] False have "scoped U ''instance-'' n" by simp
    with instance_cleaned [OF assms(1) t(1), of n] d False assms(1) show ?thesis
      by (simp add: sr_bind_def call_fails_eq steadyD cleanup_scoped_def scoped_def sr_leaf)
  qed
  have "sr_each ?f (names_in [] (sd_fs s)) s = (Ok (), s\<lparr>sd_fs := prune ((\<lambda>n. [] @ [n]) ` (set (names_in [] (sd_fs s)) - {''.lock''})) (sd_fs s)\<rparr>)"
    by (rule each_prunes [where U = U and uid = uid, OF step assms(2)])
      (auto simp: distinct_names tree_okD(1) [OF assms(2)] in_names)
  with assms(1) show ?thesis
    by (simp add: scavenge_runtime_root_def sr_bind_def sys_list_def call_fails_eq steadyD sr_leaf)
qed

section \<open>Starting\<close>

lemma locks:
  assumes "steady V" "file_mask V" "fe_uid V = uid" "tree_ok U uid (sd_fs s)" "map_of (sd_fs s) [] = Some (FS_Dir i)" "\<not> sd_locked s"
  shows "\<exists>fs e. lock_runtime_root V uid s = (Ok (), s\<lparr>sd_fs := fs, sd_locked := True\<rparr>) \<and> tree_ok U uid fs
    \<and> map_of fs = (map_of (sd_fs s))([''.lock''] \<mapsto> e)"
proof (cases "map_of (sd_fs s) [''.lock'']")
  case None
  let ?e = "FS_File \<lparr>im_uid = fe_uid V, im_mode = o600 AND NOT (fe_umask V), im_nlink = 1\<rparr> []"
  have run: "lock_runtime_root V uid s = (Ok (), s\<lparr>sd_fs := AList.update [''.lock''] ?e (sd_fs s), sd_locked := True\<rparr>)"
    using assms None by (simp add: lock_runtime_root_def open_lock_def sr_bind_def disk_calls steadyD sr_leaf update_conv' regular_ok_def mode_is_def file_mask_def)
  with tree_lock [OF assms(2-5), of uid] have "tree_ok U uid (AList.update [''.lock''] ?e (sd_fs s))" by simp
  with run show ?thesis by (intro exI [of _ "AList.update [''.lock''] ?e (sd_fs s)"] exI [of _ ?e]) (simp add: update_conv')
next
  case (Some e)
  from tree_okD(2) [OF assms(4) Some] lock_not_scoped [of U] have "regular_ok uid e" by auto
  moreover from this obtain j b where "e = FS_File j b" by (cases e) (auto simp: regular_ok_def)
  ultimately have "lock_runtime_root V uid s = (Ok (), s\<lparr>sd_fs := sd_fs s, sd_locked := True\<rparr>)"
    using assms Some by (simp add: lock_runtime_root_def open_lock_def sr_bind_def disk_calls steadyD sr_leaf)
  with assms(4) Some show ?thesis by (metis fun_upd_triv)
qed

lemma tree_ok_cong:
  assumes "tree_ok U uid fs" "distinct (map fst fs')" "map_of fs' = map_of fs"
  shows "tree_ok U uid fs'"
  using assms(1,2) unfolding tree_ok_def has_parent_def assms(3) by blast

lemma makes_directory:
  assumes "quiet V" "fe_uid V = uid" "creatable p (sd_fs s)"
  shows "\<exists>fs e. make_directory V uid p s = (Ok (), s\<lparr>sd_fs := fs\<rparr>) \<and> map_of fs = (map_of (sd_fs s))(p \<mapsto> e) \<and> directory_ok uid e
    \<and> (distinct (map fst (sd_fs s)) \<longrightarrow> distinct (map fst fs))"
proof -
  let ?e = "FS_Dir \<lparr>im_uid = uid, im_mode = o700, im_nlink = 2\<rparr>"
  have "directory_ok uid ?e" by (simp add: directory_ok_def mode_is_def)
  with assms show ?thesis
    by (intro exI [of _ ?e] exI [of _ "AList.update p ?e (AList.update p (FS_Dir \<lparr>im_uid = uid, im_mode = o777 AND NOT (fe_umask V), im_nlink = 2\<rparr>) (sd_fs s))"])
      (simp add: make_directory_def sr_bind_def disk_calls quiet_def sr_leaf update_conv' distinct_update)
qed

lemma prepares_root:
  assumes "quiet V" "private_mask V" "fe_uid V = uid" "tree_ok U uid (sd_fs s)"
  shows "\<exists>fs i. prepare_root V s = (Ok (), s\<lparr>sd_fs := fs\<rparr>) \<and> tree_ok U uid fs \<and> map_of fs [] = Some (FS_Dir i) \<and> directory_ok uid (FS_Dir i)"
proof (cases "map_of (sd_fs s) []")
  case None
  then have "creatable [] (sd_fs s)" "\<not> root_exists (sd_fs s)" by (simp_all add: creatable_def root_exists_def)
  let ?e = "\<lparr>im_uid = uid, im_mode = o700, im_nlink = 2\<rparr>"
  let ?fs = "AList.update [] (FS_Dir ?e) (AList.update [] (FS_Dir \<lparr>im_uid = uid, im_mode = o777 AND NOT (fe_umask V), im_nlink = 2\<rparr>) (sd_fs s))"
  have "prepare_root V s = (Ok (), s\<lparr>sd_fs := ?fs\<rparr>)"
    using assms(1,3) \<open>creatable [] (sd_fs s)\<close> \<open>\<not> root_exists (sd_fs s)\<close>
    by (simp add: prepare_root_def sr_bind_def disk_calls quiet_def sr_leaf update_conv')
  moreover have "sr_keeps (keeps_tree U uid) (prepare_root V :: ('a, unit) disk_op)"
    unfolding prepare_root_def by (intro sr_rules tree_mkdir tree_chmod assms dir_paths)
  ultimately have "keeps_tree U uid (s\<lparr>sd_fs := ?fs\<rparr>)" by (metis (mono_tags) assms(4) sr_keepsD)
  then have "tree_ok U uid ?fs" by simp
  then show ?thesis using \<open>prepare_root V s = (Ok (), s\<lparr>sd_fs := ?fs\<rparr>)\<close>
    by (intro exI [of _ ?fs] exI [of _ ?e]) (simp add: update_conv' directory_ok_def mode_is_def)
next
  case (Some e)
  from tree_okD(2) [OF assms(4) Some] have "directory_ok uid e" by simp
  moreover from this obtain i where "e = FS_Dir i" by (cases e) (auto simp: directory_ok_def)
  ultimately show ?thesis using Some assms(4)
    by (intro exI [of _ "sd_fs s"] exI [of _ i]) (simp add: prepare_root_def sr_bind_def sr_leaf root_exists_def)
qed

lemma scavenged_dom:
  assumes "tree_ok U uid fs" "map_of fs [] = Some (FS_Dir i)" "map_of fs [''.lock''] = Some e"
  shows "dom (map_of (prune ((\<lambda>n. [n]) ` (set (names_in [] fs) - {''.lock''})) fs)) = {[], [''.lock'']}"
proof -
  have "r = [] \<or> r = [''.lock'']" if r: "map_of fs r = Some d" "\<not> (\<exists>n \<in> set (names_in [] fs) - {''.lock''}. prefix [n] r)" for r d
  proof (cases r)
    case (Cons x zs)
    with ancestors [OF assms(1) r(1), of "[x]"] have "x \<in> set (names_in [] fs)" by (auto simp: in_names)
    with r(2) Cons have x: "x = ''.lock''" by auto
    show ?thesis
    proof (cases zs)
      case (Cons y ys)
      from ancestors [OF assms(1) r(1), of "[''.lock'', y]"] x Cons \<open>r = x # zs\<close> obtain d' where "map_of fs [''.lock'', y] = Some d'" by auto
      from tree_okD(3) [OF assms(1) this] tree_okD(2) [OF assms(1,3)] assms(3) lock_not_scoped [of U] directory_is_dir(2) [of uid e]
      show ?thesis by (auto simp: has_parent_def)
    qed (use x Cons in simp)
  qed simp
  with assms(2,3) show ?thesis by (auto simp: map_of_prune dom_def)
qed

lemma creates_locked:
  assumes "quiet V" "private_mask V" "uuid_text_ok U" "fe_uid V = uid" "tree_ok U uid (sd_fs s)"
    "map_of (sd_fs s) [] = Some (FS_Dir i)" "map_of (sd_fs s) [''.lock''] = Some e"
  shows "\<exists>s'. create_locked V U fresh uid s = (Ok \<lparr>rt_instance_dir = [scoped_name U ''instance-'' fresh], rt_owner_uid = uid\<rparr>, s')
    \<and> sd_locked s' = sd_locked s \<and> sd_permits s' = 32 \<and> dom (map_of (sd_fs s')) = {[], [''.lock''], [scoped_name U ''instance-'' fresh]}"
proof -
  let ?fs = "prune ((\<lambda>n. [n]) ` (set (names_in [] (sd_fs s)) - {''.lock''})) (sd_fs s)" and ?p = "[scoped_name U ''instance-'' fresh]"
  have dom: "dom (map_of ?fs) = {[], [''.lock'']}" by (rule scavenged_dom [OF assms(5-7)])
  have "map_of ?fs [] = Some (FS_Dir i)" using assms(6) by (auto simp: map_of_prune)
  moreover have "map_of ?fs ?p = None" using dom scoped_not_lock [of U fresh] by (metis domIff insert_iff list.inject list.distinct(1) singletonD)
  ultimately have "creatable ?p ?fs" by (simp add: creatable_def is_dir_def)
  then obtain fs d where "make_directory V uid ?p (s\<lparr>sd_fs := ?fs\<rparr>) = (Ok (), s\<lparr>sd_fs := fs\<rparr>)" "map_of fs = (map_of ?fs)(?p \<mapsto> d)"
    using makes_directory [OF assms(1,4), of ?p "s\<lparr>sd_fs := ?fs\<rparr>"] by auto
  with dom scavenged [OF quiet_steady [OF assms(1)] assms(5)] show ?thesis
    by (auto simp: create_locked_def sr_bind_def sr_leaf)
qed

lemma creates_runtime:
  assumes "quiet V" "private_mask V" "uuid_text_ok U" "fe_uid V = uid" "tree_ok U uid (sd_fs s)" "\<not> sd_locked s"
  shows "\<exists>s'. runtime_create V U fresh s = (Ok \<lparr>rt_instance_dir = [scoped_name U ''instance-'' fresh], rt_owner_uid = uid\<rparr>, s')
    \<and> sd_locked s' \<and> sd_permits s' = 32 \<and> dom (map_of (sd_fs s')) = {[], [''.lock''], [scoped_name U ''instance-'' fresh]}"
proof -
  from prepares_root [OF assms(1,2,4,5)] obtain fs i where p: "prepare_root V s = (Ok (), s\<lparr>sd_fs := fs\<rparr>)" "tree_ok U uid fs"
    "map_of fs [] = Some (FS_Dir i)" "directory_ok uid (FS_Dir i)" by blast
  from p(4) have i: "im_uid i = uid" "mode_is i o700" by (simp_all add: directory_ok_def)
  from locks [OF quiet_steady [OF assms(1)] private_file_mask [OF assms(2)] assms(4), of U "s\<lparr>sd_fs := fs\<rparr>" i] p(2,3) assms(6) obtain fs' e where l:
    "lock_runtime_root V uid (s\<lparr>sd_fs := fs\<rparr>) = (Ok (), s\<lparr>sd_fs := fs', sd_locked := True\<rparr>)" "tree_ok U uid fs'" "map_of fs' = (map_of fs)([''.lock''] \<mapsto> e)"
    by auto
  from creates_locked [OF assms(1-4), of "s\<lparr>sd_fs := fs', sd_locked := True\<rparr>" i e fresh] l(2,3) p(3) obtain s' where
    "create_locked V U fresh uid (s\<lparr>sd_fs := fs', sd_locked := True\<rparr>) = (Ok \<lparr>rt_instance_dir = [scoped_name U ''instance-'' fresh], rt_owner_uid = uid\<rparr>, s')"
    "sd_locked s'" "sd_permits s' = 32" "dom (map_of (sd_fs s')) = {[], [''.lock''], [scoped_name U ''instance-'' fresh]}"
    by auto
  moreover have "sys_stat V [] (s\<lparr>sd_fs := fs\<rparr>) = (Ok (FS_Dir i), s\<lparr>sd_fs := fs\<rparr>)" using assms(1) p(3) by (simp add: sys_stat_Ok quiet_def)
  ultimately show ?thesis using p(1) l(1) i by (intro exI [of _ s']) (auto simp: runtime_create_Ok)
qed

section \<open>A start that is cut off\<close>

text \<open>Starts of later processes, one after the other.\<close>

fun later_starts :: "(fs_env \<times> uuid_text \<times> uuid) list \<Rightarrow> 'z ssh_disk_scheme \<Rightarrow> (ssh_error + ssh_runtime) list \<times> 'z ssh_disk_scheme" where
  "later_starts [] s = ([], s)"
| "later_starts ((V, U, fresh) # starts) s = (let (r, t) = runtime_create V U fresh s; (rs, u) = later_starts starts t in (r # rs, u))"

lemma later_starts_fail:
  assumes "\<not> mode_is i o700" "name \<noteq> ''.lock''"
  shows "holds_entry [name] (FS_Dir i) s \<Longrightarrow>
    list_all (\<lambda>r. \<not> is_ok r) (fst (later_starts starts s)) \<and> holds_entry [name] (FS_Dir i) (snd (later_starts starts s))"
proof (induction starts s rule: later_starts.induct)
  case (2 V U fresh starts s)
  from create_rejects [OF 2(2) assms, of V U fresh] obtain err t
    where t: "runtime_create V U fresh s = (Err err, t)" "holds_entry [name] (FS_Dir i) t" by blast
  from 2(1) [OF t(1) [symmetric] refl t(2)] t(1) show ?case by (simp add: case_prod_unfold Let_def is_ok_def)
qed simp

definition left_directory :: "fs_env \<Rightarrow> fs_entry" where
  "left_directory V = FS_Dir \<lparr>im_uid = fe_uid V, im_mode = o777 AND NOT (fe_umask V), im_nlink = 2\<rparr>"

lemma make_directory_cut:
  assumes "steady V" "fe_fails V Call_Chmod p" "creatable p (sd_fs s)"
  shows "make_directory V uid p s = (Err Ssh_Custody, s\<lparr>sd_fs := AList.update p (left_directory V) (sd_fs s)\<rparr>)"
  using assms by (simp add: make_directory_def sr_bind_def disk_calls steadyD sr_leaf left_directory_def)

lemma create_locked_cut:
  assumes "steady V" "fe_fails V Call_Chmod [scoped_name U ''instance-'' fresh]" "tree_ok U uid (sd_fs s)"
    "map_of (sd_fs s) [] = Some (FS_Dir i)" "map_of (sd_fs s) [''.lock''] = Some e"
  shows "\<exists>fs. create_locked V U fresh uid s = (Err Ssh_Custody, s\<lparr>sd_fs := fs\<rparr>)
    \<and> map_of fs [scoped_name U ''instance-'' fresh] = Some (left_directory V)"
proof -
  let ?fs = "prune ((\<lambda>n. [n]) ` (set (names_in [] (sd_fs s)) - {''.lock''})) (sd_fs s)" and ?p = "[scoped_name U ''instance-'' fresh]"
  have dom: "dom (map_of ?fs) = {[], [''.lock'']}" by (rule scavenged_dom [OF assms(3-5)])
  have "map_of ?fs [] = Some (FS_Dir i)" using assms(4) by (auto simp: map_of_prune)
  moreover have "map_of ?fs ?p = None" using dom scoped_not_lock [of U fresh] by (metis domIff insert_iff list.inject list.distinct(1) singletonD)
  ultimately have "creatable ?p ?fs" by (simp add: creatable_def is_dir_def)
  with make_directory_cut [OF assms(1,2), of "s\<lparr>sd_fs := ?fs\<rparr>" uid] scavenged [OF assms(1,3)] show ?thesis
    by (auto simp: create_locked_def sr_bind_def update_conv')
qed

lemma create_cut:
  assumes "steady V" "fe_fails V Call_Chmod [scoped_name U ''instance-'' fresh]" "file_mask V" "fe_uid V = uid"
    "tree_ok U uid (sd_fs s)" "map_of (sd_fs s) [] \<noteq> None" "\<not> sd_locked s"
  shows "\<exists>s'. runtime_create V U fresh s = (Err Ssh_Custody, s') \<and> \<not> sd_locked s'
    \<and> holds_entry [scoped_name U ''instance-'' fresh] (left_directory V) s'"
proof -
  from assms(6) obtain d where d: "map_of (sd_fs s) [] = Some d" by auto
  with tree_okD(2) [OF assms(5) d] obtain i where i: "d = FS_Dir i" "im_uid i = uid" "mode_is i o700"
    by (cases d) (auto simp: directory_ok_def)
  have "prepare_root V s = (Ok (), s)" using d i by (simp add: prepare_root_def sr_bind_def sr_leaf root_exists_def)
  moreover have "sys_stat V [] s = (Ok (FS_Dir i), s)" using assms(1) d i by (simp add: sys_stat_Ok steadyD)
  moreover from locks [OF assms(1,3-5) _ assms(7), of i] d i obtain fs e where l:
    "lock_runtime_root V uid s = (Ok (), s\<lparr>sd_fs := fs, sd_locked := True\<rparr>)" "tree_ok U uid fs" "map_of fs = (map_of (sd_fs s))([''.lock''] \<mapsto> e)"
    by auto
  moreover from create_locked_cut [OF assms(1,2), of uid "s\<lparr>sd_fs := fs, sd_locked := True\<rparr>" i e] l(2,3) d i obtain fs'
    where "create_locked V U fresh uid (s\<lparr>sd_fs := fs, sd_locked := True\<rparr>) = (Err Ssh_Custody, s\<lparr>sd_locked := True, sd_fs := fs'\<rparr>)"
      "map_of fs' [scoped_name U ''instance-'' fresh] = Some (left_directory V)" by auto
  ultimately show ?thesis using i
    by (simp add: runtime_create_def sr_bind_def sr_try_def sr_leaf is_ok_def)
qed

text \<open>C24. Outside the mask \<open>077\<close>, a start that is cut off between creating its directory and making it private blocks every
  later start. Let the mask leave a new directory any other mode than \<open>0700\<close> (and the lock file its \<open>0600\<close>), and let the
  change of mode of the new directory be the call that fails, in a root in order whose lock is free: the start fails and
  releases the lock, and then every start in any sequence of later ones fails, whatever its mask, its failures and its
  UUIDs, because cleaning refuses the directory it finds; the directory is still there after all of them.\<close>

theorem interrupted_start_blocks_later_starts:
  assumes "tree_ok U (fe_uid V) (sd_fs s)" "map_of (sd_fs s) [] \<noteq> None" "\<not> sd_locked s"
    and "steady V" "fe_fails V Call_Chmod [scoped_name U ''instance-'' fresh]"
    and "file_mask V" "(o777 AND NOT (fe_umask V)) AND o777 \<noteq> o700"
  shows "\<exists>s1. runtime_create V U fresh s = (Err Ssh_Custody, s1) \<and> \<not> sd_locked s1 \<and>
    (\<forall>starts. list_all (\<lambda>r. \<not> is_ok r) (fst (later_starts starts s1))
      \<and> map_of (sd_fs (snd (later_starts starts s1))) [scoped_name U ''instance-'' fresh] = Some (left_directory V))"
proof -
  from create_cut [OF assms(4-6) refl assms(1-3)] obtain s1 where "runtime_create V U fresh s = (Err Ssh_Custody, s1)" "\<not> sd_locked s1"
    and left: "holds_entry [scoped_name U ''instance-'' fresh] (left_directory V) s1" by blast
  with later_starts_fail [OF _ scoped_not_lock left [unfolded left_directory_def]] assms(7) show ?thesis
    by (auto simp: left_directory_def mode_is_def)
qed

definition sample_root :: ssh_disk where
  "sample_root = \<lparr>sd_fs = [([], FS_Dir \<lparr>im_uid = 5, im_mode = o700, im_nlink = 2\<rparr>)], sd_locked = False, sd_permits = 0\<rparr>"

text \<open>With the usual mask \<open>022\<close>: the second start fails although each of its calls would succeed, and so does the third.\<close>

theorem interrupted_start_blocks_later_starts_witness:
  "\<exists>s1. runtime_create (sample_disk_env 0x12 {Call_Chmod}) sample_uuid_text 7 sample_root = (Err Ssh_Custody, s1) \<and> \<not> sd_locked s1
    \<and> list_all (\<lambda>r. \<not> is_ok r) (fst (later_starts [(sample_disk_env 0x12 {}, sample_uuid_text, 8), (sample_disk_env 0x3F {}, sample_uuid_text, 9)] s1))"
proof -
  let ?V = "sample_disk_env 0x12 {Call_Chmod}"
  have V: "steady ?V" "file_mask ?V" "fe_uid ?V = 5" "(o777 AND NOT (fe_umask ?V)) AND o777 \<noteq> o700"
    "fe_fails ?V Call_Chmod [scoped_name sample_uuid_text ''instance-'' 7]"
    by (simp_all add: sample_disk_env_def steady_def file_mask_def)
  have "tree_ok sample_uuid_text 5 (sd_fs sample_root)" "map_of (sd_fs sample_root) [] \<noteq> None" "\<not> sd_locked sample_root"
    by (simp_all add: sample_root_def tree_ok_def directory_ok_def mode_is_def has_parent_def)
  with interrupted_start_blocks_later_starts [of sample_uuid_text ?V sample_root 7] V obtain s1
    where "runtime_create ?V sample_uuid_text 7 sample_root = (Err Ssh_Custody, s1)" "\<not> sd_locked s1"
      "\<forall>starts. list_all (\<lambda>r. \<not> is_ok r) (fst (later_starts starts s1))" by auto
  then show ?thesis by (intro exI [of _ s1] conjI) blast+
qed

section \<open>Processes that come and go\<close>

text \<open>What processes do to the root, one operation after the other, with any system calls failing: also when a process
  dies in the middle of an operation. Its files are the identity and the known hosts of a child directory.\<close>

inductive disk_step :: "uuid_text \<Rightarrow> nat \<Rightarrow> 'z ssh_disk_scheme \<Rightarrow> 'z ssh_disk_scheme \<Rightarrow> bool" for U uid where
  dk_create: "private_mask V \<Longrightarrow> fe_uid V = uid \<Longrightarrow> disk_step U uid s (snd (runtime_create V U fresh s))"
| dk_child: "private_mask V \<Longrightarrow> fe_uid V = uid \<Longrightarrow> rt_owner_uid rt = uid \<Longrightarrow> length (rt_instance_dir rt) = 1 \<Longrightarrow>
    disk_step U uid s (snd (child_dir V U fresh rt s))"
| dk_write: "private_mask V \<Longrightarrow> fe_uid V = uid \<Longrightarrow> name = ''identity'' \<or> name = ''known_hosts'' \<Longrightarrow>
    disk_step U uid s (snd (write_exclusive V [x, y, name] content o600 s))"
| dk_unlink: "disk_step U uid s (snd (sys_unlink V [x, y, name] s))"
| dk_child_drop: "disk_step U uid s (snd (child_drop V rt q s))"
| dk_drop: "disk_step U uid s (snd (runtime_drop V U rt s))"
| dk_die: "disk_step U uid s (s\<lparr>sd_locked := False\<rparr>)"

inductive_cases disk_stepE: "disk_step U uid s s'"

lemma disk_step_ok:
  assumes "disk_step U uid s s'" "uuid_text_ok U" "keeps_tree U uid s"
  shows "keeps_tree U uid s'"
  using assms(1)
proof cases
  case (dk_create V fresh)
  with sr_keeps_snd [where P = "keeps_tree U uid", OF tree_create [OF dk_create(2) assms(2) dk_create(3)] assms(3)] show ?thesis by simp
next
  case (dk_child V rt fresh)
  from dk_child(5) obtain x where x: "rt_instance_dir rt = [x]" by (cases "rt_instance_dir rt") auto
  note made = tree_make_directory [OF dk_child(2,3) dir_paths(3) [OF fresh_scoped(2) [OF assms(2)], of uid x fresh]]
  have "sr_keeps (keeps_tree U uid) (child_dir V U fresh rt :: ('a, path) disk_op)"
    unfolding child_dir_def x dk_child(4) Let_def by (intro sr_rules) (use made in simp)
  with assms(3) dk_child(1) show ?thesis by (simp add: sr_keeps_def)
next
  case (dk_write V name x y content)
  with sr_keeps_snd [where P = "keeps_tree U uid", OF tree_write [OF _ dk_write(3,4), of U x y content] assms(3)] show ?thesis by (simp add: private_mask_def)
next
  case (dk_unlink V x y name)
  with sr_keeps_snd [where P = "keeps_tree U uid", OF tree_removals(1) assms(3)] show ?thesis by simp
next
  case (dk_child_drop V rt q)
  have "sr_keeps (keeps_tree U uid) (child_drop V rt q :: ('a, unit) disk_op)" unfolding child_drop_def by (intro sr_rules)
  with assms(3) dk_child_drop show ?thesis by (simp add: sr_keeps_def)
next
  case (dk_drop V rt)
  have "sr_keeps (keeps_tree U uid) (runtime_drop V U rt :: ('a, unit) disk_op)" unfolding runtime_drop_def by (intro sr_rules)
  with assms(3) dk_drop show ?thesis by (simp add: sr_keeps_def)
qed (use assms(3) in simp)

lemma disk_reach_ok:
  "(disk_step U uid)\<^sup>*\<^sup>* s s' \<Longrightarrow> uuid_text_ok U \<Longrightarrow> keeps_tree U uid s \<Longrightarrow> keeps_tree U uid s'"
  by (induction rule: rtranclp_induct) (auto intro: disk_step_ok)

text \<open>C22. Whatever earlier processes did and wherever they died, the next start clears it: if new files and directories are
  private from the start (mask \<open>077\<close>) then, after any operations with any failures, a start that finds the lock free and
  whose own calls succeed leaves exactly the lock file and its new directory; no key file of an earlier process is left.\<close>

theorem start_clears_leftovers:
  assumes "(disk_step U uid)\<^sup>*\<^sup>* \<lparr>sd_fs = [], sd_locked = False, sd_permits = 0, \<dots> = z\<rparr> s" and "\<not> sd_locked s"
    and "uuid_text_ok U" "quiet V" "private_mask V" "fe_uid V = uid"
  shows "\<exists>rt s'. runtime_create V U fresh s = (Ok rt, s') \<and> sd_locked s' \<and> sd_permits s' = 32
    \<and> dom (map_of (sd_fs s')) = {[], [''.lock''], rt_instance_dir rt}"
proof -
  have "keeps_tree U uid \<lparr>sd_fs = [], sd_locked = False, sd_permits = 0, \<dots> = z\<rparr>" by (simp add: tree_ok_def)
  from creates_runtime [OF assms(4,5,3,6) disk_reach_ok [OF assms(1,3) this] assms(2), of fresh] show ?thesis by fastforce
qed

lemma sample_uuid_text_ok: "uuid_text_ok sample_uuid_text"
proof -
  have "unat i < 2 ^ 128" for i :: uuid using unsigned_less [of i] by simp
  then show ?thesis
    by (auto simp: uuid_text_ok_def sample_uuid_text_def parse_unsigned_show_nat is_ascii_digit_def dest!: show_nat_digits)
qed

text \<open>A process with the mask \<open>077\<close> dies at the same point.\<close>

definition sample_private_cut :: ssh_disk where
  "sample_private_cut = (snd (runtime_create (sample_disk_env 0x3F {Call_Chmod}) sample_uuid_text 7 sample_blank))\<lparr>sd_locked := False\<rparr>"

theorem start_clears_leftovers_witness:
  "\<exists>rt s'. runtime_create (sample_disk_env 0x3F {}) sample_uuid_text 8 sample_private_cut = (Ok rt, s')
    \<and> dom (map_of (sd_fs s')) = {[], [''.lock''], rt_instance_dir rt}"
proof -
  have V: "private_mask (sample_disk_env 0x3F F)" "fe_uid (sample_disk_env 0x3F F) = 5" "quiet (sample_disk_env 0x3F {})" for F
    by (simp_all add: sample_disk_env_def private_mask_def file_mask_def quiet_def)
  have "(disk_step sample_uuid_text 5)\<^sup>*\<^sup>* sample_blank sample_private_cut"
    unfolding sample_private_cut_def by (rule rtranclp.rtrancl_into_rtrancl, rule r_into_rtranclp, rule dk_create, rule V, rule V, rule dk_die)
  then have run: "(disk_step sample_uuid_text 5)\<^sup>*\<^sup>* \<lparr>sd_fs = [], sd_locked = False, sd_permits = 0\<rparr> sample_private_cut"
    by (simp add: sample_blank_def)
  have "\<not> sd_locked sample_private_cut" by (simp add: sample_private_cut_def)
  from start_clears_leftovers [OF run this sample_uuid_text_ok V(3,1,2), of 8] show ?thesis by (elim exE conjE) (intro exI conjI)
qed

end
