(* ===== verification/Ssh_Access.thy ===== *)
theory Ssh_Access
  imports Ssh_Runtime Credentials Attachment_Frames
begin

text \<open>
  The SSH operations of the owner (\<open>ssh.rs\<close>): discovering a host key, proving access, probing tmux, creating a session
  and starting a control client. Each works in a directory of its own, writes the identity and the pinned host key there,
  runs OpenSSH with a fixed command line, and judges what the child printed. What the child does is an input; the database
  row, AES-GCM and the SSH key library are those of the other components.
\<close>

section \<open>Text for the remote shell\<close>

abbreviation (input) SQ :: char where "SQ \<equiv> CHR 0x27"
abbreviation (input) DQ :: char where "DQ \<equiv> CHR 0x22"
abbreviation (input) BS :: char where "BS \<equiv> CHR 0x5C"

definition shell_literal :: "bytes \<Rightarrow> ssh_error + bytes" where
  "shell_literal v = (if v = [] \<or> CHR 0x00 \<in> set v then Err Ssh_InvalidState
     else Ok (SQ # concat (map (\<lambda>c. if c = SQ then [SQ, BS, SQ, SQ] else [c]) v) @ [SQ]))"

definition is_tmux_session_id :: "bytes \<Rightarrow> bool" where
  "is_tmux_session_id v \<longleftrightarrow> (case strip_prefix ''$'' v of None \<Rightarrow> False | Some digits \<Rightarrow> digits \<noteq> [] \<and> list_all is_ascii_digit digits)"

definition probe_command :: "bytes \<Rightarrow> bytes \<Rightarrow> bytes" where
  "probe_command tmux sock =
     ''v=$('' @ tmux @ '' -V) || exit 42; printf '' @ [SQ] @ ''__OWLMUX_TMUX_CLIENT_V1__'' @ [BS] @ ''t%s'' @ [BS] @ ''n'' @ [SQ] @ '' '' @ [DQ] @ ''$v'' @ [DQ]
     @ ''; if sv=$('' @ tmux @ '' -L '' @ sock @ '' display-message -p '' @ [SQ] @ ''tmux #{version}'' @ [SQ] @ '' 2>/dev/null); then printf ''
     @ [SQ] @ ''__OWLMUX_TMUX_SERVER_V1__'' @ [BS] @ ''t%s'' @ [BS] @ ''n'' @ [SQ] @ '' '' @ [DQ] @ ''$sv'' @ [DQ] @ ''; '' @ tmux @ '' -L '' @ sock
     @ '' list-sessions -F '' @ [SQ] @ ''#{session_id}:#{session_created}:#{session_attached}:#{session_windows}:#{session_name}'' @ [SQ]
     @ ''; else printf '' @ [SQ] @ ''__OWLMUX_TMUX_SERVER_V1__'' @ [BS] @ ''tnone'' @ [BS] @ ''n'' @ [SQ] @ ''; fi''"

definition create_command :: "bytes \<Rightarrow> bytes \<Rightarrow> bytes \<Rightarrow> bytes" where
  "create_command tmux sock name =
     ''created=$('' @ tmux @ '' -L '' @ sock @ '' new-session -d -P -F '' @ [SQ] @ ''#{session_id}:#{session_created}'' @ [SQ] @ '' -s '' @ name
     @ '') || exit 46; printf '' @ [SQ] @ ''__OWLMUX_TMUX_CREATED_V1__'' @ [BS] @ ''t%s'' @ [BS] @ ''n'' @ [SQ] @ '' '' @ [DQ] @ ''$created'' @ [DQ]"

definition control_command :: "bytes \<Rightarrow> bytes \<Rightarrow> bytes \<Rightarrow> bytes \<Rightarrow> bytes" where
  "control_command tmux sock session created =
     ''actual=$('' @ tmux @ '' -L '' @ sock @ '' display-message -p -t '' @ session @ '' '' @ [SQ] @ ''#{session_created}'' @ [SQ] @ '') || exit 44; [ ''
     @ [DQ] @ ''$actual'' @ [DQ] @ '' = '' @ created @ '' ] || exit 45; printf '' @ [SQ] @ ''__OWLMUX_TMUX_SESSION_OK_V1__'' @ [BS] @ ''n'' @ [SQ]
     @ ''; exec '' @ tmux @ '' -L '' @ sock @ '' -C attach-session -E -f '' @ [SQ] @ ''read-only,ignore-size'' @ [SQ] @ '' -t '' @ session"

definition proof_command :: bytes where
  "proof_command = ''printf '' @ [SQ] @ ''%s'' @ [BS] @ ''n'' @ [SQ] @ '' '' @ [SQ] @ ''__OWLMUX_SSH_OK_V1__'' @ [SQ]"

abbreviation (input) TAB :: char where "TAB \<equiv> CHR 0x09"
abbreviation (input) PROOF_MARKER :: bytes where "PROOF_MARKER \<equiv> ''__OWLMUX_SSH_OK_V1__'' @ [LF]"
abbreviation (input) SESSION_MARKER :: bytes where "SESSION_MARKER \<equiv> ''__OWLMUX_TMUX_SESSION_OK_V1__'' @ [LF]"
abbreviation (input) CREATE_MARKER :: bytes where "CREATE_MARKER \<equiv> ''__OWLMUX_TMUX_CREATED_V1__'' @ [TAB]"
abbreviation (input) MAX_DIAGNOSTIC_BYTES :: nat where "MAX_DIAGNOSTIC_BYTES \<equiv> 4096"
abbreviation (input) MAX_DIAGNOSTIC_READ :: nat where "MAX_DIAGNOSTIC_READ \<equiv> 4097"

section \<open>The world of an operation\<close>

text \<open>What a started child looked like: its arguments, and the two files they name as they were then.\<close>

record spawned =
  sp_args :: "bytes list"
  sp_identity :: "fs_entry option"
  sp_known_hosts :: "fs_entry option"

record ssh_world = ssh_disk +
  sw_lease :: node_lease
  sw_spawned :: "spawned list"

text \<open>Where the deadline of an operation falls: not before its end, before the identity is unlinked, or after that.\<close>

datatype cut = In_Time | Before_Unlink | After_Unlink

text \<open>A child: what it prints, how it ends (\<open>None\<close>: it cannot be waited for; \<open>Some None\<close>: a signal), the buffers in which its
  output arrives, and what it leaves in the known hosts file.\<close>

record child_run =
  ch_spawns :: bool
  ch_stdout :: bytes
  ch_stdout_ok :: bool
  ch_stderr :: bytes
  ch_stderr_ok :: bool
  ch_status :: "int option option"
  ch_cut :: cut
  ch_events :: "read_event list"
  ch_known_hosts :: "bytes option"

text \<open>\<open>ax_openssh\<close> parses a public key: whether it is Ed25519, its OpenSSH text if it can be written, its fingerprint.\<close>

record access_env =
  ax_fs :: fs_env
  ax_uuid :: uuid_text
  ax_root :: bytes
  ax_fresh :: uuid
  ax_clock :: "nat \<Rightarrow> reading"
  ax_row_read :: bool
  ax_tables :: relay_tables
  ax_deployment_id :: uuid
  ax_key :: bytes
  ax_aead :: aead
  ax_openssh :: "bytes \<Rightarrow> (bool \<times> bytes option \<times> bytes) option"
  ax_bind :: "nat option"
  ax_child :: child_run

type_synonym 'a ssh_op = "(ssh_world, ssh_error, 'a) sr"

definition sw_check :: "access_env \<Rightarrow> nat \<Rightarrow> unit ssh_op" where
  "sw_check E k s = (case lease_check (ax_clock E k) (sw_lease s) of (r, n) \<Rightarrow> (if is_ok r then Ok () else Err Ssh_Fenced, s\<lparr>sw_lease := n\<rparr>))"

definition is_ed25519_host_identity :: "access_env \<Rightarrow> bytes \<Rightarrow> bool" where
  "is_ed25519_host_identity E v \<longleftrightarrow> (case ax_openssh E v of None \<Rightarrow> False | Some (ed25519, _, _) \<Rightarrow> ed25519)"

definition path_text :: "access_env \<Rightarrow> path \<Rightarrow> bytes" where
  "path_text E p = ax_root E @ concat (map (\<lambda>x. CHR ''/'' # x) p)"

definition succeeded :: "child_run \<Rightarrow> bool" where
  "succeeded c \<longleftrightarrow> ch_status c = Some (Some 0)"

text \<open>A child directory is removed when the operation leaves its scope, however it ends.\<close>

definition in_child_dir :: "access_env \<Rightarrow> ssh_runtime \<Rightarrow> (path \<Rightarrow> 'a ssh_op) \<Rightarrow> 'a ssh_op" where
  "in_child_dir E rt body =
     sr_bind (child_dir (ax_fs E) (ax_uuid E) (ax_fresh E) rt) (\<lambda>p.
     sr_bind (sr_try (body p)) (\<lambda>r.
     sr_bind (child_drop (ax_fs E) rt p) (\<lambda>_. sr_lift r)))"

definition spawn :: "access_env \<Rightarrow> path \<Rightarrow> bytes list \<Rightarrow> unit ssh_op" where
  "spawn E p args =
     (if \<not> ch_spawns (ax_child E) then sr_throw Ssh_Unavailable
      else sr_modify (\<lambda>s. s\<lparr>sw_spawned := sw_spawned s @ [\<lparr>sp_args = args,
        sp_identity = map_of (sd_fs s) (p @ [''identity'']), sp_known_hosts = map_of (sd_fs s) (p @ [''known_hosts''])\<rparr>]\<rparr>))"

section \<open>Discovery\<close>

definition discovery_args :: "access_env \<Rightarrow> path \<Rightarrow> nat \<Rightarrow> bytes list" where
  "discovery_args E p port =
     [''-F'', ''/dev/null'', ''-T'', ''-oBatchMode=yes'', ''-oIdentitiesOnly=yes'', ''-oIdentityAgent=none'', ''-oPubkeyAuthentication=no'',
      ''-oPasswordAuthentication=no'', ''-oKbdInteractiveAuthentication=no'', ''-oPreferredAuthentications=none'', ''-oStrictHostKeyChecking=accept-new'',
      ''-oUserKnownHostsFile='' @ path_text E (p @ [''known_hosts'']), ''-oGlobalKnownHostsFile=/dev/null'', ''-oHostKeyAlias=owlmux-target'',
      ''-oHashKnownHosts=no'', ''-oHostKeyAlgorithms=ssh-ed25519'', ''-oUpdateHostKeys=no'', ''-oRequestTTY=no'', ''-oClearAllForwardings=yes'',
      ''-oPermitLocalCommand=no'', ''-oConnectTimeout=10'', ''-p'', show_nat port, ''--'', ''owlmux-host-key-preflight-invalid@127.0.0.1'', ''false'']"

definition parse_known_host :: "access_env \<Rightarrow> bytes \<Rightarrow> ssh_error + (bytes \<times> bytes)" where
  "parse_known_host E v =
     (if \<not> from_utf8_ok v then Err Ssh_ProofFailed
      else (case strip_suffix [LF] v of
          None \<Rightarrow> Err Ssh_ProofFailed
        | Some line \<Rightarrow>
            if CHR 0x0D \<in> set line \<or> LF \<in> set line \<or> CHR 0x00 \<in> set line then Err Ssh_ProofFailed
            else (case ascii_fields line [] of
                [host, algorithm, encoded_key] \<Rightarrow>
                  if host \<noteq> ''owlmux-target'' then Err Ssh_ProofFailed
                  else (case ax_openssh E (algorithm @ '' '' @ encoded_key) of
                      None \<Rightarrow> Err Ssh_ProofFailed
                    | Some (ed25519, openssh, fingerprint) \<Rightarrow>
                        if \<not> ed25519 then Err Ssh_ProofFailed
                        else r_bind (ok_or openssh Ssh_ProofFailed) (\<lambda>public_key. Ok (public_key, fingerprint)))
              | _ \<Rightarrow> Err Ssh_ProofFailed)))"

definition discovery_result :: "access_env \<Rightarrow> ssh_error + (bytes \<times> bytes)" where
  "discovery_result E = (let c = ax_child E in
     if ch_status c = None then Err Ssh_ProofFailed
     else if \<not> ch_stdout_ok c \<or> \<not> ch_stderr_ok c \<or> take MAX_DIAGNOSTIC_READ (ch_stdout c) \<noteq> []
        \<or> length (take MAX_DIAGNOSTIC_READ (ch_stderr c)) > MAX_DIAGNOSTIC_BYTES \<or> succeeded c then Err Ssh_ProofFailed
     else r_bind (ok_or (ch_known_hosts c) Ssh_Custody) (\<lambda>content.
       if length (take 2049 content) > 2048 then Err Ssh_ProofFailed else parse_known_host E (take 2049 content)))"

definition child_writes_hosts :: "access_env \<Rightarrow> path \<Rightarrow> unit ssh_op" where
  "child_writes_hosts E p s = (Ok (), case (ch_known_hosts (ax_child E), map_of (sd_fs s) (p @ [''known_hosts''])) of
     (Some content, Some (FS_File i _)) \<Rightarrow> s\<lparr>sd_fs := AList.update (p @ [''known_hosts'']) (FS_File i content) (sd_fs s)\<rparr>
   | _ \<Rightarrow> s)"

definition discover_host_identity :: "access_env \<Rightarrow> ssh_runtime \<Rightarrow> (bytes \<times> bytes) ssh_op" where
  "discover_host_identity E rt =
     sr_bind (sw_check E 0) (\<lambda>_.
     in_child_dir E rt (\<lambda>p.
     sr_bind (write_exclusive (ax_fs E) (p @ [''known_hosts'']) [] o600) (\<lambda>_.
     sr_bind (sr_lift (ok_or (ax_bind E) Ssh_Unavailable)) (\<lambda>port.
     sr_bind (spawn E p (discovery_args E p port)) (\<lambda>_.
     sr_bind (child_writes_hosts E p) (\<lambda>_.
     if ch_cut (ax_child E) \<noteq> In_Time then sr_throw Ssh_ProofFailed
     else sr_bind (sw_check E 1) (\<lambda>_. sr_lift (discovery_result E))))))))"

section \<open>Access with the machine's credential\<close>

definition access_args :: "access_env \<Rightarrow> path \<Rightarrow> bytes \<Rightarrow> nat \<Rightarrow> bytes \<Rightarrow> bytes list" where
  "access_args E p account port remote_command =
     [''-F'', ''/dev/null'', ''-oBatchMode=yes'', ''-oIdentitiesOnly=yes'', ''-oIdentityAgent=none'', ''-oPasswordAuthentication=no'',
      ''-oKbdInteractiveAuthentication=no'', ''-oHostKeyAlgorithms=ssh-ed25519'', ''-oStrictHostKeyChecking=yes'',
      ''-oUserKnownHostsFile='' @ path_text E (p @ [''known_hosts'']), ''-oGlobalKnownHostsFile=/dev/null'', ''-oHostKeyAlias=owlmux-target'',
      ''-oRequestTTY=no'', ''-oClearAllForwardings=yes'', ''-oPermitLocalCommand=no'', ''-oConnectTimeout=10'',
      ''-i'', path_text E (p @ [''identity'']), ''-p'', show_nat port, ''--'', account @ ''@127.0.0.1'', remote_command]"

definition known_hosts_line :: "bytes \<Rightarrow> bytes" where
  "known_hosts_line host_identity = ''owlmux-target '' @ host_identity @ [LF]"

text \<open>The identity and the pinned host key are written, then the child is started.\<close>

definition spawn_access :: "access_env \<Rightarrow> nat \<Rightarrow> path \<Rightarrow> bytes \<Rightarrow> bytes \<Rightarrow> bytes \<Rightarrow> bytes \<Rightarrow> unit ssh_op" where
  "spawn_access E k p account host_identity private_key remote_command =
     sr_bind (sw_check E k) (\<lambda>_.
     sr_bind (write_exclusive (ax_fs E) (p @ [''identity'']) private_key o600) (\<lambda>_.
     sr_bind (write_exclusive (ax_fs E) (p @ [''known_hosts'']) (known_hosts_line host_identity) o600) (\<lambda>_.
     sr_bind (sr_lift (ok_or (ax_bind E) Ssh_Unavailable)) (\<lambda>port.
     sr_bind (sw_check E (k + 1)) (\<lambda>_. spawn E p (access_args E p account port remote_command))))))"

definition unlink_file :: "access_env \<Rightarrow> path \<Rightarrow> unit ssh_op" where
  "unlink_file E p = sys_unlink (ax_fs E) (p @ [''identity''])"

definition access_row :: "access_env \<Rightarrow> lifecycle \<Rightarrow> uuid \<Rightarrow> (machine_row \<times> credential_row) ssh_op" where
  "access_row E lc i =
     (if \<not> ax_row_read E then sr_throw Ssh_Unavailable
      else (case List.find (\<lambda>m. mc_id m = i \<and> mc_lifecycle m = lc) (rt_machines (ax_tables E)) of
          None \<Rightarrow> sr_throw Ssh_InvalidState
        | Some m \<Rightarrow> (case List.find (\<lambda>c. cr_id c = mc_credential_id m \<and> cr_status c = CR_Active) (rt_credentials (ax_tables E)) of
              None \<Rightarrow> sr_throw Ssh_InvalidState
            | Some c \<Rightarrow> sr_return (m, c))))"

definition open_key :: "access_env \<Rightarrow> machine_row \<Rightarrow> credential_row \<Rightarrow> ssh_error + bytes" where
  "open_key E m c = map_err (\<lambda>_. Ssh_Custody) (open_envelope (ax_aead E) (ax_key E) (ax_deployment_id E) (mc_credential_id m) (cr_envelope c))"

definition proof_result :: "access_env \<Rightarrow> path \<Rightarrow> unit ssh_op" where
  "proof_result E p = (let c = ax_child E; output = take MAX_DIAGNOSTIC_READ (ch_stdout c) in
     if ch_cut c = Before_Unlink then sr_throw Ssh_ProofFailed
     else if take (length PROOF_MARKER) output \<noteq> PROOF_MARKER then sr_throw Ssh_ProofFailed
     else sr_bind (unlink_file E p) (\<lambda>_.
       if ch_cut c \<noteq> In_Time \<or> ch_status c = None \<or> drop (length PROOF_MARKER) output \<noteq> []
          \<or> length (take MAX_DIAGNOSTIC_READ (ch_stderr c)) > MAX_DIAGNOSTIC_BYTES \<or> \<not> succeeded c
       then sr_throw Ssh_ProofFailed else sr_return ()))"

definition verify_with_child :: "access_env \<Rightarrow> path \<Rightarrow> bytes \<Rightarrow> bytes \<Rightarrow> bytes \<Rightarrow> unit ssh_op" where
  "verify_with_child E p account host_identity private_key =
     sr_bind (spawn_access E 3 p account host_identity private_key proof_command) (\<lambda>_. proof_result E p)"

definition verify_access :: "access_env \<Rightarrow> ssh_runtime \<Rightarrow> uuid \<Rightarrow> bytes \<Rightarrow> unit ssh_op" where
  "verify_access E rt i host_identity =
     sr_bind (sw_check E 0) (\<lambda>_.
     if \<not> is_ed25519_host_identity E host_identity then sr_throw Ssh_InvalidState
     else sr_bind (access_row E LC_Verifying i) (\<lambda>(m, c).
     sr_bind (sw_check E 1) (\<lambda>_.
     if \<not> is_target_account (mc_target_account m) then sr_throw Ssh_InvalidState
     else sr_bind (sr_lift (open_key E m c)) (\<lambda>private_key.
     sr_bind (sw_check E 2) (\<lambda>_.
     in_child_dir E rt (\<lambda>p. verify_with_child E p (mc_target_account m) host_identity private_key))))))"

record active_access =
  aa_account :: bytes
  aa_host_identity :: bytes
  aa_tmux_path :: bytes
  aa_tmux_socket :: bytes
  aa_private_key :: bytes

definition load_active_access :: "access_env \<Rightarrow> uuid \<Rightarrow> active_access ssh_op" where
  "load_active_access E i =
     sr_bind (sw_check E 0) (\<lambda>_.
     sr_bind (access_row E LC_Active i) (\<lambda>(m, c).
     sr_bind (sw_check E 1) (\<lambda>_.
     sr_bind (sr_lift (open_key E m c)) (\<lambda>private_key.
     sr_bind (sw_check E 2) (\<lambda>_.
     sr_bind (sr_lift (ok_or (mc_host_identity m) Ssh_Unavailable)) (\<lambda>host_identity.
     if \<not> is_target_account (mc_target_account m) \<or> \<not> is_ed25519_host_identity E host_identity then sr_throw Ssh_InvalidState
     else sr_return \<lparr>aa_account = mc_target_account m, aa_host_identity = host_identity, aa_tmux_path = mc_tmux_path m,
       aa_tmux_socket = mc_tmux_socket m, aa_private_key = private_key\<rparr>))))))"

definition run_access :: "access_env \<Rightarrow> path \<Rightarrow> active_access \<Rightarrow> bytes \<Rightarrow> unit ssh_op" where
  "run_access E p a remote_command = spawn_access E 3 p (aa_account a) (aa_host_identity a) (aa_private_key a) remote_command"

section \<open>Tmux\<close>

definition probe_output :: "access_env \<Rightarrow> path \<Rightarrow> bytes ssh_op" where
  "probe_output E p = (let c = ax_child E; output = take (256 * 1024 + 1) (ch_stdout c) in
     if ch_cut c = Before_Unlink then sr_throw Ssh_ProofFailed
     else if ch_status c = None then sr_throw Ssh_Unavailable
     else if length output > 256 * 1024 \<or> length (take MAX_DIAGNOSTIC_READ (ch_stderr c)) > MAX_DIAGNOSTIC_BYTES then sr_throw Ssh_ProofFailed
     else if \<not> starts_with (''__OWLMUX_TMUX_CLIENT_V1__'' @ [TAB]) output then sr_throw Ssh_ProofFailed
     else sr_bind (unlink_file E p) (\<lambda>_.
       if ch_cut c \<noteq> In_Time \<or> \<not> succeeded c \<or> \<not> from_utf8_ok output then sr_throw Ssh_ProofFailed else sr_return output))"

definition run_tmux_probe :: "access_env \<Rightarrow> ssh_runtime \<Rightarrow> uuid \<Rightarrow> bytes ssh_op" where
  "run_tmux_probe E rt i =
     sr_bind (load_active_access E i) (\<lambda>a.
     sr_bind (sr_lift (shell_literal (aa_tmux_path a))) (\<lambda>tmux.
     sr_bind (sr_lift (shell_literal (aa_tmux_socket a))) (\<lambda>sock.
     in_child_dir E rt (\<lambda>p. sr_bind (run_access E p a (probe_command tmux sock)) (\<lambda>_. probe_output E p)))))"

definition created_session :: "bytes \<Rightarrow> bool" where
  "created_session output \<longleftrightarrow> from_utf8_ok output
     \<and> (case Option.bind (strip_prefix CREATE_MARKER output) (strip_suffix [LF]) of
          None \<Rightarrow> False
        | Some identity \<Rightarrow> (case split_once (CHR '':'') identity of
              None \<Rightarrow> False
            | Some (session_id, created) \<Rightarrow> (case parse_i64 created of
                  None \<Rightarrow> False
                | Some t \<Rightarrow> is_tmux_session_id session_id \<and> 0 < t)))"

definition create_result :: "access_env \<Rightarrow> path \<Rightarrow> create_session_outcome ssh_op" where
  "create_result E p = (let c = ax_child E; output = take MAX_DIAGNOSTIC_READ (ch_stdout c) in
     if ch_cut c \<noteq> In_Time \<or> ch_status c = None then sr_return CS_Ambiguous
     else if \<not> ch_stdout_ok c \<or> \<not> ch_stderr_ok c \<or> length output > MAX_DIAGNOSTIC_BYTES
        \<or> length (take MAX_DIAGNOSTIC_READ (ch_stderr c)) > MAX_DIAGNOSTIC_BYTES then sr_return CS_Ambiguous
     else if \<not> succeeded c then sr_return (if ch_status c = Some (Some 46) then CS_Failed else CS_Ambiguous)
     else if \<not> created_session output then sr_return CS_Ambiguous
     else sr_bind (sr_try (unlink_file E p)) (\<lambda>r. sr_return (if is_ok (r :: ssh_error + unit) then CS_Succeeded else CS_Ambiguous)))"

definition create_tmux_session :: "access_env \<Rightarrow> ssh_runtime \<Rightarrow> uuid \<Rightarrow> bytes \<Rightarrow> create_session_outcome ssh_op" where
  "create_tmux_session E rt i name =
     (if name = [] \<or> length name > 64 \<or> str_trim name \<noteq> name \<or> chars_any char_is_control name then sr_throw Ssh_InvalidState
      else sr_bind (load_active_access E i) (\<lambda>a.
      sr_bind (sr_lift (shell_literal (aa_tmux_path a))) (\<lambda>tmux.
      sr_bind (sr_lift (shell_literal (aa_tmux_socket a))) (\<lambda>sock.
      sr_bind (sr_lift (shell_literal name)) (\<lambda>session.
      in_child_dir E rt (\<lambda>p. sr_bind (run_access E p a (create_command tmux sock session)) (\<lambda>_. create_result E p)))))))"

text \<open>The child of a control client keeps its directory; it is dropped with it, or at once when the start fails.\<close>

definition keep_child_dir :: "access_env \<Rightarrow> ssh_runtime \<Rightarrow> (path \<Rightarrow> 'a ssh_op) \<Rightarrow> 'a ssh_op" where
  "keep_child_dir E rt body =
     sr_bind (child_dir (ax_fs E) (ax_uuid E) (ax_fresh E) rt) (\<lambda>p.
     sr_bind (sr_try (body p)) (\<lambda>r.
     sr_bind (if is_ok r then sr_return () else child_drop (ax_fs E) rt p) (\<lambda>_. sr_lift r)))"

definition session_marker :: "access_env \<Rightarrow> ssh_error + read_event list" where
  "session_marker E = (case read_bounded_line_into (ch_events (ax_child E)) [] (length SESSION_MARKER) of
     (Inl Pending, _) \<Rightarrow> Err Ssh_InvalidState
   | (Inl (Failed e), _) \<Rightarrow> Err e
   | (Inr marker, rest, _) \<Rightarrow> if marker \<noteq> SESSION_MARKER then Err Ssh_InvalidState else Ok rest)"

definition start_tmux_control :: "access_env \<Rightarrow> ssh_runtime \<Rightarrow> uuid \<Rightarrow> bytes \<Rightarrow> int \<Rightarrow> (path \<times> read_event list) ssh_op" where
  "start_tmux_control E rt i session_id session_created =
     (if \<not> is_tmux_session_id session_id \<or> session_created \<le> 0 then sr_throw Ssh_InvalidState
      else sr_bind (load_active_access E i) (\<lambda>a.
      sr_bind (sr_lift (shell_literal (aa_tmux_path a))) (\<lambda>tmux.
      sr_bind (sr_lift (shell_literal (aa_tmux_socket a))) (\<lambda>sock.
      sr_bind (sr_lift (shell_literal session_id)) (\<lambda>session.
      keep_child_dir E rt (\<lambda>p. sr_bind (run_access E p a (control_command tmux sock session (show_int session_created))) (\<lambda>_.
        sr_bind (sr_lift (session_marker E)) (\<lambda>rest. sr_return (p, rest)))))))))"

section \<open>Quoting\<close>

text \<open>How a POSIX shell reads one word: quoted text up to the next quote, a backslash that takes the next character as it
  is, and plain characters up to a blank or an operator. The flag tells whether the reader is inside quotes.\<close>

definition word_ends :: "bytes \<Rightarrow> bool" where
  "word_ends rest \<longleftrightarrow> rest = [] \<or> hd rest \<in> {CHR '' '', CHR '';'', CHR '')'', LF}"

fun shell_word :: "bool \<Rightarrow> bytes \<Rightarrow> (bytes \<times> bytes) option" where
  "shell_word True [] = None"
| "shell_word True (c # cs) = (if c = SQ then shell_word False cs else map_option (\<lambda>(w, rest). (c # w, rest)) (shell_word True cs))"
| "shell_word False [] = Some ([], [])"
| "shell_word False (c # cs) =
     (if word_ends (c # cs) then Some ([], c # cs)
      else if c = SQ then shell_word True cs
      else if c = BS then (case cs of [] \<Rightarrow> None | d # ds \<Rightarrow> map_option (\<lambda>(w, rest). (d # w, rest)) (shell_word False ds))
      else map_option (\<lambda>(w, rest). (c # w, rest)) (shell_word False cs))"

lemma quoted_word:
  "word_ends rest \<Longrightarrow> shell_word True (concat (map (\<lambda>c. if c = SQ then [SQ, BS, SQ, SQ] else [c]) v) @ SQ # rest) = Some (v, rest)"
proof (induction v)
  case Nil
  then show ?case by (cases rest) auto
qed (auto simp: word_ends_def)

text \<open>C18. Text handed to the remote shell cannot break out of its word: whatever bytes a tmux path, a socket or a session
  name has, the shell reads its literal back as one word that is exactly this text, and goes on after it.\<close>

theorem shell_literal_round_trip:
  assumes "shell_literal v = Ok q" and "word_ends rest"
  shows "shell_word False (q @ rest) = Some (v, rest)"
  using assms quoted_word [OF assms(2), of v] by (auto simp: shell_literal_def word_ends_def split: if_splits)

theorem shell_literal_round_trip_witness:
  "shell_word False (projr (shell_literal ''a'; rm -rf b'') @ '' -L x'') = Some (''a'; rm -rf b'', '' -L x'')"
  using shell_literal_round_trip [of "''a'; rm -rf b''" "projr (shell_literal ''a'; rm -rf b'')" "'' -L x''"]
  by (simp add: shell_literal_def word_ends_def)

section \<open>Children run with the pinned host and the machine's key\<close>

definition pinned_spawn :: "access_env \<Rightarrow> path \<Rightarrow> bytes \<Rightarrow> bytes \<Rightarrow> bytes \<Rightarrow> bytes \<Rightarrow> spawned \<Rightarrow> bool" where
  "pinned_spawn E p account host key cmd sp \<longleftrightarrow> (\<exists>port. sp_args sp = access_args E p account port cmd)
     \<and> (\<exists>i. sp_identity sp = Some (FS_File i key)) \<and> (\<exists>i. sp_known_hosts sp = Some (FS_File i (known_hosts_line host)))"

abbreviation children_in :: "spawned set \<Rightarrow> ssh_world \<Rightarrow> bool" where
  "children_in A s \<equiv> set (sw_spawned s) \<subseteq> A"

lemma children_leaves [sr_rules]:
  "sr_keeps (children_in A) (call_fails V c q)" "sr_keeps (children_in A) (sys_stat V q)" "sr_keeps (children_in A) (sys_list V q)"
  "sr_keeps (children_in A) (sys_put q e)" "sr_keeps (children_in A) (sys_drop q)" "sr_keeps (children_in A) (sw_check E k)"
  "sr_keeps (children_in A) (sr_modify (\<lambda>s. s\<lparr>sd_permits := n\<rparr>))" "sr_keeps (children_in A) (sr_modify (\<lambda>s. s\<lparr>sd_permits := sd_permits s + 1\<rparr>))"
  "sr_keeps (children_in A) (child_writes_hosts E p)"
  by (auto simp: sr_keeps_def disk_calls sr_leaf sr_bind_def sw_check_def child_writes_hosts_def split: option.splits prod.splits fs_entry.splits)

lemma children_composed [sr_rules]:
  "sr_keeps (children_in A) (sys_mkdir V q)" "sr_keeps (children_in A) (sys_chmod V q mode)" "sr_keeps (children_in A) (sys_unlink V q)"
  "sr_keeps (children_in A) (sys_rmdir V q)" "sr_keeps (children_in A) (write_exclusive V q content mode)" "sr_keeps (children_in A) (validate_directory V uid q)"
  unfolding sys_mkdir_def sys_chmod_def sys_unlink_def sys_rmdir_def write_exclusive_def validate_directory_def
  by (intro sr_rules | auto intro!: sr_rules split: fs_entry.splits)+

lemma children_dirs [sr_rules]:
  "sr_keeps (children_in A) (cleanup_file V uid q name)" "sr_keeps (children_in A) (cleanup_child_directory V uid q)"
  "sr_keeps (children_in A) (child_dir V U fresh rt)" "sr_keeps (children_in A) (child_drop V rt q)"
  unfolding cleanup_file_def cleanup_child_directory_def child_dir_def child_drop_def make_directory_def by (intro sr_rules)+

lemma write_exclusive_Ok:
  "write_exclusive V q content mode s = (Ok u, t) \<Longrightarrow> \<exists>i. t = s\<lparr>sd_fs := AList.update q (FS_File i content) (sd_fs s)\<rparr>"
  by (auto simp: write_exclusive_def res_simps call_fails_eq sys_put_def sr_leaf Let_def split: if_splits)

lemma children_spawn_access [sr_rules]:
  assumes "{sp. pinned_spawn E p account host key cmd sp} \<subseteq> A"
  shows "sr_keeps (children_in A) (spawn_access E k p account host key cmd)"
proof -
  let ?id = "p @ [''identity'']" and ?hosts = "p @ [''known_hosts'']"
  let ?w1 = "write_exclusive (ax_fs E) ?id key o600 :: unit ssh_op" and ?w2 = "write_exclusive (ax_fs E) ?hosts (known_hosts_line host) o600 :: unit ssh_op"
  let ?tail = "sr_bind (sr_lift (ok_or (ax_bind E) Ssh_Unavailable)) (\<lambda>port.
     sr_bind (sw_check E (k + 1)) (\<lambda>_. spawn E p (access_args E p account port cmd)))"
  have tail: "children_in A (snd (?tail t))"
    if t: "children_in A t" "map_of (sd_fs t) ?id = Some (FS_File i key)" "map_of (sd_fs t) ?hosts = Some (FS_File j (known_hosts_line host))" for t i j
  proof -
    have "\<lparr>sp_args = access_args E p account port cmd, sp_identity = map_of (sd_fs t) ?id, sp_known_hosts = map_of (sd_fs t) ?hosts\<rparr> \<in> A" for port
      using t by (intro subsetD [OF assms]) (auto simp: pinned_spawn_def)
    with t(1) show ?thesis by (auto simp: sr_bind_def sr_leaf ok_or_def sw_check_def spawn_def split: option.splits prod.splits)
  qed
  have "sr_keeps (children_in A) (sr_bind ?w1 (\<lambda>_. sr_bind ?w2 (\<lambda>_. ?tail)))"
  proof (rule sr_keepsI, rule snd_bind [where P = "children_in A"])
    fix t u t1 assume t: "children_in A t" and w1: "?w1 t = (Ok u, t1)"
    show "children_in A (snd (sr_bind ?w2 (\<lambda>_. ?tail) t1))"
    proof (rule snd_bind [where P = "children_in A"])
      fix v t2 assume w2: "?w2 t1 = (Ok v, t2)"
      from write_exclusive_Ok [OF w1] write_exclusive_Ok [OF w2] t show "children_in A (snd (?tail t2))"
        by (elim exE) (rule tail, simp_all add: update_conv')
    next
      fix e t2 assume w2: "?w2 t1 = (Err e, t2)"
      from t w1 have "children_in A t1" by (rule sr_keepsD [where P = "children_in A", OF children_composed(5)])
      then show "children_in A t2" using w2 by (rule sr_keepsD [where P = "children_in A", OF children_composed(5)])
    qed
  qed (rule sr_keepsD [where P = "children_in A", OF children_composed(5)])
  then show ?thesis unfolding spawn_access_def by (rule sr_keeps_bind [OF children_leaves(6)])
qed

lemma children_in_dir [sr_rules]:
  "(\<And>p. sr_keeps (children_in A) (body p)) \<Longrightarrow> sr_keeps (children_in A) (in_child_dir E rt body)"
  "(\<And>p. sr_keeps (children_in A) (body p)) \<Longrightarrow> sr_keeps (children_in A) (keep_child_dir E rt body)"
  unfolding in_child_dir_def keep_child_dir_def by (intro sr_rules; assumption)+

lemma children_results [sr_rules]:
  "sr_keeps (children_in A) (proof_result E p)" "sr_keeps (children_in A) (probe_output E p)" "sr_keeps (children_in A) (create_result E p)"
  unfolding proof_result_def probe_output_def create_result_def unlink_file_def by (intro sr_rules)+

lemma children_rows [sr_rules]: "sr_keeps (children_in A) (access_row E lc i)" "sr_keeps (children_in A) (load_active_access E i)"
  unfolding load_active_access_def access_row_def by (intro sr_rules)+

text \<open>A machine row in the given state with its active credential, whose key opens.\<close>

definition machine_key :: "access_env \<Rightarrow> uuid \<Rightarrow> lifecycle \<Rightarrow> machine_row \<Rightarrow> bytes \<Rightarrow> bool" where
  "machine_key E i lc m key \<longleftrightarrow> m \<in> set (rt_machines (ax_tables E)) \<and> mc_id m = i \<and> mc_lifecycle m = lc \<and> is_target_account (mc_target_account m)
     \<and> (\<exists>c \<in> set (rt_credentials (ax_tables E)). cr_id c = mc_credential_id m \<and> cr_status c = CR_Active \<and> open_key E m c = Ok key)"

definition access_child :: "access_env \<Rightarrow> uuid \<Rightarrow> lifecycle \<Rightarrow> (machine_row \<Rightarrow> bytes option) \<Rightarrow> (machine_row \<Rightarrow> bytes \<Rightarrow> bool) \<Rightarrow> spawned \<Rightarrow> bool" where
  "access_child E i lc pin commands sp \<longleftrightarrow> (\<exists>m key host p cmd. machine_key E i lc m key \<and> pin m = Some host \<and> is_ed25519_host_identity E host
     \<and> commands m cmd \<and> pinned_spawn E p (mc_target_account m) host key cmd sp)"

text \<open>The commands an operation may run on a machine: its tmux path, its socket and the other words quoted for the shell.\<close>

definition tmux_commands :: "(bytes \<Rightarrow> bytes \<Rightarrow> bytes list \<Rightarrow> bytes) \<Rightarrow> bytes list \<Rightarrow> machine_row \<Rightarrow> bytes \<Rightarrow> bool" where
  "tmux_commands build args m cmd \<longleftrightarrow> (\<exists>tmux sock qs. shell_literal (mc_tmux_path m) = Ok tmux \<and> shell_literal (mc_tmux_socket m) = Ok sock
     \<and> map shell_literal args = map Inr qs \<and> cmd = build tmux sock qs)"

definition active_of :: "access_env \<Rightarrow> uuid \<Rightarrow> active_access \<Rightarrow> bool" where
  "active_of E i a \<longleftrightarrow> (\<exists>m. machine_key E i LC_Active m (aa_private_key a) \<and> mc_host_identity m = Some (aa_host_identity a)
     \<and> is_ed25519_host_identity E (aa_host_identity a) \<and> aa_account a = mc_target_account m
     \<and> aa_tmux_path a = mc_tmux_path m \<and> aa_tmux_socket a = mc_tmux_socket m)"

lemma access_row_yields:
  "sr_yields (\<lambda>(m, c). m \<in> set (rt_machines (ax_tables E)) \<and> mc_id m = i \<and> mc_lifecycle m = lc
     \<and> c \<in> set (rt_credentials (ax_tables E)) \<and> cr_id c = mc_credential_id m \<and> cr_status c = CR_Active) (access_row E lc i)"
  by (rule sr_yieldsI) (auto simp: access_row_def sr_leaf split: if_splits option.splits dest!: find_SomeD)

lemma load_active_yields: "sr_yields (active_of E i) (load_active_access E i)"
  unfolding load_active_access_def
  by (rule sr_yieldsI) (fastforce simp: res_simps sr_leaf machine_key_def active_of_def split: if_splits prod.splits dest!: sr_yieldsD [OF access_row_yields])

lemma children_active:
  assumes "\<And>a. active_of E i a \<Longrightarrow> sr_keeps (children_in A) (f a)"
  shows "sr_keeps (children_in A) (sr_bind (load_active_access E i) f)"
  by (rule sr_keeps_bind_yields [OF children_rows(2) load_active_yields assms])

lemma children_run_access:
  assumes "{sp. access_child E i LC_Active mc_host_identity (tmux_commands build args) sp} \<subseteq> A" and a: "active_of E i a"
    and lits: "shell_literal (aa_tmux_path a) = Ok tmux" "shell_literal (aa_tmux_socket a) = Ok sock" "map shell_literal args = map Inr qs"
    and cmd: "cmd = build tmux sock qs"
  shows "sr_keeps (children_in A) (run_access E p a cmd)"
proof -
  from a obtain m where m: "machine_key E i LC_Active m (aa_private_key a)" "mc_host_identity m = Some (aa_host_identity a)"
    "is_ed25519_host_identity E (aa_host_identity a)" "aa_account a = mc_target_account m"
    and "aa_tmux_path a = mc_tmux_path m" "aa_tmux_socket a = mc_tmux_socket m" by (auto simp: active_of_def)
  with lits cmd have "tmux_commands build args m cmd" by (auto simp: tmux_commands_def)
  with m have "{sp. pinned_spawn E p (aa_account a) (aa_host_identity a) (aa_private_key a) cmd sp}
      \<subseteq> {sp. access_child E i LC_Active mc_host_identity (tmux_commands build args) sp}"
    unfolding access_child_def by (intro Collect_mono impI) metis
  with assms(1) show ?thesis unfolding run_access_def by (intro children_spawn_access) (rule subset_trans)
qed

lemma children_verify:
  assumes "{sp. access_child E i LC_Verifying (\<lambda>_. Some host) (\<lambda>_ cmd. cmd = proof_command) sp} \<subseteq> A"
  shows "sr_keeps (children_in A) (verify_access E rt i host)"
proof -
  have tail: "sr_keeps (children_in A) (in_child_dir E rt (\<lambda>p. verify_with_child E p (mc_target_account m) host key))"
    if "machine_key E i LC_Verifying m key" "is_ed25519_host_identity E host" for m key
  proof -
    from that have "{sp. pinned_spawn E p (mc_target_account m) host key proof_command sp}
        \<subseteq> {sp. access_child E i LC_Verifying (\<lambda>_. Some host) (\<lambda>_ cmd. cmd = proof_command) sp}" for p
      unfolding access_child_def by (intro Collect_mono impI) metis
    with assms show ?thesis unfolding verify_with_child_def by (intro sr_rules) (rule subset_trans)
  qed
  show ?thesis unfolding verify_access_def
    apply (rule sr_keeps_bind [OF children_leaves(6)])
    apply (rule sr_keeps_if, rule sr_keeps_throw)
    apply (rule sr_keeps_bind_yields [OF children_rows(1) access_row_yields])
    apply (rule sr_keeps_prod)
    apply (rule sr_keeps_bind [OF children_leaves(6)])
    apply (rule sr_keeps_if, rule sr_keeps_throw)
    apply (rule sr_keeps_bind_lift)
    apply (rule sr_keeps_bind [OF children_leaves(6)])
    apply (rule tail)
    apply (auto simp: machine_key_def)
    done
qed

lemma children_probe:
  assumes "{sp. access_child E i LC_Active mc_host_identity (tmux_commands (\<lambda>tmux sock _. probe_command tmux sock) []) sp} \<subseteq> A"
  shows "sr_keeps (children_in A) (run_tmux_probe E rt i)"
  unfolding run_tmux_probe_def
  by (rule children_active, rule sr_keeps_bind_lift, rule sr_keeps_bind_lift, rule children_in_dir,
      rule sr_keeps_bind [OF children_run_access [OF assms]]) (auto intro!: sr_rules)

lemma children_create:
  assumes "{sp. access_child E i LC_Active mc_host_identity (tmux_commands (\<lambda>tmux sock qs. create_command tmux sock (hd qs)) [name]) sp} \<subseteq> A"
  shows "sr_keeps (children_in A) (create_tmux_session E rt i name)"
  unfolding create_tmux_session_def
  by (rule sr_keeps_if, rule sr_keeps_throw, rule children_active, rule sr_keeps_bind_lift, rule sr_keeps_bind_lift, rule sr_keeps_bind_lift,
      rule children_in_dir, rule sr_keeps_bind [OF children_run_access [OF assms, where qs = "[x]" for x]]) (auto intro!: sr_rules)

lemma children_control:
  assumes "{sp. access_child E i LC_Active mc_host_identity
      (tmux_commands (\<lambda>tmux sock qs. control_command tmux sock (hd qs) (show_int created)) [session_id]) sp} \<subseteq> A"
  shows "sr_keeps (children_in A) (start_tmux_control E rt i session_id created)"
  unfolding start_tmux_control_def
  by (rule sr_keeps_if, rule sr_keeps_throw, rule children_active, rule sr_keeps_bind_lift, rule sr_keeps_bind_lift, rule sr_keeps_bind_lift,
      rule children_in_dir(2), rule sr_keeps_bind [OF children_run_access [OF assms, where qs = "[x]" for x]]) (auto intro!: sr_rules)

abbreviation new_children :: "(ssh_world \<Rightarrow> 'r \<times> ssh_world) \<Rightarrow> ssh_world \<Rightarrow> spawned set" where
  "new_children f s \<equiv> set (sw_spawned (snd (f s))) - set (sw_spawned s)"

lemma sr_keeps_new_children:
  "(\<And>A. {sp. Q sp} \<subseteq> A \<Longrightarrow> sr_keeps (children_in A) f) \<Longrightarrow> sp \<in> new_children f s \<Longrightarrow> Q sp"
proof -
  assume keeps: "\<And>A. {sp. Q sp} \<subseteq> A \<Longrightarrow> sr_keeps (children_in A) f" and sp: "sp \<in> new_children f s"
  have "sr_keeps (children_in ({sp. Q sp} \<union> set (sw_spawned s))) f" by (rule keeps) simp
  then have "children_in ({sp. Q sp} \<union> set (sw_spawned s)) (snd (f s))" by (simp add: sr_keeps_def)
  with sp show "Q sp" by auto
qed

text \<open>Discovery runs before anything is known of the host: without an identity and with authentication switched off, on an
  empty known hosts file that takes the key the host shows.\<close>

definition discovery_child :: "access_env \<Rightarrow> spawned \<Rightarrow> bool" where
  "discovery_child E sp \<longleftrightarrow> (\<exists>p port i. ax_bind E = Some port \<and> sp_args sp = discovery_args E p port \<and> sp_known_hosts sp = Some (FS_File i []))"

lemma children_discover:
  assumes "{sp. discovery_child E sp} \<subseteq> A"
  shows "sr_keeps (children_in A) (discover_host_identity E rt)"
proof -
  have body: "sr_keeps (children_in A) (sr_bind (write_exclusive (ax_fs E) (p @ [''known_hosts'']) [] o600) (\<lambda>_.
      sr_bind (sr_lift (ok_or (ax_bind E) Ssh_Unavailable)) (\<lambda>port.
      sr_bind (spawn E p (discovery_args E p port)) (\<lambda>_.
      sr_bind (child_writes_hosts E p) (\<lambda>_.
      if ch_cut (ax_child E) \<noteq> In_Time then sr_throw Ssh_ProofFailed
      else sr_bind (sw_check E 1) (\<lambda>_. sr_lift (discovery_result E)))))))" (is "sr_keeps _ (sr_bind ?w ?tail)") for p
  proof (rule sr_keepsI, rule snd_bind [where P = "children_in A"])
    fix t u t1 assume t: "children_in A t" and w: "?w t = (Ok u, t1)"
    from write_exclusive_Ok [OF w] obtain i where t1: "t1 = t\<lparr>sd_fs := AList.update (p @ [''known_hosts'']) (FS_File i []) (sd_fs t)\<rparr>" by blast
    have "\<lparr>sp_args = discovery_args E p port, sp_identity = map_of (sd_fs t1) (p @ [''identity'']), sp_known_hosts = Some (FS_File i [])\<rparr> \<in> A"
      if "ax_bind E = Some port" for port
      using that by (intro subsetD [OF assms]) (auto simp: discovery_child_def)
    then have sp: "sr_keeps (\<lambda>w. children_in A w \<and> sd_fs w = sd_fs t1) (spawn E p (discovery_args E p port))" if "ax_bind E = Some port" for port
      using that t1 by (auto simp: sr_keeps_def spawn_def sr_leaf sr_bind_def update_conv')
    have rest: "sr_keeps (children_in A) (sr_bind (child_writes_hosts E p) (\<lambda>_.
        if ch_cut (ax_child E) \<noteq> In_Time then sr_throw Ssh_ProofFailed
        else sr_bind (sw_check E 1) (\<lambda>_. sr_lift (discovery_result E))))"
      by (intro sr_rules)
    show "children_in A (snd (?tail u t1))"
    proof (cases "ax_bind E")
      case None
      with t t1 show ?thesis by (simp add: sr_bind_def sr_leaf ok_or_def)
    next
      case (Some port)
      have "children_in A t1" using t t1 by simp
      note sp' = sr_keepsD [where P = "\<lambda>w. children_in A w \<and> sd_fs w = sd_fs t1", OF sp [OF Some] conjI [OF this refl]]
      have "children_in A (snd (sr_bind (spawn E p (discovery_args E p port)) (\<lambda>_. sr_bind (child_writes_hosts E p) (\<lambda>_.
          if ch_cut (ax_child E) \<noteq> In_Time then sr_throw Ssh_ProofFailed
          else sr_bind (sw_check E 1) (\<lambda>_. sr_lift (discovery_result E)))) t1))"
        by (rule snd_bind [where P = "children_in A"]) (rule sr_keeps_snd [where P = "children_in A", OF rest], blast dest: sp', blast dest: sp')
      with Some show ?thesis by (simp add: sr_bind_def [of "sr_lift _"] sr_lift_def ok_or_def)
    qed
  qed (rule sr_keepsD [where P = "children_in A", OF children_composed(5)])
  show ?thesis unfolding discover_host_identity_def by (rule sr_keeps_bind [OF children_leaves(6)]) (rule children_in_dir(1) [OF body])
qed

text \<open>C16. An OpenSSH child that uses a credential never runs with less than the machine's own access. Every child that a proof,
  a probe, a session creation or a control start brings up, whatever fails on the way, has the fixed command line with strict
  host key checking; its known hosts file holds the one pinned Ed25519 key, its identity file the key that opened for that
  machine's active credential; and its remote command is the operation's own, with the tmux path, the socket and the session
  quoted. The children of host key discovery, which come before a key is pinned, start from an empty known hosts file, with
  the fixed command line that names no identity and disables authentication.\<close>

theorem ssh_children_are_pinned:
  "new_children (verify_access E rt i host) s \<subseteq> {sp. access_child E i LC_Verifying (\<lambda>_. Some host) (\<lambda>_ cmd. cmd = proof_command) sp}
   \<and> new_children (run_tmux_probe E rt i) s
       \<subseteq> {sp. access_child E i LC_Active mc_host_identity (tmux_commands (\<lambda>tmux sock _. probe_command tmux sock) []) sp}
   \<and> new_children (create_tmux_session E rt i name) s
       \<subseteq> {sp. access_child E i LC_Active mc_host_identity (tmux_commands (\<lambda>tmux sock qs. create_command tmux sock (hd qs)) [name]) sp}
   \<and> new_children (start_tmux_control E rt i session_id created) s
       \<subseteq> {sp. access_child E i LC_Active mc_host_identity
            (tmux_commands (\<lambda>tmux sock qs. control_command tmux sock (hd qs) (show_int created)) [session_id]) sp}
   \<and> new_children (discover_host_identity E rt) s \<subseteq> {sp. discovery_child E sp}"
  by (intro conjI subsetI CollectI; rule sr_keeps_new_children;
      (rule children_verify children_probe children_create children_control children_discover | assumption))

section \<open>Operations leave nothing behind\<close>

text \<open>While the body of an operation runs, only what lies in its child directory differs from the tree \<open>m\<close> it started with.\<close>

definition within_child :: "uuid_text \<Rightarrow> nat \<Rightarrow> path \<Rightarrow> (path \<rightharpoonup> fs_entry) \<Rightarrow> nat \<Rightarrow> ssh_world \<Rightarrow> bool" where
  "within_child U uid p m n s \<longleftrightarrow> tree_ok U uid (sd_fs s) \<and> map_of (sd_fs s) p \<noteq> None
     \<and> (\<forall>r. \<not> prefix p r \<longrightarrow> map_of (sd_fs s) r = m r) \<and> sd_permits s = n"

abbreviation same_disk :: "uuid_text \<Rightarrow> nat \<Rightarrow> (path \<rightharpoonup> fs_entry) \<Rightarrow> nat \<Rightarrow> ssh_world \<Rightarrow> bool" where
  "same_disk U uid m n s \<equiv> tree_ok U uid (sd_fs s) \<and> map_of (sd_fs s) = m \<and> sd_permits s = n"

lemma same_disk_leaves [sr_rules]:
  "sr_keeps (same_disk U uid m n) (sw_check E k)" "sr_keeps (within_child U uid p m n) (sw_check E k)"
  "sr_keeps (within_child U uid p m n) (spawn E q args)"
  by (auto simp: sr_keeps_def within_child_def sw_check_def spawn_def sr_leaf split: prod.splits)

lemma within_child_writes:
  assumes "file_mask V" "fe_uid V = uid" "name = ''identity'' \<or> name = ''known_hosts''"
  shows "sr_keeps (within_child U uid [x, y] m n) (write_exclusive V ([x, y] @ [name]) content o600)"
proof (rule sr_keepsI)
  fix s assume s: "within_child U uid [x, y] m n s"
  with sr_keeps_snd [where P = "keeps_tree U uid", OF tree_write [OF assms, of U x y content], of s]
  show "within_child U uid [x, y] m n (snd (write_exclusive V ([x, y] @ [name]) content o600 s))"
    by (auto simp: within_child_def disk_calls sr_leaf sr_bind_def update_conv' Let_def)
qed

lemma within_child_unlinks: "sr_keeps (within_child U uid [x, y] m n) (unlink_file E [x, y])"
proof (rule sr_keepsI)
  fix s assume s: "within_child U uid [x, y] m n s"
  with sr_keeps_snd [where P = "keeps_tree U uid", OF tree_removals(1) [of U uid "ax_fs E" "[x, y, ''identity'']"], of s]
  show "within_child U uid [x, y] m n (snd (unlink_file E [x, y] s))"
    by (auto simp: within_child_def unlink_file_def disk_calls sr_leaf sr_bind_def delete_conv' split: option.splits)
qed

lemma within_child_hosts: "sr_keeps (within_child U uid [x, y] m n) (child_writes_hosts E [x, y])"
proof (rule sr_keepsI)
  fix s assume s: "within_child U uid [x, y] m n s"
  have "tree_ok U uid (AList.update [x, y, ''known_hosts''] (FS_File i content) (sd_fs s))"
    if "map_of (sd_fs s) [x, y, ''known_hosts''] = Some (FS_File i old)" for i old content
  proof -
    from s have ok: "tree_ok U uid (sd_fs s)" by (simp add: within_child_def)
    from tree_okD(2,3) [OF ok that] show ?thesis
      by (intro tree_ok_put [OF ok]) (auto simp: regular_ok_def that is_dir_def)
  qed
  with s show "within_child U uid [x, y] m n (snd (child_writes_hosts E [x, y] s))"
    by (auto simp: within_child_def child_writes_hosts_def update_conv' split: option.splits fs_entry.splits)
qed

text \<open>The file system answers every call, files come out private, and the runtime's directory is there with no child of that name.\<close>

definition access_ready :: "access_env \<Rightarrow> ssh_runtime \<Rightarrow> (path \<rightharpoonup> fs_entry) \<Rightarrow> bool" where
  "access_ready E rt m \<longleftrightarrow> quiet (ax_fs E) \<and> file_mask (ax_fs E) \<and> fe_uid (ax_fs E) = rt_owner_uid rt \<and> uuid_text_ok (ax_uuid E)
     \<and> length (rt_instance_dir rt) = 1 \<and> (\<exists>i. m (rt_instance_dir rt) = Some (FS_Dir i))
     \<and> m (rt_instance_dir rt @ [scoped_name (ax_uuid E) ''child-'' (ax_fresh E)]) = None"

lemma child_dropped:
  assumes V: "quiet V" and t: "within_child U (rt_owner_uid rt) [x, y] m (n - 1) t" and n: "0 < n"
    and fresh: "tree_ok U (rt_owner_uid rt) fs" "map_of fs = m" "m [x, y] = None"
  shows "same_disk U (rt_owner_uid rt) m n (snd (child_drop V rt [x, y] t))"
proof -
  from t have ok: "tree_ok U (rt_owner_uid rt) (sd_fs t)" and there: "map_of (sd_fs t) [x, y] \<noteq> None" by (auto simp: within_child_def)
  have "m r = None" if "prefix [x, y] r" for r using ancestors [OF fresh(1), of r _ "[x, y]"] fresh(2,3) that by (cases "m r") auto
  then have eq: "map_of (prune {[x, y]} (sd_fs t)) = m" using t by (auto simp: fun_eq_iff map_of_prune within_child_def)
  have "distinct (map fst (prune {[x, y]} (sd_fs t)))" using tree_okD(1) [OF ok] unfolding prune_def by (rule distinct_map_filter)
  then have "tree_ok U (rt_owner_uid rt) (prune {[x, y]} (sd_fs t))" by (rule tree_ok_cong [OF fresh(1)]) (simp add: eq fresh(2))
  with eq t n show ?thesis
    using child_cleaned [OF quiet_steady [OF V] ok there] by (simp add: child_drop_def sr_bind_def sr_leaf sr_try_def within_child_def)
qed

lemma child_made:
  assumes "access_ready E rt m" "same_disk (ax_uuid E) (rt_owner_uid rt) m n s"
  shows "\<exists>x y. (\<exists>e. child_dir (ax_fs E) (ax_uuid E) (ax_fresh E) rt s = (Err e, s)) \<or>
    (\<exists>t. child_dir (ax_fs E) (ax_uuid E) (ax_fresh E) rt s = (Ok [x, y], t) \<and> within_child (ax_uuid E) (rt_owner_uid rt) [x, y] m (n - 1) t
      \<and> 0 < n \<and> m [x, y] = None)"
proof -
  let ?y = "scoped_name (ax_uuid E) ''child-'' (ax_fresh E)" and ?uid = "rt_owner_uid rt"
  from assms(1) obtain x i where x: "rt_instance_dir rt = [x]" "m [x] = Some (FS_Dir i)" "m [x, ?y] = None"
    and V: "quiet (ax_fs E)" "fe_uid (ax_fs E) = ?uid" and U: "uuid_text_ok (ax_uuid E)"
    by (auto simp: access_ready_def length_Suc_conv)
  from assms(2) have ok: "tree_ok (ax_uuid E) ?uid (sd_fs s)" and m: "map_of (sd_fs s) = m" "sd_permits s = n" by auto
  have "creatable [x, ?y] (sd_fs s)" using x m by (simp add: creatable_def is_dir_def)
  from makes_directory [OF V this] tree_okD(1) [OF ok] obtain fs e where made: "make_directory (ax_fs E) ?uid [x, ?y] s = (Ok (), s\<lparr>sd_fs := fs\<rparr>)"
    "map_of fs = (map_of (sd_fs s))([x, ?y] \<mapsto> e)" "directory_ok ?uid e" "distinct (map fst fs)" by blast
  have "entry_ok (ax_uuid E) ?uid [x, ?y] e" using fresh_scoped(2) [OF U] made(3) by simp
  then have "tree_ok (ax_uuid E) ?uid (AList.update [x, ?y] e (sd_fs s))"
    by (rule tree_ok_put [OF ok]) (use x m in \<open>auto simp: has_parent_def is_dir_def\<close>)
  then have "tree_ok (ax_uuid E) ?uid fs" by (rule tree_ok_cong [OF _ made(4)]) (simp add: made(2) update_conv')
  with made m x show ?thesis
    by (intro exI [of _ x] exI [of _ ?y]) (auto simp: child_dir_def sr_bind_def sr_leaf Let_def within_child_def)
qed

lemma in_child_dir_leaves_nothing:
  assumes ready: "access_ready E rt m"
    and body: "\<And>x y k. sr_keeps (within_child (ax_uuid E) (rt_owner_uid rt) [x, y] m k) (body [x, y])"
  shows "sr_keeps (same_disk (ax_uuid E) (rt_owner_uid rt) m n) (in_child_dir E rt body)"
proof (rule sr_keepsI)
  fix s assume s: "same_disk (ax_uuid E) (rt_owner_uid rt) m n s"
  from child_made [OF ready s] consider (no) e where "child_dir (ax_fs E) (ax_uuid E) (ax_fresh E) rt s = (Err e, s)"
    | (yes) x y t where "child_dir (ax_fs E) (ax_uuid E) (ax_fresh E) rt s = (Ok [x, y], t)" "within_child (ax_uuid E) (rt_owner_uid rt) [x, y] m (n - 1) t"
      "0 < n" "m [x, y] = None" by blast
  then show "same_disk (ax_uuid E) (rt_owner_uid rt) m n (snd (in_child_dir E rt body s))"
  proof cases
    case yes
    obtain r t' where b: "body [x, y] t = (r, t')" by (cases "body [x, y] t")
    from sr_keepsD [OF body yes(2) b] yes(3,4) s ready
      child_dropped [where V = "ax_fs E" and U = "ax_uuid E" and rt = rt and x = x and y = y and m = m and n = n and t = t' and fs = "sd_fs s"]
    have "same_disk (ax_uuid E) (rt_owner_uid rt) m n (snd (child_drop (ax_fs E) rt [x, y] t'))" unfolding access_ready_def by blast
    with yes(1) b show ?thesis by (auto simp: in_child_dir_def sr_bind_def sr_try_def sr_leaf split: prod.splits sum.splits)
  qed (use s in \<open>auto simp: in_child_dir_def sr_bind_def\<close>)
qed

lemma within_child_bodies:
  assumes "access_ready E rt m"
  shows "sr_keeps (within_child U (rt_owner_uid rt) [x, y] m n) (spawn_access E k [x, y] account host key cmd)"
    and "sr_keeps (within_child U (rt_owner_uid rt) [x, y] m n) (write_exclusive (ax_fs E) ([x, y] @ [''known_hosts'']) content o600)"
    and "sr_keeps (within_child U (rt_owner_uid rt) [x, y] m n) (proof_result E [x, y])"
    and "sr_keeps (within_child U (rt_owner_uid rt) [x, y] m n) (probe_output E [x, y])"
    and "sr_keeps (within_child U (rt_owner_uid rt) [x, y] m n) (create_result E [x, y])"
proof -
  from assms have "file_mask (ax_fs E)" "fe_uid (ax_fs E) = rt_owner_uid rt" by (simp_all add: access_ready_def)
  note writes = within_child_writes [OF this]
  show "sr_keeps (within_child U (rt_owner_uid rt) [x, y] m n) (spawn_access E k [x, y] account host key cmd)"
    "sr_keeps (within_child U (rt_owner_uid rt) [x, y] m n) (write_exclusive (ax_fs E) ([x, y] @ [''known_hosts'']) content o600)"
    unfolding spawn_access_def by (intro sr_rules writes; simp)+
  show "sr_keeps (within_child U (rt_owner_uid rt) [x, y] m n) (proof_result E [x, y])"
    "sr_keeps (within_child U (rt_owner_uid rt) [x, y] m n) (probe_output E [x, y])"
    "sr_keeps (within_child U (rt_owner_uid rt) [x, y] m n) (create_result E [x, y])"
    unfolding proof_result_def probe_output_def create_result_def by (intro sr_rules within_child_unlinks)+
qed

lemma same_disk_rows [sr_rules]:
  "sr_keeps (same_disk U uid m n) (access_row E lc i)" "sr_keeps (same_disk U uid m n) (load_active_access E i)"
  unfolding load_active_access_def access_row_def by (intro sr_rules)+

lemma same_disk_operations:
  assumes ready: "access_ready E rt m"
  shows "sr_keeps (same_disk (ax_uuid E) (rt_owner_uid rt) m n) (discover_host_identity E rt)"
    and "sr_keeps (same_disk (ax_uuid E) (rt_owner_uid rt) m n) (verify_access E rt i host)"
    and "sr_keeps (same_disk (ax_uuid E) (rt_owner_uid rt) m n) (run_tmux_probe E rt i)"
    and "sr_keeps (same_disk (ax_uuid E) (rt_owner_uid rt) m n) (create_tmux_session E rt i name)"
  unfolding discover_host_identity_def verify_access_def run_tmux_probe_def create_tmux_session_def verify_with_child_def run_access_def
  by (intro sr_rules in_child_dir_leaves_nothing [OF ready] within_child_bodies [OF ready] within_child_hosts)+

text \<open>C17. No private key outlives its operation: on a file system that answers every call, discovery, the access proof, the
  tmux probe and the creation of a session leave the directory tree and the number of free children exactly as they were,
  whatever the child prints, however it ends, and whether the operation succeeds, fails or runs into its deadline.\<close>

theorem ssh_operation_leaves_no_trace:
  assumes "access_ready E rt (map_of (sd_fs s))" and "tree_ok (ax_uuid E) (rt_owner_uid rt) (sd_fs s)"
  shows "\<forall>t \<in> {snd (discover_host_identity E rt s), snd (verify_access E rt i host s), snd (run_tmux_probe E rt i s),
      snd (create_tmux_session E rt i name s)}.
    map_of (sd_fs t) = map_of (sd_fs s) \<and> sd_permits t = sd_permits s"
  using same_disk_operations [OF assms(1), of "sd_permits s"] assms(2) by (auto simp: sr_keeps_def)

text \<open>A machine under verification, on a root with one runtime directory; the child prints the marker and exits.\<close>

definition ssh_sample_machine :: machine_row where
  "ssh_sample_machine = \<lparr>mc_id = 11, mc_credential_id = 5, mc_alias = ''box'', mc_lifecycle = LC_Verifying, mc_route_revision = 1,
     mc_credential_revision = 1, mc_target_account = ''dev'', mc_tmux_path = ''/usr/bin/tmux'', mc_tmux_socket = ''owlmux'', mc_host_identity = None\<rparr>"

definition ssh_sample_credential :: credential_row where
  "ssh_sample_credential = \<lparr>cr_id = 5, cr_name = ''default'', cr_public_key = ''pk'', cr_fingerprint = ''fp'',
     cr_envelope = CHR 0x01 # replicate 24 (CHR ''n'') @ ''private'', cr_status = CR_Active\<rparr>"

definition ssh_sample_child :: child_run where
  "ssh_sample_child = \<lparr>ch_spawns = True, ch_stdout = PROOF_MARKER, ch_stdout_ok = True, ch_stderr = [], ch_stderr_ok = True,
     ch_status = Some (Some 0), ch_cut = In_Time, ch_events = [], ch_known_hosts = None\<rparr>"

definition ssh_sample_env :: access_env where
  "ssh_sample_env = \<lparr>ax_fs = sample_disk_env 0x12 {}, ax_uuid = sample_uuid_text, ax_root = ''/run/owlmux'', ax_fresh = 8, ax_clock = (\<lambda>_. Ok 50),
     ax_row_read = True, ax_tables = \<lparr>rt_machines = [ssh_sample_machine], rt_enrollments = [], rt_attempts = [], rt_bindings = [], rt_owners = [],
       rt_credentials = [ssh_sample_credential], rt_default_credential = 5, rt_audit = []\<rparr>,
     ax_deployment_id = 1, ax_key = ''k'', ax_aead = \<lparr>cx_encrypt = (\<lambda>_ _ _ m. Some m), cx_decrypt = (\<lambda>_ _ _ c. Some c)\<rparr>,
     ax_openssh = (\<lambda>v. Some (True, Some v, v)), ax_bind = Some 4022, ax_child = ssh_sample_child\<rparr>"

definition ssh_sample_runtime :: ssh_runtime where
  "ssh_sample_runtime = \<lparr>rt_instance_dir = [''instance-7''], rt_owner_uid = 5\<rparr>"

definition ssh_sample_world :: ssh_world where
  "ssh_sample_world = \<lparr>sd_fs = [([], FS_Dir \<lparr>im_uid = 5, im_mode = o700, im_nlink = 2\<rparr>), ([''instance-7''], FS_Dir \<lparr>im_uid = 5, im_mode = o700, im_nlink = 2\<rparr>)],
     sd_locked = True, sd_permits = 32,
     sw_lease = \<lparr>nl_incarnation_id = 7, nl_config_epoch = 1, nl_display_name = None, nl_profile = ''single_node'', nl_config_proof = None,
       nl_internal_wss_url = None, nl_build_id = ''b1'', nl_ttl = 30, nl_safety_margin = 5, nl_clock_last = None, nl_hard_deadline_ns = 100,
       nl_fenced = False, nl_fence_token_cancelled = False, nl_draining = False, nl_dependency_ready = True\<rparr>, sw_spawned = []\<rparr>"

lemma ssh_sample_ready:
  "access_ready ssh_sample_env ssh_sample_runtime (map_of (sd_fs ssh_sample_world))"
  "tree_ok (ax_uuid ssh_sample_env) (rt_owner_uid ssh_sample_runtime) (sd_fs ssh_sample_world)"
proof -
  show "access_ready ssh_sample_env ssh_sample_runtime (map_of (sd_fs ssh_sample_world))"
    by (simp add: access_ready_def ssh_sample_env_def ssh_sample_runtime_def ssh_sample_world_def sample_disk_env_def quiet_def file_mask_def sample_uuid_text_ok)
  have "scoped sample_uuid_text ''instance-'' ''instance-7''"
    using fresh_scoped(1) [OF sample_uuid_text_ok, of 7] by (simp add: scoped_name_def sample_uuid_text_def)
  then show "tree_ok (ax_uuid ssh_sample_env) (rt_owner_uid ssh_sample_runtime) (sd_fs ssh_sample_world)"
    by (auto simp: tree_ok_def ssh_sample_env_def ssh_sample_runtime_def ssh_sample_world_def has_parent_def is_dir_def directory_ok_def mode_is_def
        split: if_splits)
qed

lemma ssh_sample_proof:
  "fst (verify_access ssh_sample_env ssh_sample_runtime 11 ''host-key'' ssh_sample_world) = Ok ()"
  "length (sw_spawned (snd (verify_access ssh_sample_env ssh_sample_runtime 11 ''host-key'' ssh_sample_world))) = 1"
  by code_simp+

theorem ssh_operation_leaves_no_trace_witness:
  "fst (verify_access ssh_sample_env ssh_sample_runtime 11 ''host-key'' ssh_sample_world) = Ok ()
   \<and> length (sw_spawned (snd (verify_access ssh_sample_env ssh_sample_runtime 11 ''host-key'' ssh_sample_world))) = 1
   \<and> map_of (sd_fs (snd (verify_access ssh_sample_env ssh_sample_runtime 11 ''host-key'' ssh_sample_world))) = map_of (sd_fs ssh_sample_world)"
  using ssh_operation_leaves_no_trace [OF ssh_sample_ready] ssh_sample_proof by blast

theorem ssh_children_are_pinned_witness:
  "\<exists>sp. sw_spawned (snd (verify_access ssh_sample_env ssh_sample_runtime 11 ''host-key'' ssh_sample_world)) = [sp]
    \<and> access_child ssh_sample_env 11 LC_Verifying (\<lambda>_. Some ''host-key'') (\<lambda>_ cmd. cmd = proof_command) sp"
proof -
  let ?t = "snd (verify_access ssh_sample_env ssh_sample_runtime 11 ''host-key'' ssh_sample_world)"
  obtain sp where sp: "sw_spawned ?t = [sp]" using ssh_sample_proof(2) by (auto simp: length_Suc_conv numeral_eq_Suc)
  have "new_children (verify_access ssh_sample_env ssh_sample_runtime 11 ''host-key'') ssh_sample_world
      \<subseteq> {sp. access_child ssh_sample_env 11 LC_Verifying (\<lambda>_. Some ''host-key'') (\<lambda>_ cmd. cmd = proof_command) sp}"
    by (rule conjunct1 [OF ssh_children_are_pinned])
  then show ?thesis using sp by (auto simp: ssh_sample_world_def)
qed

end
