(* ===== verification/Configuration.thy ===== *)
theory Configuration
  imports Cluster Custody Ssh_Runtime
begin

text \<open>
  The settings of a Server (\<open>config.rs\<close>) and its start (\<open>service.rs\<close>: \<open>ServerState::bootstrap\<close>), which takes the
  deployment, the SSH runtime and the node lease through their own start-up one after the other. Environment variables are
  byte strings; a socket address is read by the rules of \<open>std::net\<close>, which are written out here. Base64, SHA-256,
  HMAC and URL parsing are library code and parameters.
\<close>

section \<open>Socket addresses\<close>

definition to_digit :: "nat \<Rightarrow> char \<Rightarrow> nat option" where
  "to_digit radix c = (let n = of_char c;
     d = (if 48 \<le> n \<and> n \<le> 57 then n - 48 else if 97 \<le> n \<and> n \<le> 122 then n - 87 else if 65 \<le> n \<and> n \<le> 90 then n - 55 else 36)
     in if d < radix then Some d else None)"

text \<open>The digits at the front of a text as a number of the given width, with a limit on their count.\<close>

fun read_digits :: "nat \<Rightarrow> nat \<Rightarrow> nat option \<Rightarrow> nat \<Rightarrow> nat \<Rightarrow> bytes \<Rightarrow> (nat \<times> nat \<times> bytes) option" where
  "read_digits radix bits max_digits result count [] = Some (result, count, [])"
| "read_digits radix bits max_digits result count (c # cs) = (case to_digit radix c of
     None \<Rightarrow> Some (result, count, c # cs)
   | Some d \<Rightarrow>
       if 2 ^ bits \<le> result * radix + d \<or> (case max_digits of None \<Rightarrow> False | Some m \<Rightarrow> m < count + 1) then None
       else read_digits radix bits max_digits (result * radix + d) (count + 1) cs)"

definition read_number :: "nat \<Rightarrow> nat \<Rightarrow> nat option \<Rightarrow> bool \<Rightarrow> bytes \<Rightarrow> (nat \<times> bytes) option" where
  "read_number radix bits max_digits allow_zero_prefix s = (case read_digits radix bits max_digits 0 0 s of
     None \<Rightarrow> None
   | Some (n, count, rest) \<Rightarrow>
       if count = 0 \<or> (\<not> allow_zero_prefix \<and> hd s = CHR ''0'' \<and> 1 < count) then None else Some (n, rest))"

definition read_given_char :: "char \<Rightarrow> bytes \<Rightarrow> bytes option" where
  "read_given_char c s = (case s of [] \<Rightarrow> None | d # rest \<Rightarrow> if d = c then Some rest else None)"

definition read_separator :: "char \<Rightarrow> nat \<Rightarrow> (bytes \<Rightarrow> ('a \<times> bytes) option) \<Rightarrow> bytes \<Rightarrow> ('a \<times> bytes) option" where
  "read_separator sep i inner s = (if 0 < i then Option.bind (read_given_char sep s) inner else inner s)"

fun read_octets :: "nat \<Rightarrow> nat \<Rightarrow> bytes \<Rightarrow> (nat list \<times> bytes) option" where
  "read_octets 0 i s = Some ([], s)"
| "read_octets (Suc k) i s = (case read_separator (CHR ''.'') i (read_number 10 8 (Some 3) False) s of
     None \<Rightarrow> None
   | Some (octet, r) \<Rightarrow> map_option (\<lambda>(os, rest). (octet # os, rest)) (read_octets k (i + 1) r))"

definition read_ipv4_addr :: "bytes \<Rightarrow> (nat list \<times> bytes) option" where
  "read_ipv4_addr s = read_octets 4 0 s"

text \<open>Up to the given number of groups; an IPv4 address may take the place of the last two.\<close>

fun read_groups :: "nat \<Rightarrow> nat \<Rightarrow> bytes \<Rightarrow> nat list \<times> bool \<times> bytes" where
  "read_groups 0 i s = ([], False, s)"
| "read_groups (Suc k) i s = (case (if 0 < k then read_separator (CHR '':'') i read_ipv4_addr s else None) of
     Some (os, r) \<Rightarrow> ([os ! 0 * 256 + os ! 1, os ! 2 * 256 + os ! 3], True, r)
   | None \<Rightarrow> (case read_separator (CHR '':'') i (read_number 16 16 (Some 4) True) s of
         None \<Rightarrow> ([], False, s)
       | Some (g, r) \<Rightarrow> (case read_groups k (i + 1) r of (gs, v4, rest) \<Rightarrow> (g # gs, v4, rest))))"

definition read_ipv6_addr :: "bytes \<Rightarrow> (nat list \<times> bytes) option" where
  "read_ipv6_addr s = (case read_groups 8 0 s of (head, head_ipv4, r) \<Rightarrow>
     if length head = 8 then Some (head, r)
     else if head_ipv4 then None
     else Option.bind (Option.bind (read_given_char (CHR '':'') r) (read_given_char (CHR '':''))) (\<lambda>r2.
       case read_groups (8 - (length head + 1)) 0 r2 of (tail, _, rest) \<Rightarrow>
         Some (head @ replicate (8 - length head - length tail) 0 @ tail, rest)))"

datatype socket_addr = SA_V4 "nat list" nat | SA_V6 "nat list" nat nat

definition read_port :: "bytes \<Rightarrow> (nat \<times> bytes) option" where
  "read_port s = Option.bind (read_given_char (CHR '':'') s) (read_number 10 16 None True)"

definition read_scope_id :: "bytes \<Rightarrow> nat \<times> bytes" where
  "read_scope_id s = (case Option.bind (read_given_char (CHR ''%'') s) (read_number 10 32 None True) of None \<Rightarrow> (0, s) | Some r \<Rightarrow> r)"

definition read_socket_addr_v4 :: "bytes \<Rightarrow> (socket_addr \<times> bytes) option" where
  "read_socket_addr_v4 s = Option.bind (read_ipv4_addr s) (\<lambda>(ip, r). map_option (\<lambda>(port, rest). (SA_V4 ip port, rest)) (read_port r))"

definition read_socket_addr_v6 :: "bytes \<Rightarrow> (socket_addr \<times> bytes) option" where
  "read_socket_addr_v6 s =
     Option.bind (read_given_char (CHR ''['') s) (\<lambda>r1.
     Option.bind (read_ipv6_addr r1) (\<lambda>(ip, r2).
     case read_scope_id r2 of (scope_id, r3) \<Rightarrow>
     Option.bind (read_given_char (CHR '']'') r3) (\<lambda>r4. map_option (\<lambda>(port, rest). (SA_V6 ip scope_id port, rest)) (read_port r4))))"

definition parse_socket_addr :: "bytes \<Rightarrow> socket_addr option" where
  "parse_socket_addr s = (case (case read_socket_addr_v4 s of Some r \<Rightarrow> Some r | None \<Rightarrow> read_socket_addr_v6 s) of
     Some (a, []) \<Rightarrow> Some a
   | _ \<Rightarrow> None)"

section \<open>Settings\<close>

datatype config_error = Config_Missing bytes | Config_Invalid bytes

datatype deployment_profile = SingleNode | Clustered

record cluster_config =
  cc_key :: bytes
  cc_address :: socket_addr
  cc_advertised_url :: bytes
  cc_tls_certificate :: bytes
  cc_tls_private_key :: bytes
  cc_tls_ca :: bytes

record config =
  cg_address :: socket_addr
  cg_web_dir :: bytes
  cg_public_origin :: bytes
  cg_database_url :: bytes
  cg_api_key :: bytes
  cg_encryption_key :: bytes
  cg_ssh_runtime_root :: bytes
  cg_epoch :: int
  cg_lease_ttl :: nat
  cg_lease_safety_margin :: nat
  cg_shutdown_timeout :: nat
  cg_node_name :: "bytes option"
  cg_profile :: deployment_profile
  cg_cluster :: "cluster_config option"

text \<open>The environment of the process and the libraries the settings go through.\<close>

record config_env =
  ce_read :: "bytes \<Rightarrow> bytes option"
  ce_base64 :: base64
  ce_url :: "bytes \<Rightarrow> url_parts option"
  ce_sha :: "bytes \<Rightarrow> bytes"
  ce_hmac :: "bytes \<Rightarrow> bytes \<Rightarrow> bytes"
  ce_build_id :: bytes

definition optional_utf8 :: "config_env \<Rightarrow> bytes \<Rightarrow> config_error + bytes option" where
  "optional_utf8 E key = (case ce_read E key of
     None \<Rightarrow> Ok None
   | Some v \<Rightarrow> if from_utf8_ok v then Ok (Some v) else Err (Config_Invalid key))"

definition required_utf8 :: "config_env \<Rightarrow> bytes \<Rightarrow> config_error + bytes" where
  "required_utf8 E key = r_bind (optional_utf8 E key) (\<lambda>v. case v of
     None \<Rightarrow> Err (Config_Missing key)
   | Some x \<Rightarrow> if x = [] then Err (Config_Missing key) else Ok x)"

definition parse_number :: "config_env \<Rightarrow> bytes \<Rightarrow> (bytes \<Rightarrow> 'n option) \<Rightarrow> 'n \<Rightarrow> config_error + 'n" where
  "parse_number E key parse fallback = r_bind (optional_utf8 E key) (\<lambda>v. case v of
     None \<Rightarrow> Ok fallback
   | Some x \<Rightarrow> ok_or (parse x) (Config_Invalid key))"

definition config_internal_url :: "config_env \<Rightarrow> bytes \<Rightarrow> config_error + unit" where
  "config_internal_url E v = r_bind (ok_or (ce_url E v) (Config_Invalid ''OWLMUX_INTERNAL_URL'')) (\<lambda>url.
     if up_scheme url \<noteq> ''wss'' \<or> up_host url = None \<or> up_path url \<noteq> ''/internal/v1/owner'' \<or> up_query url \<noteq> None
        \<or> up_fragment url \<noteq> None \<or> up_username url \<noteq> [] \<or> up_password url \<noteq> None
     then Err (Config_Invalid ''OWLMUX_INTERNAL_URL'') else Ok ())"

definition validate_origin :: "bytes \<Rightarrow> config_error + unit" where
  "validate_origin origin =
     r_bind (ok_or (case strip_prefix ''http://'' origin of Some r \<Rightarrow> Some r | None \<Rightarrow> strip_prefix ''https://'' origin)
       (Config_Invalid ''OWLMUX_PUBLIC_ORIGIN'')) (\<lambda>remainder.
     if remainder = [] \<or> CHR ''/'' \<in> set remainder \<or> CHR ''?'' \<in> set remainder \<or> CHR ''#'' \<in> set remainder
     then Err (Config_Invalid ''OWLMUX_PUBLIC_ORIGIN'') else Ok ())"

text \<open>A path setting that is absent or empty takes its default.\<close>

definition path_or :: "config_env \<Rightarrow> bytes \<Rightarrow> bytes \<Rightarrow> bytes" where
  "path_or E key fallback = (case ce_read E key of None \<Rightarrow> fallback | Some v \<Rightarrow> if v = [] then fallback else v)"

definition is_absolute :: "bytes \<Rightarrow> bool" where
  "is_absolute p \<longleftrightarrow> starts_with ''/'' p"

definition cluster_names :: "bytes list" where
  "cluster_names = [''OWLMUX_CLUSTER_KEY'', ''OWLMUX_INTERNAL_ADDR'', ''OWLMUX_INTERNAL_URL'', ''OWLMUX_INTERNAL_TLS_CERT'',
     ''OWLMUX_INTERNAL_TLS_KEY'', ''OWLMUX_INTERNAL_TLS_CA'']"

definition required_at :: "(bytes \<times> bytes option) list \<Rightarrow> nat \<Rightarrow> config_error + bytes" where
  "required_at values i = (case values ! i of (name, v) \<Rightarrow> (case v of
     None \<Rightarrow> Err (Config_Missing name)
   | Some x \<Rightarrow> if x = [] then Err (Config_Missing name) else Ok x))"

definition load_cluster_config :: "config_env \<Rightarrow> deployment_profile \<Rightarrow> bytes \<Rightarrow> bytes \<Rightarrow> config_error + cluster_config option" where
  "load_cluster_config E profile api_key encryption_key =
     r_bind (r_map (\<lambda>name. r_bind (optional_utf8 E name) (\<lambda>v. Ok (name, v))) cluster_names) (\<lambda>values.
     if profile = SingleNode then
       (case List.find (\<lambda>(_, v). v \<noteq> None) values of Some (name, _) \<Rightarrow> Err (Config_Invalid name) | None \<Rightarrow> Ok None)
     else
       r_bind (required_at values 0) (\<lambda>key_text.
       r_bind (map_err (\<lambda>_. Config_Invalid ''OWLMUX_CLUSTER_KEY'') (decode_canonical_32 (ce_base64 E) key_text)) (\<lambda>key.
       if ce_sha E key = ce_sha E api_key \<or> ce_sha E key = ce_sha E encryption_key then Err (Config_Invalid ''OWLMUX_CLUSTER_KEY'')
       else
         r_bind (required_at values 1) (\<lambda>address_text.
         r_bind (ok_or (parse_socket_addr address_text) (Config_Invalid ''OWLMUX_INTERNAL_ADDR'')) (\<lambda>address.
         r_bind (required_at values 2) (\<lambda>advertised_url.
         r_bind (config_internal_url E advertised_url) (\<lambda>_.
         r_bind (required_at values 3) (\<lambda>tls_certificate.
         r_bind (required_at values 4) (\<lambda>tls_private_key.
         r_bind (required_at values 5) (\<lambda>tls_ca.
         if \<not> is_absolute tls_certificate \<or> \<not> is_absolute tls_private_key \<or> \<not> is_absolute tls_ca
         then Err (Config_Invalid ''OWLMUX_INTERNAL_TLS_CERT'')
         else Ok (Some \<lparr>cc_key = key, cc_address = address, cc_advertised_url = advertised_url, cc_tls_certificate = tls_certificate,
           cc_tls_private_key = tls_private_key, cc_tls_ca = tls_ca\<rparr>)))))))))))"

definition load_config :: "config_env \<Rightarrow> config_error + config" where
  "load_config E =
     r_bind (optional_utf8 E ''OWLMUX_ADDR'') (\<lambda>address_text.
     r_bind (ok_or (parse_socket_addr (case address_text of None \<Rightarrow> ''127.0.0.1:8080'' | Some v \<Rightarrow> v)) (Config_Invalid ''OWLMUX_ADDR'')) (\<lambda>address.
     let web_dir = path_or E ''OWLMUX_WEB_DIR'' ''apps/web/dist'' in
     r_bind (optional_utf8 E ''OWLMUX_PUBLIC_ORIGIN'') (\<lambda>origin_text.
     let public_origin = (case origin_text of None \<Rightarrow> ''http://127.0.0.1:8080'' | Some v \<Rightarrow> v) in
     r_bind (validate_origin public_origin) (\<lambda>_.
     r_bind (required_utf8 E ''OWLMUX_DATABASE_URL'') (\<lambda>database_url.
     if \<not> starts_with ''postgres://'' database_url \<and> \<not> starts_with ''postgresql://'' database_url then Err (Config_Invalid ''OWLMUX_DATABASE_URL'')
     else
       r_bind (required_utf8 E ''OWLMUX_API_KEY'') (\<lambda>api_text.
       r_bind (map_err (\<lambda>_. Config_Invalid ''OWLMUX_API_KEY'') (api_key_parse (ce_base64 E) api_text)) (\<lambda>api_key.
       r_bind (required_utf8 E ''OWLMUX_SSH_KEY_ENCRYPTION_KEY'') (\<lambda>encryption_text.
       r_bind (map_err (\<lambda>_. Config_Invalid ''OWLMUX_SSH_KEY_ENCRYPTION_KEY'') (decode_canonical_32 (ce_base64 E) encryption_text)) (\<lambda>encryption_key.
       let ssh_runtime_root = path_or E ''OWLMUX_SSH_RUNTIME_ROOT'' ''/tmp/owlmux-ssh'' in
       if \<not> is_absolute ssh_runtime_root then Err (Config_Invalid ''OWLMUX_SSH_RUNTIME_ROOT'')
       else
         r_bind (parse_number E ''OWLMUX_CONFIG_EPOCH'' parse_i64 1) (\<lambda>epoch.
         if epoch \<le> 0 then Err (Config_Invalid ''OWLMUX_CONFIG_EPOCH'')
         else
           r_bind (parse_number E ''OWLMUX_NODE_LEASE_TTL_SECONDS'' parse_u64 30) (\<lambda>lease_seconds.
           r_bind (parse_number E ''OWLMUX_NODE_LEASE_SAFETY_MARGIN_SECONDS'' parse_u64 5) (\<lambda>margin_seconds.
           if margin_seconds = 0 \<or> lease_seconds \<le> margin_seconds \<or> 300 < lease_seconds
           then Err (Config_Invalid ''OWLMUX_NODE_LEASE_SAFETY_MARGIN_SECONDS'')
           else
             r_bind (parse_number E ''OWLMUX_SHUTDOWN_TIMEOUT_SECONDS'' parse_u64 10) (\<lambda>shutdown_seconds.
             if shutdown_seconds < 1 \<or> 60 < shutdown_seconds then Err (Config_Invalid ''OWLMUX_SHUTDOWN_TIMEOUT_SECONDS'')
             else
               r_bind (optional_utf8 E ''OWLMUX_NODE_NAME'') (\<lambda>node_name.
               if (case node_name of None \<Rightarrow> False | Some name \<Rightarrow> name = [] \<or> 128 < length name \<or> chars_any char_is_control name)
               then Err (Config_Invalid ''OWLMUX_NODE_NAME'')
               else
                 r_bind (optional_utf8 E ''OWLMUX_PROFILE'') (\<lambda>profile_text.
                 r_bind (if profile_text = None \<or> profile_text = Some ''single-node'' then Ok SingleNode
                   else if profile_text = Some ''clustered'' then Ok Clustered else Err (Config_Invalid ''OWLMUX_PROFILE'')) (\<lambda>profile.
                 r_bind (load_cluster_config E profile api_key encryption_key) (\<lambda>cluster.
                 Ok \<lparr>cg_address = address, cg_web_dir = web_dir, cg_public_origin = public_origin, cg_database_url = database_url,
                   cg_api_key = api_key, cg_encryption_key = encryption_key, cg_ssh_runtime_root = ssh_runtime_root, cg_epoch = epoch,
                   cg_lease_ttl = lease_seconds * NS, cg_lease_safety_margin = margin_seconds * NS, cg_shutdown_timeout = shutdown_seconds * NS,
                   cg_node_name = node_name, cg_profile = profile, cg_cluster = cluster\<rparr>)))))))))))))))))"

definition profile_database_value :: "config \<Rightarrow> bytes" where
  "profile_database_value c = (case cg_profile c of SingleNode \<Rightarrow> ''single_node'' | Clustered \<Rightarrow> ''clustered'')"

definition config_proof :: "config_env \<Rightarrow> config \<Rightarrow> uuid \<Rightarrow> bytes option" where
  "config_proof E c deployment_id = map_option (\<lambda>cluster. configuration_proof (ce_hmac E) (cc_key cluster)
     \<lparr>cf_deployment_id = deployment_id, cf_config_epoch = cg_epoch c, cf_server_build_id = ce_build_id E,
      cf_api_key_digest = ce_sha E (cg_api_key c), cf_encryption_key_digest = ce_sha E (cg_encryption_key c),
      cf_public_origin = cg_public_origin c\<rparr>) (cg_cluster c)"

section \<open>Start of a server\<close>

definition store_config_of :: "config_env \<Rightarrow> config \<Rightarrow> store_config" where
  "store_config_of E c = \<lparr>sg_epoch = cg_epoch c, sg_build_id = ce_build_id E, sg_profile = profile_database_value c,
     sg_proof = config_proof E c, sg_encryption_key = cg_encryption_key c\<rparr>"

text \<open>The lease a node starts with, before it is registered.\<close>

definition new_lease :: "config_env \<Rightarrow> config \<Rightarrow> uuid \<Rightarrow> uuid \<Rightarrow> node_lease" where
  "new_lease E c incarnation_id deployment_id = \<lparr>nl_incarnation_id = incarnation_id, nl_config_epoch = cg_epoch c,
     nl_display_name = cg_node_name c, nl_profile = profile_database_value c, nl_config_proof = config_proof E c deployment_id,
     nl_internal_wss_url = map_option cc_advertised_url (cg_cluster c), nl_build_id = ce_build_id E, nl_ttl = cg_lease_ttl c,
     nl_safety_margin = cg_lease_safety_margin c, nl_clock_last = None, nl_hard_deadline_ns = 0, nl_fenced = False,
     nl_fence_token_cancelled = False, nl_draining = False, nl_dependency_ready = True\<rparr>"

text \<open>What the start meets: whether the database is reached, migrated and pooled, the fates of its two transactions,
  the clocks, the random values and the file system.\<close>

record boot_env =
  bo_connects :: bool
  bo_migrates :: bool
  bo_pools :: bool
  bo_lower :: "bytes \<Rightarrow> bytes"
  bo_aead :: aead
  bo_fate :: db_fate
  bo_store :: bootstrap_env
  bo_fs :: fs_env
  bo_uuid :: uuid_text
  bo_instance :: uuid
  bo_incarnation :: uuid
  bo_clock :: reading
  bo_register_fate :: tx_fate
  bo_register_now :: nat
  bo_clock_again :: reading

record boot_world =
  bw_store :: store
  bw_disk :: ssh_disk

record server_state =
  ss_deployment_id :: uuid
  ss_ssh :: ssh_runtime
  ss_lease :: node_lease

datatype bootstrap_error = BE_Storage storage_error | BE_Lease lease_error | BE_Ssh ssh_error

definition database_bootstrap :: "config_env \<Rightarrow> boot_env \<Rightarrow> config \<Rightarrow> store \<Rightarrow> (storage_error + uuid) \<times> store" where
  "database_bootstrap E B c st =
     (if \<not> bo_connects B then (Err ST_Unavailable, st)
      else if \<not> bo_migrates B then (Err ST_Migration, st)
      else if \<not> bo_pools B then (Err ST_Unavailable, st)
      else initialize_or_validate (bo_lower B) (bo_aead B) (store_config_of E c) (bo_fate B) (bo_store B) st)"

text \<open>When the registration fails, the SSH runtime is dropped again.\<close>

definition server_bootstrap :: "config_env \<Rightarrow> boot_env \<Rightarrow> config \<Rightarrow> boot_world \<Rightarrow> (bootstrap_error + server_state) \<times> boot_world" where
  "server_bootstrap E B c w = (case database_bootstrap E B c (bw_store w) of
     (Inl e, st) \<Rightarrow> (Err (BE_Storage e), w\<lparr>bw_store := st\<rparr>)
   | (Inr deployment_id, st) \<Rightarrow> (case runtime_create (bo_fs B) (bo_uuid B) (bo_instance B) (bw_disk w) of
       (Inl e, disk) \<Rightarrow> (Err (BE_Ssh e), \<lparr>bw_store = st, bw_disk = disk\<rparr>)
     | (Inr ssh, disk) \<Rightarrow> (case lease_register (bo_clock B) (bo_register_fate B) (bo_register_now B) (bo_clock_again B)
           (new_lease E c (bo_incarnation B) deployment_id) (st_nodes st) of
         (Inl e, db) \<Rightarrow> (Err (BE_Lease e), \<lparr>bw_store = st\<lparr>st_nodes := db\<rparr>, bw_disk = snd (runtime_drop (bo_fs B) (bo_uuid B) ssh disk)\<rparr>)
       | (Inr lease, db) \<Rightarrow> (Ok \<lparr>ss_deployment_id = deployment_id, ss_ssh = ssh, ss_lease = lease\<rparr>,
           \<lparr>bw_store = st\<lparr>st_nodes := db\<rparr>, bw_disk = disk\<rparr>))))"

section \<open>What loaded settings satisfy\<close>

fun socket_addr_ok :: "socket_addr \<Rightarrow> bool" where
  "socket_addr_ok (SA_V4 ip port) \<longleftrightarrow> length ip = 4 \<and> list_all (\<lambda>x. x < 2 ^ 8) ip \<and> port < 2 ^ 16"
| "socket_addr_ok (SA_V6 ip scope_id port) \<longleftrightarrow> length ip = 8 \<and> list_all (\<lambda>x. x < 2 ^ 16) ip \<and> scope_id < 2 ^ 32 \<and> port < 2 ^ 16"

lemma read_digits_bound: "read_digits radix bits m result count s = Some (n, k, rest) \<Longrightarrow> result < 2 ^ bits \<Longrightarrow> n < 2 ^ bits"
  by (induction s arbitrary: result count) (auto split: option.splits if_splits)

lemma read_number_bound: "read_number radix bits m z s = Some (n, rest) \<Longrightarrow> n < 2 ^ bits"
  by (auto simp: read_number_def split: option.splits if_splits dest: read_digits_bound)

lemmas read_number_bounds = read_number_bound [where bits = 8, simplified] read_number_bound [where bits = 16, simplified]
  read_number_bound [where bits = 32, simplified]

lemma read_octets_bound: "read_octets k i s = Some (os, rest) \<Longrightarrow> length os = k \<and> list_all (\<lambda>x. x < 2 ^ 8) os"
  by (induction k i s arbitrary: os rest rule: read_octets.induct)
    (auto simp: read_separator_def bind_eq_Some_conv split: option.splits if_splits dest!: read_number_bound)

lemma read_groups_bound: "read_groups k i s = (gs, v4, rest) \<Longrightarrow> length gs \<le> k \<and> list_all (\<lambda>x. x < 2 ^ 16) gs"
proof (induction k i s arbitrary: gs v4 rest rule: read_groups.induct)
  case (2 k i s)
  show ?case
  proof (cases "if 0 < k then read_separator (CHR '':'') i read_ipv4_addr s else None")
    case None
    with 2 show ?thesis
      by (auto simp: read_separator_def bind_eq_Some_conv split: option.splits if_splits prod.splits dest!: read_number_bound)
  next
    case (Some a)
    then obtain os r t where a: "a = (os, r)" "0 < k" "read_octets 4 0 t = Some (os, r)"
      by (cases a) (auto simp: read_separator_def read_ipv4_addr_def bind_eq_Some_conv split: if_splits)
    then have "length os = 4" "\<forall>x \<in> set os. x < 256" using read_octets_bound [OF a(3)] by (auto simp: list_all_iff)
    then have "os ! 0 < 256" "os ! 1 < 256" "os ! 2 < 256" "os ! 3 < 256" by auto
    with 2(2) Some a show ?thesis by auto
  qed
qed simp

lemma read_ipv6_bound:
  assumes "read_ipv6_addr s = Some (ip, rest)"
  shows "length ip = 8 \<and> list_all (\<lambda>x. x < 2 ^ 16) ip"
proof -
  obtain h v r where h: "read_groups 8 0 s = (h, v, r)" by (metis prod_cases3)
  from read_groups_bound [OF this] have hb: "length h \<le> 8" "list_all (\<lambda>x. x < 2 ^ 16) h" by auto
  show ?thesis
  proof (cases "length h = 8")
    case False
    with assms h obtain r2 where r2: "(case read_groups (8 - (length h + 1)) 0 r2 of (t, _, rest) \<Rightarrow>
        Some (h @ replicate (8 - length h - length t) 0 @ t, rest)) = Some (ip, rest)"
      by (auto simp: read_ipv6_addr_def bind_eq_Some_conv split: if_splits)
    obtain t w r3 where t: "read_groups (8 - (length h + 1)) 0 r2 = (t, w, r3)" by (metis prod_cases3)
    from read_groups_bound [OF t] r2 t hb False show ?thesis by (auto simp: list_all_iff)
  qed (use assms h hb in \<open>auto simp: read_ipv6_addr_def\<close>)
qed

lemma read_port_bound: "read_port s = Some (port, rest) \<Longrightarrow> port < 2 ^ 16"
  by (auto simp: read_port_def bind_eq_Some_conv dest: read_number_bounds)

lemma read_scope_bound: "fst (read_scope_id s) < 2 ^ 32"
  by (auto simp: read_scope_id_def bind_eq_Some_conv split: option.split dest: read_number_bounds)

lemma read_socket_addr_ok:
  "read_socket_addr_v4 s = Some (a, rest) \<Longrightarrow> socket_addr_ok a" "read_socket_addr_v6 s = Some (a, rest) \<Longrightarrow> socket_addr_ok a"
  by (auto simp: read_socket_addr_v4_def read_socket_addr_v6_def read_ipv4_addr_def bind_eq_Some_conv case_prod_beta
      simp del: power_numeral intro!: read_scope_bound dest!: read_octets_bound read_ipv6_bound read_port_bound)

lemma parse_socket_addr_ok: "parse_socket_addr s = Some a \<Longrightarrow> socket_addr_ok a"
  by (auto simp: parse_socket_addr_def split: option.split_asm prod.split_asm list.split_asm intro: read_socket_addr_ok)

definition origin_ok :: "bytes \<Rightarrow> bool" where
  "origin_ok origin \<longleftrightarrow> (\<exists>host. (origin = ''http://'' @ host \<or> origin = ''https://'' @ host) \<and> host \<noteq> []
     \<and> CHR ''/'' \<notin> set host \<and> CHR ''?'' \<notin> set host \<and> CHR ''#'' \<notin> set host)"

definition cluster_ok :: "config_env \<Rightarrow> config \<Rightarrow> bool" where
  "cluster_ok E c \<longleftrightarrow> (case cg_cluster c of
     None \<Rightarrow> cg_profile c = SingleNode
   | Some k \<Rightarrow> cg_profile c = Clustered \<and> length (cc_key k) = 32 \<and> cc_key k \<noteq> cg_api_key c \<and> cc_key k \<noteq> cg_encryption_key c
       \<and> socket_addr_ok (cc_address k) \<and> is_ok (validate_internal_url (ce_url E (cc_advertised_url k)))
       \<and> is_absolute (cc_tls_certificate k) \<and> is_absolute (cc_tls_private_key k) \<and> is_absolute (cc_tls_ca k))"

definition config_ok :: "config_env \<Rightarrow> config \<Rightarrow> bool" where
  "config_ok E c \<longleftrightarrow> socket_addr_ok (cg_address c) \<and> origin_ok (cg_public_origin c)
     \<and> (\<exists>rest. cg_database_url c = ''postgres://'' @ rest \<or> cg_database_url c = ''postgresql://'' @ rest) \<and> length (cg_api_key c) = 32 \<and> length (cg_encryption_key c) = 32
     \<and> is_absolute (cg_ssh_runtime_root c) \<and> 0 < cg_epoch c \<and> cg_epoch c < 2 ^ 63
     \<and> 0 < cg_lease_safety_margin c \<and> cg_lease_safety_margin c < cg_lease_ttl c \<and> cg_lease_ttl c \<le> 300 * NS \<and> NS dvd cg_lease_ttl c
     \<and> NS \<le> cg_shutdown_timeout c \<and> cg_shutdown_timeout c \<le> 60 * NS
     \<and> (\<forall>name. cg_node_name c = Some name \<longrightarrow> name \<noteq> [] \<and> length name \<le> 128 \<and> \<not> chars_any char_is_control name)
     \<and> cluster_ok E c"

lemma validate_origin_ok: "validate_origin origin = Ok u \<Longrightarrow> origin_ok origin"
  by (auto simp: validate_origin_def origin_ok_def res_simps strip_prefix_Some_iff split: option.splits if_splits)

lemma decoded_length: "decode_canonical_32 B v = Ok k \<Longrightarrow> length k = 32"
  by (auto simp: decode_canonical_32_def split: option.splits if_splits)

lemma api_key_length: "api_key_parse B v = Ok k \<Longrightarrow> length k = 32"
  by (auto simp: api_key_parse_def split: option.splits dest: decoded_length)

lemma config_internal_url_ok: "config_internal_url E v = Ok u \<Longrightarrow> is_ok (validate_internal_url (ce_url E v))"
  by (auto simp: config_internal_url_def validate_internal_url_def res_simps split: if_splits)

lemma load_cluster_none:
  "load_cluster_config E profile api_key encryption_key = Ok None \<Longrightarrow> profile = SingleNode"
  by (auto simp: load_cluster_config_def res_simps split: if_splits)

lemma load_cluster_some:
  assumes "load_cluster_config E profile api_key encryption_key = Ok (Some k)"
  shows "profile = Clustered \<and> length (cc_key k) = 32 \<and> cc_key k \<noteq> api_key \<and> cc_key k \<noteq> encryption_key \<and> socket_addr_ok (cc_address k)
    \<and> is_ok (validate_internal_url (ce_url E (cc_advertised_url k)))
    \<and> is_absolute (cc_tls_certificate k) \<and> is_absolute (cc_tls_private_key k) \<and> is_absolute (cc_tls_ca k)"
  using assms
  by (cases profile) (auto simp: load_cluster_config_def res_simps split: if_splits option.splits
      dest: decoded_length parse_socket_addr_ok config_internal_url_ok)

lemma parse_number_i64: "parse_number E key parse_i64 1 = Ok n \<Longrightarrow> n < 2 ^ 63"
  by (auto simp: parse_number_def res_simps split: option.splits dest!: parse_i64_bound)

lemma r_bind_OkE: "r_bind m f = Ok b \<Longrightarrow> (\<And>a. m = Ok a \<Longrightarrow> f a = Ok b \<Longrightarrow> P) \<Longrightarrow> P"
  by (auto simp: res_simps)

lemma if_Err_OkE: "(if x then Err e else m) = Ok b \<Longrightarrow> (\<not> x \<Longrightarrow> m = Ok b \<Longrightarrow> P) \<Longrightarrow> P"
  by (auto split: if_splits)

lemma cluster_loaded:
  "load_cluster_config E (cg_profile c) (cg_api_key c) (cg_encryption_key c) = Ok (cg_cluster c) \<Longrightarrow> cluster_ok E c"
  using load_cluster_none load_cluster_some by (fastforce simp: cluster_ok_def split: option.split)

lemma config_loaded:
  assumes "load_config E = Ok c"
  shows "config_ok E c"
  using assms unfolding load_config_def Let_def
proof (elim r_bind_OkE if_Err_OkE, goal_cases)
  case (1 at address ot u database_url api_text api_key encryption_text encryption_key epoch ttl margin shutdown node_name pt profile cluster)
  from 1 have c: "c = \<lparr>cg_address = address, cg_web_dir = path_or E ''OWLMUX_WEB_DIR'' ''apps/web/dist'',
      cg_public_origin = (case ot of None \<Rightarrow> ''http://127.0.0.1:8080'' | Some v \<Rightarrow> v), cg_database_url = database_url, cg_api_key = api_key,
      cg_encryption_key = encryption_key, cg_ssh_runtime_root = path_or E ''OWLMUX_SSH_RUNTIME_ROOT'' ''/tmp/owlmux-ssh'', cg_epoch = epoch,
      cg_lease_ttl = ttl * NS, cg_lease_safety_margin = margin * NS, cg_shutdown_timeout = shutdown * NS, cg_node_name = node_name,
      cg_profile = profile, cg_cluster = cluster\<rparr>" by simp
  from 1 have "load_cluster_config E profile api_key encryption_key = Ok cluster" by blast
  then have cl: "cluster_ok E c" using cluster_loaded [of E c] unfolding c by simp
  from 1 have address: "socket_addr_ok address" by (simp add: res_simps parse_socket_addr_ok)
  have keys: "length api_key = 32" "length encryption_key = 32" using 1 by (simp_all add: res_simps api_key_length decoded_length)
  have origin: "origin_ok (case ot of None \<Rightarrow> ''http://127.0.0.1:8080'' | Some v \<Rightarrow> v)" by (rule validate_origin_ok) (rule 1)
  have epoch: "0 < epoch" "epoch < 2 ^ 63" using 1 parse_number_i64 by (simp_all add: not_le)
  have name: "\<And>name. node_name = Some name \<Longrightarrow> name \<noteq> [] \<and> length name \<le> 128 \<and> \<not> chars_any char_is_control name" using 1 by auto
  have times: "0 < margin" "margin < ttl" "ttl \<le> 300" "1 \<le> shutdown" "shutdown \<le> 60" using 1 by (auto simp: not_le not_less)
  have root: "is_absolute (path_or E ''OWLMUX_SSH_RUNTIME_ROOT'' ''/tmp/owlmux-ssh'')" using 1 by blast
  have "starts_with ''postgres://'' database_url \<or> starts_with ''postgresql://'' database_url" using 1 by blast
  then have database: "\<exists>rest. database_url = ''postgres://'' @ rest \<or> database_url = ''postgresql://'' @ rest"
    unfolding starts_with_iff by blast
  show ?case unfolding config_ok_def using cl address keys origin database epoch name times root by (simp add: c)
qed


section \<open>Nodes of one cluster\<close>

definition proof_input :: "config_env \<Rightarrow> config \<Rightarrow> uuid \<Rightarrow> configuration_input" where
  "proof_input E c d = \<lparr>cf_deployment_id = d, cf_config_epoch = cg_epoch c, cf_server_build_id = ce_build_id E,
     cf_api_key_digest = ce_sha E (cg_api_key c), cf_encryption_key_digest = ce_sha E (cg_encryption_key c), cf_public_origin = cg_public_origin c\<rparr>"

text \<open>What the configuration proof of a node is computed from.\<close>

definition mac_inputs :: "config_env \<Rightarrow> config \<Rightarrow> uuid \<Rightarrow> (bytes \<times> bytes) set" where
  "mac_inputs E c d = (\<lambda>k. (cc_key k, configuration_transcript (proof_input E c d))) ` set_option (cg_cluster c)"

definition short_settings :: "config_env \<Rightarrow> config \<Rightarrow> bool" where
  "short_settings E c \<longleftrightarrow> length (ce_build_id E) < 2 ^ 32 \<and> length (cg_public_origin c) < 2 ^ 32 \<and> (\<forall>x. length (ce_sha E x) = 32)"

lemma proof_input_wf: "config_ok E c \<Longrightarrow> short_settings E c \<Longrightarrow> input_wf (proof_input E c d)"
  by (simp add: config_ok_def short_settings_def input_wf_def proof_input_def is_i64_def)

lemma config_proof_eq: "config_proof E c d = map_option (\<lambda>k. ce_hmac E (cc_key k) (configuration_transcript (proof_input E c d))) (cg_cluster c)"
  by (simp add: config_proof_def configuration_proof_def proof_input_def)

lemma proofs_agree:
  assumes "config_ok E c" "config_ok E' c'" "short_settings E c" "short_settings E' c'" "ce_hmac E' = ce_hmac E"
    and inj: "inj_on (case_prod (ce_hmac E)) (mac_inputs E c d \<union> mac_inputs E' c' d)"
    and "config_proof E c d = config_proof E' c' d" "cg_cluster c = Some k"
  shows "\<exists>k'. cg_cluster c' = Some k' \<and> cc_key k' = cc_key k \<and> proof_input E' c' d = proof_input E c d"
proof -
  from assms(7,8) obtain k' where k': "cg_cluster c' = Some k'"
    "ce_hmac E (cc_key k) (configuration_transcript (proof_input E c d)) = ce_hmac E (cc_key k') (configuration_transcript (proof_input E' c' d))"
    by (auto simp: config_proof_eq assms(5) map_option_case split: option.splits)
  with inj_onD [OF inj, of "(cc_key k, configuration_transcript (proof_input E c d))" "(cc_key k', configuration_transcript (proof_input E' c' d))"]
  have "cc_key k' = cc_key k" "configuration_transcript (proof_input E c d) = configuration_transcript (proof_input E' c' d)"
    by (auto simp: mac_inputs_def assms(8))
  with k'(1) configuration_transcript_inject [OF proof_input_wf [OF assms(1,3)] proof_input_wf [OF assms(2,4)]] show ?thesis by metis
qed

text \<open>C20. Nodes that are admitted to the same deployment of a cluster run with the same settings: if two nodes, each with its own
  environment, both pass the deployment check of their registration, they agree on the build, the epoch, the public origin,
  the API key, the encryption key and the cluster key, as long as SHA-256 and HMAC do not collide on their inputs.\<close>

theorem admitted_nodes_share_settings:
  assumes "load_config E = Ok c" "load_config E' = Ok c'" and libs: "ce_sha E' = ce_sha E" "ce_hmac E' = ce_hmac E"
    and "short_settings E c" "short_settings E' c'" and "cg_profile c = Clustered"
    and "inj_on (case_prod (ce_hmac E)) (mac_inputs E c d \<union> mac_inputs E' c' d)"
    and sha: "inj_on (ce_sha E) {cg_api_key c, cg_encryption_key c, cg_api_key c', cg_encryption_key c'}"
    and "validate_deployment (new_lease E c i d) db = Ok d" "validate_deployment (new_lease E' c' i' d) db = Ok d"
  shows "ce_build_id E' = ce_build_id E \<and> cg_epoch c' = cg_epoch c \<and> cg_public_origin c' = cg_public_origin c
    \<and> cg_api_key c' = cg_api_key c \<and> cg_encryption_key c' = cg_encryption_key c
    \<and> map_option cc_key (cg_cluster c') = map_option cc_key (cg_cluster c)"
proof -
  from assms(1,2) have ok: "config_ok E c" "config_ok E' c'" by (simp_all add: config_loaded)
  from assms(7) ok(1) obtain k where k: "cg_cluster c = Some k" by (auto simp: config_ok_def cluster_ok_def split: option.splits)
  from assms(10,11) have "config_proof E c d = config_proof E' c' d"
    by (auto simp: validate_deployment_def new_lease_def split: option.splits if_splits)
  from proofs_agree [OF ok assms(5,6,4,8) this k] obtain k' where k': "cg_cluster c' = Some k'" "cc_key k' = cc_key k"
    and eq: "proof_input E' c' d = proof_input E c d" by blast
  from eq libs have "ce_sha E (cg_api_key c') = ce_sha E (cg_api_key c)" "ce_sha E (cg_encryption_key c') = ce_sha E (cg_encryption_key c)"
    by (simp_all add: proof_input_def)
  then have "cg_api_key c' = cg_api_key c" "cg_encryption_key c' = cg_encryption_key c" by (auto intro: inj_onD [OF sha])
  with eq k k' show ?thesis by (simp add: proof_input_def)
qed

section \<open>Starting\<close>

lemma register_Ok:
  assumes "bo_clock B = Ok b" "bo_clock_again B = Ok b2" "b \<le> b2" "b2 < b + nl_ttl n - nl_safety_margin n" "nl_clock_last n = None"
    "nl_hard_deadline_ns n = 0" "\<not> nl_fenced n" and "register_body (bo_register_now B) (n\<lparr>nl_clock_last := Some b\<rparr>) db = Ok db'"
  shows "lease_register (bo_clock B) TxCommit (bo_register_now B) (bo_clock_again B) n db
    = (Ok (n\<lparr>nl_clock_last := Some b2, nl_hard_deadline_ns := duration_ns (b + nl_ttl n - nl_safety_margin n)\<rparr>), db')"
  using assms by (auto simp: lease_register_def read_clock_def boot_now_def register_database_def run_tx_def install_deadline_def Let_def)

lemma deployment_row_after:
  assumes "initialize_or_validate lower X C fate BE st = (Ok d, st')"
    and "\<And>r. ld_deployment (st_nodes st) = Some r \<Longrightarrow> dp_relay_protocol_version r = 1"
  shows "ld_deployment (st_nodes st') = Some \<lparr>dp_id = d, dp_config_epoch = sg_epoch C, dp_server_build_id = sg_build_id C,
      dp_relay_protocol_version = 1, dp_profile = sg_profile C, dp_config_proof = sg_proof C d\<rparr>" "ld_nodes (st_nodes st') = ld_nodes (st_nodes st)"
  using assms
  by (auto simp: initialize_or_validate_def validate_store_def initialize_store_def Let_def res_simps split: if_splits option.splits db_fate.splits sum.splits)

text \<open>What a start needs from outside: the database answers and holds no deployment of another protocol, the file system answers and
  makes private files, no other process holds the runtime root, and the node is new to the database, in which for a single
  node no lease is left.\<close>

definition start_conditions :: "boot_env \<Rightarrow> config \<Rightarrow> boot_world \<Rightarrow> bool" where
  "start_conditions B c w \<longleftrightarrow> bo_connects B \<and> bo_migrates B \<and> bo_pools B \<and> bo_register_fate B = TxCommit
     \<and> (\<forall>r. ld_deployment (st_nodes (bw_store w)) = Some r \<longrightarrow> dp_relay_protocol_version r = 1)
     \<and> bo_incarnation B \<notin> nr_incarnation_id ` set (ld_nodes (st_nodes (bw_store w)))
     \<and> (cg_profile c = SingleNode \<longrightarrow> (\<forall>r \<in> set (ld_nodes (st_nodes (bw_store w))). nr_lease_until r \<le> bo_register_now B))
     \<and> quiet (bo_fs B) \<and> private_mask (bo_fs B) \<and> uuid_text_ok (bo_uuid B) \<and> tree_ok (bo_uuid B) (fe_uid (bo_fs B)) (sd_fs (bw_disk w))
     \<and> \<not> sd_locked (bw_disk w)"

lemma configured_registers:
  assumes "config_ok E c" and "ld_deployment db = Some \<lparr>dp_id = d, dp_config_epoch = cg_epoch c, dp_server_build_id = ce_build_id E,
      dp_relay_protocol_version = 1, dp_profile = profile_database_value c, dp_config_proof = config_proof E c d\<rparr>"
    and "i \<notin> nr_incarnation_id ` set (ld_nodes db)"
    and "cg_profile c = SingleNode \<longrightarrow> (\<forall>r \<in> set (ld_nodes db). nr_lease_until r \<le> now)"
    and "url_column_ok (map_option cc_advertised_url (cg_cluster c))"
  shows "\<exists>db'. register_body now ((new_lease E c i d)\<lparr>nl_clock_last := x\<rparr>) db = Ok db'
    \<and> (\<exists>r \<in> set (ld_nodes db'). nr_incarnation_id r = i \<and> nr_lease_until r = now + cg_lease_ttl c)"
proof -
  from assms(1) have ttl: "cg_lease_ttl c div NS * NS = cg_lease_ttl c" "cg_lease_ttl c div NS \<le> 300" "cg_lease_ttl c div NS < 2 ^ 63"
    by (auto simp: config_ok_def)
  have "\<not> (profile_database_value c = ''single_node'' \<and> list_ex (\<lambda>r. now < nr_lease_until r) (ld_nodes db))"
    using assms(4) by (auto simp: profile_database_value_def list_ex_iff split: deployment_profile.splits)
  with assms(2,3,5) ttl show ?thesis
    by (auto simp: register_body_def validate_deployment_def new_lease_def ttl_seconds_def append_audit_def r_bind_def)
qed

lemma configured_starts:
  assumes "load_config E = Ok c" and "start_conditions B c w" and url: "url_column_ok (map_option cc_advertised_url (cg_cluster c))"
    and store: "initialize_or_validate (bo_lower B) (bo_aead B) (store_config_of E c) (bo_fate B) (bo_store B) (bw_store w) = (Ok d, st)"
    and clock: "bo_clock B = Ok b" "bo_clock_again B = Ok b2" "b \<le> b2" "b2 < b + cg_lease_ttl c - cg_lease_safety_margin c"
      "b + cg_lease_ttl c \<le> U64_MAX"
  shows "\<exists>S w'. server_bootstrap E B c w = (Ok S, w') \<and> ss_deployment_id S = d
    \<and> (\<exists>r \<in> set (ld_nodes (st_nodes (bw_store w'))). nr_incarnation_id r = bo_incarnation B \<and> nr_lease_until r = bo_register_now B + cg_lease_ttl c)
    \<and> (\<forall>t \<ge> b2. fst (lease_is_ready (Ok t) (ss_lease S)) \<longleftrightarrow> t < b + cg_lease_ttl c - cg_lease_safety_margin c)"
proof -
  let ?n = "new_lease E c (bo_incarnation B) d" and ?until = "b + cg_lease_ttl c - cg_lease_safety_margin c"
  note start = assms(2) [unfolded start_conditions_def]
  then have V: "quiet (bo_fs B)" "private_mask (bo_fs B)" "uuid_text_ok (bo_uuid B)" "tree_ok (bo_uuid B) (fe_uid (bo_fs B)) (sd_fs (bw_disk w))"
    "\<not> sd_locked (bw_disk w)" by simp_all
  have ok: "config_ok E c" using assms(1) by (rule config_loaded)
  have row: "ld_deployment (st_nodes st) = Some \<lparr>dp_id = d, dp_config_epoch = cg_epoch c, dp_server_build_id = ce_build_id E,
      dp_relay_protocol_version = 1, dp_profile = profile_database_value c, dp_config_proof = config_proof E c d\<rparr>"
    "ld_nodes (st_nodes st) = ld_nodes (st_nodes (bw_store w))"
    using deployment_row_after [OF store] start by (simp_all add: store_config_of_def)
  from configured_registers [OF ok row(1), of "bo_incarnation B" "bo_register_now B" "Some b"] start row(2) url obtain db r where
    reg: "register_body (bo_register_now B) (?n\<lparr>nl_clock_last := Some b\<rparr>) (st_nodes st) = Ok db"
    and r: "r \<in> set (ld_nodes db)" "nr_incarnation_id r = bo_incarnation B" "nr_lease_until r = bo_register_now B + cg_lease_ttl c" by auto
  have lease: "lease_register (bo_clock B) TxCommit (bo_register_now B) (bo_clock_again B) ?n (st_nodes st)
      = (Ok (?n\<lparr>nl_clock_last := Some b2, nl_hard_deadline_ns := duration_ns ?until\<rparr>), db)"
    using register_Ok [OF clock(1-3) _ _ _ _ reg] clock(4) by (simp add: new_lease_def)
  obtain rt disk where "runtime_create (bo_fs B) (bo_uuid B) (bo_instance B) (bw_disk w) = (Ok rt, disk)"
    using creates_runtime [OF V(1-3) refl V(4,5), of "bo_instance B"] by (elim exE conjE) (rule that)
  with lease store start have run: "server_bootstrap E B c w = (Ok \<lparr>ss_deployment_id = d, ss_ssh = rt,
      ss_lease = ?n\<lparr>nl_clock_last := Some b2, nl_hard_deadline_ns := duration_ns ?until\<rparr>\<rparr>, \<lparr>bw_store = st\<lparr>st_nodes := db\<rparr>, bw_disk = disk\<rparr>)"
    by (simp add: server_bootstrap_def database_bootstrap_def)
  have "fst (lease_is_ready (Ok t) (?n\<lparr>nl_clock_last := Some b2, nl_hard_deadline_ns := duration_ns ?until\<rparr>)) \<longleftrightarrow> t < ?until" if "b2 \<le> t" for t
    using that clock ok
    by (auto simp: lease_is_ready_def lease_check_def read_clock_def boot_now_def new_lease_def duration_ns_def config_ok_def)
  with run r show ?thesis by (intro exI conjI) auto
qed

text \<open>A registration with an advertised URL that its column refuses fails, whatever else holds.\<close>

lemma refused_url_never_registers:
  assumes "\<not> url_column_ok (nl_internal_wss_url n)"
  shows "\<not> is_ok (fst (lease_register rd fate now rd' n db))"
proof -
  have "\<not> is_ok (fst (register_database fate now n' db))" if "nl_internal_wss_url n' = nl_internal_wss_url n" for n'
    using that assms by (auto simp: register_database_def run_tx_def register_body_def is_ok_def r_bind_def split: sum.splits)
  moreover have "nl_internal_wss_url (snd (read_clock rd n)) = nl_internal_wss_url n"
    by (simp add: read_clock_def split: sum.splits prod.splits)
  ultimately show ?thesis
    by (auto simp: lease_register_def is_ok_def split: sum.splits prod.splits) (metis fst_conv snd_conv old.sum.simps(6))
qed

lemma refused_url_never_starts:
  assumes "\<not> url_column_ok (map_option cc_advertised_url (cg_cluster c))"
  shows "\<not> is_ok (fst (server_bootstrap E B c w))"
proof -
  have "\<not> is_ok (fst (lease_register rd fate now rd' (new_lease E c i d) db))" for rd fate now rd' i d db
    by (rule refused_url_never_registers) (simp add: new_lease_def assms)
  then show ?thesis
    by (auto simp: server_bootstrap_def is_ok_def split: sum.splits prod.splits) (metis fst_conv old.sum.simps(6))
qed


section \<open>Witnesses\<close>

definition sample_settings :: "(bytes \<times> bytes) list" where
  "sample_settings = [(''OWLMUX_DATABASE_URL'', ''postgres://db''), (''OWLMUX_API_KEY'', ''owlmux_sk_v1_'' @ replicate 32 (CHR ''k'')),
     (''OWLMUX_SSH_KEY_ENCRYPTION_KEY'', replicate 32 (CHR ''e'')), (''OWLMUX_ADDR'', ''[2001:db8::10.0.0.7%3]:443'')]"

definition sample_cluster_settings :: "(bytes \<times> bytes) list" where
  "sample_cluster_settings = [(''OWLMUX_PROFILE'', ''clustered''), (''OWLMUX_CLUSTER_KEY'', replicate 32 (CHR ''c'')), (''OWLMUX_INTERNAL_ADDR'', ''10.0.0.7:7443''),
     (''OWLMUX_INTERNAL_URL'', ''wss://a/internal/v1/owner''), (''OWLMUX_INTERNAL_TLS_CERT'', ''/c''), (''OWLMUX_INTERNAL_TLS_KEY'', ''/k''),
     (''OWLMUX_INTERNAL_TLS_CA'', ''/a'')]"

definition sample_config_env :: "(bytes \<times> bytes) list \<Rightarrow> config_env" where
  "sample_config_env settings = \<lparr>ce_read = map_of (settings @ sample_settings), ce_base64 = sample_base64,
     ce_url = (\<lambda>_. Some \<lparr>up_scheme = ''wss'', up_host = Some ''a'', up_path = ''/internal/v1/owner'', up_query = None, up_fragment = None,
       up_username = [], up_password = None, up_port = None\<rparr>),
     ce_sha = (\<lambda>x. take 32 (x @ replicate 32 (CHR ''z''))), ce_hmac = (@), ce_build_id = ''build''\<rparr>"

definition sample_config :: "(bytes \<times> bytes) list \<Rightarrow> config" where
  "sample_config settings = projr (load_config (sample_config_env settings))"

lemma sample_loads:
  "load_config (sample_config_env []) = Ok (sample_config [])"
  "load_config (sample_config_env sample_cluster_settings) = Ok (sample_config sample_cluster_settings)"
  "load_config (sample_config_env ((''OWLMUX_NODE_NAME'', ''n2'') # sample_cluster_settings)) = Ok (sample_config ((''OWLMUX_NODE_NAME'', ''n2'') # sample_cluster_settings))"
  by code_simp+


abbreviation (input) first_node :: "(bytes \<times> bytes) list" where "first_node \<equiv> sample_cluster_settings"
abbreviation (input) second_node :: "(bytes \<times> bytes) list" where "second_node \<equiv> (''OWLMUX_NODE_NAME'', ''n2'') # sample_cluster_settings"

lemma sample_nodes_agree:
  "cg_cluster (sample_config second_node) = cg_cluster (sample_config first_node)"
  "proof_input (sample_config_env second_node) (sample_config second_node) 3 = proof_input (sample_config_env first_node) (sample_config first_node) 3"
  "cg_profile (sample_config first_node) = Clustered" "cg_profile (sample_config second_node) = Clustered"
  "cg_epoch (sample_config first_node) = 1" "cg_epoch (sample_config second_node) = 1"
  "cg_public_origin (sample_config first_node) = ''http://127.0.0.1:8080''" "cg_public_origin (sample_config second_node) = ''http://127.0.0.1:8080''"
  "cg_api_key (sample_config first_node) = replicate 32 (CHR ''k'')" "cg_api_key (sample_config second_node) = replicate 32 (CHR ''k'')"
  "cg_encryption_key (sample_config first_node) = replicate 32 (CHR ''e'')" "cg_encryption_key (sample_config second_node) = replicate 32 (CHR ''e'')"
  by code_simp+

definition sample_cluster_db :: lease_db where
  "sample_cluster_db = \<lparr>ld_deployment = Some \<lparr>dp_id = 3, dp_config_epoch = 1, dp_server_build_id = ''build'', dp_relay_protocol_version = 1,
     dp_profile = ''clustered'', dp_config_proof = config_proof (sample_config_env first_node) (sample_config first_node) 3\<rparr>, ld_nodes = [], ld_audit = []\<rparr>"

lemma sample_proofs: "config_proof (sample_config_env second_node) (sample_config second_node) 3 = config_proof (sample_config_env first_node) (sample_config first_node) 3"
  by (simp only: config_proof_eq sample_nodes_agree(1,2)) (simp add: sample_config_env_def)

theorem admitted_nodes_share_settings_witness:
  "cg_encryption_key (sample_config second_node) = cg_encryption_key (sample_config first_node)"
proof -
  have "inj_on (case_prod (ce_hmac (sample_config_env first_node))) (mac_inputs (sample_config_env first_node) (sample_config first_node) 3
      \<union> mac_inputs (sample_config_env second_node) (sample_config second_node) 3)"
    unfolding mac_inputs_def sample_nodes_agree(1,2) by (cases "cg_cluster (sample_config first_node)") auto
  moreover have "short_settings (sample_config_env first_node) (sample_config first_node)" "short_settings (sample_config_env second_node) (sample_config second_node)"
    unfolding short_settings_def sample_nodes_agree by (auto simp: sample_config_env_def)
  moreover have "inj_on (ce_sha (sample_config_env first_node)) {cg_api_key (sample_config first_node), cg_encryption_key (sample_config first_node),
      cg_api_key (sample_config second_node), cg_encryption_key (sample_config second_node)}"
    unfolding sample_nodes_agree by (auto simp: sample_config_env_def inj_on_def numeral_eq_Suc)
  moreover have "validate_deployment (new_lease (sample_config_env first_node) (sample_config first_node) 7 3) sample_cluster_db = Ok 3"
    "validate_deployment (new_lease (sample_config_env second_node) (sample_config second_node) 8 3) sample_cluster_db = Ok 3"
    by (simp_all add: validate_deployment_def new_lease_def sample_cluster_db_def profile_database_value_def sample_nodes_agree sample_proofs)
      (simp_all add: sample_config_env_def)
  ultimately show ?thesis
    using admitted_nodes_share_settings [OF sample_loads(2,3), of 3 7 sample_cluster_db 8] sample_nodes_agree(3) by (simp add: sample_config_env_def)
qed

definition sample_boot :: boot_env where
  "sample_boot = \<lparr>bo_connects = True, bo_migrates = True, bo_pools = True, bo_lower = id, bo_aead = sample_aead, bo_fate = DB_Commit, bo_store = sample_bootstrap,
     bo_fs = sample_disk_env 0x3F {}, bo_uuid = sample_uuid_text, bo_instance = 7, bo_incarnation = 9, bo_clock = Ok 10, bo_register_fate = TxCommit,
     bo_register_now = 1000, bo_clock_again = Ok 20\<rparr>"

definition sample_boot_world :: boot_world where
  "sample_boot_world = \<lparr>bw_store = empty_store [], bw_disk = sample_blank\<rparr>"

lemma sample_boot_store:
  "\<exists>st. initialize_or_validate (bo_lower sample_boot) (bo_aead sample_boot) (store_config_of (sample_config_env []) (sample_config [])) (bo_fate sample_boot)
     (bo_store sample_boot) (bw_store sample_boot_world) = (Ok 3, st)"
proof -
  have enc: "cg_encryption_key (sample_config []) = replicate 32 (CHR ''e'')" by code_simp
  show ?thesis
    by (simp add: initialize_or_validate_def initialize_store_def Let_def generate_credential_def seal_def associated_data_def
        ENVELOPE_DOMAIN_def credential_fits_def empty_store_def empty_world_def sample_aead_def store_config_of_def sample_bootstrap_def res_simps
        sample_boot_def sample_boot_world_def enc)
qed


text \<open>The scheme of a URL may be written in capitals, which the URL library accepts and reads as \<open>wss\<close>: these settings load, and
  the server never starts with them.\<close>

lemma uppercase_scheme_never_starts:
  "\<exists>c. load_config (sample_config_env ((''OWLMUX_INTERNAL_URL'', ''WSS://a/internal/v1/owner'') # sample_cluster_settings)) = Ok c
    \<and> (\<forall>B w. \<not> is_ok (fst (server_bootstrap (sample_config_env ((''OWLMUX_INTERNAL_URL'', ''WSS://a/internal/v1/owner'') # sample_cluster_settings)) B c w)))"
proof -
  let ?s = "(''OWLMUX_INTERNAL_URL'', ''WSS://a/internal/v1/owner'') # sample_cluster_settings"
  have "load_config (sample_config_env ?s) = Ok (sample_config ?s)" by code_simp
  moreover have "\<not> url_column_ok (map_option cc_advertised_url (cg_cluster (sample_config ?s)))" by code_simp
  ultimately show ?thesis by (intro exI [of _ "sample_config ?s"] conjI allI refused_url_never_starts)
qed

end
