(* ===== verification/Spec2Isabelle.thy ===== *)
theory Spec2Isabelle
  imports Tmux_Control Attachment_Session Tunnel_System Owner_Exclusive Custody Owner_Route
    Admission Cluster Relay_Agent Enrollment Ssh_Runtime Ssh_Access Configuration
begin

text \<open>
  OwlMux gives a Browser access to tmux sessions on machines behind a firewall. Three programs take part. A \<^bold>\<open>Server\<close>
  (\<open>crates/owlmux-server\<close>), alone or in a cluster over one PostgreSQL database, offers the HTTP API and the attachment
  WebSocket. A \<^bold>\<open>Relay\<close> (\<open>crates/owlmux-relay\<close>) on each machine enrols with a token and then keeps a tunnel to the
  Server node that owns the machine. Through the tunnel the owner runs OpenSSH against the machine's own SSH daemon and
  talks to tmux in control mode. This development models both crates as executable definitions and proves what makes
  them correct. Paths below are relative to \<open>crates/owlmux-server/src\<close> unless they name the Relay.

  \<^bold>\<open>Conventions.\<close> A Rust \<open>Result\<close> is a sum with \<open>Ok\<close> and \<open>Err\<close> for \<open>Inr\<close> and \<open>Inl\<close>; code that changes state is an
  operation of type \<open>'s \<Rightarrow> ('e + 'a) \<times> 's\<close> composed with \<open>sr_bind\<close> (theory \<open>Prelude\<close>), so that an early return keeps the
  effects before it. A \<open>str\<close> or \<open>Vec<u8>\<close> is a list of bytes, a struct a record, an enum a datatype. Shared structs
  behind an \<open>Arc\<close> are cells of an explicit heap where aliasing matters (\<open>Writer\<close>, \<open>Relay_Registry\<close>). A database
  transaction is a function on the tables together with a fate: committed, refused, or committed or lost with an unknown
  answer. What the operating system, the network, a clock, a child process or another task does is an input of the
  operation that meets it. Third-party code (cipher, hash, MAC, signatures, base64, JSON, UUID and URL text) is a
  parameter, and a theorem that needs its documented behaviour states it as a hypothesis and has a witness that
  instantiates it.

  \<^bold>\<open>Foundations.\<close> \<open>Prelude\<close>: results, state operations, rules for what an operation keeps (\<open>sr_keeps\<close>) or yields, weakest
  preconditions, and the locale of invariants of a step function. \<open>Rust_Std\<close>: UTF-8, splitting, trimming, integer
  parsing and printing. \<open>Contracts\<close>: the bounds of the wire contracts and the error types.

  \<^bold>\<open>tmux.\<close> \<open>Tmux_Parse\<close> has the pure functions of \<open>tmux.rs\<close>, \<open>Tmux_Control\<close> its \<open>ControlAdapter\<close>, \<open>Control_Child\<close> the
  child it reads and writes. Shown: a hydrated projection is consistent and bounded; the adapter keeps its queues and lines
  within their limits whatever the target sends; a mutating command is reported succeeded or failed only if it was
  sent once and the bytes read hold the target's answer to it; octal escapes above 377 wrap.

  \<^bold>\<open>Attachments.\<close> \<open>Writer\<close> is \<open>writer.rs\<close>, refined to a cell with one holder. \<open>Attachment_Frames\<close>, \<open>Attachment\<close> and
  \<open>Attachment_Session\<close> are \<open>attachment.rs\<close>: frames in and out, the handlers of chooser and workspace, and the life of an
  attachment. Shown: the writer role passes only after the previous writer's control client, if it has one, confirmed
  its demotion; observers cannot touch the target; pane input is sent exactly once and unchanged; each request is
  answered once and audited as its operation demands; the frames of a projection let the Browser reassemble it.

  \<^bold>\<open>Lease and ownership.\<close> \<open>Node_Lease\<close> is \<open>clock.rs\<close> and \<open>deployment.rs\<close>. \<open>Relay_Db\<close> has the transactions of
  \<open>relay/mod.rs\<close> and \<open>api/mod.rs\<close> on machines, enrolments, attempts, bindings, owners and credentials; \<open>Machine_Lifecycle\<close>
  an abstract state machine of one machine, \<open>Machine_System\<close> the runs of all transactions, which refine it.
  \<open>Owner_Exclusive\<close> puts leases and tables together. Shown: one authorised node in a single-node deployment, and
  across a cluster one owner of a machine and route revision, whatever crashes and lost answers do. Boot clocks count
  real time; the database clock may be adjusted, but within a lease it gains no more than the safety margin, which is what
  the margin is for. Further: pins never change and epochs grow; a token is used once; a token can be issued again after
  an abandoned enrolment; a transition of a machine is answered as what happened to it, or as ambiguous.

  \<^bold>\<open>Routes and the cluster.\<close> \<open>Relay_Registry\<close> is the in-memory registry of \<open>relay/mod.rs\<close>, \<open>Owner_Route\<close> is \<open>owner.rs\<close> and the
  machine handlers of \<open>api/mod.rs\<close>, \<open>Cluster\<close> is \<open>cluster.rs\<close> and \<open>internal.rs\<close>. Shown: what a machine is presented
  with is what routing would do; what a node accepts is a message made with the cluster key for exactly this route,
  this node and the nonce it sent; a transition through a remote owner compares with the database.

  \<^bold>\<open>Relay.\<close> \<open>Relay_Protocol\<close> has the frames and the signed text, \<open>Relay_Tunnel\<close> and \<open>Relay_Client\<close> the two ends of a tunnel,
  \<open>Tunnel_System\<close> their composition over FIFO channels, \<open>Enrollment\<close> the Server's enrolment and tunnel authentication,
  \<open>Relay_Agent\<close> the Relay's command line, state file and dialogue (\<open>main.rs\<close> and \<open>state.rs\<close> of the Relay). Shown: each
  stream delivers its bytes in order and on the right stream, as an abstract pipe; an enrolment needs every proof; a
  tunnel needs the binding's key; a Relay vouches only for what its operator typed or gave as an option, and signs with its own
  key. Two runs that end the Relay process with a correct Server are shown too: data behind a failed connect, and a
  stream count that differs between the ends.

  \<^bold>\<open>Credentials, SSH and start.\<close> \<open>Credentials\<close> is \<open>crypto.rs\<close>, \<open>auth.rs\<close> and the credential handlers of \<open>api/mod.rs\<close>,
  \<open>Custody\<close> is \<open>initialize_or_validate\<close> of \<open>storage.rs\<close>. \<open>Ssh_Runtime\<close> is the runtime directory of \<open>ssh.rs\<close> over a
  directory tree whose system calls may fail at any point, \<open>Ssh_Access\<close> its operations, from the discovery of a host key to
  the start of a control client. \<open>Configuration\<close> is \<open>config.rs\<close> and \<open>ServerState::bootstrap\<close> of \<open>service.rs\<close>, with the
  rules by which \<open>std::net\<close> reads socket addresses. \<open>Admission\<close> has the connection limits of \<open>service.rs\<close> and the
  authentication in \<open>api/mod.rs\<close> and \<open>attachment.rs\<close>. Shown: credentials in use stay usable and a deployment restarts;
  every OpenSSH child that uses a credential has the pinned host key, the machine's own key and a quoted command, and
  discovery runs without either; an operation leaves nothing behind; cleaning removes nothing but what the runtime itself
  makes and, with the mask \<open>077\<close>, clears every leftover, while under another mask a start that is cut off blocks all later
  ones; loaded settings satisfy the checks of loading, nodes of a cluster share them, and a configured server starts and
  serves for its lease unless the database refuses its advertised URL; the doors stay within their limits and forward
  exactly the requests with room and the configured key.

  \<^bold>\<open>Bounds and fuel.\<close> No definition uses fuel: every loop of the model is recursion over finite input (a list of read events,
  socket messages or rows), or has a termination measure, such as the bytes left or the retries of a hydration. Loops
  that the code runs for ever are step relations, and theorems about them range over all reachable states. Integers are
  unbounded where the code's checks keep them in range, which is then proved; otherwise they are words or carry
  their bound.

  \<^bold>\<open>Not modelled.\<close> The assembly of routers, headers and static assets (\<open>lib.rs\<close>), the accept loop and the order of shutdown
  (\<open>main.rs\<close>, \<open>runtime.rs\<close>), connection pools and migrations, and the TCP bridge between OpenSSH and a tunnel stream are
  calls into tokio, hyper, axum, tower and sqlx with no logic of their own. The copying of Browser frames to a remote owner
  (\<open>proxy_attachment\<close> in \<open>internal.rs\<close>) and the HTTP upgrade in front of an attachment are left out; an attachment starts at
  its owner. JSON bodies of the API and texts for operators and logs are not described. Generated constants appear
  as abbreviations.
\<close>

end
